(* ===== verification/Prelude.thy ===== *)
theory Prelude
  imports Main "HOL-Library.List_Lexorder" "HOL-Library.Char_ord" "HOL-Library.AList"
begin

text \<open>
  Shared vocabulary of the development: JavaScript values the components pass around, and the
  generic lemmas their proofs use.

  A JavaScript object used as a dictionary (\<^verbatim>\<open>Record<string, T>\<close>) and a \<^verbatim>\<open>Map\<close> are
  insertion-ordered association lists with distinct keys: an assignment to a present key keeps its
  place, an assignment to a new key goes to the end, which is \<^const>\<open>AList.update\<close>. (JavaScript
  enumerates keys that spell array indices first; the ids of this program carry a letter prefix, and
  no theorem here depends on where such a key would come in an enumeration.) A \<^verbatim>\<open>Set\<close> is
  a distinct list in insertion order. A component whose dictionary is only ever read by key uses a
  HOL map instead. A string is a list of characters (one character per code unit), ordered
  lexicographically as JavaScript's \<^verbatim>\<open><\<close> orders strings.
\<close>

section \<open>Collections of simplification rules\<close>

named_theorems js_simps \<open>unfolding rules for the JavaScript containers\<close>

section \<open>Errors and JSON values\<close>

text \<open>What the modelled code can throw.\<close>

datatype js_error =
    SyntaxError string
  | ClockDrift int
  | NotSharded

text \<open>
  The JSON values a field leaf or a message can carry. \<open>JNum\<close> is a number with an integer value,
  \<open>JDec\<close> any other number, given by its literal.
\<close>

datatype json =
    JNull
  | JBool bool
  | JNum int
  | JDec string
  | JStr string
  | JArr "json list"
  | JObj "(string \<times> json) list"

section \<open>Dictionaries in insertion order\<close>

type_synonym 'v obj = "(string \<times> 'v) list"

abbreviation obj_set :: "('k \<times> 'v) list \<Rightarrow> 'k \<Rightarrow> 'v \<Rightarrow> ('k \<times> 'v) list" where
  "obj_set o' k v \<equiv> AList.update k v o'"

abbreviation obj_delete :: "('k \<times> 'v) list \<Rightarrow> 'k \<Rightarrow> ('k \<times> 'v) list" where
  "obj_delete o' k \<equiv> AList.delete k o'"

abbreviation obj_keys :: "('k \<times> 'v) list \<Rightarrow> 'k list" where
  "obj_keys o' \<equiv> map fst o'"

definition obj_ok :: "('k \<times> 'v) list \<Rightarrow> bool" where
  "obj_ok o' \<longleftrightarrow> distinct (obj_keys o')"

lemma obj_set_get [js_simps]: "map_of (obj_set o' k v) = (map_of o')(k \<mapsto> v)"
  by (rule ext) (simp add: update_conv)

lemma obj_delete_get [js_simps]: "map_of (obj_delete o' k) = (map_of o')(k := None)"
  by (rule ext) (simp add: delete_conv)

lemma obj_set_ok [js_simps, intro]: "obj_ok o' \<Longrightarrow> obj_ok (obj_set o' k v)"
  by (simp add: obj_ok_def distinct_update)

lemma obj_delete_ok [js_simps, intro]: "obj_ok o' \<Longrightarrow> obj_ok (obj_delete o' k)"
  by (simp add: obj_ok_def distinct_delete)

lemma obj_ok_Nil [js_simps]: "obj_ok []"
  by (simp add: obj_ok_def)

text \<open>Writing back the value a key already has changes nothing, order included.\<close>

lemma obj_set_same: "map_of o' k = Some v \<Longrightarrow> obj_set o' k v = o'"
  by (induction o') (auto split: if_splits)

lemma obj_set_absent: "map_of o' k = None \<Longrightarrow> obj_set o' k v = o' @ [(k, v)]"
  by (induction o') (auto split: if_splits)

lemma obj_ok_Cons: "obj_ok ((k, v) # o') \<longleftrightarrow> map_of o' k = None \<and> obj_ok o'"
  by (auto simp: obj_ok_def map_of_eq_None_iff)

lemma obj_ok_set: "obj_ok o' \<Longrightarrow> set o' = {(k, v). map_of o' k = Some v}"
  by (auto simp: obj_ok_def)

text \<open>A fold of assignments over an entry list with distinct keys, read one key at a time.\<close>

lemma fold_obj_set_get:
  assumes "obj_ok es"
  shows "map_of (fold (\<lambda>(k, v) acc. obj_set acc k (f (map_of acc k) v)) es acc) x =
    (case map_of es x of None \<Rightarrow> map_of acc x | Some v \<Rightarrow> Some (f (map_of acc x) v))"
  using assms
proof (induction es arbitrary: acc)
  case Nil
  then show ?case by simp
next
  case (Cons e es)
  obtain k v where e: "e = (k, v)" by (cases e)
  from Cons.prems have "map_of es k = None" and ok: "obj_ok es"
    by (simp_all add: e obj_ok_Cons)
  with Cons.IH [OF ok, of "obj_set acc k (f (map_of acc k) v)"] show ?case
    by (auto simp: e obj_set_get split: option.splits)
qed

lemma fold_obj_set_ok:
  "obj_ok acc \<Longrightarrow> obj_ok (fold (\<lambda>(k, v) acc. obj_set acc k (f (map_of acc k) v)) es acc)"
  by (induction es arbitrary: acc) (auto intro: obj_set_ok)

section \<open>Sets in insertion order\<close>

definition set_add :: "'a list \<Rightarrow> 'a \<Rightarrow> 'a list" where
  "set_add s x = (if x \<in> set s then s else s @ [x])"

definition set_remove :: "'a list \<Rightarrow> 'a \<Rightarrow> 'a list" where
  "set_remove s x = filter (\<lambda>y. y \<noteq> x) s"

lemma set_add_set [js_simps]: "set (set_add s x) = insert x (set s)"
  by (auto simp: set_add_def)

lemma set_remove_set [js_simps]: "set (set_remove s x) = set s - {x}"
  by (auto simp: set_remove_def)

lemma set_add_distinct [js_simps, intro]: "distinct s \<Longrightarrow> distinct (set_add s x)"
  by (simp add: set_add_def)

lemma set_remove_distinct [js_simps, intro]: "distinct s \<Longrightarrow> distinct (set_remove s x)"
  by (simp add: set_remove_def)

section \<open>Arrays\<close>

text \<open>\<^verbatim>\<open>xs.splice(i, 0, x)\<close> for an index inside the array or at its end.\<close>

definition splice_in :: "nat \<Rightarrow> 'a \<Rightarrow> 'a list \<Rightarrow> 'a list" where
  "splice_in i x xs = take i xs @ x # drop i xs"

text \<open>\<^verbatim>\<open>xs.findIndex(p)\<close>, with \<^const>\<open>None\<close> for the -1 of the source.\<close>

fun find_index :: "('a \<Rightarrow> bool) \<Rightarrow> 'a list \<Rightarrow> nat option" where
  "find_index p [] = None"
| "find_index p (x # xs) = (if p x then Some 0 else map_option Suc (find_index p xs))"

lemma find_index_None: "find_index p xs = None \<longleftrightarrow> (\<forall>x \<in> set xs. \<not> p x)"
  by (induction xs) auto

lemma find_index_Some:
  "find_index p xs = Some i \<Longrightarrow> i < length xs \<and> p (xs ! i) \<and> (\<forall>j < i. \<not> p (xs ! j))"
proof (induction xs arbitrary: i)
  case Nil
  then show ?case by simp
next
  case (Cons x xs)
  show ?case
  proof (cases "p x")
    case True
    with Cons.prems show ?thesis by simp
  next
    case False
    with Cons.prems obtain i' where i': "find_index p xs = Some i'" "i = Suc i'"
      by auto
    from Cons.IH [OF i'(1)] False i'(2) show ?thesis
      by (auto simp: nth_Cons split: nat.splits)
  qed
qed

lemma find_index_append:
  "(\<forall>x \<in> set xs. \<not> p x) \<Longrightarrow> find_index p (xs @ ys) = map_option (\<lambda>i. length xs + i) (find_index p ys)"
  by (cases "find_index p ys"; induction xs) auto

text \<open>A stable sort leaves a list of equal keys as it is.\<close>

lemma sort_key_const_key: "(\<And>x. x \<in> set xs \<Longrightarrow> f x = c) \<Longrightarrow> sort_key f xs = xs"
  by (induction xs) (simp_all add: insort_is_Cons)

text \<open>Dropping from an interval of integers.\<close>

lemma drop_int_upto: "drop k [i..j] = [i + int k..j]"
proof (induction k arbitrary: i)
  case 0
  then show ?case by simp
next
  case (Suc k)
  show ?case
  proof (cases "i \<le> j")
    case True
    then have "drop (Suc k) [i..j] = drop k [i + 1..j]" by (simp add: upto_rec1)
    with Suc [of "i + 1"] show ?thesis by (simp add: add.assoc)
  qed simp
qed

text \<open>The optional value of a key, with the default the source writes after \<^verbatim>\<open>??\<close>.\<close>

definition getOr :: "'a option \<Rightarrow> 'a \<Rightarrow> 'a" where
  "getOr o' d = (case o' of None \<Rightarrow> d | Some x \<Rightarrow> x)"

lemma getOr_simps [simp]: "getOr None d = d" "getOr (Some x) d = x"
  by (simp_all add: getOr_def)

end
