(* ===== verification/Hlc.thy ===== *)
theory Hlc
  imports Prelude "HOL-Library.Word"
begin

unbundle bit_operations_syntax

text \<open>
  The Hybrid Logical Clock of packages/core/src/hlc. A timestamp packs a millisecond wall-clock
  time and a 16-bit counter into one BigInt and travels as its decimal string. BigInt is
  \<^typ>\<open>int\<close>; the shifts and masks are the bit operations on \<^typ>\<open>int\<close>, which agree with BigInt's
  two's-complement reading. \<^verbatim>\<open>Date.now()\<close> is the argument \<open>now\<close>; the clock object, which the
  source mutates, is passed in and returned.

  The string layer (\<open>parse\<close>, \<open>format_hlc\<close>, \<open>compare\<close>) is modelled in full, the SyntaxError of
  \<^verbatim>\<open>BigInt(s)\<close> included. Every timestamp the system mints is \<^verbatim>\<open>format\<close> of a BigInt, and
  \<open>compare_format\<close> below shows that comparing such strings is comparing the integers: the other
  theories represent a timestamp by that integer (\<open>hlc\<close>).
\<close>

section \<open>Model\<close>

subsection \<open>Constants and packing (constants.ts, pack.ts, types.ts)\<close>

definition COUNTER_BITS :: nat where "COUNTER_BITS = 16"

definition COUNTER_MASK :: int where "COUNTER_MASK = 0xffff"

definition MAX_FUTURE_DRIFT_MS :: int where "MAX_FUTURE_DRIFT_MS = 120000"

record HLCState =
  clock_l :: int
  clock_c :: int

record HLCComponents =
  logicalTime :: int
  counter :: int

definition pack :: "int \<Rightarrow> int \<Rightarrow> int" where
  "pack logical_time counter' = (push_bit COUNTER_BITS logical_time) OR (counter' AND COUNTER_MASK)"

definition unpack :: "int \<Rightarrow> HLCComponents" where
  "unpack h = \<lparr>logicalTime = drop_bit COUNTER_BITS h, counter = h AND COUNTER_MASK\<rparr>"

subsection \<open>BigInt to string and back\<close>

text \<open>\<^verbatim>\<open>hlc.toString()\<close>: decimal digits, a leading minus for a negative number.\<close>

definition digit_char :: "nat \<Rightarrow> char" where
  "digit_char d = char_of (48 + d)"

fun dec_nat :: "nat \<Rightarrow> string" where
  "dec_nat n = (if n < 10 then [digit_char n] else dec_nat (n div 10) @ [digit_char (n mod 10)])"

declare dec_nat.simps [simp del]

definition format_hlc :: "int \<Rightarrow> string" where
  "format_hlc h = (if h < 0 then CHR ''-'' # dec_nat (nat (- h)) else dec_nat (nat h))"

text \<open>The value of a digit character in bases up to 16, letters in either case.\<close>

definition digit_val :: "char \<Rightarrow> nat option" where
  "digit_val ch = (let n = of_char ch :: nat in
     if 48 \<le> n \<and> n \<le> 57 then Some (n - 48)
     else if 97 \<le> n \<and> n \<le> 102 then Some (n - 87)
     else if 65 \<le> n \<and> n \<le> 70 then Some (n - 55)
     else None)"

fun digits_val :: "nat \<Rightarrow> nat \<Rightarrow> string \<Rightarrow> nat option" where
  "digits_val base acc [] = Some acc"
| "digits_val base acc (ch # cs) =
     (case digit_val ch of
        None \<Rightarrow> None
      | Some d \<Rightarrow> if d < base then digits_val base (acc * base + d) cs else None)"

definition number_in :: "nat \<Rightarrow> string \<Rightarrow> int option" where
  "number_in base cs = (if cs = [] then None else map_option int (digits_val base 0 cs))"

definition is_js_space :: "char \<Rightarrow> bool" where
  "is_js_space ch = (let n = of_char ch :: nat in (9 \<le> n \<and> n \<le> 13) \<or> n = 32 \<or> n = 160)"

definition js_trim :: "string \<Rightarrow> string" where
  "js_trim s = rev (dropWhile is_js_space (rev (dropWhile is_js_space s)))"

text \<open>
  \<^verbatim>\<open>BigInt(hlc)\<close> on a string: surrounding white space is ignored, the empty string is 0, a sign
  is allowed before decimal digits only, and 0x, 0o and 0b introduce the other bases. Anything
  else throws a SyntaxError.
\<close>

definition parse :: "string \<Rightarrow> js_error + int" where
  "parse s = (let t = js_trim s;
      v = (if t = [] then Some 0
           else if take 2 t \<in> {''0x'', ''0X''} then number_in 16 (drop 2 t)
           else if take 2 t \<in> {''0o'', ''0O''} then number_in 8 (drop 2 t)
           else if take 2 t \<in> {''0b'', ''0B''} then number_in 2 (drop 2 t)
           else if take 1 t = ''-'' then map_option uminus (number_in 10 (drop 1 t))
           else if take 1 t = ''+'' then number_in 10 (drop 1 t)
           else number_in 10 t)
    in case v of None \<Rightarrow> Inl (SyntaxError s) | Some n \<Rightarrow> Inr n)"

subsection \<open>Comparison (compare.ts)\<close>

type_synonym hlc = int

definition compareHlc :: "hlc \<Rightarrow> hlc \<Rightarrow> int" where
  "compareHlc a b = (if a < b then -1 else if a > b then 1 else 0)"

definition compare :: "string \<Rightarrow> string \<Rightarrow> js_error + int" where
  "compare a b =
     (case parse a of
        Inl e \<Rightarrow> Inl e
      | Inr a' \<Rightarrow>
          (case parse b of
             Inl e \<Rightarrow> Inl e
           | Inr b' \<Rightarrow> Inr (if a' < b' then -1 else if a' > b' then 1 else 0)))"

definition isBefore :: "string \<Rightarrow> string \<Rightarrow> js_error + bool" where
  "isBefore a b = map_sum id (\<lambda>r. r = -1) (compare a b)"

definition isAfter :: "string \<Rightarrow> string \<Rightarrow> js_error + bool" where
  "isAfter a b = map_sum id (\<lambda>r. r = 1) (compare a b)"

definition latestHlc :: "hlc \<Rightarrow> hlc \<Rightarrow> hlc" where
  "latestHlc a b = (if compareHlc a b > 0 then a else b)"

subsection \<open>The clock (clock.ts, make.ts, validate.ts)\<close>

definition createClock :: HLCState where
  "createClock = \<lparr>clock_l = 0, clock_c = 0\<rparr>"

definition localEvent :: "int \<Rightarrow> HLCState \<Rightarrow> HLCState \<times> hlc" where
  "localEvent now st =
     (let st' = (if now > clock_l st then \<lparr>clock_l = now, clock_c = 0\<rparr>
                 else st\<lparr>clock_c := (clock_c st + 1) AND COUNTER_MASK\<rparr>)
      in (st', pack (clock_l st') (clock_c st')))"

definition mergeRemote :: "HLCComponents \<Rightarrow> HLCState \<Rightarrow> HLCState" where
  "mergeRemote remote st =
     (if logicalTime remote > clock_l st then \<lparr>clock_l = logicalTime remote, clock_c = 0\<rparr>
      else if logicalTime remote = clock_l st \<and> counter remote > clock_c st
        then st\<lparr>clock_c := counter remote\<rparr>
      else st\<lparr>clock_c := (clock_c st + 1) AND COUNTER_MASK\<rparr>)"

definition receiveRemoteHLC :: "int \<Rightarrow> HLCState \<Rightarrow> string \<Rightarrow> js_error + HLCState \<times> hlc" where
  "receiveRemoteHLC now st remoteHlc =
     (case parse remoteHlc of
        Inl e \<Rightarrow> Inl e
      | Inr h \<Rightarrow>
          (let remote = unpack h; ahead = logicalTime remote - now in
           if ahead > MAX_FUTURE_DRIFT_MS then Inl (ClockDrift ahead)
           else (let st' = mergeRemote remote st in Inr (st', pack (clock_l st') (clock_c st')))))"

definition makeHlc :: "int \<Rightarrow> int \<Rightarrow> string" where
  "makeHlc ms counter' = format_hlc (pack ms counter')"

definition is_digit :: "char \<Rightarrow> bool" where
  "is_digit ch = (48 \<le> (of_char ch :: nat) \<and> (of_char ch :: nat) \<le> 57)"

definition isValidHLC :: "string \<Rightarrow> bool" where
  "isValidHLC s = (s \<noteq> [] \<and> list_all is_digit s \<and>
     (case parse s of Inl _ \<Rightarrow> False | Inr n \<Rightarrow> n > 0))"

section \<open>Packing is arithmetic\<close>

lemma mask_arith: "k AND COUNTER_MASK = k mod 65536"
proof -
  have "k AND COUNTER_MASK = take_bit 16 k"
    by (simp add: COUNTER_MASK_def take_bit_eq_mask mask_eq_exp_minus_1)
  then show ?thesis by (simp add: take_bit_eq_mod)
qed

lemma pack_arith: "pack t k = t * 65536 + k mod 65536"
proof -
  have "k AND COUNTER_MASK = take_bit 16 k"
    by (simp add: mask_arith take_bit_eq_mod)
  then have "pack t k = push_bit 16 t OR take_bit 16 k"
    by (simp add: pack_def COUNTER_BITS_def)
  also have "\<dots> = push_bit 16 t + take_bit 16 k"
    by (rule disjunctive_add_eq_or [symmetric]) (auto simp: bit_eq_iff bit_simps)
  finally show ?thesis
    by (simp add: push_bit_eq_mult take_bit_eq_mod)
qed

lemma unpack_arith: "unpack h = \<lparr>logicalTime = h div 65536, counter = h mod 65536\<rparr>"
  by (simp add: unpack_def drop_bit_eq_div COUNTER_BITS_def mask_arith)

lemmas hlc_arith = pack_arith unpack_arith mask_arith

text \<open>The packed order is the lexicographic order on (time, counter) for counters in range.\<close>

lemma pack_less_iff:
  assumes "0 \<le> k" "k < 65536" "0 \<le> k'" "k' < 65536"
  shows "pack t k < pack t' k' \<longleftrightarrow> t < t' \<or> t = t' \<and> k < k'"
proof (cases t t' rule: linorder_cases)
  case less
  then have "t * 65536 + 65536 \<le> t' * 65536" by linarith
  with assms less show ?thesis by (simp add: pack_arith)
next
  case equal
  with assms show ?thesis by (simp add: pack_arith)
next
  case greater
  then have "t' * 65536 + 65536 \<le> t * 65536" by linarith
  with assms greater show ?thesis by (simp add: pack_arith)
qed

section \<open>Decimal strings\<close>

lemma of_char_digit: "d < 10 \<Longrightarrow> (of_char (digit_char d) :: nat) = 48 + d"
  by (simp add: digit_char_def of_char_of)

lemma digit_val_digit_char: "d < 10 \<Longrightarrow> digit_val (digit_char d) = Some d"
  by (simp add: digit_val_def of_char_digit)

lemma is_digit_digit_char: "d < 10 \<Longrightarrow> is_digit (digit_char d)"
  by (simp add: is_digit_def of_char_digit)

lemma dec_nat_digits: "list_all is_digit (dec_nat n)"
proof (induction n rule: dec_nat.induct)
  case (1 n)
  then show ?case
    by (subst dec_nat.simps) (simp add: is_digit_digit_char)
qed

lemma dec_nat_nonempty: "dec_nat n \<noteq> []"
  by (subst dec_nat.simps) simp

lemma digits_val_append:
  "digits_val b acc (xs @ ys) =
     (case digits_val b acc xs of None \<Rightarrow> None | Some a \<Rightarrow> digits_val b a ys)"
  by (induction xs arbitrary: acc) (auto split: option.splits)

lemma digits_val_dec_nat: "digits_val 10 0 (dec_nat n) = Some n"
proof (induction n rule: dec_nat.induct)
  case (1 n)
  show ?case
  proof (cases "n < 10")
    case True
    then show ?thesis by (subst dec_nat.simps) (simp add: digit_val_digit_char)
  next
    case False
    with "1" have "digits_val 10 0 (dec_nat (n div 10)) = Some (n div 10)" by simp
    with False show ?thesis
      by (subst dec_nat.simps) (simp add: digits_val_append digit_val_digit_char)
  qed
qed

lemma number_in_dec_nat: "number_in 10 (dec_nat n) = Some (int n)"
  by (simp add: number_in_def dec_nat_nonempty digits_val_dec_nat)

lemma trim_no_space: "list_all (\<lambda>ch. \<not> is_js_space ch) s \<Longrightarrow> js_trim s = s"
proof -
  assume ns: "list_all (\<lambda>ch. \<not> is_js_space ch) s"
  then have "dropWhile is_js_space s = s"
    by (cases s) auto
  moreover from ns have "dropWhile is_js_space (rev s) = rev s"
    by (cases "rev s") (auto simp flip: list_all_rev [of _ s])
  ultimately show ?thesis by (simp add: js_trim_def)
qed

lemma digit_not_space: "is_digit ch \<Longrightarrow> \<not> is_js_space ch"
  by (auto simp: is_digit_def is_js_space_def Let_def)

lemma digit_chars_distinct:
  "\<not> is_digit CHR ''x''" "\<not> is_digit CHR ''X''" "\<not> is_digit CHR ''o''" "\<not> is_digit CHR ''O''"
  "\<not> is_digit CHR ''b''" "\<not> is_digit CHR ''B''" "\<not> is_digit CHR ''-''" "\<not> is_digit CHR ''+''"
  by (simp_all add: is_digit_def)

lemma digits_prefix:
  assumes "list_all is_digit t"
  shows "take 2 t \<notin> {''0x'', ''0X''}" "take 2 t \<notin> {''0o'', ''0O''}" "take 2 t \<notin> {''0b'', ''0B''}"
    "take 1 t \<noteq> ''-''" "take 1 t \<noteq> ''+''"
proof -
  have "list_all is_digit (take 2 t)" "list_all is_digit (take 1 t)"
    using assms by (auto simp: list_all_iff dest: in_set_takeD)
  then show "take 2 t \<notin> {''0x'', ''0X''}" "take 2 t \<notin> {''0o'', ''0O''}" "take 2 t \<notin> {''0b'', ''0B''}"
    "take 1 t \<noteq> ''-''" "take 1 t \<noteq> ''+''"
    using digit_chars_distinct by auto
qed

lemma parse_digits:
  assumes "list_all is_digit s" "s \<noteq> []"
  shows "parse s = (case number_in 10 s of None \<Rightarrow> Inl (SyntaxError s) | Some n \<Rightarrow> Inr n)"
proof -
  have "js_trim s = s"
    using assms(1) digit_not_space by (intro trim_no_space) (auto simp: list_all_iff)
  with assms digits_prefix [OF assms(1)] show ?thesis
    by (simp add: parse_def Let_def)
qed

lemma parse_format: "parse (format_hlc n) = Inr n"
proof (cases "n < 0")
  case False
  then show ?thesis
    by (simp add: format_hlc_def parse_digits dec_nat_digits dec_nat_nonempty number_in_dec_nat)
next
  case True
  let ?s = "CHR ''-'' # dec_nat (nat (- n))"
  have "js_trim ?s = ?s"
    using dec_nat_digits [of "nat (- n)"] digit_not_space
    by (intro trim_no_space) (auto simp: list_all_iff is_js_space_def)
  with True show ?thesis
    by (simp add: format_hlc_def parse_def number_in_dec_nat dec_nat_nonempty)
qed

lemma compare_format: "compare (format_hlc a) (format_hlc b) = Inr (compareHlc a b)"
  by (simp add: compare_def parse_format compareHlc_def)

lemma format_inj: "format_hlc a = format_hlc b \<longleftrightarrow> a = b"
  by (metis parse_format sum.inject(2))

section \<open>Clock behaviour\<close>

text \<open>The timestamp a clock stands at, and the range its counter stays in.\<close>

definition clock_stamp :: "HLCState \<Rightarrow> hlc" where
  "clock_stamp st = pack (clock_l st) (clock_c st)"

definition clock_ok :: "HLCState \<Rightarrow> bool" where
  "clock_ok st \<longleftrightarrow> 0 \<le> clock_c st \<and> clock_c st < 65536"

lemma createClock_ok: "clock_ok createClock"
  by (simp add: clock_ok_def createClock_def)

lemma localEvent_ok: "clock_ok (fst (localEvent now st))"
  by (simp add: clock_ok_def localEvent_def Let_def mask_arith)

lemma localEvent_stamp: "snd (localEvent now st) = clock_stamp (fst (localEvent now st))"
  by (simp add: localEvent_def Let_def clock_stamp_def)

lemma localEvent_increases:
  assumes "clock_ok st" "clock_c st < 65535 \<or> now > clock_l st"
  shows "clock_stamp st < snd (localEvent now st)"
  using assms
  by (auto simp: localEvent_def clock_stamp_def clock_ok_def Let_def mask_arith pack_less_iff
      mod_pos_pos_trivial)

lemma localEvent_counter:
  "clock_ok st \<Longrightarrow> clock_c (fst (localEvent now st)) \<le> clock_c st + 1"
  by (auto simp: localEvent_def clock_ok_def Let_def mask_arith zmod_le_nonneg_dividend)

text \<open>A run of local events, one per reading of the wall clock.\<close>

fun localEvents :: "int list \<Rightarrow> HLCState \<Rightarrow> hlc list" where
  "localEvents [] st = []"
| "localEvents (now # nows) st =
     (let (st', h) = localEvent now st in h # localEvents nows st')"

lemma localEvents_above:
  assumes "clock_ok st" "clock_c st + int (length nows) \<le> 65535"
  shows "sorted_wrt (<) (clock_stamp st # localEvents nows st)"
  using assms
proof (induction nows arbitrary: st)
  case Nil
  then show ?case by simp
next
  case (Cons now nows)
  obtain st' h where e: "localEvent now st = (st', h)" by fastforce
  have h: "h = clock_stamp st'" and ok: "clock_ok st'" and le: "clock_c st' \<le> clock_c st + 1"
    using localEvent_stamp [of now st] localEvent_ok [of now st]
      localEvent_counter [OF Cons.prems(1), of now] by (simp_all add: e)
  have "clock_stamp st < h"
    using localEvent_increases [of st now] Cons.prems by (simp add: e)
  moreover have "sorted_wrt (<) (clock_stamp st' # localEvents nows st')"
    using Cons.IH [OF ok] Cons.prems le by simp
  ultimately show ?case by (auto simp: e h)
qed

lemma parse_error: "parse s = Inl e \<Longrightarrow> e = SyntaxError s"
  by (simp add: parse_def Let_def split: option.splits)

lemma receive_parsed:
  "parse s = Inr r \<Longrightarrow> receiveRemoteHLC now st s =
     (if r div 65536 - now > 120000 then Inl (ClockDrift (r div 65536 - now))
      else Inr (mergeRemote (unpack r) st, clock_stamp (mergeRemote (unpack r) st)))"
  by (simp add: receiveRemoteHLC_def Let_def clock_stamp_def unpack_arith MAX_FUTURE_DRIFT_MS_def)

lemma mergeRemote_ok: "clock_ok st \<Longrightarrow> clock_ok (mergeRemote (unpack r) st)"
  by (simp add: mergeRemote_def clock_ok_def hlc_arith)

lemma mergeRemote_increases:
  assumes "clock_ok st" "clock_c st < 65535"
  shows "clock_stamp st < clock_stamp (mergeRemote (unpack r) st)"
  using assms by (simp add: mergeRemote_def clock_ok_def clock_stamp_def unpack_arith mask_arith pack_less_iff)

subsection \<open>Properties\<close>

text \<open>
  Packing a logical time and a 16-bit counter and unpacking the result gives both back, and
  every BigInt is the packing of its own components: \<^verbatim>\<open>pack\<close> and \<^verbatim>\<open>unpack\<close> lose nothing.
\<close>

theorem pack_unpack_roundtrip:
  assumes "0 \<le> k" "k < 65536"
  shows "unpack (pack t k) = \<lparr>logicalTime = t, counter = k\<rparr> \<and>
    pack (logicalTime (unpack h)) (counter (unpack h)) = h"
  using assms by (simp add: hlc_arith)

theorem pack_unpack_roundtrip_witness:
  "unpack (pack 1700000000000 7) = \<lparr>logicalTime = 1700000000000, counter = 7\<rparr>"
  using pack_unpack_roundtrip [of 7 1700000000000 0] by simp

text \<open>
  A formatted timestamp parses back to the same BigInt, and the string comparison of two
  formatted timestamps never throws and is the numeric comparison of the BigInts (string order
  would not be: the strings have different lengths).
\<close>

theorem hlc_string_roundtrip:
  "parse (format_hlc n) = Inr n \<and>
   compare (format_hlc a) (format_hlc b) = Inr (if a < b then -1 else if a > b then 1 else 0)"
  using parse_format compare_format by (simp add: compareHlc_def)

text \<open>
  The timestamps of a run of local events are strictly increasing, and all lie above where the
  clock stood, whatever the wall clock does (it may stand still or go back), as long as the run is
  shorter than the room left in the 16-bit counter.
\<close>

theorem local_events_increase:
  assumes "clock_ok st" "clock_c st + int (length nows) \<le> 65535"
  shows "sorted_wrt (<) (clock_stamp st # localEvents nows st)"
  using assms by (rule localEvents_above)

theorem local_events_increase_witness:
  "sorted_wrt (<) (clock_stamp createClock # localEvents [5, 5, 3] createClock)"
  by (rule local_events_increase) (simp_all add: clock_ok_def createClock_def)

text \<open>
  The bound is needed. When the counter stands at 65535 and the wall clock has not moved on,
  the next local event wraps the counter to 0 and mints a timestamp below the one before it.
\<close>

theorem local_event_wraps:
  assumes "clock_c st = 65535" "now \<le> clock_l st"
  shows "snd (localEvent now st) < clock_stamp st"
  using assms by (simp add: localEvent_def Let_def clock_stamp_def hlc_arith)

theorem local_event_wraps_witness:
  "snd (localEvent 9 \<lparr>clock_l = 10, clock_c = 65535\<rparr>) < clock_stamp \<lparr>clock_l = 10, clock_c = 65535\<rparr>"
  by (rule local_event_wraps) simp_all

text \<open>
  Receiving a remote timestamp throws exactly when the string is not an integer literal or its
  logical time is more than 120 000 ms ahead of the wall clock; otherwise it moves this clock
  strictly forward, unless the 16-bit counter is exhausted.
\<close>

theorem receive_remote_bounds:
  assumes "clock_ok st" "clock_c st < 65535"
  shows "case receiveRemoteHLC now st s of
      Inl e \<Rightarrow> (\<exists>t. e = SyntaxError t \<and> parse s = Inl e) \<or>
        (\<exists>r. parse s = Inr r \<and> e = ClockDrift (r div 65536 - now) \<and> r div 65536 - now > 120000)
    | Inr (st', h) \<Rightarrow> (\<exists>r. parse s = Inr r \<and> r div 65536 - now \<le> 120000) \<and>
        clock_ok st' \<and> h = clock_stamp st' \<and> clock_stamp st < h"
proof (cases "parse s")
  case (Inl e)
  then show ?thesis by (auto simp: receiveRemoteHLC_def dest: parse_error)
next
  case (Inr r)
  with assms mergeRemote_ok [of st r] mergeRemote_increases [of st r] show ?thesis
    by (simp add: receive_parsed)
qed

theorem receive_remote_bounds_witness:
  "clock_stamp createClock < snd (projr (receiveRemoteHLC 10 createClock (format_hlc 655365)))"
  using receive_remote_bounds [where st = createClock and now = 10 and s = "format_hlc 655365"]
  by (simp add: clock_ok_def createClock_def receive_parsed [OF parse_format])

text \<open>
  Merging a remote timestamp drops its counter when the remote is ahead: the clock is left at
  (remote time, 0), below the timestamp it has just received, and the next local event while the
  wall clock is still behind is at most (remote time, 1), so a write that follows the received one
  can carry a timestamp that is not above it.
\<close>

theorem receive_remote_loses_counter:
  assumes "parse s = Inr r" "r div 65536 > clock_l st" "r div 65536 - now \<le> 120000"
    "r mod 65536 > 1" "now' \<le> r div 65536"
  shows "\<exists>st' h. receiveRemoteHLC now st s = Inr (st', h) \<and> h < r \<and> snd (localEvent now' st') < r"
proof (intro exI conjI)
  let ?st = "\<lparr>clock_l = r div 65536, clock_c = 0\<rparr>"
  show "receiveRemoteHLC now st s = Inr (?st, clock_stamp ?st)"
    using assms by (simp add: receive_parsed mergeRemote_def unpack_arith)
  show "clock_stamp ?st < r"
    using assms(4) by (simp add: clock_stamp_def pack_arith) presburger
  show "snd (localEvent now' ?st) < r"
    using assms(4,5) by (simp add: localEvent_def hlc_arith) presburger
qed

theorem receive_remote_loses_counter_witness:
  "\<exists>st' h. receiveRemoteHLC 10 createClock (format_hlc 655365) = Inr (st', h) \<and> h < 655365 \<and>
     snd (localEvent 10 st') < 655365"
  by (rule receive_remote_loses_counter) (simp_all add: parse_format createClock_def)

end
