(* ===== verification/FieldValue.thy ===== *)
theory FieldValue
  imports Hlc "HOL-Library.Product_Lexorder"
begin

text \<open>
  The data model of packages/core: field values, Updates, Actions and Entities
  (packages/core/src/types), the recursive last-writer-wins merge every materializer shares
  (\<^verbatim>\<open>mergeFieldValue\<close>), and the construction of a local Action (packages/core/src/action,
  packages/core/src/id).

  A field value is a leaf or a map of field values. The merge is read through the leaves it holds
  at each path; on that reading it is a join, so the replicas converge whatever order the patches
  arrive in.
\<close>

section \<open>Model\<close>

subsection \<open>Field values (types/action.ts)\<close>

datatype field_value =
    Leaf (leaf_value: json) (leaf_update_id: string) (leaf_hlc: "hlc option")
  | FMap (fields_of_map: "(string \<times> field_value) list")

definition isFieldMap :: "field_value \<Rightarrow> bool" where
  "isFieldMap f = (case f of FMap _ \<Rightarrow> True | Leaf _ _ _ \<Rightarrow> False)"

definition isFieldLeaf :: "field_value \<Rightarrow> bool" where
  "isFieldLeaf f = (\<not> isFieldMap f)"

text \<open>
  The merge of two leaves: higher HLC wins (an absent HLC reads as the empty string, whose BigInt
  is 0), equal HLCs break toward the greater \<^verbatim>\<open>update_id\<close>, and a full tie takes the incoming leaf.
\<close>

definition hlcOr0 :: "hlc option \<Rightarrow> hlc" where
  "hlcOr0 h = getOr h 0"

definition merge_leaf :: "field_value \<Rightarrow> field_value \<Rightarrow> field_value" where
  "merge_leaf existing incoming =
     (let hlcCmp = compareHlc (hlcOr0 (leaf_hlc existing)) (hlcOr0 (leaf_hlc incoming)) in
      if hlcCmp < 0 then incoming
      else if hlcCmp > 0 then existing
      else if leaf_update_id incoming \<ge> leaf_update_id existing then incoming else existing)"

text \<open>
  The recursive merge. \<open>merge_entries acc es\<close> is the loop over \<^verbatim>\<open>Object.entries(incoming.map)\<close>:
  \<open>acc\<close> is the record read for \<open>previous\<close> (\<^verbatim>\<open>existing.map\<close> until the first changed key, the copy
  \<^verbatim>\<open>merged\<close> from then on), and a key is written only when its value changes.
\<close>

function (sequential) mergeFieldValue :: "field_value option \<Rightarrow> field_value \<Rightarrow> field_value"
  and merge_entries :: "(string \<times> field_value) list \<Rightarrow> (string \<times> field_value) list \<Rightarrow>
    (string \<times> field_value) list" where
  "mergeFieldValue None incoming = incoming"
| "mergeFieldValue (Some (FMap em)) (FMap im) = FMap (merge_entries em im)"
| "mergeFieldValue (Some existing) incoming =
     (if isFieldMap existing \<or> isFieldMap incoming then incoming
      else merge_leaf existing incoming)"
| "merge_entries acc [] = acc"
| "merge_entries acc ((key, value) # es) =
     (let previous = map_of acc key; next' = mergeFieldValue previous value in
      merge_entries (if previous = Some next' then acc else obj_set acc key next') es)"
  by pat_completeness auto
termination
  by (relation "measure (\<lambda>x. case x of Inl (e, i) \<Rightarrow> size i
        | Inr (acc, es) \<Rightarrow> size_list (size_prod (\<lambda>_. 0) size) es)") auto

subsection \<open>Updates, Actions and Entities\<close>

datatype update_method = Put | Patch | Delete

record Update =
  upd_id :: string
  subject_id :: string
  subject_type :: string
  upd_method :: update_method
  upd_data :: "field_value obj option"

record Action =
  act_id :: string
  actor_id :: string
  act_hlc :: hlc
  act_gsn :: int
  act_updates :: "Update list"

record UpdateInput =
  in_id :: "string option"
  in_subject_id :: string
  in_subject_type :: string
  in_method :: update_method
  in_data :: "field_value obj option"

subsection \<open>Building a local Action (action/index.ts, id/index.ts)\<close>

text \<open>
  The random identifiers come from the nanoid package: \<open>nanoid n\<close> is the result of its \<open>n\<close>-th
  call, and the number of calls made so far is threaded through.
\<close>

definition ID_PREFIX_ACTION :: string where "ID_PREFIX_ACTION = ''a''"
definition ID_PREFIX_UPDATE :: string where "ID_PREFIX_UPDATE = ''u''"

definition generateId :: "(nat \<Rightarrow> string) \<Rightarrow> nat \<Rightarrow> string \<Rightarrow> string \<times> nat" where
  "generateId nanoid n prefix = (prefix @ ''_'' @ nanoid n, Suc n)"

fun buildUpdates :: "(nat \<Rightarrow> string) \<Rightarrow> nat \<Rightarrow> UpdateInput list \<Rightarrow> Update list \<times> nat" where
  "buildUpdates nanoid n [] = ([], n)"
| "buildUpdates nanoid n (u # us) =
     (let (uid, n1) = (case in_id u of Some i \<Rightarrow> (i, n) | None \<Rightarrow> generateId nanoid n ID_PREFIX_UPDATE);
          (rest, n2) = buildUpdates nanoid n1 us
      in (\<lparr>upd_id = uid, subject_id = in_subject_id u, subject_type = in_subject_type u,
           upd_method = in_method u, upd_data = in_data u\<rparr> # rest, n2))"

definition createAction ::
  "(nat \<Rightarrow> string) \<Rightarrow> nat \<Rightarrow> int \<Rightarrow> HLCState \<Rightarrow> string \<Rightarrow> UpdateInput list \<Rightarrow> Action \<times> HLCState \<times> nat" where
  "createAction nanoid n now clock actorId updates =
     (let (clock', h) = localEvent now clock;
          (builtUpdates, n1) = buildUpdates nanoid n updates;
          (aid, n2) = generateId nanoid n1 ID_PREFIX_ACTION
      in (\<lparr>act_id = aid, actor_id = actorId, act_hlc = h, act_gsn = 0, act_updates = builtUpdates\<rparr>,
          clock', n2))"

section \<open>Last-writer-wins registers\<close>

text \<open>
  The contract behind a leaf: values carry a totally ordered stamp, and a pick keeps the one with
  the greater stamp, the second on a tie. A fold of picks over writes ends at a write of greatest
  stamp, so when equal stamps mean equal writes the result depends on the set of writes only.
\<close>

locale lww =
  fixes stamp :: "'a \<Rightarrow> 's::linorder"
    and pick :: "'a \<Rightarrow> 'a \<Rightarrow> 'a"
  assumes pick_def: "pick a b = (if stamp a \<le> stamp b then b else a)"
begin

definition opt_pick :: "'a option \<Rightarrow> 'a option \<Rightarrow> 'a option" where
  "opt_pick a b = (case (a, b) of (None, y) \<Rightarrow> y | (x, None) \<Rightarrow> x | (Some x, Some y) \<Rightarrow> Some (pick x y))"

definition wins :: "'a set \<Rightarrow> 'a option \<Rightarrow> bool" where
  "wins S r \<longleftrightarrow> (case r of None \<Rightarrow> S = {} | Some x \<Rightarrow> x \<in> S \<and> (\<forall>y \<in> S. stamp y \<le> stamp x))"

lemma opt_pick_simps [simp]:
  "opt_pick None y = y" "opt_pick x None = x" "opt_pick (Some a) (Some b) = Some (pick a b)"
  by (simp_all add: opt_pick_def split: option.splits)

lemma pick_idem [simp]: "pick a a = a"
  by (simp add: pick_def)

lemma pick_assoc: "pick (pick a b) d = pick a (pick b d)"
  by (auto simp: pick_def)

lemma opt_pick_assoc: "opt_pick (opt_pick a b) d = opt_pick a (opt_pick b d)"
  by (cases a; cases b; cases d) (simp_all add: pick_assoc)

lemma pick_commute: "(stamp a = stamp b \<Longrightarrow> a = b) \<Longrightarrow> pick a b = pick b a"
  by (auto simp: pick_def)

lemma wins_opt_pick:
  assumes "wins S r"
  shows "wins (S \<union> set_option w) (opt_pick r w)"
  using assms by (cases r; cases w) (auto simp: wins_def pick_def)

lemma wins_fold:
  "wins S r \<Longrightarrow> wins (S \<union> (\<Union>w \<in> set ws. set_option w)) (fold (\<lambda>w acc. opt_pick acc w) ws r)"
proof (induction ws arbitrary: S r)
  case Nil
  then show ?case by simp
next
  case (Cons w ws)
  from Cons.IH [OF wins_opt_pick [OF Cons.prems, of w]] show ?case
    by (simp add: Un_assoc)
qed

lemma wins_unique:
  assumes "wins S r" "wins S r'" "\<And>x y. x \<in> S \<Longrightarrow> y \<in> S \<Longrightarrow> stamp x = stamp y \<Longrightarrow> x = y"
  shows "r = r'"
proof (cases r)
  case None
  with assms show ?thesis by (cases r') (auto simp: wins_def)
next
  case (Some x)
  with assms(1,2) obtain y where y: "r' = Some y" and "x \<in> S" "y \<in> S" "stamp x = stamp y"
    by (cases r') (auto simp: wins_def intro: antisym)
  with assms(3) Some y show ?thesis by simp
qed

lemma fold_pick_converges:
  assumes "set (w # ws) = set (w' # ws')"
    and "\<And>x y. Some x \<in> set (w # ws) \<Longrightarrow> Some y \<in> set (w # ws) \<Longrightarrow> stamp x = stamp y \<Longrightarrow> x = y"
  shows "fold (\<lambda>w acc. opt_pick acc w) ws w = fold (\<lambda>w acc. opt_pick acc w) ws' w'"
proof (rule wins_unique)
  have start: "wins (set_option v) v" for v
    by (cases v) (auto simp: wins_def)
  show "wins (\<Union>v \<in> set (w # ws). set_option v) (fold (\<lambda>w acc. opt_pick acc w) ws w)"
    using wins_fold [OF start [of w], of ws] by simp
  show "wins (\<Union>v \<in> set (w # ws). set_option v) (fold (\<lambda>w acc. opt_pick acc w) ws' w')"
    using wins_fold [OF start [of w'], of ws'] unfolding assms(1) by simp
  show "x = y" if "x \<in> (\<Union>v \<in> set (w # ws). set_option v)" "y \<in> (\<Union>v \<in> set (w # ws). set_option v)"
    "stamp x = stamp y" for x y
  proof (rule assms(2) [OF _ _ that(3)])
    show "Some x \<in> set (w # ws)" "Some y \<in> set (w # ws)"
      using that(1,2) by (auto split: option.splits)
  qed
qed

end

section \<open>The merge read path by path\<close>

definition leaf_stamp :: "field_value \<Rightarrow> hlc \<times> string" where
  "leaf_stamp f = (hlcOr0 (leaf_hlc f), leaf_update_id f)"

lemma merge_leaf_stamp:
  "merge_leaf existing incoming =
     (if leaf_stamp existing \<le> leaf_stamp incoming then incoming else existing)"
  by (auto simp: merge_leaf_def leaf_stamp_def compareHlc_def Let_def)

interpretation leaves: lww leaf_stamp merge_leaf
  by unfold_locales (rule merge_leaf_stamp)

text \<open>The leaf a field value holds at a path of map keys.\<close>

fun leaf_at :: "string list \<Rightarrow> field_value \<Rightarrow> field_value option" where
  "leaf_at [] (Leaf v u h) = Some (Leaf v u h)"
| "leaf_at (k # p) (FMap m) = (case map_of m k of None \<Rightarrow> None | Some f \<Rightarrow> leaf_at p f)"
| "leaf_at _ _ = None"

text \<open>
  A schema fixes the kind of every position: \<open>s p\<close> says that the position at path \<open>p\<close> is a map. A
  value conforms when each of its positions has the kind the schema gives and no map repeats a key.
\<close>

lemma size_entry:
  "(k, v) \<in> set m \<Longrightarrow> size (v :: field_value) < Suc (size_list (size_prod (\<lambda>_. 0) size) m)"
  by (induction m) auto

function (sequential) conforms :: "(string list \<Rightarrow> bool) \<Rightarrow> field_value \<Rightarrow> bool" where
  "conforms s (Leaf v u h) = (\<not> s [])"
| "conforms s (FMap m) =
     (s [] \<and> obj_ok m \<and> list_all (\<lambda>kv. conforms (\<lambda>p. s (fst kv # p)) (snd kv)) m)"
  by pat_completeness auto
termination
  by (relation "measure (size \<circ> snd)") (auto dest: size_entry)

lemma merge_entries_fold:
  "merge_entries acc es =
     fold (\<lambda>(k, v) acc. obj_set acc k (mergeFieldValue (map_of acc k) v)) es acc"
  by (induction es arbitrary: acc) (auto simp: Let_def obj_set_same)

lemma merge_entries_get:
  "obj_ok es \<Longrightarrow> map_of (merge_entries acc es) k =
     (case map_of es k of None \<Rightarrow> map_of acc k | Some v \<Rightarrow> Some (mergeFieldValue (map_of acc k) v))"
  unfolding merge_entries_fold by (rule fold_obj_set_get)

lemma merge_entries_ok: "obj_ok acc \<Longrightarrow> obj_ok (merge_entries acc es)"
  unfolding merge_entries_fold by (rule fold_obj_set_ok)

lemma conforms_entry:
  "conforms s (FMap m) \<Longrightarrow> map_of m k = Some v \<Longrightarrow> conforms (\<lambda>p. s (k # p)) v"
  by (auto simp: list_all_iff dest!: map_of_SomeD)

lemma conforms_map: "conforms s (FMap m) \<Longrightarrow> obj_ok m \<and> s []"
  by simp

lemma conforms_FMapI:
  assumes "s []" "obj_ok m" "\<And>k v. map_of m k = Some v \<Longrightarrow> conforms (\<lambda>p. s (k # p)) v"
  shows "conforms s (FMap m)"
  using assms by (auto simp: list_all_iff obj_ok_def)

lemma merge_leaf_choice: "merge_leaf a b = a \<or> merge_leaf a b = b"
  by (simp add: merge_leaf_stamp)

lemma mergeFieldValue_conforms:
  assumes "conforms s i" "\<And>e'. e = Some e' \<Longrightarrow> conforms s e'"
  shows "conforms s (mergeFieldValue e i)"
  using assms
proof (induction i arbitrary: e s)
  case (Leaf v u h)
  then show ?case
    using merge_leaf_choice [of "the e" "Leaf v u h"]
    by (cases e; cases "the e") (auto simp: isFieldMap_def)
next
  case (FMap im)
  show ?case
  proof (cases e)
    case None
    with FMap.prems show ?thesis by simp
  next
    case (Some e')
    with FMap.prems obtain em where e': "e' = FMap em" by (cases e') auto
    have em: "conforms s (FMap em)" using FMap.prems(2) [OF Some] e' by simp
    have "conforms s (FMap (merge_entries em im))"
    proof (rule conforms_FMapI)
      show "s []" "obj_ok (merge_entries em im)"
        using em by (auto intro: merge_entries_ok)
      fix k v
      assume kv: "map_of (merge_entries em im) k = Some v"
      have ok: "obj_ok im" using FMap.prems(1) by simp
      show "conforms (\<lambda>p. s (k # p)) v"
      proof (cases "map_of im k")
        case None
        with kv ok em show ?thesis by (auto simp: merge_entries_get intro: conforms_entry)
      next
        case (Some w)
        then have "(k, w) \<in> set im" by (rule map_of_SomeD)
        moreover have "conforms (\<lambda>p. s (k # p)) w"
          using FMap.prems(1) Some by (rule conforms_entry)
        ultimately have "conforms (\<lambda>p. s (k # p)) (mergeFieldValue (map_of em k) w)"
          using em by (intro FMap.IH [of "(k, w)"]) (auto intro: conforms_entry)
        with kv ok Some show ?thesis by (simp add: merge_entries_get)
      qed
    qed
    with Some e' show ?thesis by simp
  qed
qed

text \<open>At every path the merge holds the pick of the two leaves there.\<close>

lemma leaf_at_merge:
  assumes "conforms s i" "conforms s e"
  shows "leaf_at p (mergeFieldValue (Some e) i) = leaves.opt_pick (leaf_at p e) (leaf_at p i)"
  using assms
proof (induction p arbitrary: e i s)
  case Nil
  then show ?case
    using merge_leaf_choice [of e i]
    by (cases e; cases i) (auto simp: isFieldMap_def)
next
  case (Cons k p)
  show ?case
  proof (cases i)
    case (Leaf v u h)
    with Cons.prems obtain v' u' h' where "e = Leaf v' u' h'" by (cases e) auto
    with Leaf show ?thesis
      using merge_leaf_choice [of e i] by (auto simp: isFieldMap_def)
  next
    case (FMap im)
    with Cons.prems obtain em where em: "e = FMap em" by (cases e) auto
    have ok: "obj_ok im" using Cons.prems(1) FMap by simp
    show ?thesis
    proof (cases "map_of im k")
      case None
      with FMap em ok show ?thesis by (simp add: merge_entries_get)
    next
      case (Some w)
      have w: "conforms (\<lambda>p. s (k # p)) w"
        using Cons.prems(1) FMap Some conforms_entry by blast
      show ?thesis
      proof (cases "map_of em k")
        case None
        with Some FMap em ok show ?thesis by (simp add: merge_entries_get)
      next
        case (Some w')
        have "conforms (\<lambda>p. s (k # p)) w'"
          using Cons.prems(2) em Some conforms_entry by blast
        from Cons.IH [OF w this] \<open>map_of im k = Some w\<close> Some FMap em ok show ?thesis
          by (simp add: merge_entries_get)
      qed
    qed
  qed
qed

lemma fold_merge_conforms:
  "conforms s e \<Longrightarrow> list_all (conforms s) ps \<Longrightarrow>
     conforms s (fold (\<lambda>i acc. mergeFieldValue (Some acc) i) ps e)"
  by (induction ps arbitrary: e) (auto intro: mergeFieldValue_conforms)

lemma leaf_at_fold_merge:
  "conforms s e \<Longrightarrow> list_all (conforms s) ps \<Longrightarrow>
     leaf_at p (fold (\<lambda>i acc. mergeFieldValue (Some acc) i) ps e) =
       fold (\<lambda>w acc. leaves.opt_pick acc w) (map (leaf_at p) ps) (leaf_at p e)"
proof (induction ps arbitrary: e)
  case Nil
  then show ?case by simp
next
  case (Cons i ps)
  have "conforms s (mergeFieldValue (Some e) i)"
    using Cons.prems by (auto intro: mergeFieldValue_conforms)
  with Cons.IH [OF this] Cons.prems leaf_at_merge [of s i e p] show ?case by simp
qed

section \<open>Properties\<close>

text \<open>
  At every path of map keys the merge holds exactly one of the two leaves written there: the
  one with the higher HLC, on equal HLCs the one with the greater \<^verbatim>\<open>update_id\<close>; a path only one
  side writes keeps that side's leaf, so a write to one key leaves its siblings untouched.
\<close>

theorem merge_picks_leaf:
  assumes "conforms s existing" "conforms s incoming"
  shows "leaf_at p (mergeFieldValue (Some existing) incoming) =
    (case (leaf_at p existing, leaf_at p incoming) of
       (None, w) \<Rightarrow> w
     | (Some a, None) \<Rightarrow> Some a
     | (Some a, Some b) \<Rightarrow>
         Some (if hlcOr0 (leaf_hlc a) > hlcOr0 (leaf_hlc b) \<or>
                  hlcOr0 (leaf_hlc a) = hlcOr0 (leaf_hlc b) \<and> leaf_update_id a > leaf_update_id b
               then a else b))"
  unfolding leaf_at_merge [OF assms(2,1)]
  by (auto simp: merge_leaf_stamp leaf_stamp_def split: option.splits)

theorem merge_picks_leaf_witness:
  "leaf_at [''a''] (mergeFieldValue
      (Some (FMap [(''a'', Leaf (JNum 1) ''u_1'' (Some 9)), (''b'', Leaf (JNum 2) ''u_2'' (Some 9))]))
      (FMap [(''a'', Leaf (JNum 3) ''u_3'' (Some 9))])) = Some (Leaf (JNum 3) ''u_3'' (Some 9))"
  using merge_picks_leaf [where s = "\<lambda>p. p = []" and p = "[''a'']" and
      existing = "FMap [(''a'', Leaf (JNum 1) ''u_1'' (Some 9)), (''b'', Leaf (JNum 2) ''u_2'' (Some 9))]" and
      incoming = "FMap [(''a'', Leaf (JNum 3) ''u_3'' (Some 9))]"]
  by (simp add: obj_ok_def hlcOr0_def)

text \<open>
  C2: replicas converge. Two replicas that start from and receive, between them, the same set of
  values of a field, in any order and with any repetition, hold the same leaf at every path, as
  long as the values follow one schema and no two different leaves of one path share their
  (HLC, \<^verbatim>\<open>update_id\<close>) stamp.
\<close>

theorem merge_converges:
  assumes "conforms s e" "list_all (conforms s) ps" "conforms s e'" "list_all (conforms s) qs"
    and "set (e # ps) = set (e' # qs)"
    and "\<forall>x \<in> set (e # ps). \<forall>y \<in> set (e # ps). \<forall>q a b. leaf_at q x = Some a \<longrightarrow>
      leaf_at q y = Some b \<longrightarrow> leaf_stamp a = leaf_stamp b \<longrightarrow> a = b"
  shows "leaf_at p (fold (\<lambda>i acc. mergeFieldValue (Some acc) i) ps e) =
    leaf_at p (fold (\<lambda>i acc. mergeFieldValue (Some acc) i) qs e')"
  unfolding leaf_at_fold_merge [OF assms(1,2)] leaf_at_fold_merge [OF assms(3,4)]
proof (rule leaves.fold_pick_converges)
  show "set (leaf_at p e # map (leaf_at p) ps) = set (leaf_at p e' # map (leaf_at p) qs)"
    using arg_cong [where f = "\<lambda>A. leaf_at p ` A", OF assms(5)] by simp
  show "a = b" if "Some a \<in> set (leaf_at p e # map (leaf_at p) ps)"
    "Some b \<in> set (leaf_at p e # map (leaf_at p) ps)" "leaf_stamp a = leaf_stamp b" for a b
  proof -
    from that(1) obtain x where "x \<in> set (e # ps)" "leaf_at p x = Some a" by force
    moreover from that(2) obtain y where "y \<in> set (e # ps)" "leaf_at p y = Some b" by force
    ultimately show ?thesis using assms(6) that(3) by blast
  qed
qed

lemma leaf_at_single:
  "leaf_at q (FMap [(k, Leaf v u h)]) = (if q = [k] then Some (Leaf v u h) else None)"
  by (cases q; cases "tl q") auto

theorem merge_converges_witness:
  "leaf_at [''a''] (fold (\<lambda>i acc. mergeFieldValue (Some acc) i)
      [FMap [(''a'', Leaf (JNum 1) ''u_1'' (Some 5))], FMap [(''a'', Leaf (JNum 2) ''u_2'' (Some 5))]]
      (FMap [(''b'', Leaf JNull ''u_0'' None)])) =
   leaf_at [''a''] (fold (\<lambda>i acc. mergeFieldValue (Some acc) i)
      [FMap [(''a'', Leaf (JNum 1) ''u_1'' (Some 5))], FMap [(''b'', Leaf JNull ''u_0'' None)]]
      (FMap [(''a'', Leaf (JNum 2) ''u_2'' (Some 5))]))"
  by (intro merge_converges [where s = "\<lambda>p. p = []"])
    (auto simp: obj_ok_def leaf_at_single leaf_stamp_def split: if_splits)

text \<open>
  Merging the same value again changes nothing at any path, so a re-delivered patch is harmless
  to the merge.
\<close>

theorem merge_idempotent:
  assumes "conforms s e" "conforms s i"
  shows "leaf_at p (mergeFieldValue (Some (mergeFieldValue (Some e) i)) i) =
    leaf_at p (mergeFieldValue (Some e) i)"
proof -
  have "conforms s (mergeFieldValue (Some e) i)"
    using assms by (auto intro: mergeFieldValue_conforms)
  then have "leaf_at p (mergeFieldValue (Some (mergeFieldValue (Some e) i)) i) =
    leaves.opt_pick (leaves.opt_pick (leaf_at p e) (leaf_at p i)) (leaf_at p i)"
    using assms by (simp add: leaf_at_merge)
  also have "\<dots> = leaves.opt_pick (leaf_at p e) (leaf_at p i)"
    unfolding leaves.opt_pick_assoc by (cases "leaf_at p i") simp_all
  finally show ?thesis using assms by (simp add: leaf_at_merge)
qed

theorem merge_idempotent_witness:
  "leaf_at [] (mergeFieldValue (Some (mergeFieldValue (Some (Leaf (JNum 1) ''u_1'' None))
      (Leaf (JNum 2) ''u_0'' None))) (Leaf (JNum 2) ''u_0'' None)) =
   leaf_at [] (mergeFieldValue (Some (Leaf (JNum 1) ''u_1'' None)) (Leaf (JNum 2) ''u_0'' None))"
  by (rule merge_idempotent [where s = "\<lambda>_. False"]) simp_all

end
