(* ===== verification/ActionLog.thy ===== *)
theory ActionLog
  imports FieldValue
begin

text \<open>
  The append-only log of received Actions (packages/storage/src/memory/action-log.memory.ts) and
  the union of repeated deliveries of one Action (packages/storage/src/internal/action-merge.ts).
  One Action can arrive once per group it touches, each copy with the Updates of that group only;
  the log keeps one record per Action id, at the position the id first claimed.
\<close>

section \<open>Model\<close>

subsection \<open>Union of deliveries (action-merge.ts)\<close>

definition union_step ::
  "Update \<Rightarrow> (string \<rightharpoonup> Update) \<times> string list \<Rightarrow> (string \<rightharpoonup> Update) \<times> string list" where
  "union_step u s = (case s of (byId, order) \<Rightarrow>
     (byId(upd_id u \<mapsto> u), if byId (upd_id u) = None then order @ [upd_id u] else order))"

definition mergeActionUpdates :: "Update list \<Rightarrow> Update list \<Rightarrow> Update list" where
  "mergeActionUpdates existing incoming =
     (let byId0 = fold (\<lambda>u m. m(upd_id u \<mapsto> u)) existing Map.empty;
          order0 = map upd_id existing;
          (byId, order) = fold union_step incoming (byId0, order0)
      in concat (map (\<lambda>i. case byId i of None \<Rightarrow> [] | Some u \<Rightarrow> [u]) order))"

definition addedUpdates :: "Update list \<Rightarrow> Update list \<Rightarrow> Update list" where
  "addedUpdates existing incoming =
     (let known = set (map upd_id existing) in filter (\<lambda>u. upd_id u \<notin> known) incoming)"

subsection \<open>The log (action-log.memory.ts)\<close>

record ActionLogState =
  log_actions :: "Action list"
  log_typeIndex :: "(string \<times> string list) list"

record LoggedAction =
  la_action :: Action
  la_position :: int
  la_added :: "Update list"

definition js_set_of :: "'a list \<Rightarrow> 'a list" where
  "js_set_of xs = fold (\<lambda>x s. set_add s x) xs []"

definition updateTypeIndex :: "(string \<times> string list) list \<Rightarrow> Action \<Rightarrow> (string \<times> string list) list" where
  "updateTypeIndex typeIndex action =
     (let m = fold (\<lambda>(type, ids) m. obj_set m type (js_set_of ids)) typeIndex []
      in fold (\<lambda>u m. case map_of m (subject_type u) of
             Some existing \<Rightarrow> obj_set m (subject_type u) (set_add existing (subject_id u))
           | None \<Rightarrow> obj_set m (subject_type u) [subject_id u]) (act_updates action) m)"

definition createMemoryActionLog :: ActionLogState where
  "createMemoryActionLog = \<lparr>log_actions = [], log_typeIndex = []\<rparr>"

definition log_append :: "ActionLogState \<Rightarrow> Action \<Rightarrow> ActionLogState \<times> LoggedAction" where
  "log_append st action =
     (case find_index (\<lambda>stored. act_id stored = act_id action) (log_actions st) of
        None \<Rightarrow>
          (\<lparr>log_actions = log_actions st @ [action],
            log_typeIndex = updateTypeIndex (log_typeIndex st) action\<rparr>,
           \<lparr>la_action = action, la_position = int (length (log_actions st)) + 1,
            la_added = addedUpdates [] (act_updates action)\<rparr>)
      | Some index \<Rightarrow>
          (let existing = log_actions st ! index;
               stored = existing\<lparr>act_updates :=
                 mergeActionUpdates (act_updates existing) (act_updates action)\<rparr>
           in (\<lparr>log_actions = map (\<lambda>candidate. if act_id candidate = act_id action then stored
                   else candidate) (log_actions st),
                log_typeIndex = updateTypeIndex (log_typeIndex st) stored\<rparr>,
               \<lparr>la_action = stored, la_position = int index + 1,
                la_added = addedUpdates (act_updates existing) (act_updates action)\<rparr>)))"

fun log_appendMany :: "ActionLogState \<Rightarrow> Action list \<Rightarrow> ActionLogState \<times> LoggedAction list" where
  "log_appendMany st [] = (st, [])"
| "log_appendMany st (a # as) =
     (let (st1, entry) = log_append st a; (st2, entries) = log_appendMany st1 as in (st2, entry # entries))"

definition log_readTail :: "ActionLogState \<Rightarrow> nat \<Rightarrow> LoggedAction list" where
  "log_readTail st afterPosition =
     (let tail = drop afterPosition (log_actions st) in
      map (\<lambda>offset. \<lparr>la_action = tail ! offset, la_position = int afterPosition + int offset + 1,
                     la_added = act_updates (tail ! offset)\<rparr>) [0..<length tail])"

definition log_lastPosition :: "ActionLogState \<Rightarrow> int" where
  "log_lastPosition st = int (length (log_actions st))"

definition log_getAll :: "ActionLogState \<Rightarrow> Action list" where
  "log_getAll st = log_actions st"

definition log_getForEntity :: "ActionLogState \<Rightarrow> string \<Rightarrow> Action list" where
  "log_getForEntity st entityId =
     sort_key act_gsn (filter (\<lambda>a. \<exists>u \<in> set (act_updates a). subject_id u = entityId) (log_actions st))"

definition log_clear :: "ActionLogState \<Rightarrow> ActionLogState" where
  "log_clear st = \<lparr>log_actions = [], log_typeIndex = []\<rparr>"

section \<open>Union of deliveries\<close>

text \<open>The Update list of one Action as a dictionary by Update id.\<close>

definition by_id :: "Update list \<Rightarrow> string \<rightharpoonup> Update" where
  "by_id us = map_of (map (\<lambda>u. (upd_id u, u)) (rev us))"

definition ids_ok :: "Update list \<Rightarrow> bool" where
  "ids_ok us \<longleftrightarrow> distinct (map upd_id us)"

lemma by_id_Nil [simp]: "by_id [] = Map.empty"
  by (simp add: by_id_def)

lemma by_id_snoc: "by_id (us @ [u]) = (by_id us)(upd_id u \<mapsto> u)"
  by (auto simp: by_id_def)

lemma by_id_append: "by_id (us @ vs) = by_id us ++ by_id vs"
  by (simp add: by_id_def)

lemma fold_by_id: "fold (\<lambda>u m. m(upd_id u \<mapsto> u)) us m = m ++ by_id us"
  by (induction us rule: rev_induct) (simp_all add: by_id_snoc del: fun_upd_apply)

lemma by_id_key: "by_id us i = Some u \<Longrightarrow> upd_id u = i \<and> u \<in> set us"
  by (auto simp: by_id_def dest!: map_of_SomeD)

lemma by_id_None: "by_id us i = None \<longleftrightarrow> i \<notin> upd_id ` set us"
  by (auto simp: by_id_def map_of_eq_None_iff image_comp)

lemma by_id_self: "ids_ok us \<Longrightarrow> u \<in> set us \<Longrightarrow> by_id us (upd_id u) = Some u"
  by (auto simp: by_id_def ids_ok_def comp_def rev_map [symmetric] intro!: map_of_is_SomeI)

lemma map_by_id: "ids_ok us \<Longrightarrow> map (\<lambda>i. the (by_id us i)) (map upd_id us) = us"
  by (auto intro!: map_idI simp: by_id_self)

text \<open>The loop over the incoming copy, from any dictionary and order that agree.\<close>

lemma merge_loop:
  assumes "distinct ord" "set ord = dom m" "fold union_step us (m, ord) = (m', ord')"
  shows "m' = m ++ by_id us \<and> distinct ord' \<and> set ord' = dom m' \<and> (\<exists>new. ord' = ord @ new)"
  using assms
proof (induction us arbitrary: m' ord' rule: rev_induct)
  case Nil
  then show ?case by simp
next
  case (snoc u us)
  obtain m1 ord1 where loop: "fold union_step us (m, ord) = (m1, ord1)" by fastforce
  from snoc.IH [OF snoc.prems(1,2) loop]
  have ih: "m1 = m ++ by_id us" "distinct ord1" "set ord1 = dom m1" "\<exists>new. ord1 = ord @ new" by auto
  have "union_step u (m1, ord1) = (m', ord')" using snoc.prems(3) loop by simp
  then have "m' = m1(upd_id u \<mapsto> u)" "ord' = (if m1 (upd_id u) = None then ord1 @ [upd_id u] else ord1)"
    by (simp_all add: union_step_def)
  moreover have "upd_id u \<notin> set ord1" if "m1 (upd_id u) = None"
    using that ih(3) by auto
  ultimately show ?case
    using ih by (auto simp: by_id_snoc simp del: fun_upd_apply)
qed

lemma concat_present:
  "\<forall>i \<in> set ord. m i \<noteq> None \<Longrightarrow>
     concat (map (\<lambda>i. case m i of None \<Rightarrow> [] | Some u \<Rightarrow> [u]) ord) = map (\<lambda>i. the (m i)) ord"
  by (induction ord) auto

lemma mergeActionUpdates_spec:
  assumes "ids_ok existing"
  shows "ids_ok (mergeActionUpdates existing incoming)"
    "by_id (mergeActionUpdates existing incoming) = by_id existing ++ by_id incoming"
    "\<exists>new. map upd_id (mergeActionUpdates existing incoming) = map upd_id existing @ new"
proof -
  let ?m = "by_id existing" and ?ord = "map upd_id existing"
  have dom: "set ?ord = dom ?m" by (auto simp: dom_def by_id_None)
  obtain m ord where loop: "fold union_step incoming (?m, ?ord) = (m, ord)" by fastforce
  from merge_loop [OF _ dom loop] assms
  have m: "m = ?m ++ by_id incoming" and ord: "distinct ord" "set ord = dom m" "\<exists>new. ord = ?ord @ new"
    by (auto simp: ids_ok_def)
  have res: "mergeActionUpdates existing incoming = map (\<lambda>i. the (m i)) ord"
    using ord(2) by (simp add: mergeActionUpdates_def fold_by_id loop concat_present domIff)
  have key: "upd_id (the (m i)) = i" if "i \<in> set ord" for i
    using that ord(2) by (auto simp: m map_add_def dest: by_id_key split: option.splits)
  then have ids: "map upd_id (map (\<lambda>i. the (m i)) ord) = ord"
    by (auto intro: map_idI)
  show ok: "ids_ok (mergeActionUpdates existing incoming)"
    unfolding ids_ok_def res ids by (rule ord(1))
  show "\<exists>new. map upd_id (mergeActionUpdates existing incoming) = map upd_id existing @ new"
    unfolding res ids by (rule ord(3))
  show "by_id (mergeActionUpdates existing incoming) = by_id existing ++ by_id incoming"
  proof (rule ext)
    fix i
    show "by_id (mergeActionUpdates existing incoming) i = (by_id existing ++ by_id incoming) i"
    proof (cases "m i")
      case None
      then have "i \<notin> set (map upd_id (mergeActionUpdates existing incoming))"
        unfolding res ids ord(2) by auto
      with None show ?thesis by (simp add: by_id_None m [symmetric])
    next
      case (Some u)
      then have "i \<in> set ord" using ord(2) by auto
      with Some key have "u \<in> set (mergeActionUpdates existing incoming)" "upd_id u = i"
        by (force simp: res)+
      with by_id_self [OF ok] Some show ?thesis by (auto simp: m [symmetric])
    qed
  qed
qed

lemma updates_eqI:
  assumes "ids_ok us" "ids_ok vs" "map upd_id us = map upd_id vs" "by_id us = by_id vs"
  shows "us = vs"
  using map_by_id [OF assms(1)] map_by_id [OF assms(2)] assms(3,4) by simp

text \<open>A copy that brings nothing new leaves the record as it is.\<close>

lemma mergeActionUpdates_absorb:
  assumes "ids_ok existing" "by_id incoming \<subseteq>\<^sub>m by_id existing"
  shows "mergeActionUpdates existing incoming = existing"
proof (rule updates_eqI)
  note spec = mergeActionUpdates_spec [OF assms(1), of incoming]
  show "by_id (mergeActionUpdates existing incoming) = by_id existing"
    unfolding spec(2) using assms(2) by (auto simp: map_le_iff_map_add_commute map_add_comm
        map_le_def map_add_def fun_eq_iff dom_def split: option.splits)
  moreover obtain new where new: "map upd_id (mergeActionUpdates existing incoming) = map upd_id existing @ new"
    using spec(3) by blast
  ultimately have "set (map upd_id existing @ new) = set (map upd_id existing)"
    using by_id_None [of "mergeActionUpdates existing incoming"] by_id_None [of existing]
    unfolding new [symmetric] by auto
  moreover have "distinct (map upd_id existing @ new)"
    using spec(1) new by (simp add: ids_ok_def)
  ultimately show "map upd_id (mergeActionUpdates existing incoming) = map upd_id existing"
    unfolding new by (cases new) auto
qed (use assms mergeActionUpdates_spec in auto)

text \<open>
  When the copies of an Update under one id agree, the union appends the new Updates of the incoming
  copy behind the stored ones.
\<close>

lemma mergeActionUpdates_extends:
  assumes ids: "ids_ok existing" "ids_ok incoming"
    and agree: "\<And>u v. u \<in> set existing \<Longrightarrow> v \<in> set incoming \<Longrightarrow> upd_id u = upd_id v \<Longrightarrow> u = v"
  obtains new where "mergeActionUpdates existing incoming = existing @ new" "set new \<subseteq> set incoming"
    "set incoming \<subseteq> set existing \<union> set new"
proof -
  let ?m = "mergeActionUpdates existing incoming" and ?n = "length existing"
  note spec = mergeActionUpdates_spec [OF ids(1), of incoming]
  obtain nw where nw: "map upd_id ?m = map upd_id existing @ nw" using spec(3) by blast
  then have len: "?n \<le> length ?m" by (metis length_append length_map le_add1)
  have origin: "u \<in> set incoming \<or> u \<in> set existing" if "u \<in> set ?m" for u
    using by_id_self [OF spec(1) that] unfolding spec(2)
    by (auto simp: map_add_def dest: by_id_key split: option.splits)
  have pre: "take ?n ?m = existing"
  proof (rule nth_equalityI)
    fix j assume "j < length (take ?n ?m)"
    then have j: "j < ?n" by simp
    have "map upd_id ?m ! j = upd_id (existing ! j)" unfolding nw using j by (simp add: nth_append)
    with j len have id: "upd_id (?m ! j) = upd_id (existing ! j)" by simp
    from origin [of "?m ! j"] j len have "?m ! j \<in> set incoming \<or> ?m ! j \<in> set existing" by auto
    then have "?m ! j = existing ! j"
      using agree [of "existing ! j" "?m ! j"] id j by_id_self [OF ids(1)]
      by (metis nth_mem option.inject)
    then show "take ?n ?m ! j = existing ! j" using j by simp
  qed (use len in simp)
  let ?new = "drop ?n ?m"
  have app: "?m = existing @ ?new" by (metis append_take_drop_id pre)
  have "u \<in> set incoming" if "u \<in> set ?new" for u
  proof -
    have "distinct (map upd_id (existing @ ?new))" using spec(1) app by (simp add: ids_ok_def)
    then have "u \<notin> set existing" using that by auto
    moreover have "u \<in> set ?m" using that by (rule in_set_dropD)
    ultimately show ?thesis using origin by blast
  qed
  moreover have "v \<in> set existing \<union> set ?new" if "v \<in> set incoming" for v
  proof -
    have "upd_id v \<in> upd_id ` set ?m"
      using that by_id_None [of ?m "upd_id v"] by_id_None [of incoming "upd_id v"]
      unfolding spec(2) by (auto simp: map_add_def split: option.splits)
    then obtain w where w: "w \<in> set ?m" "upd_id w = upd_id v" by auto
    with origin have "w = v"
      using agree that by_id_self [OF ids(2)] by (metis option.inject)
    with w(1) show ?thesis using app by (metis set_append)
  qed
  ultimately show thesis using that app by blast
qed

section \<open>The log\<close>

definition indexed :: "(string \<times> string list) list \<Rightarrow> Update \<Rightarrow> bool" where
  "indexed ti u \<longleftrightarrow> (\<exists>ids. map_of ti (subject_type u) = Some ids \<and> subject_id u \<in> set ids)"

text \<open>
  The invariant: one record per Action id, one Update per Update id in it, and the type index
  covers every stored Update.
\<close>

definition log_ok :: "ActionLogState \<Rightarrow> bool" where
  "log_ok st \<longleftrightarrow> distinct (map act_id (log_actions st)) \<and> obj_ok (log_typeIndex st) \<and>
     (\<forall>a \<in> set (log_actions st). ids_ok (act_updates a) \<and>
        (\<forall>u \<in> set (act_updates a). indexed (log_typeIndex st) u))"

text \<open>The abstract log: which Updates each Action id has, and the order in which ids arrived.\<close>

definition log_view :: "ActionLogState \<Rightarrow> string \<rightharpoonup> (string \<rightharpoonup> Update)" where
  "log_view st = map_of (map (\<lambda>a. (act_id a, by_id (act_updates a))) (log_actions st))"

definition log_order :: "ActionLogState \<Rightarrow> string list" where
  "log_order st = map act_id (log_actions st)"

lemma js_set_of_set: "set (js_set_of xs) = set xs"
proof -
  have "set (fold (\<lambda>x s. set_add s x) xs acc) = set acc \<union> set xs" for acc :: "'a list"
    by (induction xs arbitrary: acc) (auto simp: set_add_set)
  then show ?thesis by (simp add: js_set_of_def)
qed

lemma rebuild_index:
  assumes "obj_ok ti"
  shows "map_of (fold (\<lambda>(type, ids) m. obj_set m type (js_set_of ids)) ti []) t =
    map_option js_set_of (map_of ti t)"
  using fold_obj_set_get [OF assms, of "\<lambda>_ ids. js_set_of ids" "[]" t]
  by (simp split: option.splits)

lemma index_updates:
  "obj_ok m \<Longrightarrow> let m' = fold (\<lambda>u m. case map_of m (subject_type u) of
        Some existing \<Rightarrow> obj_set m (subject_type u) (set_add existing (subject_id u))
      | None \<Rightarrow> obj_set m (subject_type u) [subject_id u]) us m
    in obj_ok m' \<and> (\<forall>v. indexed m v \<or> v \<in> set us \<longrightarrow> indexed m' v)"
proof (induction us arbitrary: m)
  case Nil
  then show ?case by simp
next
  case (Cons u us)
  define m1 where "m1 = (case map_of m (subject_type u) of
        Some existing \<Rightarrow> obj_set m (subject_type u) (set_add existing (subject_id u))
      | None \<Rightarrow> obj_set m (subject_type u) [subject_id u])"
  have "obj_ok m1" using Cons.prems by (auto simp: m1_def intro: obj_set_ok split: option.splits)
  moreover have "indexed m1 v" if "indexed m v \<or> v = u" for v
    using that by (auto simp: m1_def indexed_def obj_set_get set_add_set split: option.splits)
  ultimately show ?case
    using Cons.IH [of m1] by (auto simp: m1_def [symmetric] Let_def)
qed

lemma updateTypeIndex_ok:
  assumes "obj_ok ti"
  shows "obj_ok (updateTypeIndex ti a)"
    "indexed ti v \<or> v \<in> set (act_updates a) \<Longrightarrow> indexed (updateTypeIndex ti a) v"
proof -
  let ?m = "fold (\<lambda>(type, ids) m. obj_set m type (js_set_of ids)) ti []"
  have ok: "obj_ok ?m"
    using fold_obj_set_ok [OF obj_ok_Nil, of "\<lambda>_ ids. js_set_of ids" ti] by simp
  have same: "indexed ?m v \<longleftrightarrow> indexed ti v" for v
    by (auto simp: indexed_def rebuild_index [OF assms] js_set_of_set)
  show "obj_ok (updateTypeIndex ti a)"
    "indexed ti v \<or> v \<in> set (act_updates a) \<Longrightarrow> indexed (updateTypeIndex ti a) v"
    using index_updates [OF ok, of "act_updates a"] same by (auto simp: updateTypeIndex_def Let_def)
qed

lemma replace_by_id:
  assumes "distinct (map f xs)" "i < length xs"
  shows "map (\<lambda>x. if f x = f (xs ! i) then s else x) xs = xs[i := s]"
proof (rule nth_equalityI)
  fix j
  assume "j < length (map (\<lambda>x. if f x = f (xs ! i) then s else x) xs)"
  then have "j < length xs" by simp
  moreover from this assms have "f (xs ! j) = f (xs ! i) \<longleftrightarrow> j = i"
    using nth_eq_iff_index_eq [of "map f xs" j i] by simp
  ultimately show "map (\<lambda>x. if f x = f (xs ! i) then s else x) xs ! j = xs[i := s] ! j"
    using assms(2) by simp
qed simp

lemma log_append_new:
  assumes "act_id a \<notin> set (log_order st)"
  shows "log_append st a = (\<lparr>log_actions = log_actions st @ [a],
      log_typeIndex = updateTypeIndex (log_typeIndex st) a\<rparr>,
    \<lparr>la_action = a, la_position = int (length (log_actions st)) + 1, la_added = act_updates a\<rparr>)"
proof -
  have "find_index (\<lambda>s. act_id s = act_id a) (log_actions st) = None"
    using assms unfolding find_index_None log_order_def set_map by (metis image_eqI)
  then show ?thesis by (simp add: log_append_def addedUpdates_def)
qed

lemma log_append_old:
  assumes "log_ok st" "act_id a \<in> set (log_order st)"
  obtains i stored where "i < length (log_actions st)" "act_id (log_actions st ! i) = act_id a"
    "stored = (log_actions st ! i)\<lparr>act_updates :=
       mergeActionUpdates (act_updates (log_actions st ! i)) (act_updates a)\<rparr>"
    "log_append st a = (\<lparr>log_actions = (log_actions st)[i := stored],
        log_typeIndex = updateTypeIndex (log_typeIndex st) stored\<rparr>,
      \<lparr>la_action = stored, la_position = int i + 1,
       la_added = addedUpdates (act_updates (log_actions st ! i)) (act_updates a)\<rparr>)"
proof -
  obtain i where i: "find_index (\<lambda>s. act_id s = act_id a) (log_actions st) = Some i"
    using assms(2) by (cases "find_index (\<lambda>s. act_id s = act_id a) (log_actions st)")
      (auto simp: find_index_None log_order_def)
  from find_index_Some [OF i] have len: "i < length (log_actions st)"
    and eq: "act_id (log_actions st ! i) = act_id a" by auto
  have "distinct (map act_id (log_actions st))" using assms(1) by (simp add: log_ok_def)
  from replace_by_id [OF this len] eq i len show thesis
    by (intro that [OF len eq refl]) (simp add: log_append_def Let_def)
qed

lemma map_of_list_update:
  assumes "distinct (map f xs)" "i < length xs" "f s = f (xs ! i)"
  shows "map_of (map (\<lambda>a. (f a, g a)) (xs[i := s])) = (map_of (map (\<lambda>a. (f a, g a)) xs))(f s \<mapsto> g s)"
  using assms
proof (induction xs arbitrary: i)
  case Nil
  then show ?case by simp
next
  case (Cons x xs)
  show ?case
  proof (cases i)
    case 0
    with Cons.prems show ?thesis by (auto simp: fun_eq_iff)
  next
    case (Suc j)
    with Cons.prems have "f s \<noteq> f x" by (metis distinct.simps(2) list.simps(9) length_Cons
          length_map nth_Cons_Suc nth_map nth_mem Suc_less_eq)
    with Cons Suc show ?thesis by (auto simp: fun_eq_iff)
  qed
qed

text \<open>What one append does, on the invariant, the order and the abstract log.\<close>

definition append_spec :: "ActionLogState \<Rightarrow> Action \<Rightarrow> ActionLogState \<Rightarrow> LoggedAction \<Rightarrow> bool" where
  "append_spec st a st' entry \<longleftrightarrow> log_ok st' \<and>
    log_order st' = (if act_id a \<in> set (log_order st) then log_order st else log_order st @ [act_id a]) \<and>
    log_view st' = (log_view st)(act_id a \<mapsto>
      getOr (log_view st (act_id a)) Map.empty ++ by_id (act_updates a)) \<and>
    1 \<le> la_position entry \<and> la_position entry \<le> log_lastPosition st' \<and>
    log_actions st' ! nat (la_position entry - 1) = la_action entry \<and> act_id (la_action entry) = act_id a"

lemma log_append_spec_new:
  assumes "log_ok st" "ids_ok (act_updates a)" "act_id a \<notin> set (log_order st)"
  shows "append_spec st a (fst (log_append st a)) (snd (log_append st a))"
proof -
  have ti: "obj_ok (log_typeIndex st)" using assms(1) by (simp add: log_ok_def)
  have none: "log_view st (act_id a) = None"
    using assms(3) by (auto simp: log_view_def log_order_def map_of_eq_None_iff)
  have "log_ok (fst (log_append st a))"
    using assms updateTypeIndex_ok [OF ti, where a = a]
    by (auto simp: log_append_new log_ok_def log_order_def)
  moreover have "log_view (fst (log_append st a)) = (log_view st)(act_id a \<mapsto> by_id (act_updates a))"
    using none by (auto simp: log_append_new [OF assms(3)] log_view_def fun_eq_iff map_add_def
        split: option.splits)
  ultimately show ?thesis
    using assms(3) none
    by (simp add: append_spec_def log_append_new) (simp add: log_order_def log_lastPosition_def)
qed

lemma log_append_spec_old:
  assumes "log_ok st" "ids_ok (act_updates a)" "act_id a \<in> set (log_order st)"
  shows "append_spec st a (fst (log_append st a)) (snd (log_append st a))"
proof -
  obtain i stored where len: "i < length (log_actions st)" and eq: "act_id (log_actions st ! i) = act_id a"
    and stored: "stored = (log_actions st ! i)\<lparr>act_updates :=
       mergeActionUpdates (act_updates (log_actions st ! i)) (act_updates a)\<rparr>"
    and app: "log_append st a = (\<lparr>log_actions = (log_actions st)[i := stored],
        log_typeIndex = updateTypeIndex (log_typeIndex st) stored\<rparr>,
      \<lparr>la_action = stored, la_position = int i + 1,
       la_added = addedUpdates (act_updates (log_actions st ! i)) (act_updates a)\<rparr>)"
    using log_append_old [OF assms(1,3)] by blast
  have ti: "obj_ok (log_typeIndex st)" and dist: "distinct (map act_id (log_actions st))"
    and "ids_ok (act_updates (log_actions st ! i))"
    using assms(1) len by (simp_all add: log_ok_def)
  note spec = mergeActionUpdates_spec [OF this(3), of "act_updates a"]
  have id: "act_id stored = act_id (log_actions st ! i)" by (simp add: stored)
  have ids: "map act_id ((log_actions st)[i := stored]) = map act_id (log_actions st)"
    using len id by (simp add: map_update list_update_same_conv)
  have "log_ok (fst (log_append st a))"
    using app assms spec(1) updateTypeIndex_ok [OF ti, where a = stored] dist ids
    by (auto simp: log_ok_def stored dest!: set_update_subset_insert [THEN subsetD])
  moreover have "log_view st (act_id a) = Some (by_id (act_updates (log_actions st ! i)))"
    unfolding log_view_def eq [symmetric]
    using dist len by (auto intro!: map_of_is_SomeI simp: comp_def)
  moreover have "log_view (fst (log_append st a)) = (log_view st)(act_id a \<mapsto> by_id (act_updates stored))"
    using map_of_list_update [OF dist len id, of "\<lambda>a. by_id (act_updates a)"] id eq
    by (simp add: app log_view_def)
  moreover have "by_id (act_updates stored) = by_id (act_updates (log_actions st ! i)) ++ by_id (act_updates a)"
    using spec(2) by (simp add: stored)
  ultimately show ?thesis
    using assms(3) ids len eq id
    by (simp add: append_spec_def app log_order_def log_lastPosition_def)
qed

lemma log_append_spec:
  "log_ok st \<Longrightarrow> ids_ok (act_updates a) \<Longrightarrow>
     append_spec st a (fst (log_append st a)) (snd (log_append st a))"
  using log_append_spec_new log_append_spec_old by blast

section \<open>Properties\<close>

text \<open>
  An append keeps the log well formed (one record per Action id, one Update per Update id, the
  type index covering every Update). A new id goes to the end; a known id keeps its position, no
  other position changes id, and its record becomes the union of its Updates with the delivered
  ones, the delivered copy winning. The returned position is where the returned record is stored.
\<close>

theorem log_append_correct:
  assumes "log_ok st" "ids_ok (act_updates a)" "log_append st a = (st', entry)"
  shows "log_ok st' \<and>
    log_order st' = (if act_id a \<in> set (log_order st) then log_order st else log_order st @ [act_id a]) \<and>
    (\<forall>aid. log_view st' aid =
       (if aid = act_id a then Some (getOr (log_view st aid) Map.empty ++ by_id (act_updates a))
        else log_view st aid)) \<and>
    1 \<le> la_position entry \<and> la_position entry \<le> log_lastPosition st' \<and>
    log_actions st' ! nat (la_position entry - 1) = la_action entry \<and> act_id (la_action entry) = act_id a"
  using log_append_spec [OF assms(1,2)] assms(3) by (auto simp: append_spec_def)

definition sample_action :: "string \<Rightarrow> Update list \<Rightarrow> Action" where
  "sample_action aid us = \<lparr>act_id = aid, actor_id = ''me'', act_hlc = 5, act_gsn = 3, act_updates = us\<rparr>"

definition sample_update :: "string \<Rightarrow> string \<Rightarrow> Update" where
  "sample_update uid subject = \<lparr>upd_id = uid, subject_id = subject, subject_type = ''todo'',
     upd_method = Patch, upd_data = None\<rparr>"

lemma empty_log_ok: "log_ok createMemoryActionLog"
  by (simp add: log_ok_def createMemoryActionLog_def obj_ok_def)

theorem log_append_correct_witness:
  "log_ok (fst (log_append createMemoryActionLog (sample_action ''a_1'' [sample_update ''u_1'' ''t_1''])))"
  using log_append_correct [OF empty_log_ok, of "sample_action ''a_1'' [sample_update ''u_1'' ''t_1'']"]
  by (simp add: sample_action_def ids_ok_def prod_eq_iff)

text \<open>
  C5: splitting the delivery of an Action does not matter. Appending two copies of an Action, each
  with part of its Updates, stores the same Updates for every Action and the same order of Actions
  as appending it whole.
\<close>

theorem split_delivery:
  assumes "log_ok st" "ids_ok (us @ vs)" "act_updates a = us @ vs"
  shows "let whole = fst (log_append st a);
             parts = fst (log_append (fst (log_append st (a\<lparr>act_updates := us\<rparr>))) (a\<lparr>act_updates := vs\<rparr>))
    in log_view parts = log_view whole \<and> log_order parts = log_order whole"
proof -
  have ids: "ids_ok us" "ids_ok vs" using assms(2) by (auto simp: ids_ok_def)
  let ?s1 = "fst (log_append st (a\<lparr>act_updates := us\<rparr>))"
  have one: "append_spec st (a\<lparr>act_updates := us\<rparr>) ?s1 (snd (log_append st (a\<lparr>act_updates := us\<rparr>)))"
    using assms(1) ids by (intro log_append_spec) simp_all
  then have "log_ok ?s1" by (simp add: append_spec_def)
  then have two: "append_spec ?s1 (a\<lparr>act_updates := vs\<rparr>) (fst (log_append ?s1 (a\<lparr>act_updates := vs\<rparr>)))
      (snd (log_append ?s1 (a\<lparr>act_updates := vs\<rparr>)))"
    using ids by (intro log_append_spec) simp_all
  have whole: "append_spec st a (fst (log_append st a)) (snd (log_append st a))"
    using assms by (intro log_append_spec) simp_all
  show ?thesis
    using one two whole assms(3)
    by (auto simp: append_spec_def Let_def by_id_append)
qed

theorem split_delivery_witness:
  "log_view (fst (log_append (fst (log_append createMemoryActionLog
        ((sample_action ''a_1'' [])\<lparr>act_updates := [sample_update ''u_1'' ''t_1'']\<rparr>)))
        ((sample_action ''a_1'' [])\<lparr>act_updates := [sample_update ''u_2'' ''t_2'']\<rparr>))) =
   log_view (fst (log_append createMemoryActionLog
        (sample_action ''a_1'' [sample_update ''u_1'' ''t_1'', sample_update ''u_2'' ''t_2''])))"
  using split_delivery [OF empty_log_ok, of "[sample_update ''u_1'' ''t_1'']" "[sample_update ''u_2'' ''t_2'']"
      "sample_action ''a_1'' [sample_update ''u_1'' ''t_1'', sample_update ''u_2'' ''t_2'']"]
  by (simp add: ids_ok_def sample_update_def sample_action_def Let_def)

text \<open>
  Re-delivering Updates the log already holds is a no-op: the stored Actions do not change and
  the delta the caller is told to fold is empty.
\<close>

theorem redelivery_noop:
  assumes "log_ok st" "log_view st (act_id a) = Some known" "by_id (act_updates a) \<subseteq>\<^sub>m known"
  shows "log_actions (fst (log_append st a)) = log_actions st \<and> la_added (snd (log_append st a)) = []"
proof -
  have "act_id a \<in> set (log_order st)"
    using assms(2) by (force simp: log_view_def log_order_def dest: map_of_SomeD)
  with assms(1) obtain i stored where len: "i < length (log_actions st)"
    and eq: "act_id (log_actions st ! i) = act_id a"
    and stored: "stored = (log_actions st ! i)\<lparr>act_updates :=
       mergeActionUpdates (act_updates (log_actions st ! i)) (act_updates a)\<rparr>"
    and app: "log_append st a = (\<lparr>log_actions = (log_actions st)[i := stored],
        log_typeIndex = updateTypeIndex (log_typeIndex st) stored\<rparr>,
      \<lparr>la_action = stored, la_position = int i + 1,
       la_added = addedUpdates (act_updates (log_actions st ! i)) (act_updates a)\<rparr>)"
    using log_append_old by blast
  have "log_view st (act_id a) = Some (by_id (act_updates (log_actions st ! i)))"
    unfolding log_view_def eq [symmetric]
    using assms(1) len by (auto intro!: map_of_is_SomeI simp: comp_def log_ok_def)
  with assms(2,3) have le: "by_id (act_updates a) \<subseteq>\<^sub>m by_id (act_updates (log_actions st ! i))" by simp
  have "ids_ok (act_updates (log_actions st ! i))" using assms(1) len by (simp add: log_ok_def)
  from mergeActionUpdates_absorb [OF this le] have "stored = log_actions st ! i"
    by (simp add: stored)
  moreover have "upd_id u \<in> upd_id ` set (act_updates (log_actions st ! i))"
    if "u \<in> set (act_updates a)" for u
    using map_le_implies_dom_le [OF le] by_id_None that by (force simp: dom_def)
  ultimately show ?thesis
    using len by (auto simp: app addedUpdates_def filter_empty_conv)
qed

theorem redelivery_noop_witness:
  "la_added (snd (log_append
     \<lparr>log_actions = [sample_action ''a_1'' [sample_update ''u_1'' ''t_1'']], log_typeIndex = [(''todo'', [''t_1''])]\<rparr>
     (sample_action ''a_1'' [sample_update ''u_1'' ''t_1'']))) = []"
  by (rule redelivery_noop [where known = "by_id [sample_update ''u_1'' ''t_1'']", THEN conjunct2])
    (auto simp: log_ok_def ids_ok_def obj_ok_def indexed_def log_view_def sample_action_def sample_update_def)

text \<open>
  The Actions of an entity come back in gsn order, those of equal gsn in log order, and are
  exactly the logged Actions with an Update of that entity.
\<close>

theorem getForEntity_sorted:
  "sorted (map act_gsn (log_getForEntity st eid)) \<and>
   set (log_getForEntity st eid) =
     {a \<in> set (log_getAll st). \<exists>u \<in> set (act_updates a). subject_id u = eid} \<and>
   filter (\<lambda>a. act_gsn a = g) (log_getForEntity st eid) =
     filter (\<lambda>a. act_gsn a = g \<and> (\<exists>u \<in> set (act_updates a). subject_id u = eid)) (log_getAll st)"
proof -
  let ?mine = "\<lambda>a. \<exists>u \<in> set (act_updates a). subject_id u = eid"
  have "sort_key act_gsn (filter (\<lambda>a. act_gsn a = g \<and> ?mine a) (log_actions st)) =
      filter (\<lambda>a. act_gsn a = g \<and> ?mine a) (log_actions st)"
    by (rule sort_key_const_key [where c = g]) auto
  moreover have "filter (\<lambda>a. act_gsn a = g) (filter ?mine (log_actions st)) =
      filter (\<lambda>a. act_gsn a = g \<and> ?mine a) (log_actions st)"
    by (simp add: conj_commute)
  ultimately show ?thesis
    by (auto simp: log_getForEntity_def log_getAll_def filter_sort simp del: filter_filter)
qed

end
