(* ===== verification/MapField.thy ===== *)
theory MapField
  imports FieldValue
begin

text \<open>
  The resident container for a large map field (packages/storage/src/internal/map-field.ts). A
  plain map is one record; a container spreads the keys over 64 shard records by an FNV-1a hash of
  the key and copies only the shards a winning key lands in. The container is an implementation of
  the plain map: the locale \<open>map_field\<close> is the contract both satisfy, and the sharded merge is
  proved to give every key the value the plain merge gives it.

  \<open>resident\<close> is a field value as the storage layer keeps it: a wire-shaped value, or a container
  with its shards and, when it was built from one, its flat record. The flat record a container
  computes on demand and caches is a function of its shards, so the cache is not a state of its own.
\<close>

section \<open>Model\<close>

definition MAP_FIELD_FLIP_POINT :: nat where "MAP_FIELD_FLIP_POINT = 500"

definition MAP_FIELD_SHARD_COUNT :: nat where "MAP_FIELD_SHARD_COUNT = 64"

type_synonym shards = "field_value obj list"

datatype resident = Plain field_value | Sharded shards "field_value obj option"

subsection \<open>Hashing\<close>

fun fnv1a_loop :: "32 word \<Rightarrow> string \<Rightarrow> 32 word" where
  "fnv1a_loop hash [] = hash"
| "fnv1a_loop hash (ch # cs) = fnv1a_loop ((xor hash (of_nat (of_char ch))) * 0x01000193) cs"

definition fnv1a :: "string \<Rightarrow> 32 word" where
  "fnv1a input = fnv1a_loop 0x811c9dc5 input"

definition shardIndex :: "string \<Rightarrow> nat" where
  "shardIndex key = unat (fnv1a key) mod MAP_FIELD_SHARD_COUNT"

definition emptyShards :: shards where
  "emptyShards = replicate MAP_FIELD_SHARD_COUNT []"

subsection \<open>Reading a container\<close>

text \<open>The \<^verbatim>\<open>map\<close> getter of \<^verbatim>\<open>createSharded\<close>: \<^verbatim>\<open>Object.assign\<close> of the shards in order.\<close>

definition object_assign :: "'v obj \<Rightarrow> 'v obj \<Rightarrow> 'v obj" where
  "object_assign out src = fold (\<lambda>(k, v) acc. obj_set acc k v) src out"

definition createSharded_map :: "shards \<Rightarrow> field_value obj option \<Rightarrow> field_value obj" where
  "createSharded_map sh flattened =
     (case flattened of Some w \<Rightarrow> w | None \<Rightarrow> fold (\<lambda>s out. object_assign out s) sh [])"

definition isShardedMapField :: "resident \<Rightarrow> bool" where
  "isShardedMapField f = (case f of Sharded _ _ \<Rightarrow> True | Plain _ \<Rightarrow> False)"

definition mapFieldShards :: "resident \<Rightarrow> js_error + shards" where
  "mapFieldShards f = (case f of Sharded sh _ \<Rightarrow> Inr sh | Plain _ \<Rightarrow> Inl NotSharded)"

text \<open>The value the rest of the code sees in a resident field: a container reads as a map.\<close>

definition wireValue :: "resident \<Rightarrow> field_value" where
  "wireValue f = (case f of Plain v \<Rightarrow> v | Sharded sh fl \<Rightarrow> FMap (createSharded_map sh fl))"

definition mapFieldToWire :: "resident \<Rightarrow> field_value obj" where
  "mapFieldToWire f = (case f of
     Sharded sh fl \<Rightarrow> createSharded_map sh fl
   | Plain (FMap m) \<Rightarrow> m
   | Plain (Leaf _ _ _) \<Rightarrow> [])"

definition mapFieldGet :: "resident \<Rightarrow> string \<Rightarrow> field_value option" where
  "mapFieldGet f key = (case f of
     Sharded sh _ \<Rightarrow> map_of (sh ! shardIndex key) key
   | Plain (FMap m) \<Rightarrow> map_of m key
   | Plain (Leaf _ _ _) \<Rightarrow> None)"

subsection \<open>Building and adopting containers\<close>

definition mapFieldFromWire :: "field_value obj \<Rightarrow> resident" where
  "mapFieldFromWire wire =
     (let (sh, flattened) =
        fold (\<lambda>(key, value) (sh, fl).
            (sh[shardIndex key := obj_set (sh ! shardIndex key) key value], obj_set fl key value))
          wire (emptyShards, [])
      in Sharded sh (Some flattened))"

definition adoptMapField :: "resident \<Rightarrow> resident" where
  "adoptMapField f = (case f of
     Plain (FMap m) \<Rightarrow>
       if length (obj_keys m) \<ge> MAP_FIELD_FLIP_POINT then mapFieldFromWire m else f
   | _ \<Rightarrow> f)"

definition adoptMapFields :: "resident obj \<Rightarrow> resident obj" where
  "adoptMapFields flds =
     fold (\<lambda>(name, f) adopted. let next' = adoptMapField f in
         if next' = f then adopted else obj_set adopted name next') flds flds"

definition toWireMapFields :: "resident obj \<Rightarrow> resident obj" where
  "toWireMapFields flds =
     fold (\<lambda>(name, f) wire. if \<not> isShardedMapField f then wire
         else obj_set wire name (Plain (FMap (mapFieldToWire f)))) flds flds"

subsection \<open>Merging\<close>

text \<open>
  One entry of the loop in \<^verbatim>\<open>mergeShardedMapField\<close>: \<open>touched\<close> holds the copied shards by index.
\<close>

definition merge_shard_entry ::
  "shards \<Rightarrow> string \<times> field_value \<Rightarrow> (nat \<times> field_value obj) list \<Rightarrow> (nat \<times> field_value obj) list" where
  "merge_shard_entry sh kv touched =
     (case kv of (key, value) \<Rightarrow>
       (let index = shardIndex key;
            current = getOr (map_of touched index) (sh ! index);
            previous = map_of current key;
            merged = mergeFieldValue previous value
        in if previous = Some merged then touched
           else obj_set touched index (obj_set current key merged)))"

definition mergeShardedMapField ::
  "shards \<Rightarrow> field_value obj option \<Rightarrow> field_value obj \<Rightarrow> resident" where
  "mergeShardedMapField sh fl incoming =
     (let touched = fold (merge_shard_entry sh) incoming [] in
      if touched = [] then Sharded sh fl
      else Sharded (fold (\<lambda>(index, shard) next'. next'[index := shard]) touched sh) None)"

definition mergeResidentFieldValue :: "resident option \<Rightarrow> field_value \<Rightarrow> resident" where
  "mergeResidentFieldValue existing incoming =
     (case existing of
        Some (Sharded sh fl) \<Rightarrow>
          (case incoming of
             FMap im \<Rightarrow> mergeShardedMapField sh fl im
           | Leaf _ _ _ \<Rightarrow> Plain incoming)
      | Some (Plain e) \<Rightarrow>
          (let merged = mergeFieldValue (Some e) incoming in
           if merged = e then Plain merged else adoptMapField (Plain merged))
      | None \<Rightarrow> adoptMapField (Plain (mergeFieldValue None incoming)))"

section \<open>The contract of a map field\<close>

text \<open>
  What the merge path asks of a map container: an invariant every merge keeps, and that a merge
  gives each incoming key the normative merge of its old and new value and leaves the rest alone.
\<close>

locale map_field =
  fixes lookup :: "'m \<Rightarrow> string \<Rightarrow> field_value option"
    and ok :: "'m \<Rightarrow> bool"
    and merge :: "'m \<Rightarrow> field_value obj \<Rightarrow> 'm"
  assumes merge_ok: "ok m \<Longrightarrow> obj_ok es \<Longrightarrow> ok (merge m es)"
    and lookup_merge: "ok m \<Longrightarrow> obj_ok es \<Longrightarrow> lookup (merge m es) k =
      (case map_of es k of None \<Rightarrow> lookup m k | Some v \<Rightarrow> Some (mergeFieldValue (lookup m k) v))"
begin

definition run :: "'m \<Rightarrow> field_value obj list \<Rightarrow> 'm" where
  "run m patches = fold (\<lambda>es m. merge m es) patches m"

lemma run_ok: "ok m \<Longrightarrow> list_all obj_ok patches \<Longrightarrow> ok (run m patches)"
  by (induction patches arbitrary: m) (auto simp: run_def merge_ok)

end

text \<open>Two containers of one map, compared key by key over any sequence of patches.\<close>

locale map_field_pair =
  a: map_field lookup1 ok1 merge1 + b: map_field lookup2 ok2 merge2
  for lookup1 :: "'m \<Rightarrow> string \<Rightarrow> field_value option" and ok1 and merge1
    and lookup2 :: "'n \<Rightarrow> string \<Rightarrow> field_value option" and ok2 and merge2
begin

lemma runs_agree:
  assumes "ok1 m" "ok2 n" "lookup1 m = lookup2 n" "list_all obj_ok patches"
  shows "lookup1 (a.run m patches) = lookup2 (b.run n patches)"
  using assms
proof (induction patches arbitrary: m n)
  case Nil
  then show ?case by (simp add: a.run_def b.run_def)
next
  case (Cons es patches)
  have "lookup1 (merge1 m es) = lookup2 (merge2 n es)"
    using Cons.prems by (auto simp: fun_eq_iff a.lookup_merge b.lookup_merge split: option.splits)
  with Cons.IH [of "merge1 m es" "merge2 n es"] Cons.prems show ?case
    by (simp add: a.run_def b.run_def a.merge_ok b.merge_ok)
qed

end

text \<open>A plain record satisfies the contract.\<close>

interpretation plain: map_field map_of obj_ok merge_entries
  by unfold_locales (auto intro: merge_entries_ok simp: merge_entries_get)

section \<open>Containers implement the contract\<close>

definition shards_ok :: "shards \<Rightarrow> field_value obj option \<Rightarrow> bool" where
  "shards_ok sh fl \<longleftrightarrow> length sh = 64 \<and>
     (\<forall>i < 64. obj_ok (sh ! i) \<and> (\<forall>k \<in> set (obj_keys (sh ! i)). shardIndex k = i)) \<and>
     (case fl of None \<Rightarrow> True
      | Some w \<Rightarrow> obj_ok w \<and> (\<forall>k. map_of w k = map_of (sh ! shardIndex k) k))"

definition resident_ok :: "resident \<Rightarrow> bool" where
  "resident_ok f \<longleftrightarrow> (case f of
     Plain (FMap m) \<Rightarrow> obj_ok m
   | Plain (Leaf _ _ _) \<Rightarrow> False
   | Sharded sh fl \<Rightarrow> shards_ok sh fl)"

lemma shardIndex_less [simp]: "shardIndex k < 64"
  by (simp add: shardIndex_def MAP_FIELD_SHARD_COUNT_def)

lemma shards_ok_length: "shards_ok sh fl \<Longrightarrow> length sh = 64"
  by (simp add: shards_ok_def)

lemma shards_ok_other:
  assumes "shards_ok sh fl" "i < 64" "i \<noteq> shardIndex k"
  shows "map_of (sh ! i) k = None"
  using assms by (auto simp: shards_ok_def map_of_eq_None_iff)

lemma keys_obj_set: "set (obj_keys (obj_set o' k v)) = insert k (set (obj_keys o'))"
  by (simp flip: dom_map_of_conv_image_fst add: obj_set_get)

subsection \<open>The flat record\<close>

lemma object_assign_get:
  "obj_ok src \<Longrightarrow> map_of (object_assign out src) k =
     (case map_of src k of None \<Rightarrow> map_of out k | Some v \<Rightarrow> Some v)"
  unfolding object_assign_def by (rule fold_obj_set_get [where f = "\<lambda>_ v. v"])

lemma object_assign_ok: "obj_ok out \<Longrightarrow> obj_ok (object_assign out src)"
  unfolding object_assign_def by (rule fold_obj_set_ok [where f = "\<lambda>_ v. v"])

lemma assign_all_skip:
  "\<forall>s \<in> set sh. obj_ok s \<and> map_of s k = None \<Longrightarrow>
     map_of (fold (\<lambda>s out. object_assign out s) sh out) k = map_of out k"
  by (induction sh arbitrary: out) (auto simp: object_assign_get)

lemma assign_all_ok: "obj_ok out \<Longrightarrow> obj_ok (fold (\<lambda>s out. object_assign out s) sh out)"
  by (induction sh arbitrary: out) (auto intro: object_assign_ok)

lemma createSharded_map_get:
  assumes "shards_ok sh fl"
  shows "map_of (createSharded_map sh fl) k = map_of (sh ! shardIndex k) k"
proof (cases fl)
  case (Some w)
  with assms show ?thesis by (simp add: createSharded_map_def shards_ok_def)
next
  case None
  let ?j = "shardIndex k"
  have len: "length sh = 64" using assms by (rule shards_ok_length)
  have ok: "\<forall>i < 64. obj_ok (sh ! i)" using assms by (simp add: shards_ok_def)
  have other: "obj_ok s \<and> map_of s k = None"
    if "s \<in> set (take ?j sh) \<or> s \<in> set (drop (Suc ?j) sh)" for s
  proof -
    have "\<exists>i < 64. i \<noteq> ?j \<and> s = sh ! i"
    proof (cases "s \<in> set (take ?j sh)")
      case True
      then obtain i where i: "i < ?j" "s = sh ! i" by (auto simp: in_set_conv_nth)
      with less_trans [OF i(1) shardIndex_less] show ?thesis by (intro exI [of _ i]) simp
    next
      case False
      with that len obtain i where "i < 63 - ?j" "s = sh ! Suc (?j + i)"
        by (auto simp: in_set_conv_nth)
      then show ?thesis by (intro exI [of _ "Suc (?j + i)"]) simp
    qed
    then show ?thesis using ok shards_ok_other [OF assms] by auto
  qed
  have "sh = take ?j sh @ sh ! ?j # drop (Suc ?j) sh"
    using len by (simp add: id_take_nth_drop)
  then have "fold (\<lambda>s out. object_assign out s) sh [] =
      fold (\<lambda>s out. object_assign out s) (drop (Suc ?j) sh)
        (object_assign (fold (\<lambda>s out. object_assign out s) (take ?j sh) []) (sh ! ?j))"
    by (metis (mono_tags, lifting) fold_append fold_simps(2) o_apply)
  with None ok other show ?thesis
    by (simp add: createSharded_map_def assign_all_skip object_assign_get split: option.splits)
qed

lemma createSharded_map_ok: "shards_ok sh fl \<Longrightarrow> obj_ok (createSharded_map sh fl)"
  by (cases fl) (auto simp: createSharded_map_def shards_ok_def obj_ok_Nil intro: assign_all_ok)

lemma toWire_get: "resident_ok f \<Longrightarrow> map_of (mapFieldToWire f) = mapFieldGet f"
  by (auto simp: resident_ok_def mapFieldToWire_def mapFieldGet_def createSharded_map_get fun_eq_iff
      split: resident.splits field_value.splits)

lemma mapFieldGet_Plain [simp]: "mapFieldGet (Plain (FMap m)) = map_of m"
  by (simp add: fun_eq_iff mapFieldGet_def)

subsection \<open>Building a container\<close>

lemma emptyShards_ok: "shards_ok emptyShards (Some [])"
  by (simp add: shards_ok_def emptyShards_def MAP_FIELD_SHARD_COUNT_def obj_ok_Nil)

lemma shards_ok_set:
  assumes "shards_ok sh (Some fl)"
  shows "shards_ok (sh[shardIndex k := obj_set (sh ! shardIndex k) k v]) (Some (obj_set fl k v))"
proof -
  let ?j = "shardIndex k"
  have len: "length sh = 64" using assms by (rule shards_ok_length)
  have "obj_ok (sh[?j := obj_set (sh ! ?j) k v] ! i) \<and>
      (\<forall>k' \<in> set (obj_keys (sh[?j := obj_set (sh ! ?j) k v] ! i)). shardIndex k' = i)" if "i < 64" for i
    using assms that len
    by (cases "i = ?j") (auto simp: shards_ok_def keys_obj_set simp del: set_map intro: obj_set_ok)
  moreover have "map_of (obj_set fl k v) k' =
      map_of (sh[?j := obj_set (sh ! ?j) k v] ! shardIndex k') k'" for k'
    using assms len by (cases "shardIndex k' = ?j") (auto simp: shards_ok_def obj_set_get)
  ultimately show ?thesis
    using assms len by (auto simp: shards_ok_def intro: obj_set_ok)
qed

lemma fold_obj_set_append:
  "obj_ok (acc @ es) \<Longrightarrow> fold (\<lambda>(k, v) acc. obj_set acc k v) es acc = acc @ es"
proof (induction es arbitrary: acc)
  case Nil
  then show ?case by simp
next
  case (Cons e es)
  obtain k v where e: "e = (k, v)" by (cases e)
  from Cons.prems have "k \<notin> set (obj_keys acc)" by (auto simp: e obj_ok_def)
  then have "obj_set acc k v = acc @ [(k, v)]"
    by (induction acc) auto
  with Cons.IH [of "acc @ [(k, v)]"] Cons.prems show ?case by (simp add: e)
qed

lemma fromWire_loop:
  assumes "shards_ok sh (Some fl)"
  shows "case fold (\<lambda>(key, value) (sh, fl).
            (sh[shardIndex key := obj_set (sh ! shardIndex key) key value], obj_set fl key value))
          wire (sh, fl) of (sh', fl') \<Rightarrow>
      shards_ok sh' (Some fl') \<and> fl' = fold (\<lambda>(k, v) acc. obj_set acc k v) wire fl"
  using assms
proof (induction wire arbitrary: sh fl)
  case Nil
  then show ?case by simp
next
  case (Cons e wire)
  obtain k v where e: "e = (k, v)" by (cases e)
  from Cons.IH [OF shards_ok_set [OF Cons.prems, of k v]] show ?case by (simp add: e)
qed

lemma mapFieldFromWire_ok:
  assumes "obj_ok wire"
  shows "\<exists>sh. mapFieldFromWire wire = Sharded sh (Some wire) \<and> shards_ok sh (Some wire)"
  using fromWire_loop [OF emptyShards_ok, of wire] fold_obj_set_append [of "[]" wire] assms
  by (auto simp: mapFieldFromWire_def Let_def split: prod.splits)

lemma adoptMapField_ok:
  assumes "obj_ok m"
  shows "resident_ok (adoptMapField (Plain (FMap m)))"
    "mapFieldGet (adoptMapField (Plain (FMap m))) = map_of m"
  using mapFieldFromWire_ok [OF assms] assms
  by (auto simp: adoptMapField_def resident_ok_def mapFieldGet_def shards_ok_def fun_eq_iff)

subsection \<open>Whole records\<close>

lemma obj_set_middle: "k \<notin> set (obj_keys xs) \<Longrightarrow> obj_set (xs @ (k, v) # ys) k w = xs @ (k, w) # ys"
  by (induction xs) auto

lemma fold_set_in_place:
  "obj_ok (done' @ es) \<Longrightarrow>
     fold (\<lambda>(n, f) acc. if g f = f then acc else obj_set acc n (g f)) es
       (map (\<lambda>(n, f). (n, g f)) done' @ es) = map (\<lambda>(n, f). (n, g f)) (done' @ es)"
proof (induction es arbitrary: done')
  case Nil
  then show ?case by simp
next
  case (Cons e es)
  obtain n f where e: "e = (n, f)" by (cases e)
  from Cons.prems have "n \<notin> set (obj_keys (map (\<lambda>(n, f). (n, g f)) done'))"
    by (force simp: e obj_ok_def)
  then have "(if g f = f then map (\<lambda>(n, f). (n, g f)) done' @ (n, f) # es
      else obj_set (map (\<lambda>(n, f). (n, g f)) done' @ (n, f) # es) n (g f)) =
    map (\<lambda>(n, f). (n, g f)) (done' @ [(n, f)]) @ es"
    by (simp add: obj_set_middle)
  with Cons.IH [of "done' @ [(n, f)]"] Cons.prems show ?case by (simp add: e)
qed

lemma adoptMapFields_map:
  "obj_ok flds \<Longrightarrow> adoptMapFields flds = map (\<lambda>(n, f). (n, adoptMapField f)) flds"
  using fold_set_in_place [of "[]" flds adoptMapField] by (simp add: adoptMapFields_def Let_def)

lemma toWireMapFields_map:
  "obj_ok flds \<Longrightarrow> toWireMapFields flds = map (\<lambda>(n, f). (n, Plain (wireValue f))) flds"
proof -
  assume ok: "obj_ok flds"
  have step: "(\<lambda>(name, f) wire. if \<not> isShardedMapField f then wire
         else obj_set wire name (Plain (FMap (mapFieldToWire f)))) =
     (\<lambda>(n, f) acc. if Plain (wireValue f) = f then acc else obj_set acc n (Plain (wireValue f)))"
    by (auto simp: fun_eq_iff isShardedMapField_def wireValue_def mapFieldToWire_def split: resident.splits)
  show ?thesis
    unfolding toWireMapFields_def step
    using fold_set_in_place [of "[]" flds "\<lambda>f. Plain (wireValue f)"] ok by simp
qed

lemma map_of_map_values: "map_of (map (\<lambda>(n, f). (n, g f)) flds) k = map_option g (map_of flds k)"
  by (induction flds) auto

lemma obj_ok_map_values: "obj_ok (map (\<lambda>(n, f). (n, g f)) flds) \<longleftrightarrow> obj_ok flds"
  by (simp add: obj_ok_def comp_def case_prod_beta)

subsection \<open>The sharded merge\<close>

text \<open>The shard at an index as the loop sees it: the copy if there is one, the original otherwise.\<close>

definition shard_view :: "shards \<Rightarrow> (nat \<times> field_value obj) list \<Rightarrow> nat \<Rightarrow> field_value obj" where
  "shard_view sh touched i = getOr (map_of touched i) (sh ! i)"

lemma shard_view_Nil [simp]: "shard_view sh [] i = sh ! i"
  by (simp add: shard_view_def)

definition touched_ok :: "shards \<Rightarrow> (nat \<times> field_value obj) list \<Rightarrow> bool" where
  "touched_ok sh touched \<longleftrightarrow> obj_ok touched \<and>
     (\<forall>i < 64. obj_ok (shard_view sh touched i) \<and>
        (\<forall>k \<in> set (obj_keys (shard_view sh touched i)). shardIndex k = i))"

lemma merge_shard_entry_view:
  "shard_view sh (merge_shard_entry sh (k, v) touched) i =
     (if i = shardIndex k
      then obj_set (shard_view sh touched i) k (mergeFieldValue (map_of (shard_view sh touched i) k) v)
      else shard_view sh touched i)"
  by (auto simp: merge_shard_entry_def shard_view_def Let_def obj_set_get obj_set_same)

lemma merge_shard_entry_ok:
  "touched_ok sh touched \<Longrightarrow> touched_ok sh (merge_shard_entry sh (k, v) touched)"
  unfolding touched_ok_def merge_shard_entry_view
  by (auto simp: merge_shard_entry_def Let_def keys_obj_set simp del: set_map intro!: obj_set_ok)

lemma merge_shard_fold:
  assumes "touched_ok sh touched" "obj_ok es"
  shows "touched_ok sh (fold (merge_shard_entry sh) es touched) \<and>
    map_of (shard_view sh (fold (merge_shard_entry sh) es touched) (shardIndex k)) k =
      (case map_of es k of
         None \<Rightarrow> map_of (shard_view sh touched (shardIndex k)) k
       | Some v \<Rightarrow> Some (mergeFieldValue (map_of (shard_view sh touched (shardIndex k)) k) v))"
  using assms
proof (induction es arbitrary: touched)
  case Nil
  then show ?case by simp
next
  case (Cons e es)
  obtain k' v where e: "e = (k', v)" by (cases e)
  from Cons.prems have "map_of es k' = None" "obj_ok es" by (simp_all add: e obj_ok_Cons)
  with Cons.IH [OF merge_shard_entry_ok [OF Cons.prems(1), of k' v]] show ?case
    by (auto simp: e merge_shard_entry_view obj_set_get split: option.splits)
qed

lemma fold_list_update:
  "obj_ok touched \<Longrightarrow> i < length sh \<Longrightarrow>
     fold (\<lambda>(index, shard) next'. next'[index := shard]) touched sh ! i = shard_view sh touched i \<and>
     length (fold (\<lambda>(index, shard) next'. next'[index := shard]) touched sh) = length sh"
proof (induction touched arbitrary: sh)
  case Nil
  then show ?case by (simp add: shard_view_def)
next
  case (Cons t touched)
  obtain j s where t: "t = (j, s)" by (cases t)
  from Cons.prems have "map_of touched j = None" "obj_ok touched" by (simp_all add: t obj_ok_Cons)
  with Cons.IH [of "sh[j := s]"] Cons.prems show ?case
    by (cases "i = j") (auto simp: t shard_view_def)
qed

lemma mergeShardedMapField_ok:
  assumes "shards_ok sh fl" "obj_ok im"
  shows "resident_ok (mergeShardedMapField sh fl im)"
    "mapFieldGet (mergeShardedMapField sh fl im) k =
       (case map_of im k of
          None \<Rightarrow> map_of (sh ! shardIndex k) k
        | Some v \<Rightarrow> Some (mergeFieldValue (map_of (sh ! shardIndex k) k) v))"
proof -
  let ?T = "fold (merge_shard_entry sh) im []"
  let ?next = "fold (\<lambda>(index, shard) next'. next'[index := shard]) ?T sh"
  have len: "length sh = 64" using assms(1) by (rule shards_ok_length)
  have start: "touched_ok sh []"
    using assms(1) by (simp add: touched_ok_def shards_ok_def obj_ok_Nil)
  have view: "touched_ok sh ?T"
    "map_of (shard_view sh ?T (shardIndex k)) k =
       (case map_of im k of
          None \<Rightarrow> map_of (sh ! shardIndex k) k
        | Some v \<Rightarrow> Some (mergeFieldValue (map_of (sh ! shardIndex k) k) v))" for k
    using merge_shard_fold [OF start assms(2), of k] unfolding shard_view_Nil by simp_all
  have nth: "?next ! i = shard_view sh ?T i" if "i < 64" for i
    using fold_list_update [of ?T i sh] view(1) that len by (simp add: touched_ok_def)
  have "length ?next = 64"
    using fold_list_update [of ?T 0 sh] view(1) len by (simp add: touched_ok_def)
  show "resident_ok (mergeShardedMapField sh fl im)"
    using assms(1) view(1) nth \<open>length ?next = 64\<close>
    by (auto simp: mergeShardedMapField_def resident_ok_def shards_ok_def touched_ok_def Let_def)
  show "mapFieldGet (mergeShardedMapField sh fl im) k =
       (case map_of im k of
          None \<Rightarrow> map_of (sh ! shardIndex k) k
        | Some v \<Rightarrow> Some (mergeFieldValue (map_of (sh ! shardIndex k) k) v))"
  proof (cases "?T = []")
    case True
    with view(2) [of k] show ?thesis
      by (simp add: mergeShardedMapField_def mapFieldGet_def shard_view_def)
  next
    case False
    with view(2) [of k] nth show ?thesis
      by (simp add: mergeShardedMapField_def mapFieldGet_def Let_def)
  qed
qed

text \<open>A resident map field, plain or sharded, satisfies the contract, adoption included.\<close>

interpretation resident: map_field mapFieldGet resident_ok
  "\<lambda>f im. mergeResidentFieldValue (Some f) (FMap im)"
proof (unfold_locales, goal_cases)
  case (1 f im)
  show ?case
  proof (cases f)
    case (Sharded sh fl)
    with 1 have "shards_ok sh fl" by (simp add: resident_ok_def)
    from mergeShardedMapField_ok(1) [OF this 1(2)] Sharded show ?thesis
      by (simp add: mergeResidentFieldValue_def)
  next
    case (Plain e)
    with 1 obtain m where m: "e = FMap m" "obj_ok m"
      by (cases e) (auto simp: resident_ok_def)
    have "resident_ok (adoptMapField (Plain (FMap (merge_entries m im))))"
      by (intro adoptMapField_ok merge_entries_ok m(2))
    with Plain m 1 show ?thesis by (simp add: mergeResidentFieldValue_def Let_def)
  qed
next
  case (2 f im k)
  show ?case
  proof (cases f)
    case (Sharded sh fl)
    with 2 have "shards_ok sh fl" by (simp add: resident_ok_def)
    from mergeShardedMapField_ok(2) [OF this 2(2), of k]
    have "mapFieldGet (mergeResidentFieldValue (Some f) (FMap im)) k = (case map_of im k of
        None \<Rightarrow> map_of (sh ! shardIndex k) k
      | Some v \<Rightarrow> Some (mergeFieldValue (map_of (sh ! shardIndex k) k) v))"
      by (simp add: Sharded mergeResidentFieldValue_def)
    moreover have "map_of (sh ! shardIndex k) k = mapFieldGet f k"
      by (simp add: Sharded mapFieldGet_def)
    ultimately show ?thesis by (simp split: option.splits)
  next
    case (Plain e)
    with 2 obtain m where m: "e = FMap m" "obj_ok m"
      by (cases e) (auto simp: resident_ok_def)
    have "mapFieldGet (mergeResidentFieldValue (Some f) (FMap im)) = map_of (merge_entries m im)"
      using adoptMapField_ok(2) [OF merge_entries_ok [OF m(2), of im]] Plain m
      by (simp add: mergeResidentFieldValue_def Let_def)
    with Plain m 2 show ?thesis by (simp add: merge_entries_get split: option.splits)
  qed
qed

interpretation resident_plain: map_field_pair mapFieldGet resident_ok
  "\<lambda>f im. mergeResidentFieldValue (Some f) (FMap im)" map_of obj_ok merge_entries
  by unfold_locales

section \<open>Properties\<close>

text \<open>
  C18: the resident map container is invisible. Whatever shape a map field is resident in (a plain
  record, a container, a plain record that becomes a container on the way), after any sequence of
  map patches every key reads as it would in a plain record merged by \<^verbatim>\<open>mergeFieldValue\<close>, both
  through the shard lookup and in the flat record that crosses the wire boundary.
\<close>

theorem resident_map_refines_plain:
  assumes "resident_ok f" "list_all obj_ok patches"
  shows "let f' = fold (\<lambda>im f. mergeResidentFieldValue (Some f) (FMap im)) patches f;
             m' = fold (\<lambda>im m. merge_entries m im) patches (mapFieldToWire f)
    in mapFieldGet f' = map_of m' \<and> map_of (mapFieldToWire f') = map_of m' \<and> resident_ok f'"
proof -
  have "obj_ok (mapFieldToWire f)"
    using assms(1) by (auto simp: resident_ok_def mapFieldToWire_def createSharded_map_ok
        split: resident.splits field_value.splits)
  then have "mapFieldGet (resident.run f patches) = map_of (plain.run (mapFieldToWire f) patches)"
    using assms by (intro resident_plain.runs_agree) (simp_all add: toWire_get)
  with resident.run_ok [OF assms] show ?thesis
    by (simp add: Let_def resident.run_def plain.run_def toWire_get)
qed

theorem resident_map_refines_plain_witness:
  "mapFieldGet (fold (\<lambda>im f. mergeResidentFieldValue (Some f) (FMap im))
      [[(''b'', Leaf (JNum 2) ''u_2'' (Some 5))]] (mapFieldFromWire [(''a'', Leaf (JNum 1) ''u_1'' None)])) =
   map_of (fold (\<lambda>im m. merge_entries m im) [[(''b'', Leaf (JNum 2) ''u_2'' (Some 5))]]
      (mapFieldToWire (mapFieldFromWire [(''a'', Leaf (JNum 1) ''u_1'' None)])))"
proof -
  have ok: "obj_ok [(''a'', Leaf (JNum 1) ''u_1'' None)]"
    by (simp add: obj_ok_def)
  have "resident_ok (mapFieldFromWire [(''a'', Leaf (JNum 1) ''u_1'' None)])"
    using mapFieldFromWire_ok [OF ok] by (auto simp: resident_ok_def)
  from resident_map_refines_plain [OF this, of "[[(''b'', Leaf (JNum 2) ''u_2'' (Some 5))]]"]
  show ?thesis by (simp add: obj_ok_def Let_def)
qed

text \<open>
  Adopting a wire record as a container and flattening the container again gives the same
  record, key order included, and every key is found in its shard.
\<close>

theorem map_field_wire_roundtrip:
  assumes "obj_ok wire"
  shows "mapFieldToWire (mapFieldFromWire wire) = wire \<and> mapFieldGet (mapFieldFromWire wire) = map_of wire"
  using mapFieldFromWire_ok [OF assms] toWire_get [of "mapFieldFromWire wire"]
  by (auto simp: mapFieldToWire_def createSharded_map_def resident_ok_def)

theorem map_field_wire_roundtrip_witness:
  "mapFieldToWire (mapFieldFromWire [(''k'', Leaf JNull ''u_1'' None), (''j'', FMap [])]) =
     [(''k'', Leaf JNull ''u_1'' None), (''j'', FMap [])]"
  using map_field_wire_roundtrip [of "[(''k'', Leaf JNull ''u_1'' None), (''j'', FMap [])]"]
  by (simp add: obj_ok_def)

end
