(* ===== verification/Materialize.thy ===== *)
theory Materialize
  imports MapField
begin

text \<open>
  Materialization of one row from its Updates (packages/storage/src/internal/materialize.ts), used
  by every entity store and by the replica. The source's \<^verbatim>\<open>options.residentMapFields\<close> is the flag
  \<open>resident\<close>: with it, large map fields are held in the containers of \<^verbatim>\<open>MapField\<close>. A row of the
  legacy adapters holds \<open>Plain\<close> values only.
\<close>

section \<open>Model\<close>

record Entity =
  ent_id :: string
  ent_type :: string
  ent_fields :: "resident obj"
  created_hlc :: hlc
  updated_hlc :: hlc
  deleted_hlc :: "hlc option"
  last_gsn :: int

definition readFields :: "Update \<Rightarrow> field_value obj" where
  "readFields update = getOr (upd_data update) []"

definition mergeValue :: "bool \<Rightarrow> resident option \<Rightarrow> field_value \<Rightarrow> resident" where
  "mergeValue resident existing incoming =
     (if resident then mergeResidentFieldValue existing incoming
      else Plain (mergeFieldValue (map_option wireValue existing) incoming))"

definition mergeFields :: "bool \<Rightarrow> resident obj \<Rightarrow> Update \<Rightarrow> resident obj" where
  "mergeFields resident existing update =
     fold (\<lambda>(field, patchValue) merged.
         let previous = map_of merged field; next' = mergeValue resident previous patchValue in
         if previous = Some next' then merged else obj_set merged field next')
       (readFields update) existing"

definition withAdoptedMapFields :: "Entity \<Rightarrow> Entity" where
  "withAdoptedMapFields entity = entity\<lparr>ent_fields := adoptMapFields (ent_fields entity)\<rparr>"

definition withWireMapFields :: "Entity \<Rightarrow> Entity" where
  "withWireMapFields entity = entity\<lparr>ent_fields := toWireMapFields (ent_fields entity)\<rparr>"

definition plainFields :: "field_value obj \<Rightarrow> resident obj" where
  "plainFields flds = map (\<lambda>(k, v). (k, Plain v)) flds"

definition applyUpdate :: "bool \<Rightarrow> Entity option \<Rightarrow> Update \<Rightarrow> int \<Rightarrow> hlc \<Rightarrow> Entity option" where
  "applyUpdate resident entity update gsn h =
     (case upd_method update of
        Put \<Rightarrow> Some \<lparr>ent_id = subject_id update, ent_type = subject_type update,
            ent_fields = (if resident then adoptMapFields (plainFields (readFields update))
                          else plainFields (readFields update)),
            created_hlc = h, updated_hlc = h, deleted_hlc = None, last_gsn = gsn\<rparr>
      | Patch \<Rightarrow>
          (case entity of
             None \<Rightarrow> None
           | Some e \<Rightarrow>
               if deleted_hlc e \<noteq> None then Some e
               else Some (e\<lparr>ent_fields := mergeFields resident (ent_fields e) update,
                            updated_hlc := latestHlc (updated_hlc e) h,
                            last_gsn := max (last_gsn e) gsn\<rparr>))
      | Delete \<Rightarrow>
          (case entity of
             None \<Rightarrow> None
           | Some e \<Rightarrow> Some (e\<lparr>deleted_hlc := Some h, updated_hlc := h,
                                last_gsn := max (last_gsn e) gsn\<rparr>)))"

text \<open>An Update leaves no row only when there was none and it is not a \<^verbatim>\<open>put\<close>.\<close>

lemma applyUpdate_None: "applyUpdate r row u g h = None \<longleftrightarrow> row = None \<and> upd_method u \<noteq> Put"
  by (auto simp: applyUpdate_def split: update_method.splits option.splits if_splits)

section \<open>Values that differ only in the order of their keys\<close>

text \<open>
  A container flattens in shard order, so its flat record can list the keys in another order than
  the plain record. \<open>same_keys\<close> relates two values that differ in that only.
\<close>

definition same_keys :: "field_value \<Rightarrow> field_value \<Rightarrow> bool" where
  "same_keys a b \<longleftrightarrow> (case (a, b) of
     (FMap m, FMap n) \<Rightarrow> obj_ok m \<and> obj_ok n \<and> map_of m = map_of n
   | _ \<Rightarrow> a = b \<and> isFieldLeaf a)"

lemma same_keys_leaf_at: "same_keys a b \<Longrightarrow> leaf_at p a = leaf_at p b"
  by (cases p; cases a; cases b) (auto simp: same_keys_def)

lemma conforms_FMap_iff:
  "conforms s (FMap m) \<longleftrightarrow>
     s [] \<and> obj_ok m \<and> (\<forall>k v. map_of m k = Some v \<longrightarrow> conforms (\<lambda>p. s (k # p)) v)"
  using conforms_entry [of s m] conforms_FMapI [of s m] by auto

lemma same_keys_conforms: "same_keys a b \<Longrightarrow> conforms s a \<Longrightarrow> conforms s b"
  by (cases a; cases b) (auto simp: same_keys_def conforms_FMap_iff simp del: conforms.simps(2))

lemma same_keys_sym: "same_keys a b \<Longrightarrow> same_keys b a"
  by (cases a; cases b) (auto simp: same_keys_def)

lemma same_keys_refl: "conforms s a \<Longrightarrow> same_keys a a"
  by (cases a) (auto simp: same_keys_def isFieldLeaf_def isFieldMap_def)

lemma same_keys_trans: "same_keys a b \<Longrightarrow> same_keys b d \<Longrightarrow> same_keys a d"
  by (cases a; cases b; cases d) (auto simp: same_keys_def)

lemma same_keys_merge:
  assumes "same_keys a b" "conforms s a" "conforms s i"
  shows "same_keys (mergeFieldValue (Some a) i) (mergeFieldValue (Some b) i)"
proof (cases a)
  case (Leaf v u h)
  with assms(1) have "b = a" by (cases b) (auto simp: same_keys_def)
  moreover have "conforms s (mergeFieldValue (Some a) i)"
    using assms by (auto intro: mergeFieldValue_conforms)
  ultimately show ?thesis by (auto intro: same_keys_refl)
next
  case (FMap m)
  with assms obtain n where n: "b = FMap n" "obj_ok m" "obj_ok n" "map_of m = map_of n"
    by (cases b) (auto simp: same_keys_def)
  from assms(2,3) FMap obtain im where "i = FMap im" "obj_ok im" by (cases i) auto
  with FMap n show ?thesis
    by (auto simp: same_keys_def merge_entries_ok merge_entries_get fun_eq_iff split: option.splits)
qed

text \<open>A resident value is well formed when it is plain, or a container with consistent shards.\<close>

definition resident_wf :: "resident \<Rightarrow> bool" where
  "resident_wf r \<longleftrightarrow> (case r of Plain _ \<Rightarrow> True | Sharded sh fl \<Rightarrow> shards_ok sh fl)"

lemma resident_ok_wf: "resident_ok r \<longleftrightarrow> resident_wf r \<and> (\<exists>m. wireValue r = FMap m \<and> obj_ok m)"
  by (auto simp: resident_ok_def resident_wf_def wireValue_def createSharded_map_ok
      split: resident.splits field_value.splits)

lemma resident_get_wire:
  "resident_ok r \<Longrightarrow> wireValue r = FMap m \<Longrightarrow> mapFieldGet r = map_of m"
  using toWire_get [of r]
  by (auto simp: mapFieldToWire_def wireValue_def split: resident.splits)

text \<open>The resident merge and the plain merge give the same value, up to key order.\<close>

lemma mergeValue_same:
  assumes "resident_wf r" "conforms s (wireValue r)" "conforms s i"
  shows "resident_wf (mergeValue resident (Some r) i)"
    "same_keys (wireValue (mergeValue resident (Some r) i)) (mergeFieldValue (Some (wireValue r)) i)"
proof -
  let ?m = "mergeFieldValue (Some (wireValue r)) i"
  have self: "same_keys ?m ?m"
    using assms by (auto intro!: same_keys_refl [of s] mergeFieldValue_conforms)
  have plain: "resident_wf (mergeValue False (Some r) i)"
    "same_keys (wireValue (mergeValue False (Some r) i)) ?m"
    using self by (simp_all add: mergeValue_def resident_wf_def wireValue_def)
  have leaf: "mergeValue True (Some r) i = Plain ?m" if i: "i = Leaf v u h" for v u h
  proof -
    from assms(2,3) i obtain v' u' h' where "wireValue r = Leaf v' u' h'"
      by (cases "wireValue r") auto
    then show ?thesis
      using merge_leaf_choice [of "wireValue r" i] i
      by (cases r) (auto simp: mergeValue_def mergeResidentFieldValue_def wireValue_def Let_def
          adoptMapField_def isFieldMap_def)
  qed
  have map: "resident_wf (mergeValue True (Some r) i) \<and>
      same_keys (wireValue (mergeValue True (Some r) i)) ?m" if i: "i = FMap im" for im
  proof -
    from assms(2,3) i obtain m where m: "wireValue r = FMap m" "obj_ok m" "obj_ok im"
      by (cases "wireValue r") auto
    with assms(1) have ok: "resident_ok r" by (simp add: resident_ok_wf)
    let ?r = "mergeResidentFieldValue (Some r) (FMap im)"
    have ok': "resident_ok ?r" using ok m(3) by (rule resident.merge_ok)
    then obtain n where n: "wireValue ?r = FMap n" "obj_ok n" by (auto simp: resident_ok_wf)
    have "map_of n = map_of (merge_entries m im)"
      unfolding resident_get_wire [OF ok' n(1), symmetric]
      by (rule ext) (simp only: resident.lookup_merge [OF ok m(3)] merge_entries_get [OF m(3)]
        resident_get_wire [OF ok m(1)])
    with ok' n m i show ?thesis
      by (simp add: mergeValue_def resident_ok_wf same_keys_def merge_entries_ok)
  qed
  show "resident_wf (mergeValue resident (Some r) i)"
    "same_keys (wireValue (mergeValue resident (Some r) i)) ?m"
    using plain leaf map self
    by (cases resident; cases i; simp add: resident_wf_def wireValue_def)+
qed

section \<open>Rows read leaf by leaf\<close>

text \<open>
  \<open>row_leaf e f p\<close> is the leaf row \<open>e\<close> holds in field \<open>f\<close> at path \<open>p\<close>, \<open>patch_leaf\<close> the one an Update
  writes there.
\<close>

definition row_leaf :: "Entity \<Rightarrow> string \<Rightarrow> string list \<Rightarrow> field_value option" where
  "row_leaf e f p = (case map_of (ent_fields e) f of None \<Rightarrow> None | Some r \<Rightarrow> leaf_at p (wireValue r))"

definition patch_leaf :: "Update \<Rightarrow> string \<Rightarrow> string list \<Rightarrow> field_value option" where
  "patch_leaf u f p = (case map_of (readFields u) f of None \<Rightarrow> None | Some v \<Rightarrow> leaf_at p v)"

definition row_conforms :: "(string \<Rightarrow> string list \<Rightarrow> bool) \<Rightarrow> Entity \<Rightarrow> bool" where
  "row_conforms sch e \<longleftrightarrow> obj_ok (ent_fields e) \<and>
     (\<forall>f r. map_of (ent_fields e) f = Some r \<longrightarrow> resident_wf r \<and> conforms (sch f) (wireValue r))"

definition patch_conforms :: "(string \<Rightarrow> string list \<Rightarrow> bool) \<Rightarrow> Update \<Rightarrow> bool" where
  "patch_conforms sch u \<longleftrightarrow> obj_ok (readFields u) \<and>
     (\<forall>f v. map_of (readFields u) f = Some v \<longrightarrow> conforms (sch f) v)"

lemma mergeFields_fold:
  "mergeFields resident existing u =
     fold (\<lambda>(k, v) acc. obj_set acc k (mergeValue resident (map_of acc k) v)) (readFields u) existing"
proof -
  have step: "(\<lambda>(field, patchValue) merged.
       let previous = map_of merged field; next' = mergeValue resident previous patchValue in
       if previous = Some next' then merged else obj_set merged field next') =
     (\<lambda>(k, v) acc. obj_set acc k (mergeValue resident (map_of acc k) v))"
    by (auto simp: fun_eq_iff Let_def obj_set_same)
  show ?thesis unfolding mergeFields_def step ..
qed

lemma mergeFields_get:
  "obj_ok (readFields u) \<Longrightarrow> map_of (mergeFields resident existing u) k =
     (case map_of (readFields u) k of None \<Rightarrow> map_of existing k
      | Some v \<Rightarrow> Some (mergeValue resident (map_of existing k) v))"
  unfolding mergeFields_fold by (rule fold_obj_set_get)

lemma mergeFields_ok: "obj_ok existing \<Longrightarrow> obj_ok (mergeFields resident existing u)"
  unfolding mergeFields_fold by (rule fold_obj_set_ok)

text \<open>A first value is adopted as it is: nothing to merge with.\<close>

lemma adopt_same:
  assumes "conforms s v"
  shows "resident_wf (adoptMapField (Plain v))" "same_keys (wireValue (adoptMapField (Plain v))) v"
proof -
  have "resident_wf (adoptMapField (Plain v)) \<and> same_keys (wireValue (adoptMapField (Plain v))) v"
  proof (cases v)
    case (Leaf a b c)
    then show ?thesis
      by (simp add: adoptMapField_def resident_wf_def wireValue_def same_keys_def isFieldLeaf_def isFieldMap_def)
  next
    case (FMap m)
    with assms have m: "obj_ok m" by simp
    have ok: "resident_ok (adoptMapField (Plain (FMap m)))" using m by (rule adoptMapField_ok)
    then obtain n where "wireValue (adoptMapField (Plain (FMap m))) = FMap n" "obj_ok n"
      by (auto simp: resident_ok_wf)
    with resident_get_wire [OF ok] adoptMapField_ok(2) [OF m] ok m FMap show ?thesis
      by (simp add: resident_ok_wf same_keys_def)
  qed
  then show "resident_wf (adoptMapField (Plain v))" "same_keys (wireValue (adoptMapField (Plain v))) v"
    by simp_all
qed

lemma mergeValue_first:
  assumes "conforms s v"
  shows "resident_wf (mergeValue resident None v)" "same_keys (wireValue (mergeValue resident None v)) v"
  using adopt_same [OF assms] same_keys_refl [OF assms]
  by (auto simp: mergeValue_def mergeResidentFieldValue_def resident_wf_def wireValue_def)

lemma mergeValue_leaf_at:
  assumes "conforms s v" "\<And>r. prev = Some r \<Longrightarrow> resident_wf r \<and> conforms s (wireValue r)"
  shows "resident_wf (mergeValue resident prev v) \<and> conforms s (wireValue (mergeValue resident prev v)) \<and>
    leaf_at p (wireValue (mergeValue resident prev v)) =
      leaves.opt_pick (Option.bind prev (\<lambda>r. leaf_at p (wireValue r))) (leaf_at p v)"
proof (cases prev)
  case None
  with mergeValue_first [OF assms(1), of resident] assms(1) show ?thesis
    by (auto dest: same_keys_leaf_at [where p = p] intro: same_keys_conforms [OF same_keys_sym])
next
  case (Some r)
  with assms(2) have r: "resident_wf r" "conforms s (wireValue r)" by auto
  note same = mergeValue_same [OF r assms(1), of resident]
  have "conforms s (mergeFieldValue (Some (wireValue r)) v)"
    using r assms(1) by (auto intro: mergeFieldValue_conforms)
  moreover from this have "conforms s (wireValue (mergeValue resident (Some r) v))"
    by (rule same_keys_conforms [OF same_keys_sym [OF same(2)]])
  ultimately show ?thesis
    using same same_keys_leaf_at [OF same(2), of p] leaf_at_merge [OF assms(1) r(2), of p] Some
    by simp
qed

lemma patch_row_leaf:
  assumes "row_conforms sch e" "patch_conforms sch u" "upd_method u = Patch" "deleted_hlc e = None"
  obtains e' where "applyUpdate resident (Some e) u gsn h = Some e'" "row_conforms sch e'"
    "\<And>f p. row_leaf e' f p = leaves.opt_pick (row_leaf e f p) (patch_leaf u f p)"
    "deleted_hlc e' = None" "updated_hlc e' = max (updated_hlc e) h" "last_gsn e' = max (last_gsn e) gsn"
    "ent_id e' = ent_id e" "ent_type e' = ent_type e" "created_hlc e' = created_hlc e"
proof -
  let ?e' = "e\<lparr>ent_fields := mergeFields resident (ent_fields e) u,
      updated_hlc := latestHlc (updated_hlc e) h, last_gsn := max (last_gsn e) gsn\<rparr>"
  have ok: "obj_ok (readFields u)" using assms(2) by (simp add: patch_conforms_def)
  have get: "map_of (mergeFields resident (ent_fields e) u) f =
      (case map_of (readFields u) f of None \<Rightarrow> map_of (ent_fields e) f
       | Some v \<Rightarrow> Some (mergeValue resident (map_of (ent_fields e) f) v))" for f
    using ok by (rule mergeFields_get)
  have new: "resident_wf (mergeValue resident (map_of (ent_fields e) f) v) \<and>
      conforms (sch f) (wireValue (mergeValue resident (map_of (ent_fields e) f) v)) \<and>
      leaf_at p (wireValue (mergeValue resident (map_of (ent_fields e) f) v)) =
        leaves.opt_pick (row_leaf e f p) (leaf_at p v)"
    if "map_of (readFields u) f = Some v" for f v p
    using mergeValue_leaf_at [of "sch f" v "map_of (ent_fields e) f" resident p] assms(1,2) that
    by (auto simp: row_conforms_def patch_conforms_def row_leaf_def split: option.splits)
  show thesis
  proof
    show "applyUpdate resident (Some e) u gsn h = Some ?e'"
      using assms(3,4) by (simp add: applyUpdate_def)
    show "row_conforms sch ?e'"
      using assms(1) new
      by (auto simp: row_conforms_def get mergeFields_ok split: option.splits)
    show "row_leaf ?e' f p = leaves.opt_pick (row_leaf e f p) (patch_leaf u f p)" for f p
      using new [of f _ p] by (auto simp: row_leaf_def [of ?e'] patch_leaf_def get split: option.splits)
        (auto simp: row_leaf_def)
  qed (use assms(4) in \<open>auto simp: latestHlc_def compareHlc_def\<close>)
qed

section \<open>Replaying Updates\<close>

text \<open>An Update with the gsn and HLC of its Action, and the row a sequence of them materializes.\<close>

type_synonym delivery = "Update \<times> int \<times> hlc"

definition replay_row :: "bool \<Rightarrow> delivery list \<Rightarrow> Entity option \<Rightarrow> Entity option" where
  "replay_row resident ds e = fold (\<lambda>(u, gsn, h) row. applyUpdate resident row u gsn h) ds e"

lemma replay_row_Nil [simp]: "replay_row resident [] e = e"
  by (simp add: replay_row_def)

lemma replay_row_Cons [simp]:
  "replay_row resident ((u, gsn, h) # ds) e = replay_row resident ds (applyUpdate resident e u gsn h)"
  by (simp add: replay_row_def)

lemma replay_row_append:
  "replay_row resident (ds @ ds') e = replay_row resident ds' (replay_row resident ds e)"
  by (simp add: replay_row_def)

lemma replay_patches:
  assumes "row_conforms sch e" "deleted_hlc e = None"
    "\<forall>(u, gsn, h) \<in> set ds. patch_conforms sch u \<and> upd_method u = Patch"
  shows "\<exists>e'. replay_row resident ds (Some e) = Some e' \<and>
    (\<forall>f p. row_leaf e' f p =
       fold (\<lambda>w acc. leaves.opt_pick acc w) (map (\<lambda>d. patch_leaf (fst d) f p) ds) (row_leaf e f p)) \<and>
    updated_hlc e' = Max (insert (updated_hlc e) ((\<lambda>d. snd (snd d)) ` set ds)) \<and>
    last_gsn e' = Max (insert (last_gsn e) ((\<lambda>d. fst (snd d)) ` set ds)) \<and>
    deleted_hlc e' = None \<and> ent_id e' = ent_id e \<and> ent_type e' = ent_type e"
  using assms
proof (induction ds arbitrary: e)
  case Nil
  then show ?case by simp
next
  case (Cons d ds)
  obtain u gsn h where d: "d = (u, gsn, h)" by (cases d)
  obtain e1 where e1: "applyUpdate resident (Some e) u gsn h = Some e1" "row_conforms sch e1"
    "\<And>f p. row_leaf e1 f p = leaves.opt_pick (row_leaf e f p) (patch_leaf u f p)"
    "deleted_hlc e1 = None" "updated_hlc e1 = max (updated_hlc e) h" "last_gsn e1 = max (last_gsn e) gsn"
    "ent_id e1 = ent_id e" "ent_type e1 = ent_type e"
    using Cons.prems by (auto simp: d intro: patch_row_leaf [of sch e u resident gsn h])
  from Cons.IH [OF e1(2,4)] Cons.prems(3) obtain e' where
    e': "replay_row resident ds (Some e1) = Some e'"
      "\<And>f p. row_leaf e' f p =
         fold (\<lambda>w acc. leaves.opt_pick acc w) (map (\<lambda>d. patch_leaf (fst d) f p) ds) (row_leaf e1 f p)"
      "updated_hlc e' = Max (insert (updated_hlc e1) ((\<lambda>d. snd (snd d)) ` set ds))"
      "last_gsn e' = Max (insert (last_gsn e1) ((\<lambda>d. fst (snd d)) ` set ds))"
      "deleted_hlc e' = None" "ent_id e' = ent_id e1" "ent_type e' = ent_type e1"
    by auto
  have max_ins: "Max (insert (max a b) S) = Max (insert a (insert b S))" if "finite S" for a b :: int and S
    using that by (cases "S = {}") (simp_all add: max.assoc)
  show ?case
    by (intro exI [of _ e']) (simp add: d e1 e' max_ins)
qed

section \<open>Properties\<close>

text \<open>
  C3: patches of a live row converge. Replaying the same set of patches in two different orders
  (with repetitions, and with the map fields resident in containers on one side and plain on the
  other) yields rows with the same leaf in every field at every path, the same \<^verbatim>\<open>updated_hlc\<close> and the
  same \<^verbatim>\<open>last_gsn\<close>, provided the values follow a schema and stamps are unique per position.
\<close>

theorem patches_converge:
  assumes "row_conforms sch e" "deleted_hlc e = None" "set ds = set ds'"
    and "\<forall>(u, gsn, h) \<in> set ds. patch_conforms sch u \<and> upd_method u = Patch"
    and "\<forall>f p a b. a \<in> insert (row_leaf e f p) ((\<lambda>d. patch_leaf (fst d) f p) ` set ds) \<longrightarrow>
      b \<in> insert (row_leaf e f p) ((\<lambda>d. patch_leaf (fst d) f p) ` set ds) \<longrightarrow>
      a \<noteq> None \<longrightarrow> b \<noteq> None \<longrightarrow> leaf_stamp (the a) = leaf_stamp (the b) \<longrightarrow> a = b"
  shows "\<exists>r r'. replay_row resident ds (Some e) = Some r \<and> replay_row resident' ds' (Some e) = Some r' \<and>
    (\<forall>f p. row_leaf r f p = row_leaf r' f p) \<and> updated_hlc r = updated_hlc r' \<and>
    last_gsn r = last_gsn r' \<and> deleted_hlc r = deleted_hlc r'"
proof -
  obtain r where r: "replay_row resident ds (Some e) = Some r"
    "\<And>f p. row_leaf r f p =
       fold (\<lambda>w acc. leaves.opt_pick acc w) (map (\<lambda>d. patch_leaf (fst d) f p) ds) (row_leaf e f p)"
    "updated_hlc r = Max (insert (updated_hlc e) ((\<lambda>d. snd (snd d)) ` set ds))"
    "last_gsn r = Max (insert (last_gsn e) ((\<lambda>d. fst (snd d)) ` set ds))" "deleted_hlc r = None"
    using replay_patches [OF assms(1,2,4), of resident] by blast
  obtain r' where r': "replay_row resident' ds' (Some e) = Some r'"
    "\<And>f p. row_leaf r' f p =
       fold (\<lambda>w acc. leaves.opt_pick acc w) (map (\<lambda>d. patch_leaf (fst d) f p) ds') (row_leaf e f p)"
    "updated_hlc r' = Max (insert (updated_hlc e) ((\<lambda>d. snd (snd d)) ` set ds'))"
    "last_gsn r' = Max (insert (last_gsn e) ((\<lambda>d. fst (snd d)) ` set ds'))" "deleted_hlc r' = None"
    using replay_patches [OF assms(1,2), of ds' resident'] assms(3,4) by auto
  have "row_leaf r f p = row_leaf r' f p" for f p
    unfolding r(2) r'(2)
  proof (rule leaves.fold_pick_converges)
    show "set (row_leaf e f p # map (\<lambda>d. patch_leaf (fst d) f p) ds) =
      set (row_leaf e f p # map (\<lambda>d. patch_leaf (fst d) f p) ds')"
      by (simp add: assms(3))
    show "x = y" if "Some x \<in> set (row_leaf e f p # map (\<lambda>d. patch_leaf (fst d) f p) ds)"
      "Some y \<in> set (row_leaf e f p # map (\<lambda>d. patch_leaf (fst d) f p) ds)"
      "leaf_stamp x = leaf_stamp y" for x y
      using assms(5) [rule_format, of "Some x" f p "Some y"] that by simp
  qed
  with r r' assms(3) show ?thesis by auto
qed

definition sample_row :: Entity where
  "sample_row = \<lparr>ent_id = ''t_1'', ent_type = ''todo'', ent_fields = [], created_hlc = 1,
     updated_hlc = 1, deleted_hlc = None, last_gsn = 1\<rparr>"

definition sample_patch :: "string \<Rightarrow> json \<Rightarrow> Update" where
  "sample_patch uid v = \<lparr>upd_id = uid, subject_id = ''t_1'', subject_type = ''todo'',
     upd_method = Patch, upd_data = Some [(''title'', Leaf v uid (Some 7))]\<rparr>"

lemma sample_patch_leaf:
  "patch_leaf (sample_patch uid v) f p =
     (if f = ''title'' \<and> p = [] then Some (Leaf v uid (Some 7)) else None)"
  by (cases p) (simp_all add: patch_leaf_def readFields_def sample_patch_def)

theorem patches_converge_witness:
  "\<exists>r r'. replay_row True [(sample_patch ''u_1'' JNull, 2, 7), (sample_patch ''u_2'' (JNum 4), 3, 7)]
      (Some sample_row) = Some r \<and>
    replay_row False [(sample_patch ''u_2'' (JNum 4), 3, 7), (sample_patch ''u_1'' JNull, 2, 7)]
      (Some sample_row) = Some r' \<and> (\<forall>f p. row_leaf r f p = row_leaf r' f p)"
proof -
  have "\<exists>r r'. replay_row True [(sample_patch ''u_1'' JNull, 2, 7), (sample_patch ''u_2'' (JNum 4), 3, 7)]
      (Some sample_row) = Some r \<and>
    replay_row False [(sample_patch ''u_2'' (JNum 4), 3, 7), (sample_patch ''u_1'' JNull, 2, 7)]
      (Some sample_row) = Some r' \<and> (\<forall>f p. row_leaf r f p = row_leaf r' f p) \<and>
    updated_hlc r = updated_hlc r' \<and> last_gsn r = last_gsn r' \<and> deleted_hlc r = deleted_hlc r'"
  proof (rule patches_converge [where sch = "\<lambda>_ _. False"])
    show "row_conforms (\<lambda>_ _. False) sample_row" "deleted_hlc sample_row = None"
      by (simp_all add: row_conforms_def sample_row_def obj_ok_def)
    show "\<forall>(u, gsn, h) \<in> set [(sample_patch ''u_1'' JNull, 2, 7), (sample_patch ''u_2'' (JNum 4), 3, 7)].
        patch_conforms (\<lambda>_ _. False) u \<and> upd_method u = Patch"
      by (simp add: patch_conforms_def sample_patch_def readFields_def obj_ok_def)
  qed (auto simp: sample_patch_leaf row_leaf_def sample_row_def leaf_stamp_def)
  then show ?thesis by blast
qed

text \<open>
  A tombstone is final until the next \<^verbatim>\<open>put\<close>. However many patches and deletes follow it, a
  deleted row stays deleted and keeps the fields it had; and a row that no \<^verbatim>\<open>put\<close> has created is not
  created by patches or deletes.
\<close>

theorem tombstone_final:
  assumes "\<forall>(u, gsn, h) \<in> set ds. upd_method u \<noteq> Put"
  shows "(case e of
      None \<Rightarrow> replay_row resident ds e = None
    | Some row \<Rightarrow> deleted_hlc row \<noteq> None \<longrightarrow> (\<exists>row'. replay_row resident ds e = Some row' \<and>
        deleted_hlc row' \<noteq> None \<and> ent_fields row' = ent_fields row \<and> ent_id row' = ent_id row))"
  using assms
proof (induction ds arbitrary: e)
  case Nil
  then show ?case by (simp split: option.splits)
next
  case (Cons d ds)
  obtain u gsn h where d: "d = (u, gsn, h)" by (cases d)
  with Cons.prems have "upd_method u \<noteq> Put" by auto
  with Cons.IH [of "applyUpdate resident e u gsn h"] Cons.prems show ?case
    by (cases "upd_method u"; cases e) (auto simp: d applyUpdate_def split: if_splits)
qed

theorem tombstone_final_witness:
  "\<exists>row'. replay_row True [(sample_patch ''u_1'' JNull, 2, 7)] (Some (sample_row\<lparr>deleted_hlc := Some 5\<rparr>)) =
     Some row' \<and> deleted_hlc row' \<noteq> None"
  using tombstone_final [where ds = "[(sample_patch ''u_1'' JNull, 2, 7)]" and resident = True and
      e = "Some (sample_row\<lparr>deleted_hlc := Some 5\<rparr>)"]
  by (force simp: sample_patch_def)

text \<open>
  A \<^verbatim>\<open>put\<close> is a full replacement: whatever the row held before, deleted or not, the row after it
  has exactly the fields the put carries, is live, and is stamped with the put's HLC and gsn; and
  holding its large maps in containers does not change what any field reads.
\<close>

theorem put_replaces:
  assumes "upd_method u = Put" "patch_conforms sch u"
  shows "\<exists>r. applyUpdate resident e u gsn h = Some r \<and>
    (\<forall>f p. row_leaf r f p = patch_leaf u f p) \<and> row_conforms sch r \<and> deleted_hlc r = None \<and>
    created_hlc r = h \<and> updated_hlc r = h \<and> last_gsn r = gsn \<and>
    ent_id r = subject_id u \<and> ent_type r = subject_type u"
proof -
  have ok: "obj_ok (readFields u)" using assms(2) by (simp add: patch_conforms_def)
  then have okp: "obj_ok (plainFields (readFields u))"
    by (simp add: plainFields_def obj_ok_map_values)
  define flds where "flds = (if resident then adoptMapFields (plainFields (readFields u))
                          else plainFields (readFields u))"
  define wrap where "wrap = (\<lambda>v. if resident then adoptMapField (Plain v) else Plain v)"
  have get: "map_of flds f = map_option wrap (map_of (readFields u) f)" for f
    using okp unfolding flds_def wrap_def
    by (simp add: adoptMapFields_map plainFields_def map_of_map_values option.map_comp o_def del: map_map)
  have "obj_ok flds"
    using okp by (simp add: flds_def adoptMapFields_map obj_ok_map_values)
  moreover have "resident_wf (wrap v) \<and> same_keys (wireValue (wrap v)) v" if "conforms s v" for s v
    using adopt_same [OF that] same_keys_refl [OF that]
    by (simp add: wrap_def resident_wf_def wireValue_def)
  then have wrap: "resident_wf (wrap v)" "conforms (sch f) (wireValue (wrap v))"
    "leaf_at p (wireValue (wrap v)) = leaf_at p v" if "map_of (readFields u) f = Some v" for f v p
    using that assms(2) same_keys_leaf_at same_keys_conforms [OF same_keys_sym]
    unfolding patch_conforms_def by blast+
  ultimately show ?thesis
    using assms(1)
    by (auto simp: applyUpdate_def flds_def [symmetric] row_leaf_def patch_leaf_def row_conforms_def get
        split: option.splits)
qed

theorem put_replaces_witness:
  "\<exists>r. applyUpdate True None ((sample_patch ''u_1'' JNull)\<lparr>upd_method := Put\<rparr>) 3 5 = Some r \<and>
    row_leaf r ''title'' [] = Some (Leaf JNull ''u_1'' (Some 7)) \<and> last_gsn r = 3"
proof -
  let ?u = "(sample_patch ''u_1'' JNull)\<lparr>upd_method := Put\<rparr>"
  have "upd_method ?u = Put" "patch_conforms (\<lambda>_ _. False) ?u"
    by (simp_all add: patch_conforms_def readFields_def obj_ok_def sample_patch_def)
  from put_replaces [OF this, of True None 3 5] obtain r where
    "applyUpdate True None ?u 3 5 = Some r" "\<forall>f p. row_leaf r f p = patch_leaf ?u f p" "last_gsn r = 3"
    by blast
  moreover have "patch_leaf ?u ''title'' [] = Some (Leaf JNull ''u_1'' (Some 7))"
    by (simp add: patch_leaf_def readFields_def sample_patch_def)
  ultimately show ?thesis by auto
qed

end
