(* ===== verification/ReverseIndex.thy ===== *)
theory ReverseIndex
  imports Materialize "HOL-Library.Multiset"
begin

text \<open>
  Adjacency indices over materialized rows (packages/storage/src/internal/reverse-index.ts). A
  \<^verbatim>\<open>relationship\<close> or \<^verbatim>\<open>entityGroup\<close> row contributes one entry to the reverse index (keyed by its
  target) and one to the forward index (keyed by its source); the store applies, per write, the delta
  between the entries of the previous and of the next version of the row.

  The locale \<open>row_index\<close> states what an entry derivation promises (the entry is filed under the
  row's own id) and proves once that the deltas keep an index in step with the table of rows; it is
  interpreted for both directions. The \<^verbatim>\<open>localeCompare\<close> of the JavaScript engine, which orders the
  links, is a parameter: its collation is not defined by the repository.
\<close>

section \<open>Model\<close>

record IndexEntry =
  ie_key :: string
  rowId :: string
  ie_value :: string

type_synonym IndexRows = "string obj"

type_synonym ReverseIndex = "IndexRows obj"

definition RELATIONSHIP_ENTITY_TYPE :: string where "RELATIONSHIP_ENTITY_TYPE = ''relationship''"

definition MEMBERSHIP_ENTITY_TYPE :: string where "MEMBERSHIP_ENTITY_TYPE = ''entityGroup''"

definition MEMBERSHIP_ACCESSOR :: string where "MEMBERSHIP_ACCESSOR = ''groups''"

subsection \<open>Keys\<close>

definition NUL :: char where "NUL = CHR 0x00"

definition reverseIndexKey :: "string \<Rightarrow> string \<Rightarrow> string \<Rightarrow> string" where
  "reverseIndexKey field type targetId = field @ NUL # type @ NUL # targetId"

definition forwardIndexKey :: "string \<Rightarrow> string \<Rightarrow> string \<Rightarrow> string" where
  "forwardIndexKey field type sourceId = CHR 0x01 # reverseIndexKey field type sourceId"

definition membershipIndexKey :: "string \<Rightarrow> string" where
  "membershipIndexKey groupId = reverseIndexKey MEMBERSHIP_ACCESSOR MEMBERSHIP_ENTITY_TYPE groupId"

definition forwardMembershipIndexKey :: "string \<Rightarrow> string" where
  "forwardMembershipIndexKey entityId = forwardIndexKey MEMBERSHIP_ACCESSOR MEMBERSHIP_ENTITY_TYPE entityId"

subsection \<open>Entries of a row\<close>

definition readStringField :: "Entity \<Rightarrow> string \<Rightarrow> string option" where
  "readStringField entity name =
     (case map_of (ent_fields entity) name of
        None \<Rightarrow> None
      | Some f \<Rightarrow>
          if \<not> isFieldLeaf (wireValue f) then None
          else (case leaf_value (wireValue f) of JStr s \<Rightarrow> Some s | _ \<Rightarrow> None))"

definition relationshipEntryFor :: "Entity \<Rightarrow> IndexEntry option" where
  "relationshipEntryFor entity =
     (if ent_type entity \<noteq> RELATIONSHIP_ENTITY_TYPE then None
      else if deleted_hlc entity \<noteq> None then None
      else
        (case (readStringField entity ''field'', readStringField entity ''type'',
               readStringField entity ''target_id'', readStringField entity ''source_id'') of
           (Some field, Some type, Some targetId, Some sourceId) \<Rightarrow>
             Some \<lparr>ie_key = reverseIndexKey field type targetId, rowId = ent_id entity, ie_value = sourceId\<rparr>
         | _ \<Rightarrow> None))"

definition forwardRelationshipEntryFor :: "Entity \<Rightarrow> IndexEntry option" where
  "forwardRelationshipEntryFor entity =
     (if ent_type entity \<noteq> RELATIONSHIP_ENTITY_TYPE then None
      else if deleted_hlc entity \<noteq> None then None
      else
        (case (readStringField entity ''field'', readStringField entity ''type'',
               readStringField entity ''source_id'', readStringField entity ''target_id'') of
           (Some field, Some type, Some sourceId, Some targetId) \<Rightarrow>
             Some \<lparr>ie_key = forwardIndexKey field type sourceId, rowId = ent_id entity, ie_value = targetId\<rparr>
         | _ \<Rightarrow> None))"

definition membershipEntryFor :: "Entity \<Rightarrow> IndexEntry option" where
  "membershipEntryFor entity =
     (if ent_type entity \<noteq> MEMBERSHIP_ENTITY_TYPE then None
      else if deleted_hlc entity \<noteq> None then None
      else
        (case (readStringField entity ''group_id'', readStringField entity ''entity_id'') of
           (Some groupId, Some entityId) \<Rightarrow>
             Some \<lparr>ie_key = membershipIndexKey groupId, rowId = ent_id entity, ie_value = entityId\<rparr>
         | _ \<Rightarrow> None))"

definition forwardMembershipEntryFor :: "Entity \<Rightarrow> IndexEntry option" where
  "forwardMembershipEntryFor entity =
     (if ent_type entity \<noteq> MEMBERSHIP_ENTITY_TYPE then None
      else if deleted_hlc entity \<noteq> None then None
      else
        (case (readStringField entity ''group_id'', readStringField entity ''entity_id'') of
           (Some groupId, Some entityId) \<Rightarrow>
             Some \<lparr>ie_key = forwardMembershipIndexKey entityId, rowId = ent_id entity, ie_value = groupId\<rparr>
         | _ \<Rightarrow> None))"

definition indexEntryFor :: "Entity \<Rightarrow> IndexEntry option" where
  "indexEntryFor entity =
     (case relationshipEntryFor entity of Some e \<Rightarrow> Some e | None \<Rightarrow> membershipEntryFor entity)"

definition forwardIndexEntryFor :: "Entity \<Rightarrow> IndexEntry option" where
  "forwardIndexEntryFor entity =
     (case forwardRelationshipEntryFor entity of
        Some e \<Rightarrow> Some e | None \<Rightarrow> forwardMembershipEntryFor entity)"

subsection \<open>Reading the rows under a key\<close>

definition sortSourceIds :: "string list \<Rightarrow> string list" where
  "sortSourceIds ids = sort ids"

definition liveSourceIds :: "IndexRows option \<Rightarrow> string list" where
  "liveSourceIds rows = sortSourceIds (fold (\<lambda>v s. set_add s v) (map snd (getOr rows [])) [])"

text \<open>\<^verbatim>\<open>Array.prototype.sort\<close> with a comparator: the stable sort it defines.\<close>

fun insert_by :: "('a \<Rightarrow> 'a \<Rightarrow> int) \<Rightarrow> 'a \<Rightarrow> 'a list \<Rightarrow> 'a list" where
  "insert_by cmp x [] = [x]"
| "insert_by cmp x (y # ys) = (if cmp x y \<le> 0 then x # y # ys else y # insert_by cmp x ys)"

definition sort_by :: "('a \<Rightarrow> 'a \<Rightarrow> int) \<Rightarrow> 'a list \<Rightarrow> 'a list" where
  "sort_by cmp xs = foldr (insert_by cmp) xs []"

definition compareRows ::
  "(string \<Rightarrow> string \<Rightarrow> int) \<Rightarrow> string \<times> string \<Rightarrow> string \<times> string \<Rightarrow> int" where
  "compareRows localeCompare a b =
     (if snd a = snd b then localeCompare (fst a) (fst b) else localeCompare (snd a) (snd b))"

definition liveIndexRows :: "(string \<Rightarrow> string \<Rightarrow> int) \<Rightarrow> IndexRows option \<Rightarrow> (string \<times> string) list" where
  "liveIndexRows localeCompare rows = sort_by (compareRows localeCompare) (getOr rows [])"

record RelationshipLink =
  relationshipId :: string
  link_targetId :: string

record MembershipLink =
  membershipId :: string
  link_groupId :: string

definition liveRelationshipLinks ::
  "(string \<Rightarrow> string \<Rightarrow> int) \<Rightarrow> IndexRows option \<Rightarrow> RelationshipLink list" where
  "liveRelationshipLinks localeCompare rows =
     map (\<lambda>(r, v). \<lparr>relationshipId = r, link_targetId = v\<rparr>) (liveIndexRows localeCompare rows)"

definition liveMembershipLinks ::
  "(string \<Rightarrow> string \<Rightarrow> int) \<Rightarrow> IndexRows option \<Rightarrow> MembershipLink list" where
  "liveMembershipLinks localeCompare rows =
     map (\<lambda>(r, v). \<lparr>membershipId = r, link_groupId = v\<rparr>) (liveIndexRows localeCompare rows)"

subsection \<open>Deltas\<close>

definition applyRow :: "IndexRows option \<Rightarrow> IndexEntry \<Rightarrow> bool \<Rightarrow> IndexRows" where
  "applyRow rows entry present =
     (if present then obj_set (getOr rows []) (rowId entry) (ie_value entry)
      else obj_delete (getOr rows []) (rowId entry))"

definition addIndexRow :: "IndexRows option \<Rightarrow> IndexEntry \<Rightarrow> IndexRows" where
  "addIndexRow rows entry = applyRow rows entry True"

definition removeIndexRow :: "IndexRows option \<Rightarrow> IndexEntry \<Rightarrow> IndexRows option" where
  "removeIndexRow rows entry =
     (let next' = applyRow rows entry False in if length (obj_keys next') = 0 then None else Some next')"

record IndexDelta =
  delta_remove :: "IndexEntry option"
  delta_add :: "IndexEntry option"

definition sameEntry :: "IndexEntry option \<Rightarrow> IndexEntry option \<Rightarrow> bool" where
  "sameEntry a b \<longleftrightarrow> map_option ie_key a = map_option ie_key b \<and>
     map_option rowId a = map_option rowId b \<and> map_option ie_value a = map_option ie_value b"

definition indexDeltaFor ::
  "(Entity \<Rightarrow> IndexEntry option) \<Rightarrow> Entity option \<Rightarrow> Entity option \<Rightarrow> IndexDelta" where
  "indexDeltaFor entryFor previous next' =
     (let remove' = Option.bind previous entryFor; add = Option.bind next' entryFor in
      if sameEntry remove' add then \<lparr>delta_remove = None, delta_add = None\<rparr>
      else \<lparr>delta_remove = remove', delta_add = add\<rparr>)"

definition reverseIndexDelta :: "Entity option \<Rightarrow> Entity option \<Rightarrow> IndexDelta" where
  "reverseIndexDelta = indexDeltaFor indexEntryFor"

definition forwardIndexDelta :: "Entity option \<Rightarrow> Entity option \<Rightarrow> IndexDelta" where
  "forwardIndexDelta = indexDeltaFor forwardIndexEntryFor"

definition withEntry :: "ReverseIndex \<Rightarrow> IndexEntry \<Rightarrow> IndexRows option \<Rightarrow> ReverseIndex" where
  "withEntry index entry rows =
     (case rows of None \<Rightarrow> obj_delete index (ie_key entry) | Some rs \<Rightarrow> obj_set index (ie_key entry) rs)"

definition applyIndexDelta :: "ReverseIndex \<Rightarrow> IndexDelta \<Rightarrow> ReverseIndex" where
  "applyIndexDelta index delta =
     (let next1 = (case delta_remove delta of
            None \<Rightarrow> index
          | Some en \<Rightarrow> withEntry index en (removeIndexRow (map_of index (ie_key en)) en))
      in case delta_add delta of
           None \<Rightarrow> next1
         | Some en \<Rightarrow> withEntry next1 en (Some (addIndexRow (map_of next1 (ie_key en)) en)))"

section \<open>Index cells\<close>

text \<open>What the index holds for one row under one key, and when an index has no empty key.\<close>

definition cell :: "ReverseIndex \<Rightarrow> string \<Rightarrow> string \<Rightarrow> string option" where
  "cell index k r = Option.bind (map_of index k) (\<lambda>rows. map_of rows r)"

definition index_ok :: "ReverseIndex \<Rightarrow> bool" where
  "index_ok index \<longleftrightarrow> obj_ok index \<and>
     (\<forall>k rows. map_of index k = Some rows \<longrightarrow> obj_ok rows \<and> rows \<noteq> [])"

definition remove_entry :: "ReverseIndex \<Rightarrow> IndexEntry option \<Rightarrow> ReverseIndex" where
  "remove_entry index o' = (case o' of None \<Rightarrow> index
     | Some en \<Rightarrow> withEntry index en (removeIndexRow (map_of index (ie_key en)) en))"

definition add_entry :: "ReverseIndex \<Rightarrow> IndexEntry option \<Rightarrow> ReverseIndex" where
  "add_entry index o' = (case o' of None \<Rightarrow> index
     | Some en \<Rightarrow> withEntry index en (Some (addIndexRow (map_of index (ie_key en)) en)))"

lemma applyIndexDelta_split:
  "applyIndexDelta index d = add_entry (remove_entry index (delta_remove d)) (delta_add d)"
  by (simp add: applyIndexDelta_def add_entry_def remove_entry_def Let_def)

lemma index_ok_rows: "index_ok index \<Longrightarrow> obj_ok (getOr (map_of index k) [])"
  by (cases "map_of index k") (auto simp: index_ok_def obj_ok_Nil)

lemma remove_entry_cell:
  "cell (remove_entry index o') k r =
     (case o' of Some en \<Rightarrow> if k = ie_key en \<and> r = rowId en then None else cell index k r
      | None \<Rightarrow> cell index k r)"
proof (cases o')
  case None
  then show ?thesis by (simp add: remove_entry_def)
next
  case (Some en)
  let ?rows = "obj_delete (getOr (map_of index (ie_key en)) []) (rowId en)"
  have rows: "map_of ?rows r = (if r = rowId en then None else cell index (ie_key en) r)"
    by (cases "map_of index (ie_key en)") (simp_all add: obj_delete_get cell_def)
  show ?thesis
  proof (cases "?rows = []")
    case True
    with rows have "r = rowId en \<or> cell index (ie_key en) r = None" by (auto split: if_splits)
    with True show ?thesis
      by (auto simp: Some remove_entry_def removeIndexRow_def applyRow_def withEntry_def cell_def
          obj_delete_get)
  next
    case False
    with rows show ?thesis
      by (auto simp: Some remove_entry_def removeIndexRow_def applyRow_def withEntry_def Let_def
          obj_set_get cell_def simp del: obj_delete_get)
  qed
qed

lemma add_entry_cell:
  "cell (add_entry index o') k r =
     (case o' of Some en \<Rightarrow> if k = ie_key en \<and> r = rowId en then Some (ie_value en) else cell index k r
      | None \<Rightarrow> cell index k r)"
  by (cases o'; cases "map_of index k")
    (auto simp: add_entry_def withEntry_def addIndexRow_def applyRow_def cell_def obj_set_get)

lemma remove_entry_ok: "index_ok index \<Longrightarrow> index_ok (remove_entry index o')"
  using index_ok_rows [of index]
  by (auto simp: index_ok_def remove_entry_def removeIndexRow_def applyRow_def withEntry_def Let_def
      obj_delete_get obj_set_get split: option.splits if_splits)

lemma add_entry_ok: "index_ok index \<Longrightarrow> index_ok (add_entry index o')"
  using index_ok_rows [of index]
  by (auto simp: index_ok_def add_entry_def addIndexRow_def applyRow_def withEntry_def
      obj_set_get update_nonempty split: option.splits if_splits)

lemma applyIndexDelta_ok: "index_ok index \<Longrightarrow> index_ok (applyIndexDelta index d)"
  by (simp add: applyIndexDelta_split add_entry_ok remove_entry_ok)

lemma sameEntry_iff: "sameEntry a b \<longleftrightarrow> a = b"
  by (cases a; cases b) (auto simp: sameEntry_def)

section \<open>Deltas keep the index in step with the rows\<close>

locale row_index =
  fixes entryFor :: "Entity \<Rightarrow> IndexEntry option"
  assumes row_of: "entryFor e = Some en \<Longrightarrow> rowId en = ent_id e"
begin

text \<open>What one version of a row contributes under a key.\<close>

definition contrib :: "Entity option \<Rightarrow> string \<Rightarrow> string option" where
  "contrib v k = Option.bind (Option.bind v entryFor)
     (\<lambda>en. if ie_key en = k then Some (ie_value en) else None)"

lemma contrib_entry:
  "contrib v k = Some x \<longleftrightarrow> (\<exists>e en. v = Some e \<and> entryFor e = Some en \<and> ie_key en = k \<and> ie_value en = x)"
  by (cases v) (auto simp: contrib_def bind_eq_Some_conv)

text \<open>
  The cells after the delta of one row, when the index holds what the previous version contributed.
\<close>

lemma delta_cell:
  assumes ids: "\<And>e. prev = Some e \<or> nxt = Some e \<Longrightarrow> ent_id e = r"
    and held: "\<And>k. contrib prev k \<noteq> None \<Longrightarrow> cell index k r = contrib prev k"
  shows "cell (applyIndexDelta index (indexDeltaFor entryFor prev nxt)) k x =
    (if x \<noteq> r then cell index k x
     else if contrib nxt k \<noteq> None then contrib nxt k
     else if contrib prev k \<noteq> None then None else cell index k x)"
proof -
  let ?rm = "Option.bind prev entryFor" and ?ad = "Option.bind nxt entryFor"
  have row: "rowId en = r" if "?rm = Some en \<or> ?ad = Some en" for en
    using that ids row_of by (auto simp: bind_eq_Some_conv)
  show ?thesis
  proof (cases "?rm = ?ad")
    case True
    then have "contrib prev = contrib nxt" by (simp add: contrib_def fun_eq_iff)
    with True held [of k] show ?thesis
      by (simp add: applyIndexDelta_split indexDeltaFor_def sameEntry_iff add_entry_cell remove_entry_cell)
  next
    case False
    have "cell (applyIndexDelta index (indexDeltaFor entryFor prev nxt)) k x =
        cell (add_entry (remove_entry index ?rm) ?ad) k x"
      using False by (simp add: applyIndexDelta_split indexDeltaFor_def sameEntry_iff Let_def)
    then show ?thesis
      using row
      by (cases ?rm; cases ?ad) (simp_all add: add_entry_cell remove_entry_cell contrib_def)
  qed
qed

text \<open>An index of its own tracks a table of rows when each cell is what the row contributes.\<close>

definition tracks :: "(string \<Rightarrow> Entity option) \<Rightarrow> ReverseIndex \<Rightarrow> bool" where
  "tracks tbl index \<longleftrightarrow> index_ok index \<and> (\<forall>k r. cell index k r = contrib (tbl r) k)"

lemma tracks_empty: "tracks (\<lambda>_. None) []"
  by (simp add: tracks_def index_ok_def obj_ok_Nil cell_def contrib_def)

lemma tracks_write:
  assumes "tracks tbl index" "\<And>e. tbl r = Some e \<or> nxt = Some e \<Longrightarrow> ent_id e = r"
  shows "tracks (tbl(r := nxt)) (applyIndexDelta index (indexDeltaFor entryFor (tbl r) nxt))"
  unfolding tracks_def
proof (intro conjI allI)
  show "index_ok (applyIndexDelta index (indexDeltaFor entryFor (tbl r) nxt))"
    using assms(1) by (simp add: tracks_def applyIndexDelta_ok)
  fix k x
  have cells: "cell index k r = contrib (tbl r) k" for k r using assms(1) by (simp add: tracks_def)
  show "cell (applyIndexDelta index (indexDeltaFor entryFor (tbl r) nxt)) k x = contrib ((tbl(r := nxt)) x) k"
    using delta_cell [of "tbl r" nxt r index k x] assms(2) cells by (auto split: option.splits)
qed

lemma tracks_rows:
  assumes "tracks tbl index"
  shows "map_of (getOr (map_of index k) []) r = contrib (tbl r) k" "obj_ok (getOr (map_of index k) [])"
proof -
  have "cell index k r = contrib (tbl r) k" using assms by (simp add: tracks_def)
  then show "map_of (getOr (map_of index k) []) r = contrib (tbl r) k"
    by (cases "map_of index k") (simp_all add: cell_def)
  show "obj_ok (getOr (map_of index k) [])"
    using assms index_ok_rows by (simp add: tracks_def)
qed

end

lemma indexEntryFor_row: "indexEntryFor e = Some en \<Longrightarrow> rowId en = ent_id e"
  by (auto simp: indexEntryFor_def relationshipEntryFor_def membershipEntryFor_def
      split: option.splits if_splits)

lemma forwardIndexEntryFor_row: "forwardIndexEntryFor e = Some en \<Longrightarrow> rowId en = ent_id e"
  by (auto simp: forwardIndexEntryFor_def forwardRelationshipEntryFor_def forwardMembershipEntryFor_def
      split: option.splits if_splits)

interpretation reverse: row_index indexEntryFor
  by unfold_locales (rule indexEntryFor_row)

interpretation forward: row_index forwardIndexEntryFor
  by unfold_locales (rule forwardIndexEntryFor_row)

section \<open>Keys\<close>

lemma split_at_sep:
  "x \<notin> set xs \<Longrightarrow> x \<notin> set ys \<Longrightarrow> xs @ x # as = ys @ x # bs \<longleftrightarrow> xs = ys \<and> as = bs"
proof (induction xs arbitrary: ys)
  case Nil
  then show ?case by (cases ys) auto
next
  case (Cons a xs)
  then show ?case by (cases ys) auto
qed

lemma reverseIndexKey_eq:
  assumes "NUL \<notin> set f" "NUL \<notin> set f'" "NUL \<notin> set t" "NUL \<notin> set t'"
  shows "reverseIndexKey f t i = reverseIndexKey f' t' i' \<longleftrightarrow> f = f' \<and> t = t' \<and> i = i'"
  using assms by (auto simp: reverseIndexKey_def split_at_sep)

lemma forwardIndexKey_eq:
  assumes "NUL \<notin> set f" "NUL \<notin> set f'" "NUL \<notin> set t" "NUL \<notin> set t'"
  shows "forwardIndexKey f t i = forwardIndexKey f' t' i' \<longleftrightarrow> f = f' \<and> t = t' \<and> i = i'"
  using assms by (simp add: forwardIndexKey_def reverseIndexKey_eq)

lemma membership_parts_clean: "NUL \<notin> set MEMBERSHIP_ACCESSOR" "NUL \<notin> set MEMBERSHIP_ENTITY_TYPE"
  by (simp_all add: NUL_def MEMBERSHIP_ACCESSOR_def MEMBERSHIP_ENTITY_TYPE_def)

text \<open>The field names a row may carry so that its keys can be taken apart again.\<close>

definition clean :: "string \<Rightarrow> bool" where
  "clean s \<longleftrightarrow> NUL \<notin> set s \<and> CHR 0x01 \<notin> set s"

definition clean_row :: "Entity \<Rightarrow> bool" where
  "clean_row e \<longleftrightarrow> (\<forall>name \<in> {''field'', ''type''}. \<forall>s. readStringField e name = Some s \<longrightarrow> clean s)"

text \<open>
  With NUL-free accessor and type names, as accessor names and ids are, the composite index keys
  are unambiguous: two reverse keys are equal only for the same triple, so are two forward keys, and
  with no leading control character in the accessor name a forward key is never a reverse key, so the
  two directions can share one map.
\<close>

theorem index_keys_unambiguous:
  assumes "clean f" "clean f'" "clean t" "clean t'"
  shows "(reverseIndexKey f t i = reverseIndexKey f' t' i' \<longrightarrow> (f, t, i) = (f', t', i')) \<and>
    (forwardIndexKey f t i = forwardIndexKey f' t' i' \<longrightarrow> (f, t, i) = (f', t', i')) \<and>
    forwardIndexKey f t i \<noteq> reverseIndexKey f' t' i'"
proof -
  have "forwardIndexKey f t i \<noteq> reverseIndexKey f' t' i'"
    using assms(2)
    by (cases f') (auto simp: forwardIndexKey_def reverseIndexKey_def clean_def NUL_def)
  with assms show ?thesis by (simp add: reverseIndexKey_eq forwardIndexKey_eq clean_def)
qed

theorem index_keys_unambiguous_witness:
  "forwardIndexKey ''posts'' ''author'' ''t_1'' \<noteq> reverseIndexKey ''posts'' ''author'' ''t_1''"
  using index_keys_unambiguous [of "''posts''" "''posts''" "''author''" "''author''" "''t_1''" "''t_1''"]
  by (simp add: clean_def NUL_def)

section \<open>Index reads\<close>

lemma fold_set_add_spec:
  "distinct acc \<Longrightarrow> distinct (fold (\<lambda>v s. set_add s v) xs acc) \<and>
   set (fold (\<lambda>v s. set_add s v) xs acc) = set acc \<union> set xs"
  by (induction xs arbitrary: acc) (auto simp: js_simps)

lemma sort_distinct: "distinct xs \<Longrightarrow> sort xs = sorted_list_of_set (set xs)"
  by (simp add: sorted_list_of_set_sort_remdups distinct_remdups_id)

lemma liveSourceIds_sorted_set:
  "liveSourceIds rows = sorted_list_of_set (snd ` set (getOr rows []))"
  using fold_set_add_spec [of "[]" "map snd (getOr rows [])"]
  by (simp add: liveSourceIds_def sortSourceIds_def sort_distinct)

text \<open>A live relationship row from \<open>src\<close> to \<open>tgt\<close>, and a live membership row.\<close>

definition links :: "Entity \<Rightarrow> string \<Rightarrow> string \<Rightarrow> string \<Rightarrow> string \<Rightarrow> bool" where
  "links e f t src tgt \<longleftrightarrow> ent_type e = RELATIONSHIP_ENTITY_TYPE \<and> deleted_hlc e = None \<and>
     readStringField e ''field'' = Some f \<and> readStringField e ''type'' = Some t \<and>
     readStringField e ''source_id'' = Some src \<and> readStringField e ''target_id'' = Some tgt"

definition member_row :: "Entity \<Rightarrow> string \<Rightarrow> string \<Rightarrow> bool" where
  "member_row e ent grp \<longleftrightarrow> ent_type e = MEMBERSHIP_ENTITY_TYPE \<and> deleted_hlc e = None \<and>
     readStringField e ''entity_id'' = Some ent \<and> readStringField e ''group_id'' = Some grp"

lemma indexEntryFor_Some:
  "indexEntryFor e = Some en \<longleftrightarrow>
     (\<exists>f t src tgt. links e f t src tgt \<and>
        en = \<lparr>ie_key = reverseIndexKey f t tgt, rowId = ent_id e, ie_value = src\<rparr>) \<or>
     (\<exists>ent grp. member_row e ent grp \<and>
        en = \<lparr>ie_key = membershipIndexKey grp, rowId = ent_id e, ie_value = ent\<rparr>)"
  by (auto simp: indexEntryFor_def relationshipEntryFor_def membershipEntryFor_def links_def
      member_row_def RELATIONSHIP_ENTITY_TYPE_def MEMBERSHIP_ENTITY_TYPE_def split: option.splits)

lemma forwardIndexEntryFor_Some:
  "forwardIndexEntryFor e = Some en \<longleftrightarrow>
     (\<exists>f t src tgt. links e f t src tgt \<and>
        en = \<lparr>ie_key = forwardIndexKey f t src, rowId = ent_id e, ie_value = tgt\<rparr>) \<or>
     (\<exists>ent grp. member_row e ent grp \<and>
        en = \<lparr>ie_key = forwardMembershipIndexKey ent, rowId = ent_id e, ie_value = grp\<rparr>)"
  by (auto simp: forwardIndexEntryFor_def forwardRelationshipEntryFor_def forwardMembershipEntryFor_def
      links_def member_row_def RELATIONSHIP_ENTITY_TYPE_def MEMBERSHIP_ENTITY_TYPE_def split: option.splits)

lemma links_clean: "links e f t src tgt \<Longrightarrow> clean_row e \<Longrightarrow> NUL \<notin> set f \<and> NUL \<notin> set t"
  by (simp add: links_def clean_row_def clean_def)

text \<open>What a clean row contributes under the key of a query.\<close>

lemma reverse_contrib:
  "reverse.contrib (Some e) k = Some v \<longleftrightarrow>
     (\<exists>f t tgt. links e f t v tgt \<and> k = reverseIndexKey f t tgt) \<or>
     (\<exists>grp. member_row e v grp \<and> k = membershipIndexKey grp)"
  unfolding reverse.contrib_entry indexEntryFor_Some
  by (simp add: ex_disj_distrib conj_disj_distribR) fastforce

lemma forward_contrib:
  "forward.contrib (Some e) k = Some v \<longleftrightarrow>
     (\<exists>f t src. links e f t src v \<and> k = forwardIndexKey f t src) \<or>
     (\<exists>ent. member_row e ent v \<and> k = forwardMembershipIndexKey ent)"
  unfolding forward.contrib_entry forwardIndexEntryFor_Some
  by (simp add: ex_disj_distrib conj_disj_distribR) fastforce

lemma reverse_contrib_link:
  assumes "clean_row e" "NUL \<notin> set as" "NUL \<notin> set t" "as \<noteq> MEMBERSHIP_ACCESSOR"
  shows "reverse.contrib (Some e) (reverseIndexKey as t tgt) = Some src \<longleftrightarrow> links e as t src tgt"
  using assms links_clean [of e] membership_parts_clean
  by (auto simp: reverse_contrib membershipIndexKey_def reverseIndexKey_eq)

lemma forward_contrib_link:
  assumes "clean_row e" "NUL \<notin> set as" "NUL \<notin> set t" "as \<noteq> MEMBERSHIP_ACCESSOR"
  shows "forward.contrib (Some e) (forwardIndexKey as t src) = Some tgt \<longleftrightarrow> links e as t src tgt"
  using assms links_clean [of e] membership_parts_clean
  by (auto simp: forward_contrib forwardMembershipIndexKey_def forwardIndexKey_eq)

lemma contrib_None [simp]: "reverse.contrib None k = None" "forward.contrib None k = None"
  by (simp_all add: reverse.contrib_def forward.contrib_def)

text \<open>The rows under one key, as a set, when the cells of that key are known.\<close>

lemma rows_under_key:
  assumes "index_ok index" "\<And>r. cell index k r = g r"
  shows "set (getOr (map_of index k) []) = {(r, v). g r = Some v}"
proof -
  have "map_of (getOr (map_of index k) []) r = g r" for r
    using assms(2) [of r] by (cases "map_of index k") (simp_all add: cell_def)
  then show ?thesis by (simp add: obj_ok_set [OF index_ok_rows [OF assms(1)]])
qed

section \<open>The order of the links does not depend on insertion order\<close>

text \<open>
  The documented contract of a comparator: zero exactly on equal strings, antisymmetric, transitive.
\<close>

definition comparator_ok :: "('a \<Rightarrow> 'a \<Rightarrow> int) \<Rightarrow> bool" where
  "comparator_ok cmp \<longleftrightarrow> (\<forall>a b. cmp a b = 0 \<longleftrightarrow> a = b) \<and> (\<forall>a b. cmp a b \<le> 0 \<or> cmp b a \<le> 0) \<and>
     (\<forall>a b. cmp a b \<le> 0 \<longrightarrow> cmp b a \<le> 0 \<longrightarrow> a = b) \<and>
     (\<forall>a b c. cmp a b \<le> 0 \<longrightarrow> cmp b c \<le> 0 \<longrightarrow> cmp a c \<le> 0)"

lemma insert_by_set: "set (insert_by cmp x xs) = insert x (set xs)"
  by (induction xs) auto

lemma insert_by_mset: "mset (insert_by cmp x xs) = add_mset x (mset xs)"
  by (induction xs) auto

lemma sort_by_mset: "mset (sort_by cmp xs) = mset xs"
  by (induction xs) (simp_all add: sort_by_def insert_by_mset)

text \<open>What a sort needs of its comparator: a total order on the elements it sorts.\<close>

definition order_on :: "('a \<Rightarrow> 'a \<Rightarrow> int) \<Rightarrow> 'a set \<Rightarrow> bool" where
  "order_on cmp A \<longleftrightarrow> (\<forall>a \<in> A. \<forall>b \<in> A. cmp a b \<le> 0 \<or> cmp b a \<le> 0) \<and>
     (\<forall>a \<in> A. \<forall>b \<in> A. cmp a b \<le> 0 \<longrightarrow> cmp b a \<le> 0 \<longrightarrow> a = b) \<and>
     (\<forall>a \<in> A. \<forall>b \<in> A. \<forall>c \<in> A. cmp a b \<le> 0 \<longrightarrow> cmp b c \<le> 0 \<longrightarrow> cmp a c \<le> 0)"

lemma comparator_ok_order: "comparator_ok cmp \<Longrightarrow> order_on cmp A"
  unfolding comparator_ok_def order_on_def by blast

lemma order_onD:
  assumes "order_on cmp A" "a \<in> A" "b \<in> A"
  shows "cmp a b \<le> 0 \<or> cmp b a \<le> 0" "cmp a b \<le> 0 \<Longrightarrow> cmp b a \<le> 0 \<Longrightarrow> a = b"
    "c \<in> A \<Longrightarrow> cmp a b \<le> 0 \<Longrightarrow> cmp b c \<le> 0 \<Longrightarrow> cmp a c \<le> 0"
  using assms unfolding order_on_def by blast+

lemma order_on_subset: "order_on cmp A \<Longrightarrow> B \<subseteq> A \<Longrightarrow> order_on cmp B"
  unfolding order_on_def by blast

lemma insert_by_sorted:
  assumes "order_on cmp (insert x (set xs))" "sorted_wrt (\<lambda>a b. cmp a b \<le> 0) xs"
  shows "sorted_wrt (\<lambda>a b. cmp a b \<le> 0) (insert_by cmp x xs)"
  using assms
proof (induction xs)
  case Nil
  then show ?case by simp
next
  case (Cons y ys)
  have total: "cmp x y \<le> 0 \<or> cmp y x \<le> 0"
    by (rule order_onD(1) [OF Cons.prems(1)]) simp_all
  have trans: "cmp x z \<le> 0" if "cmp x y \<le> 0" "cmp y z \<le> 0" "z \<in> set ys" for z
    by (rule order_onD(3) [OF Cons.prems(1) _ _ _ that(1,2)]) (simp_all add: that(3))
  have "order_on cmp (insert x (set ys))" using order_on_subset [OF Cons.prems(1)] by auto
  with Cons show ?case
    using total trans by (auto simp: insert_by_set)
qed

lemma sort_by_set [simp]: "set (sort_by cmp xs) = set xs"
  using sort_by_mset by (metis set_mset_mset)

lemma sort_by_sorted: "order_on cmp (set xs) \<Longrightarrow> sorted_wrt (\<lambda>a b. cmp a b \<le> 0) (sort_by cmp xs)"
proof (induction xs)
  case (Cons x xs)
  then have "order_on cmp (set xs)" using order_on_subset by fastforce
  moreover have "sort_by cmp (x # xs) = insert_by cmp x (sort_by cmp xs)" by (simp add: sort_by_def)
  ultimately show ?case using insert_by_sorted [of cmp x "sort_by cmp xs"] Cons by simp
qed (simp add: sort_by_def)

lemma sorted_by_unique:
  assumes "order_on cmp (set xs)" "sorted_wrt (\<lambda>a b. cmp a b \<le> 0) xs" "sorted_wrt (\<lambda>a b. cmp a b \<le> 0) ys"
    "mset xs = mset ys"
  shows "xs = ys"
  using assms
proof (induction xs arbitrary: ys)
  case Nil
  then show ?case by simp
next
  case (Cons x xs)
  then obtain y zs where ys: "ys = y # zs" by (cases ys) auto
  have in': "x \<in> set ys" "y \<in> set (x # xs)"
    using Cons.prems(4) ys by (metis list.set_intros(1) set_mset_mset)+
  then have "x = y"
    using Cons.prems(2,3) ys order_onD(2) [OF Cons.prems(1), of x y] by auto
  moreover have "order_on cmp (set xs)" using order_on_subset [OF Cons.prems(1)] by auto
  ultimately show ?case using Cons ys by simp
qed

lemma compareRows_ok: "comparator_ok c \<Longrightarrow> comparator_ok (compareRows c)"
  unfolding comparator_ok_def compareRows_def
  by (intro conjI allI; smt (verit) prod_eqI)

text \<open>
  The links read under a key are the live rows of that key, each once, ordered by value and then
  by row id, and the sequence depends only on the set of rows: two indices that hold the same rows,
  inserted in any order, return the same links. This is relative to a \<^verbatim>\<open>localeCompare\<close> that is a
  total order on the strings compared.
\<close>

theorem live_links_deterministic:
  assumes "comparator_ok localeCompare" "obj_ok rows" "obj_ok rows'" "map_of rows = map_of rows'"
  shows "liveIndexRows localeCompare (Some rows) = liveIndexRows localeCompare (Some rows') \<and>
    mset (liveIndexRows localeCompare (Some rows)) = mset rows \<and>
    sorted_wrt (\<lambda>a b. compareRows localeCompare a b \<le> 0) (liveIndexRows localeCompare (Some rows))"
proof -
  have "set rows = set rows'"
    using assms(2-4) by (simp add: obj_ok_set)
  then have "mset rows = mset rows'"
    using assms(2,3) by (auto simp: obj_ok_def distinct_map set_eq_iff_mset_eq_distinct)
  then show ?thesis
    using comparator_ok_order [OF compareRows_ok [OF assms(1)]]
    by (auto simp: liveIndexRows_def sort_by_mset intro!: sort_by_sorted sorted_by_unique)
qed

definition code_unit_compare :: "string \<Rightarrow> string \<Rightarrow> int" where
  "code_unit_compare a b = (if a = b then 0 else if a < b then -1 else 1)"

lemma code_unit_compare_ok: "comparator_ok code_unit_compare"
  by (auto simp: comparator_ok_def code_unit_compare_def)

theorem live_links_deterministic_witness:
  "liveIndexRows code_unit_compare (Some [(''r_2'', ''a''), (''r_1'', ''a'')]) =
   liveIndexRows code_unit_compare (Some [(''r_1'', ''a''), (''r_2'', ''a'')])"
  using live_links_deterministic [OF code_unit_compare_ok,
      of "[(''r_2'', ''a''), (''r_1'', ''a'')]" "[(''r_1'', ''a''), (''r_2'', ''a'')]"]
  by (auto simp: obj_ok_def fun_eq_iff)

section \<open>Rows that can be indexed\<close>

text \<open>
  Updates whose \<^verbatim>\<open>field\<close> and \<^verbatim>\<open>type\<close> values are accessor and type names, and that keep the type of
  their subject. Rows built from such Updates only hold such values.
\<close>

definition clean_update :: "Update \<Rightarrow> bool" where
  "clean_update u \<longleftrightarrow> obj_ok (readFields u) \<and> list_all (\<lambda>name.
     case map_of (readFields u) name of Some (Leaf (JStr s) _ _) \<Rightarrow> clean s | _ \<Rightarrow> True) [''field'', ''type'']"

lemma readStringField_leaf:
  "readStringField e name = Some s \<longleftrightarrow>
     (\<exists>f u h. map_of (ent_fields e) name = Some f \<and> wireValue f = Leaf (JStr s) u h)"
  by (auto simp: readStringField_def isFieldLeaf_def isFieldMap_def
      split: option.splits field_value.splits json.splits)

lemma merged_leaf_origin:
  "mergeFieldValue a i = Leaf v u h \<Longrightarrow> a = Some (Leaf v u h) \<or> i = Leaf v u h"
  by (cases "(a, i)" rule: mergeFieldValue.cases)
    (auto simp: merge_leaf_def Let_def isFieldMap_def split: if_splits)

lemma adopted_leaf: "wireValue (adoptMapField f) = Leaf v u h \<Longrightarrow> wireValue f = Leaf v u h"
  by (auto simp: adoptMapField_def mapFieldFromWire_def wireValue_def Let_def
      split: resident.splits field_value.splits if_splits prod.splits)

lemma wireValue_simps [simp]:
  "wireValue (Plain v) = v" "wireValue (Sharded sh fl) = FMap (createSharded_map sh fl)"
  by (simp_all add: wireValue_def)

lemma mergeValue_leaf_origin:
  assumes "wireValue (mergeValue resident ex i) = Leaf v u h"
  shows "(\<exists>r. ex = Some r \<and> wireValue r = Leaf v u h) \<or> i = Leaf v u h"
proof (cases "\<exists>sh fl. resident \<and> ex = Some (Sharded sh fl)")
  case True
  with assms show ?thesis
    by (auto simp: mergeValue_def mergeResidentFieldValue_def mergeShardedMapField_def Let_def
        split: field_value.splits if_splits)
next
  case False
  with assms have "mergeFieldValue (map_option wireValue ex) i = Leaf v u h"
    by (auto simp: mergeValue_def mergeResidentFieldValue_def Let_def dest!: adopted_leaf
        split: option.splits resident.splits if_splits)
  from merged_leaf_origin [OF this] show ?thesis by auto
qed

lemma applyUpdate_clean:
  assumes "applyUpdate resident row u g h = Some e" "clean_update u" "\<And>r. row = Some r \<Longrightarrow> clean_row r"
  shows "clean_row e"
  unfolding clean_row_def
proof (intro ballI allI impI)
  fix name s
  assume name: "name \<in> {''field'', ''type''}" and rd: "readStringField e name = Some s"
  have upd: "clean s" if "map_of (readFields u) name = Some (Leaf (JStr s) ui hh)" for ui hh
    using assms(2) name that by (auto simp: clean_update_def)
  have old: "clean s" if "row = Some r" "readStringField r name = Some s" for r
    using assms(3) name that by (auto simp: clean_row_def)
  have ok: "obj_ok (readFields u)" using assms(2) by (simp add: clean_update_def)
  show "clean s"
  proof (cases "upd_method u")
    case Put
    with assms(1) rd ok obtain ui hh where "map_of (readFields u) name = Some (Leaf (JStr s) ui hh)"
      by (auto simp: applyUpdate_def readStringField_leaf adoptMapFields_map plainFields_def
          obj_ok_map_values map_of_map_values dest!: adopted_leaf simp del: map_map split: if_splits)
    then show ?thesis by (rule upd)
  next
    case Patch
    with assms(1) obtain r where row: "row = Some r" by (auto simp: applyUpdate_def split: option.splits)
    show ?thesis
    proof (cases "ent_fields e = ent_fields r")
      case True
      with rd row show ?thesis by (intro old) (simp_all add: readStringField_def)
    next
      case False
      with Patch row assms(1) have e: "ent_fields e = mergeFields resident (ent_fields r) u"
        by (auto simp: applyUpdate_def split: if_splits)
      from rd obtain f ui hh where f: "map_of (ent_fields e) name = Some f" "wireValue f = Leaf (JStr s) ui hh"
        by (auto simp: readStringField_leaf)
      show ?thesis
      proof (cases "map_of (readFields u) name")
        case None
        with f e ok have "readStringField r name = Some s" by (simp add: mergeFields_get readStringField_leaf)
        with row show ?thesis by (rule old)
      next
        case (Some v)
        with f e ok have "wireValue (mergeValue resident (map_of (ent_fields r) name) v) = Leaf (JStr s) ui hh"
          by (simp add: mergeFields_get)
        from mergeValue_leaf_origin [OF this] Some show ?thesis
          using upd old [OF row] by (auto simp: readStringField_leaf)
      qed
    qed
  next
    case Delete
    with assms(1) rd obtain r where "row = Some r" "readStringField r name = Some s"
      by (auto simp: applyUpdate_def readStringField_def split: option.splits)
    then show ?thesis by (rule old)
  qed
qed

text \<open>The identity of a row: it carries the id and the type of its subject.\<close>

definition row_for :: "(string \<Rightarrow> string) \<Rightarrow> string \<Rightarrow> Entity \<Rightarrow> bool" where
  "row_for tyof eid e \<longleftrightarrow> ent_id e = eid \<and> ent_type e = tyof eid \<and> clean_row e"

definition typed_update :: "(string \<Rightarrow> string) \<Rightarrow> Update \<Rightarrow> bool" where
  "typed_update tyof u \<longleftrightarrow> subject_type u = tyof (subject_id u) \<and> clean_update u"

lemma applyUpdate_row_for:
  assumes "applyUpdate resident row u g h = Some e" "typed_update tyof u" "subject_id u = eid"
    "\<And>r. row = Some r \<Longrightarrow> row_for tyof eid r"
  shows "row_for tyof eid e"
proof -
  have "clean_row e"
    using assms by (auto simp: typed_update_def row_for_def intro: applyUpdate_clean)
  then show ?thesis
    using assms by (auto simp: row_for_def typed_update_def applyUpdate_def
        split: update_method.splits option.splits if_splits)
qed

end
