(* ===== verification/Stores.thy ===== *)
theory Stores
  imports ActionLog ReverseIndex
begin

text \<open>
  The small in-memory stores of packages/storage/src/memory: the dirty tracker, the per-group cursor
  store, the outbox store and the single-slot replica store. Each store is its state record and one
  function per method. The locale \<open>dirty_tracker\<close> is the contract the entity store relies on.

  A method that is \<^verbatim>\<open>async\<close> in the source runs to completion before the next one is called: the
  in-memory stores await nothing of their own. \<^verbatim>\<open>structuredClone\<close> of a value is the value.
  The HLC of a stored row is its packed integer, so \<^verbatim>\<open>compare\<close> on two of them is \<^verbatim>\<open>compareHlc\<close>; the
  string comparison, which fails on a malformed HLC, is in the theory \<^verbatim>\<open>Hlc\<close>.
\<close>

section \<open>Dirty tracker (dirty-tracker.memory.ts)\<close>

record DirtyTrackerState =
  dt_entities :: "string obj"
  dt_typeIndex :: "string list obj"

definition createMemoryDirtyTracker :: DirtyTrackerState where
  "createMemoryDirtyTracker = \<lparr>dt_entities = [], dt_typeIndex = []\<rparr>"

definition dirty_mark :: "DirtyTrackerState \<Rightarrow> string \<Rightarrow> string \<Rightarrow> DirtyTrackerState" where
  "dirty_mark st entityId entityType =
     (if entityId \<in> set (obj_keys (dt_entities st)) then st
      else \<lparr>dt_entities = obj_set (dt_entities st) entityId entityType,
            dt_typeIndex = obj_set (dt_typeIndex st) entityType
              (set_add (getOr (map_of (dt_typeIndex st) entityType) []) entityId)\<rparr>)"

definition dirty_isDirty :: "DirtyTrackerState \<Rightarrow> string \<Rightarrow> bool" where
  "dirty_isDirty st entityId \<longleftrightarrow> entityId \<in> set (obj_keys (dt_entities st))"

definition dirty_getDirtyForType :: "DirtyTrackerState \<Rightarrow> string \<Rightarrow> string list" where
  "dirty_getDirtyForType st entityType =
     (case map_of (dt_typeIndex st) entityType of Some s \<Rightarrow> s | None \<Rightarrow> [])"

text \<open>The guard \<^verbatim>\<open>if (!entityType) return\<close> also takes the empty string for absent.\<close>

definition dirty_clear :: "DirtyTrackerState \<Rightarrow> string \<Rightarrow> DirtyTrackerState" where
  "dirty_clear st entityId =
     (case map_of (dt_entities st) entityId of
        None \<Rightarrow> st
      | Some entityType \<Rightarrow>
          if entityType = '''' then st
          else \<lparr>dt_entities = obj_delete (dt_entities st) entityId,
                dt_typeIndex = obj_set (dt_typeIndex st) entityType
                  (set_remove (getOr (map_of (dt_typeIndex st) entityType) []) entityId)\<rparr>)"

definition dirty_clearAll :: "DirtyTrackerState \<Rightarrow> DirtyTrackerState" where
  "dirty_clearAll st = \<lparr>dt_entities = [], dt_typeIndex = []\<rparr>"

subsection \<open>The contract\<close>

locale dirty_tracker =
  fixes mark :: "'s \<Rightarrow> string \<Rightarrow> string \<Rightarrow> 's"
    and isDirty :: "'s \<Rightarrow> string \<Rightarrow> bool"
    and dirtyFor :: "'s \<Rightarrow> string \<Rightarrow> string list"
    and clear :: "'s \<Rightarrow> string \<Rightarrow> 's"
    and ok :: "'s \<Rightarrow> bool"
    and dirty :: "'s \<Rightarrow> string \<Rightarrow> string option"
  assumes ok_mark: "ok s \<Longrightarrow> ok (mark s i t)"
    and ok_clear: "ok s \<Longrightarrow> ok (clear s i)"
    and dirty_mark: "ok s \<Longrightarrow> dirty (mark s i t) = (if dirty s i = None then (dirty s)(i \<mapsto> t) else dirty s)"
    and dirty_clear: "ok s \<Longrightarrow> dirty (clear s i) = (if dirty s i = Some '''' then dirty s else (dirty s)(i := None))"
    and isDirty_iff: "ok s \<Longrightarrow> isDirty s i \<longleftrightarrow> dirty s i \<noteq> None"
    and dirtyFor_set: "ok s \<Longrightarrow> set (dirtyFor s t) = {i. dirty s i = Some t}"
    and dirtyFor_distinct: "ok s \<Longrightarrow> distinct (dirtyFor s t)"
begin

definition mark_all :: "'s \<Rightarrow> (string \<times> string) list \<Rightarrow> 's" where
  "mark_all s us = fold (\<lambda>(i, t) s. mark s i t) us s"

lemma mark_all_Cons: "mark_all s ((i, t) # us) = mark_all (mark s i t) us"
  by (simp add: mark_all_def)

lemma mark_all_ok: "ok s \<Longrightarrow> ok (mark_all s us)"
  by (induction us arbitrary: s) (auto simp: mark_all_def ok_mark)

lemma mark_all_dirty:
  "ok s \<Longrightarrow> dirty (mark_all s us) i = (case dirty s i of Some t \<Rightarrow> Some t | None \<Rightarrow> map_of us i)"
proof (induction us arbitrary: s)
  case Nil
  then show ?case by (simp add: mark_all_def split: option.splits)
next
  case (Cons u us)
  obtain j t where u: "u = (j, t)" by (cases u)
  show ?case
    using Cons.IH [OF ok_mark [OF Cons.prems, of j t]] Cons.prems
    by (auto simp: u mark_all_Cons dirty_mark split: option.splits)
qed

text \<open>Clearing a dirty entity of a non-empty type takes it, and only it, out of its type's list.\<close>

lemma clear_dirtyFor:
  "ok s \<Longrightarrow> dirty s i = Some t \<Longrightarrow> t \<noteq> '''' \<Longrightarrow>
   set (dirtyFor (clear s i) u) = set (dirtyFor s u) - {i}"
  by (auto simp: dirtyFor_set ok_clear dirty_clear split: if_splits)

end

definition dirty_ok :: "DirtyTrackerState \<Rightarrow> bool" where
  "dirty_ok st \<longleftrightarrow> obj_ok (dt_entities st) \<and> obj_ok (dt_typeIndex st) \<and>
     (\<forall>t. distinct (getOr (map_of (dt_typeIndex st) t) []) \<and>
          set (getOr (map_of (dt_typeIndex st) t) []) = {i. map_of (dt_entities st) i = Some t})"

definition dirty_type :: "DirtyTrackerState \<Rightarrow> string \<Rightarrow> string option" where
  "dirty_type st = map_of (dt_entities st)"

lemma in_keys_iff: "k \<in> set (obj_keys o') \<longleftrightarrow> map_of o' k \<noteq> None"
  by (simp add: map_of_eq_None_iff)

lemma dirty_mark_type:
  "dirty_type (dirty_mark st i t) = (if dirty_type st i = None then (dirty_type st)(i \<mapsto> t) else dirty_type st)"
  unfolding dirty_mark_def dirty_type_def in_keys_iff by (simp add: obj_set_get)

lemma dirty_mark_ok: "dirty_ok st \<Longrightarrow> dirty_ok (dirty_mark st i t)"
  unfolding dirty_mark_def dirty_ok_def in_keys_iff
  by (auto simp: obj_set_get js_simps)

lemma dirty_clear_type:
  "dirty_type (dirty_clear st i) =
     (if dirty_type st i = Some '''' then dirty_type st else (dirty_type st)(i := None))"
  by (auto simp: dirty_clear_def dirty_type_def obj_delete_get fun_eq_iff split: option.splits)

lemma dirty_clear_ok: "dirty_ok st \<Longrightarrow> dirty_ok (dirty_clear st i)"
  unfolding dirty_clear_def dirty_ok_def
  by (auto simp: obj_set_get obj_delete_get js_simps split: option.splits)

lemma dirtyFor_getOr: "dirty_getDirtyForType st t = getOr (map_of (dt_typeIndex st) t) []"
  by (simp add: dirty_getDirtyForType_def split: option.splits)

interpretation dirty: dirty_tracker dirty_mark dirty_isDirty dirty_getDirtyForType dirty_clear
  dirty_ok dirty_type
proof
  fix s i t
  assume ok: "dirty_ok s"
  show "dirty_isDirty s i \<longleftrightarrow> dirty_type s i \<noteq> None"
    unfolding dirty_isDirty_def dirty_type_def in_keys_iff ..
  show "set (dirty_getDirtyForType s t) = {i. dirty_type s i = Some t}" "distinct (dirty_getDirtyForType s t)"
    using ok by (simp_all add: dirtyFor_getOr dirty_ok_def dirty_type_def)
qed (simp_all add: dirty_mark_ok dirty_clear_ok dirty_mark_type dirty_clear_type)

subsection \<open>The tracker as a map\<close>

datatype dirty_op = DirtyMark string string | DirtyClear string

definition dirty_step :: "dirty_op \<Rightarrow> DirtyTrackerState \<Rightarrow> DirtyTrackerState" where
  "dirty_step op st = (case op of DirtyMark i t \<Rightarrow> dirty_mark st i t | DirtyClear i \<Rightarrow> dirty_clear st i)"

definition dirty_abs :: "dirty_op \<Rightarrow> (string \<rightharpoonup> string) \<Rightarrow> (string \<rightharpoonup> string)" where
  "dirty_abs op m = (case op of
     DirtyMark i t \<Rightarrow> if m i = None then m(i \<mapsto> t) else m
   | DirtyClear i \<Rightarrow> if m i = Some '''' then m else m(i := None))"

lemma dirty_run_spec:
  "dirty_ok st \<Longrightarrow> dirty_ok (fold dirty_step ops st) \<and>
   dirty_type (fold dirty_step ops st) = fold dirty_abs ops (dirty_type st)"
proof (induction ops arbitrary: st)
  case Nil
  then show ?case by simp
next
  case (Cons op ops)
  have "dirty_ok (dirty_step op st)"
    using Cons.prems by (cases op) (simp_all add: dirty_step_def dirty_mark_ok dirty_clear_ok)
  moreover have "dirty_type (dirty_step op st) = dirty_abs op (dirty_type st)"
    by (cases op) (simp_all add: dirty_step_def dirty_abs_def dirty_mark_type dirty_clear_type)
  ultimately show ?case using Cons.IH [of "dirty_step op st"] by simp
qed

lemma empty_dirty_ok: "dirty_ok createMemoryDirtyTracker"
  by (simp add: dirty_ok_def createMemoryDirtyTracker_def obj_ok_Nil)

text \<open>
  After any sequence of \<^verbatim>\<open>mark\<close> and \<^verbatim>\<open>clear\<close> the tracker agrees with a map from dirty ids to
  types: the per-type lists hold each dirty id of the type once and nothing else. A first mark fixes
  the type; \<^verbatim>\<open>clear\<close> removes an id except when its type is the empty string, where it does nothing.
\<close>

theorem dirty_tracker_refines_map:
  "let st = fold dirty_step ops createMemoryDirtyTracker; m = fold dirty_abs ops Map.empty in
    dirty_isDirty st i = (m i \<noteq> None) \<and>
    set (dirty_getDirtyForType st t) = {j. m j = Some t} \<and> distinct (dirty_getDirtyForType st t)"
proof -
  let ?st = "fold dirty_step ops createMemoryDirtyTracker"
  have "dirty_ok ?st" "dirty_type ?st = fold dirty_abs ops Map.empty"
    using dirty_run_spec [OF empty_dirty_ok, of ops]
    by (simp_all add: dirty_type_def createMemoryDirtyTracker_def)
  then show ?thesis
    by (simp add: Let_def dirty.isDirty_iff dirty.dirtyFor_set dirty.dirtyFor_distinct)
qed

section \<open>Cursor store (cursor-store.memory.ts, cursor-record.ts)\<close>

record SeedMarker =
  seed_group_id :: string
  seed_w :: "int option"
  seed_token :: "string option"

record CursorRecord =
  cr_cursor :: "int option"
  cr_seed :: "SeedMarker option"
  cr_through :: "int option"

text \<open>An absent field is \<^const>\<open>None\<close>, so the compacted record is the record.\<close>

definition compactCursorRecord :: "CursorRecord \<Rightarrow> CursorRecord" where
  "compactCursorRecord record' =
     (let c0 = \<lparr>cr_cursor = None, cr_seed = None, cr_through = None\<rparr>;
          c1 = (if cr_cursor record' \<noteq> None then c0\<lparr>cr_cursor := cr_cursor record'\<rparr> else c0);
          c2 = (if cr_seed record' \<noteq> None then c1\<lparr>cr_seed := cr_seed record'\<rparr> else c1)
      in if cr_through record' \<noteq> None then c2\<lparr>cr_through := cr_through record'\<rparr> else c2)"

definition isEmptyCursorRecord :: "CursorRecord \<Rightarrow> bool" where
  "isEmptyCursorRecord record' \<longleftrightarrow>
     cr_cursor record' = None \<and> cr_seed record' = None \<and> cr_through record' = None"

type_synonym CursorStoreState = "CursorRecord obj"

definition cursor_read :: "CursorStoreState \<Rightarrow> string \<Rightarrow> CursorRecord option" where
  "cursor_read st groupId = map_of st groupId"

definition cursor_get :: "CursorStoreState \<Rightarrow> string \<Rightarrow> int option" where
  "cursor_get st groupId = Option.bind (cursor_read st groupId) cr_cursor"

definition cursor_set :: "CursorStoreState \<Rightarrow> string \<Rightarrow> int \<Rightarrow> CursorStoreState" where
  "cursor_set st groupId cursor =
     obj_set st groupId (compactCursorRecord
       ((getOr (cursor_read st groupId) \<lparr>cr_cursor = None, cr_seed = None, cr_through = None\<rparr>)
          \<lparr>cr_cursor := Some cursor\<rparr>))"

definition cursor_getRecord :: "CursorStoreState \<Rightarrow> string \<Rightarrow> CursorRecord option" where
  "cursor_getRecord st groupId = cursor_read st groupId"

definition cursor_setRecord :: "CursorStoreState \<Rightarrow> string \<Rightarrow> CursorRecord \<Rightarrow> CursorStoreState" where
  "cursor_setRecord st groupId record' =
     (if isEmptyCursorRecord record' then obj_delete st groupId
      else obj_set st groupId (compactCursorRecord record'))"

definition cursor_records :: "CursorStoreState \<Rightarrow> (string \<times> CursorRecord) list" where
  "cursor_records st = st"

definition cursor_clear :: "CursorStoreState \<Rightarrow> CursorStoreState" where
  "cursor_clear st = []"

lemma compactCursorRecord_id: "compactCursorRecord r = r"
  by (simp add: compactCursorRecord_def Let_def)

definition cursors_ok :: "CursorStoreState \<Rightarrow> bool" where
  "cursors_ok st \<longleftrightarrow> obj_ok st \<and> (\<forall>(g, r) \<in> set st. \<not> isEmptyCursorRecord r)"

datatype cursor_op = CursorSet string int | CursorSetRecord string CursorRecord

definition cursor_step :: "cursor_op \<Rightarrow> CursorStoreState \<Rightarrow> CursorStoreState" where
  "cursor_step op st = (case op of
     CursorSet g c \<Rightarrow> cursor_set st g c | CursorSetRecord g r \<Rightarrow> cursor_setRecord st g r)"

lemma cursors_ok_alt:
  "cursors_ok st \<longleftrightarrow> obj_ok st \<and> (\<forall>g r. map_of st g = Some r \<longrightarrow> \<not> isEmptyCursorRecord r)"
  by (auto simp: cursors_ok_def obj_ok_set)

lemma cursor_step_ok: "cursors_ok st \<Longrightarrow> cursors_ok (cursor_step op st)"
  by (auto simp: cursors_ok_alt cursor_step_def cursor_set_def cursor_setRecord_def compactCursorRecord_id
      isEmptyCursorRecord_def obj_set_get obj_delete_get js_simps split: cursor_op.splits if_splits)

text \<open>
  Resume state of the cursor store. Whatever sequence of \<^verbatim>\<open>set\<close> and \<^verbatim>\<open>setRecord\<close> calls ran, the
  store lists no group without something to resume from; then \<^verbatim>\<open>set\<close> changes the cursor and keeps the
  seed marker and the folded position, \<^verbatim>\<open>setRecord\<close> replaces the whole record, an empty record drops
  the group, and other groups are untouched.
\<close>

theorem cursor_store_correct:
  "let st = fold cursor_step ops [] in
    list_all (\<lambda>e. \<not> isEmptyCursorRecord (snd e)) (cursor_records st) \<and>
    cursor_getRecord (cursor_set st g c) g' =
      (if g' = g then Some \<lparr>cr_cursor = Some c, cr_seed = Option.bind (cursor_getRecord st g) cr_seed,
                            cr_through = Option.bind (cursor_getRecord st g) cr_through\<rparr>
       else cursor_getRecord st g') \<and>
    cursor_getRecord (cursor_setRecord st g r) g' =
      (if g' \<noteq> g then cursor_getRecord st g' else if isEmptyCursorRecord r then None else Some r)"
proof -
  let ?st = "fold cursor_step ops []"
  have "cursors_ok (fold cursor_step ops s)" if "cursors_ok s" for s
    using that by (induction ops arbitrary: s) (simp_all add: cursor_step_ok)
  from this [of "[]"] have "cursors_ok ?st" by (simp add: cursors_ok_def obj_ok_Nil)
  then have "list_all (\<lambda>e. \<not> isEmptyCursorRecord (snd e)) (cursor_records ?st)"
    by (auto simp: cursors_ok_def cursor_records_def list_all_iff)
  then show ?thesis
    by (cases "map_of ?st g")
      (simp_all add: cursor_get_def cursor_read_def cursor_set_def cursor_setRecord_def
        cursor_getRecord_def compactCursorRecord_id obj_set_get obj_delete_get Let_def)
qed

section \<open>Outbox store (outbox-store.memory.ts)\<close>

datatype OutboxStatus = Pending | Acknowledged | OutboxError | Conflicted

record ConflictSide =
  side_value :: "json option"
  side_update_id :: "string option"
  side_hlc :: "hlc option"

record ConflictSlot =
  slot_subjectId :: string
  slot_field :: string
  slot_path :: "string list"
  slot_local :: ConflictSide
  slot_remote :: ConflictSide

record ConflictSubjectState =
  css_subjectId :: string
  css_subjectType :: string
  css_before :: "Entity option"
  css_after :: "Entity option"

record OutboxConflict =
  oc_subjects :: "string list"
  oc_subjectStates :: "ConflictSubjectState list"
  oc_slots :: "ConflictSlot list"
  oc_catchUpId :: string
  oc_conflictId :: string
  oc_detectedAtHlc :: hlc

record OutboxEntry =
  ob_action :: Action
  ob_status :: OutboxStatus
  ob_enqueuedAtHlc :: hlc
  ob_basedOnGsn :: int
  ob_conflict :: "OutboxConflict option"

type_synonym OutboxStoreState = "OutboxEntry obj"

definition outbox_put :: "OutboxStoreState \<Rightarrow> OutboxEntry \<Rightarrow> OutboxStoreState" where
  "outbox_put st entry = obj_set st (act_id (ob_action entry)) entry"

definition outbox_putAndDelete :: "OutboxStoreState \<Rightarrow> OutboxEntry \<Rightarrow> string \<Rightarrow> OutboxStoreState" where
  "outbox_putAndDelete st entry deleteId = obj_set (obj_delete st deleteId) (act_id (ob_action entry)) entry"

definition outbox_list :: "OutboxStoreState \<Rightarrow> OutboxEntry list" where
  "outbox_list st = sort_by (\<lambda>a b. compareHlc (ob_enqueuedAtHlc a) (ob_enqueuedAtHlc b)) (map snd st)"

definition outbox_get :: "OutboxStoreState \<Rightarrow> string \<Rightarrow> OutboxEntry option" where
  "outbox_get st actionId = map_of st actionId"

definition outbox_delete :: "OutboxStoreState \<Rightarrow> string \<Rightarrow> OutboxStoreState" where
  "outbox_delete st actionId = obj_delete st actionId"

definition outbox_clear :: "OutboxStoreState \<Rightarrow> OutboxStoreState" where
  "outbox_clear st = []"

datatype outbox_op = OutboxPut OutboxEntry | OutboxPutAndDelete OutboxEntry string | OutboxDelete string

definition outbox_step :: "outbox_op \<Rightarrow> OutboxStoreState \<Rightarrow> OutboxStoreState" where
  "outbox_step op st = (case op of
     OutboxPut e \<Rightarrow> outbox_put st e
   | OutboxPutAndDelete e d \<Rightarrow> outbox_putAndDelete st e d
   | OutboxDelete i \<Rightarrow> outbox_delete st i)"

text \<open>The reference: a map from Action ids to entries.\<close>

definition outbox_abs :: "outbox_op \<Rightarrow> (string \<rightharpoonup> OutboxEntry) \<Rightarrow> (string \<rightharpoonup> OutboxEntry)" where
  "outbox_abs op m = (case op of
     OutboxPut e \<Rightarrow> m(act_id (ob_action e) \<mapsto> e)
   | OutboxPutAndDelete e d \<Rightarrow> (m(d := None))(act_id (ob_action e) \<mapsto> e)
   | OutboxDelete i \<Rightarrow> m(i := None))"

lemma sort_by_hlc_is_sort_key: "sort_by (\<lambda>a b. compareHlc (f a) (f b)) xs = sort_key f xs"
proof -
  have "insert_by (\<lambda>a b. compareHlc (f a) (f b)) x ys = insort_key f x ys" for x ys
    by (induction ys) (auto simp: compareHlc_def)
  then show ?thesis by (induction xs) (simp_all add: sort_by_def)
qed

lemma outbox_step_spec:
  assumes "obj_ok st" "\<forall>k e. map_of st k = Some e \<longrightarrow> k = act_id (ob_action e)"
  shows "map_of (outbox_step op st) = outbox_abs op (map_of st)"
    "obj_ok (outbox_step op st)"
    "\<forall>k e. map_of (outbox_step op st) k = Some e \<longrightarrow> k = act_id (ob_action e)"
proof -
  show abs: "map_of (outbox_step op st) = outbox_abs op (map_of st)"
    by (cases op) (auto simp: outbox_step_def outbox_abs_def outbox_put_def outbox_putAndDelete_def
        outbox_delete_def obj_set_get obj_delete_get)
  show "obj_ok (outbox_step op st)"
    using assms(1)
    by (cases op) (auto simp: outbox_step_def outbox_put_def outbox_putAndDelete_def outbox_delete_def js_simps)
  show "\<forall>k e. map_of (outbox_step op st) k = Some e \<longrightarrow> k = act_id (ob_action e)"
    unfolding abs using assms(2) by (cases op) (auto simp: outbox_abs_def)
qed

lemma outbox_run_spec:
  assumes "obj_ok st" "\<forall>k e. map_of st k = Some e \<longrightarrow> k = act_id (ob_action e)"
  shows "map_of (fold outbox_step ops st) = fold outbox_abs ops (map_of st) \<and> obj_ok (fold outbox_step ops st)"
  using assms
proof (induction ops arbitrary: st)
  case Nil
  then show ?case by simp
next
  case (Cons op ops)
  show ?case
    using Cons.IH [OF outbox_step_spec(2,3) [OF Cons.prems]] outbox_step_spec(1) [OF Cons.prems]
    by simp
qed

text \<open>
  The outbox store implements a map from Action ids to entries: after any sequence of \<^verbatim>\<open>put\<close>,
  \<^verbatim>\<open>putAndDelete\<close> and \<^verbatim>\<open>delete\<close>, \<^verbatim>\<open>get\<close> reads that map, and \<^verbatim>\<open>list\<close> returns each stored entry once in
  ascending enqueue HLC, so a rehydrating client replays in authoring order.
\<close>

theorem outbox_store_refines_map:
  "let st = fold outbox_step ops []; m = fold outbox_abs ops Map.empty in
    outbox_get st i = m i \<and> set (outbox_list st) = ran m \<and> length (outbox_list st) = card (dom m) \<and>
    sorted (map ob_enqueuedAtHlc (outbox_list st))"
proof -
  let ?st = "fold outbox_step ops []"
  have get: "map_of ?st = fold outbox_abs ops Map.empty" and ok: "obj_ok ?st"
    using outbox_run_spec [of "[]" ops] by (simp_all add: obj_ok_Nil)
  have "snd ` set ?st = ran (map_of ?st)"
    using ok by (simp add: obj_ok_def ran_distinct)
  moreover have "length ?st = card (dom (map_of ?st))"
    using ok distinct_card [of "obj_keys ?st"] by (simp add: obj_ok_def dom_map_of_conv_image_fst)
  ultimately show ?thesis
    by (simp add: get Let_def outbox_get_def outbox_list_def sort_by_hlc_is_sort_key)
qed

section \<open>Replica store (replica-store.memory.ts, replica-record.ts)\<close>

definition REPLICA_RECORD_FORMAT :: int where "REPLICA_RECORD_FORMAT = 1"

text \<open>
  The store keeps what it was given untyped, so the validator reads JSON. A property an object does
  not have reads as \<^verbatim>\<open>undefined\<close>, here \<^const>\<open>None\<close>. An array is an object of JavaScript too, without
  the named properties; a number with an integer value is \<^const>\<open>JNum\<close>.
\<close>

definition js_prop :: "json \<Rightarrow> string \<Rightarrow> json option" where
  "js_prop v name = (case v of JObj o' \<Rightarrow> map_of o' name | _ \<Rightarrow> None)"

definition is_object :: "json \<Rightarrow> bool" where
  "is_object v = (case v of JObj _ \<Rightarrow> True | JArr _ \<Rightarrow> True | _ \<Rightarrow> False)"

definition isNonNegativeInteger :: "json option \<Rightarrow> bool" where
  "isNonNegativeInteger value = (case value of Some (JNum n) \<Rightarrow> n \<ge> 0 | _ \<Rightarrow> False)"

definition isRowShape :: "json \<Rightarrow> bool" where
  "isRowShape value \<longleftrightarrow> is_object value \<and>
     (case js_prop value ''id'' of Some (JStr _) \<Rightarrow> True | _ \<Rightarrow> False) \<and>
     (case js_prop value ''type'' of Some (JStr _) \<Rightarrow> True | _ \<Rightarrow> False)"

definition isValidReplicaRecord :: "json \<Rightarrow> bool" where
  "isValidReplicaRecord value =
     (if \<not> is_object value then False
      else if js_prop value ''format'' \<noteq> Some (JNum REPLICA_RECORD_FORMAT) then False
      else if \<not> isNonNegativeInteger (js_prop value ''position'') then False
      else if \<not> isNonNegativeInteger (js_prop value ''revision'') then False
      else (case js_prop value ''entities'' of Some (JArr es) \<Rightarrow> list_all isRowShape es | _ \<Rightarrow> False))"

type_synonym ReplicaStoreState = json

definition createMemoryReplicaStore :: ReplicaStoreState where
  "createMemoryReplicaStore = JNull"

definition replica_store_load :: "ReplicaStoreState \<Rightarrow> json option" where
  "replica_store_load stored = (if isValidReplicaRecord stored then Some stored else None)"

definition replica_store_save :: "ReplicaStoreState \<Rightarrow> json \<Rightarrow> ReplicaStoreState" where
  "replica_store_save stored record' = record'"

definition replica_store_clear :: "ReplicaStoreState \<Rightarrow> ReplicaStoreState" where
  "replica_store_clear stored = JNull"

subsection \<open>Typed records and their stored form\<close>

record ReplicaRecord =
  rec_format :: int
  rec_position :: int
  rec_revision :: int
  rec_entities :: "Entity list"

text \<open>The object a typed record is: rows carry their fields in the flat wire shape.\<close>

fun field_json :: "field_value \<Rightarrow> json" where
  "field_json (Leaf v u h) = JObj ([(''value'', v), (''update_id'', JStr u)] @
     (case h of None \<Rightarrow> [] | Some x \<Rightarrow> [(''hlc'', JStr (format_hlc x))]))"
| "field_json (FMap m) = JObj [(''map'', JObj (map (\<lambda>(k, v). (k, field_json v)) m))]"

definition entity_json :: "Entity \<Rightarrow> json" where
  "entity_json e = JObj [(''id'', JStr (ent_id e)), (''type'', JStr (ent_type e)),
     (''data'', JObj [(''fields'', JObj (map (\<lambda>(k, v). (k, field_json (wireValue v))) (ent_fields e)))]),
     (''created_hlc'', JStr (format_hlc (created_hlc e))), (''updated_hlc'', JStr (format_hlc (updated_hlc e))),
     (''deleted_hlc'', (case deleted_hlc e of None \<Rightarrow> JNull | Some h \<Rightarrow> JStr (format_hlc h))),
     (''last_gsn'', JNum (last_gsn e))]"

definition record_json :: "ReplicaRecord \<Rightarrow> json" where
  "record_json r = JObj [(''format'', JNum (rec_format r)), (''position'', JNum (rec_position r)),
     (''revision'', JNum (rec_revision r)), (''entities'', JArr (map entity_json (rec_entities r)))]"

text \<open>On a typed record the validator decides its format and its two watermarks.\<close>

definition valid_record :: "ReplicaRecord \<Rightarrow> bool" where
  "valid_record r \<longleftrightarrow> rec_format r = REPLICA_RECORD_FORMAT \<and> rec_position r \<ge> 0 \<and> rec_revision r \<ge> 0"

lemma entity_json_row: "isRowShape (entity_json e)"
  by (simp add: isRowShape_def entity_json_def is_object_def js_prop_def)

lemma isValidReplicaRecord_typed: "isValidReplicaRecord (record_json r) \<longleftrightarrow> valid_record r"
  by (auto simp: isValidReplicaRecord_def record_json_def is_object_def js_prop_def isNonNegativeInteger_def
      valid_record_def list_all_iff entity_json_row)

text \<open>
  The replica store reads back a typed record exactly when its format is the current one and both
  watermarks are non-negative, and reads anything else as absent: a cleared store, a value that is
  not a record, and a record in which a single row has no string id.
\<close>

theorem replica_store_reads_valid_only:
  "replica_store_load (replica_store_save st (record_json r)) =
     (if rec_format r = 1 \<and> 0 \<le> rec_position r \<and> 0 \<le> rec_revision r then Some (record_json r) else None) \<and>
   replica_store_load (replica_store_clear st) = None \<and>
   replica_store_load (replica_store_save st (JObj [(''format'', JNum 1), (''position'', JNum p),
      (''revision'', JNum v), (''entities'', JArr (xs @ JObj ((''id'', JNum n) # row) # ys))])) = None"
  by (simp add: replica_store_load_def replica_store_save_def replica_store_clear_def
      isValidReplicaRecord_typed valid_record_def REPLICA_RECORD_FORMAT_def)
    (simp add: isValidReplicaRecord_def is_object_def js_prop_def isRowShape_def)

end
