(* ===== verification/EntityStore.thy ===== *)
theory EntityStore
  imports Stores
begin

text \<open>
  The in-memory entity store (packages/storage/src/memory/entity-store.memory.ts) and the storage
  adapter that composes it with the action log, the dirty tracker and the other stores
  (memory-adapter.ts). The store caches the rows it materialized; a read replays the log of a dirty
  row first. Rows of this adapter hold plain field values, so \<^verbatim>\<open>copyEntity\<close>, a JSON round trip of a
  JSON row, is the row itself.
\<close>

section \<open>Model of the entity store\<close>

record EntityStoreState =
  es_entities :: "Entity obj"
  es_typeIndex :: "string list obj"
  es_index :: ReverseIndex

definition createMemoryEntityStore :: EntityStoreState where
  "createMemoryEntityStore = \<lparr>es_entities = [], es_typeIndex = [], es_index = []\<rparr>"

text \<open>The guard \<^verbatim>\<open>oldType && oldType !== entity.type\<close> also takes the empty string for absent.\<close>

definition updateTypeIndexOnSet ::
  "string list obj \<Rightarrow> Entity \<Rightarrow> string option \<Rightarrow> string list obj" where
  "updateTypeIndexOnSet typeIndex entity oldType =
     (let t1 = (case oldType of
            None \<Rightarrow> typeIndex
          | Some old \<Rightarrow>
              if old \<noteq> '''' \<and> old \<noteq> ent_type entity
              then obj_set typeIndex old (set_remove (getOr (map_of typeIndex old) []) (ent_id entity))
              else typeIndex);
          t2 = (if map_of t1 (ent_type entity) = None then obj_set t1 (ent_type entity) [] else t1)
      in obj_set t2 (ent_type entity) (set_add (getOr (map_of t2 (ent_type entity)) []) (ent_id entity)))"

definition updateIndex :: "ReverseIndex \<Rightarrow> Entity option \<Rightarrow> Entity option \<Rightarrow> ReverseIndex" where
  "updateIndex index previous next' =
     applyIndexDelta (applyIndexDelta index (reverseIndexDelta previous next')) (forwardIndexDelta previous next')"

definition store_set_at :: "EntityStoreState \<Rightarrow> string \<Rightarrow> Entity \<Rightarrow> EntityStoreState" where
  "store_set_at st entityId entity =
     (let oldEntity = map_of (es_entities st) entityId in
      \<lparr>es_entities = obj_set (es_entities st) entityId entity,
       es_typeIndex = updateTypeIndexOnSet (es_typeIndex st) entity (map_option ent_type oldEntity),
       es_index = updateIndex (es_index st) oldEntity (Some entity)\<rparr>)"

text \<open>The two nested loops of \<^verbatim>\<open>replay\<close> over the Actions of an entity.\<close>

definition replay_row_of :: "ActionLogState \<Rightarrow> string \<Rightarrow> Entity option" where
  "replay_row_of log entityId =
     fold (\<lambda>action entity. fold (\<lambda>update entity.
         if subject_id update \<noteq> entityId then entity
         else applyUpdate False entity update (act_gsn action) (act_hlc action)) (act_updates action) entity)
       (log_getForEntity log entityId) None"

type_synonym cache = "DirtyTrackerState \<times> EntityStoreState"

definition replay :: "ActionLogState \<Rightarrow> string \<Rightarrow> cache \<Rightarrow> cache" where
  "replay log entityId c =
     (case c of (dirty, st) \<Rightarrow>
        if \<not> dirty_isDirty dirty entityId then (dirty, st)
        else if log_getForEntity log entityId = [] then (dirty, st)
        else
          (case replay_row_of log entityId of
             None \<Rightarrow> (dirty, st)
           | Some entity \<Rightarrow> (dirty_clear dirty entityId, store_set_at st entityId entity)))"

definition materializeDirtyType :: "ActionLogState \<Rightarrow> string \<Rightarrow> cache \<Rightarrow> cache" where
  "materializeDirtyType log entityType c = fold (replay log) (dirty_getDirtyForType (fst c) entityType) c"

definition readIndex :: "EntityStoreState \<Rightarrow> string \<Rightarrow> string list" where
  "readIndex st key = liveSourceIds (map_of (es_index st) key)"

definition store_get :: "ActionLogState \<Rightarrow> cache \<Rightarrow> string \<Rightarrow> cache \<times> Entity option" where
  "store_get log c entityId =
     (let c' = replay log entityId c in (c', map_of (es_entities (snd c')) entityId))"

definition store_set :: "EntityStoreState \<Rightarrow> Entity \<Rightarrow> EntityStoreState" where
  "store_set st entity = store_set_at st (ent_id entity) entity"

text \<open>
  \<^verbatim>\<open>copyEntity(undefined)\<close> throws a \<^verbatim>\<open>SyntaxError\<close>: an id of the type index without a row would fail
  the query.
\<close>

definition store_query :: "ActionLogState \<Rightarrow> cache \<Rightarrow> string \<Rightarrow> cache \<times> (js_error + Entity list)" where
  "store_query log c type =
     (let c' = materializeDirtyType log type c;
          ids = getOr (map_of (es_typeIndex (snd c')) type) [];
          rows = map (map_of (es_entities (snd c'))) ids
      in (c', if None \<in> set rows then Inl (SyntaxError ''undefined'') else Inr (map the rows)))"

definition store_queryByRelationship ::
  "ActionLogState \<Rightarrow> cache \<Rightarrow> string \<Rightarrow> string \<Rightarrow> string \<Rightarrow> cache \<times> string list" where
  "store_queryByRelationship log c as' type targetId =
     (let c' = materializeDirtyType log RELATIONSHIP_ENTITY_TYPE c
      in (c', readIndex (snd c') (reverseIndexKey as' type targetId)))"

definition store_queryByRelationshipSource ::
  "(string \<Rightarrow> string \<Rightarrow> int) \<Rightarrow> ActionLogState \<Rightarrow> cache \<Rightarrow> string \<Rightarrow> string \<Rightarrow> string \<Rightarrow>
   cache \<times> RelationshipLink list" where
  "store_queryByRelationshipSource localeCompare log c as' type sourceId =
     (let c' = materializeDirtyType log RELATIONSHIP_ENTITY_TYPE c
      in (c', liveRelationshipLinks localeCompare
                (map_of (es_index (snd c')) (forwardIndexKey as' type sourceId))))"

definition store_queryByMembership :: "ActionLogState \<Rightarrow> cache \<Rightarrow> string \<Rightarrow> cache \<times> string list" where
  "store_queryByMembership log c groupId =
     (let c' = materializeDirtyType log MEMBERSHIP_ENTITY_TYPE c
      in (c', readIndex (snd c') (membershipIndexKey groupId)))"

definition store_queryByMembershipEntity ::
  "(string \<Rightarrow> string \<Rightarrow> int) \<Rightarrow> ActionLogState \<Rightarrow> cache \<Rightarrow> string \<Rightarrow> cache \<times> MembershipLink list" where
  "store_queryByMembershipEntity localeCompare log c entityId =
     (let c' = materializeDirtyType log MEMBERSHIP_ENTITY_TYPE c
      in (c', liveMembershipLinks localeCompare
                (map_of (es_index (snd c')) (forwardMembershipIndexKey entityId))))"

definition store_reset :: "EntityStoreState \<Rightarrow> EntityStoreState" where
  "store_reset st = \<lparr>es_entities = [], es_typeIndex = [], es_index = []\<rparr>"

section \<open>Model of the adapter\<close>

record StorageAdapter =
  ad_log :: ActionLogState
  ad_dirty :: DirtyTrackerState
  ad_store :: EntityStoreState
  ad_cursors :: CursorStoreState
  ad_outbox :: OutboxStoreState
  ad_replica :: ReplicaStoreState

definition createMemoryAdapter :: StorageAdapter where
  "createMemoryAdapter = \<lparr>ad_log = createMemoryActionLog, ad_dirty = createMemoryDirtyTracker,
     ad_store = createMemoryEntityStore, ad_cursors = [], ad_outbox = [], ad_replica = createMemoryReplicaStore\<rparr>"

definition mark_updates :: "DirtyTrackerState \<Rightarrow> Update list \<Rightarrow> DirtyTrackerState" where
  "mark_updates dirty us = fold (\<lambda>u d. dirty_mark d (subject_id u) (subject_type u)) us dirty"

definition adapter_append :: "StorageAdapter \<Rightarrow> Action \<Rightarrow> StorageAdapter \<times> LoggedAction" where
  "adapter_append ad action =
     (let (log, entry) = log_append (ad_log ad) action
      in (ad\<lparr>ad_log := log, ad_dirty := mark_updates (ad_dirty ad) (act_updates action)\<rparr>, entry))"

definition adapter_appendMany :: "StorageAdapter \<Rightarrow> Action list \<Rightarrow> StorageAdapter \<times> LoggedAction list" where
  "adapter_appendMany ad actions =
     (let (log, entries) = log_appendMany (ad_log ad) actions
      in (ad\<lparr>ad_log := log,
             ad_dirty := fold (\<lambda>a d. mark_updates d (act_updates a)) actions (ad_dirty ad)\<rparr>, entries))"

definition adapter_clear :: "StorageAdapter \<Rightarrow> StorageAdapter" where
  "adapter_clear ad = ad\<lparr>ad_log := log_clear (ad_log ad), ad_dirty := dirty_clearAll (ad_dirty ad),
     ad_store := store_reset (ad_store ad), ad_replica := replica_store_clear (ad_replica ad)\<rparr>"

definition adapter_reset :: "StorageAdapter \<Rightarrow> StorageAdapter" where
  "adapter_reset ad = ad\<lparr>ad_log := log_clear (ad_log ad), ad_dirty := dirty_clearAll (ad_dirty ad),
     ad_store := store_reset (ad_store ad), ad_replica := replica_store_clear (ad_replica ad),
     ad_cursors := cursor_clear (ad_cursors ad)\<rparr>"

definition with_cache :: "StorageAdapter \<Rightarrow> cache \<Rightarrow> StorageAdapter" where
  "with_cache ad c = ad\<lparr>ad_dirty := fst c, ad_store := snd c\<rparr>"

definition cache_of :: "StorageAdapter \<Rightarrow> cache" where
  "cache_of ad = (ad_dirty ad, ad_store ad)"

definition adapter_get :: "StorageAdapter \<Rightarrow> string \<Rightarrow> StorageAdapter \<times> Entity option" where
  "adapter_get ad entityId =
     (let (c, r) = store_get (ad_log ad) (cache_of ad) entityId in (with_cache ad c, r))"

definition adapter_query :: "StorageAdapter \<Rightarrow> string \<Rightarrow> StorageAdapter \<times> (js_error + Entity list)" where
  "adapter_query ad type =
     (let (c, r) = store_query (ad_log ad) (cache_of ad) type in (with_cache ad c, r))"

definition adapter_queryByRelationship ::
  "StorageAdapter \<Rightarrow> string \<Rightarrow> string \<Rightarrow> string \<Rightarrow> StorageAdapter \<times> string list" where
  "adapter_queryByRelationship ad as' type targetId =
     (let (c, r) = store_queryByRelationship (ad_log ad) (cache_of ad) as' type targetId in (with_cache ad c, r))"

section \<open>The replayed row\<close>

text \<open>
  What one Action contributes to the row of an entity. The row depends on the log only through the
  gsn of each Action and its contribution, in gsn order.
\<close>

definition contributes :: "string \<Rightarrow> Action \<Rightarrow> int \<times> (hlc \<times> Update) list" where
  "contributes eid a = (act_gsn a, map (\<lambda>u. (act_hlc a, u)) (filter (\<lambda>u. subject_id u = eid) (act_updates a)))"

definition row_step :: "int \<Rightarrow> hlc \<times> Update \<Rightarrow> Entity option \<Rightarrow> Entity option" where
  "row_step g hu row = applyUpdate False row (snd hu) g (fst hu)"

definition row_of :: "(int \<times> (hlc \<times> Update) list) list \<Rightarrow> Entity option" where
  "row_of cs = fold (\<lambda>c row. fold (row_step (fst c)) (snd c) row) (sort_key fst cs) None"

lemma map_insort_key: "map g (insort_key (\<lambda>x. k (g x)) x xs) = insort_key k (g x) (map g xs)"
  by (induction xs) auto

lemma map_sort_key: "map g (sort_key (\<lambda>x. k (g x)) xs) = sort_key k (map g xs)"
  by (induction xs) (simp_all add: map_insort_key)

lemma fold_skip: "(\<And>x s. x \<in> set xs \<Longrightarrow> \<not> P x \<Longrightarrow> f x s = s) \<Longrightarrow> fold f (filter P xs) s = fold f xs s"
  by (induction xs arbitrary: s) auto

lemma fold_if_filter: "fold (\<lambda>x s. if P x then s else f x s) xs s = fold f (filter (\<lambda>x. \<not> P x) xs) s"
  by (induction xs arbitrary: s) auto

lemma row_of_nonempty: "row_of (filter (\<lambda>c. snd c \<noteq> []) cs) = row_of cs"
  unfolding row_of_def filter_sort [symmetric] by (rule fold_skip) simp

lemma replay_row_of_contributes:
  "replay_row_of log eid = row_of (map (contributes eid) (log_actions log))"
proof -
  let ?mine = "\<lambda>a. \<exists>u \<in> set (act_updates a). subject_id u = eid"
  have mine: "?mine = (\<lambda>a. snd (contributes eid a) \<noteq> [])"
    by (auto simp: contributes_def filter_empty_conv fun_eq_iff)
  have inner: "fold (\<lambda>u row. if subject_id u \<noteq> eid then row
        else applyUpdate False row u (act_gsn a) (act_hlc a)) (act_updates a) row =
      fold (row_step (fst (contributes eid a))) (snd (contributes eid a)) row" for a row
    unfolding fold_if_filter contributes_def by (simp add: fold_map comp_def row_step_def [abs_def])
  have "replay_row_of log eid =
      fold (\<lambda>c row. fold (row_step (fst c)) (snd c) row) (map (contributes eid) (log_getForEntity log eid)) None"
    unfolding replay_row_of_def inner by (simp add: fold_map comp_def)
  also have "map (contributes eid) (log_getForEntity log eid) =
      sort_key fst (map (contributes eid) (filter ?mine (log_actions log)))"
    unfolding log_getForEntity_def map_sort_key [symmetric] by (simp add: contributes_def)
  also have "map (contributes eid) (filter ?mine (log_actions log)) =
      filter (\<lambda>c. snd c \<noteq> []) (map (contributes eid) (log_actions log))"
    unfolding mine by (simp add: filter_map comp_def)
  finally show ?thesis using row_of_nonempty by (simp add: row_of_def)
qed

text \<open>
  The row of an entity does not depend on the order in which its Actions reached the log: two
  logs that hold the same Actions, with distinct gsns, replay to the same row.
\<close>

theorem replay_order_independent:
  assumes "mset (log_getAll log) = mset (log_getAll log')" "distinct (map act_gsn (log_getAll log))"
  shows "replay_row_of log eid = replay_row_of log' eid"
proof -
  have inj: "inj_on act_gsn (set (log_actions log))"
    using assms(2) by (simp add: log_getAll_def distinct_map)
  have "sort_key act_gsn (log_actions log) = sort_key act_gsn (log_actions log')"
    using assms(1) by (intro sort_key_inj_key_eq) (simp_all add: log_getAll_def inj)
  moreover have "sort_key fst (map (contributes eid) as) = map (contributes eid) (sort_key act_gsn as)" for as
    unfolding map_sort_key [symmetric] by (simp add: contributes_def)
  ultimately show ?thesis by (simp add: replay_row_of_contributes row_of_def)
qed

theorem replay_order_independent_witness:
  "replay_row_of \<lparr>log_actions = [(sample_action ''a_1'' [])\<lparr>act_gsn := 2\<rparr>, sample_action ''a_2'' []], log_typeIndex = []\<rparr> ''t_1'' =
   replay_row_of \<lparr>log_actions = [sample_action ''a_2'' [], (sample_action ''a_1'' [])\<lparr>act_gsn := 2\<rparr>], log_typeIndex = []\<rparr> ''t_1''"
  by (rule replay_order_independent) (simp_all add: log_getAll_def sample_action_def)

lemma fold_row_step_None:
  "fold (row_step g) hus row = None \<longleftrightarrow> row = None \<and> (\<forall>hu \<in> set hus. upd_method (snd hu) \<noteq> Put)"
  by (induction hus arbitrary: row) (auto simp: row_step_def applyUpdate_None)

text \<open>A row exists exactly when the log has a \<^verbatim>\<open>put\<close> of the entity.\<close>

definition has_put :: "ActionLogState \<Rightarrow> string \<Rightarrow> bool" where
  "has_put log eid \<longleftrightarrow> (\<exists>a \<in> set (log_actions log). \<exists>u \<in> set (act_updates a).
     subject_id u = eid \<and> upd_method u = Put)"

lemma replay_row_Some: "replay_row_of log eid \<noteq> None \<longleftrightarrow> has_put log eid"
proof -
  have "fold (\<lambda>c row. fold (row_step (fst c)) (snd c) row) cs row = None \<longleftrightarrow>
      row = None \<and> (\<forall>c \<in> set cs. \<forall>hu \<in> set (snd c). upd_method (snd hu) \<noteq> Put)" for cs row
    by (induction cs arbitrary: row) (auto simp: fold_row_step_None)
  from this [of "sort_key fst (map (contributes eid) (log_actions log))" None] show ?thesis
    by (auto simp: replay_row_of_contributes row_of_def contributes_def has_put_def)
qed

lemma fold_invariant:
  "P s \<Longrightarrow> (\<And>x s. x \<in> set xs \<Longrightarrow> P s \<Longrightarrow> P (f x s)) \<Longrightarrow> P (fold f xs s)"
  by (induction xs arbitrary: s) auto

lemma replay_row_for:
  assumes "\<forall>a \<in> set (log_actions log). \<forall>u \<in> set (act_updates a). typed_update tyof u"
    "replay_row_of log eid = Some e"
  shows "row_for tyof eid e"
proof -
  let ?P = "\<lambda>row. \<forall>r. row = Some r \<longrightarrow> row_for tyof eid r"
  have step: "?P (row_step g hu row)"
    if "?P row" "typed_update tyof (snd hu)" "subject_id (snd hu) = eid" for g hu row
    using that applyUpdate_row_for [of False row "snd hu" g "fst hu"] by (auto simp: row_step_def)
  have "?P (row_of (map (contributes eid) (log_actions log)))"
    unfolding row_of_def
  proof (rule fold_invariant)
    fix c row
    assume "c \<in> set (sort_key fst (map (contributes eid) (log_actions log)))" "?P row"
    with assms(1) show "?P (fold (row_step (fst c)) (snd c) row)"
      by (intro fold_invariant [where P = ?P] step) (auto simp: contributes_def)
  qed simp
  with assms(2) show ?thesis by (simp add: replay_row_of_contributes)
qed

section \<open>Writes keep the store consistent\<close>

text \<open>Both directions share one index map: a cell is what the row contributes to either.\<close>

definition both :: "Entity option \<Rightarrow> string \<Rightarrow> string option" where
  "both v k = (case reverse.contrib v k of Some x \<Rightarrow> Some x | None \<Rightarrow> forward.contrib v k)"

lemma reverse_key_start:
  "clean_row e \<Longrightarrow> reverse.contrib (Some e) k \<noteq> None \<Longrightarrow> hd k \<noteq> CHR 0x01"
proof -
  assume "clean_row e" "reverse.contrib (Some e) k \<noteq> None"
  then obtain v where v: "reverse.contrib (Some e) k = Some v" and c: "clean_row e" by auto
  from v consider f t tgt where "links e f t v tgt" "k = reverseIndexKey f t tgt"
    | grp where "k = membershipIndexKey grp"
    by (auto simp: reverse_contrib)
  then show ?thesis
  proof cases
    case 1
    then have "clean f" using c by (simp add: links_def clean_row_def)
    with 1 show ?thesis by (cases f) (auto simp: reverseIndexKey_def clean_def NUL_def)
  next
    case 2
    then show ?thesis by (simp add: membershipIndexKey_def reverseIndexKey_def MEMBERSHIP_ACCESSOR_def)
  qed
qed

lemma forward_key_start: "forward.contrib (Some e) k \<noteq> None \<Longrightarrow> hd k = CHR 0x01"
  by (auto simp: forward_contrib forwardIndexKey_def forwardMembershipIndexKey_def)

lemma directions_disjoint:
  "(\<And>e. v = Some e \<Longrightarrow> clean_row e) \<Longrightarrow> reverse.contrib v k \<noteq> None \<Longrightarrow> forward.contrib w k = None"
  using reverse_key_start forward_key_start contrib_None by (metis option.exhaust)

lemma updateIndex_cells:
  assumes cells: "\<And>k. cell index k r = both prev k"
    and rows: "\<And>e. prev = Some e \<or> nxt = Some e \<Longrightarrow> ent_id e = r \<and> clean_row e"
  shows "cell (updateIndex index prev nxt) k x = (if x = r then both nxt k else cell index k x)"
proof -
  let ?one = "applyIndexDelta index (reverseIndexDelta prev nxt)"
  have one: "cell ?one k x = (if x \<noteq> r then cell index k x
      else if reverse.contrib nxt k \<noteq> None then reverse.contrib nxt k
      else if reverse.contrib prev k \<noteq> None then None else cell index k x)" for k x
    unfolding reverseIndexDelta_def using rows cells
    by (intro reverse.delta_cell) (auto simp: both_def split: option.splits)
  have dis: "reverse.contrib v k = None \<or> forward.contrib w k = None" if "v = prev \<or> v = nxt" for v w k
  proof -
    have "clean_row e" if "v = Some e" for e using that \<open>v = prev \<or> v = nxt\<close> rows by metis
    then show ?thesis using directions_disjoint [of v k w] by metis
  qed
  have "cell (updateIndex index prev nxt) k x = (if x \<noteq> r then cell ?one k x
      else if forward.contrib nxt k \<noteq> None then forward.contrib nxt k
      else if forward.contrib prev k \<noteq> None then None else cell ?one k x)"
    unfolding updateIndex_def forwardIndexDelta_def
  proof (intro forward.delta_cell)
    fix k assume fp: "forward.contrib prev k \<noteq> None"
    then have "reverse.contrib nxt k = None" "reverse.contrib prev k = None"
      using dis [of nxt k prev] dis [of prev k prev] by auto
    then show "cell ?one k r = forward.contrib prev k"
      by (simp add: one cells both_def)
  qed (use rows in auto)
  then show ?thesis
    using one [of k x] cells [of k] dis [of nxt k nxt] dis [of prev k nxt] dis [of prev k prev]
      dis [of nxt k prev]
    by (cases "reverse.contrib nxt k"; cases "reverse.contrib prev k"; cases "x = r")
      (auto simp: both_def)
qed

definition store_ok :: "(string \<Rightarrow> string) \<Rightarrow> EntityStoreState \<Rightarrow> bool" where
  "store_ok tyof st \<longleftrightarrow> obj_ok (es_entities st) \<and> index_ok (es_index st) \<and>
     (\<forall>eid e. map_of (es_entities st) eid = Some e \<longrightarrow> row_for tyof eid e) \<and>
     (\<forall>t. distinct (getOr (map_of (es_typeIndex st) t) []) \<and>
        set (getOr (map_of (es_typeIndex st) t) []) =
          {eid. map_option ent_type (map_of (es_entities st) eid) = Some t}) \<and>
     (\<forall>k r. cell (es_index st) k r = both (map_of (es_entities st) r) k)"

lemma updateTypeIndexOnSet_get:
  assumes "old = None \<or> old = Some (ent_type e)"
  shows "getOr (map_of (updateTypeIndexOnSet ti e old) t) [] =
    (if t = ent_type e then set_add (getOr (map_of ti t) []) (ent_id e) else getOr (map_of ti t) [])"
  using assms by (auto simp: updateTypeIndexOnSet_def Let_def obj_set_get split: option.splits)

lemma store_set_at_ok:
  assumes "store_ok tyof st" "row_for tyof eid e"
  shows "store_ok tyof (store_set_at st eid e)"
proof -
  have old: "map_option ent_type (map_of (es_entities st) eid) = None \<or>
      map_option ent_type (map_of (es_entities st) eid) = Some (ent_type e)"
    using assms by (cases "map_of (es_entities st) eid") (auto simp: store_ok_def row_for_def)
  have id: "ent_id e = eid" using assms(2) by (simp add: row_for_def)
  have cells: "cell (updateIndex (es_index st) (map_of (es_entities st) eid) (Some e)) k r =
      both (map_of (es_entities (store_set_at st eid e)) r) k" for k r
    using assms
    by (subst updateIndex_cells [where r = eid])
      (auto simp: store_ok_def row_for_def store_set_at_def Let_def obj_set_get)
  have "index_ok (updateIndex (es_index st) (map_of (es_entities st) eid) (Some e))"
    using assms(1) by (simp add: store_ok_def updateIndex_def applyIndexDelta_ok)
  with assms cells old show ?thesis
    unfolding store_ok_def
    by (auto simp: store_set_at_def Let_def obj_set_get updateTypeIndexOnSet_get id js_simps
        intro: set_add_distinct)
qed

section \<open>The cache follows the log\<close>

definition log_typed :: "(string \<Rightarrow> string) \<Rightarrow> ActionLogState \<Rightarrow> bool" where
  "log_typed tyof log \<longleftrightarrow> (\<forall>a \<in> set (log_actions log). \<forall>u \<in> set (act_updates a). typed_update tyof u)"

text \<open>A clean row is cached as the log replays it; a dirty one may be behind, but never ahead.\<close>

definition cache_inv :: "(string \<Rightarrow> string) \<Rightarrow> ActionLogState \<Rightarrow> cache \<Rightarrow> bool" where
  "cache_inv tyof log c \<longleftrightarrow> dirty_ok (fst c) \<and> store_ok tyof (snd c) \<and>
     (\<forall>i t. dirty_type (fst c) i = Some t \<longrightarrow> t = tyof i \<and> t \<noteq> []) \<and>
     (\<forall>i. dirty_type (fst c) i = None \<longrightarrow> map_of (es_entities (snd c)) i = replay_row_of log i) \<and>
     (\<forall>i. replay_row_of log i = None \<longrightarrow> map_of (es_entities (snd c)) i = None)"

lemma no_actions_no_row: "log_getForEntity log i = [] \<Longrightarrow> replay_row_of log i = None"
  by (simp add: replay_row_of_def)

lemma replay_inv:
  assumes "log_typed tyof log" "cache_inv tyof log c"
  shows "cache_inv tyof log (replay log eid c)"
    "map_of (es_entities (snd (replay log eid c))) eid = replay_row_of log eid"
    "i \<noteq> eid \<Longrightarrow> map_of (es_entities (snd (replay log eid c))) i = map_of (es_entities (snd c)) i"
proof -
  obtain d st where c: "c = (d, st)" by (cases c)
  have d_ok: "dirty_ok d" and inv: "store_ok tyof st"
    "\<And>t. dirty_type d eid = Some t \<Longrightarrow> t \<noteq> []"
    "dirty_type d eid = None \<Longrightarrow> map_of (es_entities st) eid = replay_row_of log eid"
    "replay_row_of log eid = None \<Longrightarrow> map_of (es_entities st) eid = None"
    using assms(2) by (simp_all add: c cache_inv_def)
  consider (same) "replay log eid c = c" "map_of (es_entities st) eid = replay_row_of log eid"
    | (fresh) e where "replay_row_of log eid = Some e" "dirty_type d eid \<noteq> None"
      "replay log eid c = (dirty_clear d eid, store_set_at st eid e)"
    using inv(3,4) no_actions_no_row [of log eid]
    by (cases "dirty_type d eid"; cases "replay_row_of log eid"; cases "log_getForEntity log eid = []")
      (auto simp: replay_def c dirty.isDirty_iff [OF d_ok])
  then have "cache_inv tyof log (replay log eid c) \<and>
      map_of (es_entities (snd (replay log eid c))) eid = replay_row_of log eid \<and>
      (i \<noteq> eid \<longrightarrow> map_of (es_entities (snd (replay log eid c))) i = map_of (es_entities (snd c)) i)"
  proof cases
    case same
    with assms(2) show ?thesis by (simp add: c)
  next
    case fresh
    have "row_for tyof eid e" using assms(1) fresh(1) by (auto simp: log_typed_def intro: replay_row_for)
    then have "store_ok tyof (store_set_at st eid e)" using inv(1) by (rule store_set_at_ok [rotated])
    moreover have "dirty_type (dirty_clear d eid) = (dirty_type d)(eid := None)"
      using inv(2) fresh(2) by (auto simp: dirty_clear_type)
    ultimately show ?thesis
      using assms(2) fresh d_ok
      by (auto simp: c cache_inv_def dirty_clear_ok store_set_at_def Let_def obj_set_get)
  qed
  then show "cache_inv tyof log (replay log eid c)"
    "map_of (es_entities (snd (replay log eid c))) eid = replay_row_of log eid"
    "i \<noteq> eid \<Longrightarrow> map_of (es_entities (snd (replay log eid c))) i = map_of (es_entities (snd c)) i"
    by simp_all
qed

lemma replay_many_inv:
  assumes "log_typed tyof log" "cache_inv tyof log c"
  shows "cache_inv tyof log (fold (replay log) ids c) \<and>
    (\<forall>i. i \<in> set ids \<or> map_of (es_entities (snd c)) i = replay_row_of log i \<longrightarrow>
       map_of (es_entities (snd (fold (replay log) ids c))) i = replay_row_of log i)"
  using assms(2)
proof (induction ids arbitrary: c)
  case Nil
  then show ?case by simp
next
  case (Cons j ids)
  note step = replay_inv [OF assms(1) Cons.prems, where eid = j]
  have "map_of (es_entities (snd (replay log j c))) i = replay_row_of log i"
    if "i = j \<or> map_of (es_entities (snd c)) i = replay_row_of log i" for i
    using that step(2) step(3) [where i = i] by (cases "i = j") auto
  with Cons.IH [OF step(1)] show ?case by auto
qed

lemma materialize_inv:
  assumes "log_typed tyof log" "cache_inv tyof log c"
  shows "cache_inv tyof log (materializeDirtyType log t c)"
    "tyof i = t \<Longrightarrow> map_of (es_entities (snd (materializeDirtyType log t c))) i = replay_row_of log i"
proof -
  note many = replay_many_inv [OF assms, of "dirty_getDirtyForType (fst c) t"]
  then show "cache_inv tyof log (materializeDirtyType log t c)" by (simp add: materializeDirtyType_def)
  assume "tyof i = t"
  then have "i \<in> set (dirty_getDirtyForType (fst c) t) \<or> map_of (es_entities (snd c)) i = replay_row_of log i"
    using assms(2) by (cases "dirty_type (fst c) i") (auto simp: cache_inv_def dirty.dirtyFor_set)
  with many show "map_of (es_entities (snd (materializeDirtyType log t c))) i = replay_row_of log i"
    unfolding materializeDirtyType_def by blast
qed

section \<open>Deliveries\<close>

text \<open>
  The deliveries the reads are proved for: an Action has one Update per Update id, the copies of an
  Update agree (\<open>content\<close> fixes what an id stands for), every Update carries the non-empty type of its
  subject and clean accessor names.
\<close>

definition workload :: "(string \<Rightarrow> string) \<Rightarrow> (string \<Rightarrow> string \<Rightarrow> Update) \<Rightarrow> Action \<Rightarrow> bool" where
  "workload tyof content a \<longleftrightarrow> ids_ok (act_updates a) \<and>
     (\<forall>u \<in> set (act_updates a). content (act_id a) (upd_id u) = u \<and> typed_update tyof u \<and>
        subject_type u \<noteq> [])"

lemma append_shape:
  assumes "log_ok log" "\<forall>b \<in> set (log_actions log). workload tyof content b" "workload tyof content a"
  obtains "log_actions (fst (log_append log a)) = log_actions log @ [a]"
  | i new where "i < length (log_actions log)" "set new \<subseteq> set (act_updates a)"
    "act_id (log_actions log ! i) = act_id a"
    "log_actions (fst (log_append log a)) = (log_actions log)[i := (log_actions log ! i)
       \<lparr>act_updates := act_updates (log_actions log ! i) @ new\<rparr>]"
proof (cases "act_id a \<in> set (log_order log)")
  case False
  then show ?thesis using that(1) log_append_new [of a log] by simp
next
  case True
  then obtain i stored where i: "i < length (log_actions log)" "act_id (log_actions log ! i) = act_id a"
    and stored: "stored = (log_actions log ! i)\<lparr>act_updates :=
       mergeActionUpdates (act_updates (log_actions log ! i)) (act_updates a)\<rparr>"
    and app: "fst (log_append log a) = \<lparr>log_actions = (log_actions log)[i := stored],
        log_typeIndex = updateTypeIndex (log_typeIndex log) stored\<rparr>"
    using log_append_old [OF assms(1) True] by (metis fst_conv)
  let ?b = "log_actions log ! i"
  have w: "workload tyof content ?b" using assms(2) i(1) by simp
  then obtain new where "mergeActionUpdates (act_updates ?b) (act_updates a) = act_updates ?b @ new"
    "set new \<subseteq> set (act_updates a)"
    using mergeActionUpdates_extends [of "act_updates ?b" "act_updates a"] assms(3) i(2)
    unfolding workload_def by metis
  then show ?thesis using that(2) i app stored by simp
qed

lemma append_log:
  assumes "log_ok log" "\<forall>b \<in> set (log_actions log). workload tyof content b" "workload tyof content a"
  shows "log_ok (fst (log_append log a))"
    "\<forall>b \<in> set (log_actions (fst (log_append log a))). workload tyof content b"
    "has_put log i \<Longrightarrow> has_put (fst (log_append log a)) i"
    "i \<notin> subject_id ` set (act_updates a) \<Longrightarrow> replay_row_of (fst (log_append log a)) i = replay_row_of log i"
proof -
  let ?log' = "fst (log_append log a)"
  show ok: "log_ok ?log'"
    using log_append_spec [OF assms(1)] assms(3) by (simp add: append_spec_def workload_def)
  have "(\<forall>b \<in> set (log_actions ?log'). workload tyof content b) \<and>
    (has_put log i \<longrightarrow> has_put ?log' i) \<and>
    (i \<notin> subject_id ` set (act_updates a) \<longrightarrow> replay_row_of ?log' i = replay_row_of log i)"
    using assms
  proof (rule append_shape)
    assume new: "log_actions ?log' = log_actions log @ [a]"
    have "replay_row_of ?log' i = replay_row_of log i" if "i \<notin> subject_id ` set (act_updates a)"
    proof -
      have "snd (contributes i a) = []" using that by (auto simp: contributes_def filter_empty_conv)
      then show ?thesis
        unfolding replay_row_of_contributes new
        using row_of_nonempty [of "map (contributes i) (log_actions log @ [a])"]
          row_of_nonempty [of "map (contributes i) (log_actions log)"] by simp
    qed
    with new assms(2,3) show ?thesis by (auto simp: has_put_def)
  next
    fix j new
    let ?b = "log_actions log ! j"
    let ?b' = "?b\<lparr>act_updates := act_updates ?b @ new\<rparr>"
    assume j: "j < length (log_actions log)" and new: "set new \<subseteq> set (act_updates a)"
      and id: "act_id ?b = act_id a" and upd: "log_actions ?log' = (log_actions log)[j := ?b']"
    have "?b' \<in> set (log_actions ?log')" using j upd by (simp add: set_update_memI)
    then have "ids_ok (act_updates ?b')" using ok by (auto simp: log_ok_def)
    moreover have "workload tyof content ?b" using assms(2) j by simp
    ultimately have w: "workload tyof content ?b'"
      using assms(3) new id by (auto simp: workload_def)
    have "has_put ?log' i" if put: "has_put log i"
    proof -
      obtain k u where k: "k < length (log_actions log)" "u \<in> set (act_updates (log_actions log ! k))"
        "subject_id u = i" "upd_method u = Put"
        using put unfolding has_put_def by (metis in_set_conv_nth)
      then have "u \<in> set (act_updates (log_actions ?log' ! k))" "k < length (log_actions ?log')"
        unfolding upd using j by (cases "k = j"; simp)+
      with k(3,4) show ?thesis
        unfolding has_put_def by (intro bexI [of _ "log_actions ?log' ! k"] bexI [of _ u]) auto
    qed
    moreover have "replay_row_of ?log' i = replay_row_of log i" if "i \<notin> subject_id ` set (act_updates a)"
    proof -
      have "filter (\<lambda>u. subject_id u = i) new = []" using that new by (auto simp: filter_empty_conv)
      then have "contributes i ?b' = contributes i ?b" by (simp add: contributes_def)
      then have "map (contributes i) (log_actions ?log') = map (contributes i) (log_actions log)"
        unfolding upd map_update using j by (metis list_update_id nth_map)
      then show ?thesis by (simp add: replay_row_of_contributes)
    qed
    moreover have "\<forall>b \<in> set (log_actions ?log'). workload tyof content b"
      using assms(2) w upd set_update_subset_insert [of "log_actions log" j ?b'] by auto
    ultimately show ?thesis by blast
  qed
  then show "\<forall>b \<in> set (log_actions ?log'). workload tyof content b"
    "has_put log i \<Longrightarrow> has_put ?log' i"
    "i \<notin> subject_id ` set (act_updates a) \<Longrightarrow> replay_row_of ?log' i = replay_row_of log i"
    by simp_all
qed

section \<open>Runs of the adapter\<close>

datatype adapter_op =
    AppendOp Action
  | AppendManyOp "Action list"
  | GetOp string
  | QueryOp string
  | QueryByRelationshipOp string string string
  | ClearOp
  | ResetOp

definition adapter_step :: "adapter_op \<Rightarrow> StorageAdapter \<Rightarrow> StorageAdapter" where
  "adapter_step op ad = (case op of
     AppendOp a \<Rightarrow> fst (adapter_append ad a)
   | AppendManyOp as \<Rightarrow> fst (adapter_appendMany ad as)
   | GetOp i \<Rightarrow> fst (adapter_get ad i)
   | QueryOp t \<Rightarrow> fst (adapter_query ad t)
   | QueryByRelationshipOp f t i \<Rightarrow> fst (adapter_queryByRelationship ad f t i)
   | ClearOp \<Rightarrow> adapter_clear ad
   | ResetOp \<Rightarrow> adapter_reset ad)"

definition op_ok :: "(string \<Rightarrow> string) \<Rightarrow> (string \<Rightarrow> string \<Rightarrow> Update) \<Rightarrow> adapter_op \<Rightarrow> bool" where
  "op_ok tyof content op = (case op of
     AppendOp a \<Rightarrow> workload tyof content a
   | AppendManyOp as \<Rightarrow> list_all (workload tyof content) as
   | _ \<Rightarrow> True)"

definition adapter_inv ::
  "(string \<Rightarrow> string) \<Rightarrow> (string \<Rightarrow> string \<Rightarrow> Update) \<Rightarrow> StorageAdapter \<Rightarrow> bool" where
  "adapter_inv tyof content ad \<longleftrightarrow> log_ok (ad_log ad) \<and>
     (\<forall>a \<in> set (log_actions (ad_log ad)). workload tyof content a) \<and>
     cache_inv tyof (ad_log ad) (cache_of ad)"

lemma adapter_inv_log_typed: "adapter_inv tyof content ad \<Longrightarrow> log_typed tyof (ad_log ad)"
  by (auto simp: adapter_inv_def log_typed_def workload_def)

lemma mark_updates_mark_all:
  "mark_updates d us = dirty.mark_all d (map (\<lambda>u. (subject_id u, subject_type u)) us)"
  by (simp add: mark_updates_def dirty.mark_all_def fold_map comp_def)

lemma map_of_subjects:
  "map_of (map (\<lambda>u. (subject_id u, subject_type u)) us) i = None \<longleftrightarrow> i \<notin> subject_id ` set us"
  "map_of (map (\<lambda>u. (subject_id u, subject_type u)) us) i = Some t \<Longrightarrow>
     \<exists>u \<in> set us. subject_id u = i \<and> subject_type u = t"
  by (auto simp: map_of_eq_None_iff image_comp comp_def dest!: map_of_SomeD)

lemma append_inv:
  assumes "log_ok log" "\<forall>b \<in> set (log_actions log). workload tyof content b" "workload tyof content a"
    "cache_inv tyof log (d, st)"
  shows "cache_inv tyof (fst (log_append log a)) (mark_updates d (act_updates a), st)"
proof -
  note logl = append_log [OF assms(1-3)]
  have d: "dirty_ok d" using assms(4) by (simp add: cache_inv_def)
  let ?d' = "mark_updates d (act_updates a)"
  have dt: "dirty_type ?d' i = (case dirty_type d i of Some t \<Rightarrow> Some t
      | None \<Rightarrow> map_of (map (\<lambda>u. (subject_id u, subject_type u)) (act_updates a)) i)" for i
    unfolding mark_updates_mark_all by (rule dirty.mark_all_dirty [OF d])
  have "t = tyof i \<and> t \<noteq> []" if "dirty_type ?d' i = Some t" for i t
  proof (cases "dirty_type d i")
    case None
    with that dt [of i]
    have "map_of (map (\<lambda>u. (subject_id u, subject_type u)) (act_updates a)) i = Some t" by simp
    from map_of_subjects(2) [OF this] obtain u where
      "u \<in> set (act_updates a)" "subject_id u = i" "subject_type u = t" by blast
    with assms(3) show ?thesis by (auto simp: workload_def typed_update_def)
  next
    case (Some t')
    with that dt [of i] assms(4) show ?thesis by (auto simp: cache_inv_def)
  qed
  moreover have "map_of (es_entities st) i = replay_row_of (fst (log_append log a)) i"
    if "dirty_type ?d' i = None" for i
    using that dt [of i] map_of_subjects(1) [of "act_updates a" i] logl(4) [of i] assms(4)
    by (auto simp: cache_inv_def split: option.splits)
  moreover have "map_of (es_entities st) i = None" if "replay_row_of (fst (log_append log a)) i = None" for i
  proof -
    have "replay_row_of log i = None"
      using that logl(3) [of i] replay_row_Some [of log i] replay_row_Some [of "fst (log_append log a)" i]
      by blast
    then show ?thesis using assms(4) by (simp add: cache_inv_def)
  qed
  moreover have "dirty_ok ?d'" unfolding mark_updates_mark_all using d by (rule dirty.mark_all_ok)
  ultimately show ?thesis using assms(4) by (simp add: cache_inv_def)
qed

lemma adapter_append_inv:
  assumes "adapter_inv tyof content ad" "workload tyof content a"
  shows "adapter_inv tyof content (fst (adapter_append ad a))"
  using assms append_log(1,2) [of "ad_log ad" tyof content a]
    append_inv [of "ad_log ad" tyof content a "ad_dirty ad" "ad_store ad"]
  by (auto simp: adapter_inv_def adapter_append_def cache_of_def case_prod_beta Let_def)

lemma appendMany_as_appends:
  "fst (adapter_appendMany ad as) = fold (\<lambda>a ad. fst (adapter_append ad a)) as ad"
proof (induction as arbitrary: ad)
  case Nil
  then show ?case by (simp add: adapter_appendMany_def)
next
  case (Cons a as)
  have "fst (adapter_appendMany ad (a # as)) = fst (adapter_appendMany (fst (adapter_append ad a)) as)"
    by (simp add: adapter_appendMany_def adapter_append_def case_prod_beta Let_def)
  with Cons show ?case by simp
qed

lemma empty_cache_inv: "cache_inv tyof \<lparr>log_actions = [], log_typeIndex = []\<rparr>
    (\<lparr>dt_entities = [], dt_typeIndex = []\<rparr>, \<lparr>es_entities = [], es_typeIndex = [], es_index = []\<rparr>)"
  by (simp add: cache_inv_def dirty_ok_def store_ok_def dirty_type_def replay_row_of_def log_getForEntity_def
      obj_ok_Nil index_ok_def cell_def both_def)

lemma adapter_step_inv:
  assumes "adapter_inv tyof content ad" "op_ok tyof content op"
  shows "adapter_inv tyof content (adapter_step op ad)"
proof -
  note typed = adapter_inv_log_typed [OF assms(1)]
  have cache: "cache_inv tyof (ad_log ad) (cache_of ad)" using assms(1) by (simp add: adapter_inv_def)
  have upd: "adapter_inv tyof content (with_cache ad c)" if "cache_inv tyof (ad_log ad) c" for c
    using assms(1) that by (simp add: adapter_inv_def with_cache_def cache_of_def)
  have empty: "adapter_inv tyof content ad'" if "ad_log ad' = \<lparr>log_actions = [], log_typeIndex = []\<rparr>"
    "ad_dirty ad' = \<lparr>dt_entities = [], dt_typeIndex = []\<rparr>"
    "ad_store ad' = \<lparr>es_entities = [], es_typeIndex = [], es_index = []\<rparr>" for ad'
    using empty_cache_inv [of tyof]
    by (simp add: adapter_inv_def that cache_of_def log_ok_def obj_ok_Nil)
  show ?thesis
  proof (cases op)
    case (AppendOp a)
    with assms show ?thesis by (simp add: adapter_step_def op_ok_def adapter_append_inv)
  next
    case (AppendManyOp as)
    with assms show ?thesis
      by (auto simp: adapter_step_def appendMany_as_appends op_ok_def list_all_iff
          intro!: fold_invariant [where P = "adapter_inv tyof content"] adapter_append_inv)
  next
    case (GetOp i)
    with upd [OF replay_inv(1) [OF typed cache]] show ?thesis
      by (simp add: adapter_step_def adapter_get_def store_get_def Let_def)
  next
    case (QueryOp t)
    with upd [OF materialize_inv(1) [OF typed cache]] show ?thesis
      by (simp add: adapter_step_def adapter_query_def store_query_def Let_def)
  next
    case (QueryByRelationshipOp f t i)
    with upd [OF materialize_inv(1) [OF typed cache]] show ?thesis
      by (simp add: adapter_step_def adapter_queryByRelationship_def store_queryByRelationship_def Let_def)
  next
    case ClearOp
    then show ?thesis
      by (auto simp: adapter_step_def adapter_clear_def log_clear_def dirty_clearAll_def store_reset_def
          intro: empty)
  next
    case ResetOp
    then show ?thesis
      by (auto simp: adapter_step_def adapter_reset_def log_clear_def dirty_clearAll_def store_reset_def
          intro: empty)
  qed
qed

lemma adapter_run_inv:
  assumes "list_all (op_ok tyof content) ops"
  shows "adapter_inv tyof content (fold adapter_step ops createMemoryAdapter)"
proof (rule fold_invariant)
  show "adapter_inv tyof content createMemoryAdapter"
    using empty_cache_inv [of tyof] empty_log_ok
    by (simp add: adapter_inv_def createMemoryAdapter_def cache_of_def createMemoryActionLog_def
        createMemoryDirtyTracker_def createMemoryEntityStore_def)
qed (use assms adapter_step_inv in \<open>auto simp: list_all_iff\<close>)

section \<open>Reads\<close>

lemma query_rows:
  assumes "log_typed tyof log" "cache_inv tyof log c"
  obtains rows where "snd (store_query log c t) = Inr rows" "distinct (map ent_id rows)"
    "set rows = {e. \<exists>i. replay_row_of log i = Some e \<and> ent_type e = t}"
proof -
  let ?c = "materializeDirtyType log t c"
  let ?ids = "getOr (map_of (es_typeIndex (snd ?c)) t) []"
  let ?row = "map_of (es_entities (snd ?c))"
  have ok: "store_ok tyof (snd ?c)"
    using materialize_inv(1) [OF assms] by (simp add: cache_inv_def)
  then have ids: "distinct ?ids" "set ?ids = {i. map_option ent_type (?row i) = Some t}"
    and rowfor: "\<And>i e. ?row i = Some e \<Longrightarrow> row_for tyof i e"
    by (simp_all add: store_ok_def)
  have same: "?row i = replay_row_of log i" if "tyof i = t" for i
    by (rule materialize_inv(2) [OF assms that])
  have typed: "tyof i = t" if "replay_row_of log i = Some e" "ent_type e = t" for i e
    using replay_row_for that assms(1) by (auto simp: log_typed_def row_for_def)
  have none: "None \<notin> set (map ?row ?ids)" using ids(2) by auto
  have the: "?row i = Some (the (?row i)) \<and> ent_id (the (?row i)) = i" if "i \<in> set ?ids" for i
  proof -
    from that obtain e where "?row i = Some e" unfolding ids(2) by auto
    with rowfor show ?thesis by (simp add: row_for_def)
  qed
  let ?rows = "map (\<lambda>i. the (?row i)) ?ids"
  have res: "snd (store_query log c t) = Inr ?rows"
    using none by (simp add: store_query_def Let_def comp_def)
  have rids: "map ent_id ?rows = ?ids"
    using the by (simp add: comp_def map_idI)
  have mem: "e \<in> set ?rows \<longleftrightarrow> (\<exists>i. replay_row_of log i = Some e \<and> ent_type e = t)" for e
  proof
    assume "e \<in> set ?rows"
    then obtain i where i: "i \<in> set ?ids" "e = the (?row i)" by auto
    with the have e: "?row i = Some e" by simp
    have "map_option ent_type (?row i) = Some t" using i(1) unfolding ids(2) by simp
    with e rowfor [OF e] have "ent_type e = t" "tyof i = t" by (simp_all add: row_for_def)
    with same e show "\<exists>i. replay_row_of log i = Some e \<and> ent_type e = t" by metis
  next
    assume "\<exists>i. replay_row_of log i = Some e \<and> ent_type e = t"
    then obtain i where i: "?row i = Some e" "ent_type e = t" using typed same by metis
    then have "i \<in> set ?ids" "e = the (?row i)" using ids(2) by auto
    then show "e \<in> set ?rows" by auto
  qed
  show thesis
  proof (rule that [OF res])
    show "distinct (map ent_id ?rows)" unfolding rids by (rule ids(1))
    show "set ?rows = {e. \<exists>i. replay_row_of log i = Some e \<and> ent_type e = t}" using mem by blast
  qed
qed

text \<open>
  C1: reads follow the log. After any sequence of deliveries, reads, clears and resets, \<^verbatim>\<open>get\<close>
  returns the row the log replays to in gsn order, however stale the cache was, and \<^verbatim>\<open>query\<close> returns
  without an error exactly the rows of the type that the log replays to, each once.
\<close>

theorem adapter_reads_log:
  assumes "list_all (op_ok tyof content) ops"
  shows "let ad = fold adapter_step ops createMemoryAdapter in
    snd (adapter_get ad i) = replay_row_of (ad_log ad) i \<and>
    (\<exists>rows. snd (adapter_query ad t) = Inr rows \<and> distinct (map ent_id rows) \<and>
       set rows = {e. \<exists>j. replay_row_of (ad_log ad) j = Some e \<and> ent_type e = t})"
proof -
  let ?ad = "fold adapter_step ops createMemoryAdapter"
  have inv: "adapter_inv tyof content ?ad" by (rule adapter_run_inv [OF assms])
  note typed = adapter_inv_log_typed [OF inv]
  have cache: "cache_inv tyof (ad_log ?ad) (cache_of ?ad)" using inv by (simp add: adapter_inv_def)
  have "snd (adapter_get ?ad i) = replay_row_of (ad_log ?ad) i"
    using replay_inv(2) [OF typed cache, of i]
    by (simp add: adapter_get_def store_get_def Let_def case_prod_beta)
  moreover obtain rows where "snd (store_query (ad_log ?ad) (cache_of ?ad) t) = Inr rows"
    "distinct (map ent_id rows)" "set rows = {e. \<exists>j. replay_row_of (ad_log ?ad) j = Some e \<and> ent_type e = t}"
    using query_rows [OF typed cache] by blast
  ultimately show ?thesis by (simp add: Let_def adapter_query_def case_prod_beta)
qed

definition sample_edge :: Update where
  "sample_edge = \<lparr>upd_id = ''u_1'', subject_id = ''r_1'', subject_type = ''relationship'', upd_method = Put,
     upd_data = Some [(''field'', Leaf (JStr ''posts'') ''u_1'' (Some 1)), (''type'', Leaf (JStr ''author'') ''u_1'' (Some 1)),
       (''source_id'', Leaf (JStr ''p_1'') ''u_1'' (Some 1)), (''target_id'', Leaf (JStr ''t_1'') ''u_1'' (Some 1))]\<rparr>"

definition sample_ops :: "adapter_op list" where
  "sample_ops = [AppendOp (sample_action ''a_1'' [sample_edge]), QueryOp ''relationship'']"

lemma sample_ops_ok: "list_all (op_ok (\<lambda>_. ''relationship'') (\<lambda>_ _. sample_edge)) sample_ops"
  by (simp add: sample_ops_def op_ok_def workload_def sample_action_def ids_ok_def typed_update_def
      clean_update_def readFields_def sample_edge_def obj_ok_def clean_def NUL_def)

theorem adapter_reads_log_witness:
  "snd (adapter_get (fold adapter_step sample_ops createMemoryAdapter) ''r_1'') =
   replay_row_of (ad_log (fold adapter_step sample_ops createMemoryAdapter)) ''r_1''"
  using adapter_reads_log [OF sample_ops_ok] by (simp add: Let_def)

text \<open>
  C4: \<^verbatim>\<open>queryByRelationship\<close> reads the log. Whatever was delivered and read before, for an accessor
  that is not the reserved membership accessor it returns, ascending and without duplicates, the
  sources of exactly the live relationship rows of the log with that accessor, type and target.
\<close>

theorem adapter_relationships_read_log:
  assumes "list_all (op_ok tyof content) ops" "clean as" "clean ty" "as \<noteq> MEMBERSHIP_ACCESSOR"
  shows "let ad = fold adapter_step ops createMemoryAdapter;
             sources = snd (adapter_queryByRelationship ad as ty tgt)
    in sorted sources \<and> distinct sources \<and>
       set sources = {src. \<exists>i e. replay_row_of (ad_log ad) i = Some e \<and> links e as ty src tgt}"
proof -
  let ?ad = "fold adapter_step ops createMemoryAdapter"
  have inv: "adapter_inv tyof content ?ad" by (rule adapter_run_inv [OF assms(1)])
  note typed = adapter_inv_log_typed [OF inv]
  have cache: "cache_inv tyof (ad_log ?ad) (cache_of ?ad)" using inv by (simp add: adapter_inv_def)
  let ?c = "materializeDirtyType (ad_log ?ad) RELATIONSHIP_ENTITY_TYPE (cache_of ?ad)"
  let ?row = "map_of (es_entities (snd ?c))"
  let ?k = "reverseIndexKey as ty tgt"
  have ok: "store_ok tyof (snd ?c)" using materialize_inv(1) [OF typed cache] by (simp add: cache_inv_def)
  have rel: "both v ?k = Some src \<longleftrightarrow> (\<exists>e. v = Some e \<and> links e as ty src tgt)"
    if "\<And>e. v = Some e \<Longrightarrow> clean_row e" for v src
  proof -
    have "hd ?k \<noteq> CHR 0x01" using assms(2) by (cases as) (auto simp: reverseIndexKey_def clean_def NUL_def)
    then have "forward.contrib v ?k = None" using forward_key_start by (metis contrib_None(2) option.exhaust)
    then have "both v ?k = reverse.contrib v ?k" by (simp add: both_def split: option.splits)
    then show ?thesis
      using that reverse_contrib_link [of _ as ty tgt src] assms(2-4) by (cases v) (auto simp: clean_def)
  qed
  have "set (getOr (map_of (es_index (snd ?c)) ?k) []) = {(r, v). both (?row r) ?k = Some v}"
    using ok by (intro rows_under_key) (auto simp: store_ok_def)
  also have "\<dots> = {(r, v). \<exists>e. ?row r = Some e \<and> links e as ty v tgt}"
    using ok rel by (auto simp: store_ok_def row_for_def)
  also have "\<dots> = {(r, v). \<exists>e. replay_row_of (ad_log ?ad) r = Some e \<and> links e as ty v tgt}"
  proof -
    have "?row r = Some e \<longleftrightarrow> replay_row_of (ad_log ?ad) r = Some e" if "links e as ty v tgt" for r e v
      using that ok typed materialize_inv(2) [OF typed cache, of r RELATIONSHIP_ENTITY_TYPE]
        replay_row_for [of "ad_log ?ad" tyof r e]
      by (auto simp: store_ok_def row_for_def links_def log_typed_def)
    then show ?thesis by blast
  qed
  finally have rows: "snd ` set (getOr (map_of (es_index (snd ?c)) ?k) []) =
      {src. \<exists>i e. replay_row_of (ad_log ?ad) i = Some e \<and> links e as ty src tgt}"
    by force
  have "snd (adapter_queryByRelationship ?ad as ty tgt) =
      sorted_list_of_set (snd ` set (getOr (map_of (es_index (snd ?c)) ?k) []))"
    by (simp add: adapter_queryByRelationship_def store_queryByRelationship_def readIndex_def
        liveSourceIds_sorted_set Let_def)
  then show ?thesis
    by (simp add: Let_def flip: rows)
qed

theorem adapter_relationships_read_log_witness:
  "distinct (snd (adapter_queryByRelationship (fold adapter_step sample_ops createMemoryAdapter)
     ''posts'' ''author'' ''t_1''))"
  using adapter_relationships_read_log [OF sample_ops_ok, where as = "''posts''" and ty = "''author''" and tgt = "''t_1''"]
  by (simp add: Let_def clean_def NUL_def MEMBERSHIP_ACCESSOR_def)

end
