(* ===== verification/Convert.thy ===== *)
theory Convert
  imports Hlc
begin

text \<open>
  The conversion between HLC strings and wire integers that brackets the MessagePack codec
  (packages/core/src/msgpack/convert.ts). The codec itself is a third-party package and carries
  JSON-shaped values unchanged; what the round trip of \<^verbatim>\<open>encode\<close> and \<^verbatim>\<open>decode\<close> does to a value is the
  composition of the two conversions here.
\<close>

section \<open>Model\<close>

definition MAX_SAFE_INTEGER :: int where "MAX_SAFE_INTEGER = 2 ^ 53 - 1"

definition hlcToInteger :: "string \<Rightarrow> js_error + json" where
  "hlcToInteger s =
     (case parse s of
        Inl e \<Rightarrow> Inl e
      | Inr n \<Rightarrow> Inr (if n > MAX_SAFE_INTEGER then JStr s else JNum n))"

definition integerToHLC :: "int \<Rightarrow> string" where
  "integerToHLC n = format_hlc n"

text \<open>\<^verbatim>\<open>/^\d+$/.test(value)\<close>\<close>

definition all_digits :: "string \<Rightarrow> bool" where
  "all_digits s = (s \<noteq> [] \<and> list_all is_digit s)"

text \<open>
  A digit string always parses (\<open>parse_all_digits\<close> below), so the error branch of the string case
  is never taken.
\<close>

fun convertHlcToInteger :: "json \<Rightarrow> json" where
  "convertHlcToInteger (JStr s) =
     (if all_digits s \<and> length s > 10
      then (case hlcToInteger s of Inl _ \<Rightarrow> JStr s | Inr j \<Rightarrow> j)
      else JStr s)"
| "convertHlcToInteger (JArr vs) = JArr (map convertHlcToInteger vs)"
| "convertHlcToInteger (JObj es) = JObj (map (\<lambda>(k, v). (k, convertHlcToInteger v)) es)"
| "convertHlcToInteger v = v"

fun convertIntegerToHlc :: "json \<Rightarrow> json" where
  "convertIntegerToHlc (JNum n) =
     (if n > 0 \<and> n > 1000000000000 then JStr (format_hlc n) else JNum n)"
| "convertIntegerToHlc (JStr s) = JStr s"
| "convertIntegerToHlc (JArr vs) = JArr (map convertIntegerToHlc vs)"
| "convertIntegerToHlc (JObj es) = JObj (map (\<lambda>(k, v). (k, convertIntegerToHlc v)) es)"
| "convertIntegerToHlc v = v"

section \<open>Lemmas\<close>

lemma digit_val_is_digit: "is_digit ch \<Longrightarrow> \<exists>d. digit_val ch = Some d \<and> d < 10"
  by (auto simp: is_digit_def digit_val_def)

lemma digits_val_total: "list_all is_digit s \<Longrightarrow> \<exists>n. digits_val 10 acc s = Some n"
proof (induction s arbitrary: acc)
  case Nil
  then show ?case by simp
next
  case (Cons ch s)
  from Cons.prems obtain d where "digit_val ch = Some d" "d < 10"
    using digit_val_is_digit by auto
  with Cons show ?case by simp
qed

lemma parse_all_digits: "all_digits s \<Longrightarrow> \<exists>n. parse s = Inr (int n) \<and> digits_val 10 0 s = Some n"
  using digits_val_total [of s 0] by (auto simp: all_digits_def parse_digits number_in_def)

lemma all_digits_format: "0 \<le> n \<Longrightarrow> all_digits (format_hlc n)"
  by (simp add: all_digits_def format_hlc_def dec_nat_digits dec_nat_nonempty)

lemma dec_nat_length: "n < 10 ^ length (dec_nat n)"
proof (induction n rule: dec_nat.induct)
  case (1 n)
  show ?case
  proof (cases "n < 10")
    case True
    then show ?thesis by (subst dec_nat.simps) simp
  next
    case False
    with "1" have "n div 10 < 10 ^ length (dec_nat (n div 10))" by simp
    with False show ?thesis by (subst dec_nat.simps) (simp add: div_less_iff_less_mult mult.commute)
  qed
qed

lemma format_length:
  assumes "1000000000000 < n"
  shows "10 < length (format_hlc n)"
proof (rule ccontr)
  assume "\<not> 10 < length (format_hlc n)"
  then have "(10::nat) ^ length (dec_nat (nat n)) \<le> 10 ^ 10"
    using assms by (intro power_increasing) (simp_all add: format_hlc_def)
  with dec_nat_length [of "nat n"] have "nat n < 10 ^ 10" by linarith
  with assms show False by simp
qed

text \<open>
  The values the round trip preserves: a digit string longer than ten characters is the canonical
  form of an integer above \<open>10\<^sup>1\<^sup>2\<close> (as every HLC minted after 1970 is) or too large for a JavaScript
  number, and no number is above \<open>10\<^sup>1\<^sup>2\<close>.
\<close>

fun wire_safe :: "json \<Rightarrow> bool" where
  "wire_safe (JStr s) =
     (all_digits s \<and> length s > 10 \<longrightarrow>
        (case parse s of Inl _ \<Rightarrow> False
         | Inr n \<Rightarrow> n > MAX_SAFE_INTEGER \<or> n > 1000000000000 \<and> s = format_hlc n))"
| "wire_safe (JNum n) = (n \<le> 1000000000000)"
| "wire_safe (JArr vs) = list_all wire_safe vs"
| "wire_safe (JObj es) = list_all (\<lambda>kv. wire_safe (snd kv)) es"
| "wire_safe _ = True"

section \<open>Properties\<close>

text \<open>
  Encoding then decoding gives the value back for every value whose long digit strings are
  canonical timestamps and whose numbers are at most \<open>10\<^sup>1\<^sup>2\<close>; in particular for every HLC string
  above that bound.
\<close>

theorem convert_roundtrip:
  assumes "wire_safe v"
  shows "convertIntegerToHlc (convertHlcToInteger v) = v"
  using assms
proof (induction v)
  case (JStr s)
  then show ?case
    using parse_all_digits [of s]
    by (auto simp: hlcToInteger_def split: sum.splits)
next
  case (JArr vs)
  then show ?case by (auto simp: list_all_iff intro!: map_idI)
next
  case (JObj es)
  then have "\<forall>kv \<in> set es. convertIntegerToHlc (convertHlcToInteger (snd kv)) = snd kv"
    by (auto simp: list_all_iff)
  then show ?case by (auto intro!: map_idI)
qed simp_all

theorem convert_roundtrip_witness:
  "convertIntegerToHlc (convertHlcToInteger
     (JObj [(''hlc'', JStr (format_hlc 1700000000000)), (''gsn'', JNum 7), (''v'', JStr ''12'')])) =
   JObj [(''hlc'', JStr (format_hlc 1700000000000)), (''gsn'', JNum 7), (''v'', JStr ''12'')]"
  by (rule convert_roundtrip) (simp add: parse_format)

text \<open>
  The round trip is not the identity on application data. A string of 11 or more digits whose
  value is at most \<open>10\<^sup>1\<^sup>2\<close> (a phone number, say) comes back as a number, and a number above \<open>10\<^sup>1\<^sup>2\<close>
  (a millisecond time, say) comes back as a string.
\<close>

theorem convert_loses_digit_strings:
  assumes "all_digits s" "length s > 10" "parse s = Inr n" "n \<le> 1000000000000" "m > 1000000000000"
  shows "convertIntegerToHlc (convertHlcToInteger (JStr s)) = JNum n \<and>
    convertIntegerToHlc (convertHlcToInteger (JNum m)) = JStr (format_hlc m)"
  using assms by (simp add: hlcToInteger_def MAX_SAFE_INTEGER_def)

theorem convert_loses_digit_strings_witness:
  "convertIntegerToHlc (convertHlcToInteger (JStr ''15551234567'')) = JNum 15551234567 \<and>
   convertIntegerToHlc (convertHlcToInteger (JNum 1700000000000)) = JStr (format_hlc 1700000000000)"
proof -
  have digits: "all_digits ''15551234567''"
    by (simp add: all_digits_def is_digit_def)
  moreover have "parse ''15551234567'' = Inr 15551234567"
    using digits by (simp add: all_digits_def parse_digits number_in_def digit_val_def)
  ultimately show ?thesis
    using convert_loses_digit_strings [of "''15551234567''" 15551234567 1700000000000] by simp
qed

end
