(* ===== verification/CausalTree.thy ===== *)
theory CausalTree
  imports Hlc "HOL-Library.Monad_Syntax"
begin

text \<open>
  The causal tree of collaborative text (packages/schema/src/collaborative-text/tree.ts): runs of
  characters in a tree ordered by hybrid logical clock, with an incremental index from document
  positions to runs.

  A \<^verbatim>\<open>Map\<close> is an association list in insertion order. Offsets, counts and span lengths are integers, as the guards of
  the source test their sign. The walks over the children map (\<^verbatim>\<open>dfs\<close>, \<^verbatim>\<open>collectSubtreeIds\<close>) do not
  end on a cyclic map: they are partial functions whose result \<^const>\<open>None\<close> means just that, so
  every function that walks returns an option. Diagnostics on the console are left out.
\<close>

section \<open>Data\<close>

record RunNode =
  run_id :: string
  run_hlc :: hlc
  run_actorId :: string
  run_text :: string
  run_parentId :: string
  run_deleted :: bool

record RunSpan =
  span_runId :: string
  span_length :: int

record PositionIndex =
  pi_spans :: "RunSpan list"
  pi_totalLength :: int

record DocState =
  ds_nodes :: "RunNode obj"
  ds_children :: "string list obj"
  ds_index :: PositionIndex

record PositionLookup =
  pl_runId :: string
  pl_offset :: int
  pl_spanIndex :: nat

datatype DocAction =
    InsertRun RunNode
  | Split string int
  | DeleteRange string int int
  | ExtendRun string string hlc

text \<open>The value of a run key: a run, or the null of a tombstone.\<close>

record RunFieldValue =
  rf_value :: "RunNode option"
  rf_update_id :: string
  rf_hlc :: hlc

definition ROOT_ID :: string where "ROOT_ID = ''ROOT''"

definition ID_SEPARATOR :: string where "ID_SEPARATOR = '':''"

definition SPLIT_SEPARATOR :: string where "SPLIT_SEPARATOR = '':s:''"

definition ROOT_NODE :: RunNode where
  "ROOT_NODE = \<lparr>run_id = ROOT_ID, run_hlc = 0, run_actorId = '''', run_text = '''', run_parentId = '''', run_deleted = False\<rparr>"

section \<open>Run ids\<close>

definition makeSplitId :: "string \<Rightarrow> int \<Rightarrow> string" where
  "makeSplitId originalId offset = originalId @ SPLIT_SEPARATOR @ format_hlc offset"

definition makeRunId :: "hlc \<Rightarrow> string \<Rightarrow> string" where
  "makeRunId h actorId = format_hlc h @ ID_SEPARATOR @ actorId"

text \<open>\<^verbatim>\<open>s.indexOf(t)\<close> and \<^verbatim>\<open>s.lastIndexOf(t)\<close>, with \<^const>\<open>None\<close> for -1.\<close>

fun indexOf :: "string \<Rightarrow> string \<Rightarrow> nat option" where
  "indexOf t [] = (if t = [] then Some 0 else None)"
| "indexOf t (c # s) = (if take (length t) (c # s) = t then Some 0 else map_option Suc (indexOf t s))"

fun lastIndexOf :: "string \<Rightarrow> string \<Rightarrow> nat option" where
  "lastIndexOf t [] = (if t = [] then Some 0 else None)"
| "lastIndexOf t (c # s) =
     (case lastIndexOf t s of
        Some i \<Rightarrow> Some (Suc i)
      | None \<Rightarrow> if take (length t) (c # s) = t then Some 0 else None)"

text \<open>The timestamp of a parsed id stays the string it is; nothing in this module reads it as a number.\<close>

definition parseRunId :: "string \<Rightarrow> (string \<times> string) option" where
  "parseRunId i =
     (if i = ROOT_ID then None
      else (case indexOf ID_SEPARATOR i of
          None \<Rightarrow> None
        | Some firstColon \<Rightarrow>
            if firstColon = 0 then None
            else (let h = take firstColon i;
                      rest = drop (firstColon + 1) i;
                      actorId = (case lastIndexOf SPLIT_SEPARATOR rest of None \<Rightarrow> rest | Some k \<Rightarrow> take k rest)
                  in Some (h, actorId))))"

definition compareRuns :: "RunNode \<Rightarrow> RunNode \<Rightarrow> int" where
  "compareRuns a b =
     (let h = compareHlc (run_hlc a) (run_hlc b) in
      if h \<noteq> 0 then - h
      else if run_actorId a > run_actorId b then -1
      else if run_actorId a < run_actorId b then 1 else 0)"

section \<open>Reading the document\<close>

definition createDocState :: DocState where
  "createDocState = \<lparr>ds_nodes = [(ROOT_ID, ROOT_NODE)], ds_children = [(ROOT_ID, [])],
     ds_index = \<lparr>pi_spans = [], pi_totalLength = 0\<rparr>\<rparr>"

text \<open>The nodes \<^verbatim>\<open>dfs\<close> visits from each id of a list in turn, in visiting order.\<close>

partial_function (option) dfs_list :: "RunNode obj \<Rightarrow> string list obj \<Rightarrow> string list \<Rightarrow> RunNode list option" where
  [code]: "dfs_list nodes children ids =
     (case ids of
        [] \<Rightarrow> Some []
      | i # rest \<Rightarrow>
          (case map_of nodes i of
             None \<Rightarrow> dfs_list nodes children rest
           | Some node \<Rightarrow> do {
               below \<leftarrow> dfs_list nodes children (getOr (map_of children i) []);
               after \<leftarrow> dfs_list nodes children rest;
               Some (node # below @ after)
             }))"

definition dfs :: "DocState \<Rightarrow> string \<Rightarrow> RunNode list option" where
  "dfs st nodeId = dfs_list (ds_nodes st) (ds_children st) [nodeId]"

definition reconstruct :: "DocState \<Rightarrow> string option" where
  "reconstruct st = do {
     visited \<leftarrow> dfs st ROOT_ID;
     Some (concat (map run_text (filter (\<lambda>node. \<not> run_deleted node \<and> run_id node \<noteq> ROOT_ID) visited)))
   }"

text \<open>The scan over the spans with its \<open>cumulative\<close> length and loop index.\<close>

fun lookup_scan :: "RunSpan list \<Rightarrow> int \<Rightarrow> int \<Rightarrow> nat \<Rightarrow> PositionLookup option" where
  "lookup_scan [] position cumulative i = None"
| "lookup_scan (s # spans) position cumulative i =
     (if position < cumulative + span_length s
      then Some \<lparr>pl_runId = span_runId s, pl_offset = position - cumulative, pl_spanIndex = i\<rparr>
      else lookup_scan spans position (cumulative + span_length s) (Suc i))"

definition lookupPosition :: "PositionIndex \<Rightarrow> int \<Rightarrow> PositionLookup option" where
  "lookupPosition index position =
     (if position < 0 \<or> position \<ge> pi_totalLength index then None
      else lookup_scan (pi_spans index) position 0 0)"

fun offset_scan :: "RunSpan list \<Rightarrow> string \<Rightarrow> int \<Rightarrow> int \<Rightarrow> int option" where
  "offset_scan [] runId offset cumulative = None"
| "offset_scan (s # spans) runId offset cumulative =
     (if span_runId s = runId
      then (if offset \<ge> span_length s then None else Some (cumulative + offset))
      else offset_scan spans runId offset (cumulative + span_length s))"

definition runOffsetToPosition :: "PositionIndex \<Rightarrow> string \<Rightarrow> int \<Rightarrow> int option" where
  "runOffsetToPosition index runId offset = offset_scan (pi_spans index) runId offset 0"

section \<open>Subtrees and insertion points\<close>

text \<open>The work list of \<^verbatim>\<open>collectSubtreeIds\<close>, top of the stack first: pushing the children from last to first leaves the first on top.\<close>

partial_function (option) collect_loop :: "string list obj \<Rightarrow> string list \<Rightarrow> string list \<Rightarrow> string list option" where
  [code]: "collect_loop children stack result =
     (case stack of
        [] \<Rightarrow> Some result
      | i # rest \<Rightarrow> collect_loop children (getOr (map_of children i) [] @ rest) (set_add result i))"

definition collectSubtreeIds :: "DocState \<Rightarrow> string \<Rightarrow> string list option" where
  "collectSubtreeIds st rootId = collect_loop (ds_children st) [rootId] []"

definition subtreeVisibleLength :: "DocState \<Rightarrow> string \<Rightarrow> int option" where
  "subtreeVisibleLength st rootId = do {
     ids \<leftarrow> collectSubtreeIds st rootId;
     Some (sum_list (map span_length (filter (\<lambda>s. span_runId s \<in> set ids) (pi_spans (ds_index st)))))
   }"

text \<open>The loop that finds where a run goes among its siblings.\<close>

definition siblingInsertIdx :: "RunNode obj \<Rightarrow> RunNode \<Rightarrow> string list \<Rightarrow> nat" where
  "siblingInsertIdx nodes node siblings =
     getOr (find_index (\<lambda>i. case map_of nodes i of None \<Rightarrow> False | Some sib \<Rightarrow> compareRuns node sib < 0) siblings)
       (length siblings)"

fun add_subtree_lengths :: "DocState \<Rightarrow> string list \<Rightarrow> int \<Rightarrow> int option" where
  "add_subtree_lengths st [] basePos = Some basePos"
| "add_subtree_lengths st (i # ids) basePos = do {
     n \<leftarrow> subtreeVisibleLength st i;
     add_subtree_lengths st ids (basePos + n)
   }"

definition findInsertPosition :: "DocState \<Rightarrow> string \<Rightarrow> RunNode \<Rightarrow> int option" where
  "findInsertPosition st parentId newNode =
     (let siblings = getOr (map_of (ds_children st) parentId) [];
          insertIdx = siblingInsertIdx (ds_nodes st) newNode siblings
      in if parentId = ROOT_ID then add_subtree_lengths st (take insertIdx siblings) 0
         else (case runOffsetToPosition (ds_index st) parentId 0 of
             None \<Rightarrow> Some 0
           | Some parentPos \<Rightarrow>
               (let parentSpan = find (\<lambda>s. span_runId s = parentId) (pi_spans (ds_index st));
                    basePos = parentPos + (case parentSpan of None \<Rightarrow> 0 | Some s \<Rightarrow> span_length s)
                in add_subtree_lengths st (take insertIdx siblings) basePos)))"

text \<open>Skipping the spans of the preceding siblings' subtrees.\<close>

definition skip_spans :: "RunSpan list \<Rightarrow> string list \<Rightarrow> nat \<Rightarrow> nat" where
  "skip_spans spans ids spanIdx = spanIdx + length (takeWhile (\<lambda>s. span_runId s \<in> set ids) (drop spanIdx spans))"

fun skip_siblings :: "DocState \<Rightarrow> string list \<Rightarrow> nat \<Rightarrow> nat option" where
  "skip_siblings st [] spanIdx = Some spanIdx"
| "skip_siblings st (i # ids) spanIdx = do {
     sibIds \<leftarrow> collectSubtreeIds st i;
     skip_siblings st ids (skip_spans (pi_spans (ds_index st)) sibIds spanIdx)
   }"

definition findSpanInsertIndex :: "DocState \<Rightarrow> RunNode \<Rightarrow> nat option" where
  "findSpanInsertIndex st newNode =
     (let spans = pi_spans (ds_index st);
          siblings = getOr (map_of (ds_children st) (run_parentId newNode)) [];
          siblingIdx = getOr (find_index (\<lambda>i. i = run_id newNode) siblings) (length siblings)
      in if run_parentId newNode = ROOT_ID then skip_siblings st (take siblingIdx siblings) 0
         else (case find_index (\<lambda>s. span_runId s = run_parentId newNode) spans of
             None \<Rightarrow> Some (length spans)
           | Some parentSpanIdx \<Rightarrow> skip_siblings st (take siblingIdx siblings) (parentSpanIdx + 1)))"

section \<open>The reducer\<close>

definition applyInsertRun :: "DocState \<Rightarrow> RunNode \<Rightarrow> DocState option" where
  "applyInsertRun st node =
     (if map_of (ds_nodes st) (run_id node) \<noteq> None then Some st
      else
        (let newNodes = obj_set (ds_nodes st) (run_id node) node;
             siblings = getOr (map_of (ds_children st) (run_parentId node)) [];
             insertIdx = siblingInsertIdx newNodes node siblings;
             children1 = obj_set (ds_children st) (run_parentId node) (splice_in insertIdx (run_id node) siblings);
             newChildren = (if map_of children1 (run_id node) = None then obj_set children1 (run_id node) [] else children1);
             stateWithTree = \<lparr>ds_nodes = newNodes, ds_children = newChildren, ds_index = ds_index st\<rparr>
         in do {
           spanIndex \<leftarrow> findSpanInsertIndex stateWithTree node;
           Some \<lparr>ds_nodes = newNodes, ds_children = newChildren, ds_index =
             \<lparr>pi_spans = (if run_deleted node then pi_spans (ds_index st)
                else splice_in spanIndex \<lparr>span_runId = run_id node, span_length = int (length (run_text node))\<rparr> (pi_spans (ds_index st))),
              pi_totalLength = (if run_deleted node then pi_totalLength (ds_index st)
                else pi_totalLength (ds_index st) + int (length (run_text node)))\<rparr>\<rparr>
         }))"

definition reparent :: "string \<Rightarrow> string list \<Rightarrow> RunNode obj \<Rightarrow> RunNode obj" where
  "reparent splitId childIds nodes =
     fold (\<lambda>childId nodes. case map_of nodes childId of
         None \<Rightarrow> nodes | Some childNode \<Rightarrow> obj_set nodes childId (childNode\<lparr>run_parentId := splitId\<rparr>)) childIds nodes"

definition applySplit :: "DocState \<Rightarrow> string \<Rightarrow> int \<Rightarrow> DocState" where
  "applySplit st runId offset =
     (case map_of (ds_nodes st) runId of
        None \<Rightarrow> st
      | Some node \<Rightarrow>
          if offset \<le> 0 \<or> offset \<ge> int (length (run_text node)) then st
          else
            (let splitId = makeSplitId runId offset in
             if map_of (ds_nodes st) splitId \<noteq> None then st
             else
               (let leftNode = node\<lparr>run_text := take (nat offset) (run_text node)\<rparr>;
                    rightNode = \<lparr>run_id = splitId, run_hlc = run_hlc node, run_actorId = run_actorId node,
                      run_text = drop (nat offset) (run_text node), run_parentId = runId, run_deleted = run_deleted node\<rparr>;
                    nodes1 = obj_set (obj_set (ds_nodes st) runId leftNode) splitId rightNode;
                    originalChildren = getOr (map_of (ds_children st) runId) [];
                    newChildren = obj_set (obj_set (ds_children st) splitId originalChildren) runId [splitId];
                    newNodes = reparent splitId originalChildren nodes1;
                    st1 = \<lparr>ds_nodes = newNodes, ds_children = newChildren, ds_index = ds_index st\<rparr>;
                    spans = pi_spans (ds_index st)
                in if run_deleted node then st1
                   else (case find_index (\<lambda>s. span_runId s = runId) spans of
                       None \<Rightarrow> st1
                     | Some spanIdx \<Rightarrow>
                         st1\<lparr>ds_index := \<lparr>pi_spans = take spanIdx spans @
                             [\<lparr>span_runId = runId, span_length = offset\<rparr>,
                              \<lparr>span_runId = splitId, span_length = int (length (run_text node)) - offset\<rparr>] @
                             drop (spanIdx + 1) spans,
                           pi_totalLength = pi_totalLength (ds_index st)\<rparr>\<rparr>))))"

definition tombstoneRun :: "DocState \<Rightarrow> string \<Rightarrow> DocState" where
  "tombstoneRun st runId =
     (case map_of (ds_nodes st) runId of
        None \<Rightarrow> st
      | Some node \<Rightarrow>
          if run_deleted node then st
          else \<lparr>ds_nodes = obj_set (ds_nodes st) runId (node\<lparr>run_deleted := True\<rparr>), ds_children = ds_children st,
            ds_index = \<lparr>pi_spans = filter (\<lambda>s. span_runId s \<noteq> runId) (pi_spans (ds_index st)),
              pi_totalLength = pi_totalLength (ds_index st) - int (length (run_text node))\<rparr>\<rparr>)"

definition applyDeleteRange :: "DocState \<Rightarrow> string \<Rightarrow> int \<Rightarrow> int \<Rightarrow> DocState" where
  "applyDeleteRange st runId offset count =
     (case map_of (ds_nodes st) runId of
        None \<Rightarrow> st
      | Some node \<Rightarrow>
          if run_deleted node then st
          else
            (let textLen = int (length (run_text node)) in
             if offset < 0 \<or> count \<le> 0 \<or> offset + count > textLen then st
             else if offset = 0 \<and> count = textLen then tombstoneRun st runId
             else if offset = 0 then tombstoneRun (applySplit st runId count) runId
             else if offset + count = textLen
             then tombstoneRun (applySplit st runId offset) (makeSplitId runId offset)
             else tombstoneRun (applySplit (applySplit st runId offset) (makeSplitId runId offset) count)
                    (makeSplitId runId offset)))"

definition applyExtendRun :: "DocState \<Rightarrow> string \<Rightarrow> string \<Rightarrow> hlc \<Rightarrow> DocState" where
  "applyExtendRun st runId appendText h =
     (case map_of (ds_nodes st) runId of
        None \<Rightarrow> st
      | Some node \<Rightarrow>
          if run_deleted node then st
          else \<lparr>ds_nodes = obj_set (ds_nodes st) runId (node\<lparr>run_text := run_text node @ appendText, run_hlc := h\<rparr>),
            ds_children = ds_children st,
            ds_index = \<lparr>pi_spans = map (\<lambda>s. if span_runId s = runId
                then s\<lparr>span_length := span_length s + int (length appendText)\<rparr> else s) (pi_spans (ds_index st)),
              pi_totalLength = pi_totalLength (ds_index st) + int (length appendText)\<rparr>\<rparr>)"

definition applySetRun :: "DocState \<Rightarrow> string \<Rightarrow> RunNode \<Rightarrow> DocState" where
  "applySetRun st runId newNode =
     (case map_of (ds_nodes st) runId of
        None \<Rightarrow> st
      | Some existing \<Rightarrow>
          if run_deleted existing then st
          else \<lparr>ds_nodes = obj_set (ds_nodes st) runId
              (newNode\<lparr>run_id := runId, run_parentId := run_parentId existing, run_deleted := False\<rparr>),
            ds_children = ds_children st,
            ds_index = \<lparr>pi_spans = map (\<lambda>s. if span_runId s = runId
                then s\<lparr>span_length := int (length (run_text newNode))\<rparr> else s) (pi_spans (ds_index st)),
              pi_totalLength = pi_totalLength (ds_index st) +
                (int (length (run_text newNode)) - int (length (run_text existing)))\<rparr>\<rparr>)"

definition docReducer :: "DocState \<Rightarrow> DocAction \<Rightarrow> DocState option" where
  "docReducer st action = (case action of
     InsertRun node \<Rightarrow> applyInsertRun st node
   | Split runId offset \<Rightarrow> Some (applySplit st runId offset)
   | DeleteRange runId offset count \<Rightarrow> Some (applyDeleteRange st runId offset count)
   | ExtendRun runId appendText h \<Rightarrow> Some (applyExtendRun st runId appendText h))"

section \<open>Field updates from the wire\<close>

definition placeholder_for :: "RunNode \<Rightarrow> RunNode" where
  "placeholder_for newNode = \<lparr>run_id = run_parentId newNode, run_hlc = run_hlc newNode, run_actorId = run_actorId newNode,
     run_text = '''', run_parentId = ROOT_ID, run_deleted = True\<rparr>"

definition applyRunFieldUpdate :: "DocState \<Rightarrow> string \<Rightarrow> RunFieldValue \<Rightarrow> (DocState \<times> DocAction list) option" where
  "applyRunFieldUpdate st runId field =
     (case rf_value field of
        None \<Rightarrow>
          (case map_of (ds_nodes st) runId of
             None \<Rightarrow> Some (st, [])
           | Some node \<Rightarrow>
               if run_deleted node then Some (st, [])
               else (let fullTombstone = DeleteRange runId 0 (int (length (run_text node)))
                     in do { st' \<leftarrow> docReducer st fullTombstone; Some (st', [fullTombstone]) }))
      | Some newNode \<Rightarrow>
          (case map_of (ds_nodes st) runId of
             Some existing \<Rightarrow>
               if run_deleted existing
               then do { st' \<leftarrow> docReducer st (InsertRun newNode); Some (st', [InsertRun newNode]) }
               else if run_text newNode = run_text existing \<and> run_hlc newNode = run_hlc existing \<and>
                 run_actorId newNode = run_actorId existing
               then Some (st, [])
               else if compareHlc (run_hlc existing) (run_hlc newNode) > 0 then Some (st, [])
               else Some (applySetRun st runId newNode, [ExtendRun runId (run_text newNode) (run_hlc newNode)])
           | None \<Rightarrow>
               if run_parentId newNode \<noteq> ROOT_ID \<and> map_of (ds_nodes st) (run_parentId newNode) = None
               then do {
                 working \<leftarrow> applyInsertRun st (placeholder_for newNode);
                 if working = st then Some (st, [])
                 else do { st' \<leftarrow> docReducer working (InsertRun newNode); Some (st', [InsertRun newNode]) }
               }
               else do { st' \<leftarrow> docReducer st (InsertRun newNode); Some (st', [InsertRun newNode]) }))"

fun applyRunFieldUpdates :: "DocState \<Rightarrow> (string \<times> RunFieldValue) list \<Rightarrow> (DocState \<times> DocAction list) option" where
  "applyRunFieldUpdates st [] = Some (st, [])"
| "applyRunFieldUpdates st ((runId, field) # updates) = do {
     (st1, applied) \<leftarrow> applyRunFieldUpdate st runId field;
     (st2, more) \<leftarrow> applyRunFieldUpdates st1 updates;
     Some (st2, applied @ more)
   }"

end
