(* ===== verification/TextWire.thy ===== *)
theory TextWire
  imports CausalTree FieldValue
begin

text \<open>
  The wire format of collaborative text (packages/schema/src/collaborative-text/wire.ts, derived-ids.ts
  and the constants of schema.ts): runs as keys of the document's content map, their parsing and
  application, and the difference of two document states that a local edit sends.

  A run travels as a JSON object with the members of \<open>RunNode\<close>, the shape \<^verbatim>\<open>RunNodeSchema\<close> declares for
  the map. The source casts an object with an \<^verbatim>\<open>id\<close> member to that shape; an object that does not have the
  shape is outside the declared type, and the model reads it as absent. The parse cache of a content map
  is left out, as the parse is a function of the map.
\<close>

section \<open>Constants and shapes\<close>

definition DOC_CONTENT_FIELD :: string where "DOC_CONTENT_FIELD = ''content''"

definition DEFAULT_DOC_SUBJECT_TYPE :: string where "DEFAULT_DOC_SUBJECT_TYPE = ''text_document''"

definition run_json :: "RunNode \<Rightarrow> json" where
  "run_json n = JObj [(''id'', JStr (run_id n)), (''hlc'', JStr (format_hlc (run_hlc n))), (''actorId'', JStr (run_actorId n)),
     (''text'', JStr (run_text n)), (''parentId'', JStr (run_parentId n)), (''deleted'', JBool (run_deleted n))]"

definition run_of_json :: "json \<Rightarrow> RunNode option" where
  "run_of_json j = (case j of
     JObj o' \<Rightarrow>
       (case (map_of o' ''id'', map_of o' ''hlc'', map_of o' ''actorId'', map_of o' ''text'', map_of o' ''parentId'', map_of o' ''deleted'') of
          (Some (JStr i), Some (JStr h), Some (JStr a), Some (JStr x), Some (JStr p), Some (JBool d)) \<Rightarrow>
            (case parse h of
               Inr hv \<Rightarrow> Some \<lparr>run_id = i, run_hlc = hv, run_actorId = a, run_text = x, run_parentId = p, run_deleted = d\<rparr>
             | Inl _ \<Rightarrow> None)
        | _ \<Rightarrow> None)
   | _ \<Rightarrow> None)"

definition run_field_json :: "RunFieldValue \<Rightarrow> field_value" where
  "run_field_json f = Leaf (case rf_value f of None \<Rightarrow> JNull | Some n \<Rightarrow> run_json n) (rf_update_id f) (Some (rf_hlc f))"

section \<open>Reading\<close>

definition isDocSubjectUpdate :: "Update \<Rightarrow> string \<Rightarrow> bool" where
  "isDocSubjectUpdate update docSubjectType \<longleftrightarrow> subject_type update = docSubjectType"

definition parse_entry :: "string \<times> field_value \<Rightarrow> RunFieldValue obj \<Rightarrow> RunFieldValue obj" where
  "parse_entry kv out = (case kv of (runId, entry) \<Rightarrow>
     if \<not> isFieldLeaf entry then out
     else (let update_id = leaf_update_id entry; h = hlcOr0 (leaf_hlc entry) in
       if leaf_value entry = JNull then obj_set out runId \<lparr>rf_value = None, rf_update_id = update_id, rf_hlc = h\<rparr>
       else (case run_of_json (leaf_value entry) of
           Some n \<Rightarrow> obj_set out runId \<lparr>rf_value = Some n, rf_update_id = update_id, rf_hlc = h\<rparr>
         | None \<Rightarrow> out)))"

definition parseContentField :: "field_value option \<Rightarrow> RunFieldValue obj" where
  "parseContentField content = (case content of
     Some (FMap m) \<Rightarrow> fold parse_entry m []
   | _ \<Rightarrow> [])"

definition readRunFields :: "Update \<Rightarrow> RunFieldValue obj" where
  "readRunFields update = (case upd_data update of
     None \<Rightarrow> [] | Some flds \<Rightarrow> parseContentField (map_of flds DOC_CONTENT_FIELD))"

section \<open>Applying Actions\<close>

fun apply_updates :: "DocState \<Rightarrow> Action \<Rightarrow> Update list \<Rightarrow> string \<Rightarrow> (DocState \<times> (DocAction \<times> Action) list) option" where
  "apply_updates st action [] docSubjectType = Some (st, [])"
| "apply_updates st action (update # rest) docSubjectType =
     (if \<not> isDocSubjectUpdate update docSubjectType then apply_updates st action rest docSubjectType
      else (let runs = readRunFields update in
        if length runs = 0 then apply_updates st action rest docSubjectType
        else do {
          (st1, applied) \<leftarrow> applyRunFieldUpdates st runs;
          (st2, more) \<leftarrow> apply_updates st1 action rest docSubjectType;
          Some (st2, map (\<lambda>docAction. (docAction, action)) applied @ more)
        }))"

text \<open>The lists \<^verbatim>\<open>applied\<close> and \<^verbatim>\<open>sourceActions\<close> grow in step: one list of pairs.\<close>

fun applyActions :: "DocState \<Rightarrow> Action list \<Rightarrow> string \<Rightarrow> (DocState \<times> (DocAction \<times> Action) list) option" where
  "applyActions st [] docSubjectType = Some (st, [])"
| "applyActions st (action # actions) docSubjectType = do {
     (st1, applied) \<leftarrow> apply_updates st action (act_updates action) docSubjectType;
     (st2, more) \<leftarrow> applyActions st1 actions docSubjectType;
     Some (st2, applied @ more)
   }"

definition synthetic_action :: "Update \<Rightarrow> Action" where
  "synthetic_action update = \<lparr>act_id = upd_id update, actor_id = '''', act_hlc = 0, act_gsn = 0, act_updates = [update]\<rparr>"

definition wire_applyUpdate :: "DocState \<Rightarrow> Update \<Rightarrow> string \<Rightarrow> (DocState \<times> (DocAction \<times> Action) list) option" where
  "wire_applyUpdate st update docSubjectType = applyActions st [synthetic_action update] docSubjectType"

section \<open>Writing\<close>

definition contentFieldFromRuns :: "RunFieldValue obj \<Rightarrow> field_value" where
  "contentFieldFromRuns runs = FMap (map (\<lambda>(runId, field). (runId, run_field_json field)) runs)"

definition docActionToUpdate :: "RunFieldValue obj \<Rightarrow> string \<Rightarrow> string \<Rightarrow> string option \<Rightarrow> Update option" where
  "docActionToUpdate runs docId updateId docSubjectType =
     (if length runs = 0 then None
      else Some \<lparr>upd_id = updateId, subject_id = docId, subject_type = getOr docSubjectType DEFAULT_DOC_SUBJECT_TYPE,
        upd_method = Patch, upd_data = Some [(DOC_CONTENT_FIELD, contentFieldFromRuns runs)]\<rparr>)"

definition buildInitialContentField :: "string \<Rightarrow> hlc \<Rightarrow> string \<Rightarrow> string \<Rightarrow> field_value" where
  "buildInitialContentField txt h actorId updateId =
     (let runId = makeRunId h actorId;
          node = \<lparr>run_id = runId, run_hlc = h, run_actorId = actorId, run_text = txt, run_parentId = ROOT_ID, run_deleted = False\<rparr>
      in contentFieldFromRuns [(runId, \<lparr>rf_value = Some node, rf_update_id = updateId, rf_hlc = h\<rparr>)])"

definition diff_old :: "DocState \<Rightarrow> string \<times> RunNode \<Rightarrow> RunFieldValue obj \<Rightarrow> RunFieldValue obj" where
  "diff_old postState kv runs = (case kv of (i, pre) \<Rightarrow>
     if i = ROOT_ID then runs
     else (case map_of (ds_nodes postState) i of
         Some post \<Rightarrow>
           if \<not> run_deleted post
           then (if run_text post \<noteq> run_text pre \<or> run_hlc post \<noteq> run_hlc pre \<or> run_actorId post \<noteq> run_actorId pre
                 then obj_set runs i \<lparr>rf_value = Some post, rf_update_id = '''', rf_hlc = run_hlc post\<rparr> else runs)
           else obj_set runs i \<lparr>rf_value = None, rf_update_id = '''', rf_hlc = run_hlc pre\<rparr>
       | None \<Rightarrow> obj_set runs i \<lparr>rf_value = None, rf_update_id = '''', rf_hlc = run_hlc pre\<rparr>))"

definition diff_new :: "DocState \<Rightarrow> string \<times> RunNode \<Rightarrow> RunFieldValue obj \<Rightarrow> RunFieldValue obj" where
  "diff_new preState kv runs = (case kv of (i, post) \<Rightarrow>
     if map_of (ds_nodes preState) i \<noteq> None \<or> i = ROOT_ID then runs
     else if \<not> run_deleted post then obj_set runs i \<lparr>rf_value = Some post, rf_update_id = '''', rf_hlc = run_hlc post\<rparr>
     else runs)"

definition diffRunMap :: "DocState \<Rightarrow> DocState \<Rightarrow> RunFieldValue obj" where
  "diffRunMap preState postState =
     fold (diff_new preState) (ds_nodes postState) (fold (diff_old postState) (ds_nodes preState) [])"

definition stampRuns :: "RunFieldValue obj \<Rightarrow> string \<Rightarrow> hlc \<Rightarrow> RunFieldValue obj" where
  "stampRuns runs updateId h =
     fold (\<lambda>(runId, field) out. obj_set out runId \<lparr>rf_value = rf_value field, rf_update_id = updateId, rf_hlc = h\<rparr>) runs []"

definition diffRunFieldsForDeleteRange :: "DocState \<Rightarrow> DocState \<Rightarrow> string \<Rightarrow> hlc \<Rightarrow> RunFieldValue obj" where
  "diffRunFieldsForDeleteRange preState postState updateId h = stampRuns (diffRunMap preState postState) updateId h"

definition diffRunFields :: "DocState \<Rightarrow> DocState \<Rightarrow> string \<Rightarrow> hlc \<Rightarrow> RunFieldValue obj" where
  "diffRunFields preState postState updateId h = stampRuns (diffRunMap preState postState) updateId h"

section \<open>Derived document ids\<close>

definition derivedKey :: "string \<Rightarrow> string \<Rightarrow> string" where
  "derivedKey parentId field = dec_nat (length parentId) @ ''_'' @ parentId @ dec_nat (length field) @ ''_'' @ field"

definition derivedDocumentId :: "string \<Rightarrow> string \<Rightarrow> string \<Rightarrow> string" where
  "derivedDocumentId parentId field documentType = ''e_derived_'' @ derivedKey parentId field @ documentType"

definition derivedRelationshipId :: "string \<Rightarrow> string \<Rightarrow> string" where
  "derivedRelationshipId parentId field = ''rel_derived_'' @ derivedKey parentId field"

end
