(* ===== verification/TextDocument.thy ===== *)
theory TextDocument
  imports TextWire
begin

text \<open>
  The document facade (packages/schema/src/collaborative-text/text-document.ts): the class
  \<^verbatim>\<open>TextDocument\<close> as a record, its methods as functions on it, and the registry of open documents.

  \<^verbatim>\<open>Date.now()\<close> and the random part of a new Action id are arguments. A listener is a callback of the
  application: an edit returns the events it fires, in order. Handing an Action to the bound write path is
  an output of the edit, and \<open>submit_resolved\<close> is the callback that runs when the write settles. Whether two object references
  are identical, which \<^verbatim>\<open>hydrate\<close> tests to skip a repeated content version, is an argument. As in
  \<open>CausalTree\<close> the result \<^const>\<open>None\<close> stands for a walk that does not end.
\<close>

section \<open>Data\<close>

datatype UpdateKind = KindInsert | KindExtend | KindTombstone

record AppliedUpdate =
  ev_action :: Action
  ev_runId :: string
  ev_kind :: UpdateKind

record TextDocument =
  td_docId :: string
  td_actorId :: string
  td_docType :: string
  td_state :: DocState
  td_hydrated :: "(field_value option \<times> DocState) option"
  td_pending :: "Action list"
  td_localHlc :: HLCState
  td_updateCounter :: nat
  td_submit :: bool

record LocalInsertOptions =
  li_afterRun :: "string option"
  li_splitParentAt :: "int option"
  li_hlc :: "hlc option"

record LocalDeleteOptions =
  ld_runId :: string
  ld_offset :: int
  ld_count :: int
  ld_hlc :: "hlc option"

record LocalExtendOptions =
  le_runId :: string
  le_appendText :: string
  le_hlc :: "hlc option"

text \<open>What an edit returns: the id the caller gets (or null), the events fired and the Actions handed to the write path.\<close>

record EditResult =
  er_result :: "string option"
  er_events :: "AppliedUpdate list"
  er_submitted :: "Action list"

section \<open>Construction and reads\<close>

definition newTextDocument :: "string \<Rightarrow> string \<Rightarrow> string option \<Rightarrow> TextDocument" where
  "newTextDocument docId actorId docType =
     \<lparr>td_docId = docId, td_actorId = actorId, td_docType = getOr docType DEFAULT_DOC_SUBJECT_TYPE,
      td_state = createDocState, td_hydrated = None, td_pending = [], td_localHlc = \<lparr>clock_l = 0, clock_c = 0\<rparr>,
      td_updateCounter = 0, td_submit = False\<rparr>"

definition setSubmit :: "bool \<Rightarrow> TextDocument \<Rightarrow> TextDocument" where
  "setSubmit bound doc = doc\<lparr>td_submit := bound\<rparr>"

definition doc_text :: "TextDocument \<Rightarrow> string option" where
  "doc_text doc = reconstruct (td_state doc)"

definition advanceLocalHlc :: "int \<Rightarrow> HLCState \<Rightarrow> hlc \<times> HLCState" where
  "advanceLocalHlc now state =
     (let state' = (if now > clock_l state then \<lparr>clock_l = now, clock_c = 0\<rparr> else state\<lparr>clock_c := clock_c state + 1\<rparr>)
      in (pack (clock_l state') (clock_c state'), state'))"

definition hydrate :: "bool \<Rightarrow> field_value option \<Rightarrow> TextDocument \<Rightarrow> TextDocument option" where
  "hydrate sameVersion content doc =
     (if td_hydrated doc \<noteq> None \<and> sameVersion then Some doc
      else (let runs = parseContentField content in
        if length runs > 0
        then do {
          (st, applied) \<leftarrow> applyRunFieldUpdates (td_state doc) runs;
          Some (doc\<lparr>td_state := st, td_hydrated := Some (content, st)\<rparr>)
        }
        else Some (doc\<lparr>td_hydrated := Some (content, td_state doc)\<rparr>)))"

definition findLastVisibleRunId :: "TextDocument \<Rightarrow> string option" where
  "findLastVisibleRunId doc =
     (let spans = pi_spans (ds_index (td_state doc)) in if length spans = 0 then None else Some (span_runId (last spans)))"

section \<open>Remote Actions\<close>

definition appliedToEvent :: "DocAction \<Rightarrow> Action \<Rightarrow> AppliedUpdate option" where
  "appliedToEvent docAction action = (case docAction of
     InsertRun node \<Rightarrow> Some \<lparr>ev_action = action, ev_runId = run_id node, ev_kind = KindInsert\<rparr>
   | ExtendRun runId appendText h \<Rightarrow> Some \<lparr>ev_action = action, ev_runId = runId, ev_kind = KindExtend\<rparr>
   | DeleteRange runId offset count \<Rightarrow> Some \<lparr>ev_action = action, ev_runId = runId, ev_kind = KindTombstone\<rparr>
   | Split runId offset \<Rightarrow> None)"

definition doc_applyActions :: "Action list \<Rightarrow> TextDocument \<Rightarrow> (TextDocument \<times> AppliedUpdate list) option" where
  "doc_applyActions actions doc =
     (if length actions = 0 then Some (doc, [])
      else do {
        (post, applied) \<leftarrow> applyActions (td_state doc) actions (td_docType doc);
        Some (doc\<lparr>td_state := post\<rparr>, List.map_filter (\<lambda>(docAction, action). appliedToEvent docAction action) applied)
      })"

definition doc_applyUpdate :: "Update \<Rightarrow> TextDocument \<Rightarrow> (TextDocument \<times> AppliedUpdate list) option" where
  "doc_applyUpdate update doc = doc_applyActions [synthetic_action update] doc"

section \<open>The pending queue\<close>

definition pendingActions :: "TextDocument \<Rightarrow> Action list" where
  "pendingActions doc = td_pending doc"

definition ackPending :: "string list \<Rightarrow> TextDocument \<Rightarrow> TextDocument" where
  "ackPending actionIds doc = doc\<lparr>td_pending := filter (\<lambda>action. act_id action \<notin> set actionIds) (td_pending doc)\<rparr>"

definition selfFlush :: "Action \<Rightarrow> TextDocument \<Rightarrow> Action list" where
  "selfFlush action doc = (if \<not> td_submit doc then [] else [action])"

text \<open>The write settled with a response listing the rejected Actions, or it threw (\<^const>\<open>None\<close>).\<close>

definition submit_resolved :: "string \<Rightarrow> string list option \<Rightarrow> TextDocument \<Rightarrow> TextDocument" where
  "submit_resolved actionId rejected doc = (case rejected of
     None \<Rightarrow> doc
   | Some ids \<Rightarrow> if length ids = 0 then ackPending [actionId] doc else doc)"

definition clearPending :: "TextDocument \<Rightarrow> TextDocument" where
  "clearPending doc = doc\<lparr>td_pending := []\<rparr>"

section \<open>Local edits\<close>

definition rejected_edit :: "TextDocument \<Rightarrow> TextDocument \<times> EditResult" where
  "rejected_edit doc = (doc, \<lparr>er_result = None, er_events = [], er_submitted = []\<rparr>)"

text \<open>The end of every edit: the Action is queued and handed on, then the listeners are told.\<close>

definition queue_edit :: "Action \<Rightarrow> string \<Rightarrow> UpdateKind \<Rightarrow> string \<Rightarrow> TextDocument \<Rightarrow> TextDocument \<times> EditResult" where
  "queue_edit action runId kind result doc =
     (let doc' = doc\<lparr>td_pending := td_pending doc @ [action]\<rparr>
      in (doc', \<lparr>er_result = Some result, er_events = [\<lparr>ev_action = action, ev_runId = runId, ev_kind = kind\<rparr>],
                 er_submitted = selfFlush action doc'\<rparr>))"

definition localInsert ::
  "string \<Rightarrow> int \<Rightarrow> string \<Rightarrow> LocalInsertOptions \<Rightarrow> TextDocument \<Rightarrow> (TextDocument \<times> EditResult) option" where
  "localInsert random now body opts doc =
     (let parentId = getOr (li_afterRun opts) (getOr (findLastVisibleRunId doc) ''ROOT'');
          (h, clock) = advanceLocalHlc now (td_localHlc doc);
          doc1 = doc\<lparr>td_localHlc := clock\<rparr>;
          finalHlc = getOr (li_hlc opts) h;
          runId = makeRunId finalHlc (td_actorId doc);
          node = \<lparr>run_id = runId, run_hlc = finalHlc, run_actorId = td_actorId doc, run_text = body,
            run_parentId = parentId, run_deleted = False\<rparr>;
          pre = td_state doc1;
          validOffset = (case li_splitParentAt opts of
              None \<Rightarrow> True
            | Some k \<Rightarrow> (case map_of (ds_nodes pre) parentId of
                None \<Rightarrow> False | Some parentNode \<Rightarrow> k \<ge> 1 \<and> k < int (length (run_text parentNode))))
      in if \<not> validOffset then Some (rejected_edit doc1)
         else do {
           next1 \<leftarrow> (case li_splitParentAt opts of None \<Rightarrow> Some pre | Some k \<Rightarrow> docReducer pre (Split parentId k));
           next2 \<leftarrow> docReducer next1 (InsertRun node);
           (let doc2 = doc1\<lparr>td_state := next2\<rparr>;
               updateId = ''u_'' @ runId;
               fields = diffRunFields pre next2 updateId finalHlc
           in (case docActionToUpdate fields (td_docId doc) updateId (Some (td_docType doc)) of
                 None \<Rightarrow> Some (rejected_edit doc2)
               | Some update \<Rightarrow>
                   Some (queue_edit \<lparr>act_id = ID_PREFIX_ACTION @ ''_'' @ random, actor_id = td_actorId doc, act_hlc = finalHlc,
                     act_gsn = 0, act_updates = [update]\<rparr> runId KindInsert runId doc2)))
         })"

definition localDelete ::
  "string \<Rightarrow> int \<Rightarrow> LocalDeleteOptions \<Rightarrow> TextDocument \<Rightarrow> (TextDocument \<times> EditResult) option" where
  "localDelete random now opts doc =
     (case map_of (ds_nodes (td_state doc)) (ld_runId opts) of
        None \<Rightarrow> Some (rejected_edit doc)
      | Some node \<Rightarrow>
          if run_deleted node then Some (rejected_edit doc)
          else if ld_offset opts < 0 \<or> ld_count opts \<le> 0 \<or> ld_offset opts + ld_count opts > int (length (run_text node))
          then Some (rejected_edit doc)
          else
            (let (h, clock) = advanceLocalHlc now (td_localHlc doc);
                 finalHlc = getOr (ld_hlc opts) h;
                 pre = td_state doc
             in do {
               post \<leftarrow> docReducer pre (DeleteRange (ld_runId opts) (ld_offset opts) (ld_count opts));
               (let updateId = ''u_del_'' @ dec_nat (td_updateCounter doc);
                   doc1 = doc\<lparr>td_localHlc := clock, td_state := post, td_updateCounter := Suc (td_updateCounter doc)\<rparr>;
                   fields = diffRunFieldsForDeleteRange pre post updateId finalHlc
               in (case fields of
                     [] \<Rightarrow> Some (rejected_edit doc1)
                   | (k, first) # others \<Rightarrow>
                       (case docActionToUpdate fields (td_docId doc) (rf_update_id first) (Some (td_docType doc)) of
                          None \<Rightarrow> Some (rejected_edit doc1)
                        | Some update \<Rightarrow>
                            (let aid = ID_PREFIX_ACTION @ ''_'' @ random in
                             Some (queue_edit \<lparr>act_id = aid, actor_id = td_actorId doc, act_hlc = finalHlc, act_gsn = 0,
                               act_updates = [update]\<rparr> (ld_runId opts) KindTombstone aid doc1)))))
             }))"

definition localExtend ::
  "string \<Rightarrow> int \<Rightarrow> LocalExtendOptions \<Rightarrow> TextDocument \<Rightarrow> (TextDocument \<times> EditResult) option" where
  "localExtend random now opts doc =
     (if length (le_appendText opts) = 0 then Some (rejected_edit doc)
      else (case map_of (ds_nodes (td_state doc)) (le_runId opts) of
        None \<Rightarrow> Some (rejected_edit doc)
      | Some node \<Rightarrow>
          if run_deleted node then Some (rejected_edit doc)
          else
            (let (h, clock) = advanceLocalHlc now (td_localHlc doc);
                 finalHlc = getOr (le_hlc opts) h;
                 pre = td_state doc
             in do {
               post \<leftarrow> docReducer pre (ExtendRun (le_runId opts) (le_appendText opts) finalHlc);
               (let updateId = ''u_ext_'' @ dec_nat (td_updateCounter doc);
                   doc1 = doc\<lparr>td_localHlc := clock, td_state := post, td_updateCounter := Suc (td_updateCounter doc)\<rparr>;
                   fields = diffRunFields pre post updateId finalHlc
               in (case fields of
                     [] \<Rightarrow> Some (rejected_edit doc1)
                   | (k, first) # others \<Rightarrow>
                       (case docActionToUpdate fields (td_docId doc) (rf_update_id first) (Some (td_docType doc)) of
                          None \<Rightarrow> Some (rejected_edit doc1)
                        | Some update \<Rightarrow>
                            (let aid = ID_PREFIX_ACTION @ ''_'' @ random in
                             Some (queue_edit \<lparr>act_id = aid, actor_id = td_actorId doc, act_hlc = finalHlc, act_gsn = 0,
                               act_updates = [update]\<rparr> (le_runId opts) KindExtend aid doc1)))))
             })))"

definition reset :: "TextDocument \<Rightarrow> TextDocument" where
  "reset doc = doc\<lparr>td_state := createDocState, td_hydrated := None, td_pending := [],
     td_localHlc := \<lparr>clock_l = 0, clock_c = 0\<rparr>, td_updateCounter := 0\<rparr>"

section \<open>The registry\<close>

type_synonym TextDocumentRegistry = "TextDocument obj"

definition registry_open :: "string \<Rightarrow> string \<Rightarrow> string option \<Rightarrow> TextDocumentRegistry \<Rightarrow> TextDocument \<times> TextDocumentRegistry" where
  "registry_open docId actorId docType docs =
     (let fresh = newTextDocument docId actorId docType; created = (fresh, obj_set docs docId fresh) in
      case map_of docs docId of
        Some existing \<Rightarrow>
          if td_actorId existing = actorId \<and> getOr docType DEFAULT_DOC_SUBJECT_TYPE = td_docType existing
          then (existing, docs) else created
      | None \<Rightarrow> created)"

definition registry_get :: "string \<Rightarrow> TextDocumentRegistry \<Rightarrow> TextDocument option" where
  "registry_get docId docs = map_of docs docId"

definition registry_close :: "string \<Rightarrow> TextDocumentRegistry \<Rightarrow> bool \<times> TextDocumentRegistry" where
  "registry_close docId docs = (map_of docs docId \<noteq> None, obj_delete docs docId)"

definition registry_list :: "TextDocumentRegistry \<Rightarrow> TextDocument list" where
  "registry_list docs = map snd docs"

end
