(* ===== verification/TreeIndex.thy ===== *)
theory TreeIndex
  imports CausalTree
begin

text \<open>
  The causal tree as a tree: an ordered tree of runs that a document state represents, its preorder as
  the document order, and the incremental span index as the list of visible runs of that order. Every
  reducer step is a local change of the tree; the index it maintains is the one a full traversal gives.
\<close>

section \<open>Ordered trees of runs\<close>

datatype rtree = RT (root: RunNode) (subs: "rtree list")

abbreviation rid :: "rtree \<Rightarrow> string" where
  "rid t \<equiv> run_id (root t)"

fun pre :: "rtree \<Rightarrow> RunNode list" where
  "pre (RT n ts) = n # concat (map pre ts)"

fun kids :: "rtree \<Rightarrow> (string \<times> string list) list" where
  "kids (RT n ts) = (run_id n, map rid ts) # concat (map kids ts)"

abbreviation ids :: "RunNode list \<Rightarrow> string list" where
  "ids ns \<equiv> map run_id ns"

lemma kids_keys: "map fst (kids t) = ids (pre t)"
  by (induction t) (simp add: map_concat comp_def cong: map_cong)

lemma rid_in_pre [simp]: "root t \<in> set (pre t)"
  by (cases t) simp

text \<open>A node of a tree, with what comes before and after it; its subtree can be exchanged.\<close>

lemma locate:
  assumes "i \<in> set (ids (pre t))"
  shows "\<exists>s L R KL KR. rid s = i \<and> pre t = L @ pre s @ R \<and> kids t = KL @ kids s @ KR \<and>
    (\<forall>s'. rid s' = i \<longrightarrow> (\<exists>t'. rid t' = rid t \<and> pre t' = L @ pre s' @ R \<and> kids t' = KL @ kids s' @ KR))"
  using assms
proof (induction t)
  case (RT n ts)
  show ?case
  proof (cases "run_id n = i")
    case True
    then show ?thesis
      by (intro exI [of _ "RT n ts"] exI [of _ "[]"]) auto
  next
    case False
    with RT.prems obtain u where u: "u \<in> set ts" "i \<in> set (ids (pre u))" by auto
    from split_list [OF u(1)] obtain A B where ts: "ts = A @ u # B" by blast
    from RT.IH [OF u] obtain s L R KL KR where s: "rid s = i" "pre u = L @ pre s @ R" "kids u = KL @ kids s @ KR"
      and ex: "\<And>s'. rid s' = i \<Longrightarrow> \<exists>t'. rid t' = rid u \<and> pre t' = L @ pre s' @ R \<and> kids t' = KL @ kids s' @ KR"
      by blast
    let ?L = "n # concat (map pre A) @ L" and ?R = "R @ concat (map pre B)"
    let ?KL = "(run_id n, map rid ts) # concat (map kids A) @ KL" and ?KR = "KR @ concat (map kids B)"
    have "\<exists>t'. rid t' = rid (RT n ts) \<and> pre t' = ?L @ pre s' @ ?R \<and> kids t' = ?KL @ kids s' @ ?KR" if "rid s' = i" for s'
    proof -
      from ex [OF that] obtain u' where "rid u' = rid u" "pre u' = L @ pre s' @ R" "kids u' = KL @ kids s' @ KR" by blast
      then show ?thesis by (intro exI [of _ "RT n (A @ u' # B)"]) (simp add: ts)
    qed
    moreover have "pre (RT n ts) = ?L @ pre s @ ?R" "kids (RT n ts) = ?KL @ kids s @ ?KR" using s by (simp_all add: ts)
    ultimately show ?thesis using s(1) by blast
  qed
qed

section \<open>Walks over a represented tree\<close>

lemma dfs_tree:
  assumes "\<forall>n \<in> set (pre t). map_of nodes (run_id n) = Some n" "\<forall>(i, cs) \<in> set (kids t). map_of children i = Some cs"
  shows "dfs_list nodes children (rid t # rest) = map_option ((@) (pre t)) (dfs_list nodes children rest)"
  using assms
proof (induction t arbitrary: rest)
  case (RT n ts)
  have all: "dfs_list nodes children (map rid us @ rest) = map_option ((@) (concat (map pre us))) (dfs_list nodes children rest)"
    if "set us \<subseteq> set ts" for us rest
    using that
  proof (induction us)
    case Nil
    then show ?case by (simp add: option.map_id0 id_def [symmetric])
  next
    case (Cons u us)
    have "\<forall>n \<in> set (pre u). map_of nodes (run_id n) = Some n" "\<forall>(i, cs) \<in> set (kids u). map_of children i = Some cs"
      using Cons.prems RT.prems by auto
    with RT.IH [of u] Cons show ?case by (simp add: option.map_comp comp_def)
  qed
  have "dfs_list nodes children [] = Some []" by (subst dfs_list.simps) simp
  with all [of ts "[]"] have "dfs_list nodes children (map rid ts) = Some (concat (map pre ts))" by simp
  then show ?case using RT.prems
    by (subst dfs_list.simps) (cases "dfs_list nodes children rest"; simp)
qed

lemma collect_tree:
  assumes "\<forall>(i, cs) \<in> set (kids t). map_of children i = Some cs"
  shows "collect_loop children (rid t # rest) acc = collect_loop children rest (fold (\<lambda>i s. set_add s i) (ids (pre t)) acc)"
  using assms
proof (induction t arbitrary: rest acc)
  case (RT n ts)
  have all: "collect_loop children (map rid us @ rest) acc =
      collect_loop children rest (fold (\<lambda>i s. set_add s i) (ids (concat (map pre us))) acc)"
    if "set us \<subseteq> set ts" for us rest acc
    using that
  proof (induction us arbitrary: acc)
    case Nil
    then show ?case by simp
  next
    case (Cons u us)
    have "\<forall>(i, cs) \<in> set (kids u). map_of children i = Some cs" using Cons.prems RT.prems by auto
    with RT.IH [of u] Cons show ?case by simp
  qed
  show ?case using RT.prems all [of ts] by (subst collect_loop.simps) simp
qed

lemma fold_set_add_set: "set (fold (\<lambda>i s. set_add s i) xs acc) = set xs \<union> set acc"
  by (induction xs arbitrary: acc) (auto simp: js_simps)

lemma collectSubtreeIds_tree:
  assumes "\<forall>(i, cs) \<in> set (kids t). map_of (ds_children st) i = Some cs"
  shows "\<exists>is. collectSubtreeIds st (rid t) = Some is \<and> set is = set (ids (pre t))"
proof -
  have "collect_loop (ds_children st) [] acc = Some acc" for acc by (subst collect_loop.simps) simp
  then show ?thesis
    using collect_tree [OF assms, of "[]" "[]"] by (simp add: collectSubtreeIds_def fold_set_add_set)
qed

section \<open>The index of a preorder\<close>

definition visible :: "RunNode \<Rightarrow> bool" where
  "visible n \<longleftrightarrow> \<not> run_deleted n \<and> run_id n \<noteq> ROOT_ID"

definition span_of :: "RunNode \<Rightarrow> RunSpan" where
  "span_of n = \<lparr>span_runId = run_id n, span_length = int (length (run_text n))\<rparr>"

definition spans_of :: "RunNode list \<Rightarrow> RunSpan list" where
  "spans_of ns = map span_of (filter visible ns)"

definition text_of :: "RunNode list \<Rightarrow> string" where
  "text_of ns = concat (map run_text (filter visible ns))"

definition index_of :: "RunNode list \<Rightarrow> PositionIndex" where
  "index_of ns = \<lparr>pi_spans = spans_of ns, pi_totalLength = int (length (text_of ns))\<rparr>"

lemma spans_of_simps [simp]:
  "spans_of [] = []" "spans_of (n # ns) = (if visible n then [span_of n] else []) @ spans_of ns"
  "spans_of (ms @ ns) = spans_of ms @ spans_of ns"
  by (simp_all add: spans_of_def)

lemma text_of_simps [simp]:
  "text_of [] = []" "text_of (n # ns) = (if visible n then run_text n else []) @ text_of ns"
  "text_of (ms @ ns) = text_of ms @ text_of ns"
  by (simp_all add: text_of_def)

lemma spans_of_ids: "s \<in> set (spans_of ns) \<Longrightarrow> span_runId s \<in> set (ids ns)"
  by (auto simp: spans_of_def span_of_def)

lemma spans_of_length: "sum_list (map span_length (spans_of ns)) = int (length (text_of ns))"
  by (induction ns) (auto simp: span_of_def)

lemma takeWhile_block: "\<forall>x \<in> set xs. P x \<Longrightarrow> \<forall>y \<in> set ys. \<not> P y \<Longrightarrow> takeWhile P (xs @ ys) = xs"
  by (induction xs) (cases ys; simp)+

lemma skip_siblings_tree:
  assumes "pi_spans (ds_index st) = spans_of (A @ concat (map pre us) @ B)"
    "distinct (ids (A @ concat (map pre us) @ B))"
    "\<forall>u \<in> set us. \<forall>(i, cs) \<in> set (kids u). map_of (ds_children st) i = Some cs"
  shows "skip_siblings st (map rid us) (length (spans_of A)) = Some (length (spans_of (A @ concat (map pre us))))"
  using assms
proof (induction us arbitrary: A)
  case Nil
  then show ?case by simp
next
  case (Cons u us)
  obtain "is" where c: "collectSubtreeIds st (rid u) = Some is" "set is = set (ids (pre u))"
    using collectSubtreeIds_tree [of u st] Cons.prems(3) by auto
  let ?rest = "spans_of (concat (map pre us) @ B)"
  have d: "drop (length (spans_of A)) (pi_spans (ds_index st)) = spans_of (pre u) @ ?rest"
    using Cons.prems(1) by simp
  have "takeWhile (\<lambda>s. span_runId s \<in> set is) (spans_of (pre u) @ ?rest) = spans_of (pre u)"
  proof -
    have "\<forall>s \<in> set (spans_of (pre u)). span_runId s \<in> set is" using c(2) spans_of_ids by blast
    moreover have "span_runId s \<notin> set is" if "s \<in> set ?rest" for s
    proof -
      have "set (ids (pre u)) \<inter> set (ids (concat (map pre us) @ B)) = {}" using Cons.prems(2) by (simp, blast?)
      then show ?thesis using spans_of_ids [OF that] c(2) by blast
    qed
    ultimately show ?thesis by (intro takeWhile_block) blast+
  qed
  then have "skip_spans (pi_spans (ds_index st)) is (length (spans_of A)) = length (spans_of (A @ pre u))"
    by (simp add: skip_spans_def d)
  with c(1) Cons.IH [of "A @ pre u"] Cons.prems show ?case by simp
qed

section \<open>The tree a document state represents\<close>

definition represents :: "DocState \<Rightarrow> rtree \<Rightarrow> bool" where
  "represents st t \<longleftrightarrow> rid t = ROOT_ID \<and> distinct (ids (pre t)) \<and>
     (\<forall>n \<in> set (pre t). map_of (ds_nodes st) (run_id n) = Some n) \<and>
     (\<forall>i. map_of (ds_nodes st) i \<noteq> None \<longrightarrow> i \<in> set (ids (pre t))) \<and>
     (\<forall>(i, cs) \<in> set (kids t). map_of (ds_children st) i = Some cs) \<and>
     (\<forall>i. map_of (ds_children st) i \<noteq> None \<longrightarrow> i \<in> set (ids (pre t))) \<and>
     ds_index st = index_of (pre t)"

lemma represents_node: "represents st t \<Longrightarrow> map_of (ds_nodes st) i = Some n \<Longrightarrow> n \<in> set (pre t) \<and> run_id n = i"
  unfolding represents_def by force

lemma represents_children: "represents st t \<Longrightarrow> (i, cs) \<in> set (kids t) \<Longrightarrow> map_of (ds_children st) i = Some cs"
  by (auto simp: represents_def)

lemma represents_reads:
  assumes "represents st t"
  shows "dfs st ROOT_ID = Some (pre t)" "reconstruct st = Some (text_of (pre t))"
proof -
  have "dfs_list (ds_nodes st) (ds_children st) [] = Some []" by (subst dfs_list.simps) simp
  with dfs_tree [of t "ds_nodes st" "ds_children st" "[]"] assms show "dfs st ROOT_ID = Some (pre t)"
    by (simp add: dfs_def represents_def)
  then show "reconstruct st = Some (text_of (pre t))" by (simp add: reconstruct_def text_of_def visible_def [abs_def])
qed

text \<open>A run of the state with its place in the document: the text before it, its subtree, the text after.\<close>

lemma represents_locate:
  assumes "represents st t" "map_of (ds_nodes st) i = Some n"
  shows "\<exists>ts L R KL KR. pre t = L @ n # concat (map pre ts) @ R \<and>
    kids t = KL @ (i, map rid ts) # concat (map kids ts) @ KR \<and> run_id n = i \<and>
    (\<forall>s'. rid s' = i \<longrightarrow> (\<exists>t'. rid t' = ROOT_ID \<and> pre t' = L @ pre s' @ R \<and> kids t' = KL @ kids s' @ KR))"
proof -
  have n: "n \<in> set (pre t)" "run_id n = i" using represents_node [OF assms] by auto
  then have "i \<in> set (ids (pre t))" by auto
  from locate [OF this] obtain s L R KL KR where s: "rid s = i" "pre t = L @ pre s @ R" "kids t = KL @ kids s @ KR"
    and ex: "\<And>s'. rid s' = i \<Longrightarrow> \<exists>t'. rid t' = rid t \<and> pre t' = L @ pre s' @ R \<and> kids t' = KL @ kids s' @ KR"
    by blast
  obtain m ts where m: "s = RT m ts" by (cases s)
  have "m \<in> set (pre t)" using s(2) m by simp
  then have "map_of (ds_nodes st) i = Some m" using assms(1) s(1) m unfolding represents_def by auto
  then have "m = n" using assms(2) by simp
  moreover have "rid t = ROOT_ID" using assms(1) by (simp add: represents_def)
  ultimately have "pre t = L @ n # concat (map pre ts) @ R" "kids t = KL @ (i, map rid ts) # concat (map kids ts) @ KR"
    "\<forall>s'. rid s' = i \<longrightarrow> (\<exists>t'. rid t' = ROOT_ID \<and> pre t' = L @ pre s' @ R \<and> kids t' = KL @ kids s' @ KR)"
    using \<open>run_id n = i\<close> s m ex by simp_all
  with \<open>run_id n = i\<close> show ?thesis by blast
qed

section \<open>Changing one run\<close>

lemma replace_node:
  assumes "represents st t" "map_of (ds_nodes st) i = Some n" "run_id n' = i"
  obtains L M t' where "pre t = L @ n # M" "pre t' = L @ n' # M" "i \<notin> set (ids L)" "i \<notin> set (ids M)"
    "represents \<lparr>ds_nodes = obj_set (ds_nodes st) i n', ds_children = ds_children st, ds_index = index_of (L @ n' # M)\<rparr> t'"
proof -
  obtain ts L R KL KR where p: "pre t = L @ n # concat (map pre ts) @ R"
    and k: "kids t = KL @ (i, map rid ts) # concat (map kids ts) @ KR" and i: "run_id n = i"
    and ex: "\<And>s'. rid s' = i \<Longrightarrow> \<exists>t'. rid t' = ROOT_ID \<and> pre t' = L @ pre s' @ R \<and> kids t' = KL @ kids s' @ KR"
    using represents_locate [OF assms(1,2)] by blast
  let ?M = "concat (map pre ts) @ R"
  obtain t' where t': "rid t' = ROOT_ID" "pre t' = L @ n' # ?M" "kids t' = kids t"
    using ex [of "RT n' ts"] assms(3) k by auto
  have d: "distinct (ids (pre t))" using assms(1) by (simp add: represents_def)
  then have fresh: "i \<notin> set (ids L)" "i \<notin> set (ids ?M)" unfolding p using i by auto
  have same: "ids (pre t') = ids (pre t)" using t'(2) p i assms(3) by simp
  have "map_of (obj_set (ds_nodes st) i n') (run_id m) = Some m" if "m \<in> set (pre t')" for m
  proof (cases "m = n'")
    case False
    with that t'(2) have m: "m \<in> set L \<union> set ?M" by auto
    then have "m \<in> set (pre t)" using p by auto
    moreover have "run_id m \<noteq> i" using m fresh by (metis Un_iff image_eqI list.set_map)
    ultimately show ?thesis using assms(1) by (simp add: represents_def obj_set_get)
  qed (simp add: assms(3) obj_set_get)
  then have "represents \<lparr>ds_nodes = obj_set (ds_nodes st) i n', ds_children = ds_children st, ds_index = index_of (L @ n' # ?M)\<rparr> t'"
    using assms(1,2) d unfolding represents_def same t'(2) [symmetric] t'(3)
    by (auto simp: t'(1) obj_set_get)
  then show thesis using that [of L ?M t'] p t'(2) fresh by blast
qed

lemma spans_other: "i \<notin> set (ids ns) \<Longrightarrow> s \<in> set (spans_of ns) \<Longrightarrow> span_runId s \<noteq> i"
  using spans_of_ids by blast

lemma filter_spans_other: "i \<notin> set (ids ns) \<Longrightarrow> filter (\<lambda>s. span_runId s \<noteq> i) (spans_of ns) = spans_of ns"
  by (rule filter_True) (use spans_other in blast)

lemma map_spans_other: "i \<notin> set (ids ns) \<Longrightarrow> map (\<lambda>s. if span_runId s = i then f s else s) (spans_of ns) = spans_of ns"
  by (rule map_idI) (use spans_other in auto)

text \<open>What a step does to the document: the state represents a tree again, of which the preorder is given.\<close>

definition becomes :: "DocState \<Rightarrow> RunNode list \<Rightarrow> bool" where
  "becomes st ns \<longleftrightarrow> (\<exists>t. represents st t \<and> pre t = ns)"

lemma tombstone_step:
  assumes "represents st t" "map_of (ds_nodes st) i = Some n" "\<not> run_deleted n" "i \<noteq> ROOT_ID"
  obtains L M where "pre t = L @ n # M" "becomes (tombstoneRun st i) (L @ n\<lparr>run_deleted := True\<rparr> # M)"
proof -
  have i: "run_id n = i" using represents_node [OF assms(1,2)] by simp
  obtain L M t' where p: "pre t = L @ n # M" "pre t' = L @ n\<lparr>run_deleted := True\<rparr> # M" "i \<notin> set (ids L)" "i \<notin> set (ids M)"
    "represents \<lparr>ds_nodes = obj_set (ds_nodes st) i (n\<lparr>run_deleted := True\<rparr>), ds_children = ds_children st,
       ds_index = index_of (L @ n\<lparr>run_deleted := True\<rparr> # M)\<rparr> t'"
    using replace_node [OF assms(1,2), of "n\<lparr>run_deleted := True\<rparr>"] i by auto
  have "ds_index st = index_of (pre t)" using assms(1) by (simp add: represents_def)
  then have "tombstoneRun st i = \<lparr>ds_nodes = obj_set (ds_nodes st) i (n\<lparr>run_deleted := True\<rparr>), ds_children = ds_children st,
       ds_index = index_of (L @ n\<lparr>run_deleted := True\<rparr> # M)\<rparr>"
    using assms(2-4) i p(3,4)
    by (simp add: tombstoneRun_def index_of_def p(1) visible_def filter_spans_other) (simp add: span_of_def)
  with p show thesis using that unfolding becomes_def by metis
qed

lemma retext_step:
  assumes "represents st t" "map_of (ds_nodes st) i = Some n" "\<not> run_deleted n" "i \<noteq> ROOT_ID"
    and n': "run_id n' = i" "\<not> run_deleted n'"
    and st': "st' = \<lparr>ds_nodes = obj_set (ds_nodes st) i n', ds_children = ds_children st,
       ds_index = \<lparr>pi_spans = map (\<lambda>s. if span_runId s = i then f s else s) (pi_spans (ds_index st)), pi_totalLength = len\<rparr>\<rparr>"
    and f: "f (span_of n) = span_of n'"
    and total: "len = pi_totalLength (ds_index st) + (int (length (run_text n')) - int (length (run_text n)))"
  obtains L M where "pre t = L @ n # M" "becomes st' (L @ n' # M)"
proof -
  have i: "run_id n = i" using represents_node [OF assms(1,2)] by simp
  obtain L M t' where p: "pre t = L @ n # M" "pre t' = L @ n' # M" "i \<notin> set (ids L)" "i \<notin> set (ids M)"
    "represents \<lparr>ds_nodes = obj_set (ds_nodes st) i n', ds_children = ds_children st, ds_index = index_of (L @ n' # M)\<rparr> t'"
    by (rule replace_node [OF assms(1,2) n'(1)])
  have "ds_index st = index_of (pre t)" using assms(1) by (simp add: represents_def)
  then have "st' = \<lparr>ds_nodes = obj_set (ds_nodes st) i n', ds_children = ds_children st, ds_index = index_of (L @ n' # M)\<rparr>"
    using assms(3,4) i n' p(3,4) f
    by (simp add: st' total index_of_def p(1) visible_def map_spans_other) (simp add: span_of_def)
  with p show thesis using that unfolding becomes_def by metis
qed

section \<open>Inserting a run\<close>

lemma find_index_cong: "(\<And>x. x \<in> set xs \<Longrightarrow> p x = q x) \<Longrightarrow> find_index p xs = find_index q xs"
  by (induction xs) auto

lemma find_index_splice: "k \<le> length xs \<Longrightarrow> x \<notin> set xs \<Longrightarrow> find_index (\<lambda>y. y = x) (splice_in k x xs) = Some k"
proof -
  assume "k \<le> length xs" "x \<notin> set xs"
  moreover have "\<forall>y \<in> set (take k xs). y \<noteq> x" using calculation by (metis in_set_takeD)
  ultimately show ?thesis by (simp add: splice_in_def find_index_append)
qed

lemma siblingInsertIdx_le: "siblingInsertIdx nodes node sibs \<le> length sibs"
  using find_index_Some [of _ sibs] by (fastforce simp: siblingInsertIdx_def getOr_def split: option.splits)

lemma siblingInsertIdx_fresh:
  "i \<notin> set sibs \<Longrightarrow> siblingInsertIdx (obj_set nodes i n) node sibs = siblingInsertIdx nodes node sibs"
  unfolding siblingInsertIdx_def by (rule arg_cong [where f = "\<lambda>x. getOr x _"], rule find_index_cong) (auto simp: obj_set_get)

lemma kids_ids: "(i, cs) \<in> set (kids t) \<Longrightarrow> i \<in> set (ids (pre t))"
  by (metis kids_keys list.set_map image_eqI fst_conv)

lemma rid_in_ids: "u \<in> set us \<Longrightarrow> rid u \<in> set (ids (concat (map pre us)))"
  by (auto intro!: image_eqI [of _ run_id "root u"] bexI [of _ u])

lemma splice_map: "splice_in k (f x) (map f xs) = map f (splice_in k x xs)"
  by (simp add: splice_in_def take_map drop_map)

lemma span_index_of:
  assumes "visible n" "run_id n \<notin> set (ids L)"
  shows "find_index (\<lambda>s. span_runId s = run_id n) (spans_of (L @ n # M)) = Some (length (spans_of L))"
  using assms spans_other [of "run_id n" L] by (auto simp: find_index_append) (simp add: span_of_def)

lemma concat_splice: "concat (map f (splice_in k x xs)) = concat (map f (take k xs)) @ f x @ concat (map f (drop k xs))"
  by (simp add: splice_in_def)

lemma concat_take_drop: "concat (map f (take k xs)) @ concat (map f (drop k xs)) = concat (map f xs)"
  by (metis append_take_drop_id concat_append map_append)

lemma root_first:
  assumes "represents st t" "pre t = L @ p # M" "run_id p = ROOT_ID"
  shows "L = []"
proof (rule ccontr)
  assume "L \<noteq> []"
  then obtain a L' where L: "L = a # L'" by (cases L) auto
  have "a = root t" using assms(2) L by (cases t) simp
  then have "run_id a = run_id p" using assms(1,3) by (simp add: represents_def)
  then show False using assms(1,2) L by (simp add: represents_def)
qed

text \<open>The tree after an insertion among the children of a run.\<close>

lemma insert_represents:
  assumes r: "represents st t" and fresh: "map_of (ds_nodes st) (run_id node) = None"
    and pt: "pre t = L @ p # concat (map pre ts) @ R"
    and k: "kids t = KL @ (run_id p, map rid ts) # concat (map kids ts) @ KR"
    and t': "rid t' = ROOT_ID" "pre t' = L @ p # concat (map pre (splice_in k (RT node []) ts)) @ R"
      "kids t' = KL @ (run_id p, map rid (splice_in k (RT node []) ts)) # concat (map kids (splice_in k (RT node []) ts)) @ KR"
    and st': "map_of (ds_nodes st') = (map_of (ds_nodes st))(run_id node \<mapsto> node)"
      "map_of (ds_children st') = (map_of (ds_children st))
         (run_id p \<mapsto> map rid (splice_in k (RT node []) ts), run_id node \<mapsto> [])"
      "ds_index st' = index_of (pre t')"
  shows "represents st' t'"
proof -
  let ?A = "L @ p # concat (map pre (take k ts))" and ?B = "concat (map pre (drop k ts)) @ R"
  have AB: "pre t = ?A @ ?B" "pre t' = ?A @ node # ?B"
    using concat_take_drop [of pre k ts] by (simp_all add: pt t'(2) concat_splice)
  have d: "distinct (ids (pre t))" using r by (simp add: represents_def)
  have new: "run_id node \<notin> set (ids (pre t))" using r fresh unfolding represents_def by auto
  have nodes': "set (pre t') = insert node (set (pre t))" "distinct (ids (pre t'))"
    using d new unfolding AB by auto
  have keys: "map fst (kids t) = ids (pre t)" by (rule kids_keys)
  have other: "i \<noteq> run_id p \<and> i \<noteq> run_id node \<and> map_of (ds_children st) i = Some cs"
    if "(i, cs) \<in> set KL \<union> set (concat (map kids ts)) \<union> set KR" for i cs
  proof -
    have "(i, cs) \<in> set (kids t)" using that k by auto
    then have "map_of (ds_children st) i = Some cs" "i \<in> set (ids (pre t))"
      using r kids_ids by (auto simp: represents_def)
    moreover have "distinct (map fst (kids t))" using d keys by simp
    then have "run_id p \<notin> fst ` (set KL \<union> set (concat (map kids ts)) \<union> set KR)" unfolding k by auto
    ultimately show ?thesis using that new by (metis fst_conv image_eqI)
  qed
  have kids': "set (kids t') = {(run_id p, map rid (splice_in k (RT node []) ts)), (run_id node, [])} \<union>
      (set KL \<union> set (concat (map kids ts)) \<union> set KR)"
    using arg_cong [OF concat_take_drop [of kids k ts], of set] unfolding t'(3) concat_splice by auto
  have neq: "run_id p \<noteq> run_id node" using new pt by auto
  have "map_of (ds_children st') i = Some cs" if "(i, cs) \<in> set (kids t')" for i cs
  proof (cases "(i, cs) \<in> set KL \<union> set (concat (map kids ts)) \<union> set KR")
    case True
    from other [OF this] show ?thesis by (simp add: st'(2))
  next
    case False
    with that have "(i, cs) = (run_id p, map rid (splice_in k (RT node []) ts)) \<or> (i, cs) = (run_id node, [])"
      unfolding kids' by blast
    with neq show ?thesis by (auto simp: st'(2))
  qed
  then have "\<forall>(i, cs) \<in> set (kids t'). map_of (ds_children st') i = Some cs" by blast
  moreover have "\<forall>n \<in> set (pre t'). map_of (ds_nodes st') (run_id n) = Some n"
    using r new unfolding nodes'(1) st'(1) by (auto simp: represents_def)
  moreover have "run_id p \<in> set (ids (pre t))" using pt by simp
  ultimately show ?thesis
    using r t'(1) nodes' st'(3) by (auto simp: represents_def st'(1,2) split: if_splits)
qed

lemma insert_step:
  assumes r: "represents st t" and fresh: "map_of (ds_nodes st) (run_id node) = None"
    and par: "map_of (ds_nodes st) (run_parentId node) = Some p"
    and live: "run_parentId node = ROOT_ID \<or> \<not> run_deleted p"
  obtains st' L R ts where "pre t = L @ p # concat (map pre ts) @ R" "applyInsertRun st node = Some st'"
    "map_of (ds_children st) (run_parentId node) = Some (map rid ts)"
    "run_id p = run_parentId node" "\<forall>u \<in> set ts. set (kids u) \<subseteq> set (kids t)"
    "becomes st' (L @ p # concat (map pre (splice_in (siblingInsertIdx (ds_nodes st) node (map rid ts)) (RT node []) ts)) @ R)"
proof -
  obtain ts L R KL KR where pt: "pre t = L @ p # concat (map pre ts) @ R"
    and k: "kids t = KL @ (run_parentId node, map rid ts) # concat (map kids ts) @ KR" and i: "run_id p = run_parentId node"
    and ex: "\<And>s'. rid s' = run_parentId node \<Longrightarrow>
      \<exists>t'. rid t' = ROOT_ID \<and> pre t' = L @ pre s' @ R \<and> kids t' = KL @ kids s' @ KR"
    using represents_locate [OF r par] by blast
  let ?k = "siblingInsertIdx (ds_nodes st) node (map rid ts)"
  let ?us = "splice_in ?k (RT node []) ts"
  obtain t' where t': "rid t' = ROOT_ID" "pre t' = L @ p # concat (map pre ?us) @ R"
    "kids t' = KL @ (run_id p, map rid ?us) # concat (map kids ?us) @ KR"
    using ex [of "RT p ?us"] i by auto
  have d: "distinct (ids (pre t))" and idx: "ds_index st = index_of (pre t)" using r by (simp_all add: represents_def)
  have new: "run_id node \<notin> set (ids (pre t))" using r fresh unfolding represents_def by auto
  have ch: "map_of (ds_children st) (run_parentId node) = Some (map rid ts)" using r k by (auto simp: represents_def)
  have chn: "map_of (ds_children st) (run_id node) = None" using r new unfolding represents_def by blast
  have new_sib: "run_id node \<notin> set (map rid ts)"
    using new pt rid_in_ids [of _ ts] by auto
  have kle: "?k \<le> length ts" using siblingInsertIdx_le [of "ds_nodes st" node "map rid ts"] by simp
  have pn: "run_parentId node \<noteq> run_id node" using par fresh by auto
  let ?nodes = "obj_set (ds_nodes st) (run_id node) node"
  let ?ch1 = "obj_set (ds_children st) (run_parentId node) (splice_in ?k (run_id node) (map rid ts))"
  let ?ch = "obj_set ?ch1 (run_id node) []"
  let ?s1 = "\<lparr>ds_nodes = ?nodes, ds_children = ?ch, ds_index = ds_index st\<rparr>"
  have sibs: "splice_in ?k (run_id node) (map rid ts) = map rid ?us"
    using splice_map [of ?k rid "RT node []" ts] by simp
  have chget: "map_of ?ch = (map_of (ds_children st))(run_id p \<mapsto> map rid ?us, run_id node \<mapsto> [])"
    by (simp add: obj_set_get sibs i)
  let ?A = "L @ p # concat (map pre (take ?k ts))" and ?B = "concat (map pre (drop ?k ts)) @ R"
  let ?st' = "\<lparr>ds_nodes = ?nodes, ds_children = ?ch, ds_index = index_of (pre t')\<rparr>"
  have AB: "pre t = ?A @ ?B" "pre t' = ?A @ node # ?B"
    using concat_take_drop [of pre ?k ts] by (simp_all add: pt t'(2) concat_splice)
  have rep: "represents ?st' t'"
    by (rule insert_represents [OF r fresh pt k [folded i] t']) (simp_all add: obj_set_get sibs i)
  have kid: "\<forall>u \<in> set (take ?k ts). \<forall>(j, cs) \<in> set (kids u). map_of (ds_children ?s1) j = Some cs"
  proof -
    have "map_of ?ch j = Some cs" if "u \<in> set (take ?k ts)" "(j, cs) \<in> set (kids u)" for u j cs
    proof -
      have "(j, cs) \<in> set (kids t')" using that unfolding t'(3) concat_splice by auto
      from represents_children [OF rep this] show ?thesis by simp
    qed
    then show ?thesis by auto
  qed
  have skip: "skip_siblings ?s1 (map rid (take ?k ts)) (length (spans_of (L @ [p]))) = Some (length (spans_of ?A))"
    using skip_siblings_tree [OF _ _ kid, of "L @ [p]" ?B] d AB(1) idx by (simp add: index_of_def)
  have pos: "getOr (find_index (\<lambda>j. j = run_id node) (map rid ?us)) (length (map rid ?us)) = ?k"
    using find_index_splice [of ?k "map rid ts" "run_id node"] kle new_sib by (simp add: sibs)
  have before: "take ?k (map rid ?us) = map rid (take ?k ts)" using kle by (simp add: splice_in_def take_map)
  have span: "findSpanInsertIndex ?s1 node = Some (length (spans_of ?A))"
  proof (cases "run_parentId node = ROOT_ID")
    case True
    have "L = []" using root_first [OF r pt] i True by simp
    moreover have "\<not> visible p" using True i by (simp add: visible_def)
    ultimately show ?thesis using skip True pos before pn chget i by (simp add: findSpanInsertIndex_def Let_def)
  next
    case False
    have vis: "visible p" using False live i by (simp add: visible_def)
    have "run_id p \<notin> set (ids L)" using d pt by auto
    with span_index_of [OF vis, of L "concat (map pre ts) @ R"] idx pt i
    have "find_index (\<lambda>s. span_runId s = run_parentId node) (pi_spans (ds_index st)) = Some (length (spans_of L))"
      by (simp add: index_of_def)
    then show ?thesis using skip False pos before pn chget i vis by (simp add: findSpanInsertIndex_def Let_def)
  qed
  have node_vis: "visible node \<longleftrightarrow> \<not> run_deleted node"
    using fresh r rid_in_pre [of t] unfolding visible_def represents_def by (metis option.distinct(1))
  have spans': "pi_spans (index_of (pre t')) = (if run_deleted node then pi_spans (ds_index st)
      else splice_in (length (spans_of ?A)) (span_of node) (pi_spans (ds_index st)))"
    unfolding idx AB index_of_def by (simp add: node_vis splice_in_def)
  have total': "pi_totalLength (index_of (pre t')) = (if run_deleted node then pi_totalLength (ds_index st)
      else pi_totalLength (ds_index st) + int (length (run_text node)))"
    unfolding idx AB index_of_def by (simp add: node_vis)
  have app: "applyInsertRun st node = Some ?st'"
    using fresh ch chn pn span spans' total' new_sib
    by (simp add: applyInsertRun_def Let_def siblingInsertIdx_fresh obj_set_get span_of_def)
  have "\<forall>u \<in> set ts. set (kids u) \<subseteq> set (kids t)" unfolding k by auto
  then show thesis using that [OF pt app ch i] rep t'(2) unfolding becomes_def by blast
qed

section \<open>Splitting a run\<close>

definition marked :: "string set \<Rightarrow> string \<Rightarrow> RunNode \<Rightarrow> RunNode" where
  "marked C sid m = (if run_id m \<in> C then m\<lparr>run_parentId := sid\<rparr> else m)"

lemma marked_simps [simp]:
  "run_id (marked C sid m) = run_id m" "run_text (marked C sid m) = run_text m" "run_deleted (marked C sid m) = run_deleted m"
  "visible (marked C sid m) = visible m" "span_of (marked C sid m) = span_of m"
  by (simp_all add: marked_def visible_def span_of_def)

lemma marked_index [simp]:
  "spans_of (map (marked C sid) ns) = spans_of ns" "text_of (map (marked C sid) ns) = text_of ns"
  by (induction ns) simp_all

lemma reparent_get: "map_of (reparent sid cs nodes) i = map_option (marked (set cs) sid) (map_of nodes i)"
  if "\<And>j m. map_of nodes j = Some m \<Longrightarrow> run_id m = j"
  using that
proof (induction cs arbitrary: nodes)
  case Nil
  then show ?case by (simp add: reparent_def marked_def option.map_ident)
next
  case (Cons c cs)
  let ?nodes = "case map_of nodes c of None \<Rightarrow> nodes | Some m \<Rightarrow> obj_set nodes c (m\<lparr>run_parentId := sid\<rparr>)"
  have "run_id m = j" if "map_of ?nodes j = Some m" for j m
    using that Cons.prems by (auto simp: obj_set_get split: option.splits if_splits)
  from Cons.IH [of ?nodes, OF this] have "map_of (reparent sid (c # cs) nodes) i = map_option (marked (set cs) sid) (map_of ?nodes i)"
    by (simp add: reparent_def)
  also have "\<dots> = map_option (marked (set (c # cs)) sid) (map_of nodes i)"
  proof (cases "map_of nodes i")
    case None
    then show ?thesis by (cases "map_of nodes c") (auto simp: obj_set_get)
  next
    case (Some m)
    then have "run_id m = i" using Cons.prems by blast
    with Some show ?thesis by (cases "map_of nodes c"; cases "i = c") (simp_all add: obj_set_get marked_def)
  qed
  finally show ?case .
qed

definition reroot :: "string \<Rightarrow> rtree \<Rightarrow> rtree" where
  "reroot sid t = RT ((root t)\<lparr>run_parentId := sid\<rparr>) (subs t)"

lemma reroot_simps [simp]: "rid (reroot sid t) = rid t" "kids (reroot sid t) = kids t" "map rid (map (reroot sid) ts) = map rid ts"
  by (cases t; simp add: reroot_def)+

lemma distinct_middle: "distinct (xs @ (r # ys) @ zs) \<Longrightarrow> x \<in> set ys \<Longrightarrow> x \<notin> set xs \<and> x \<notin> set zs \<and> x \<noteq> r"
  by auto

lemma below_not_sibling:
  assumes "distinct (ids (concat (map pre ts)))" "u \<in> set ts" "m \<in> set (concat (map pre (subs u)))"
  shows "run_id m \<notin> set (map rid ts)"
proof
  assume "run_id m \<in> set (map rid ts)"
  from split_list [OF assms(2)] obtain A B where ts: "ts = A @ u # B" by blast
  have u: "pre u = root u # concat (map pre (subs u))" by (cases u) simp
  have m: "run_id m \<in> set (ids (concat (map pre (subs u))))" using assms(3) by auto
  have "distinct (ids (concat (map pre A)) @ (rid u # ids (concat (map pre (subs u)))) @ ids (concat (map pre B)))"
    using assms(1) by (simp add: ts u)
  from distinct_middle [OF this m] have "run_id m \<notin> set (ids (concat (map pre A)))"
    "run_id m \<notin> set (ids (concat (map pre B)))" "run_id m \<noteq> rid u" by auto
  moreover have "run_id m \<in> set (map rid A) \<union> set (map rid B) \<union> {rid u}" using \<open>run_id m \<in> set (map rid ts)\<close> ts by auto
  ultimately show False using rid_in_ids by auto
qed

lemma pre_reroot:
  assumes "distinct (ids (concat (map pre ts)))"
  shows "concat (map pre (map (reroot sid) ts)) = map (marked (set (map rid ts)) sid) (concat (map pre ts))"
proof -
  have "pre (reroot sid u) = map (marked (set (map rid ts)) sid) (pre u)" if "u \<in> set ts" for u
  proof -
    have "map (marked (set (map rid ts)) sid) (concat (map pre (subs u))) = concat (map pre (subs u))"
      by (rule map_idI) (use below_not_sibling [OF assms that] in \<open>simp add: marked_def\<close>)
    moreover have "rid u \<in> rid ` set ts" using that by simp
    ultimately show ?thesis by (cases u) (simp add: reroot_def marked_def)
  qed
  then show ?thesis by (simp add: map_concat comp_def cong: map_cong)
qed

lemma split_step:
  assumes r: "represents st t" and n: "map_of (ds_nodes st) i = Some n" and root: "i \<noteq> ROOT_ID"
    and off: "0 < offset" "offset < int (length (run_text n))"
    and fresh: "map_of (ds_nodes st) (makeSplitId i offset) = None"
  defines "left \<equiv> n\<lparr>run_text := take (nat offset) (run_text n)\<rparr>"
    and "right \<equiv> \<lparr>run_id = makeSplitId i offset, run_hlc = run_hlc n, run_actorId = run_actorId n,
      run_text = drop (nat offset) (run_text n), run_parentId = i, run_deleted = run_deleted n\<rparr>"
  obtains L M f where "pre t = L @ n # M" "becomes (applySplit st i offset) (L @ left # right # map f M)"
    "\<And>m. run_id (f m) = run_id m \<and> run_text (f m) = run_text m \<and> run_deleted (f m) = run_deleted m"
proof -
  let ?sid = "makeSplitId i offset"
  obtain ts L R KL KR where pt: "pre t = L @ n # concat (map pre ts) @ R"
    and k: "kids t = KL @ (i, map rid ts) # concat (map kids ts) @ KR" and i: "run_id n = i"
    and ex: "\<And>s'. rid s' = i \<Longrightarrow> \<exists>t'. rid t' = ROOT_ID \<and> pre t' = L @ pre s' @ R \<and> kids t' = KL @ kids s' @ KR"
    using represents_locate [OF r n] by blast
  have left: "run_id left = i" "run_deleted left = run_deleted n" and right: "run_id right = ?sid" "run_deleted right = run_deleted n"
    using i by (simp_all add: left_def right_def)
  obtain t' where t': "rid t' = ROOT_ID" "pre t' = L @ left # right # concat (map pre (map (reroot ?sid) ts)) @ R"
    "kids t' = KL @ (i, [?sid]) # (?sid, map rid ts) # concat (map kids ts) @ KR"
    using ex [of "RT left [RT right (map (reroot ?sid) ts)]"] left right by (auto simp: comp_def)
  let ?M = "concat (map pre ts) @ R"
  let ?C = "set (map rid ts)"
  let ?f = "marked ?C ?sid"
  have d: "distinct (ids (pre t))" and idx: "ds_index st = index_of (pre t)" using r by (simp_all add: represents_def)
  have sid: "?sid \<notin> set (ids (pre t))" using r fresh unfolding represents_def by auto
  have dm: "distinct (ids L @ (i # ids (concat (map pre ts))) @ ids R)" using d by (simp add: pt i)
  have C_in: "?C \<subseteq> set (ids (concat (map pre ts)))" using rid_in_ids [of _ ts] by auto
  have outside: "i \<notin> ?C" "?sid \<notin> ?C" "\<And>m. m \<in> set L \<Longrightarrow> run_id m \<notin> ?C" "\<And>m. m \<in> set R \<Longrightarrow> run_id m \<notin> ?C"
  proof -
    have out: "x \<notin> set (ids L) \<and> x \<notin> set (ids R) \<and> x \<noteq> i" if "x \<in> ?C" for x
      using distinct_middle [OF dm] C_in that by blast
    then show "i \<notin> ?C" by blast
    show "?sid \<notin> ?C" using C_in sid unfolding pt by auto
    show "run_id m \<notin> ?C" if "m \<in> set L" for m
    proof -
      have "run_id m \<in> set (ids L)" using that by simp
      with out show ?thesis by blast
    qed
    show "run_id m \<notin> ?C" if "m \<in> set R" for m
    proof -
      have "run_id m \<in> set (ids R)" using that by simp
      with out show ?thesis by blast
    qed
  qed
  have mR: "map ?f R = R" "map ?f L = L" using outside(3,4) by (auto intro!: map_idI simp: marked_def)
  have dts: "distinct (ids (concat (map pre ts)))" using dm by simp
  have pt': "pre t' = L @ left # right # map ?f ?M" unfolding t'(2) pre_reroot [OF dts] by (simp add: mR del: set_map)
  have pm: "pre t' = map ?f (L @ left # right # ?M)"
    using outside(1,2) left right by (simp add: pt' mR del: set_map) (simp add: marked_def)
  let ?nodes1 = "obj_set (obj_set (ds_nodes st) i left) ?sid right"
  have n1: "map_of ?nodes1 j = Some m \<Longrightarrow> run_id m = j" for j m
    using represents_node [OF r] left right by (auto simp: obj_set_get split: if_splits)
  have get: "map_of (reparent ?sid (map rid ts) ?nodes1) j = map_option ?f (map_of ?nodes1 j)" for j
    by (rule reparent_get) (rule n1)
  have ch: "map_of (ds_children st) i = Some (map rid ts)" using represents_children [OF r] k by auto
  let ?newNodes = "reparent ?sid (map rid ts) ?nodes1"
  let ?newCh = "obj_set (obj_set (ds_children st) ?sid (map rid ts)) i [?sid]"
  have sid_i: "?sid \<noteq> i" "?sid \<noteq> ROOT_ID"
  proof -
    have "i \<in> set (ids (pre t))" using pt i by simp
    then show "?sid \<noteq> i" using sid by metis
    have "ROOT_ID \<in> set (ids (pre t))" using r imageI [OF rid_in_pre [of t], of run_id] by (simp add: represents_def)
    then show "?sid \<noteq> ROOT_ID" using sid by metis
  qed
  have old: "map_of ?nodes1 (run_id y) = Some y" if "y \<in> set (L @ left # right # ?M)" for y
  proof (cases "y = left \<or> y = right")
    case False
    then have y: "y \<in> set L \<union> set ?M" using that by auto
    then have "run_id y \<in> set (ids L) \<union> set (ids ?M)" by auto
    then have "run_id y \<noteq> i" using dm by auto
    moreover have "y \<in> set (pre t)" using y pt by auto
    moreover from this have "run_id y \<noteq> ?sid" using sid by (metis image_eqI set_map)
    ultimately show ?thesis using r by (simp add: represents_def obj_set_get)
  qed (use left right sid_i in \<open>auto simp: obj_set_get\<close>)
  have nodes': "map_of ?newNodes (run_id x) = Some x" if "x \<in> set (pre t')" for x
  proof -
    from that obtain y where "x = ?f y" "y \<in> set (L @ left # right # ?M)" unfolding pm by auto
    with old [of y] show ?thesis by (simp add: get)
  qed
  have ids': "ids (pre t') = ids L @ i # ?sid # ids ?M" using left right by (simp add: pt')
  have insub: "set (ids (pre t)) \<subseteq> set (ids (pre t'))" "i \<in> set (ids (pre t'))" "?sid \<in> set (ids (pre t'))"
    unfolding ids' by (auto simp: pt i)
  have dom': "j \<in> set (ids (pre t'))" if "map_of ?newNodes j \<noteq> None" for j
  proof -
    have "map_of ?nodes1 j \<noteq> None" using that unfolding get by simp
    then have "j = i \<or> j = ?sid \<or> map_of (ds_nodes st) j \<noteq> None" by (auto simp: obj_set_get split: if_splits)
    moreover have "j \<in> set (ids (pre t))" if "map_of (ds_nodes st) j \<noteq> None" using r that unfolding represents_def by blast
    ultimately show ?thesis using insub by auto
  qed
  have kids': "map_of ?newCh j = Some cs" if jcs: "(j, cs) \<in> set (kids t')" for j cs
  proof (cases "(j, cs) \<in> set KL \<union> set (concat (map kids ts)) \<union> set KR")
    case True
    then have "(j, cs) \<in> set (kids t)" using k by auto
    then have "map_of (ds_children st) j = Some cs" "j \<in> set (ids (pre t))"
      using represents_children [OF r] kids_ids by auto
    moreover have "distinct (map fst (kids t))" using d by (simp add: kids_keys)
    then have "i \<notin> fst ` (set KL \<union> set (concat (map kids ts)) \<union> set KR)" unfolding k by auto
    then have "j \<noteq> i" using True by (metis fst_conv image_eqI)
    moreover have "j \<noteq> ?sid" using sid \<open>j \<in> set (ids (pre t))\<close> by metis
    ultimately show ?thesis by (simp add: obj_set_get)
  next
    case False
    then have "(j, cs) = (i, [?sid]) \<or> (j, cs) = (?sid, map rid ts)" using jcs unfolding t'(3) by auto
    then show ?thesis using sid_i by (auto simp: obj_set_get)
  qed
  have domc: "j \<in> set (ids (pre t'))" if "map_of ?newCh j \<noteq> None" for j
  proof -
    have "j = i \<or> j = ?sid \<or> map_of (ds_children st) j \<noteq> None" using that by (auto simp: obj_set_get split: if_splits)
    moreover have "j \<in> set (ids (pre t))" if "map_of (ds_children st) j \<noteq> None" using r that unfolding represents_def by blast
    ultimately show ?thesis using insub by auto
  qed
  have dist': "distinct (ids (pre t'))" using dm sid sid_i unfolding ids' by (auto simp: pt)
  let ?st' = "\<lparr>ds_nodes = ?newNodes, ds_children = ?newCh, ds_index = index_of (pre t')\<rparr>"
  have rep: "represents ?st' t'"
    using t'(1) dist' nodes' dom' kids' domc by (auto simp: represents_def)
  have txt_eq: "text_of (pre t') = text_of (pre t)"
    using left right sid_i root i by (simp add: pt' pt visible_def left_def right_def)
  have app: "applySplit st i offset = ?st'"
  proof (cases "run_deleted n")
    case True
    then have "spans_of (pre t') = spans_of (pre t)" using left right by (simp add: pt' pt visible_def)
    with True n off fresh txt_eq idx show ?thesis
      by (simp add: applySplit_def Let_def left_def right_def index_of_def ch)
  next
    case False
    have vis: "visible n" "visible left" "visible right"
      using False root sid_i left right i by (simp_all add: visible_def)
    have "find_index (\<lambda>s. span_runId s = i) (spans_of (L @ n # ?M)) = Some (length (spans_of L))"
      using span_index_of [OF vis(1), of L ?M] dm i by auto
    then have at: "find_index (\<lambda>s. span_runId s = i) (pi_spans (ds_index st)) = Some (length (spans_of L))"
      using idx pt by (simp add: index_of_def)
    have "spans_of (pre t') = spans_of L @ [\<lparr>span_runId = i, span_length = offset\<rparr>,
        \<lparr>span_runId = ?sid, span_length = int (length (run_text n)) - offset\<rparr>] @ spans_of ?M"
      unfolding pt' using vis off i by (simp add: span_of_def left_def right_def)
    then have "index_of (pre t') = \<lparr>pi_spans = take (length (spans_of L)) (pi_spans (ds_index st)) @
        [\<lparr>span_runId = i, span_length = offset\<rparr>, \<lparr>span_runId = ?sid, span_length = int (length (run_text n)) - offset\<rparr>] @
        drop (length (spans_of L) + 1) (pi_spans (ds_index st)), pi_totalLength = pi_totalLength (ds_index st)\<rparr>"
      using vis(1) txt_eq unfolding idx by (simp add: index_of_def pt)
    with False n off fresh at show ?thesis
      by (simp add: applySplit_def Let_def left_def right_def ch)
  qed
  show thesis
  proof (rule that)
    show "pre t = L @ n # ?M" by (rule pt)
    show "becomes (applySplit st i offset) (L @ left # right # map ?f ?M)"
      unfolding becomes_def app using rep pt' by blast
    show "run_id (?f m) = run_id m \<and> run_text (?f m) = run_text m \<and> run_deleted (?f m) = run_deleted m" for m by simp
  qed
qed

end
