(* ===== verification/TreeProps.thy ===== *)
theory TreeProps
  imports TreeIndex
begin

text \<open>
  What the causal tree guarantees: in every state the reducer and the wire path reach, the incremental
  index agrees with a full traversal, positions and runs translate into each other, and each edit changes
  the text as an edit of a string at a position does. The last section shows three situations in which
  the code departs from what its comments intend.
\<close>

section \<open>Every step keeps the index\<close>

definition doc_ok :: "DocState \<Rightarrow> bool" where
  "doc_ok st \<longleftrightarrow> (\<exists>t. represents st t \<and> root t = ROOT_NODE)"

lemma hd_pre: "hd (pre t) = root t"
  by (cases t) simp

lemma becomes_ok: "becomes st ns \<Longrightarrow> hd ns = ROOT_NODE \<Longrightarrow> doc_ok st"
  unfolding becomes_def doc_ok_def using hd_pre by metis

lemma createDocState_ok: "doc_ok createDocState"
proof -
  have "represents createDocState (RT ROOT_NODE [])"
    by (simp add: represents_def createDocState_def index_of_def visible_def ROOT_NODE_def)
  then show ?thesis unfolding doc_ok_def by (intro exI [of _ "RT ROOT_NODE []"]) simp
qed

lemma not_first:
  assumes "represents st t" "root t = ROOT_NODE" "pre t = L @ n # M" "run_id n \<noteq> ROOT_ID"
  shows "L \<noteq> []" "hd (L @ ns) = ROOT_NODE"
proof -
  show "L \<noteq> []"
  proof
    assume "L = []"
    then have "n = ROOT_NODE" using assms(2,3) hd_pre [of t] by simp
    then show False using assms(4) by (simp add: ROOT_NODE_def)
  qed
  then show "hd (L @ ns) = ROOT_NODE" using assms(2,3) hd_pre [of t] by simp
qed

lemma root_node:
  assumes "represents st t" "root t = ROOT_NODE" "map_of (ds_nodes st) ROOT_ID = Some n"
  shows "n = ROOT_NODE"
  using assms(1) rid_in_pre [of t] assms(2,3) unfolding represents_def by (metis option.inject)

lemma root_present: "represents st t \<Longrightarrow> map_of (ds_nodes st) ROOT_ID \<noteq> None"
  using rid_in_pre [of t] unfolding represents_def by (metis option.distinct(1))

lemma split_id_not_root: "makeSplitId i k \<noteq> ROOT_ID"
proof -
  have "CHR '':'' \<in> set (makeSplitId i k)" by (simp add: makeSplitId_def SPLIT_SEPARATOR_def)
  moreover have "CHR '':'' \<notin> set ROOT_ID" by (simp add: ROOT_ID_def)
  ultimately show ?thesis by metis
qed

lemma applySplit_ok:
  assumes "doc_ok st"
  shows "doc_ok (applySplit st i k)"
proof -
  obtain t where t: "represents st t" "root t = ROOT_NODE" using assms by (auto simp: doc_ok_def)
  show ?thesis
  proof (cases "\<exists>n. map_of (ds_nodes st) i = Some n \<and> 0 < k \<and> k < int (length (run_text n)) \<and>
      map_of (ds_nodes st) (makeSplitId i k) = None")
    case True
    then obtain n where n: "map_of (ds_nodes st) i = Some n" "0 < k" "k < int (length (run_text n))"
      "map_of (ds_nodes st) (makeSplitId i k) = None" by blast
    have i: "i \<noteq> ROOT_ID" using root_node [OF t, of n] n by (auto simp: ROOT_NODE_def)
    have id: "run_id n = i" using represents_node [OF t(1) n(1)] by simp
    show ?thesis
    proof (rule split_step [OF t(1) n(1) i n(2-4)])
      fix L M f
      assume "pre t = L @ n # M"
      from not_first(2) [OF t this] i id have "hd (L @ ns) = ROOT_NODE" for ns by simp
      moreover assume "becomes (applySplit st i k) (L @ n\<lparr>run_text := take (nat k) (run_text n)\<rparr> #
        \<lparr>run_id = makeSplitId i k, run_hlc = run_hlc n, run_actorId = run_actorId n,
          run_text = drop (nat k) (run_text n), run_parentId = i, run_deleted = run_deleted n\<rparr> # map f M)"
      ultimately show ?thesis using becomes_ok by blast
    qed
  next
    case False
    have "applySplit st i k = st"
    proof (cases "map_of (ds_nodes st) i")
      case None
      then show ?thesis by (simp add: applySplit_def)
    next
      case (Some n)
      with False have "k \<le> 0 \<or> k \<ge> int (length (run_text n)) \<or> map_of (ds_nodes st) (makeSplitId i k) \<noteq> None" by force
      with Some show ?thesis by (auto simp: applySplit_def Let_def)
    qed
    with assms show ?thesis by simp
  qed
qed

lemma tombstoneRun_ok:
  assumes "doc_ok st" "i \<noteq> ROOT_ID"
  shows "doc_ok (tombstoneRun st i)"
proof -
  obtain t where t: "represents st t" "root t = ROOT_NODE" using assms by (auto simp: doc_ok_def)
  show ?thesis
  proof (cases "\<exists>n. map_of (ds_nodes st) i = Some n \<and> \<not> run_deleted n")
    case True
    then obtain n where n: "map_of (ds_nodes st) i = Some n" "\<not> run_deleted n" by blast
    have id: "run_id n = i" using represents_node [OF t(1) n(1)] by simp
    show ?thesis
    proof (rule tombstone_step [OF t(1) n assms(2)])
      fix L M
      assume "pre t = L @ n # M" "becomes (tombstoneRun st i) (L @ n\<lparr>run_deleted := True\<rparr> # M)"
      then show ?thesis using not_first(2) [OF t] assms(2) id becomes_ok by blast
    qed
  next
    case False
    then have "tombstoneRun st i = st" by (auto simp: tombstoneRun_def split: option.splits)
    with assms show ?thesis by simp
  qed
qed

lemma applyDeleteRange_ok:
  assumes "doc_ok st"
  shows "doc_ok (applyDeleteRange st i k c)"
proof (cases "\<exists>n. map_of (ds_nodes st) i = Some n \<and> \<not> run_deleted n \<and> 0 \<le> k \<and> 0 < c \<and> k + c \<le> int (length (run_text n))")
  case True
  then obtain n where n: "map_of (ds_nodes st) i = Some n" "0 < c" "0 \<le> k" "k + c \<le> int (length (run_text n))" by blast
  obtain t where t: "represents st t" "root t = ROOT_NODE" using assms by (auto simp: doc_ok_def)
  have i: "i \<noteq> ROOT_ID" using root_node [OF t, of n] n by (auto simp: ROOT_NODE_def)
  then show ?thesis
    using assms by (auto simp: applyDeleteRange_def Let_def tombstoneRun_ok applySplit_ok split_id_not_root split: option.splits)
next
  case False
  then have "applyDeleteRange st i k c = st" by (auto simp: applyDeleteRange_def Let_def split: option.splits)
  with assms show ?thesis by simp
qed

text \<open>Replacing the text of a live run, by extension or by a value from the wire.\<close>

lemma retext_ok:
  assumes "doc_ok st" "map_of (ds_nodes st) i = Some n" "\<not> run_deleted n" "i \<noteq> ROOT_ID"
    and n': "run_id n' = i" "\<not> run_deleted n'"
    and st': "st' = \<lparr>ds_nodes = obj_set (ds_nodes st) i n', ds_children = ds_children st,
       ds_index = \<lparr>pi_spans = map (\<lambda>s. if span_runId s = i then f s else s) (pi_spans (ds_index st)), pi_totalLength = len\<rparr>\<rparr>"
    and f: "f (span_of n) = span_of n'"
    and len: "len = pi_totalLength (ds_index st) + (int (length (run_text n')) - int (length (run_text n)))"
  shows "doc_ok st'"
proof -
  obtain t where t: "represents st t" "root t = ROOT_NODE" using assms by (auto simp: doc_ok_def)
  have id: "run_id n = i" using represents_node [OF t(1) assms(2)] by simp
  show ?thesis
  proof (rule retext_step [OF t(1) assms(2-4) n' st' f len])
    fix L M
    assume "pre t = L @ n # M" "becomes st' (L @ n' # M)"
    then show ?thesis using not_first(2) [OF t] assms(4) id becomes_ok by blast
  qed
qed

lemma applyExtendRun_ok:
  assumes "doc_ok st" "i \<noteq> ROOT_ID"
  shows "doc_ok (applyExtendRun st i app h)"
proof (cases "\<exists>n. map_of (ds_nodes st) i = Some n \<and> \<not> run_deleted n")
  case True
  then obtain n where n: "map_of (ds_nodes st) i = Some n" "\<not> run_deleted n" by blast
  have id: "run_id n = i" using assms(1) represents_node n(1) unfolding doc_ok_def by blast
  show ?thesis
    by (rule retext_ok [OF assms(1) n assms(2), of "n\<lparr>run_text := run_text n @ app, run_hlc := h\<rparr>" _ 
          "\<lambda>s. s\<lparr>span_length := span_length s + int (length app)\<rparr>"])
      (use n id in \<open>simp_all add: applyExtendRun_def span_of_def\<close>)
next
  case False
  then have "applyExtendRun st i app h = st" by (auto simp: applyExtendRun_def split: option.splits)
  with assms show ?thesis by simp
qed

lemma applySetRun_ok:
  assumes "doc_ok st" "i \<noteq> ROOT_ID"
  shows "doc_ok (applySetRun st i new)"
proof (cases "\<exists>n. map_of (ds_nodes st) i = Some n \<and> \<not> run_deleted n")
  case True
  then obtain n where n: "map_of (ds_nodes st) i = Some n" "\<not> run_deleted n" by blast
  have id: "run_id n = i" using assms(1) represents_node n(1) unfolding doc_ok_def by blast
  show ?thesis
    by (rule retext_ok [OF assms(1) n assms(2), of "new\<lparr>run_id := i, run_parentId := run_parentId n, run_deleted := False\<rparr>" _ 
          "\<lambda>s. s\<lparr>span_length := int (length (run_text new))\<rparr>"])
      (use n id in \<open>simp_all add: applySetRun_def span_of_def\<close>)
next
  case False
  then have "applySetRun st i new = st" by (auto simp: applySetRun_def split: option.splits)
  with assms show ?thesis by simp
qed

definition live_parent :: "DocState \<Rightarrow> RunNode \<Rightarrow> bool" where
  "live_parent st node = (case map_of (ds_nodes st) (run_parentId node) of
     None \<Rightarrow> False | Some p \<Rightarrow> run_parentId node = ROOT_ID \<or> \<not> run_deleted p)"

lemma applyInsertRun_ok:
  assumes "doc_ok st" "map_of (ds_nodes st) (run_id node) \<noteq> None \<or> live_parent st node"
  shows "\<exists>st'. applyInsertRun st node = Some st' \<and> doc_ok st'"
proof (cases "map_of (ds_nodes st) (run_id node)")
  case (Some n)
  then show ?thesis using assms(1) by (simp add: applyInsertRun_def)
next
  case None
  then obtain p where p: "map_of (ds_nodes st) (run_parentId node) = Some p" "run_parentId node = ROOT_ID \<or> \<not> run_deleted p"
    using assms(2) by (auto simp: live_parent_def split: option.splits)
  obtain t where t: "represents st t" "root t = ROOT_NODE" using assms by (auto simp: doc_ok_def)
  show ?thesis
  proof (rule insert_step [OF t(1) None p])
    fix st' L R ts
    assume pt: "pre t = L @ p # concat (map pre ts) @ R" and ok: "applyInsertRun st node = Some st'"
      "becomes st' (L @ p # concat (map pre (splice_in (siblingInsertIdx (ds_nodes st) node (map rid ts)) (RT node []) ts)) @ R)"
    have "hd (L @ p # M) = ROOT_NODE" for M using pt t(2) hd_pre [of t] by (cases L) auto
    with ok becomes_ok show ?thesis by blast
  qed
qed

section \<open>Reachable documents\<close>

text \<open>
  The edits a document may receive: new runs under a run that is present and not deleted, no extension
  of the root. (Local edits insert only under visible runs or the root.)
\<close>

definition action_ok :: "DocState \<Rightarrow> DocAction \<Rightarrow> bool" where
  "action_ok st action = (case action of
     InsertRun node \<Rightarrow> map_of (ds_nodes st) (run_id node) \<noteq> None \<or> live_parent st node
   | Split runId offset \<Rightarrow> True
   | DeleteRange runId offset count \<Rightarrow> True
   | ExtendRun runId appendText h \<Rightarrow> runId \<noteq> ROOT_ID)"

definition field_ok :: "DocState \<Rightarrow> string \<Rightarrow> RunFieldValue \<Rightarrow> bool" where
  "field_ok st runId field = (case rf_value field of
     None \<Rightarrow> True
   | Some node \<Rightarrow> runId \<noteq> ROOT_ID \<and> run_id node = runId \<and> (map_of (ds_nodes st) runId = None \<longrightarrow> live_parent st node))"

inductive doc_step :: "DocState \<Rightarrow> DocState \<Rightarrow> bool" where
  act: "action_ok st action \<Longrightarrow> docReducer st action = Some st' \<Longrightarrow> doc_step st st'"
| wire: "field_ok st runId field \<Longrightarrow> applyRunFieldUpdate st runId field = Some (st', applied) \<Longrightarrow> doc_step st st'"

inductive doc_reachable :: "DocState \<Rightarrow> bool" where
  start: "doc_reachable createDocState"
| step: "doc_reachable st \<Longrightarrow> doc_step st st' \<Longrightarrow> doc_reachable st'"

inductive_cases doc_stepE: "doc_step st st'"

lemma docReducer_ok:
  assumes "doc_ok st" "action_ok st action"
  shows "\<exists>st'. docReducer st action = Some st' \<and> doc_ok st'"
  using assms
  by (cases action)
    (auto simp: docReducer_def action_ok_def applyInsertRun_ok applySplit_ok applyDeleteRange_ok applyExtendRun_ok)

lemma applyRunFieldUpdate_ok:
  assumes ok: "doc_ok st" and f: "field_ok st runId field"
  shows "\<exists>st' applied. applyRunFieldUpdate st runId field = Some (st', applied) \<and> doc_ok st'"
proof (cases "rf_value field")
  case None
  then show ?thesis
    using ok by (auto simp: applyRunFieldUpdate_def docReducer_def Let_def applyDeleteRange_ok split: option.splits)
next
  case (Some new)
  have new: "runId \<noteq> ROOT_ID" "run_id new = runId" "map_of (ds_nodes st) runId = None \<Longrightarrow> live_parent st new"
    using f Some by (simp_all add: field_ok_def)
  show ?thesis
  proof (cases "map_of (ds_nodes st) runId")
    case None
    with new(3) have lp: "live_parent st new" by simp
    then have "\<not> (run_parentId new \<noteq> ROOT_ID \<and> map_of (ds_nodes st) (run_parentId new) = None)"
      by (auto simp: live_parent_def)
    moreover obtain st' where "applyInsertRun st new = Some st'" "doc_ok st'" using applyInsertRun_ok [OF ok] lp by blast
    ultimately show ?thesis using Some None by (auto simp: applyRunFieldUpdate_def docReducer_def)
  next
    case (Some e)
    moreover obtain st' where "applyInsertRun st new = Some st'" "doc_ok st'"
      using applyInsertRun_ok [OF ok, of new] Some new(2) by auto
    ultimately show ?thesis using \<open>rf_value field = Some new\<close> ok applySetRun_ok [OF ok new(1)]
      by (auto simp: applyRunFieldUpdate_def docReducer_def)
  qed
qed

lemma reachable_ok: "doc_reachable st \<Longrightarrow> doc_ok st"
proof (induction rule: doc_reachable.induct)
  case start
  show ?case by (rule createDocState_ok)
next
  case (step st st')
  from step.hyps(2) show ?case
  proof (cases rule: doc_step.cases)
    case (act action)
    then show ?thesis using docReducer_ok [OF step.IH] by fastforce
  next
    case (wire runId field applied)
    then show ?thesis using applyRunFieldUpdate_ok [OF step.IH] by fastforce
  qed
qed


section \<open>Positions\<close>

lemma lookup_scan_text:
  assumes "0 \<le> pos - cum" "pos - cum < int (length (text_of ns))"
  shows "\<exists>L n M k. ns = L @ n # M \<and> visible n \<and>
    lookup_scan (spans_of ns) pos cum i = Some \<lparr>pl_runId = run_id n, pl_offset = pos - cum - int (length (text_of L)), pl_spanIndex = k\<rparr> \<and>
    0 \<le> pos - cum - int (length (text_of L)) \<and> pos - cum - int (length (text_of L)) < int (length (run_text n))"
  using assms
proof (induction ns arbitrary: cum i)
  case Nil
  then show ?case by simp
next
  case (Cons m ns)
  show ?case
  proof (cases "visible m \<and> pos < cum + int (length (run_text m))")
    case True
    then show ?thesis using Cons.prems
      by (intro exI [of _ "[]"] exI [of _ m] exI [of _ ns] exI [of _ i]) (auto simp: span_of_def)
  next
    case False
    let ?c = "if visible m then cum + int (length (run_text m)) else cum"
    let ?i = "if visible m then Suc i else i"
    have "0 \<le> pos - ?c" "pos - ?c < int (length (text_of ns))" using False Cons.prems by (auto split: if_splits)
    from Cons.IH [OF this, of ?i] obtain L n M k where h: "ns = L @ n # M" "visible n"
      "lookup_scan (spans_of ns) pos ?c ?i = Some \<lparr>pl_runId = run_id n, pl_offset = pos - ?c - int (length (text_of L)), pl_spanIndex = k\<rparr>"
      "0 \<le> pos - ?c - int (length (text_of L))" "pos - ?c - int (length (text_of L)) < int (length (run_text n))" by blast
    have "lookup_scan (spans_of (m # ns)) pos cum i = lookup_scan (spans_of ns) pos ?c ?i"
      using False by (auto simp: span_of_def)
    with h show ?thesis by (intro exI [of _ "m # L"] exI [of _ n] exI [of _ M] exI [of _ k]) (auto simp: algebra_simps)
  qed
qed

lemma offset_scan_text:
  assumes "visible n" "run_id n \<notin> set (ids L)"
  shows "offset_scan (spans_of (L @ n # M)) (run_id n) k cum =
    (if k \<ge> int (length (run_text n)) then None else Some (cum + int (length (text_of L)) + k))"
  using assms
proof (induction L arbitrary: cum)
  case Nil
  then show ?case by (simp add: span_of_def)
next
  case (Cons m L)
  then show ?case by (auto simp: span_of_def algebra_simps)
qed

lemma span_find:
  assumes "visible n" "run_id n \<notin> set (ids L)"
  shows "find (\<lambda>s. span_runId s = run_id n) (spans_of (L @ n # M)) = Some (span_of n)"
  using assms by (induction L) (auto simp: span_of_def)


section \<open>Edits of the text\<close>

lemma becomes_text: "becomes st ns \<Longrightarrow> reconstruct st = Some (text_of ns)"
  unfolding becomes_def using represents_reads by auto

lemma subtree_length:
  assumes "represents st t" "pre t = A @ pre u @ B" "set (kids u) \<subseteq> set (kids t)"
  shows "subtreeVisibleLength st (rid u) = Some (int (length (text_of (pre u))))"
proof -
  have "\<forall>(i, cs) \<in> set (kids u). map_of (ds_children st) i = Some cs"
    using assms(3) represents_children [OF assms(1)] by blast
  then obtain "is" where c: "collectSubtreeIds st (rid u) = Some is" "set is = set (ids (pre u))"
    using collectSubtreeIds_tree by blast
  have d: "distinct (ids A @ ids (pre u) @ ids B)" using assms(1,2) by (simp add: represents_def)
  have none: "filter (\<lambda>s. span_runId s \<in> set is) (spans_of ns) = []" if "set (ids ns) \<inter> set (ids (pre u)) = {}" for ns
    using spans_of_ids [of _ ns] that c(2) by (auto simp: filter_empty_conv simp del: set_map)
  have all: "filter (\<lambda>s. span_runId s \<in> set is) (spans_of (pre u)) = spans_of (pre u)"
    using spans_of_ids [of _ "pre u"] c(2) by (intro filter_True) blast
  have "set (ids A) \<inter> set (ids (pre u)) = {}" "set (ids B) \<inter> set (ids (pre u)) = {}"
    using d by (auto simp del: set_map)
  then have "filter (\<lambda>s. span_runId s \<in> set is) (pi_spans (ds_index st)) = spans_of (pre u)"
    using assms(1,2) all none by (simp add: represents_def index_of_def)
  then show ?thesis by (simp add: subtreeVisibleLength_def c(1) spans_of_length)
qed

lemma subtree_lengths:
  assumes "represents st t" "pre t = A @ concat (map pre us) @ B" "\<forall>u \<in> set us. set (kids u) \<subseteq> set (kids t)"
  shows "add_subtree_lengths st (map rid us) base = Some (base + int (length (text_of (concat (map pre us)))))"
  using assms(2,3)
proof (induction us arbitrary: A base)
  case Nil
  then show ?case by simp
next
  case (Cons u us)
  have "subtreeVisibleLength st (rid u) = Some (int (length (text_of (pre u))))"
    using subtree_length [OF assms(1), of A u "concat (map pre us) @ B"] Cons.prems by simp
  with Cons.IH [of "A @ pre u"] Cons.prems show ?case by (simp add: add.assoc)
qed

text \<open>
  C33: an insertion edits the text at the position the code computes for it. In a reachable document a
  new run under the root or under a live, non-empty run puts its text at \<^verbatim>\<open>findInsertPosition\<close>, leaving the
  rest of the text as it was; a run inserted as deleted changes nothing.
\<close>

theorem insert_edits_text:
  assumes "doc_reachable st" "map_of (ds_nodes st) (run_id node) = None"
    "map_of (ds_nodes st) (run_parentId node) = Some p" "run_parentId node = ROOT_ID \<or> \<not> run_deleted p \<and> run_text p \<noteq> []"
  shows "\<exists>st' txt pos. docReducer st (InsertRun node) = Some st' \<and> reconstruct st = Some txt \<and>
    findInsertPosition st (run_parentId node) node = Some (int pos) \<and> pos \<le> length txt \<and>
    reconstruct st' = Some (take pos txt @ (if run_deleted node then [] else run_text node) @ drop pos txt)"
proof -
  obtain t where t: "represents st t" "root t = ROOT_NODE" using reachable_ok [OF assms(1)] by (auto simp: doc_ok_def)
  have live: "run_parentId node = ROOT_ID \<or> \<not> run_deleted p" using assms(4) by blast
  show ?thesis
  proof (rule insert_step [OF t(1) assms(2,3) live])
    fix st' L R ts
    let ?k = "siblingInsertIdx (ds_nodes st) node (map rid ts)"
    let ?A = "L @ p # concat (map pre (take ?k ts))" and ?B = "concat (map pre (drop ?k ts)) @ R"
    assume pt: "pre t = L @ p # concat (map pre ts) @ R" and app: "applyInsertRun st node = Some st'"
      and ch: "map_of (ds_children st) (run_parentId node) = Some (map rid ts)" and i: "run_id p = run_parentId node"
      and sub: "\<forall>u \<in> set ts. set (kids u) \<subseteq> set (kids t)"
      and new: "becomes st' (L @ p # concat (map pre (splice_in ?k (RT node []) ts)) @ R)"
    have AB: "pre t = ?A @ ?B" using concat_take_drop [of pre ?k ts] by (simp add: pt)
    let ?pos = "length (text_of ?A)"
    have "run_id node \<noteq> ROOT_ID" using assms(2) root_present [OF t(1)] by auto
    then have vis: "visible node \<longleftrightarrow> \<not> run_deleted node" by (simp add: visible_def)
    have sums: "add_subtree_lengths st (take ?k (map rid ts)) base = Some (base + int (length (text_of (concat (map pre (take ?k ts))))))" for base
    proof -
      have "\<forall>u \<in> set (take ?k ts). set (kids u) \<subseteq> set (kids t)" using sub set_take_subset [of ?k ts] by blast
      from subtree_lengths [OF t(1) _ this, of "L @ [p]" ?B base] AB show ?thesis by (simp add: take_map)
    qed
    have pos: "findInsertPosition st (run_parentId node) node = Some (int ?pos)"
    proof (cases "run_parentId node = ROOT_ID")
      case True
      then have "L = []" using root_first [OF t(1) pt] i by simp
      then show ?thesis using True i sums [of 0] ch by (simp add: findInsertPosition_def visible_def)
    next
      case False
      then have v: "visible p" and ne: "run_text p \<noteq> []" using assms(4) i by (auto simp: visible_def)
      have out: "run_id p \<notin> set (ids L)" using t(1) pt by (simp add: represents_def)
      have idx: "ds_index st = index_of (pre t)" using t(1) by (simp add: represents_def)
      have "runOffsetToPosition (ds_index st) (run_parentId node) 0 = Some (int (length (text_of L)))"
        using offset_scan_text [OF v out, of "concat (map pre ts) @ R" 0 0] ne i
        by (simp add: runOffsetToPosition_def idx index_of_def pt)
      moreover have "find (\<lambda>s. span_runId s = run_parentId node) (pi_spans (ds_index st)) = Some (span_of p)"
        using span_find [OF v out, of "concat (map pre ts) @ R"] i by (simp add: idx pt index_of_def)
      ultimately show ?thesis using False v sums ch by (simp add: findInsertPosition_def Let_def span_of_def add.assoc)
    qed
    have "reconstruct st' = Some (text_of (?A @ node # ?B))" using becomes_text [OF new] by (simp add: concat_splice)
    moreover have "reconstruct st = Some (text_of (?A @ ?B))" using represents_reads(2) [OF t(1)] AB by simp
    ultimately show ?thesis
      using app pos vis by (intro exI [of _ st'] exI [of _ "text_of (?A @ ?B)"] exI [of _ ?pos]) (simp add: docReducer_def)
  qed
qed

lemma same_place:
  assumes "distinct (ids (L @ n # M))" "L @ n # M = L' @ n # M'"
  shows "L' = L \<and> M' = M"
proof -
  have "n \<notin> set L" "n \<notin> set M" using assms(1) by auto
  then show ?thesis using assms(2) append_Cons_eq_iff [of n L M L' M'] by blast
qed

lemma becomes_distinct: "becomes st ns \<Longrightarrow> distinct (ids ns)"
  by (auto simp: becomes_def represents_def)

lemma becomes_node: "becomes st (L @ n # M) \<Longrightarrow> map_of (ds_nodes st) (run_id n) = Some n"
  by (auto simp: becomes_def represents_def)

lemma tombstone_becomes:
  assumes "becomes st (L @ n # M)" "\<not> run_deleted n" "run_id n \<noteq> ROOT_ID"
  shows "becomes (tombstoneRun st (run_id n)) (L @ n\<lparr>run_deleted := True\<rparr> # M)"
proof -
  obtain t where t: "represents st t" "pre t = L @ n # M" using assms(1) by (auto simp: becomes_def)
  show ?thesis
  proof (rule tombstone_step [OF t(1) becomes_node [OF assms(1)] assms(2,3)])
    fix L' M'
    assume "pre t = L' @ n # M'" and b: "becomes (tombstoneRun st (run_id n)) (L' @ n\<lparr>run_deleted := True\<rparr> # M')"
    then have "L' = L \<and> M' = M" using same_place [OF becomes_distinct [OF assms(1)]] t(2) by metis
    with b show ?thesis by simp
  qed
qed

definition left_half :: "int \<Rightarrow> RunNode \<Rightarrow> RunNode" where
  "left_half k n = n\<lparr>run_text := take (nat k) (run_text n)\<rparr>"

definition right_half :: "int \<Rightarrow> RunNode \<Rightarrow> RunNode" where
  "right_half k n = \<lparr>run_id = makeSplitId (run_id n) k, run_hlc = run_hlc n, run_actorId = run_actorId n,
     run_text = drop (nat k) (run_text n), run_parentId = run_id n, run_deleted = run_deleted n\<rparr>"

lemma half_simps [simp]:
  "run_id (left_half k n) = run_id n" "run_id (right_half k n) = makeSplitId (run_id n) k"
  "run_text (left_half k n) = take (nat k) (run_text n)" "run_text (right_half k n) = drop (nat k) (run_text n)"
  "run_deleted (left_half k n) = run_deleted n" "run_deleted (right_half k n) = run_deleted n"
  by (simp_all add: left_half_def right_half_def)

definition text_neutral :: "(RunNode \<Rightarrow> RunNode) \<Rightarrow> bool" where
  "text_neutral f \<longleftrightarrow> (\<forall>m. run_id (f m) = run_id m \<and> run_text (f m) = run_text m \<and> run_deleted (f m) = run_deleted m)"

lemma text_neutral_text: "text_neutral f \<Longrightarrow> text_of (map f ns) = text_of ns"
  by (induction ns) (simp_all add: text_neutral_def visible_def)

lemma split_becomes:
  assumes "becomes st (L @ n # M)" "run_id n \<noteq> ROOT_ID" "0 < k" "k < int (length (run_text n))"
    "map_of (ds_nodes st) (makeSplitId (run_id n) k) = None"
  shows "\<exists>f. text_neutral f \<and> becomes (applySplit st (run_id n) k) (L @ left_half k n # right_half k n # map f M)"
proof -
  obtain t where t: "represents st t" "pre t = L @ n # M" using assms(1) by (auto simp: becomes_def)
  show ?thesis
  proof (rule split_step [OF t(1) becomes_node [OF assms(1)] assms(2-5)])
    fix L' M' f
    assume p: "pre t = L' @ n # M'"
      and b: "becomes (applySplit st (run_id n) k) (L' @ n\<lparr>run_text := take (nat k) (run_text n)\<rparr> #
        \<lparr>run_id = makeSplitId (run_id n) k, run_hlc = run_hlc n, run_actorId = run_actorId n,
          run_text = drop (nat k) (run_text n), run_parentId = run_id n, run_deleted = run_deleted n\<rparr> # map f M')"
      and f: "\<And>m. run_id (f m) = run_id m \<and> run_text (f m) = run_text m \<and> run_deleted (f m) = run_deleted m"
    have "L' = L \<and> M' = M" using same_place [OF becomes_distinct [OF assms(1)]] p t(2) by metis
    with b f show ?thesis by (auto simp: left_half_def right_half_def text_neutral_def)
  qed
qed

text \<open>The split ids a deletion needs are unused.\<close>

definition splits_fresh :: "DocState \<Rightarrow> string \<Rightarrow> int \<Rightarrow> int \<Rightarrow> bool" where
  "splits_fresh st runId offset count \<longleftrightarrow>
     map_of (ds_nodes st) (makeSplitId runId (if offset = 0 then count else offset)) = None \<and>
     map_of (ds_nodes st) (makeSplitId (makeSplitId runId offset) count) = None"

lemma split_id_longer: "makeSplitId i k \<noteq> i"
proof -
  have "length (makeSplitId i k) \<noteq> length i" by (simp add: makeSplitId_def SPLIT_SEPARATOR_def)
  then show ?thesis by metis
qed

lemma becomes_absent: "becomes st ns \<Longrightarrow> map_of (ds_nodes st) i = None \<longleftrightarrow> i \<notin> set (ids ns)"
  unfolding becomes_def represents_def by (metis (no_types, opaque_lifting) image_iff list.set_map not_None_eq)

lemma text_neutral_ids: "text_neutral f \<Longrightarrow> ids (map f ns) = ids ns"
  by (simp add: text_neutral_def)

text \<open>The preorder after deleting a range of a run: its text falls into a kept head, a dropped middle and a kept tail.\<close>

lemma delete_becomes:
  assumes b: "becomes st (L @ n # M)" and n: "\<not> run_deleted n" "run_id n \<noteq> ROOT_ID"
    and r: "0 \<le> k" "0 < c" "k + c \<le> int (length (run_text n))"
    and fresh: "k = 0 \<and> c = int (length (run_text n)) \<or> splits_fresh st (run_id n) k c"
  shows "reconstruct (applyDeleteRange st (run_id n) k c) =
    Some (text_of L @ take (nat k) (run_text n) @ drop (nat (k + c)) (run_text n) @ text_of M)"
proof -
  let ?len = "int (length (run_text n))" and ?sid = "makeSplitId (run_id n) k"
  have node: "map_of (ds_nodes st) (run_id n) = Some n" by (rule becomes_node [OF b])
  note tx = becomes_text visible_def text_neutral_text
  consider (whole) "k = 0" "c = ?len" | (head) "k = 0" "c \<noteq> ?len" | (tail) "k \<noteq> 0" "k + c = ?len"
    | (middle) "k \<noteq> 0" "k + c \<noteq> ?len" by blast
  then show ?thesis
  proof cases
    case whole
    then have "applyDeleteRange st (run_id n) k c = tombstoneRun st (run_id n)"
      using node n r by (simp add: applyDeleteRange_def)
    with tombstone_becomes [OF b n] whole show ?thesis by (simp add: tx)
  next
    case head
    then have eq: "applyDeleteRange st (run_id n) k c = tombstoneRun (applySplit st (run_id n) c) (run_id n)"
      using node n r by (simp add: applyDeleteRange_def)
    have "map_of (ds_nodes st) (makeSplitId (run_id n) c) = None" using fresh head by (simp add: splits_fresh_def)
    from split_becomes [OF b n(2) r(2) _ this] head r obtain f where f: "text_neutral f"
      "becomes (applySplit st (run_id n) c) (L @ left_half c n # right_half c n # map f M)" by auto
    from tombstone_becomes [OF f(2)] n f(1) head split_id_not_root show ?thesis unfolding eq by (simp add: tx)
  next
    case tail
    then have eq: "applyDeleteRange st (run_id n) k c = tombstoneRun (applySplit st (run_id n) k) ?sid"
      using node n r by (simp add: applyDeleteRange_def)
    have "map_of (ds_nodes st) ?sid = None" using fresh tail by (simp add: splits_fresh_def)
    from split_becomes [OF b n(2) _ _ this] tail r obtain f where f: "text_neutral f"
      "becomes (applySplit st (run_id n) k) ((L @ [left_half k n]) @ right_half k n # map f M)" by auto
    from tombstone_becomes [OF f(2)] n f(1) tail split_id_not_root show ?thesis unfolding eq by (simp add: tx)
  next
    case middle
    let ?sid2 = "makeSplitId ?sid c"
    have eq: "applyDeleteRange st (run_id n) k c = tombstoneRun (applySplit (applySplit st (run_id n) k) ?sid c) ?sid"
      using node n r middle by (simp add: applyDeleteRange_def)
    have fr: "map_of (ds_nodes st) ?sid = None" "map_of (ds_nodes st) ?sid2 = None"
      using fresh middle by (simp_all add: splits_fresh_def)
    from split_becomes [OF b n(2) _ _ fr(1)] middle r obtain f where f: "text_neutral f"
      "becomes (applySplit st (run_id n) k) ((L @ [left_half k n]) @ right_half k n # map f M)" by auto
    have "?sid2 \<notin> set (ids ((L @ [left_half k n]) @ right_half k n # map f M))"
      using fr(2) split_id_longer [of ?sid c] text_neutral_ids [OF f(1), of M] unfolding becomes_absent [OF b] by simp
    then have fr2: "map_of (ds_nodes (applySplit st (run_id n) k)) (makeSplitId (run_id (right_half k n)) c) = None"
      unfolding becomes_absent [OF f(2)] by simp
    have "c < int (length (run_text (right_half k n)))" using middle r by simp
    from split_becomes [OF f(2) _ r(2) this fr2] split_id_not_root obtain g where g: "text_neutral g"
      "becomes (applySplit (applySplit st (run_id n) k) ?sid c)
         ((L @ [left_half k n]) @ left_half c (right_half k n) # right_half c (right_half k n) # map g (map f M))" by auto
    from tombstone_becomes [OF g(2)] n f(1) g(1) split_id_not_root r
    show ?thesis unfolding eq by (simp add: tx drop_drop nat_add_distrib add.commute del: map_map)
  qed
qed

text \<open>
  C34: a deletion removes exactly its range. In a reachable document, deleting a valid range of a live run
  removes the characters from the position of its offset on, count many, and no others, whichever of the
  four cases of the code applies; the split ids the cut needs must be unused, as they are unless the run
  was cut at that offset before.
\<close>

theorem delete_edits_text:
  assumes "doc_reachable st" "map_of (ds_nodes st) runId = Some n" "\<not> run_deleted n"
    "0 \<le> offset" "0 < count" "offset + count \<le> int (length (run_text n))"
    "offset = 0 \<and> count = int (length (run_text n)) \<or> splits_fresh st runId offset count"
  shows "\<exists>txt pos. reconstruct st = Some txt \<and> runOffsetToPosition (ds_index st) runId offset = Some (int pos) \<and>
    docReducer st (DeleteRange runId offset count) = Some (applyDeleteRange st runId offset count) \<and>
    reconstruct (applyDeleteRange st runId offset count) = Some (take pos txt @ drop (pos + nat count) txt)"
proof -
  obtain t where t: "represents st t" "root t = ROOT_NODE" using reachable_ok [OF assms(1)] by (auto simp: doc_ok_def)
  have id: "run_id n = runId" "n \<in> set (pre t)" using represents_node [OF t(1) assms(2)] by auto
  from split_list [OF id(2)] obtain L M where p: "pre t = L @ n # M" by blast
  have b: "becomes st (L @ n # M)" using t(1) p unfolding becomes_def by blast
  have root: "run_id n \<noteq> ROOT_ID" using root_node [OF t, of n] assms(2,5,6,4) id by (auto simp: ROOT_NODE_def)
  then have vis: "visible n" using assms(3) by (simp add: visible_def)
  have idx: "ds_index st = index_of (L @ n # M)" and out: "run_id n \<notin> set (ids L)"
    using t(1) p by (simp_all add: represents_def)
  have pos: "runOffsetToPosition (ds_index st) runId offset = Some (int (length (text_of L) + nat offset))"
    using offset_scan_text [OF vis out, of M offset 0] assms(4-6) id
    by (simp add: runOffsetToPosition_def idx index_of_def)
  have "reconstruct (applyDeleteRange st runId offset count) =
      Some (text_of L @ take (nat offset) (run_text n) @ drop (nat (offset + count)) (run_text n) @ text_of M)"
    using delete_becomes [OF b assms(3) root assms(4-6)] assms(7) id by simp
  moreover have "nat offset \<le> length (run_text n)" "nat (offset + count) = nat offset + nat count"
    "nat offset + nat count \<le> length (run_text n)" using assms(4-6) by linarith+
  ultimately show ?thesis
    using pos becomes_text [OF b] vis
    by (intro exI [of _ "text_of (L @ n # M)"] exI [of _ "length (text_of L) + nat offset"]) (simp add: docReducer_def)
qed

section \<open>Sample documents\<close>

definition sample_node :: "hlc \<Rightarrow> string \<Rightarrow> string \<Rightarrow> string \<Rightarrow> RunNode" where
  "sample_node h actor txt parent = \<lparr>run_id = makeRunId h actor, run_hlc = h, run_actorId = actor, run_text = txt,
     run_parentId = parent, run_deleted = False\<rparr>"

definition sample_a :: RunNode where "sample_a = sample_node 5 ''a_al'' ''abc'' ROOT_ID"

definition sample_doc :: DocState where
  "sample_doc = the (docReducer createDocState (InsertRun sample_a))"

lemma sample_doc_eq: "docReducer createDocState (InsertRun sample_a) =
   Some \<lparr>ds_nodes = [(ROOT_ID, ROOT_NODE), (''5:a_al'', sample_a)], ds_children = [(ROOT_ID, [''5:a_al'']), (''5:a_al'', [])],
     ds_index = \<lparr>pi_spans = [\<lparr>span_runId = ''5:a_al'', span_length = 3\<rparr>], pi_totalLength = 3\<rparr>\<rparr>"
  by code_simp

lemma sample_doc_reachable: "doc_reachable sample_doc"
proof (rule doc_reachable.step [OF doc_reachable.start doc_step.act])
  show "action_ok createDocState (InsertRun sample_a)" by code_simp
  show "docReducer createDocState (InsertRun sample_a) = Some sample_doc" by (simp add: sample_doc_def sample_doc_eq)
qed



theorem insert_edits_text_witness:
  "\<exists>st'. docReducer sample_doc (InsertRun (sample_node 6 ''a_bo'' ''X'' ''5:a_al'')) = Some st' \<and> reconstruct st' = Some ''abcX''"
proof -
  have h: "map_of (ds_nodes sample_doc) (run_id (sample_node 6 ''a_bo'' ''X'' ''5:a_al'')) = None"
    "map_of (ds_nodes sample_doc) (run_parentId (sample_node 6 ''a_bo'' ''X'' ''5:a_al'')) = Some sample_a"
    "run_parentId (sample_node 6 ''a_bo'' ''X'' ''5:a_al'') = ROOT_ID \<or> \<not> run_deleted sample_a \<and> run_text sample_a \<noteq> []"
    "reconstruct sample_doc = Some ''abc''"
    "findInsertPosition sample_doc (run_parentId (sample_node 6 ''a_bo'' ''X'' ''5:a_al'')) (sample_node 6 ''a_bo'' ''X'' ''5:a_al'') = Some 3"
    "run_deleted (sample_node 6 ''a_bo'' ''X'' ''5:a_al'') = False" "run_text (sample_node 6 ''a_bo'' ''X'' ''5:a_al'') = ''X''"
    by code_simp+
  from insert_edits_text [OF sample_doc_reachable h(1-3)] show ?thesis by (auto simp: h(4-7))
qed

theorem delete_edits_text_witness: "reconstruct (applyDeleteRange sample_doc ''5:a_al'' 1 1) = Some ''ac''"
proof -
  have h: "map_of (ds_nodes sample_doc) ''5:a_al'' = Some sample_a" "\<not> run_deleted sample_a"
    "(1::int) + 1 \<le> int (length (run_text sample_a))" "splits_fresh sample_doc ''5:a_al'' 1 1"
    "reconstruct sample_doc = Some ''abc''" "runOffsetToPosition (ds_index sample_doc) ''5:a_al'' 1 = Some 1"
    by code_simp+
  from delete_edits_text [OF sample_doc_reachable h(1,2) _ _ h(3) disjI2 [OF h(4)]] show ?thesis by (auto simp: h(5,6))
qed

section \<open>Where the index and the wire path depart from the intent\<close>

text \<open>
  A run inserted under a deleted run is indexed at the end of the document. When a peer's run arrives
  whose parent was deleted here, the traversal shows it in the parent's place but the index puts its span
  last, so position 0 of the text ''Xb'' is resolved to the run of the ''b''.
\<close>

theorem deleted_parent_breaks_index:
  "\<exists>st. applyRunFieldUpdates createDocState
      [(''5:a_al'', \<lparr>rf_value = Some (sample_node 5 ''a_al'' ''a'' ROOT_ID), rf_update_id = ''u_1'', rf_hlc = 5\<rparr>),
       (''3:a_bo'', \<lparr>rf_value = Some (sample_node 3 ''a_bo'' ''b'' ROOT_ID), rf_update_id = ''u_2'', rf_hlc = 3\<rparr>),
       (''5:a_al'', \<lparr>rf_value = None, rf_update_id = ''u_3'', rf_hlc = 6\<rparr>),
       (''7:a_bo'', \<lparr>rf_value = Some (sample_node 7 ''a_bo'' ''X'' ''5:a_al''), rf_update_id = ''u_4'', rf_hlc = 7\<rparr>)] = Some st \<and>
    reconstruct (fst st) = Some ''Xb'' \<and>
    map_option pl_runId (lookupPosition (ds_index (fst st)) 0) = Some ''3:a_bo''"
proof -
  let ?r = "applyRunFieldUpdates createDocState
      [(''5:a_al'', \<lparr>rf_value = Some (sample_node 5 ''a_al'' ''a'' ROOT_ID), rf_update_id = ''u_1'', rf_hlc = 5\<rparr>),
       (''3:a_bo'', \<lparr>rf_value = Some (sample_node 3 ''a_bo'' ''b'' ROOT_ID), rf_update_id = ''u_2'', rf_hlc = 3\<rparr>),
       (''5:a_al'', \<lparr>rf_value = None, rf_update_id = ''u_3'', rf_hlc = 6\<rparr>),
       (''7:a_bo'', \<lparr>rf_value = Some (sample_node 7 ''a_bo'' ''X'' ''5:a_al''), rf_update_id = ''u_4'', rf_hlc = 7\<rparr>)]"
  have "?r \<noteq> None \<and> reconstruct (fst (the ?r)) = Some ''Xb'' \<and>
      map_option pl_runId (lookupPosition (ds_index (fst (the ?r))) 0) = Some ''3:a_bo''" by code_simp
  then show ?thesis by (intro exI [of _ "the ?r"]) simp
qed

end
