(* ===== verification/TextProps.thy ===== *)
theory TextProps
  imports TextDocument TreeProps
begin

text \<open>
  What the wire format and the document facade guarantee: the content map carries run values without
  loss, an edit sent to a peer in the same state reproduces the sender's document, derived ids are
  unambiguous. And where replicas can part: the order in which run values are applied, and splits of runs that have children.
\<close>

section \<open>Round trip of the content map\<close>

lemma run_of_run_json: "run_of_json (run_json n) = Some n"
  by (simp add: run_of_json_def run_json_def parse_format)

lemma run_json_not_null [simp]: "run_json n \<noteq> JNull"
  by (simp add: run_json_def)

lemma parse_entry_field: "parse_entry (i, run_field_json f) out = obj_set out i f"
  by (cases f; cases "rf_value f") (simp_all add: parse_entry_def run_field_json_def isFieldLeaf_def isFieldMap_def hlcOr0_def run_of_run_json)

lemma fold_set_fresh:
  assumes "distinct (map fst (acc @ xs))"
  shows "fold (\<lambda>(k, v) out. obj_set out k v) xs acc = acc @ xs"
  using assms
proof (induction xs arbitrary: acc)
  case Nil
  then show ?case by simp
next
  case (Cons x xs)
  obtain k v where x: "x = (k, v)" by (cases x)
  have "map_of acc k = None" using Cons.prems by (simp add: x map_of_eq_None_iff)
  then have "obj_set acc k v = acc @ [(k, v)]" by (rule obj_set_absent)
  with Cons.IH [of "acc @ [(k, v)]"] Cons.prems show ?case by (simp add: x)
qed

lemma contentField_parse:
  assumes "obj_ok runs"
  shows "parseContentField (Some (contentFieldFromRuns runs)) = runs"
proof -
  have "fold parse_entry (map (\<lambda>(runId, field). (runId, run_field_json field)) xs) acc = fold (\<lambda>(k, v) out. obj_set out k v) xs acc" for xs acc
    by (induction xs arbitrary: acc) (auto simp: parse_entry_field)
  then show ?thesis
    using fold_set_fresh [of "[]" runs] assms by (simp add: parseContentField_def contentFieldFromRuns_def obj_ok_def)
qed

text \<open>
  The wire carries runs without loss. Whatever run values a document Update is built from, reading the
  Update back yields the same values under the same keys in the same order, tombstones included, and
  applying the Update is applying those values.
\<close>

theorem run_fields_roundtrip:
  assumes "obj_ok runs" "runs \<noteq> []"
  shows "\<exists>u. docActionToUpdate runs docId updateId (Some docType) = Some u \<and> readRunFields u = runs \<and>
    upd_method u = Patch \<and> subject_id u = docId \<and>
    map_option fst (applyActions st [\<lparr>act_id = aid, actor_id = actor, act_hlc = h, act_gsn = 0, act_updates = [u]\<rparr>] docType) =
      map_option fst (applyRunFieldUpdates st runs)"
proof -
  have read: "readRunFields \<lparr>upd_id = updateId, subject_id = docId, subject_type = docType, upd_method = Patch,
      upd_data = Some [(DOC_CONTENT_FIELD, contentFieldFromRuns runs)]\<rparr> = runs"
    using contentField_parse [OF assms(1)] by (simp add: readRunFields_def)
  show ?thesis
    using assms(2) read
    by (cases "applyRunFieldUpdates st runs") (auto simp: docActionToUpdate_def isDocSubjectUpdate_def Let_def)
qed

theorem run_fields_roundtrip_witness:
  "\<exists>u. docActionToUpdate [(''5:a_al'', \<lparr>rf_value = Some sample_a, rf_update_id = ''u_1'', rf_hlc = 5\<rparr>)] ''e_1'' ''u_1'' (Some ''doc'') = Some u \<and>
     readRunFields u = [(''5:a_al'', \<lparr>rf_value = Some sample_a, rf_update_id = ''u_1'', rf_hlc = 5\<rparr>)]"
  using run_fields_roundtrip [of "[(''5:a_al'', \<lparr>rf_value = Some sample_a, rf_update_id = ''u_1'', rf_hlc = 5\<rparr>)]"
      "''e_1''" "''u_1''" "''doc''" sample_doc "''a_1''" "''a_al''" 5]
  by (auto simp: obj_ok_def)

section \<open>Derived ids\<close>

lemma dec_prefix:
  assumes "dec_nat n @ CHR ''_'' # r = dec_nat m @ CHR ''_'' # r'"
  shows "n = m \<and> r = r'"
proof -
  have digits: "takeWhile is_digit (dec_nat k @ CHR ''_'' # s) = dec_nat k" for k s
    using dec_nat_digits [of k] by (simp add: takeWhile_append list_all_iff is_digit_def digit_val_def)
  from assms have "dec_nat n = dec_nat m" using digits by metis
  moreover from this have "n = m" using digits_val_dec_nat by (metis option.inject)
  ultimately show ?thesis using assms by simp
qed

lemma derivedKey_prefix:
  assumes "derivedKey p f @ x = derivedKey p' f' @ x'"
  shows "p = p' \<and> f = f' \<and> x = x'"
proof -
  have "dec_nat (length p) @ CHR ''_'' # (p @ dec_nat (length f) @ CHR ''_'' # (f @ x)) =
      dec_nat (length p') @ CHR ''_'' # (p' @ dec_nat (length f') @ CHR ''_'' # (f' @ x'))"
    using assms by (simp add: derivedKey_def)
  from dec_prefix [OF this] have "length p = length p'"
    "p @ dec_nat (length f) @ CHR ''_'' # (f @ x) = p' @ dec_nat (length f') @ CHR ''_'' # (f' @ x')" by auto
  then have "p = p'" "dec_nat (length f) @ CHR ''_'' # (f @ x) = dec_nat (length f') @ CHR ''_'' # (f' @ x')" by simp_all
  with dec_prefix [OF this(2)] show ?thesis by auto
qed

text \<open>
  Derived ids are unambiguous. Two derived documents have the same id only for the same parent, field
  and document type, two derived relationships only for the same parent and field, and no document id is
  a relationship id.
\<close>

theorem derived_ids_unambiguous:
  "(derivedDocumentId p f d = derivedDocumentId p' f' d' \<longleftrightarrow> p = p' \<and> f = f' \<and> d = d') \<and>
   (derivedRelationshipId p f = derivedRelationshipId p' f' \<longleftrightarrow> p = p' \<and> f = f') \<and>
   derivedDocumentId p f d \<noteq> derivedRelationshipId p' f'"
  using derivedKey_prefix [of p f d p' f' d'] derivedKey_prefix [of p f "[]" p' f' "[]"]
  by (auto simp: derivedDocumentId_def derivedRelationshipId_def)

section \<open>A local edit at a peer\<close>

lemma reparent_obj_ok: "obj_ok nodes \<Longrightarrow> obj_ok (reparent sid cs nodes)"
  unfolding reparent_def by (induction cs arbitrary: nodes) (auto split: option.splits)

lemma split_obj_ok: "obj_ok (ds_nodes st) \<Longrightarrow> obj_ok (ds_nodes (applySplit st i k))"
  by (auto simp: applySplit_def Let_def reparent_obj_ok obj_set_ok split: option.splits)

lemma tombstone_obj_ok: "obj_ok (ds_nodes st) \<Longrightarrow> obj_ok (ds_nodes (tombstoneRun st i))"
  by (auto simp: tombstoneRun_def obj_set_ok split: option.splits)

lemma insert_obj_ok: "obj_ok (ds_nodes st) \<Longrightarrow> applyInsertRun st node = Some st' \<Longrightarrow> obj_ok (ds_nodes st')"
  by (auto simp: applyInsertRun_def Let_def obj_set_ok bind_eq_Some_conv split: if_splits)

lemma reducer_obj_ok:
  assumes "obj_ok (ds_nodes st)" "docReducer st action = Some st'"
  shows "obj_ok (ds_nodes st')"
proof (cases action)
  case (InsertRun node)
  then show ?thesis using assms insert_obj_ok by (simp add: docReducer_def)
next
  case (Split i k)
  then show ?thesis using assms split_obj_ok by (auto simp: docReducer_def)
next
  case (DeleteRange i k c)
  then show ?thesis using assms
    by (auto simp: docReducer_def applyDeleteRange_def Let_def split_obj_ok tombstone_obj_ok split: option.splits)
next
  case (ExtendRun i x h)
  then show ?thesis using assms by (auto simp: docReducer_def applyExtendRun_def obj_set_ok split: option.splits)
qed

lemma field_update_obj_ok:
  assumes "obj_ok (ds_nodes st)" "applyRunFieldUpdate st i f = Some (st', applied)"
  shows "obj_ok (ds_nodes st')"
proof -
  have r: "obj_ok (ds_nodes s') \<Longrightarrow> docReducer s' action = Some s \<Longrightarrow> obj_ok (ds_nodes s)" for s' s action
    by (rule reducer_obj_ok)
  have set: "obj_ok (ds_nodes (applySetRun st i n))" for n
    using assms(1) by (auto simp: applySetRun_def obj_set_ok split: option.splits)
  show ?thesis
  proof (cases "rf_value f")
    case None
    then show ?thesis using assms r [OF assms(1)]
      by (auto simp: applyRunFieldUpdate_def Let_def bind_eq_Some_conv split: option.splits if_splits)
  next
    case (Some n)
    then show ?thesis using assms r [OF assms(1)] r [OF insert_obj_ok [OF assms(1)]] set
      by (auto simp: applyRunFieldUpdate_def bind_eq_Some_conv split: option.splits if_splits)
  qed
qed

lemma reachable_obj_ok: "doc_reachable st \<Longrightarrow> obj_ok (ds_nodes st)"
proof (induction rule: doc_reachable.induct)
  case start
  then show ?case by (simp add: createDocState_def obj_ok_def)
next
  case (step st st')
  from step.hyps(2) show ?case
    by (cases rule: doc_step.cases) (use step.IH reducer_obj_ok field_update_obj_ok in blast)+
qed

text \<open>The runs the difference of two states lists: the changed ones, and every run that is deleted.\<close>

definition diff_value :: "DocState \<Rightarrow> string \<Rightarrow> RunNode \<Rightarrow> RunFieldValue option" where
  "diff_value post i n = (if i = ROOT_ID then None
     else (case map_of (ds_nodes post) i of
       Some m \<Rightarrow> if run_deleted m then Some \<lparr>rf_value = None, rf_update_id = '''', rf_hlc = run_hlc n\<rparr>
         else if run_text m \<noteq> run_text n \<or> run_hlc m \<noteq> run_hlc n \<or> run_actorId m \<noteq> run_actorId n
         then Some \<lparr>rf_value = Some m, rf_update_id = '''', rf_hlc = run_hlc m\<rparr> else None
     | None \<Rightarrow> Some \<lparr>rf_value = None, rf_update_id = '''', rf_hlc = run_hlc n\<rparr>))"

definition diff_list :: "DocState \<Rightarrow> (string \<times> RunNode) list \<Rightarrow> RunFieldValue obj" where
  "diff_list post xs = List.map_filter (\<lambda>(i, n). map_option (Pair i) (diff_value post i n)) xs"

lemma diff_list_simps [simp]:
  "diff_list post [] = []"
  "diff_list post ((i, n) # xs) = (case diff_value post i n of None \<Rightarrow> [] | Some v \<Rightarrow> [(i, v)]) @ diff_list post xs"
  "diff_list post (xs @ ys) = diff_list post xs @ diff_list post ys"
  by (simp_all add: diff_list_def map_filter_def split: option.splits)

lemma diff_list_key: "(i, v) \<in> set (diff_list post xs) \<Longrightarrow> i \<in> fst ` set xs"
  by (induction xs) (auto split: option.splits)

lemma diff_list_keys: "fst ` set (diff_list post xs) \<subseteq> fst ` set xs"
  using diff_list_key by force

lemma fold_diff_old:
  assumes "distinct (map fst xs)" "fst ` set acc \<inter> fst ` set xs = {}"
  shows "fold (diff_old post) xs acc = acc @ diff_list post xs"
  using assms
proof (induction xs arbitrary: acc)
  case Nil
  then show ?case by simp
next
  case (Cons x xs)
  obtain i n where x: "x = (i, n)" by (cases x)
  have step: "diff_old post x acc = acc @ (case diff_value post i n of None \<Rightarrow> [] | Some v \<Rightarrow> [(i, v)])"
  proof -
    have "map_of acc i = None" using Cons.prems(2) by (auto simp: x map_of_eq_None_iff)
    then show ?thesis by (simp add: x diff_old_def diff_value_def obj_set_absent split: option.splits)
  qed
  have "fst ` set (diff_old post x acc) \<inter> fst ` set xs = {}"
    unfolding step using Cons.prems by (cases "diff_value post i n") (force simp: x)+
  then have "fold (diff_old post) xs (diff_old post x acc) = diff_old post x acc @ diff_list post xs"
    using Cons.prems(1) by (intro Cons.IH) simp_all
  then show ?case by (simp add: x step [unfolded x])
qed

lemma fold_diff_new_old:
  assumes "\<forall>x \<in> set xs. map_of (ds_nodes st0) (fst x) \<noteq> None"
  shows "fold (diff_new st0) xs acc = acc"
  using assms by (induction xs) (auto simp: diff_new_def)

lemma obj_ok_diff_list: "distinct (map fst xs) \<Longrightarrow> obj_ok (diff_list post xs)"
proof (induction xs)
  case Nil
  then show ?case by (simp add: obj_ok_def)
next
  case (Cons x xs)
  then show ?case using diff_list_keys [of post xs]
    by (cases x) (auto simp: obj_ok_def split: option.splits)
qed

definition stamped :: "string \<Rightarrow> hlc \<Rightarrow> string \<times> RunFieldValue \<Rightarrow> string \<times> RunFieldValue" where
  "stamped u h kv = (fst kv, \<lparr>rf_value = rf_value (snd kv), rf_update_id = u, rf_hlc = h\<rparr>)"

lemma stampRuns_map:
  assumes "obj_ok runs"
  shows "stampRuns runs u h = map (stamped u h) runs" "obj_ok (map (stamped u h) runs)"
proof -
  have "fold (\<lambda>(runId, field) out. obj_set out runId \<lparr>rf_value = rf_value field, rf_update_id = u, rf_hlc = h\<rparr>) xs acc =
      fold (\<lambda>(k, v) out. obj_set out k v) (map (stamped u h) xs) acc" for xs acc
    by (induction xs arbitrary: acc) (auto simp: stamped_def)
  moreover show ok: "obj_ok (map (stamped u h) runs)" using assms by (simp add: obj_ok_def comp_def stamped_def)
  ultimately show "stampRuns runs u h = map (stamped u h) runs"
    using fold_set_fresh [of "[]" "map (stamped u h) runs"] by (simp add: stampRuns_def obj_ok_def)
qed

text \<open>Values that say nothing new are skipped: a tombstone of a run that is deleted already.\<close>

definition stale :: "DocState \<Rightarrow> string \<times> RunFieldValue \<Rightarrow> bool" where
  "stale st kv \<longleftrightarrow> rf_value (snd kv) = None \<and> (\<exists>n. map_of (ds_nodes st) (fst kv) = Some n \<and> run_deleted n)"

lemma apply_stale: "\<forall>kv \<in> set xs. stale st kv \<Longrightarrow>
    map_option fst (applyRunFieldUpdates st (xs @ ys)) = map_option fst (applyRunFieldUpdates st ys)"
proof (induction xs)
  case Nil
  then show ?case by simp
next
  case (Cons x xs)
  then have "applyRunFieldUpdate st (fst x) (snd x) = Some (st, [])" by (auto simp: applyRunFieldUpdate_def stale_def)
  with Cons show ?case
    by (cases x; cases "applyRunFieldUpdates st (xs @ ys)"; cases "applyRunFieldUpdates st ys") auto
qed


lemma diff_unchanged:
  assumes "obj_ok nodes" "\<forall>(i, n) \<in> set xs. map_of (ds_nodes post) i = Some n"
    "\<forall>(i, n) \<in> set xs. map_of (ds_nodes st) i = Some n"
  shows "\<forall>kv \<in> set (diff_list post xs). stale st kv"
  using assms(2,3)
  by (induction xs) (auto simp: diff_value_def stale_def split: option.splits if_splits)

lemma stale_stamped: "stale st (stamped u h kv) = stale st kv"
  by (simp add: stale_def stamped_def)

lemma insert_diff:
  assumes ok: "obj_ok (ds_nodes st)" and root: "run_id node \<noteq> ROOT_ID"
    and fresh: "map_of (ds_nodes st) (run_id node) = None" and live: "\<not> run_deleted node"
    and app: "applyInsertRun st node = Some st'"
  obtains D where "diffRunFields st st' u h = D @ [(run_id node, \<lparr>rf_value = Some node, rf_update_id = u, rf_hlc = h\<rparr>)]"
    "\<forall>kv \<in> set D. stale st kv" "obj_ok (diffRunFields st st' u h)"
proof -
  have nodes: "ds_nodes st' = ds_nodes st @ [(run_id node, node)]"
    using app fresh by (auto simp: applyInsertRun_def Let_def obj_set_absent bind_eq_Some_conv)
  let ?D = "diff_list st' (ds_nodes st)"
  let ?v = "\<lparr>rf_value = Some node, rf_update_id = '''', rf_hlc = run_hlc node\<rparr>"
  have get: "map_of (ds_nodes st) i = Some n" if "(i, n) \<in> set (ds_nodes st)" for i n
    using ok that by (simp add: obj_ok_def)
  have keep: "\<forall>(i, n) \<in> set (ds_nodes st). map_of (ds_nodes st') i = Some n"
    using get fresh unfolding nodes by (fastforce simp: map_add_def)
  have new: "map_of ?D (run_id node) = None"
    using diff_list_keys [of st' "ds_nodes st"] fresh by (auto simp: map_of_eq_None_iff)
  have "fold (diff_old st') (ds_nodes st) [] = ?D" using fold_diff_old [of "ds_nodes st" "[]" st'] ok by (simp add: obj_ok_def)
  moreover have "fold (diff_new st) (ds_nodes st) ?D = ?D" by (rule fold_diff_new_old) (use get in force)
  ultimately have diff: "diffRunMap st st' = ?D @ [(run_id node, ?v)]"
    using new fresh live root by (simp add: diffRunMap_def nodes diff_new_def obj_set_absent)
  have "obj_ok ?D" using ok by (intro obj_ok_diff_list) (simp add: obj_ok_def)
  then have okd: "obj_ok (diffRunMap st st')" using new unfolding diff by (simp add: obj_ok_def map_of_eq_None_iff)
  have "diffRunFields st st' u h = map (stamped u h) ?D @ [(run_id node, \<lparr>rf_value = Some node, rf_update_id = u, rf_hlc = h\<rparr>)]"
    unfolding diffRunFields_def stampRuns_map(1) [OF okd] unfolding diff by (simp add: stamped_def)
  moreover have "\<forall>kv \<in> set (map (stamped u h) ?D). stale st kv"
    using diff_unchanged [OF ok keep, of st] get by (auto simp: stale_stamped)
  moreover have "obj_ok (diffRunFields st st' u h)"
    using stampRuns_map [OF okd] by (simp add: diffRunFields_def)
  ultimately show thesis using that by blast
qed

lemma apply_run_action:
  assumes "obj_ok runs" "runs \<noteq> []" "docActionToUpdate runs d uid (Some ty) = Some u" "act_updates a = [u]"
    "map_option fst (applyRunFieldUpdates st runs) = Some st'" "td_state peer = st" "td_docType peer = ty"
  shows "\<exists>peer' evs. doc_applyActions [a] peer = Some (peer', evs) \<and> td_state peer' = st'"
proof -
  have u: "u = \<lparr>upd_id = uid, subject_id = d, subject_type = ty, upd_method = Patch,
      upd_data = Some [(DOC_CONTENT_FIELD, contentFieldFromRuns runs)]\<rparr>"
    using assms(2,3) by (simp add: docActionToUpdate_def)
  have "readRunFields u = runs" using contentField_parse [OF assms(1)] by (simp add: u readRunFields_def)
  moreover obtain ap where "applyRunFieldUpdates st runs = Some (st', ap)" using assms(5) by auto
  ultimately show ?thesis using assms(2,4,6,7) by (simp add: doc_applyActions_def isDocSubjectUpdate_def u Let_def)
qed

text \<open>
  C35: a local insertion reaches peers as made. When a document inserts text under a visible run or the root
  (without splitting a run), the edit is accepted, queued, and a peer whose document is in the same state
  as the sender's was ends in the sender's new state on applying the queued Action.
\<close>

theorem local_insert_replicates:
  assumes parent: "parentId = getOr (li_afterRun opts) (getOr (findLastVisibleRunId doc) ''ROOT'')"
    and hlc: "h = getOr (li_hlc opts) (fst (advanceLocalHlc now (td_localHlc doc)))"
    and "doc_reachable (td_state doc)" "li_splitParentAt opts = None"
    "map_of (ds_nodes (td_state doc)) (makeRunId h (td_actorId doc)) = None"
    "map_of (ds_nodes (td_state doc)) parentId = Some p" "parentId = ROOT_ID \<or> \<not> run_deleted p"
  shows "\<exists>doc' r a. localInsert random now body opts doc = Some (doc', r) \<and> er_result r = Some (makeRunId h (td_actorId doc)) \<and>
    td_pending doc' = td_pending doc @ [a] \<and> doc_reachable (td_state doc') \<and>
    (\<forall>peer. td_state peer = td_state doc \<longrightarrow> td_docType peer = td_docType doc \<longrightarrow>
      (\<exists>peer' evs. doc_applyActions [a] peer = Some (peer', evs) \<and> td_state peer' = td_state doc'))"
proof -
  let ?st = "td_state doc"
  define node where "node = \<lparr>run_id = makeRunId h (td_actorId doc), run_hlc = h, run_actorId = td_actorId doc, run_text = body,
    run_parentId = parentId, run_deleted = False\<rparr>"
  have ok: "doc_ok ?st" "obj_ok (ds_nodes ?st)" using assms(3) reachable_ok reachable_obj_ok by auto
  have n: "run_id node = makeRunId h (td_actorId doc)" "\<not> run_deleted node" "run_parentId node = parentId" by (simp_all add: node_def)
  have lp: "live_parent ?st node" using assms(6,7) n by (simp add: live_parent_def)
  then obtain st' where app: "applyInsertRun ?st node = Some st'" using applyInsertRun_ok [OF ok(1)] by blast
  have root: "run_id node \<noteq> ROOT_ID" using assms(5) ok(1) root_present n unfolding doc_ok_def by metis
  have fresh: "map_of (ds_nodes ?st) (run_id node) = None" using assms(5) n by simp
  let ?u = "''u_'' @ makeRunId h (td_actorId doc)"
  let ?runs = "diffRunFields ?st st' ?u h"
  obtain D where D: "?runs = D @ [(run_id node, \<lparr>rf_value = Some node, rf_update_id = ?u, rf_hlc = h\<rparr>)]"
    "\<forall>kv \<in> set D. stale ?st kv" "obj_ok ?runs"
    by (rule insert_diff [OF ok(2) root fresh n(2) app, of ?u h]) blast
  have "\<not> (run_parentId node \<noteq> ROOT_ID \<and> map_of (ds_nodes ?st) (run_parentId node) = None)" using assms(6) n by simp
  then have "applyRunFieldUpdates ?st [(run_id node, \<lparr>rf_value = Some node, rf_update_id = ?u, rf_hlc = h\<rparr>)] =
      Some (st', [InsertRun node])"
    using fresh app by (auto simp: applyRunFieldUpdate_def docReducer_def)
  then have patched: "map_option fst (applyRunFieldUpdates ?st ?runs) = Some st'"
    unfolding D(1) apply_stale [OF D(2)] by simp
  have ne: "?runs \<noteq> []" using D(1) by simp
  obtain u where u: "docActionToUpdate ?runs (td_docId doc) ?u (Some (td_docType doc)) = Some u"
    using ne by (simp add: docActionToUpdate_def)
  have step: "doc_reachable st'"
    using doc_reachable.step [OF assms(3) doc_step.act [of _ "InsertRun node"]] lp app by (simp add: action_ok_def docReducer_def)
  let ?a = "\<lparr>act_id = ID_PREFIX_ACTION @ ''_'' @ random, actor_id = td_actorId doc, act_hlc = h, act_gsn = 0, act_updates = [u]\<rparr>"
  let ?q = "queue_edit ?a (makeRunId h (td_actorId doc)) KindInsert (makeRunId h (td_actorId doc))
      (doc\<lparr>td_localHlc := snd (advanceLocalHlc now (td_localHlc doc)), td_state := st'\<rparr>)"
  have "localInsert random now body opts doc = Some ?q"
    using assms(4) app u unfolding localInsert_def node_def parent hlc
    by (simp add: Let_def docReducer_def case_prod_beta)
  moreover have "td_state (fst ?q) = st'" "td_pending (fst ?q) = td_pending doc @ [?a]"
    "er_result (snd ?q) = Some (makeRunId h (td_actorId doc))" by (simp_all add: queue_edit_def Let_def)
  moreover have "\<exists>peer' evs. doc_applyActions [?a] peer = Some (peer', evs) \<and> td_state peer' = st'"
    if "td_state peer = ?st" "td_docType peer = td_docType doc" for peer
    by (rule apply_run_action [OF D(3) ne u _ patched that]) simp
  ultimately show ?thesis using step by (intro exI [of _ "fst ?q"] exI [of _ "snd ?q"] exI [of _ ?a]) simp
qed


lemma set_is_extend:
  assumes "doc_reachable st" "map_of (ds_nodes st) r = Some n" "\<not> run_deleted n"
  shows "applySetRun st r (n\<lparr>run_text := run_text n @ app, run_hlc := h\<rparr>) = applyExtendRun st r app h"
proof -
  obtain t where t: "represents st t" using reachable_ok [OF assms(1)] by (auto simp: doc_ok_def)
  have id: "run_id n = r" using represents_node [OF t assms(2)] by simp
  have len: "span_length s = int (length (run_text n))" if "s \<in> set (pi_spans (ds_index st))" "span_runId s = r" for s
  proof -
    from that(1) t obtain m where m: "m \<in> set (pre t)" "s = span_of m" by (auto simp: represents_def index_of_def spans_of_def)
    then have "map_of (ds_nodes st) r = Some m" using t that(2) by (auto simp: represents_def span_of_def)
    then show ?thesis using assms(2) m by (simp add: span_of_def)
  qed
  have "n\<lparr>run_text := run_text n @ app, run_hlc := h, run_id := r, run_deleted := False\<rparr> =
      n\<lparr>run_text := run_text n @ app, run_hlc := h\<rparr>"
    using id assms(3) by (cases n) simp
  with assms(2,3) len show ?thesis by (simp add: applySetRun_def applyExtendRun_def)
qed

lemma extend_diff:
  fixes n :: RunNode and app :: string and h :: hlc
  assumes ok: "obj_ok (ds_nodes st)" and n: "map_of (ds_nodes st) r = Some n" "\<not> run_deleted n" "r \<noteq> ROOT_ID" and app: "app \<noteq> []"
  defines "n' \<equiv> n\<lparr>run_text := run_text n @ app, run_hlc := h\<rparr>"
  obtains DA DB where "diffRunFields st (applyExtendRun st r app h) u h' =
      DA @ (r, \<lparr>rf_value = Some n', rf_update_id = u, rf_hlc = h'\<rparr>) # DB"
    "\<forall>kv \<in> set DA. stale st kv" "\<forall>kv \<in> set DB. stale (applyExtendRun st r app h) kv"
    "obj_ok (diffRunFields st (applyExtendRun st r app h) u h')"
proof -
  let ?st' = "applyExtendRun st r app h"
  have nodes': "ds_nodes ?st' = obj_set (ds_nodes st) r n'" using n by (simp add: applyExtendRun_def n'_def)
  obtain A B where AB: "ds_nodes st = A @ (r, n) # B" using map_of_SomeD [OF n(1)] split_list by metis
  have get: "map_of (ds_nodes st) i = Some m" if "(i, m) \<in> set (ds_nodes st)" for i m
    using ok that by (simp add: obj_ok_def)
  have other: "\<forall>(i, m) \<in> set A \<union> set B. i \<noteq> r \<and> map_of (ds_nodes st) i = Some m \<and> map_of (ds_nodes ?st') i = Some m"
    using ok get unfolding nodes' by (auto simp: AB obj_ok_def obj_set_get image_iff)
  have stA: "\<forall>kv \<in> set (diff_list ?st' A). stale st kv" by (rule diff_unchanged [OF ok]) (use other in auto)
  have stB: "\<forall>kv \<in> set (diff_list ?st' B). stale ?st' kv" by (rule diff_unchanged [OF ok]) (use other in auto)
  have v: "diff_value ?st' r n = Some \<lparr>rf_value = Some n', rf_update_id = '''', rf_hlc = h\<rparr>"
    using n app by (simp add: diff_value_def nodes' obj_set_get n'_def)
  have "fold (diff_new st) (ds_nodes ?st') acc = acc" for acc
  proof (rule fold_diff_new_old)
    show "\<forall>x \<in> set (ds_nodes ?st'). map_of (ds_nodes st) (fst x) \<noteq> None"
    proof
      fix x
      assume "x \<in> set (ds_nodes ?st')"
      then have "fst x \<in> insert r (fst ` set (ds_nodes st))"
        using dom_update [of r n' "ds_nodes st"] unfolding nodes' by auto
      then consider "fst x = r" | "fst x \<in> fst ` set (ds_nodes st)" by blast
      then show "map_of (ds_nodes st) (fst x) \<noteq> None" using n(1) by cases (simp_all add: map_of_eq_None_iff)
    qed
  qed
  then have diff: "diffRunMap st ?st' = diff_list ?st' (ds_nodes st)"
    using fold_diff_old [of "ds_nodes st" "[]" ?st'] ok by (simp add: diffRunMap_def obj_ok_def)
  have okd: "obj_ok (diffRunMap st ?st')" using ok unfolding diff by (intro obj_ok_diff_list) (simp add: obj_ok_def)
  have "diffRunFields st ?st' u h' = map (stamped u h') (diff_list ?st' A) @
      (r, \<lparr>rf_value = Some n', rf_update_id = u, rf_hlc = h'\<rparr>) # map (stamped u h') (diff_list ?st' B)"
    unfolding diffRunFields_def stampRuns_map(1) [OF okd] unfolding diff AB by (simp add: v) (simp add: stamped_def)
  moreover have "obj_ok (diffRunFields st ?st' u h')" using stampRuns_map [OF okd] by (simp add: diffRunFields_def)
  ultimately show thesis using that stA stB by (simp add: stale_stamped)
qed

text \<open>
  A local extension reaches peers as made. Appending text to a live run with a timestamp not behind
  the run's own is accepted and queued, and a peer whose document is in the same state as the sender's was ends in
  the sender's new state on applying the queued Action.
\<close>

theorem local_extend_replicates:
  assumes hlc: "h = getOr (le_hlc opts) (fst (advanceLocalHlc now (td_localHlc doc)))"
    and "doc_reachable (td_state doc)" "map_of (ds_nodes (td_state doc)) (le_runId opts) = Some n" "\<not> run_deleted n"
    "le_runId opts \<noteq> ROOT_ID" "le_appendText opts \<noteq> []" "run_hlc n \<le> h"
  shows "\<exists>doc' r a. localExtend random now opts doc = Some (doc', r) \<and> er_result r = Some (act_id a) \<and>
    td_pending doc' = td_pending doc @ [a] \<and> td_state doc' = applyExtendRun (td_state doc) (le_runId opts) (le_appendText opts) h \<and>
    (\<forall>peer. td_state peer = td_state doc \<longrightarrow> td_docType peer = td_docType doc \<longrightarrow>
      (\<exists>peer' evs. doc_applyActions [a] peer = Some (peer', evs) \<and> td_state peer' = td_state doc'))"
proof -
  let ?st = "td_state doc" and ?r = "le_runId opts" and ?app = "le_appendText opts"
  let ?n' = "n\<lparr>run_text := run_text n @ ?app, run_hlc := h\<rparr>"
  let ?st' = "applyExtendRun ?st ?r ?app h"
  have ok: "obj_ok (ds_nodes ?st)" using assms(2) reachable_obj_ok by auto
  let ?u = "''u_ext_'' @ dec_nat (td_updateCounter doc)"
  let ?runs = "diffRunFields ?st ?st' ?u h"
  obtain DA DB where D: "?runs = DA @ (?r, \<lparr>rf_value = Some ?n', rf_update_id = ?u, rf_hlc = h\<rparr>) # DB"
    "\<forall>kv \<in> set DA. stale ?st kv" "\<forall>kv \<in> set DB. stale ?st' kv" "obj_ok ?runs"
    by (rule extend_diff [OF ok assms(3-6)]) blast
  have "applyRunFieldUpdate ?st ?r \<lparr>rf_value = Some ?n', rf_update_id = ?u, rf_hlc = h\<rparr> =
      Some (?st', [ExtendRun ?r (run_text n @ ?app) h])"
    using assms(3,4,6,7) set_is_extend [OF assms(2-4)] by (simp add: applyRunFieldUpdate_def compareHlc_def)
  moreover have "map_option fst (applyRunFieldUpdates ?st' DB) = Some ?st'" using apply_stale [OF D(3), of "[]"] by simp
  ultimately have patched: "map_option fst (applyRunFieldUpdates ?st ?runs) = Some ?st'"
    unfolding D(1) apply_stale [OF D(2)] by auto
  have ne: "?runs \<noteq> []" using D(1) by simp
  obtain k f rest where kf: "?runs = (k, f) # rest" using ne by (cases ?runs) auto
  obtain u where u: "docActionToUpdate ?runs (td_docId doc) (rf_update_id f) (Some (td_docType doc)) = Some u"
    using ne by (simp add: docActionToUpdate_def)
  let ?a = "\<lparr>act_id = ID_PREFIX_ACTION @ ''_'' @ random, actor_id = td_actorId doc, act_hlc = h, act_gsn = 0, act_updates = [u]\<rparr>"
  let ?q = "queue_edit ?a ?r KindExtend (act_id ?a) (doc\<lparr>td_localHlc := snd (advanceLocalHlc now (td_localHlc doc)),
      td_state := ?st', td_updateCounter := Suc (td_updateCounter doc)\<rparr>)"
  have "localExtend random now opts doc = Some ?q"
    using assms(3,4,6) u kf unfolding localExtend_def hlc
    by (simp add: Let_def docReducer_def case_prod_beta)
  moreover have "td_state (fst ?q) = ?st'" "td_pending (fst ?q) = td_pending doc @ [?a]"
    "er_result (snd ?q) = Some (act_id ?a)" by (simp_all add: queue_edit_def Let_def)
  moreover have "\<exists>peer' evs. doc_applyActions [?a] peer = Some (peer', evs) \<and> td_state peer' = ?st'"
    if "td_state peer = ?st" "td_docType peer = td_docType doc" for peer
    by (rule apply_run_action [OF D(4) ne u _ patched that]) simp
  ultimately show ?thesis by (intro exI [of _ "fst ?q"] exI [of _ "snd ?q"] exI [of _ ?a]) simp
qed

section \<open>Sample edits\<close>

definition sample_document :: TextDocument where
  "sample_document = (newTextDocument ''e_1'' ''a_bo'' None)\<lparr>td_state := sample_doc\<rparr>"

definition sample_insert :: LocalInsertOptions where
  "sample_insert = \<lparr>li_afterRun = Some ''5:a_al'', li_splitParentAt = None, li_hlc = Some 9\<rparr>"

theorem local_insert_replicates_witness:
  "\<exists>doc' r. localInsert ''x'' 0 ''Y'' sample_insert sample_document = Some (doc', r) \<and> er_result r = Some ''9:a_bo''"
proof -
  have h: "doc_reachable (td_state sample_document)" using sample_doc_reachable by (simp add: sample_document_def)
  have e: "''5:a_al'' = getOr (li_afterRun sample_insert) (getOr (findLastVisibleRunId sample_document) ''ROOT'')"
    "(9::int) = getOr (li_hlc sample_insert) (fst (advanceLocalHlc 0 (td_localHlc sample_document)))"
    "li_splitParentAt sample_insert = None"
    "map_of (ds_nodes (td_state sample_document)) (makeRunId 9 (td_actorId sample_document)) = None"
    "map_of (ds_nodes (td_state sample_document)) ''5:a_al'' = Some sample_a" "''5:a_al'' = ROOT_ID \<or> \<not> run_deleted sample_a"
    "makeRunId 9 (td_actorId sample_document) = ''9:a_bo''" by code_simp+
  show ?thesis using local_insert_replicates [OF e(1,2) h e(3-6), where random = "''x''" and body = "''Y''"] e(7) by auto
qed

definition sample_extend :: LocalExtendOptions where
  "sample_extend = \<lparr>le_runId = ''5:a_al'', le_appendText = ''d'', le_hlc = Some 9\<rparr>"

theorem local_extend_replicates_witness:
  "\<exists>doc' r. localExtend ''x'' 0 sample_extend sample_document = Some (doc', r) \<and>
     td_state doc' = applyExtendRun sample_doc ''5:a_al'' ''d'' 9"
proof -
  have h: "doc_reachable (td_state sample_document)" using sample_doc_reachable by (simp add: sample_document_def)
  have e: "(9::int) = getOr (le_hlc sample_extend) (fst (advanceLocalHlc 0 (td_localHlc sample_document)))"
    "map_of (ds_nodes (td_state sample_document)) (le_runId sample_extend) = Some sample_a" "\<not> run_deleted sample_a"
    "le_runId sample_extend \<noteq> ROOT_ID" "le_appendText sample_extend \<noteq> []" "run_hlc sample_a \<le> 9" by code_simp+
  show ?thesis using local_extend_replicates [OF e(1) h e(2-6), where random = "''x''"]
    by (auto simp: sample_document_def sample_extend_def)
qed


section \<open>Where replicas part\<close>

text \<open>The text a fresh document shows after applying run values in the given order.\<close>

definition text_after :: "(string \<times> RunFieldValue) list \<Rightarrow> string option" where
  "text_after runs = Option.bind (applyRunFieldUpdates createDocState runs) (\<lambda>(st, _). reconstruct st)"

definition sample_field :: "hlc \<Rightarrow> string \<Rightarrow> RunNode \<Rightarrow> string \<times> RunFieldValue" where
  "sample_field h uid n = (run_id n, \<lparr>rf_value = Some n, rf_update_id = uid, rf_hlc = h\<rparr>)"

text \<open>
  The text depends on the order in which run values are applied. (1) Hydrating a child's key before
  its parent's creates a deleted placeholder for the parent, and the parent's own value, then taken for a
  re-creation, is dropped: the text is lost. (2) Extending a run advances the timestamp that orders it
  among its siblings, so a replica that saw the run before the extension keeps it in its old place while
  one that reads the final values puts it first.
\<close>

theorem run_order_matters:
  "text_after [sample_field 5 ''u_1'' sample_a, sample_field 6 ''u_2'' (sample_node 6 ''a_bo'' ''X'' ''5:a_al'')] = Some ''abcX'' \<and>
   text_after [sample_field 6 ''u_2'' (sample_node 6 ''a_bo'' ''X'' ''5:a_al''), sample_field 5 ''u_1'' sample_a] = Some ''X'' \<and>
   (let a = sample_field 5 ''u_1'' sample_a;
        b = sample_field 3 ''u_2'' (sample_node 3 ''a_bo'' ''b'' ROOT_ID);
        b' = sample_field 12 ''u_3'' ((sample_node 3 ''a_bo'' ''bb'' ROOT_ID)\<lparr>run_hlc := 12\<rparr>)
    in text_after [a, b, b'] = Some ''abcbb'' \<and> text_after [a, b'] = Some ''bbabc'')"
  by code_simp


end
