(* ===== verification/ConflictSlots.thy ===== *)
theory ConflictSlots
  imports Stores
begin

text \<open>
  Conflict slots (packages/client/src/sync/conflict-slots.ts, with \<^verbatim>\<open>projectFieldValue\<close> of
  packages/write/src/field-projection.ts): the fold of a window of missed Actions into one effective
  state per subject, and the positions at which a buffered write and an inbound write meet.

  A \<^verbatim>\<open>Map\<close> is an association list. The projection cache of a map field is left out: the projection is a
  function of the field. A \<^verbatim>\<open>side\<close> value of \<^const>\<open>None\<close> is \<^verbatim>\<open>undefined\<close>.
\<close>

section \<open>Model\<close>

subsection \<open>Folding Actions\<close>

definition STRUCTURAL_SUBJECT_TYPES :: "string list" where
  "STRUCTURAL_SUBJECT_TYPES = [''relationship'', ''entityGroup'', ''groupMember'']"

record InboundSubject =
  is_subjectType :: string
  is_replaced :: bool
  is_fields :: "field_value obj"

record PendingWrite =
  pw_subjectType :: string
  pw_fields :: "field_value obj"

definition updateFields :: "Update \<Rightarrow> field_value obj option" where
  "updateFields update = upd_data update"

definition mergeUpdateFields :: "field_value obj \<Rightarrow> Update \<Rightarrow> field_value obj" where
  "mergeUpdateFields flds update =
     fold (\<lambda>(field, v) flds. obj_set flds field
         (case map_of flds field of None \<Rightarrow> v | Some previous \<Rightarrow> mergeFieldValue (Some previous) v))
       (getOr (updateFields update) []) flds"

definition fold_update :: "Update \<Rightarrow> InboundSubject obj \<Rightarrow> InboundSubject obj" where
  "fold_update update subjects =
     (let current = getOr (map_of subjects (subject_id update))
            \<lparr>is_subjectType = subject_type update, is_replaced = False, is_fields = []\<rparr>
      in case upd_method update of
           Put \<Rightarrow> obj_set subjects (subject_id update)
             (current\<lparr>is_replaced := True, is_fields := mergeUpdateFields [] update\<rparr>)
         | Delete \<Rightarrow> obj_set subjects (subject_id update) (current\<lparr>is_replaced := True, is_fields := []\<rparr>)
         | Patch \<Rightarrow> obj_set subjects (subject_id update)
             (current\<lparr>is_fields := mergeUpdateFields (is_fields current) update\<rparr>))"

definition foldAction :: "InboundSubject obj \<Rightarrow> Action \<Rightarrow> InboundSubject obj" where
  "foldAction subjects action = fold fold_update (act_updates action) subjects"

definition inboundSubjects :: "Action \<Rightarrow> InboundSubject obj" where
  "inboundSubjects action = foldAction [] action"

definition foldInboundWindow :: "Action list \<Rightarrow> InboundSubject obj" where
  "foldInboundWindow actions = foldl foldAction [] actions"

definition write_update :: "Update \<Rightarrow> PendingWrite obj \<Rightarrow> PendingWrite obj" where
  "write_update update writes =
     (let flds = (case map_of writes (subject_id update) of None \<Rightarrow> [] | Some current \<Rightarrow> pw_fields current)
      in obj_set writes (subject_id update)
           \<lparr>pw_subjectType = subject_type update, pw_fields = mergeUpdateFields flds update\<rparr>)"

definition actionWrites :: "Action \<Rightarrow> PendingWrite obj" where
  "actionWrites action = fold write_update (act_updates action) []"

definition isConflictableField :: "(string \<Rightarrow> string \<Rightarrow> bool) option \<Rightarrow> string \<Rightarrow> string \<Rightarrow> bool" where
  "isConflictableField isLwwField subjectType field \<longleftrightarrow>
     subjectType \<notin> set STRUCTURAL_SUBJECT_TYPES \<and>
     (case isLwwField of None \<Rightarrow> True | Some f \<Rightarrow> f subjectType field)"

subsection \<open>Positions and sides\<close>

function projectFieldValue :: "field_value \<Rightarrow> json" and project_entries :: "field_value obj \<Rightarrow> json obj" where
  "projectFieldValue (Leaf v u h) = v"
| "projectFieldValue (FMap m) = JObj (project_entries m)"
| "project_entries [] = []"
| "project_entries ((key, entry) # rest) =
     (let projected = projectFieldValue entry in
      if projected = JNull then project_entries rest else (key, projected) # project_entries rest)"
  by pat_completeness auto
termination
  by (relation "measure (\<lambda>x. case x of Inl f \<Rightarrow> size f | Inr es \<Rightarrow> size_list (size_prod (\<lambda>_. 0) size) es)") auto

definition undefined_side :: ConflictSide where
  "undefined_side = \<lparr>side_value = None, side_update_id = None, side_hlc = None\<rparr>"

definition conflictSide :: "field_value \<Rightarrow> ConflictSide" where
  "conflictSide v = (case v of
     FMap m \<Rightarrow> undefined_side\<lparr>side_value := Some (projectFieldValue v)\<rparr>
   | Leaf x u h \<Rightarrow> \<lparr>side_value = (if x = JNull then None else Some x), side_update_id = Some u, side_hlc = h\<rparr>)"

fun nodeAtPath :: "field_value \<Rightarrow> string list \<Rightarrow> field_value option" where
  "nodeAtPath v [] = Some v"
| "nodeAtPath (FMap m) (key # path) =
     (case map_of m key of None \<Rightarrow> None | Some node \<Rightarrow> nodeAtPath node path)"
| "nodeAtPath (Leaf x u h) (key # path) = None"

function overlappingPaths :: "field_value \<Rightarrow> field_value \<Rightarrow> string list \<Rightarrow> string list list"
  and overlapping_entries :: "field_value obj \<Rightarrow> field_value obj \<Rightarrow> string list \<Rightarrow> string list list" where
  "overlappingPaths pending inbound path = (case (pending, inbound) of
     (FMap pm, FMap im) \<Rightarrow> overlapping_entries pm im path
   | _ \<Rightarrow> [path])"
| "overlapping_entries pm [] path = []"
| "overlapping_entries pm ((key, inboundChild) # rest) path =
     (case map_of pm key of
        None \<Rightarrow> overlapping_entries pm rest path
      | Some pendingChild \<Rightarrow> overlappingPaths pendingChild inboundChild (path @ [key]) @ overlapping_entries pm rest path)"
  by pat_completeness auto
termination
  by (relation "measure (\<lambda>x. case x of Inl (p, i, q) \<Rightarrow> size i
        | Inr (pm, es, q) \<Rightarrow> size_list (size_prod (\<lambda>_. 0) size) es)") auto

text \<open>\<^verbatim>\<open>path.join(sep)\<close>\<close>

fun join :: "string \<Rightarrow> string list \<Rightarrow> string" where
  "join sep [] = []"
| "join sep [x] = x"
| "join sep (x # y # xs) = x @ sep @ join sep (y # xs)"

definition slotKey :: "string \<Rightarrow> string \<Rightarrow> string list \<Rightarrow> string" where
  "slotKey subjectId field path = subjectId @ [NUL] @ field @ [NUL] @ join [CHR 0x01] path"

definition side_at :: "field_value option \<Rightarrow> string list \<Rightarrow> ConflictSide" where
  "side_at v path = (case Option.bind v (\<lambda>v. nodeAtPath v path) of None \<Rightarrow> undefined_side | Some n \<Rightarrow> conflictSide n)"

definition conflictSlot :: "string \<Rightarrow> string \<Rightarrow> string list \<Rightarrow> field_value \<Rightarrow> field_value option \<Rightarrow> ConflictSlot" where
  "conflictSlot subjectId field path pending remote =
     \<lparr>slot_subjectId = subjectId, slot_field = field, slot_path = path,
      slot_local = side_at (Some pending) path, slot_remote = side_at remote path\<rparr>"

section \<open>Positions\<close>

declare overlappingPaths.simps [simp del]

text \<open>No map of a value repeats a key.\<close>

function (sequential) keys_ok :: "field_value \<Rightarrow> bool" where
  "keys_ok (Leaf v u h) = True"
| "keys_ok (FMap m) = (obj_ok m \<and> list_all (\<lambda>kv. keys_ok (snd kv)) m)"
  by pat_completeness auto
termination
  by (relation "measure size") (auto dest: size_entry)

lemma keys_ok_entry: "keys_ok (FMap m) \<Longrightarrow> map_of m k = Some v \<Longrightarrow> keys_ok v"
  by (auto simp: list_all_iff dest!: map_of_SomeD)

lemma conforms_keys_ok: "conforms s v \<Longrightarrow> keys_ok v"
  by (induction v arbitrary: s) (auto simp: list_all_iff)

lemma overlapping_simps [simp]:
  "overlappingPaths (FMap pm) (FMap im) path = overlapping_entries pm im path"
  "overlappingPaths (Leaf x u h) v path = [path]"
  "overlappingPaths v (Leaf x u h) path = [path]"
  by (simp_all add: overlappingPaths.simps split: field_value.splits)

text \<open>The accumulated prefix is only ever prepended.\<close>

lemma overlapping_shift:
  "overlappingPaths a b (q @ path) = map ((@) q) (overlappingPaths a b path)"
  "overlapping_entries pm im (q @ path) = map ((@) q) (overlapping_entries pm im path)"
proof (induction a b path and pm im path rule: overlappingPaths_overlapping_entries.induct)
  case (1 pending inbound path)
  then show ?case by (cases pending; cases inbound) auto
next
  case (2 pm path)
  then show ?case by simp
next
  case (3 pm key child rest path)
  then show ?case by (cases "map_of pm key") auto
qed

lemma overlapping_under:
  "overlappingPaths a b [k] = map ((#) k) (overlappingPaths a b [])"
  using overlapping_shift(1) [of a b "[k]" "[]"] by simp

lemma overlapping_entries_Nil: "[] \<notin> set (overlapping_entries pm im [])"
  by (induction im) (auto simp: overlapping_under split: option.splits)

lemma overlapping_entries_set:
  "obj_ok im \<Longrightarrow> k # q \<in> set (overlapping_entries pm im []) \<longleftrightarrow>
     (\<exists>a b. map_of pm k = Some a \<and> map_of im k = Some b \<and> q \<in> set (overlappingPaths a b []))"
proof (induction im)
  case Nil
  then show ?case by simp
next
  case (Cons e im)
  obtain k' b where e: "e = (k', b)" by (cases e)
  have ok: "obj_ok im" "map_of im k' = None" using Cons.prems by (simp_all add: e obj_ok_Cons)
  then show ?case
    using Cons.IH by (cases "map_of pm k'"; cases "k = k'") (auto simp: e overlapping_under)
qed

text \<open>
  The reported positions are exactly the contested ones. A path is reported for two values when both
  hold something there and not both hold a map: a leaf on both sides, or the place where their kinds part.
  Sibling keys are never reported.
\<close>

theorem overlapping_paths_correct:
  assumes "keys_ok pending" "keys_ok inbound"
  shows "p \<in> set (overlappingPaths pending inbound []) \<longleftrightarrow>
    (\<exists>a b. nodeAtPath pending p = Some a \<and> nodeAtPath inbound p = Some b \<and> \<not> (isFieldMap a \<and> isFieldMap b))"
  using assms
proof (induction p arbitrary: pending inbound)
  case Nil
  show ?case
  proof (cases "isFieldMap pending \<and> isFieldMap inbound")
    case True
    then obtain pm im where "pending = FMap pm" "inbound = FMap im" by (auto simp: isFieldMap_def split: field_value.splits)
    with Nil True show ?thesis by (simp add: overlapping_entries_Nil)
  next
    case False
    then show ?thesis by (cases pending; cases inbound) (auto simp: isFieldMap_def)
  qed
next
  case (Cons k p)
  show ?case
  proof (cases pending)
    case (FMap pm)
    show ?thesis
    proof (cases inbound)
      case (FMap im)
      have "k # p \<in> set (overlapping_entries pm im []) \<longleftrightarrow>
          (\<exists>a b. map_of pm k = Some a \<and> map_of im k = Some b \<and> p \<in> set (overlappingPaths a b []))"
        using Cons.prems(2) FMap by (simp add: overlapping_entries_set)
      also have "\<dots> \<longleftrightarrow> (\<exists>a b. nodeAtPath pending (k # p) = Some a \<and> nodeAtPath inbound (k # p) = Some b \<and>
          \<not> (isFieldMap a \<and> isFieldMap b))"
        using Cons.IH Cons.prems keys_ok_entry \<open>pending = FMap pm\<close> FMap
        by (cases "map_of pm k"; cases "map_of im k") auto
      finally show ?thesis using \<open>pending = FMap pm\<close> FMap by simp
    qed simp
  qed simp
qed

definition sample_pending :: field_value where
  "sample_pending = FMap [(''name'', Leaf (JStr ''a'') ''u_1'' (Some 1)), (''tags'', FMap [(''red'', Leaf JNull ''u_1'' (Some 1))])]"

definition sample_inbound :: field_value where
  "sample_inbound = FMap [(''tags'', Leaf (JStr ''none'') ''u_2'' (Some 2)), (''size'', Leaf (JStr ''9'') ''u_2'' (Some 2))]"

theorem overlapping_paths_correct_witness:
  "overlappingPaths sample_pending sample_inbound [] = [[''tags'']] \<and>
   (\<exists>a b. nodeAtPath sample_pending [''tags''] = Some a \<and> nodeAtPath sample_inbound [''tags''] = Some b \<and> \<not> (isFieldMap a \<and> isFieldMap b))"
proof
  show paths: "overlappingPaths sample_pending sample_inbound [] = [[''tags'']]" by code_simp
  show "\<exists>a b. nodeAtPath sample_pending [''tags''] = Some a \<and> nodeAtPath sample_inbound [''tags''] = Some b \<and> \<not> (isFieldMap a \<and> isFieldMap b)"
    by (rule overlapping_paths_correct [THEN iffD1]) (code_simp | simp add: paths)+
qed

text \<open>
  A write loses nothing outside the contested positions. After an inbound value is merged over a pending
  one, every leaf of the pending value that no reported position leads to is still in place.
\<close>

theorem uncontested_leaf_survives:
  assumes "keys_ok pending" "keys_ok inbound" "leaf_at p pending = Some leaf"
    "\<forall>q \<in> set (overlappingPaths pending inbound []). \<not> (\<exists>r. p = q @ r)"
  shows "leaf_at p (mergeFieldValue (Some pending) inbound) = Some leaf"
  using assms
proof (induction p arbitrary: pending inbound)
  case Nil
  then show ?case by (cases pending; cases inbound) auto
next
  case (Cons k p)
  from Cons.prems(3) obtain pm a where pm: "pending = FMap pm" "map_of pm k = Some a" "leaf_at p a = Some leaf"
    by (cases pending) (auto split: option.splits)
  from Cons.prems(4) obtain im where im: "inbound = FMap im" by (cases inbound) auto
  have ok: "obj_ok im" using Cons.prems(2) im by simp
  show ?case
  proof (cases "map_of im k")
    case None
    with pm im ok show ?thesis by (simp add: merge_entries_get)
  next
    case (Some b)
    have "\<forall>q \<in> set (overlappingPaths a b []). \<not> (\<exists>r. p = q @ r)"
    proof
      fix q
      assume "q \<in> set (overlappingPaths a b [])"
      then have "k # q \<in> set (overlappingPaths pending inbound [])"
        using pm im ok Some by (simp add: overlapping_entries_set)
      with Cons.prems(4) have "\<not> (\<exists>r. k # p = (k # q) @ r)" by blast
      then show "\<not> (\<exists>r. p = q @ r)" by simp
    qed
    moreover have "keys_ok a" "keys_ok b" using Cons.prems(1,2) pm im Some keys_ok_entry by blast+
    ultimately show ?thesis using Cons.IH pm im ok Some by (simp add: merge_entries_get)
  qed
qed

theorem uncontested_leaf_survives_witness:
  "leaf_at [''name''] (mergeFieldValue (Some sample_pending) sample_inbound) = Some (Leaf (JStr ''a'') ''u_1'' (Some 1))"
proof (rule uncontested_leaf_survives)
  have "overlappingPaths sample_pending sample_inbound [] = [[''tags'']]" by code_simp
  then show "\<forall>q \<in> set (overlappingPaths sample_pending sample_inbound []). \<not> (\<exists>r. [''name''] = q @ r)" by simp
qed code_simp+

end
