(* ===== verification/Outbox.thy ===== *)
theory Outbox
  imports ConflictSlots "HOL-Library.Monad_Syntax"
begin

text \<open>
  The outbox (packages/client/src/sync/outbox.ts): the local write buffer between callers and the server.

  The methods are asynchronous: each runs from one \<^verbatim>\<open>await\<close> to the next without interruption, and other
  calls may run while it waits for the store or the network. A method is therefore one definition per
  stretch between two awaits: \<open>m_begin\<close> is what runs after the durable load was awaited and says which
  store request the method waits for, \<open>m_stored\<close> (or \<open>m_deleted\<close>) is what runs when the request
  succeeded. A request that fails rejects the method where the source does not catch it, and nothing
  more runs. \<open>OutboxRun\<close> composes the stretches with the store under every interleaving.

  The collaborators the outbox is given are arguments: the HLC and the base GSN of a call, the answer
  of the network write, the declared conflict scope, the field oracle, the rows before and after a
  catch-up. Depth subscribers are the list of snapshots they were sent.
\<close>

section \<open>Data\<close>

record OutboxCounts =
  cnt_pending :: nat
  cnt_acknowledged :: nat
  cnt_error :: nat
  cnt_conflicted :: nat

record Rejection =
  rej_id :: string
  rej_reason :: string

datatype FlushOutcome =
    FlushEmpty
  | FlushAccepted "string list"
  | FlushPartial "string list" "Rejection list"
  | FlushUnreachable string

datatype ConflictScope = FieldScope | EntityScope

record Outbox =
  ox_entries :: "OutboxEntry list"
  ox_loaded :: bool
  ox_storeFaultCount :: nat
  ox_counts :: OutboxCounts
  ox_notified :: "OutboxCounts list"

abbreviation entry_id :: "OutboxEntry \<Rightarrow> string" where
  "entry_id e \<equiv> act_id (ob_action e)"

definition isConflicted :: "OutboxEntry \<Rightarrow> bool" where
  "isConflicted entry \<longleftrightarrow> ob_status entry = Conflicted \<and> ob_conflict entry \<noteq> None"

definition isConcurrent :: "OutboxEntry \<Rightarrow> Action \<Rightarrow> bool" where
  "isConcurrent entry action \<longleftrightarrow> act_gsn action > ob_basedOnGsn entry"

section \<open>Depth\<close>

definition zero_counts :: OutboxCounts where
  "zero_counts = \<lparr>cnt_pending = 0, cnt_acknowledged = 0, cnt_error = 0, cnt_conflicted = 0\<rparr>"

definition count_entry :: "OutboxEntry \<Rightarrow> OutboxCounts \<Rightarrow> OutboxCounts" where
  "count_entry entry c = (case ob_status entry of
     Pending \<Rightarrow> c\<lparr>cnt_pending := cnt_pending c + 1\<rparr>
   | Acknowledged \<Rightarrow> c\<lparr>cnt_acknowledged := cnt_acknowledged c + 1\<rparr>
   | OutboxError \<Rightarrow> c\<lparr>cnt_error := cnt_error c + 1\<rparr>
   | Conflicted \<Rightarrow> c\<lparr>cnt_conflicted := cnt_conflicted c + 1\<rparr>)"

definition ox_count :: "Outbox \<Rightarrow> OutboxCounts" where
  "ox_count st = fold count_entry (ox_entries st) zero_counts"

definition size_of :: "Outbox \<Rightarrow> OutboxStatus \<Rightarrow> nat" where
  "size_of st status = (case status of
     Pending \<Rightarrow> cnt_pending (ox_count st)
   | Acknowledged \<Rightarrow> cnt_acknowledged (ox_count st)
   | OutboxError \<Rightarrow> cnt_error (ox_count st)
   | Conflicted \<Rightarrow> cnt_conflicted (ox_count st))"

definition emit :: "Outbox \<Rightarrow> Outbox" where
  "emit st = (let snapshot = ox_count st in
     if snapshot = ox_counts st then st
     else st\<lparr>ox_counts := snapshot, ox_notified := ox_notified st @ [snapshot]\<rparr>)"

definition createOutbox :: Outbox where
  "createOutbox = \<lparr>ox_entries = [], ox_loaded = False, ox_storeFaultCount = 0, ox_counts = zero_counts, ox_notified = []\<rparr>"

definition reportStoreFault :: "Outbox \<Rightarrow> Outbox" where
  "reportStoreFault st = st\<lparr>ox_storeFaultCount := ox_storeFaultCount st + 1\<rparr>"

section \<open>Reads\<close>

definition pending_entries :: "Outbox \<Rightarrow> OutboxEntry list" where
  "pending_entries st = filter (\<lambda>entry. ob_status entry = Pending) (ox_entries st)"

definition error_entries :: "Outbox \<Rightarrow> OutboxEntry list" where
  "error_entries st = filter (\<lambda>entry. ob_status entry = OutboxError) (ox_entries st)"

definition unrejected_entries :: "Outbox \<Rightarrow> OutboxEntry list" where
  "unrejected_entries st = filter (\<lambda>entry. ob_status entry \<noteq> OutboxError) (ox_entries st)"

definition conflicted_entries :: "Outbox \<Rightarrow> OutboxEntry list" where
  "conflicted_entries st = filter isConflicted (ox_entries st)"

definition find_entry :: "(OutboxEntry \<Rightarrow> bool) \<Rightarrow> Outbox \<Rightarrow> OutboxEntry option" where
  "find_entry p st = List.find p (ox_entries st)"

abbreviation entry_of :: "Outbox \<Rightarrow> string \<Rightarrow> OutboxEntry option" where
  "entry_of st i \<equiv> find_entry (\<lambda>candidate. entry_id candidate = i) st"

abbreviation entry_with :: "Outbox \<Rightarrow> string \<Rightarrow> OutboxStatus \<Rightarrow> OutboxEntry option" where
  "entry_with st i status \<equiv> find_entry (\<lambda>c. entry_id c = i \<and> ob_status c = status) st"

definition set_status :: "string \<Rightarrow> OutboxStatus \<Rightarrow> Outbox \<Rightarrow> Outbox" where
  "set_status i status st = st\<lparr>ox_entries :=
     map (\<lambda>candidate. if entry_id candidate = i then candidate\<lparr>ob_status := status\<rparr> else candidate) (ox_entries st)\<rparr>"

definition drop_entry :: "string \<Rightarrow> Outbox \<Rightarrow> Outbox" where
  "drop_entry i st = st\<lparr>ox_entries := filter (\<lambda>candidate. entry_id candidate \<noteq> i) (ox_entries st)\<rparr>"

section \<open>Loading, buffering and removing\<close>

text \<open>A stored entry always carries its base GSN here; the source reads an absent one as 0.\<close>

definition rehydrate_loaded :: "OutboxEntry list \<Rightarrow> Outbox \<Rightarrow> Outbox" where
  "rehydrate_loaded persisted st = emit (st\<lparr>
     ox_entries := sort_by (\<lambda>a b. compareHlc (ob_enqueuedAtHlc a) (ob_enqueuedAtHlc b)) persisted, ox_loaded := True\<rparr>)"

definition rehydrate_failed :: "Outbox \<Rightarrow> Outbox" where
  "rehydrate_failed st = st\<lparr>ox_loaded := False\<rparr>"

definition fresh_entry :: "Action \<Rightarrow> hlc \<Rightarrow> int \<Rightarrow> OutboxEntry" where
  "fresh_entry action enqueuedAtHlc basedOnGsn = \<lparr>ob_action = action, ob_status = Pending,
     ob_enqueuedAtHlc = enqueuedAtHlc, ob_basedOnGsn = basedOnGsn, ob_conflict = None\<rparr>"

definition enqueue_begin :: "Action \<Rightarrow> hlc \<Rightarrow> int \<Rightarrow> OutboxEntry" where
  "enqueue_begin action h gsn = fresh_entry action h gsn"

definition enqueue_stored :: "OutboxEntry \<Rightarrow> Outbox \<Rightarrow> Outbox" where
  "enqueue_stored entry st = emit (st\<lparr>ox_entries := ox_entries st @ [entry]\<rparr>)"

definition retryConflicted_begin :: "string \<Rightarrow> Action \<Rightarrow> hlc \<Rightarrow> int \<Rightarrow> Outbox \<Rightarrow> OutboxEntry option" where
  "retryConflicted_begin originalId action h gsn st = (case entry_with st originalId Conflicted of
     None \<Rightarrow> None | Some original \<Rightarrow> Some (fresh_entry action h gsn))"

definition retryConflicted_stored :: "string \<Rightarrow> OutboxEntry \<Rightarrow> Outbox \<Rightarrow> Outbox" where
  "retryConflicted_stored originalId entry st =
     emit (st\<lparr>ox_entries := filter (\<lambda>candidate. entry_id candidate \<noteq> originalId) (ox_entries st) @ [entry]\<rparr>)"

definition retry_begin :: "string \<Rightarrow> Outbox \<Rightarrow> OutboxEntry option" where
  "retry_begin actionId st = (case entry_with st actionId OutboxError of
     None \<Rightarrow> None | Some entry \<Rightarrow> Some (entry\<lparr>ob_status := Pending\<rparr>))"

definition retry_stored :: "string \<Rightarrow> Outbox \<Rightarrow> Outbox" where
  "retry_stored actionId st = emit (set_status actionId Pending st)"

definition clearError_begin :: "string \<Rightarrow> Outbox \<Rightarrow> bool" where
  "clearError_begin actionId st \<longleftrightarrow> entry_with st actionId OutboxError \<noteq> None"

definition clearError_deleted :: "string \<Rightarrow> Outbox \<Rightarrow> Outbox" where
  "clearError_deleted actionId st = emit (drop_entry actionId st)"

definition clearConflict_begin :: "string \<Rightarrow> Outbox \<Rightarrow> bool" where
  "clearConflict_begin actionId st \<longleftrightarrow> entry_with st actionId Conflicted \<noteq> None"

definition clearConflict_deleted :: "string \<Rightarrow> Outbox \<Rightarrow> Outbox" where
  "clearConflict_deleted actionId st = emit (drop_entry actionId st)"

definition matchEcho_begin :: "Action \<Rightarrow> Outbox \<Rightarrow> bool" where
  "matchEcho_begin action st \<longleftrightarrow> act_gsn action > 0 \<and>
     find_entry (\<lambda>entry. entry_id entry = act_id action \<and>
       (ob_status entry = Pending \<or> ob_status entry = Acknowledged)) st \<noteq> None"

definition matchEcho_deleted :: "string \<Rightarrow> Outbox \<Rightarrow> Outbox" where
  "matchEcho_deleted actionId st = emit (drop_entry actionId st)"

section \<open>Flushing\<close>

definition flush_batch :: "Outbox \<Rightarrow> OutboxEntry list" where
  "flush_batch st = filter (\<lambda>entry. ob_status entry = Pending) (ox_entries st)"

definition statusFor :: "Rejection list \<Rightarrow> OutboxEntry \<Rightarrow> OutboxStatus" where
  "statusFor rejected entry = (if entry_id entry \<in> rej_id ` set rejected then OutboxError else Acknowledged)"

text \<open>The loop over the batch: entries that are gone or no longer pending are skipped.\<close>

fun flush_next :: "Outbox \<Rightarrow> OutboxEntry list \<Rightarrow> (OutboxEntry \<times> OutboxEntry list) option" where
  "flush_next st [] = None"
| "flush_next st (entry # rest) = (case entry_of st (entry_id entry) of
     None \<Rightarrow> flush_next st rest
   | Some before \<Rightarrow> if ob_status before \<noteq> Pending then flush_next st rest else Some (entry, rest))"

text \<open>What the loop writes, as the entry lies in the store afterwards.\<close>

definition flush_row :: "Rejection list \<Rightarrow> OutboxEntry \<Rightarrow> OutboxEntry" where
  "flush_row rejected entry = entry\<lparr>ob_status := statusFor rejected entry, ob_conflict := None\<rparr>"

text \<open>
  After the write: an entry removed meanwhile is deleted from the store again, one that left \<^verbatim>\<open>pending\<close>
  is written back as it is now, and otherwise the new status is committed to memory.
\<close>

definition flush_stored :: "Rejection list \<Rightarrow> OutboxEntry \<Rightarrow> Outbox \<Rightarrow> Outbox \<times> outbox_op option" where
  "flush_stored rejected entry st = (case entry_of st (entry_id entry) of
     None \<Rightarrow> (st, Some (OutboxDelete (entry_id entry)))
   | Some after \<Rightarrow>
       if ob_status after \<noteq> Pending then (st, Some (OutboxPut after))
       else (set_status (entry_id entry) (statusFor rejected entry) st, None))"

definition flush_finish :: "bool \<Rightarrow> Outbox \<Rightarrow> Outbox" where
  "flush_finish changed st = (if changed then emit st else st)"

definition flush_outcome :: "OutboxEntry list \<Rightarrow> Rejection list \<Rightarrow> FlushOutcome" where
  "flush_outcome batch rejected =
     (if rejected = [] then FlushAccepted (map entry_id batch)
      else FlushPartial (map entry_id (filter (\<lambda>entry. entry_id entry \<notin> rej_id ` set rejected) batch)) rejected)"

section \<open>Detecting conflicts\<close>

record DetectDeps =
  dd_conflictScope :: "string \<Rightarrow> ConflictScope"
  dd_isLwwField :: "(string \<Rightarrow> string \<Rightarrow> bool) option"
  dd_preSyncRow :: "string \<Rightarrow> string \<Rightarrow> Entity option"

record LoserSubject =
  ls_subjectId :: string
  ls_subjectType :: string
  ls_before :: "Entity option"

record Loser =
  lo_id :: string
  lo_subjects :: "string list"
  lo_subjectStates :: "LoserSubject list"
  lo_slots :: "ConflictSlot list"

type_synonym seen_slots = "string list \<times> ConflictSlot list"

definition add_slot :: "string \<Rightarrow> string \<Rightarrow> field_value \<Rightarrow> field_value option \<Rightarrow> string list \<Rightarrow> seen_slots \<Rightarrow> seen_slots" where
  "add_slot subjectId field pendingValue remote path acc = (case acc of (seen, overlap) \<Rightarrow>
     let key = slotKey subjectId field path in
     if key \<in> set seen then (seen, overlap)
     else (seen @ [key], overlap @ [conflictSlot subjectId field path pendingValue remote]))"

definition contested_paths :: "field_value \<Rightarrow> InboundSubject \<Rightarrow> string \<Rightarrow> string list list" where
  "contested_paths pendingValue actionInbound field =
     (case map_of (is_fields actionInbound) field of
        Some winner \<Rightarrow> overlappingPaths pendingValue winner []
      | None \<Rightarrow> if is_replaced actionInbound then [[]] else [])"

definition field_slots ::
  "DetectDeps \<Rightarrow> InboundSubject \<Rightarrow> string \<Rightarrow> InboundSubject \<Rightarrow> string \<times> field_value \<Rightarrow> seen_slots \<Rightarrow> seen_slots" where
  "field_slots deps inbound subjectId actionInbound kv acc = (case kv of (field, pendingValue) \<Rightarrow>
     if \<not> isConflictableField (dd_isLwwField deps) (is_subjectType inbound) field then acc
     else (let remoteField = map_of (is_fields inbound) field;
               winner = map_of (is_fields actionInbound) field
           in fold (add_slot subjectId field pendingValue (if winner = None then None else remoteField))
                (contested_paths pendingValue actionInbound field) acc))"

definition concurrent_inbound :: "OutboxEntry \<Rightarrow> (Action \<times> InboundSubject obj) list \<Rightarrow> string \<Rightarrow> InboundSubject list" where
  "concurrent_inbound entry window subjectId =
     List.map_filter (\<lambda>(action, subjects). if isConcurrent entry action then map_of subjects subjectId else None) window"

text \<open>One subject the entry writes: the seen keys and the loser so far.\<close>

definition subject_slots ::
  "DetectDeps \<Rightarrow> string \<Rightarrow> InboundSubject obj \<Rightarrow> (Action \<times> InboundSubject obj) list \<Rightarrow> OutboxEntry \<Rightarrow>
   string \<times> PendingWrite \<Rightarrow> string list \<times> Loser \<Rightarrow> string list \<times> Loser" where
  "subject_slots deps catchUpId folded window entry kv acc = (case (kv, acc) of ((subjectId, pending), (seen, loser)) \<Rightarrow>
     case map_of folded subjectId of
       None \<Rightarrow> acc
     | Some inbound \<Rightarrow>
         (let concurrent = concurrent_inbound entry window subjectId in
          if concurrent = [] then acc
          else (let (seen', overlap) = fold (\<lambda>actionInbound.
                      fold (field_slots deps inbound subjectId actionInbound) (pw_fields pending)) concurrent (seen, [])
                in if dd_conflictScope deps (is_subjectType inbound) = EntityScope \<or> length overlap > 0
                   then (seen', loser\<lparr>lo_subjects := lo_subjects loser @ [subjectId],
                     lo_subjectStates := lo_subjectStates loser @ [\<lparr>ls_subjectId = subjectId,
                       ls_subjectType = is_subjectType inbound, ls_before = dd_preSyncRow deps catchUpId subjectId\<rparr>],
                     lo_slots := lo_slots loser @ overlap\<rparr>)
                   else (seen', loser))))"

definition classify :: "DetectDeps \<Rightarrow> string \<Rightarrow> Action list \<Rightarrow> OutboxEntry \<Rightarrow> Loser option" where
  "classify deps catchUpId actions entry =
     (let folded = foldInboundWindow actions;
          window = map (\<lambda>action. (action, inboundSubjects action)) actions
      in if \<not> (\<exists>action \<in> set actions. isConcurrent entry action) then None
         else (let loser = snd (fold (subject_slots deps catchUpId folded window entry) (actionWrites (ob_action entry))
                    ([], \<lparr>lo_id = entry_id entry, lo_subjects = [], lo_subjectStates = [], lo_slots = []\<rparr>))
               in if lo_subjects loser = [] then None else Some loser))"

definition detect_candidates :: "Outbox \<Rightarrow> OutboxEntry list" where
  "detect_candidates st = filter (\<lambda>entry. ob_status entry = Pending \<or> ob_status entry = Acknowledged) (ox_entries st)"

definition detect_losers :: "DetectDeps \<Rightarrow> string \<Rightarrow> Action list \<Rightarrow> Outbox \<Rightarrow> Loser list" where
  "detect_losers deps catchUpId actions st =
     (if actions = [] \<or> detect_candidates st = [] \<or> foldInboundWindow actions = [] then []
      else List.map_filter (classify deps catchUpId actions) (detect_candidates st))"

subsection \<open>Grouping losers\<close>

text \<open>
  The loop that follows the parent links; \<^const>\<open>None\<close> is a walk that does not end, as for a subject that
  has no link.
\<close>

partial_function (option) find_root :: "string obj \<Rightarrow> string \<Rightarrow> string option" where
  [code]: "find_root parent r =
     (if map_of parent r = Some r then Some r else find_root parent (getOr (map_of parent r) r))"

definition union_roots :: "string obj \<Rightarrow> string \<Rightarrow> string \<Rightarrow> string obj option" where
  "union_roots parent a b = do {
     rootA \<leftarrow> find_root parent a;
     rootB \<leftarrow> find_root parent b;
     Some (if rootA \<noteq> rootB then obj_set parent rootB rootA else parent)
   }"

definition add_subject :: "string obj \<Rightarrow> string \<Rightarrow> string obj" where
  "add_subject parent subject = (if map_of parent subject = None then obj_set parent subject subject else parent)"

fun union_rest :: "string \<Rightarrow> string list \<Rightarrow> string obj \<Rightarrow> string obj option" where
  "union_rest first [] parent = Some parent"
| "union_rest first (subject # rest) parent = do {
     parent' \<leftarrow> union_roots (add_subject parent subject) first subject;
     union_rest first rest parent'
   }"

fun union_losers :: "Loser list \<Rightarrow> string obj \<Rightarrow> string obj option" where
  "union_losers [] parent = Some parent"
| "union_losers (loser # losers) parent = (case lo_subjects loser of
     [] \<Rightarrow> union_losers losers parent
   | first # rest \<Rightarrow> do {
       parent' \<leftarrow> union_rest first rest (add_subject parent first);
       union_losers losers parent'
     })"

text \<open>\<open>mint n\<close> is the id the \<open>n\<close>-th call of the id generator returns.\<close>

fun assign_ids :: "(nat \<Rightarrow> string) \<Rightarrow> string obj \<Rightarrow> nat \<Rightarrow> string obj \<Rightarrow> Loser list \<Rightarrow> (Loser \<times> string) list option" where
  "assign_ids mint parent n idByRoot [] = Some []"
| "assign_ids mint parent n idByRoot (loser # losers) = (case lo_subjects loser of
     [] \<Rightarrow> map_option (Cons (loser, mint n)) (assign_ids mint parent (Suc n) idByRoot losers)
   | first # rest \<Rightarrow> do {
       r \<leftarrow> find_root parent first;
       (case map_of idByRoot r of
          Some conflictId \<Rightarrow> map_option (Cons (loser, conflictId)) (assign_ids mint parent n idByRoot losers)
        | None \<Rightarrow> map_option (Cons (loser, mint n)) (assign_ids mint parent (Suc n) (obj_set idByRoot r (mint n)) losers))
     })"

definition groupLosers :: "(nat \<Rightarrow> string) \<Rightarrow> Loser list \<Rightarrow> (Loser \<times> string) list option" where
  "groupLosers mint losers = do {
     parent \<leftarrow> union_losers losers [];
     assign_ids mint parent 0 [] losers
   }"

subsection \<open>Holding a loser\<close>

definition conflict_payload :: "Loser \<Rightarrow> string \<Rightarrow> string \<Rightarrow> hlc \<Rightarrow> (string \<Rightarrow> Entity option) \<Rightarrow> OutboxConflict" where
  "conflict_payload loser conflictId catchUpId h readEntity =
     \<lparr>oc_subjects = lo_subjects loser,
      oc_subjectStates = map (\<lambda>s. \<lparr>css_subjectId = ls_subjectId s, css_subjectType = ls_subjectType s,
        css_before = ls_before s, css_after = readEntity (ls_subjectId s)\<rparr>) (lo_subjectStates loser),
      oc_slots = lo_slots loser, oc_catchUpId = catchUpId, oc_conflictId = conflictId, oc_detectedAtHlc = h\<rparr>"

text \<open>Memory is held first; the result names the row the store is asked to write.\<close>

definition markConflicted_begin :: "string \<Rightarrow> OutboxConflict \<Rightarrow> Outbox \<Rightarrow> Outbox \<times> OutboxEntry option" where
  "markConflicted_begin actionId conflict st = (case entry_of st actionId of
     None \<Rightarrow> (st, None)
   | Some entry \<Rightarrow>
       (emit (st\<lparr>ox_entries := map (\<lambda>candidate. if entry_id candidate = actionId
            then candidate\<lparr>ob_status := Conflicted, ob_conflict := Some conflict\<rparr> else candidate) (ox_entries st)\<rparr>),
        Some (entry\<lparr>ob_status := Conflicted, ob_conflict := Some conflict\<rparr>)))"

definition markConflicted_failed :: "Outbox \<Rightarrow> Outbox" where
  "markConflicted_failed st = reportStoreFault st"

end
