(* ===== verification/OutboxRun.thy ===== *)
theory OutboxRun
  imports Outbox
begin

text \<open>
  The outbox at run time: its methods interleaved with each other, with the durable store and with the
  network write (packages/client/src/sync/outbox.ts, \<^verbatim>\<open>createOutbox\<close>).

  A store request is a call in flight: it is issued, it lands (takes effect in the store, or fails), and
  the method that waits for it resumes. Requests land in the order they were issued and the methods
  resume in that order, as the transactions of one IndexedDB object store and the microtasks of the
  in-memory store do; between any two of these events other methods may run. A flush is single-flight: a
  call of \<^verbatim>\<open>flush\<close> while one runs shares its outcome. A detection pass is \<open>EvDetect\<close>, which classifies and groups
  the losers, one \<open>EvHold\<close> per loser, and \<open>EvDetectEnd\<close>, the notification after the last one.

  \<open>rn_submitted\<close>, \<open>rn_applied\<close> and \<open>rn_outcomes\<close> record what the outbox handed to the network, to the
  optimistic read model and to the callers of \<^verbatim>\<open>flush\<close>; \<open>rn_faulted\<close> the Actions whose hold or whose
  repair after a raced flush failed to reach the store.
\<close>

section \<open>The machine\<close>

datatype Continuation =
    KEnqueue OutboxEntry
  | KRetryConflicted string OutboxEntry
  | KRetry string
  | KClearError string
  | KClearConflict string
  | KEcho string
  | KHold string
  | KFlushPut OutboxEntry
  | KFlushFix

record Call =
  cl_op :: outbox_op
  cl_cont :: Continuation
  cl_done :: "bool option"

record FlushRun =
  fr_batch :: "OutboxEntry list"
  fr_rejected :: "Rejection list"
  fr_rest :: "OutboxEntry list"
  fr_changed :: bool

datatype FlushState =
    FlushIdle
  | FlushSubmitting "OutboxEntry list"
  | FlushCommitting FlushRun

record Hold =
  hd_catchUpId :: string
  hd_loser :: Loser
  hd_conflictId :: string

record OutboxRun =
  rn_outbox :: Outbox
  rn_store :: OutboxStoreState
  rn_calls :: "Call list"
  rn_flush :: FlushState
  rn_holds :: "Hold list"
  rn_submitted :: "OutboxEntry list list"
  rn_applied :: "Action list"
  rn_outcomes :: "FlushOutcome option list"
  rn_faulted :: "string list"

datatype event =
    EvLoad bool
  | EvEnqueue Action hlc int
  | EvRetryConflicted string Action hlc int
  | EvRetry string
  | EvClearError string
  | EvClearConflict string
  | EvEcho Action
  | EvDetect string "Action list" "nat \<Rightarrow> string"
  | EvHold hlc "string \<Rightarrow> Entity option"
  | EvDetectEnd
  | EvFlush
  | EvSubmitResult "Rejection list option"
  | EvLand bool
  | EvResume

definition initial_run :: "OutboxStoreState \<Rightarrow> OutboxRun" where
  "initial_run store = \<lparr>rn_outbox = createOutbox, rn_store = store, rn_calls = [], rn_flush = FlushIdle, rn_holds = [],
     rn_submitted = [], rn_applied = [], rn_outcomes = [], rn_faulted = []\<rparr>"

definition issue :: "outbox_op \<Rightarrow> Continuation \<Rightarrow> OutboxRun \<Rightarrow> OutboxRun" where
  "issue op cont m = m\<lparr>rn_calls := rn_calls m @ [\<lparr>cl_op = op, cl_cont = cont, cl_done = None\<rparr>]\<rparr>"

definition with_outbox :: "(Outbox \<Rightarrow> Outbox) \<Rightarrow> OutboxRun \<Rightarrow> OutboxRun" where
  "with_outbox f m = m\<lparr>rn_outbox := f (rn_outbox m)\<rparr>"

text \<open>The end of \<^verbatim>\<open>runFlush\<close>, with its outcome or (\<^const>\<open>None\<close>) the store fault it rejects with.\<close>

definition end_flush :: "bool \<Rightarrow> FlushOutcome option \<Rightarrow> OutboxRun \<Rightarrow> OutboxRun" where
  "end_flush changed outcome m =
     m\<lparr>rn_outbox := flush_finish changed (rn_outbox m), rn_flush := FlushIdle, rn_outcomes := rn_outcomes m @ [outcome]\<rparr>"

definition advance_flush :: "FlushRun \<Rightarrow> OutboxRun \<Rightarrow> OutboxRun" where
  "advance_flush fr m = (case flush_next (rn_outbox m) (fr_rest fr) of
     None \<Rightarrow> end_flush (fr_changed fr) (Some (flush_outcome (fr_batch fr) (fr_rejected fr))) m
   | Some (entry, rest) \<Rightarrow>
       issue (OutboxPut (flush_row (fr_rejected fr) entry)) (KFlushPut entry)
         (m\<lparr>rn_flush := FlushCommitting (fr\<lparr>fr_rest := rest\<rparr>)\<rparr>))"

definition resume_flush_put :: "OutboxEntry \<Rightarrow> FlushRun \<Rightarrow> OutboxRun \<Rightarrow> OutboxRun" where
  "resume_flush_put entry fr m = (case flush_stored (fr_rejected fr) entry (rn_outbox m) of
     (ob, None) \<Rightarrow> advance_flush (fr\<lparr>fr_changed := True\<rparr>) (m\<lparr>rn_outbox := ob\<rparr>)
   | (ob, Some op) \<Rightarrow> issue op KFlushFix (m\<lparr>rn_outbox := ob\<rparr>))"

definition op_id :: "outbox_op \<Rightarrow> string" where
  "op_id op = (case op of OutboxPut e \<Rightarrow> entry_id e | OutboxPutAndDelete e d \<Rightarrow> entry_id e | OutboxDelete i \<Rightarrow> i)"

definition applied :: "OutboxEntry \<Rightarrow> OutboxRun \<Rightarrow> OutboxRun" where
  "applied entry m = m\<lparr>rn_applied := rn_applied m @ [ob_action entry]\<rparr>"

definition fault :: "Call \<Rightarrow> OutboxRun \<Rightarrow> OutboxRun" where
  "fault c m = m\<lparr>rn_faulted := rn_faulted m @ [op_id (cl_op c)]\<rparr>"

definition resume_call :: "Call \<Rightarrow> bool \<Rightarrow> OutboxRun \<Rightarrow> OutboxRun" where
  "resume_call c ok m = (case cl_cont c of
     KEnqueue entry \<Rightarrow> if ok then applied entry (with_outbox (enqueue_stored entry) m) else m
   | KRetryConflicted i entry \<Rightarrow> if ok then applied entry (with_outbox (retryConflicted_stored i entry) m) else m
   | KRetry i \<Rightarrow> if ok then with_outbox (retry_stored i) m else m
   | KClearError i \<Rightarrow> if ok then with_outbox (clearError_deleted i) m else m
   | KClearConflict i \<Rightarrow> if ok then with_outbox (clearConflict_deleted i) m else m
   | KEcho i \<Rightarrow> if ok then with_outbox (matchEcho_deleted i) m else m
   | KHold i \<Rightarrow> if ok then m else fault c (with_outbox markConflicted_failed m)
   | KFlushPut entry \<Rightarrow> (case rn_flush m of
       FlushCommitting fr \<Rightarrow> if ok then resume_flush_put entry fr m else end_flush (fr_changed fr) None m
     | _ \<Rightarrow> m)
   | KFlushFix \<Rightarrow> (case rn_flush m of
       FlushCommitting fr \<Rightarrow> if ok then advance_flush fr m else fault c (end_flush (fr_changed fr) None m)
     | _ \<Rightarrow> m))"

fun land_first :: "bool \<Rightarrow> Call list \<Rightarrow> OutboxStoreState \<Rightarrow> Call list \<times> OutboxStoreState" where
  "land_first ok [] store = ([], store)"
| "land_first ok (c # cs) store =
     (if cl_done c = None
      then (c\<lparr>cl_done := Some ok\<rparr> # cs, if ok then outbox_step (cl_op c) store else store)
      else (case land_first ok cs store of (cs', store') \<Rightarrow> (c # cs', store')))"

definition holding :: "OutboxRun \<Rightarrow> bool" where
  "holding m \<longleftrightarrow> (\<exists>c \<in> set (rn_calls m). case cl_cont c of KHold _ \<Rightarrow> True | _ \<Rightarrow> False)"

text \<open>The methods that run once the durable load is there.\<close>

definition run_method :: "DetectDeps \<Rightarrow> event \<Rightarrow> OutboxRun \<Rightarrow> OutboxRun" where
  "run_method deps ev m = (let ob = rn_outbox m in case ev of
     EvEnqueue action h gsn \<Rightarrow> (let entry = enqueue_begin action h gsn in issue (OutboxPut entry) (KEnqueue entry) m)
   | EvRetryConflicted i action h gsn \<Rightarrow> (case retryConflicted_begin i action h gsn ob of
       None \<Rightarrow> m | Some entry \<Rightarrow> issue (OutboxPutAndDelete entry i) (KRetryConflicted i entry) m)
   | EvRetry i \<Rightarrow> (case retry_begin i ob of None \<Rightarrow> m | Some entry \<Rightarrow> issue (OutboxPut entry) (KRetry i) m)
   | EvClearError i \<Rightarrow> if clearError_begin i ob then issue (OutboxDelete i) (KClearError i) m else m
   | EvClearConflict i \<Rightarrow> if clearConflict_begin i ob then issue (OutboxDelete i) (KClearConflict i) m else m
   | EvEcho action \<Rightarrow> if matchEcho_begin action ob then issue (OutboxDelete (act_id action)) (KEcho (act_id action)) m else m
   | EvDetect catchUpId actions mint \<Rightarrow> (case groupLosers mint (detect_losers deps catchUpId actions ob) of
       None \<Rightarrow> m
     | Some grouped \<Rightarrow> m\<lparr>rn_holds := rn_holds m @ map (\<lambda>(loser, conflictId).
         \<lparr>hd_catchUpId = catchUpId, hd_loser = loser, hd_conflictId = conflictId\<rparr>) grouped\<rparr>)
   | EvHold h readEntity \<Rightarrow> (case rn_holds m of
       [] \<Rightarrow> m
     | d # ds \<Rightarrow>
         if holding m then m
         else (case markConflicted_begin (lo_id (hd_loser d))
                 (conflict_payload (hd_loser d) (hd_conflictId d) (hd_catchUpId d) h readEntity) ob of
             (ob', None) \<Rightarrow> m\<lparr>rn_holds := ds, rn_outbox := ob'\<rparr>
           | (ob', Some entry) \<Rightarrow>
               issue (OutboxPut entry) (KHold (lo_id (hd_loser d))) (m\<lparr>rn_holds := ds, rn_outbox := ob'\<rparr>)))
   | EvDetectEnd \<Rightarrow> m\<lparr>rn_outbox := emit ob\<rparr>
   | EvFlush \<Rightarrow> if rn_flush m \<noteq> FlushIdle then m
       else (let batch = flush_batch ob in
         if batch = [] then m\<lparr>rn_outcomes := rn_outcomes m @ [Some FlushEmpty]\<rparr>
         else m\<lparr>rn_flush := FlushSubmitting batch, rn_submitted := rn_submitted m @ [batch]\<rparr>)
   | _ \<Rightarrow> m)"

definition run_step :: "DetectDeps \<Rightarrow> event \<Rightarrow> OutboxRun \<Rightarrow> OutboxRun" where
  "run_step deps ev m = (case ev of
     EvLoad ok \<Rightarrow>
       if ox_loaded (rn_outbox m) then m
       else if ok then with_outbox (rehydrate_loaded (outbox_list (rn_store m))) m
       else with_outbox rehydrate_failed m
   | EvSubmitResult answer \<Rightarrow> (case rn_flush m of
       FlushSubmitting batch \<Rightarrow> (case answer of
         None \<Rightarrow> m\<lparr>rn_flush := FlushIdle, rn_outcomes := rn_outcomes m @ [Some (FlushUnreachable ''submit failed'')]\<rparr>
       | Some rejected \<Rightarrow>
           advance_flush \<lparr>fr_batch = batch, fr_rejected = rejected, fr_rest = batch, fr_changed = False\<rparr> m)
     | _ \<Rightarrow> m)
   | EvLand ok \<Rightarrow> (case land_first ok (rn_calls m) (rn_store m) of
       (calls, store) \<Rightarrow> m\<lparr>rn_calls := calls, rn_store := store\<rparr>)
   | EvResume \<Rightarrow> (case rn_calls m of
       [] \<Rightarrow> m
     | c # cs \<Rightarrow> (case cl_done c of None \<Rightarrow> m | Some ok \<Rightarrow> resume_call c ok (m\<lparr>rn_calls := cs\<rparr>)))
   | _ \<Rightarrow> if ox_loaded (rn_outbox m) then run_method deps ev m else m)"

section \<open>What callers keep to\<close>

text \<open>
  Action ids are generated, so a new Action has an id in use nowhere. Two operations on one Action (its
  echo, its rejection being retried or cleared, its conflict being recorded or resolved) do not overlap;
  a flush may overlap with any of them. And the clock that stamps a new entry is ahead of every entry.
\<close>

definition is_flush_call :: "Call \<Rightarrow> bool" where
  "is_flush_call c = (case cl_cont c of KFlushPut _ \<Rightarrow> True | KFlushFix \<Rightarrow> True | _ \<Rightarrow> False)"

definition op_ids :: "outbox_op \<Rightarrow> string list" where
  "op_ids op = (case op of OutboxPut e \<Rightarrow> [entry_id e] | OutboxPutAndDelete e d \<Rightarrow> [entry_id e, d] | OutboxDelete i \<Rightarrow> [i])"

definition flush_rest :: "OutboxRun \<Rightarrow> OutboxEntry list" where
  "flush_rest m = (case rn_flush m of FlushIdle \<Rightarrow> [] | FlushSubmitting batch \<Rightarrow> batch | FlushCommitting fr \<Rightarrow> fr_rest fr)"

definition used_ids :: "OutboxRun \<Rightarrow> string set" where
  "used_ids m = entry_id ` set (ox_entries (rn_outbox m)) \<union> fst ` set (rn_store m) \<union>
     \<Union> (set ` op_ids ` cl_op ` set (rn_calls m)) \<union> entry_id ` set (flush_rest m)"

definition quiet :: "OutboxRun \<Rightarrow> string \<Rightarrow> bool" where
  "quiet m i \<longleftrightarrow> (\<forall>c \<in> set (rn_calls m). i \<in> set (op_ids (cl_op c)) \<longrightarrow> is_flush_call c)"

definition call_hlcs :: "Call list \<Rightarrow> hlc list" where
  "call_hlcs cs = List.map_filter (\<lambda>c. case cl_cont c of
     KEnqueue e \<Rightarrow> Some (ob_enqueuedAtHlc e) | KRetryConflicted _ e \<Rightarrow> Some (ob_enqueuedAtHlc e) | _ \<Rightarrow> None) cs"

definition ahead :: "OutboxRun \<Rightarrow> hlc \<Rightarrow> bool" where
  "ahead m h \<longleftrightarrow> (\<forall>e \<in> set (ox_entries (rn_outbox m)). ob_enqueuedAtHlc e < h) \<and> (\<forall>h' \<in> set (call_hlcs (rn_calls m)). h' < h)"

definition legal :: "event \<Rightarrow> OutboxRun \<Rightarrow> bool" where
  "legal ev m = (case ev of
     EvEnqueue action h gsn \<Rightarrow> act_id action \<notin> used_ids m \<and> ahead m h
   | EvRetryConflicted i action h gsn \<Rightarrow> act_id action \<notin> used_ids m \<and> quiet m i \<and> ahead m h
   | EvRetry i \<Rightarrow> quiet m i
   | EvClearError i \<Rightarrow> quiet m i
   | EvClearConflict i \<Rightarrow> quiet m i
   | EvEcho action \<Rightarrow> quiet m (act_id action)
   | EvHold h readEntity \<Rightarrow> (case rn_holds m of [] \<Rightarrow> True | d # ds \<Rightarrow> quiet m (lo_id (hd_loser d)))
   | _ \<Rightarrow> True)"

fun legal_run :: "DetectDeps \<Rightarrow> event list \<Rightarrow> OutboxRun \<Rightarrow> bool" where
  "legal_run deps [] m = True"
| "legal_run deps (ev # evs) m = (legal ev m \<and> legal_run deps evs (run_step deps ev m))"

abbreviation run_events :: "DetectDeps \<Rightarrow> event list \<Rightarrow> OutboxRun \<Rightarrow> OutboxRun" where
  "run_events deps evs m \<equiv> fold (run_step deps) evs m"

end
