(* ===== verification/OutboxView.thy ===== *)
theory OutboxView
  imports OutboxRun
begin

text \<open>
  The life of one buffered Action: what memory holds of it, what the store holds of it, and the requests
  about it in flight. Every step of the outbox is, seen from one Action, a step of this protocol or
  nothing, and the protocol's invariant makes memory and store agree whenever nothing is in flight.
\<close>

section \<open>Memory by Action id\<close>

lemma entries_emit [simp]: "ox_entries (emit st) = ox_entries st"
  by (simp add: emit_def Let_def)

lemma loaded_emit [simp]: "ox_loaded (emit st) = ox_loaded st"
  by (simp add: emit_def Let_def)

definition ids_distinct :: "Outbox \<Rightarrow> bool" where
  "ids_distinct st \<longleftrightarrow> distinct (map entry_id (ox_entries st))"

abbreviation lookup :: "OutboxEntry list \<Rightarrow> string \<Rightarrow> OutboxEntry option" where
  "lookup es i \<equiv> List.find (\<lambda>c. entry_id c = i) es"

lemma lookup_id: "lookup es i = Some e \<Longrightarrow> entry_id e = i \<and> e \<in> set es"
  by (auto simp: find_Some_iff)

lemma lookup_None: "lookup es i = None \<longleftrightarrow> i \<notin> entry_id ` set es"
  by (auto simp: find_None_iff)

lemma lookup_member: "distinct (map entry_id es) \<Longrightarrow> e \<in> set es \<Longrightarrow> lookup es (entry_id e) = Some e"
  by (induction es) (auto simp: image_iff)

lemma lookup_where:
  "distinct (map entry_id es) \<Longrightarrow> List.find (\<lambda>c. entry_id c = i \<and> p c) es =
     (case lookup es i of None \<Rightarrow> None | Some e \<Rightarrow> if p e then Some e else None)"
proof (induction es)
  case (Cons a es)
  show ?case
  proof (cases "entry_id a = i")
    case True
    with Cons.prems have "\<forall>c \<in> set es. entry_id c \<noteq> i" by (auto simp: image_iff)
    then have "List.find (\<lambda>c. entry_id c = i \<and> p c) es = None" by (auto simp: find_None_iff)
    with True show ?thesis by simp
  next
    case False
    with Cons show ?thesis by simp
  qed
qed simp

lemma lookup_drop: "lookup (filter (\<lambda>c. entry_id c \<noteq> i) es) x = (if x = i then None else lookup es x)"
  by (induction es) auto

lemma lookup_map:
  "(\<And>e. entry_id (f e) = entry_id e) \<Longrightarrow>
   lookup (map (\<lambda>c. if entry_id c = i then f c else c) es) x = (if x = i then map_option f (lookup es x) else lookup es x)"
  by (induction es) auto

lemma lookup_append: "lookup (es @ [e]) x = (case lookup es x of Some v \<Rightarrow> Some v | None \<Rightarrow> if entry_id e = x then Some e else None)"
  by (induction es) auto

lemma find_entry_where: "ids_distinct st \<Longrightarrow> find_entry (\<lambda>c. entry_id c = i \<and> p c) st =
     (case entry_of st i of None \<Rightarrow> None | Some e \<Rightarrow> if p e then Some e else None)"
  by (simp add: find_entry_def ids_distinct_def lookup_where)

lemma entry_of_lookup: "entry_of st i = lookup (ox_entries st) i"
  by (simp add: find_entry_def)

text \<open>What the stretches of the methods do to memory, read one Action at a time.\<close>

lemma entry_of_updates [simp]:
  "entry_of (emit st) x = entry_of st x"
  "entry_of (drop_entry i st) x = (if x = i then None else entry_of st x)"
  "entry_of (set_status i s st) x = (if x = i then map_option (\<lambda>e. e\<lparr>ob_status := s\<rparr>) (entry_of st x) else entry_of st x)"
  "entry_of (reportStoreFault st) x = entry_of st x"
  "entry_of (flush_finish changed st) x = entry_of st x"
  "entry_of (enqueue_stored e st) x = (case entry_of st x of Some v \<Rightarrow> Some v | None \<Rightarrow> if entry_id e = x then Some e else None)"
  "entry_of (retryConflicted_stored i e st) x = (if x = i then (if entry_id e = x then Some e else None)
     else case entry_of st x of Some v \<Rightarrow> Some v | None \<Rightarrow> if entry_id e = x then Some e else None)"
  by (simp_all add: entry_of_lookup drop_entry_def set_status_def lookup_drop lookup_map reportStoreFault_def
      flush_finish_def enqueue_stored_def retryConflicted_stored_def lookup_append)

lemma ids_distinct_updates [simp]:
  "ids_distinct (emit st) \<longleftrightarrow> ids_distinct st"
  "ids_distinct (set_status i s st) \<longleftrightarrow> ids_distinct st"
  "ids_distinct (reportStoreFault st) \<longleftrightarrow> ids_distinct st"
  "ids_distinct (flush_finish changed st) \<longleftrightarrow> ids_distinct st"
  by (simp_all add: ids_distinct_def set_status_def reportStoreFault_def flush_finish_def comp_def if_distrib cong: if_cong)

lemma ids_distinct_drop: "ids_distinct st \<Longrightarrow> ids_distinct (drop_entry i st)"
  by (simp add: ids_distinct_def drop_entry_def distinct_map_filter)

lemma ids_distinct_enqueue: "ids_distinct st \<Longrightarrow> entry_of st (entry_id e) = None \<Longrightarrow> ids_distinct (enqueue_stored e st)"
  by (auto simp: ids_distinct_def enqueue_stored_def entry_of_lookup lookup_None)

lemma ids_distinct_retryConflicted:
  "ids_distinct st \<Longrightarrow> entry_of st (entry_id e) = None \<Longrightarrow> ids_distinct (retryConflicted_stored i e st)"
  by (auto simp: ids_distinct_def retryConflicted_stored_def entry_of_lookup lookup_None distinct_map_filter)

section \<open>The protocol of one Action\<close>

text \<open>
  The kinds of request seen from one Action: written by a flush, repaired after a flush raced, held,
  buffered, returned to pending, removed. A request carries the row it leaves in the store (\<^const>\<open>None\<close> for
  a deletion) and its result.
\<close>

datatype kind = VFlush OutboxEntry | VFix | VHold | VNew | VRetry | VRemove

type_synonym vcall = "kind \<times> OutboxEntry option \<times> bool option"

record view =
  v_mem :: "OutboxEntry option"
  v_store :: "OutboxEntry option"
  v_calls :: "vcall list"

definition v_flush :: "vcall \<Rightarrow> bool" where
  "v_flush c = (case fst c of VFlush _ \<Rightarrow> True | VFix \<Rightarrow> True | _ \<Rightarrow> False)"

fun v_land :: "bool \<Rightarrow> vcall list \<Rightarrow> OutboxEntry option \<Rightarrow> vcall list \<times> OutboxEntry option" where
  "v_land ok [] s = ([], s)"
| "v_land ok ((k, p, d) # cs) s =
     (if d = None then ((k, p, Some ok) # cs, if ok then p else s)
      else (case v_land ok cs s of (cs', s') \<Rightarrow> ((k, p, d) # cs', s')))"

definition plain :: "OutboxEntry \<Rightarrow> bool" where
  "plain e \<longleftrightarrow> (ob_status e \<noteq> Conflicted \<longrightarrow> ob_conflict e = None)"

definition commits :: "OutboxEntry \<Rightarrow> OutboxEntry option \<Rightarrow> bool" where
  "commits e p \<longleftrightarrow> (\<exists>status. status \<in> {Acknowledged, OutboxError} \<and> p = Some (e\<lparr>ob_status := status, ob_conflict := None\<rparr>))"

inductive v_step :: "view \<Rightarrow> view \<Rightarrow> bool" where
  v_new: "v_mem v = None \<Longrightarrow> v_store v = None \<Longrightarrow> v_calls v = [] \<Longrightarrow> plain e \<Longrightarrow>
    v_step v (v\<lparr>v_calls := [(VNew, Some e, None)]\<rparr>)"
| v_retry: "v_mem v = Some e \<Longrightarrow> ob_status e = OutboxError \<Longrightarrow> list_all v_flush (v_calls v) \<Longrightarrow>
    v_step v (v\<lparr>v_calls := v_calls v @ [(VRetry, Some (e\<lparr>ob_status := Pending\<rparr>), None)]\<rparr>)"
| v_remove: "v_mem v \<noteq> None \<Longrightarrow> list_all v_flush (v_calls v) \<Longrightarrow>
    v_step v (v\<lparr>v_calls := v_calls v @ [(VRemove, None, None)]\<rparr>)"
| v_hold: "v_mem v \<noteq> None \<Longrightarrow> list_all v_flush (v_calls v) \<Longrightarrow> ob_status e = Conflicted \<Longrightarrow>
    v_step v (v\<lparr>v_mem := Some e, v_calls := v_calls v @ [(VHold, Some e, None)]\<rparr>)"
| v_flush: "v_mem v = Some e \<Longrightarrow> ob_status e = Pending \<Longrightarrow> \<not> list_ex v_flush (v_calls v) \<Longrightarrow> commits e p \<Longrightarrow>
    v_step v (v\<lparr>v_calls := v_calls v @ [(VFlush e, p, None)]\<rparr>)"
| v_landed: "v_land ok (v_calls v) (v_store v) = (cs, s) \<Longrightarrow> v_step v (v\<lparr>v_calls := cs, v_store := s\<rparr>)"
| v_flushed: "v_calls v = (VFlush e, p, Some True) # cs \<Longrightarrow> v_mem v = Some m \<Longrightarrow> ob_status m = Pending \<Longrightarrow>
    v_step v (v\<lparr>v_mem := p, v_calls := cs\<rparr>)"
| v_raced: "v_calls v = (VFlush e, p, Some True) # cs \<Longrightarrow> \<forall>m. v_mem v = Some m \<longrightarrow> ob_status m \<noteq> Pending \<Longrightarrow>
    v_step v (v\<lparr>v_calls := cs @ [(VFix, v_mem v, None)]\<rparr>)"
| v_flush_failed: "v_calls v = (VFlush e, p, Some False) # cs \<Longrightarrow> v_step v (v\<lparr>v_calls := cs\<rparr>)"
| v_fixed: "v_calls v = (k, p, Some True) # cs \<Longrightarrow> k = VFix \<or> k = VHold \<Longrightarrow> v_step v (v\<lparr>v_calls := cs\<rparr>)"
| v_done: "v_calls v = (k, p, Some True) # cs \<Longrightarrow> k \<in> {VNew, VRetry, VRemove} \<Longrightarrow>
    v_step v (v\<lparr>v_mem := p, v_calls := cs\<rparr>)"
| v_failed: "v_calls v = (k, p, Some False) # cs \<Longrightarrow> k \<in> {VNew, VRetry, VRemove} \<Longrightarrow> v_step v (v\<lparr>v_calls := cs\<rparr>)"

text \<open>
  The invariant: which requests can be in flight together, and how memory then relates to the store as
  it was before any of them landed.
\<close>

definition held :: "OutboxEntry option \<Rightarrow> bool" where
  "held p = (case p of Some e \<Rightarrow> ob_status e = Conflicted | None \<Rightarrow> False)"

definition flushing :: "OutboxEntry \<Rightarrow> OutboxEntry option \<Rightarrow> bool" where
  "flushing e p \<longleftrightarrow> ob_status e = Pending \<and> plain e \<and> commits e p"

inductive shape :: "OutboxEntry option \<Rightarrow> OutboxEntry option \<Rightarrow> vcall list \<Rightarrow> bool" where
  s_idle: "shape m m []"
| s_flush: "flushing e p \<Longrightarrow> m = Some e \<or> m = None \<Longrightarrow> shape m m [(VFlush e, p, d)]"
| s_fix: "m = None \<or> held m \<Longrightarrow> shape m b [(VFix, m, d)]"
| s_hold: "held m \<Longrightarrow> shape m b [(VHold, m, d)]"
| s_new: "plain e \<Longrightarrow> shape None None [(VNew, Some e, d)]"
| s_retry: "ob_status e = OutboxError \<Longrightarrow> plain e \<Longrightarrow>
    shape (Some e) (Some e) [(VRetry, Some (e\<lparr>ob_status := Pending\<rparr>), d)]"
| s_remove: "m \<noteq> None \<Longrightarrow> shape m m [(VRemove, None, d)]"
| s_remove_flush: "flushing e p \<Longrightarrow> shape (Some e) (Some e) [(VRemove, None, d), (VFlush e, p, d')]"
| s_flush_remove: "flushing e p \<Longrightarrow> shape (Some e) (Some e) [(VFlush e, p, d), (VRemove, None, d')]"
| s_flush_hold: "flushing e p \<Longrightarrow> held m \<Longrightarrow> shape m b [(VFlush e, p, d), (VHold, m, d')]"
| s_hold_fix: "held m \<Longrightarrow> shape m b [(VHold, m, d), (VFix, m, d')]"
| s_fix_remove: "held m \<Longrightarrow> shape m b [(VFix, m, d), (VRemove, None, d')]"
| s_fix_hold: "held p \<Longrightarrow> held m \<Longrightarrow> shape m b [(VFix, p, d), (VHold, m, d')]"

inductive_cases shapeE: "shape m b Q"

fun landed_row :: "OutboxEntry option \<Rightarrow> vcall list \<Rightarrow> OutboxEntry option" where
  "landed_row b [] = b"
| "landed_row b ((k, p, d) # cs) = landed_row (if d = Some True then p else b) cs"

fun in_order :: "vcall list \<Rightarrow> bool" where
  "in_order [] = True"
| "in_order ((k, p, d) # cs) = (if d = None then list_all (\<lambda>c. snd (snd c) = None) cs else in_order cs)"

definition v_inv :: "view \<Rightarrow> bool" where
  "v_inv v \<longleftrightarrow> in_order (v_calls v) \<and> (\<forall>m. v_mem v = Some m \<longrightarrow> plain m) \<and>
     (\<exists>b. v_store v = landed_row b (v_calls v) \<and> shape (v_mem v) b (v_calls v))"

lemma held_None [simp]: "\<not> held None"
  by (simp add: held_def)

lemma held_Some: "held m \<Longrightarrow> \<exists>y. m = Some y"
  by (simp add: held_def split: option.splits)

lemmas view_defs = v_flush_def held_def flushing_def commits_def plain_def

lemma landed_row_none: "list_all (\<lambda>c. snd (snd c) = None) Q \<Longrightarrow> landed_row b Q = b"
  by (induction Q arbitrary: b) auto

lemma v_land_inv:
  assumes "in_order Q" "v_land ok Q (landed_row b Q) = (cs, s)"
  shows "in_order cs \<and> s = landed_row b cs \<and> map (\<lambda>c. (fst c, fst (snd c))) cs = map (\<lambda>c. (fst c, fst (snd c))) Q"
  using assms
proof (induction Q arbitrary: b cs)
  case (Cons c Q)
  obtain k p d where c: "c = (k, p, d)" by (cases c)
  show ?case
  proof (cases "d = None")
    case True
    with Cons.prems c show ?thesis by (cases Q) (auto simp: landed_row_none)
  next
    case False
    with Cons c show ?thesis by (auto split: prod.splits)
  qed
qed auto

lemma shape_done:
  assumes "shape m b Q" "map (\<lambda>c. (fst c, fst (snd c))) Q' = map (\<lambda>c. (fst c, fst (snd c))) Q"
  shows "shape m b Q'"
  using assms by (cases rule: shape.cases) (auto simp: map_eq_Cons_conv intro!: shape.intros)

lemma v_step_inv:
  assumes "v_step v w" "v_inv v"
  shows "v_inv w"
proof -
  obtain b where b: "v_store v = landed_row b (v_calls v)" "shape (v_mem v) b (v_calls v)"
    and ord: "in_order (v_calls v)" and pl: "\<And>m. v_mem v = Some m \<Longrightarrow> plain m"
    using assms(2) by (auto simp: v_inv_def)
  from assms(1) show ?thesis
  proof cases
    case (v_new e)
    then show ?thesis using b by (auto simp: v_inv_def intro!: exI [of _ None] s_new)
  next
    case (v_retry e)
    from b(2) show ?thesis
      by cases (use v_retry b(1) ord pl in \<open>auto simp: v_inv_def view_defs intro!: exI [of _ b] shape.intros\<close>)
  next
    case v_remove
    from b(2) show ?thesis
      by cases (use v_remove b(1) ord pl in \<open>auto simp: v_inv_def v_flush_def intro!: exI [of _ b] shape.intros\<close>)
  next
    case (v_hold e)
    from b(2) show ?thesis
      by cases (use v_hold b(1) ord pl in \<open>auto simp: v_inv_def v_flush_def held_def plain_def intro!: exI [of _ b] shape.intros\<close>)
  next
    case (v_flush e p)
    from b(2) show ?thesis
      by cases (use v_flush b(1) ord pl in \<open>auto simp: v_inv_def v_flush_def held_def flushing_def intro!: exI [of _ b] shape.intros\<close>)
  next
    case (v_landed ok cs s)
    then show ?thesis using v_land_inv [OF ord, of ok b cs s] b pl shape_done [OF b(2)]
      by (auto simp: v_inv_def)
  next
    case (v_flushed e p cs m)
    from b(2) show ?thesis
      by cases (use v_flushed b(1) ord pl in \<open>auto simp: v_inv_def view_defs intro!: exI [of _ p] shape.intros\<close>)
  next
    case (v_raced e p cs)
    from b(2) show ?thesis
      by cases (use v_raced b(1) ord pl in \<open>auto simp: v_inv_def flushing_def intro!: exI [of _ p] shape.intros\<close>)
  next
    case (v_flush_failed e p cs)
    from b(2) show ?thesis
      by cases (use v_flush_failed b(1) ord pl in \<open>auto simp: v_inv_def intro!: exI [of _ b] shape.intros\<close>)
  next
    case (v_fixed k p cs)
    from b(2) show ?thesis
      by cases (use v_fixed b(1) ord pl in \<open>auto simp: v_inv_def dest: held_Some intro!: exI [of _ p] shape.intros\<close>)
  next
    case (v_done k p cs)
    from b(2) show ?thesis
      by cases (use v_done b(1) ord pl in \<open>auto simp: v_inv_def plain_def intro!: exI [of _ p] shape.intros\<close>)
  next
    case (v_failed k p cs)
    from b(2) show ?thesis
      by cases (use v_failed b(1) ord pl in \<open>auto simp: v_inv_def intro!: exI [of _ b] shape.intros\<close>)
  qed
qed

end
