(* ===== verification/OutboxProps.thy ===== *)
theory OutboxProps
  imports OutboxView
begin

text \<open>
  What the outbox guarantees under every interleaving of its methods: memory and the durable store agree
  on every Action with nothing in flight, a reload restores the buffer, a buffered write leaves only by its
  echo or by the application's decision, and an acknowledged or held Action is never submitted again.
\<close>

section \<open>The run seen from one Action\<close>

definition vkind :: "string \<Rightarrow> Continuation \<Rightarrow> kind" where
  "vkind x k = (case k of
     KFlushPut e \<Rightarrow> VFlush e | KFlushFix \<Rightarrow> VFix | KHold _ \<Rightarrow> VHold | KEnqueue _ \<Rightarrow> VNew | KRetry _ \<Rightarrow> VRetry
   | KRetryConflicted i e \<Rightarrow> if x = entry_id e then VNew else VRemove
   | _ \<Rightarrow> VRemove)"

definition op_row :: "string \<Rightarrow> outbox_op \<Rightarrow> OutboxEntry option" where
  "op_row x op = (case op of
     OutboxPut e \<Rightarrow> Some e | OutboxPutAndDelete e d \<Rightarrow> if x = entry_id e then Some e else None | OutboxDelete i \<Rightarrow> None)"

abbreviation on :: "string \<Rightarrow> Call \<Rightarrow> bool" where
  "on x c \<equiv> x \<in> set (op_ids (cl_op c))"

definition vcall :: "string \<Rightarrow> Call \<Rightarrow> vcall" where
  "vcall x c = (vkind x (cl_cont c), op_row x (cl_op c), cl_done c)"

definition view_of :: "OutboxRun \<Rightarrow> string \<Rightarrow> view" where
  "view_of m x = \<lparr>v_mem = entry_of (rn_outbox m) x, v_store = map_of (rn_store m) x,
     v_calls = map (vcall x) (filter (on x) (rn_calls m))\<rparr>"

lemma view_issue: "view_of (issue op k m) x = (if x \<in> set (op_ids op)
    then view_of m x\<lparr>v_calls := v_calls (view_of m x) @ [(vkind x k, op_row x op, None)]\<rparr> else view_of m x)"
  by (simp add: view_of_def issue_def vcall_def)

lemma view_frame [simp]:
  "view_of (m\<lparr>rn_flush := f\<rparr>) x = view_of m x"
  "view_of (m\<lparr>rn_holds := hs\<rparr>) x = view_of m x"
  "view_of (m\<lparr>rn_outcomes := os\<rparr>) x = view_of m x"
  "view_of (m\<lparr>rn_submitted := ss\<rparr>) x = view_of m x"
  "view_of (m\<lparr>rn_applied := as\<rparr>) x = view_of m x"
  "view_of (m\<lparr>rn_faulted := fs\<rparr>) x = view_of m x"
  by (simp_all add: view_of_def)

lemma view_end_flush [simp]: "view_of (end_flush ch out m) x = view_of m x"
  by (simp add: view_of_def end_flush_def)

lemma store_row: "obj_ok st \<Longrightarrow> (\<forall>k e. map_of st k = Some e \<longrightarrow> k = entry_id e) \<Longrightarrow>
   map_of (outbox_step op st) x = (if x \<in> set (op_ids op) then op_row x op else map_of st x)"
  by (subst outbox_step_spec(1)) (auto simp: outbox_abs_def op_ids_def op_row_def split: outbox_op.splits)

lemma view_land:
  assumes "obj_ok st" "\<forall>k e. map_of st k = Some e \<longrightarrow> k = entry_id e"
    "land_first ok cs st = (cs', st')"
  shows "(map (vcall x) (filter (on x) cs') = map (vcall x) (filter (on x) cs) \<and> map_of st' x = map_of st x) \<or>
    v_land ok (map (vcall x) (filter (on x) cs)) (map_of st x) = (map (vcall x) (filter (on x) cs'), map_of st' x)"
  using assms(3)
proof (induction cs arbitrary: cs')
  case (Cons c cs)
  show ?case
  proof (cases "cl_done c = None")
    case True
    with Cons.prems store_row [OF assms(1,2), of "cl_op c" x] show ?thesis by (auto simp: vcall_def)
  next
    case False
    with Cons show ?thesis by (auto simp: vcall_def split: prod.splits)
  qed
qed auto

section \<open>Well-formed runs\<close>

definition call_ok :: "Call \<Rightarrow> bool" where
  "call_ok c = (case cl_cont c of
     KEnqueue e \<Rightarrow> cl_op c = OutboxPut e \<and> ob_status e = Pending \<and> ob_conflict e = None
   | KRetryConflicted i e \<Rightarrow> cl_op c = OutboxPutAndDelete e i \<and> entry_id e \<noteq> i \<and> ob_status e = Pending \<and> ob_conflict e = None
   | KRetry i \<Rightarrow> (\<exists>e. cl_op c = OutboxPut e \<and> entry_id e = i)
   | KClearError i \<Rightarrow> cl_op c = OutboxDelete i
   | KClearConflict i \<Rightarrow> cl_op c = OutboxDelete i
   | KEcho i \<Rightarrow> cl_op c = OutboxDelete i
   | KHold i \<Rightarrow> (\<exists>e. cl_op c = OutboxPut e \<and> entry_id e = i)
   | KFlushPut e \<Rightarrow> (\<exists>r. cl_op c = OutboxPut (flush_row r e))
   | KFlushFix \<Rightarrow> (\<exists>i. op_ids (cl_op c) = [i]))"

definition other_ids :: "Call list \<Rightarrow> string list" where
  "other_ids cs = concat (map (\<lambda>c. op_ids (cl_op c)) (filter (\<lambda>c. \<not> is_flush_call c) cs))"

definition call_mem_ok :: "OutboxRun \<Rightarrow> Call \<Rightarrow> bool" where
  "call_mem_ok m c = (case cl_cont c of
     KEnqueue e \<Rightarrow> entry_of (rn_outbox m) (entry_id e) = None \<and> entry_id e \<notin> entry_id ` set (flush_rest m)
   | KRetryConflicted i e \<Rightarrow> entry_of (rn_outbox m) (entry_id e) = None \<and> entry_id e \<notin> entry_id ` set (flush_rest m)
   | KRetry i \<Rightarrow> (\<exists>e. entry_of (rn_outbox m) i = Some e \<and> ob_status e = OutboxError \<and> cl_op c = OutboxPut (e\<lparr>ob_status := Pending\<rparr>))
   | KFlushPut e \<Rightarrow> (\<exists>fr. rn_flush m = FlushCommitting fr \<and> cl_op c = OutboxPut (flush_row (fr_rejected fr) e))
   | _ \<Rightarrow> True)"

definition rest_ok :: "OutboxRun \<Rightarrow> OutboxEntry \<Rightarrow> bool" where
  "rest_ok m e \<longleftrightarrow> ob_status e = Pending \<and>
     (\<forall>e'. entry_of (rn_outbox m) (entry_id e) = Some e' \<longrightarrow> e' = e \<or> ob_status e' = Conflicted)"

definition flush_count :: "OutboxRun \<Rightarrow> nat" where
  "flush_count m = (case rn_flush m of FlushCommitting _ \<Rightarrow> 1 | _ \<Rightarrow> 0)"

definition run_wf :: "OutboxRun \<Rightarrow> bool" where
  "run_wf m \<longleftrightarrow> ids_distinct (rn_outbox m) \<and> obj_ok (rn_store m) \<and>
     (\<forall>k e. map_of (rn_store m) k = Some e \<longrightarrow> k = entry_id e) \<and>
     list_all call_ok (rn_calls m) \<and> list_all (call_mem_ok m) (rn_calls m) \<and> distinct (other_ids (rn_calls m)) \<and>
     length (filter is_flush_call (rn_calls m)) = flush_count m \<and>
     list_all (rest_ok m) (flush_rest m) \<and> distinct (map entry_id (flush_rest m)) \<and>
     (\<forall>c \<in> set (rn_calls m). is_flush_call c \<longrightarrow> (\<forall>e \<in> set (flush_rest m). \<not> on (entry_id e) c))"

lemmas run_wf_defs = run_wf_def ids_distinct_def

lemma outbox_frame [simp]:
  "rn_outbox (issue op k m) = rn_outbox m" "rn_store (issue op k m) = rn_store m" "rn_flush (issue op k m) = rn_flush m"
  "flush_rest (issue op k m) = flush_rest m" "rn_faulted (issue op k m) = rn_faulted m" "rn_submitted (issue op k m) = rn_submitted m"
  "rn_holds (issue op k m) = rn_holds m"
  by (simp_all add: issue_def flush_rest_def)

lemma calls_issue: "rn_calls (issue op k m) = rn_calls m @ [\<lparr>cl_op = op, cl_cont = k, cl_done = None\<rparr>]"
  by (simp add: issue_def)

text \<open>A well-formed run depends on memory, store, calls and flush only.\<close>

lemma call_mem_ok_cong:
  "(\<And>i. entry_of (rn_outbox m') i = entry_of (rn_outbox m) i) \<Longrightarrow> rn_flush m' = rn_flush m \<Longrightarrow> call_mem_ok m' c = call_mem_ok m c"
  by (simp add: call_mem_ok_def flush_rest_def split: Continuation.splits)

lemma rest_ok_cong: "(\<And>i. entry_of (rn_outbox m') i = entry_of (rn_outbox m) i) \<Longrightarrow> rest_ok m' e = rest_ok m e"
  by (simp add: rest_ok_def)

lemma run_wf_cong:
  assumes "ids_distinct (rn_outbox m') = ids_distinct (rn_outbox m)" "\<And>i. entry_of (rn_outbox m') i = entry_of (rn_outbox m) i"
    "rn_flush m' = rn_flush m" "rn_store m' = rn_store m" "rn_calls m' = rn_calls m"
  shows "run_wf m' = run_wf m"
proof -
  have "call_mem_ok m' = call_mem_ok m" "rest_ok m' = rest_ok m"
    using call_mem_ok_cong [of m' m] rest_ok_cong [of m' m] assms(2,3) by blast+
  then show ?thesis using assms by (simp add: run_wf_def flush_rest_def flush_count_def)
qed

lemma quiet_other: "quiet m i \<longleftrightarrow> i \<notin> set (other_ids (rn_calls m))"
  by (auto simp: quiet_def other_ids_def)

lemma issue_other_wf:
  assumes "run_wf m" and c: "c = \<lparr>cl_op = op, cl_cont = k, cl_done = None\<rparr>" "\<not> is_flush_call c" "call_ok c" "call_mem_ok m c"
    and "distinct (op_ids op)" "\<forall>i \<in> set (op_ids op). quiet m i"
  shows "run_wf (issue op k m)"
proof -
  have "call_mem_ok (issue op k m) = call_mem_ok m" "rest_ok (issue op k m) = rest_ok m"
    by (rule ext, rule call_mem_ok_cong rest_ok_cong, simp, simp?)+
  moreover have "distinct (other_ids (rn_calls m @ [c]))"
    using assms by (auto simp: other_ids_def quiet_other run_wf_def)
  ultimately show ?thesis
    using assms by (auto simp: run_wf_def calls_issue flush_count_def)
qed

definition sim :: "OutboxRun \<Rightarrow> OutboxRun \<Rightarrow> string \<Rightarrow> bool" where
  "sim m m' x \<longleftrightarrow> view_of m' x = view_of m x \<or> v_step (view_of m x) (view_of m' x)"

lemma sim_refl [simp]: "sim m m x"
  by (simp add: sim_def)

lemma view_other_quiet:
  "quiet m x \<Longrightarrow> list_all v_flush (v_calls (view_of m x))"
  by (auto simp: quiet_def view_of_def list_all_iff vcall_def v_flush_def vkind_def is_flush_call_def split: Continuation.splits)

lemma flush_next_Some:
  "flush_next st es = Some (e, rest) \<Longrightarrow>
     \<exists>skipped b. es = skipped @ e # rest \<and> entry_of st (entry_id e) = Some b \<and> ob_status b = Pending"
proof (induction es)
  case (Cons a es)
  show ?case
  proof (cases "\<exists>b. entry_of st (entry_id a) = Some b \<and> ob_status b = Pending")
    case True
    with Cons.prems show ?thesis by auto
  next
    case False
    then have "flush_next st (a # es) = flush_next st es" by (auto split: option.splits)
    with Cons obtain sk b where "es = sk @ e # rest \<and> entry_of st (entry_id e) = Some b \<and> ob_status b = Pending" by auto
    then show ?thesis by (metis append_Cons)
  qed
qed simp

lemma op_ids_simps [simp]:
  "op_ids (OutboxPut e) = [entry_id e]" "op_ids (OutboxPutAndDelete e d) = [entry_id e, d]" "op_ids (OutboxDelete i) = [i]"
  by (simp_all add: op_ids_def)

lemma id_flush_row [simp]: "entry_id (flush_row r e) = entry_id e"
  by (simp add: flush_row_def)

lemma commits_flush_row: "commits e (Some (flush_row r e))"
  by (auto simp: commits_def flush_row_def statusFor_def)

lemma end_flush_wf:
  assumes "run_wf (m\<lparr>rn_flush := FlushSubmitting rest\<rparr>)"
  shows "run_wf (end_flush b out m)"
proof -
  let ?m0 = "m\<lparr>rn_flush := FlushSubmitting rest\<rparr>"
  have "call_mem_ok ?m0 c \<Longrightarrow> call_mem_ok (end_flush b out m) c" for c
    by (auto simp: call_mem_ok_def end_flush_def flush_rest_def split: Continuation.splits)
  then have "list_all (call_mem_ok ?m0) cs \<Longrightarrow> list_all (call_mem_ok (end_flush b out m)) cs" for cs
    by (auto simp: list_all_iff)
  then show ?thesis using assms by (simp add: run_wf_def end_flush_def flush_rest_def flush_count_def)
qed

text \<open>The flush loop moves on: with no request of its own in flight it ends, or writes the next entry still pending.\<close>

lemma advance_flush_ok:
  assumes "run_wf (m\<lparr>rn_flush := FlushSubmitting (fr_rest fr)\<rparr>)"
  shows "run_wf (advance_flush fr m)" "sim m (advance_flush fr m) x"
    "x \<notin> entry_id ` set (fr_rest fr) \<Longrightarrow> view_of (advance_flush fr m) x = view_of m x"
proof -
  let ?m0 = "m\<lparr>rn_flush := FlushSubmitting (fr_rest fr)\<rparr>"
  have none: "filter is_flush_call (rn_calls m) = []" using assms by (simp add: run_wf_def flush_count_def)
  consider "flush_next (rn_outbox m) (fr_rest fr) = None"
    | e rest where "flush_next (rn_outbox m) (fr_rest fr) = Some (e, rest)" by (cases "flush_next (rn_outbox m) (fr_rest fr)") auto
  then have "run_wf (advance_flush fr m) \<and> sim m (advance_flush fr m) x \<and>
    (x \<notin> entry_id ` set (fr_rest fr) \<longrightarrow> view_of (advance_flush fr m) x = view_of m x)"
  proof cases
    case 1
    with end_flush_wf [OF assms] show ?thesis by (simp add: advance_flush_def sim_def)
  next
    case (2 e rest)
    from flush_next_Some [OF this] obtain sk b where e: "fr_rest fr = sk @ e # rest"
      "entry_of (rn_outbox m) (entry_id e) = Some b" "ob_status b = Pending" by blast
    have "rest_ok ?m0 e" using assms e(1) by (simp add: run_wf_def flush_rest_def)
    then have b: "b = e" using e(2,3) by (auto simp: rest_ok_def)
    let ?fr = "fr\<lparr>fr_rest := rest\<rparr>"
    let ?m1 = "m\<lparr>rn_flush := FlushCommitting ?fr\<rparr>"
    let ?c = "\<lparr>cl_op = OutboxPut (flush_row (fr_rejected fr) e), cl_cont = KFlushPut e, cl_done = None\<rparr>"
    have adv: "advance_flush fr m = issue (cl_op ?c) (cl_cont ?c) ?m1" using 2 by (simp add: advance_flush_def)
    have "call_mem_ok (advance_flush fr m) c" if "call_mem_ok ?m0 c" "\<not> is_flush_call c" for c
      using that by (auto simp: adv call_mem_ok_def flush_rest_def e(1) is_flush_call_def split: Continuation.splits)
    moreover have "\<not> is_flush_call c" if "c \<in> set (rn_calls m)" for c using none that by (auto simp: filter_empty_conv)
    ultimately have "list_all (call_mem_ok (advance_flush fr m)) (rn_calls m @ [?c])"
      using assms by (auto simp: run_wf_def list_all_iff call_mem_ok_def adv)
    moreover have "list_all (rest_ok (advance_flush fr m)) rest"
      using assms e(1) by (auto simp: run_wf_def list_all_iff flush_rest_def rest_ok_def adv)
    moreover have "call_ok ?c" by (auto simp: call_ok_def)
    moreover have "is_flush_call ?c" by (simp add: is_flush_call_def)
    moreover have "distinct (map entry_id (sk @ e # rest))" using assms e(1) by (simp add: run_wf_def flush_rest_def)
    then have "entry_id e \<notin> entry_id ` set rest" by simp
    then have "\<forall>a \<in> set rest. entry_id a \<noteq> entry_id e" by (metis imageI)
    ultimately have "run_wf (advance_flush fr m)"
      using assms none e(1) unfolding run_wf_def
      by (auto simp: adv calls_issue flush_rest_def flush_count_def other_ids_def filter_empty_conv)
    moreover have "v_step (view_of m x) (view_of (advance_flush fr m) x)" if "x = entry_id e"
    proof -
      have "\<not> list_ex v_flush (v_calls (view_of m x))"
        using none by (auto simp: view_of_def list_ex_iff vcall_def v_flush_def vkind_def is_flush_call_def filter_empty_conv split: Continuation.splits if_splits)
      then have "v_step (view_of m x) (view_of m x\<lparr>v_calls := v_calls (view_of m x) @ [(VFlush e, Some (flush_row (fr_rejected fr) e), None)]\<rparr>)"
        using e(2,3) b that by (intro v_flush) (auto simp: view_of_def commits_flush_row)
      then show ?thesis using that by (simp add: adv view_issue vkind_def op_row_def)
    qed
    ultimately show ?thesis using e(1) by (auto simp: adv view_issue sim_def)
  qed
  then show "run_wf (advance_flush fr m)" "sim m (advance_flush fr m) x"
    "x \<notin> entry_id ` set (fr_rest fr) \<Longrightarrow> view_of (advance_flush fr m) x = view_of m x" by blast+
qed


section \<open>Resuming\<close>

text \<open>The ids whose memory a request in flight relies on.\<close>

definition mem_ids :: "Call \<Rightarrow> string list" where
  "mem_ids c = (case cl_cont c of KEnqueue e \<Rightarrow> [entry_id e] | KRetryConflicted _ e \<Rightarrow> [entry_id e] | KRetry i \<Rightarrow> [i] | _ \<Rightarrow> [])"

lemma mem_ids_other: "call_ok c \<Longrightarrow> i \<in> set (mem_ids c) \<Longrightarrow> \<not> is_flush_call c \<and> on i c"
  by (auto simp: mem_ids_def call_ok_def is_flush_call_def split: Continuation.splits)

lemma mem_ids_pending: "call_mem_ok m c \<Longrightarrow> entry_of (rn_outbox m) i = Some e \<Longrightarrow> ob_status e = Pending \<Longrightarrow> i \<notin> set (mem_ids c)"
  by (auto simp: mem_ids_def call_mem_ok_def split: Continuation.splits)

lemma mem_update_wf:
  assumes "run_wf m" "ids_distinct ob" "\<forall>y. y \<notin> I \<longrightarrow> entry_of ob y = entry_of (rn_outbox m) y"
    "\<forall>c \<in> set (rn_calls m). set (mem_ids c) \<inter> I = {}"
    "\<forall>i e. i \<in> I \<longrightarrow> entry_of ob i = Some e \<longrightarrow> ob_status e = Conflicted \<or> i \<notin> entry_id ` set (flush_rest m)"
  shows "run_wf (m\<lparr>rn_outbox := ob\<rparr>)"
proof -
  have rest: "flush_rest (m\<lparr>rn_outbox := ob\<rparr>) = flush_rest m" by (simp add: flush_rest_def)
  have "call_mem_ok (m\<lparr>rn_outbox := ob\<rparr>) c" if "c \<in> set (rn_calls m)" "call_mem_ok m c" for c
  proof -
    have "y \<in> set (mem_ids c) \<Longrightarrow> entry_of ob y = entry_of (rn_outbox m) y" for y using assms(3,4) that(1) by blast
    with that(2) show ?thesis by (auto simp: call_mem_ok_def mem_ids_def rest split: Continuation.splits)
  qed
  moreover have "rest_ok (m\<lparr>rn_outbox := ob\<rparr>) e" if "e \<in> set (flush_rest m)" "rest_ok m e" for e
    using that assms(3,5) unfolding rest_ok_def by (cases "entry_id e \<in> I") auto
  ultimately show ?thesis
    using assms(1,2) unfolding run_wf_def rest by (auto simp: list_all_iff flush_count_def)
qed

lemma wf_call:
  assumes "run_wf m" "rn_calls m = c # cs"
  shows "call_ok c" "call_mem_ok m c"
  using assms by (auto simp: run_wf_def)

lemma pop_other_wf:
  assumes "run_wf m" "rn_calls m = c # cs" "\<not> is_flush_call c"
  shows "run_wf (m\<lparr>rn_calls := cs\<rparr>)" "\<forall>i. on i c \<longrightarrow> i \<notin> set (other_ids cs)" "\<forall>i. on i c \<longrightarrow> (\<forall>d \<in> set cs. i \<notin> set (mem_ids d))"
proof -
  have "call_mem_ok (m\<lparr>rn_calls := cs\<rparr>) = call_mem_ok m" "rest_ok (m\<lparr>rn_calls := cs\<rparr>) = rest_ok m"
    by (rule ext, rule call_mem_ok_cong rest_ok_cong, simp, simp?)+
  then show "run_wf (m\<lparr>rn_calls := cs\<rparr>)"
    using assms by (auto simp: run_wf_def flush_rest_def flush_count_def other_ids_def)
  show *: "\<forall>i. on i c \<longrightarrow> i \<notin> set (other_ids cs)"
    using assms by (auto simp: run_wf_def other_ids_def)
  show "\<forall>i. on i c \<longrightarrow> (\<forall>d \<in> set cs. i \<notin> set (mem_ids d))"
  proof (intro allI impI ballI notI)
    fix i d
    assume "on i c" "d \<in> set cs" "i \<in> set (mem_ids d)"
    moreover have "call_ok d" using assms \<open>d \<in> set cs\<close> by (auto simp: run_wf_def list_all_iff)
    ultimately have "i \<in> set (other_ids cs)" using mem_ids_other [of d i] by (auto simp: other_ids_def)
    with * \<open>on i c\<close> show False by blast
  qed
qed

lemma pop_flush_wf:
  assumes "run_wf m" "rn_calls m = c # cs" "is_flush_call c"
  obtains fr where "rn_flush m = FlushCommitting fr" "run_wf (m\<lparr>rn_calls := cs, rn_flush := FlushSubmitting (fr_rest fr)\<rparr>)"
    "\<forall>i. on i c \<longrightarrow> i \<notin> entry_id ` set (fr_rest fr)" "filter is_flush_call cs = []"
proof -
  have "length (filter is_flush_call (c # cs)) = flush_count m" using assms by (simp add: run_wf_def)
  then obtain fr where fr: "rn_flush m = FlushCommitting fr" "filter is_flush_call cs = []"
    using assms(3) by (cases "rn_flush m") (auto simp: flush_count_def)
  let ?m = "m\<lparr>rn_calls := cs, rn_flush := FlushSubmitting (fr_rest fr)\<rparr>"
  have rest: "flush_rest m = fr_rest fr" "flush_rest ?m = fr_rest fr" using fr by (simp_all add: flush_rest_def)
  have "call_mem_ok ?m d" if "d \<in> set cs" for d
  proof -
    have "call_mem_ok m d" "\<not> is_flush_call d" using assms that fr(2) by (auto simp: run_wf_def list_all_iff filter_empty_conv)
    then show ?thesis by (auto simp: call_mem_ok_def rest is_flush_call_def split: Continuation.splits)
  qed
  moreover have "rest_ok ?m = rest_ok m" by (rule ext, rule rest_ok_cong) simp
  ultimately have "run_wf ?m"
    using assms fr unfolding run_wf_def rest by (auto simp: list_all_iff flush_count_def other_ids_def filter_empty_conv)
  moreover have "\<forall>i. on i c \<longrightarrow> i \<notin> entry_id ` set (fr_rest fr)"
    using assms rest by (auto simp: run_wf_def)
  ultimately show thesis using that fr by blast
qed

lemma view_pop:
  assumes "rn_calls m = c # cs"
  shows "v_calls (view_of m x) = (if on x c then [vcall x c] else []) @ map (vcall x) (filter (on x) cs)"
  using assms by (simp add: view_of_def)

lemma view_mem: "view_of (m\<lparr>rn_calls := cs, rn_outbox := ob\<rparr>) x =
    \<lparr>v_mem = entry_of ob x, v_store = map_of (rn_store m) x, v_calls = map (vcall x) (filter (on x) cs)\<rparr>"
  by (simp add: view_of_def)

text \<open>
  A method other than flush resumes: where its request succeeded, memory takes the row the request left
  in the store; where it failed, memory stays.
\<close>

lemma resumed_sim:
  assumes calls: "rn_calls m = c # cs" "cl_done c = Some ok" and kind: "on x c \<Longrightarrow> vkind x (cl_cont c) \<in> {VNew, VRetry, VRemove}"
    and mem: "\<And>y. entry_of ob y = (if ok \<and> on y c then op_row y (cl_op c) else entry_of (rn_outbox m) y)"
  shows "sim m (m\<lparr>rn_calls := cs, rn_outbox := ob\<rparr>) x"
proof (cases "on x c")
  case False
  then show ?thesis using calls mem by (simp add: sim_def view_mem) (simp add: view_of_def)
next
  case True
  let ?v = "view_of m x"
  have head: "v_calls ?v = (vkind x (cl_cont c), op_row x (cl_op c), Some ok) # map (vcall x) (filter (on x) cs)"
    using True calls by (simp add: view_of_def vcall_def)
  have "v_step ?v (if ok then ?v\<lparr>v_mem := op_row x (cl_op c), v_calls := map (vcall x) (filter (on x) cs)\<rparr>
      else ?v\<lparr>v_calls := map (vcall x) (filter (on x) cs)\<rparr>)"
    using head kind [OF True] by (auto intro: v_done v_failed)
  moreover have "view_of (m\<lparr>rn_calls := cs, rn_outbox := ob\<rparr>) x = (if ok
      then ?v\<lparr>v_mem := op_row x (cl_op c), v_calls := map (vcall x) (filter (on x) cs)\<rparr>
      else ?v\<lparr>v_calls := map (vcall x) (filter (on x) cs)\<rparr>)"
    using True mem [of x] by (simp add: view_mem) (simp add: view_of_def)
  ultimately show ?thesis by (simp add: sim_def)
qed

lemma resume_memory_wf:
  assumes "run_wf m" "rn_calls m = c # cs" "\<not> is_flush_call c" "ids_distinct ob"
    and mem: "\<And>y. entry_of ob y = (if on y c then r y else entry_of (rn_outbox m) y)"
    and "\<And>y. on y c \<Longrightarrow> r y \<noteq> None \<Longrightarrow> y \<notin> entry_id ` set (flush_rest m)"
  shows "run_wf (m\<lparr>rn_calls := cs, rn_outbox := ob\<rparr>)"
proof -
  note pop = pop_other_wf [OF assms(1-3)]
  have "flush_rest (m\<lparr>rn_calls := cs\<rparr>) = flush_rest m" by (simp add: flush_rest_def)
  then have "run_wf (m\<lparr>rn_calls := cs\<rparr>\<lparr>rn_outbox := ob\<rparr>)"
    using pop assms(4-6) by (intro mem_update_wf [where I = "{y. on y c}"]) auto
  then show ?thesis by simp
qed

lemma applied_frame [simp]: "run_wf (applied e m) = run_wf m" "sim m0 (applied e m) x = sim m0 m x"
  by (rule run_wf_cong; simp add: applied_def) (simp add: sim_def applied_def)

lemma view_fault [simp]: "view_of (fault c m) x = view_of m x"
  by (simp add: fault_def)

lemma fault_frame [simp]: "run_wf (fault c m) = run_wf m" "sim m0 (fault c m) x = sim m0 m x"
  by (rule run_wf_cong; simp add: fault_def) (simp add: sim_def fault_def)

lemma resume_other:
  assumes "run_wf m" "rn_calls m = c # cs" "cl_done c = Some ok" "\<not> is_flush_call c"
    and x: "x \<notin> set (rn_faulted (resume_call c ok (m\<lparr>rn_calls := cs\<rparr>)))"
  shows "run_wf (resume_call c ok (m\<lparr>rn_calls := cs\<rparr>)) \<and> sim m (resume_call c ok (m\<lparr>rn_calls := cs\<rparr>)) x"
proof -
  let ?m = "m\<lparr>rn_calls := cs\<rparr>"
  note c = wf_call [OF assms(1,2)] and pop = pop_other_wf [OF assms(1,2,4)]
  have dist: "ids_distinct (rn_outbox m)" using assms(1) by (simp add: run_wf_def)
  have failed: "run_wf ?m \<and> sim m ?m x" if "\<not> ok" "vkind x (cl_cont c) \<in> {VNew, VRetry, VRemove}"
    using pop(1) resumed_sim [OF assms(2,3), of x "rn_outbox m"] that by simp
  have step: "run_wf (m\<lparr>rn_calls := cs, rn_outbox := ob\<rparr>) \<and> sim m (m\<lparr>rn_calls := cs, rn_outbox := ob\<rparr>) x"
    if "ok" "vkind x (cl_cont c) \<in> {VNew, VRetry, VRemove}" "ids_distinct ob"
      "\<And>y. entry_of ob y = (if on y c then op_row y (cl_op c) else entry_of (rn_outbox m) y)"
      "\<And>y. on y c \<Longrightarrow> op_row y (cl_op c) \<noteq> None \<Longrightarrow> y \<notin> entry_id ` set (flush_rest m)" for ob
    using resume_memory_wf [OF assms(1,2,4), of ob "\<lambda>y. op_row y (cl_op c)"] resumed_sim [OF assms(2,3), of x ob] that
    by simp
  have removed: "run_wf (if ok then ?m\<lparr>rn_outbox := emit (drop_entry i (rn_outbox m))\<rparr> else ?m) \<and>
      sim m (if ok then ?m\<lparr>rn_outbox := emit (drop_entry i (rn_outbox m))\<rparr> else ?m) x"
    if "cl_cont c = KClearError i \<or> cl_cont c = KClearConflict i \<or> cl_cont c = KEcho i" for i
  proof -
    have op: "cl_op c = OutboxDelete i" "vkind x (cl_cont c) = VRemove" using c(1) that by (auto simp: call_ok_def vkind_def)
    then have "entry_of (emit (drop_entry i (rn_outbox m))) y = (if on y c then op_row y (cl_op c) else entry_of (rn_outbox m) y)" for y
      by (simp add: op_row_def)
    with step [of "emit (drop_entry i (rn_outbox m))"] failed op show ?thesis
      by (cases ok) (simp_all add: ids_distinct_drop [OF dist] op_row_def del: entry_of_updates)
  qed
  show ?thesis
  proof (cases "cl_cont c")
    case (KEnqueue e)
    then have e: "cl_op c = OutboxPut e" "entry_of (rn_outbox m) (entry_id e) = None" "entry_id e \<notin> entry_id ` set (flush_rest m)"
      using c by (auto simp: call_ok_def call_mem_ok_def)
    have "entry_of (enqueue_stored e (rn_outbox m)) y = (if on y c then op_row y (cl_op c) else entry_of (rn_outbox m) y)" for y
      using e(1,2) by (auto simp: op_row_def split: option.splits)
    moreover have "vkind x (cl_cont c) \<in> {VNew, VRetry, VRemove}" using KEnqueue by (simp add: vkind_def)
    ultimately show ?thesis
      using step [of "enqueue_stored e (rn_outbox m)"] failed KEnqueue e ids_distinct_enqueue [OF dist e(2)]
      by (cases ok) (simp_all add: resume_call_def with_outbox_def)
  next
    case (KRetryConflicted i e)
    then have e: "cl_op c = OutboxPutAndDelete e i" "entry_of (rn_outbox m) (entry_id e) = None"
      "entry_id e \<notin> entry_id ` set (flush_rest m)" "entry_id e \<noteq> i"
      using c by (auto simp: call_ok_def call_mem_ok_def)
    have "entry_of (retryConflicted_stored i e (rn_outbox m)) y = (if on y c then op_row y (cl_op c) else entry_of (rn_outbox m) y)" for y
      using e by (auto simp: op_row_def split: option.splits)
    moreover have "vkind x (cl_cont c) \<in> {VNew, VRetry, VRemove}" using KRetryConflicted by (simp add: vkind_def)
    moreover have "on y c \<Longrightarrow> op_row y (cl_op c) \<noteq> None \<Longrightarrow> y \<notin> entry_id ` set (flush_rest m)" for y
      using e by (auto simp: op_row_def split: if_splits)
    ultimately show ?thesis
      using step [OF _ _ ids_distinct_retryConflicted [OF dist e(2), of i]] failed KRetryConflicted
      by (cases ok) (simp_all add: resume_call_def with_outbox_def del: entry_of_updates)
  next
    case (KRetry i)
    then obtain e where e: "cl_op c = OutboxPut (e\<lparr>ob_status := Pending\<rparr>)" "entry_of (rn_outbox m) i = Some e" "ob_status e = OutboxError"
      using c by (auto simp: call_mem_ok_def)
    then have i: "entry_id e = i" using entry_of_lookup lookup_id by metis
    have "i \<notin> entry_id ` set (flush_rest m)"
    proof
      assume "i \<in> entry_id ` set (flush_rest m)"
      then obtain e' where "e' \<in> set (flush_rest m)" "entry_id e' = i" by auto
      then have "rest_ok m e'" using assms(1) by (auto simp: run_wf_def list_all_iff)
      with e \<open>entry_id e' = i\<close> show False by (auto simp: rest_ok_def)
    qed
    moreover have "entry_of (retry_stored i (rn_outbox m)) y = (if on y c then op_row y (cl_op c) else entry_of (rn_outbox m) y)" for y
      using e i by (simp add: retry_stored_def op_row_def)
    moreover have "vkind x (cl_cont c) \<in> {VNew, VRetry, VRemove}" using KRetry by (simp add: vkind_def)
    moreover have "ids_distinct (retry_stored i (rn_outbox m))" using dist by (simp add: retry_stored_def)
    ultimately show ?thesis
      using step [of "retry_stored i (rn_outbox m)"] failed KRetry e i
      by (cases ok) (simp_all add: resume_call_def with_outbox_def)
  next
    case (KHold i)
    then obtain e where e: "cl_op c = OutboxPut e" "entry_id e = i" using c by (auto simp: call_ok_def)
    let ?ob = "if ok then rn_outbox m else markConflicted_failed (rn_outbox m)"
    have res: "resume_call c ok ?m = (if ok then ?m else fault c (m\<lparr>rn_calls := cs, rn_outbox := ?ob\<rparr>))"
      using KHold by (simp add: resume_call_def with_outbox_def)
    have "run_wf (m\<lparr>rn_calls := cs, rn_outbox := ?ob\<rparr>)"
      by (subst run_wf_cong [of _ ?m]) (simp_all add: pop(1) markConflicted_failed_def)
    moreover have "sim m (m\<lparr>rn_calls := cs, rn_outbox := ?ob\<rparr>) x" if "on x c \<Longrightarrow> ok"
    proof (cases "on x c")
      case True
      have "v_step (view_of m x) (view_of m x\<lparr>v_calls := map (vcall x) (filter (on x) cs)\<rparr>)"
        using True that assms(2,3) KHold by (intro v_fixed) (auto simp: view_of_def vcall_def vkind_def)
      then show ?thesis using True that by (simp add: sim_def view_of_def)
    qed (use assms(2) in \<open>simp add: sim_def view_of_def markConflicted_failed_def\<close>)
    moreover have "on x c \<Longrightarrow> ok" using x by (auto simp: res fault_def op_id_def e split: if_splits)
    ultimately show ?thesis using pop(1) unfolding res by (cases ok) auto
  qed (use removed assms(4) in \<open>simp_all add: is_flush_call_def resume_call_def with_outbox_def clearError_deleted_def
      clearConflict_deleted_def matchEcho_deleted_def split: if_splits\<close>)
qed

lemma entry_of_idD: "entry_of st i = Some a \<Longrightarrow> entry_id a = i"
  unfolding entry_of_lookup by (drule lookup_id) simp

lemma issue_fix_wf:
  assumes "run_wf (m\<lparr>rn_flush := FlushSubmitting (fr_rest fr)\<rparr>)" "rn_flush m = FlushCommitting fr"
    "op_ids op = [i]" "i \<notin> entry_id ` set (fr_rest fr)"
  shows "run_wf (issue op KFlushFix m)"
proof -
  let ?m0 = "m\<lparr>rn_flush := FlushSubmitting (fr_rest fr)\<rparr>"
  have rest: "flush_rest m = fr_rest fr" "flush_rest ?m0 = fr_rest fr" using assms(2) by (simp_all add: flush_rest_def)
  have "call_mem_ok (issue op KFlushFix m) c" if "call_mem_ok ?m0 c" for c
    using that by (auto simp: call_mem_ok_def rest split: Continuation.splits)
  then have "list_all (call_mem_ok ?m0) cs \<Longrightarrow> list_all (call_mem_ok (issue op KFlushFix m)) cs" for cs by (auto simp: list_all_iff)
  moreover have "rest_ok (issue op KFlushFix m) = rest_ok ?m0" by (rule ext, rule rest_ok_cong) simp
  moreover have "\<forall>e \<in> set (fr_rest fr). entry_id e \<noteq> i" using assms(4) by auto
  ultimately show ?thesis
    using assms(1-3) unfolding run_wf_def
    by (auto simp: calls_issue rest flush_count_def call_ok_def call_mem_ok_def is_flush_call_def other_ids_def)
qed

lemma v_flushed_entry:
  assumes "v_inv v" "v_calls v = (VFlush e, p, Some True) # cs" "v_mem v = Some b" "ob_status b = Pending"
  shows "b = e" "ob_conflict e = None"
proof -
  from assms(1) obtain b' where "shape (v_mem v) b' (v_calls v)" by (auto simp: v_inv_def)
  then have "b = e \<and> ob_conflict e = None"
    by cases (use assms in \<open>auto simp: held_def flushing_def plain_def\<close>)
  then show "b = e" "ob_conflict e = None" by simp_all
qed

text \<open>The flush resumes after its write: it commits, repairs or gives up.\<close>

lemma resume_flush_write:
  assumes "run_wf m" "rn_calls m = c # cs" "cl_done c = Some ok" "cl_cont c = KFlushPut e"
  shows "run_wf (resume_call c ok (m\<lparr>rn_calls := cs\<rparr>)) \<and>
    (v_inv (view_of m x) \<longrightarrow> sim m (resume_call c ok (m\<lparr>rn_calls := cs\<rparr>)) x)"
proof -
  let ?m = "m\<lparr>rn_calls := cs\<rparr>"
  have fl: "is_flush_call c" using assms(4) by (simp add: is_flush_call_def)
  obtain fr where fr: "rn_flush m = FlushCommitting fr" "run_wf (m\<lparr>rn_calls := cs, rn_flush := FlushSubmitting (fr_rest fr)\<rparr>)"
    "\<forall>i. on i c \<longrightarrow> i \<notin> entry_id ` set (fr_rest fr)" "filter is_flush_call cs = []"
    by (rule pop_flush_wf [OF assms(1,2) fl])
  have op: "cl_op c = OutboxPut (flush_row (fr_rejected fr) e)"
    using wf_call [OF assms(1,2)] assms(4) fr(1) by (auto simp: call_mem_ok_def)
  have ne: "entry_id e \<notin> entry_id ` set (fr_rest fr)" using fr(3) op by simp
  have on: "on y c \<longleftrightarrow> y = entry_id e" for y by (simp add: op)
  have head: "v_calls (view_of m x) = (VFlush e, Some (flush_row (fr_rejected fr) e), Some ok) # map (vcall x) (filter (on x) cs)"
    if "x = entry_id e" using that assms by (simp add: view_of_def vcall_def vkind_def op_row_def op)
  have same: "view_of ?m y = view_of m y" if "y \<noteq> entry_id e" for y using that assms(2) on by (simp add: view_of_def)
  show ?thesis
  proof (cases ok)
    case False
    then have res: "resume_call c ok ?m = end_flush (fr_changed fr) None ?m" using assms(4) fr(1) by (simp add: resume_call_def)
    have "sim m ?m x"
      using head False same v_flush_failed [of "view_of m x"] by (cases "x = entry_id e") (auto simp: sim_def view_of_def)
    with end_flush_wf [where m = ?m] fr(2) show ?thesis by (simp add: res sim_def)
  next
    case True
    then have res: "resume_call c ok ?m = resume_flush_put e fr ?m" using assms(4) fr(1) by (simp add: resume_call_def)
    have raced: ?thesis if np: "\<forall>a. entry_of (rn_outbox m) (entry_id e) = Some a \<longrightarrow> ob_status a \<noteq> Pending"
    proof -
      let ?op = "case entry_of (rn_outbox m) (entry_id e) of None \<Rightarrow> OutboxDelete (entry_id e) | Some a \<Rightarrow> OutboxPut a"
      have ids: "op_ids ?op = [entry_id e]" and row: "op_row (entry_id e) ?op = entry_of (rn_outbox m) (entry_id e)"
        by (cases "entry_of (rn_outbox m) (entry_id e)"; auto simp: op_row_def dest: entry_of_idD)+
      have r: "resume_call c ok ?m = issue ?op KFlushFix ?m"
        using np unfolding res by (simp add: resume_flush_put_def flush_stored_def split: option.splits)
      have "run_wf (issue ?op KFlushFix ?m)" using issue_fix_wf [OF _ _ ids ne, where m = ?m] fr by simp
      moreover have "v_step (view_of m x) (view_of m x\<lparr>v_calls := map (vcall x) (filter (on x) cs) @ [(VFix, v_mem (view_of m x), None)]\<rparr>)"
        if "x = entry_id e" using head [OF that] True np that by (intro v_raced) (auto simp: view_of_def)
      then have "sim m (issue ?op KFlushFix ?m) x"
        using same ids row by (auto simp: sim_def view_issue vkind_def) (simp add: view_of_def)
      ultimately show ?thesis by (simp add: r)
    qed
    have commit: ?thesis if ea: "entry_of (rn_outbox m) (entry_id e) = Some a" "ob_status a = Pending" for a
    proof -
      let ?ob = "set_status (entry_id e) (statusFor (fr_rejected fr) e) (rn_outbox m)"
      let ?fr = "fr\<lparr>fr_changed := True\<rparr>" and ?m1 = "m\<lparr>rn_calls := cs, rn_outbox := ?ob\<rparr>"
      have r: "resume_call c ok ?m = advance_flush ?fr ?m1"
        using ea unfolding res by (simp add: resume_flush_put_def flush_stored_def)
      have "\<forall>d \<in> set cs. call_mem_ok m d" using assms(1,2) by (auto simp: run_wf_def list_all_iff)
      then have "\<forall>d \<in> set cs. set (mem_ids d) \<inter> {entry_id e} = {}" using mem_ids_pending ea by blast
      then have "run_wf (m\<lparr>rn_calls := cs, rn_flush := FlushSubmitting (fr_rest fr)\<rparr>\<lparr>rn_outbox := ?ob\<rparr>)"
        using fr(2) ne by (intro mem_update_wf [where I = "{entry_id e}"]) (auto simp: run_wf_def flush_rest_def)
      then have adv: "run_wf (?m1\<lparr>rn_flush := FlushSubmitting (fr_rest ?fr)\<rparr>)" by (cases m) simp
      have view: "view_of ?m1 y = view_of m y" if "y \<noteq> entry_id e" for y
        using that assms(2) on by (simp add: view_of_def)
      have "sim m (advance_flush ?fr ?m1) x" if inv: "v_inv (view_of m x)"
      proof (cases "x = entry_id e")
        case False
        then show ?thesis using advance_flush_ok(2) [OF adv, of x] view by (simp add: sim_def)
      next
        case x: True
        have a: "a = e" "ob_conflict e = None"
          using v_flushed_entry [OF inv, of e] head [OF x] True ea x
          by (auto simp: view_of_def)
        have "v_step (view_of m x) (view_of m x\<lparr>v_mem := Some (flush_row (fr_rejected fr) e), v_calls := map (vcall x) (filter (on x) cs)\<rparr>)"
          using head [OF x] True ea x by (intro v_flushed) (auto simp: view_of_def)
        moreover have "e\<lparr>ob_status := statusFor (fr_rejected fr) e\<rparr> = flush_row (fr_rejected fr) e"
          using a(2) by (simp add: flush_row_def)
        ultimately have "v_step (view_of m x) (view_of ?m1 x)"
          using ea a(1) x by (simp add: view_of_def)
        then show ?thesis using advance_flush_ok(3) [OF adv, of x] ne x by (simp add: sim_def)
      qed
      with advance_flush_ok(1) [OF adv] show ?thesis by (simp add: r)
    qed
    from raced commit show ?thesis by blast
  qed
qed


lemma resume_flush_repair:
  assumes "run_wf m" "rn_calls m = c # cs" "cl_done c = Some ok" "cl_cont c = KFlushFix"
    and x: "x \<notin> set (rn_faulted (resume_call c ok (m\<lparr>rn_calls := cs\<rparr>)))"
  shows "run_wf (resume_call c ok (m\<lparr>rn_calls := cs\<rparr>)) \<and> sim m (resume_call c ok (m\<lparr>rn_calls := cs\<rparr>)) x"
proof -
  let ?m = "m\<lparr>rn_calls := cs\<rparr>"
  have fl: "is_flush_call c" using assms(4) by (simp add: is_flush_call_def)
  obtain fr where fr: "rn_flush m = FlushCommitting fr" "run_wf (m\<lparr>rn_calls := cs, rn_flush := FlushSubmitting (fr_rest fr)\<rparr>)"
    "\<forall>i. on i c \<longrightarrow> i \<notin> entry_id ` set (fr_rest fr)" "filter is_flush_call cs = []"
    by (rule pop_flush_wf [OF assms(1,2) fl])
  have res: "resume_call c ok ?m = (if ok then advance_flush fr ?m else fault c (end_flush (fr_changed fr) None ?m))"
    using assms(4) fr(1) by (simp add: resume_call_def)
  have same: "view_of ?m x = view_of m x" if "\<not> on x c" using that assms(2) by (simp add: view_of_def)
  have wf: "run_wf (resume_call c ok ?m)"
    using advance_flush_ok(1) [where m = ?m and fr = fr] end_flush_wf [where m = ?m] fr(2) by (simp add: res)
  show ?thesis
  proof (cases "on x c")
    case False
    then show ?thesis using wf same advance_flush_ok(2) [where m = ?m and fr = fr and x = x] fr(2) by (auto simp: res sim_def)
  next
    case True
    obtain i where "op_ids (cl_op c) = [i]" using wf_call(1) [OF assms(1,2)] assms(4) by (auto simp: call_ok_def)
    then have "op_id (cl_op c) = x" using True by (auto simp: op_ids_def op_id_def split: outbox_op.splits)
    then have ok using x by (auto simp: res fault_def split: if_splits)
    have "v_step (view_of m x) (view_of m x\<lparr>v_calls := map (vcall x) (filter (on x) cs)\<rparr>)"
      using True \<open>ok\<close> assms(2-4) by (intro v_fixed) (auto simp: view_of_def vcall_def vkind_def)
    then have "v_step (view_of m x) (view_of ?m x)" by (simp add: view_of_def)
    then show ?thesis using wf \<open>ok\<close> advance_flush_ok(3) [where m = ?m and fr = fr and x = x] fr True unfolding res by (simp add: sim_def)
  qed
qed

lemma land_first_calls:
  "land_first ok cs st = (cs', st') \<Longrightarrow> map (\<lambda>c. (cl_op c, cl_cont c)) cs' = map (\<lambda>c. (cl_op c, cl_cont c)) cs \<and>
     (st' = st \<or> (\<exists>c \<in> set cs. st' = outbox_step (cl_op c) st))"
  by (induction cs arbitrary: cs') (auto split: if_splits prod.splits)

lemma calls_cong:
  assumes "map (\<lambda>c. (cl_op c, cl_cont c)) cs' = map (\<lambda>c. (cl_op c, cl_cont c)) cs"
  shows "list_all call_ok cs' = list_all call_ok cs" "list_all (call_mem_ok m) cs' = list_all (call_mem_ok m) cs"
    "other_ids cs' = other_ids cs" "length (filter is_flush_call cs') = length (filter is_flush_call cs)"
    "(\<forall>c \<in> set cs'. is_flush_call c \<longrightarrow> Q (cl_op c)) \<longleftrightarrow> (\<forall>c \<in> set cs. is_flush_call c \<longrightarrow> Q (cl_op c))"
    "call_hlcs cs' = call_hlcs cs"
proof -
  have len: "length cs' = length cs" using assms by (rule map_eq_imp_length_eq)
  from len assms show "list_all call_ok cs' = list_all call_ok cs" "list_all (call_mem_ok m) cs' = list_all (call_mem_ok m) cs"
    "other_ids cs' = other_ids cs" "length (filter is_flush_call cs') = length (filter is_flush_call cs)"
    "(\<forall>c \<in> set cs'. is_flush_call c \<longrightarrow> Q (cl_op c)) \<longleftrightarrow> (\<forall>c \<in> set cs. is_flush_call c \<longrightarrow> Q (cl_op c))"
    "call_hlcs cs' = call_hlcs cs"
    by (induction cs' cs rule: list_induct2)
      (auto simp: call_ok_def call_mem_ok_def other_ids_def is_flush_call_def call_hlcs_def List.map_filter_def cong: Continuation.case_cong)
qed

lemma land_step:
  assumes "run_wf m" "land_first ok (rn_calls m) (rn_store m) = (cs, st)"
  shows "run_wf (m\<lparr>rn_calls := cs, rn_store := st\<rparr>) \<and> sim m (m\<lparr>rn_calls := cs, rn_store := st\<rparr>) x"
proof -
  let ?m = "m\<lparr>rn_calls := cs, rn_store := st\<rparr>"
  have store: "obj_ok (rn_store m)" "\<forall>k e. map_of (rn_store m) k = Some e \<longrightarrow> k = entry_id e"
    using assms(1) unfolding run_wf_def by blast+
  note land = land_first_calls [OF assms(2)]
  have st: "obj_ok st" "\<forall>k e. map_of st k = Some e \<longrightarrow> k = entry_id e"
    using conjunct2 [OF land] store outbox_step_spec(2,3) [OF store] by blast+
  have "call_mem_ok ?m = call_mem_ok m" "rest_ok ?m = rest_ok m"
    by (rule ext, rule call_mem_ok_cong rest_ok_cong, simp, simp?)+
  moreover have "flush_rest ?m = flush_rest m" "flush_count ?m = flush_count m" by (simp_all add: flush_rest_def flush_count_def)
  ultimately have "run_wf ?m"
    using assms(1) st calls_cong(1-4) [OF conjunct1 [OF land]]
      calls_cong(5) [OF conjunct1 [OF land], where Q = "\<lambda>op. \<forall>e \<in> set (flush_rest m). entry_id e \<notin> set (op_ids op)"]
    by (simp add: run_wf_def)
  moreover have "sim m ?m x"
    using view_land [OF store assms(2), of x] v_landed [of ok "view_of m x" _ _]
    by (auto simp: sim_def view_of_def)
  ultimately show ?thesis by simp
qed


section \<open>Starting\<close>

lemma entry_with_entry_of:
  "ids_distinct st \<Longrightarrow> entry_with st i s = Some e \<Longrightarrow> entry_of st i = Some e \<and> ob_status e = s"
  by (auto simp: find_entry_where split: option.splits if_splits)

lemma issue_other_step:
  assumes "run_wf m" "\<not> is_flush_call \<lparr>cl_op = op, cl_cont = k, cl_done = None\<rparr>"
    "call_ok \<lparr>cl_op = op, cl_cont = k, cl_done = None\<rparr>" "call_mem_ok m \<lparr>cl_op = op, cl_cont = k, cl_done = None\<rparr>"
    "distinct (op_ids op)" "\<forall>i \<in> set (op_ids op). quiet m i"
    and v: "x \<in> set (op_ids op) \<Longrightarrow> v_step (view_of m x)
      (view_of m x\<lparr>v_calls := v_calls (view_of m x) @ [(vkind x k, op_row x op, None)]\<rparr>)"
  shows "run_wf (issue op k m) \<and> sim m (issue op k m) x"
  using issue_other_wf [OF assms(1) refl assms(2-6)] v by (simp add: sim_def view_issue)

lemma id_fresh_entry [simp]: "entry_id (fresh_entry action h gsn) = act_id action"
  by (simp add: fresh_entry_def)

lemma unused:
  assumes "i \<notin> used_ids m" "run_wf m"
  shows "entry_of (rn_outbox m) i = None" "map_of (rn_store m) i = None" "quiet m i" "i \<notin> entry_id ` set (flush_rest m)"
    "v_calls (view_of m i) = []"
proof -
  show "entry_of (rn_outbox m) i = None" using assms(1) by (simp add: used_ids_def entry_of_lookup lookup_None)
  show "map_of (rn_store m) i = None" using assms(1) by (simp add: used_ids_def map_of_eq_None_iff)
  show "quiet m i" using assms(1) by (auto simp: used_ids_def quiet_def)
  show "i \<notin> entry_id ` set (flush_rest m)" using assms(1) by (simp add: used_ids_def)
  show "v_calls (view_of m i) = []" using assms(1) by (auto simp: used_ids_def view_of_def filter_empty_conv)
qed

lemma new_step:
  assumes "run_wf m" "act_id action \<notin> used_ids m"
  shows "x = act_id action \<Longrightarrow> v_step (view_of m x)
      (view_of m x\<lparr>v_calls := v_calls (view_of m x) @ [(VNew, Some (fresh_entry action h gsn), None)]\<rparr>)"
  using unused [OF assms(2,1)] v_new [of "view_of m x" "fresh_entry action h gsn"]
  by (simp add: fresh_entry_def plain_def) (simp add: view_of_def)

lemma remove_step:
  assumes "quiet m x" "entry_of (rn_outbox m) x = Some e"
  shows "v_step (view_of m x) (view_of m x\<lparr>v_calls := v_calls (view_of m x) @ [(VRemove, None, None)]\<rparr>)"
  using view_other_quiet [OF assms(1)] assms(2) by (intro v_remove) (simp_all add: view_of_def)

lemma enqueue_step:
  assumes "run_wf m" "act_id action \<notin> used_ids m" and e: "e = fresh_entry action h gsn"
  shows "run_wf (issue (OutboxPut e) (KEnqueue e) m) \<and> sim m (issue (OutboxPut e) (KEnqueue e) m) x"
proof (rule issue_other_step [OF assms(1)])
  note u = unused [OF assms(2,1)]
  have id: "entry_id e = act_id action" by (simp add: e fresh_entry_def)
  show "call_mem_ok m \<lparr>cl_op = OutboxPut e, cl_cont = KEnqueue e, cl_done = None\<rparr>"
    using u by (simp add: call_mem_ok_def id)
  show "\<forall>i \<in> set (op_ids (OutboxPut e)). quiet m i" using u by (simp add: id)
  assume "x \<in> set (op_ids (OutboxPut e))"
  then show "v_step (view_of m x) (view_of m x\<lparr>v_calls := v_calls (view_of m x) @ [(vkind x (KEnqueue e), op_row x (OutboxPut e), None)]\<rparr>)"
    using new_step [OF assms(1,2), of x h gsn] by (simp add: id vkind_def op_row_def e)
qed (simp_all add: is_flush_call_def call_ok_def e fresh_entry_def)

lemma retryConflicted_step:
  assumes "run_wf m" "act_id action \<notin> used_ids m" "quiet m i" "entry_of (rn_outbox m) i = Some e0" and e: "e = fresh_entry action h gsn"
  shows "run_wf (issue (OutboxPutAndDelete e i) (KRetryConflicted i e) m) \<and>
    sim m (issue (OutboxPutAndDelete e i) (KRetryConflicted i e) m) x"
proof (rule issue_other_step [OF assms(1)])
  note u = unused [OF assms(2,1)]
  have id: "entry_id e = act_id action" by (simp add: e fresh_entry_def)
  have ne: "act_id action \<noteq> i" using u(1) assms(4) by auto
  show "call_mem_ok m \<lparr>cl_op = OutboxPutAndDelete e i, cl_cont = KRetryConflicted i e, cl_done = None\<rparr>"
    using u by (simp add: call_mem_ok_def id)
  show "call_ok \<lparr>cl_op = OutboxPutAndDelete e i, cl_cont = KRetryConflicted i e, cl_done = None\<rparr>"
    using ne id by (simp add: call_ok_def) (simp add: e fresh_entry_def)
  show "\<forall>j \<in> set (op_ids (OutboxPutAndDelete e i)). quiet m j" using u assms(3) by (simp add: id)
  show "distinct (op_ids (OutboxPutAndDelete e i))" using ne by (simp add: id)
  assume "x \<in> set (op_ids (OutboxPutAndDelete e i))"
  then show "v_step (view_of m x) (view_of m x\<lparr>v_calls := v_calls (view_of m x) @
      [(vkind x (KRetryConflicted i e), op_row x (OutboxPutAndDelete e i), None)]\<rparr>)"
    using new_step [OF assms(1,2), of x h gsn] remove_step [OF assms(3,4)] ne by (auto simp: id vkind_def op_row_def e)
qed (simp_all add: is_flush_call_def)

lemma delete_step:
  assumes "run_wf m" "quiet m i" "entry_of (rn_outbox m) i = Some e" and k: "k \<in> {KClearError i, KClearConflict i, KEcho i}"
  shows "run_wf (issue (OutboxDelete i) k m) \<and> sim m (issue (OutboxDelete i) k m) x"
proof (rule issue_other_step [OF assms(1)])
  assume "x \<in> set (op_ids (OutboxDelete i))"
  then show "v_step (view_of m x) (view_of m x\<lparr>v_calls := v_calls (view_of m x) @ [(vkind x k, op_row x (OutboxDelete i), None)]\<rparr>)"
    using remove_step [OF assms(2,3)] k by (auto simp: vkind_def op_row_def)
qed (use assms in \<open>auto simp: is_flush_call_def call_ok_def call_mem_ok_def\<close>)

lemma retry_step:
  assumes "run_wf m" "quiet m i" "entry_of (rn_outbox m) i = Some e0" "ob_status e0 = OutboxError" and e: "e = e0\<lparr>ob_status := Pending\<rparr>"
  shows "run_wf (issue (OutboxPut e) (KRetry i) m) \<and> sim m (issue (OutboxPut e) (KRetry i) m) x"
proof (rule issue_other_step [OF assms(1)])
  have id: "entry_id e = i" using entry_of_idD [OF assms(3)] by (simp add: e)
  show "call_ok \<lparr>cl_op = OutboxPut e, cl_cont = KRetry i, cl_done = None\<rparr>" using id by (simp add: call_ok_def)
  show "\<forall>j \<in> set (op_ids (OutboxPut e)). quiet m j" using assms(2) id by simp
  assume "x \<in> set (op_ids (OutboxPut e))"
  then show "v_step (view_of m x) (view_of m x\<lparr>v_calls := v_calls (view_of m x) @ [(vkind x (KRetry i), op_row x (OutboxPut e), None)]\<rparr>)"
    using assms(3,4) view_other_quiet [OF assms(2)] v_retry [of "view_of m x" e0] id
    by (simp add: vkind_def op_row_def e) (simp add: view_of_def)
qed (use assms(3,4) e in \<open>simp_all add: is_flush_call_def call_mem_ok_def\<close>)

lemma entry_of_mark:
  assumes "markConflicted_begin i conflict st = (ob, r)"
  shows "entry_of ob y = (if y = i \<and> entry_of st i \<noteq> None then r else entry_of st y)" "ids_distinct ob = ids_distinct st"
    "r = map_option (\<lambda>e. e\<lparr>ob_status := Conflicted, ob_conflict := Some conflict\<rparr>) (entry_of st i)"
proof -
  have "ids_distinct (st\<lparr>ox_entries := map (\<lambda>c. if entry_id c = i then c\<lparr>ob_status := Conflicted, ob_conflict := Some conflict\<rparr> else c)
      (ox_entries st)\<rparr>) = ids_distinct st"
    by (simp add: ids_distinct_def comp_def if_distrib cong: if_cong)
  then show "entry_of ob y = (if y = i \<and> entry_of st i \<noteq> None then r else entry_of st y)" "ids_distinct ob = ids_distinct st"
    "r = map_option (\<lambda>e. e\<lparr>ob_status := Conflicted, ob_conflict := Some conflict\<rparr>) (entry_of st i)"
    using assms by (auto simp: markConflicted_begin_def entry_of_lookup lookup_map split: option.splits)
qed

lemma hold_step:
  assumes "run_wf m" "quiet m i" "markConflicted_begin i conflict (rn_outbox m) = (ob, Some e)" "rn_outbox m' = ob"
    "rn_flush m' = rn_flush m" "rn_store m' = rn_store m" "rn_calls m' = rn_calls m"
  shows "run_wf (issue (OutboxPut e) (KHold i) m') \<and> sim m (issue (OutboxPut e) (KHold i) m') x"
proof -
  note mark = entry_of_mark [OF assms(3)]
  obtain e0 where e0: "entry_of (rn_outbox m) i = Some e0" and e: "e = e0\<lparr>ob_status := Conflicted, ob_conflict := Some conflict\<rparr>"
    using mark(3) by (cases "entry_of (rn_outbox m) i") auto
  have id: "entry_id e = i" using entry_of_idD [OF e0] by (simp add: e)
  have "\<forall>c \<in> set (rn_calls m). set (mem_ids c) \<inter> {i} = {}"
  proof (intro ballI)
    fix c
    assume "c \<in> set (rn_calls m)"
    moreover have "call_ok c" using assms(1) \<open>c \<in> _\<close> by (auto simp: run_wf_def list_all_iff)
    ultimately show "set (mem_ids c) \<inter> {i} = {}" using mem_ids_other assms(2) by (auto simp: quiet_def)
  qed
  then have "run_wf (m\<lparr>rn_outbox := ob\<rparr>)"
    using mark assms(1) e by (intro mem_update_wf [where I = "{i}"]) (auto simp: run_wf_def)
  then have wf: "run_wf m'" using assms(4-7) by (subst run_wf_cong [of _ "m\<lparr>rn_outbox := ob\<rparr>"]) simp_all
  have "run_wf (issue (OutboxPut e) (KHold i) m')"
    using wf assms(2) id assms(7) by (intro issue_other_wf [OF wf refl])
      (auto simp: is_flush_call_def call_ok_def call_mem_ok_def quiet_def)
  moreover have "sim m (issue (OutboxPut e) (KHold i) m') x"
  proof (cases "x = i")
    case True
    have "v_step (view_of m x) (view_of m x\<lparr>v_mem := Some e, v_calls := v_calls (view_of m x) @ [(VHold, Some e, None)]\<rparr>)"
      using view_other_quiet [OF assms(2)] e0 True by (intro v_hold) (auto simp: view_of_def e)
    moreover have "view_of (issue (OutboxPut e) (KHold i) m') x =
        view_of m x\<lparr>v_mem := Some e, v_calls := v_calls (view_of m x) @ [(VHold, Some e, None)]\<rparr>"
      using True id mark(1) [of i] e0 assms(4-7) by (simp add: view_issue vkind_def op_row_def) (simp add: view_of_def)
    ultimately show ?thesis by (simp add: sim_def)
  next
    case False
    then show ?thesis using id mark(1) [of x] assms(4-7) by (simp add: sim_def view_issue) (simp add: view_of_def)
  qed
  ultimately show ?thesis by simp
qed


lemma flush_start_wf:
  assumes "run_wf m" "rn_flush m = FlushIdle" "batch = flush_batch (rn_outbox m)"
  shows "run_wf (m\<lparr>rn_flush := FlushSubmitting batch, rn_submitted := ss\<rparr>)"
proof -
  let ?m = "m\<lparr>rn_flush := FlushSubmitting batch, rn_submitted := ss\<rparr>"
  have dist: "distinct (map entry_id (ox_entries (rn_outbox m)))" using assms(1) by (simp add: run_wf_def ids_distinct_def)
  have batch: "e \<in> set batch \<Longrightarrow> ob_status e = Pending \<and> entry_of (rn_outbox m) (entry_id e) = Some e" for e
    using assms(3) lookup_member [OF dist] by (simp add: flush_batch_def entry_of_lookup)
  have none: "filter is_flush_call (rn_calls m) = []" using assms(1,2) by (simp add: run_wf_def flush_count_def)
  have "call_mem_ok ?m c" if "call_mem_ok m c" "\<not> is_flush_call c" for c
    using that batch by (auto simp: call_mem_ok_def flush_rest_def is_flush_call_def split: Continuation.splits)
  then have "list_all (call_mem_ok ?m) (rn_calls m)"
    using assms(1) none by (auto simp: run_wf_def list_all_iff filter_empty_conv)
  moreover have "list_all (rest_ok ?m) batch" using batch by (auto simp: list_all_iff rest_ok_def)
  moreover have "distinct (map entry_id batch)" using dist assms(3) by (simp add: flush_batch_def distinct_map_filter)
  ultimately show ?thesis
    using assms(1) none by (simp add: run_wf_def flush_rest_def flush_count_def filter_empty_conv)
qed

lemma method_step:
  assumes "run_wf m" "legal ev m"
  shows "run_wf (run_method deps ev m) \<and> sim m (run_method deps ev m) x"
proof -
  have dist: "ids_distinct (rn_outbox m)" using assms(1) by (simp add: run_wf_def)
  have wf_cong: "run_wf m' = run_wf m" if "rn_outbox m' = rn_outbox m" "rn_flush m' = rn_flush m" "rn_store m' = rn_store m"
    "rn_calls m' = rn_calls m" for m' using that by (intro run_wf_cong) simp_all
  show ?thesis
  proof (cases ev)
    case (EvEnqueue action h gsn)
    then show ?thesis using enqueue_step [OF assms(1)] assms(2) by (simp add: run_method_def legal_def enqueue_begin_def Let_def)
  next
    case (EvRetryConflicted i action h gsn)
    then show ?thesis
      using retryConflicted_step [OF assms(1), of action i] assms entry_with_entry_of [OF dist, of i Conflicted]
      by (auto simp: run_method_def legal_def retryConflicted_begin_def Let_def split: option.splits)
  next
    case (EvRetry i)
    then show ?thesis
      using retry_step [OF assms(1), of i] assms entry_with_entry_of [OF dist, of i OutboxError]
      by (auto simp: run_method_def legal_def retry_begin_def Let_def split: option.splits)
  next
    case (EvClearError i)
    then show ?thesis
      using delete_step [OF assms(1), of i] assms entry_with_entry_of [OF dist, of i OutboxError]
      by (auto simp: run_method_def legal_def clearError_begin_def Let_def)
  next
    case (EvClearConflict i)
    then show ?thesis
      using delete_step [OF assms(1), of i] assms entry_with_entry_of [OF dist, of i Conflicted]
      by (auto simp: run_method_def legal_def clearConflict_begin_def Let_def)
  next
    case (EvEcho action)
    then show ?thesis
      using delete_step [OF assms(1), of "act_id action"] assms
      by (auto simp: run_method_def legal_def matchEcho_begin_def Let_def find_entry_where [OF dist] split: option.splits)
  next
    case (EvDetect catchUpId actions mint)
    obtain hs where "run_method deps ev m = m\<lparr>rn_holds := hs\<rparr>"
      using EvDetect by (cases "groupLosers mint (detect_losers deps catchUpId actions (rn_outbox m))")
        (auto simp: run_method_def Let_def intro: that [of "rn_holds m"])
    then show ?thesis using assms(1) wf_cong [of "m\<lparr>rn_holds := hs\<rparr>"] by (simp add: sim_def)
  next
    case (EvHold h readEntity)
    show ?thesis
    proof (cases "rn_holds m")
      case Nil
      with EvHold assms(1) show ?thesis by (simp add: run_method_def Let_def)
    next
      case (Cons d ds)
      let ?i = "lo_id (hd_loser d)" and ?p = "conflict_payload (hd_loser d) (hd_conflictId d) (hd_catchUpId d) h readEntity"
      obtain ob r where mark: "markConflicted_begin ?i ?p (rn_outbox m) = (ob, r)" by fastforce
      show ?thesis
      proof (cases r)
        case None
        then have "ob = rn_outbox m" using mark by (auto simp: markConflicted_begin_def split: option.splits)
        then have "run_method deps ev m = (if holding m then m else m\<lparr>rn_holds := ds\<rparr>)"
          using EvHold Cons mark None by (simp add: run_method_def Let_def)
        then show ?thesis using assms(1) wf_cong [of "m\<lparr>rn_holds := ds\<rparr>"] by (simp add: sim_def)
      next
        case (Some e)
        show ?thesis
          using EvHold Cons mark Some assms hold_step [OF assms(1), of ?i ?p ob e "m\<lparr>rn_holds := ds, rn_outbox := ob\<rparr>" x]
          by (simp add: run_method_def legal_def Let_def)
      qed
    qed
  next
    case EvDetectEnd
    then have "run_method deps ev m = m\<lparr>rn_outbox := emit (rn_outbox m)\<rparr>" by (simp add: run_method_def Let_def)
    then show ?thesis using assms(1) run_wf_cong [of "m\<lparr>rn_outbox := emit (rn_outbox m)\<rparr>" m] by (simp add: sim_def view_of_def)
  next
    case EvFlush
    then show ?thesis
      using assms(1) flush_start_wf [OF assms(1)] wf_cong [of "m\<lparr>rn_outcomes := rn_outcomes m @ [Some FlushEmpty]\<rparr>"]
      by (simp add: run_method_def Let_def sim_def)
  qed (use assms(1) in \<open>simp_all add: run_method_def Let_def\<close>)
qed

section \<open>The invariant of a run\<close>

definition run_inv :: "OutboxRun \<Rightarrow> bool" where
  "run_inv m \<longleftrightarrow> run_wf m \<and>
     (if ox_loaded (rn_outbox m) then \<forall>x. x \<notin> set (rn_faulted m) \<longrightarrow> v_inv (view_of m x)
      else ox_entries (rn_outbox m) = [] \<and> rn_calls m = [] \<and> rn_flush m = FlushIdle \<and> (\<forall>e \<in> snd ` set (rn_store m). plain e))"

text \<open>A store the outbox wrote: one row per Action id, and a conflict only on a conflicted row.\<close>

definition store_ok :: "OutboxStoreState \<Rightarrow> bool" where
  "store_ok st \<longleftrightarrow> obj_ok st \<and> (\<forall>k e. map_of st k = Some e \<longrightarrow> k = entry_id e) \<and> (\<forall>e \<in> snd ` set st. plain e)"

lemma initial_inv: "store_ok st \<Longrightarrow> run_inv (initial_run st)"
  by (simp add: run_inv_def run_wf_def store_ok_def initial_run_def createOutbox_def ids_distinct_def other_ids_def
      flush_count_def flush_rest_def)

lemma list_rows:
  assumes "obj_ok st" "\<forall>k e. map_of st k = Some e \<longrightarrow> k = entry_id e"
  shows "distinct (map entry_id (outbox_list st))" "lookup (outbox_list st) x = map_of st x" "set (outbox_list st) = snd ` set st"
proof -
  have ids: "map entry_id (map snd st) = map fst st"
  proof -
    have "entry_id (snd kv) = fst kv" if "kv \<in> set st" for kv
    proof -
      have "map_of st (fst kv) = Some (snd kv)" using assms(1) that by (simp add: obj_ok_def)
      with assms(2) show ?thesis by simp
    qed
    then show ?thesis by simp
  qed
  have d: "distinct (map entry_id (map snd st))" unfolding ids using assms(1) by (simp add: obj_ok_def)
  have sorted: "outbox_list st = sort_key ob_enqueuedAtHlc (map snd st)" by (simp add: outbox_list_def sort_by_hlc_is_sort_key)
  then have "mset (outbox_list st) = mset (map snd st)" by simp
  then have "mset (map entry_id (outbox_list st)) = mset (map entry_id (map snd st))" by (metis mset_map)
  then show dl: "distinct (map entry_id (outbox_list st))" using d mset_eq_imp_distinct_iff by blast
  show s: "set (outbox_list st) = snd ` set st" by (simp add: sorted)
  show "lookup (outbox_list st) x = map_of st x"
  proof (cases "map_of st x")
    case None
    then have "x \<notin> entry_id ` set (outbox_list st)"
      unfolding s using ids by (metis list.set_map map_map map_of_eq_None_iff set_map)
    then show ?thesis by (simp add: None lookup_None)
  next
    case (Some e)
    then have "e \<in> set (outbox_list st)" "entry_id e = x" using assms(2) by (force simp: s dest: map_of_SomeD)+
    then show ?thesis using lookup_member [OF dl] Some by force
  qed
qed


lemma loaded_updates [simp]:
  "ox_loaded (drop_entry i st) = ox_loaded st" "ox_loaded (set_status i s st) = ox_loaded st"
  "ox_loaded (reportStoreFault st) = ox_loaded st" "ox_loaded (flush_finish ch st) = ox_loaded st"
  "ox_loaded (enqueue_stored e st) = ox_loaded st" "ox_loaded (retryConflicted_stored i e st) = ox_loaded st"
  by (simp_all add: drop_entry_def set_status_def reportStoreFault_def flush_finish_def enqueue_stored_def retryConflicted_stored_def)

lemma advance_frame [simp]:
  "ox_loaded (rn_outbox (advance_flush fr m)) = ox_loaded (rn_outbox m)" "rn_faulted (advance_flush fr m) = rn_faulted m"
  by (auto simp: advance_flush_def end_flush_def split: option.splits)

lemma resume_flush_put_frame [simp]:
  "ox_loaded (rn_outbox (resume_flush_put e fr m)) = ox_loaded (rn_outbox m)" "rn_faulted (resume_flush_put e fr m) = rn_faulted m"
  by (auto simp: resume_flush_put_def flush_stored_def split: option.splits)

lemma resume_frame:
  "ox_loaded (rn_outbox (resume_call c ok m)) = ox_loaded (rn_outbox m)" "set (rn_faulted m) \<subseteq> set (rn_faulted (resume_call c ok m))"
  by (auto simp: resume_call_def applied_def fault_def with_outbox_def end_flush_def retry_stored_def clearError_deleted_def
      clearConflict_deleted_def matchEcho_deleted_def markConflicted_failed_def split: Continuation.splits FlushState.splits)

lemma method_frame:
  "ox_loaded (rn_outbox (run_method deps ev m)) = ox_loaded (rn_outbox m)" "rn_faulted (run_method deps ev m) = rn_faulted m"
  by (auto simp: run_method_def Let_def markConflicted_begin_def split: event.splits option.splits list.splits)

lemma submitting_wf: "run_wf m \<Longrightarrow> rn_flush m = FlushSubmitting batch \<Longrightarrow> run_wf (m\<lparr>rn_flush := FlushSubmitting batch\<rparr>)"
  by (subst run_wf_cong [of _ m]) simp_all

lemma idle_wf: "run_wf m \<Longrightarrow> rn_flush m = FlushSubmitting batch \<Longrightarrow> run_wf (m\<lparr>rn_flush := FlushIdle, rn_outcomes := os\<rparr>)"
  using end_flush_wf [OF submitting_wf, where b = False and out = None]
  by (subst run_wf_cong [of _ "end_flush False None m"]) (simp_all add: end_flush_def flush_finish_def)

lemma resume_step:
  assumes "run_wf m" "rn_calls m = c # cs" "cl_done c = Some ok"
    and "x \<notin> set (rn_faulted (resume_call c ok (m\<lparr>rn_calls := cs\<rparr>)))"
  shows "run_wf (resume_call c ok (m\<lparr>rn_calls := cs\<rparr>)) \<and> (v_inv (view_of m x) \<longrightarrow> sim m (resume_call c ok (m\<lparr>rn_calls := cs\<rparr>)) x)"
proof (cases "is_flush_call c")
  case True
  then consider e where "cl_cont c = KFlushPut e" | "cl_cont c = KFlushFix"
    by (auto simp: is_flush_call_def split: Continuation.splits)
  then show ?thesis using resume_flush_write [OF assms(1-3)] resume_flush_repair [OF assms(1-3) _ assms(4)] by cases auto
next
  case False
  then show ?thesis using resume_other [OF assms(1-3) _ assms(4)] by simp
qed

text \<open>Every event keeps a run well-formed and moves each Action by a step of its protocol, once the load is there.\<close>

lemma event_step:
  assumes "run_wf m" "legal ev m" "ox_loaded (rn_outbox m)" "x \<notin> set (rn_faulted (run_step deps ev m))"
  shows "run_wf (run_step deps ev m) \<and> (v_inv (view_of m x) \<longrightarrow> sim m (run_step deps ev m) x)"
proof (cases ev)
  case (EvSubmitResult answer)
  show ?thesis
  proof (cases "rn_flush m")
    case (FlushSubmitting batch)
    note sub = submitting_wf [OF assms(1) FlushSubmitting]
    show ?thesis
      using EvSubmitResult FlushSubmitting assms(1) idle_wf [OF assms(1) FlushSubmitting] sub
        advance_flush_ok(1,2) [where m = m and fr = "\<lparr>fr_batch = batch, fr_rejected = the answer, fr_rest = batch, fr_changed = False\<rparr>"]
      by (cases answer) (simp_all add: run_step_def sim_def)
  qed (use EvSubmitResult assms(1) in \<open>simp_all add: run_step_def\<close>)
next
  case (EvLand ok)
  then show ?thesis using land_step [OF assms(1), of ok] by (auto simp: run_step_def split: prod.splits)
next
  case EvResume
  show ?thesis
  proof (cases "rn_calls m")
    case (Cons c cs)
    then show ?thesis using EvResume assms resume_step [OF assms(1) Cons]
      by (cases "cl_done c") (auto simp: run_step_def)
  qed (use EvResume assms(1) in \<open>simp add: run_step_def\<close>)
qed (use assms method_step [OF assms(1,2)] in \<open>simp_all add: run_step_def\<close>)

lemma step_frame:
  "set (rn_faulted m) \<subseteq> set (rn_faulted (run_step deps ev m))"
  "ox_loaded (rn_outbox m) \<Longrightarrow> ox_loaded (rn_outbox (run_step deps ev m))"
  using subsetD [OF resume_frame(2)] resume_frame(1) method_frame
  by (auto 0 3 simp: run_step_def with_outbox_def split: event.splits option.splits list.splits prod.splits FlushState.splits)

lemma load_view:
  assumes "run_wf m" "ox_entries (rn_outbox m) = []" "rn_calls m = []" "rn_flush m = FlushIdle" "\<forall>e \<in> snd ` set (rn_store m). plain e"
  shows "run_wf (with_outbox (rehydrate_loaded (outbox_list (rn_store m))) m)"
    "v_inv (view_of (with_outbox (rehydrate_loaded (outbox_list (rn_store m))) m) x)"
proof -
  let ?m = "with_outbox (rehydrate_loaded (outbox_list (rn_store m))) m"
  have st: "obj_ok (rn_store m)" "\<forall>k e. map_of (rn_store m) k = Some e \<longrightarrow> k = entry_id e"
    using assms(1) unfolding run_wf_def by blast+
  have twice: "sort_by (\<lambda>a b. compareHlc (ob_enqueuedAtHlc a) (ob_enqueuedAtHlc b)) (outbox_list st) = outbox_list st" for st
    by (simp add: outbox_list_def sort_by_hlc_is_sort_key sort_key_id_if_sorted)
  have es: "ox_entries (rn_outbox ?m) = outbox_list (rn_store m)" by (simp add: with_outbox_def rehydrate_loaded_def twice)
  show "run_wf ?m"
    using assms st list_rows [OF st] es
    by (simp add: run_wf_def ids_distinct_def with_outbox_def flush_rest_def flush_count_def)
  have mem: "entry_of (rn_outbox ?m) x = map_of (rn_store m) x" by (simp add: entry_of_lookup es list_rows [OF st])
  show "v_inv (view_of ?m x)"
    using assms(3,5) mem s_idle [of "map_of (rn_store m) x"]
    by (auto simp: v_inv_def view_of_def with_outbox_def dest!: map_of_SomeD intro: image_eqI [of _ snd] exI [of _ "map_of (rn_store m) x"])
qed

lemma step_inv:
  assumes "run_inv m" "legal ev m"
  shows "run_inv (run_step deps ev m)"
proof (cases "ox_loaded (rn_outbox m)")
  case True
  then have wf: "run_wf m" and v: "\<And>x. x \<notin> set (rn_faulted m) \<Longrightarrow> v_inv (view_of m x)" using assms(1) by (auto simp: run_inv_def)
  have "v_inv (view_of (run_step deps ev m) x)" if "x \<notin> set (rn_faulted (run_step deps ev m))" for x
  proof -
    have "v_inv (view_of m x)" using that step_frame(1) [of m deps ev] v by blast
    with event_step [OF wf assms(2) True that] show ?thesis by (auto simp: sim_def intro: v_step_inv)
  qed
  moreover obtain x where "x \<notin> set (rn_faulted (run_step deps ev m))" using ex_new_if_finite [OF infinite_UNIV_listI finite_set] by blast
  ultimately show ?thesis using event_step [OF wf assms(2) True] step_frame(2) [OF True] by (auto simp: run_inv_def)
next
  case False
  then have pre: "run_wf m" "ox_entries (rn_outbox m) = []" "rn_calls m = []" "rn_flush m = FlushIdle" "\<forall>e \<in> snd ` set (rn_store m). plain e"
    using assms(1) by (simp_all add: run_inv_def)
  show ?thesis
  proof (cases "ev = EvLoad True")
    case True
    with False have "run_step deps ev m = with_outbox (rehydrate_loaded (outbox_list (rn_store m))) m" by (simp add: run_step_def)
    moreover have "ox_loaded (rn_outbox (with_outbox (rehydrate_loaded es) m))" for es
      by (simp add: with_outbox_def rehydrate_loaded_def)
    ultimately show ?thesis using load_view [OF pre] by (simp add: run_inv_def)
  next
    case ev: False
    have "run_step deps ev m = m" using False pre ev
      by (auto simp: run_step_def with_outbox_def rehydrate_failed_def split: event.splits)
    with assms(1) show ?thesis by simp
  qed
qed

lemma run_events_inv: "run_inv m \<Longrightarrow> legal_run deps evs m \<Longrightarrow> run_inv (run_events deps evs m)"
  by (induction evs arbitrary: m) (simp_all add: step_inv)

section \<open>Memory and store\<close>

lemma memory_matches_store:
  assumes "store_ok st" "legal_run deps evs (initial_run st)"
    and m: "m = run_events deps evs (initial_run st)" "ox_loaded (rn_outbox m)"
    and "x \<notin> set (rn_faulted m)" "\<forall>c \<in> set (rn_calls m). x \<notin> set (op_ids (cl_op c))"
  shows "entry_of (rn_outbox m) x = outbox_get (rn_store m) x"
proof -
  have "v_inv (view_of m x)"
    using run_events_inv [OF initial_inv [OF assms(1)] assms(2)] m assms(5) by (auto simp: run_inv_def)
  moreover have "v_calls (view_of m x) = []" using assms(6) by (auto simp: view_of_def filter_empty_conv)
  ultimately obtain b where "v_store (view_of m x) = b" "shape (v_mem (view_of m x)) b []" by (auto simp: v_inv_def)
  then show ?thesis by (auto simp: view_of_def outbox_get_def elim: shape.cases)
qed


section \<open>Sample runs\<close>

definition sample_deps :: DetectDeps where
  "sample_deps = \<lparr>dd_conflictScope = (\<lambda>_. FieldScope), dd_isLwwField = None, dd_preSyncRow = (\<lambda>_ _. None)\<rparr>"

definition sample_write :: "string \<Rightarrow> string \<Rightarrow> int \<Rightarrow> Action" where
  "sample_write i body gsn = \<lparr>act_id = i, actor_id = ''a_al'', act_hlc = 5, act_gsn = gsn, act_updates =
     [\<lparr>upd_id = ''u_1'', subject_id = ''e_1'', subject_type = ''note'', upd_method = Patch,
       upd_data = Some [(''title'', Leaf (JStr body) ''u_1'' (Some 5))]\<rparr>]\<rparr>"

text \<open>A write is buffered and flushed; its echo arrives while the flush is still writing its new status.\<close>

definition sample_events :: "event list" where
  "sample_events = [EvLoad True, EvEnqueue (sample_write ''a_1'' ''x'' 0) 5 0, EvLand True, EvResume, EvFlush,
     EvSubmitResult (Some []), EvEcho (sample_write ''a_1'' ''x'' 7), EvEnqueue (sample_write ''a_2'' ''y'' 0) 6 7,
     EvLand True, EvLand True, EvResume, EvResume, EvLand True, EvResume]"

lemma sample_events_legal: "legal_run sample_deps sample_events (initial_run [])"
  by code_simp

lemma empty_store_ok: "store_ok []"
  by (simp add: store_ok_def obj_ok_def)



section \<open>What happens to a buffered Action\<close>

lemma advance_entry [simp]:
  "entry_of (rn_outbox (advance_flush fr m)) x = entry_of (rn_outbox m) x" "rn_submitted (advance_flush fr m) = rn_submitted m"
  by (auto simp: advance_flush_def end_flush_def split: option.splits)

lemma advance_calls: "c \<in> set (rn_calls (advance_flush fr m)) \<Longrightarrow> c \<in> set (rn_calls m) \<or> is_flush_call c"
  by (auto simp: advance_flush_def end_flush_def calls_issue is_flush_call_def split: option.splits)

lemma resume_entry:
  "entry_of (rn_outbox (resume_call c ok m)) x =
    (let v = entry_of (rn_outbox m) x; added = (\<lambda>e v. case v of Some w \<Rightarrow> Some w | None \<Rightarrow> if entry_id e = x then Some e else None)
     in if \<not> ok then v else case cl_cont c of
       KEnqueue e \<Rightarrow> added e v
     | KRetryConflicted i e \<Rightarrow> added e (if x = i then None else v)
     | KRetry i \<Rightarrow> if x = i then map_option (\<lambda>e. e\<lparr>ob_status := Pending\<rparr>) v else v
     | KClearError i \<Rightarrow> if x = i then None else v
     | KClearConflict i \<Rightarrow> if x = i then None else v
     | KEcho i \<Rightarrow> if x = i then None else v
     | KFlushPut e \<Rightarrow> (case rn_flush m of
         FlushCommitting fr \<Rightarrow> map_option (\<lambda>w. if x = entry_id e \<and> ob_status w = Pending
           then w\<lparr>ob_status := statusFor (fr_rejected fr) e\<rparr> else w) v
       | _ \<Rightarrow> v)
     | _ \<Rightarrow> v)"
  by (auto simp: Let_def resume_call_def with_outbox_def applied_def fault_def end_flush_def retry_stored_def clearError_deleted_def
      clearConflict_deleted_def matchEcho_deleted_def markConflicted_failed_def resume_flush_put_def flush_stored_def option.map_ident
      split: Continuation.splits FlushState.splits option.splits)

lemma resume_calls:
  "d \<in> set (rn_calls (resume_call c ok m)) \<Longrightarrow> d \<in> set (rn_calls m) \<or> is_flush_call d"
  "rn_submitted (resume_call c ok m) = rn_submitted m"
  by (auto simp: resume_call_def with_outbox_def applied_def fault_def end_flush_def resume_flush_put_def flush_stored_def
      calls_issue is_flush_call_def dest!: advance_calls split: Continuation.splits FlushState.splits option.splits if_splits)

text \<open>The requests that take an Action out of the buffer, and the events that issue them.\<close>

definition removes :: "string \<Rightarrow> Call \<Rightarrow> bool" where
  "removes x c = (case cl_cont c of KRetryConflicted i _ \<Rightarrow> i = x | KClearError i \<Rightarrow> i = x | KClearConflict i \<Rightarrow> i = x | KEcho i \<Rightarrow> i = x | _ \<Rightarrow> False)"

definition asks_removal :: "string \<Rightarrow> event \<Rightarrow> bool" where
  "asks_removal x ev = (case ev of
     EvEcho action \<Rightarrow> act_id action = x \<and> act_gsn action > 0
   | EvClearError i \<Rightarrow> i = x | EvClearConflict i \<Rightarrow> i = x | EvRetryConflicted i _ _ _ \<Rightarrow> i = x | _ \<Rightarrow> False)"

lemma flush_call_not_removes: "is_flush_call c \<Longrightarrow> \<not> removes x c"
  by (simp add: is_flush_call_def removes_def split: Continuation.splits)

definition new_id :: "event \<Rightarrow> string option" where
  "new_id ev = (case ev of EvEnqueue action _ _ \<Rightarrow> Some (act_id action) | EvRetryConflicted _ action _ _ \<Rightarrow> Some (act_id action) | _ \<Rightarrow> None)"

lemma method_calls:
  assumes "d \<in> set (rn_calls (run_method deps ev m))" "d \<notin> set (rn_calls m)"
  shows "removes x d \<Longrightarrow> asks_removal x ev"
    "x \<in> set (mem_ids d) \<Longrightarrow> new_id ev = Some x \<or> ev = EvRetry x \<and> entry_with (rn_outbox m) x OutboxError \<noteq> None"
  using assms
  by (auto simp: run_method_def Let_def calls_issue removes_def asks_removal_def mem_ids_def new_id_def enqueue_begin_def
      retryConflicted_begin_def retry_begin_def matchEcho_begin_def fresh_entry_def
      split: event.splits option.splits list.splits prod.splits if_splits)

lemma method_entry:
  "entry_of (rn_outbox (run_method deps ev m)) x = entry_of (rn_outbox m) x \<or>
   (\<exists>e p. entry_of (rn_outbox m) x = Some e \<and>
      entry_of (rn_outbox (run_method deps ev m)) x = Some (e\<lparr>ob_status := Conflicted, ob_conflict := Some p\<rparr>))"
proof (cases ev)
  case (EvHold h readEntity)
  show ?thesis
  proof (cases "rn_holds m")
    case (Cons d ds)
    let ?i = "lo_id (hd_loser d)" and ?p = "conflict_payload (hd_loser d) (hd_conflictId d) (hd_catchUpId d) h readEntity"
    obtain ob r where mark: "markConflicted_begin ?i ?p (rn_outbox m) = (ob, r)" by fastforce
    have "rn_outbox (run_method deps ev m) = (if holding m then rn_outbox m else ob)"
      using EvHold Cons mark by (cases r) (simp_all add: run_method_def Let_def)
    then show ?thesis using entry_of_mark(1) [OF mark, of x] entry_of_mark(3) [OF mark] by (cases "x = ?i"; cases "entry_of (rn_outbox m) ?i") auto
  qed (use EvHold in \<open>simp add: run_method_def Let_def\<close>)
qed (auto simp: run_method_def Let_def split: option.splits)

lemma method_submitted:
  "rn_submitted (run_method deps ev m) = rn_submitted m \<or>
   rn_submitted (run_method deps ev m) = rn_submitted m @ [flush_batch (rn_outbox m)]"
  by (auto simp: run_method_def Let_def split: event.splits option.splits list.splits prod.splits)

definition kept :: "string \<Rightarrow> OutboxEntry \<Rightarrow> OutboxRun \<Rightarrow> bool" where
  "kept x e m \<longleftrightarrow> ox_loaded (rn_outbox m) \<and> (\<forall>c \<in> set (rn_calls m). \<not> removes x c) \<and>
     (\<exists>e'. entry_of (rn_outbox m) x = Some e' \<and> ob_action e' = ob_action e \<and> ob_enqueuedAtHlc e' = ob_enqueuedAtHlc e \<and>
        ob_basedOnGsn e' = ob_basedOnGsn e)"

lemma kept_resume:
  assumes "kept x e m" "rn_calls m = c # cs"
  shows "kept x e (resume_call c ok (m\<lparr>rn_calls := cs\<rparr>))"
proof -
  let ?m = "resume_call c ok (m\<lparr>rn_calls := cs\<rparr>)"
  have c: "\<not> removes x c" and cs: "\<forall>d \<in> set cs. \<not> removes x d" using assms by (auto simp: kept_def)
  obtain e' where e': "entry_of (rn_outbox m) x = Some e'" "ob_action e' = ob_action e" "ob_enqueuedAtHlc e' = ob_enqueuedAtHlc e"
    "ob_basedOnGsn e' = ob_basedOnGsn e" using assms(1) by (auto simp: kept_def)
  have "\<not> removes x d" if "d \<in> set (rn_calls ?m)" for d
    using resume_calls(1) [OF that] cs flush_call_not_removes by auto
  moreover have "\<exists>e''. entry_of (rn_outbox ?m) x = Some e'' \<and> ob_action e'' = ob_action e' \<and>
      ob_enqueuedAtHlc e'' = ob_enqueuedAtHlc e' \<and> ob_basedOnGsn e'' = ob_basedOnGsn e'"
    using c e'(1) unfolding resume_entry by (cases "cl_cont c") (auto simp: Let_def removes_def split: FlushState.splits)
  ultimately show ?thesis using assms(1) e' by (auto simp: kept_def resume_frame(1))
qed

lemma kept_step:
  assumes "kept x e m" "\<not> asks_removal x ev"
  shows "kept x e (run_step deps ev m)"
proof -
  have loaded: "ox_loaded (rn_outbox m)" using assms(1) by (simp add: kept_def)
  have meth: "kept x e (run_method deps ev m)"
    using assms method_frame(1) [of deps ev m] method_calls(1) [where deps = deps and ev = ev and m = m and x = x] method_entry [where deps = deps and ev = ev and m = m and x = x]
    by (fastforce simp: kept_def)
  show ?thesis
  proof (cases ev)
    case (EvSubmitResult answer)
    then show ?thesis using assms(1) advance_calls flush_call_not_removes
      by (auto simp: run_step_def kept_def split: FlushState.splits option.splits) blast+
  next
    case (EvLand ok)
    obtain cs st where land: "land_first ok (rn_calls m) (rn_store m) = (cs, st)" by fastforce
    have "map (removes x) cs = map (removes x) (rn_calls m)"
      using land_first_calls [OF land] by (auto simp: removes_def list_eq_iff_nth_eq)
    then have "removes x ` set cs = removes x ` set (rn_calls m)" by (metis list.set_map)
    with assms(1) EvLand land show ?thesis by (auto simp: run_step_def kept_def)
  next
    case EvResume
    then show ?thesis using assms(1) kept_resume [OF assms(1)]
      by (auto simp: run_step_def split: list.splits option.splits)
  qed (use assms(1) meth loaded in \<open>simp_all add: run_step_def\<close>)
qed

text \<open>
  C7: a buffered write is never dropped on its own. Once an Action is in the loaded buffer with no removal in
  flight, it stays there, with its content, its place and its base, through every flush, fault and race,
  until its own echo with a server sequence arrives or the application clears or resolves it.
\<close>

theorem buffered_write_kept:
  assumes "ox_loaded (rn_outbox m)" "entry_of (rn_outbox m) x = Some e" "\<forall>c \<in> set (rn_calls m). \<not> removes x c"
    "\<forall>ev \<in> set evs. \<not> asks_removal x ev"
  shows "\<exists>e'. entry_of (rn_outbox (run_events deps evs m)) x = Some e' \<and> ob_action e' = ob_action e \<and>
    ob_enqueuedAtHlc e' = ob_enqueuedAtHlc e \<and> ob_basedOnGsn e' = ob_basedOnGsn e"
proof -
  have "kept x e m" using assms(1-3) by (simp add: kept_def)
  then have "kept x e (run_events deps evs m)" using assms(4) by (induction evs arbitrary: m) (simp_all add: kept_step)
  then show ?thesis by (simp add: kept_def)
qed

text \<open>The run up to the flush that submits the write, and a run that goes on with faults and a second write.\<close>

definition sample_prefix :: "event list" where
  "sample_prefix = [EvLoad True, EvEnqueue (sample_write ''a_1'' ''x'' 0) 5 0, EvLand True, EvResume]"

definition sample_rest :: "event list" where
  "sample_rest = [EvFlush, EvSubmitResult (Some []), EvLand True, EvResume, EvEnqueue (sample_write ''a_2'' ''y'' 0) 6 7,
     EvFlush, EvLand True, EvResume, EvFlush, EvSubmitResult None]"

theorem buffered_write_kept_witness:
  "let m = run_events sample_deps sample_prefix (initial_run []) in
   \<exists>e'. entry_of (rn_outbox (run_events sample_deps sample_rest m)) ''a_1'' = Some e' \<and> ob_action e' = sample_write ''a_1'' ''x'' 0 \<and>
     ob_enqueuedAtHlc e' = 5 \<and> ob_basedOnGsn e' = 0"
proof -
  let ?m = "run_events sample_deps sample_prefix (initial_run [])"
  have "ox_loaded (rn_outbox ?m)" "entry_of (rn_outbox ?m) ''a_1'' = Some (enqueue_begin (sample_write ''a_1'' ''x'' 0) 5 0)"
    "\<forall>c \<in> set (rn_calls ?m). \<not> removes ''a_1'' c" "\<forall>ev \<in> set sample_rest. \<not> asks_removal ''a_1'' ev"
    by code_simp+
  from buffered_write_kept [OF this, of sample_deps] show ?thesis by (simp add: Let_def enqueue_begin_def fresh_entry_def)
qed

end
