(* ===== verification/OutboxClaims.thy ===== *)
theory OutboxClaims
  imports OutboxProps "HOL-Library.Sublist"
begin

text \<open>
  Further guarantees of the outbox over whole runs: settled Actions stay off the wire, a reload restores
  the buffer in authoring order, and two overlapping operations on one Action can part memory from store.
\<close>

section \<open>Settled Actions stay off the wire\<close>

definition settled_at :: "string \<Rightarrow> OutboxRun \<Rightarrow> bool" where
  "settled_at x m \<longleftrightarrow> (\<forall>c \<in> set (rn_calls m). x \<notin> set (mem_ids c)) \<and>
     (\<forall>e. entry_of (rn_outbox m) x = Some e \<longrightarrow> ob_status e \<in> {Acknowledged, Conflicted})"

lemma flush_call_mem_ids: "is_flush_call c \<Longrightarrow> mem_ids c = []"
  by (simp add: is_flush_call_def mem_ids_def split: Continuation.splits)

lemma settled_resume:
  assumes "settled_at x m" "rn_calls m = c # cs"
  shows "settled_at x (resume_call c ok (m\<lparr>rn_calls := cs\<rparr>))"
proof -
  let ?m = "resume_call c ok (m\<lparr>rn_calls := cs\<rparr>)"
  have c: "x \<notin> set (mem_ids c)" and cs: "\<forall>d \<in> set cs. x \<notin> set (mem_ids d)" using assms by (auto simp: settled_at_def)
  have "x \<notin> set (mem_ids d)" if "d \<in> set (rn_calls ?m)" for d
    using resume_calls(1) [OF that] cs flush_call_mem_ids by auto
  moreover have "\<forall>e. entry_of (rn_outbox ?m) x = Some e \<longrightarrow> ob_status e \<in> {Acknowledged, Conflicted}"
    using c assms(1) unfolding resume_entry
    by (cases "cl_cont c"; cases "entry_of (rn_outbox m) x") (auto simp: Let_def mem_ids_def settled_at_def split: FlushState.splits if_splits)
  ultimately show ?thesis by (simp add: settled_at_def)
qed

lemma settled_method:
  assumes "settled_at x m" "ids_distinct (rn_outbox m)" "new_id ev \<noteq> Some x"
  shows "settled_at x (run_method deps ev m)"
proof -
  have "entry_with (rn_outbox m) x OutboxError = None"
    using assms(1,2) by (auto simp: settled_at_def find_entry_where split: option.splits)
  then have "x \<notin> set (mem_ids d)" if "d \<in> set (rn_calls (run_method deps ev m))" for d
    using that method_calls(2) [where deps = deps and ev = ev and m = m and x = x and d = d] assms by (auto simp: settled_at_def)
  then show ?thesis
    using assms(1) method_entry [where deps = deps and ev = ev and m = m and x = x] by (auto simp: settled_at_def)
qed

lemma settled_batch: "settled_at x m \<Longrightarrow> ids_distinct (rn_outbox m) \<Longrightarrow> x \<notin> entry_id ` set (flush_batch (rn_outbox m))"
  using lookup_member by (fastforce simp: settled_at_def flush_batch_def ids_distinct_def entry_of_lookup)

lemma settled_step:
  assumes "settled_at x m" "run_inv m" "ox_loaded (rn_outbox m)" "new_id ev \<noteq> Some x"
  shows "settled_at x (run_step deps ev m)"
    "\<exists>B. rn_submitted (run_step deps ev m) = rn_submitted m @ B \<and> (\<forall>b \<in> set B. x \<notin> entry_id ` set b)"
proof -
  have dist: "ids_distinct (rn_outbox m)" using assms(2) by (simp add: run_inv_def run_wf_def)
  have land: "(\<forall>c \<in> set cs. x \<notin> set (mem_ids c)) \<longleftrightarrow> (\<forall>c \<in> set (rn_calls m). x \<notin> set (mem_ids c))" if "land_first ok (rn_calls m) (rn_store m) = (cs, st)" for ok cs st
  proof -
    have "map mem_ids cs = map mem_ids (rn_calls m)"
      using land_first_calls [OF that] by (auto simp: mem_ids_def list_eq_iff_nth_eq)
    then have "list_all (\<lambda>ids. x \<notin> set ids) (map mem_ids cs) = list_all (\<lambda>ids. x \<notin> set ids) (map mem_ids (rn_calls m))" by simp
    then show ?thesis by (simp add: list_all_iff)
  qed
  have adv: "settled_at x (advance_flush fr m)" for fr
    using assms(1) advance_calls [of _ fr m] flush_call_mem_ids by (fastforce simp: settled_at_def)
  show "settled_at x (run_step deps ev m)"
  proof (cases ev)
    case (EvSubmitResult answer)
    then show ?thesis using assms(1) adv by (auto simp: run_step_def settled_at_def split: FlushState.splits option.splits)
  next
    case (EvLand ok)
    obtain cs st where l: "land_first ok (rn_calls m) (rn_store m) = (cs, st)" by fastforce
    then show ?thesis using EvLand assms(1) land [OF l] by (auto simp: run_step_def settled_at_def)
  next
    case EvResume
    then show ?thesis using assms(1) settled_resume [OF assms(1)]
      by (auto simp: run_step_def split: list.splits option.splits)
  qed (use assms settled_method [OF assms(1) dist assms(4)] in \<open>simp_all add: run_step_def\<close>)
  show "\<exists>B. rn_submitted (run_step deps ev m) = rn_submitted m @ B \<and> (\<forall>b \<in> set B. x \<notin> entry_id ` set b)"
    using method_submitted [of deps ev m] settled_batch [OF assms(1) dist] assms(3)
    by (cases ev) (auto simp: run_step_def resume_calls(2) with_outbox_def split: FlushState.splits option.splits list.splits prod.splits)
qed



section \<open>Reload\<close>

definition hlcs :: "OutboxRun \<Rightarrow> hlc list" where
  "hlcs m = map ob_enqueuedAtHlc (ox_entries (rn_outbox m)) @ call_hlcs (rn_calls m)"

lemma sorted_wrt_subseq: "subseq xs ys \<Longrightarrow> sorted_wrt P ys \<Longrightarrow> sorted_wrt P xs"
proof (induction xs ys rule: list_emb.induct)
  case (list_emb_Cons2 x y xs ys)
  then show ?case by (auto dest: list_emb_set)
qed auto

lemma map_hlc [simp]:
  "map ob_enqueuedAtHlc (ox_entries (set_status i s st)) = map ob_enqueuedAtHlc (ox_entries st)"
  "map ob_enqueuedAtHlc (ox_entries (reportStoreFault st)) = map ob_enqueuedAtHlc (ox_entries st)"
  "map ob_enqueuedAtHlc (ox_entries (flush_finish ch st)) = map ob_enqueuedAtHlc (ox_entries st)"
  "map ob_enqueuedAtHlc (ox_entries (fst (markConflicted_begin i p st))) = map ob_enqueuedAtHlc (ox_entries st)"
  by (auto simp: set_status_def reportStoreFault_def flush_finish_def markConflicted_begin_def split: option.splits)

lemma call_hlcs_append [simp]: "call_hlcs (cs @ ds) = call_hlcs cs @ call_hlcs ds"
  by (simp add: call_hlcs_def List.map_filter_def)

lemma call_hlcs_Cons: "call_hlcs (c # cs) = (case cl_cont c of
     KEnqueue e \<Rightarrow> [ob_enqueuedAtHlc e] | KRetryConflicted _ e \<Rightarrow> [ob_enqueuedAtHlc e] | _ \<Rightarrow> []) @ call_hlcs cs"
  by (simp add: call_hlcs_def List.map_filter_simps split: Continuation.splits)

lemma call_hlcs_Nil [simp]: "call_hlcs [] = []"
  by (simp add: call_hlcs_def List.map_filter_simps)

lemma hlcs_advance [simp]: "hlcs (advance_flush fr m) = hlcs m"
  by (auto simp: hlcs_def advance_flush_def end_flush_def calls_issue call_hlcs_Cons split: option.splits)

lemma hlcs_flush_put [simp]: "hlcs (resume_flush_put e fr m) = hlcs m"
proof -
  have "hlcs (m\<lparr>rn_outbox := set_status i s (rn_outbox m)\<rparr>) = hlcs m" for i s by (simp add: hlcs_def)
  then show ?thesis
    by (auto simp: resume_flush_put_def flush_stored_def split: option.splits) (simp_all add: hlcs_def calls_issue call_hlcs_Cons)
qed

lemma hlcs_resume:
  assumes "rn_calls m = c # cs"
  shows "subseq (hlcs (resume_call c ok (m\<lparr>rn_calls := cs\<rparr>))) (hlcs m)"
proof -
  have drop: "subseq (map ob_enqueuedAtHlc (ox_entries (drop_entry i st))) (map ob_enqueuedAtHlc (ox_entries st))" for i st
    by (simp add: drop_entry_def subseq_map)
  have pop: "subseq (hlcs (m\<lparr>rn_calls := cs\<rparr>)) (hlcs m)" by (simp add: hlcs_def assms call_hlcs_Cons subseq_append' list_emb_append2)
  show ?thesis
  proof (cases "is_flush_call c")
    case True
    then have "hlcs (resume_call c ok (m\<lparr>rn_calls := cs\<rparr>)) = hlcs (m\<lparr>rn_calls := cs\<rparr>)"
      by (auto simp: resume_call_def is_flush_call_def split: Continuation.splits FlushState.splits)
        (simp_all add: hlcs_def end_flush_def fault_def)
    with pop show ?thesis by simp
  next
    case False
    with pop drop assms show ?thesis
      by (cases "cl_cont c"; cases ok)
        (auto simp: hlcs_def resume_call_def with_outbox_def applied_def fault_def call_hlcs_Cons enqueue_stored_def is_flush_call_def
          retryConflicted_stored_def retry_stored_def clearError_deleted_def clearConflict_deleted_def matchEcho_deleted_def
          markConflicted_failed_def list_emb_append_mono subseq_map)
  qed
qed

lemma hlcs_method:
  assumes "legal ev m"
  shows "hlcs (run_method deps ev m) = hlcs m \<or> (\<exists>h. ahead m h \<and> hlcs (run_method deps ev m) = hlcs m @ [h])"
proof (cases ev)
  case (EvHold h readEntity)
  have "map ob_enqueuedAtHlc (ox_entries ob) = map ob_enqueuedAtHlc (ox_entries st)" if "markConflicted_begin i p st = (ob, r)" for i p st ob r
    using map_hlc(4) [of i p st] that by simp
  then show ?thesis using EvHold
    by (auto simp: run_method_def Let_def hlcs_def calls_issue call_hlcs_Cons split: list.splits prod.splits option.splits)
qed (use assms in \<open>auto simp: run_method_def Let_def hlcs_def calls_issue call_hlcs_Cons legal_def enqueue_begin_def
    retryConflicted_begin_def fresh_entry_def split: option.splits\<close>)

text \<open>Entries in memory, and those being written, stand in strictly ascending authoring order.\<close>

definition order_inv :: "OutboxRun \<Rightarrow> bool" where
  "order_inv m \<longleftrightarrow> (if ox_loaded (rn_outbox m) then sorted_wrt (<) (hlcs m) else distinct (map (ob_enqueuedAtHlc \<circ> snd) (rn_store m)))"

lemma order_step:
  assumes "order_inv m" "run_inv m" "legal ev m"
  shows "order_inv (run_step deps ev m)"
proof (cases "ox_loaded (rn_outbox m)")
  case True
  then have s: "sorted_wrt (<) (hlcs m)" using assms(1) by (simp add: order_inv_def)
  have "subseq (hlcs (run_step deps ev m)) (hlcs m) \<or> (\<exists>h. ahead m h \<and> hlcs (run_step deps ev m) = hlcs m @ [h])"
  proof (cases ev)
    case (EvSubmitResult answer)
    then show ?thesis by (auto simp: run_step_def split: FlushState.splits option.splits) (simp_all add: hlcs_def)
  next
    case (EvLand ok)
    obtain cs st where l: "land_first ok (rn_calls m) (rn_store m) = (cs, st)" by fastforce
    then show ?thesis using EvLand calls_cong(6) [OF conjunct1 [OF land_first_calls [OF l]]] by (simp add: run_step_def hlcs_def)
  next
    case EvResume
    then show ?thesis using hlcs_resume [of m] by (auto simp: run_step_def split: list.splits option.splits)
  qed (use True hlcs_method [OF assms(3), of deps] in \<open>auto simp: run_step_def\<close>)
  then have "sorted_wrt (<) (hlcs (run_step deps ev m))"
  proof (elim disjE exE conjE)
    fix h
    assume "ahead m h" "hlcs (run_step deps ev m) = hlcs m @ [h]"
    moreover have "\<forall>h' \<in> set (hlcs m). h' < h" using \<open>ahead m h\<close> by (auto simp: ahead_def hlcs_def)
    ultimately show ?thesis using s by (simp add: sorted_wrt_append)
  qed (use s sorted_wrt_subseq in blast)
  then show ?thesis using step_frame(2) [OF True] by (simp add: order_inv_def)
next
  case False
  then have pre: "rn_calls m = []" "distinct (map (ob_enqueuedAtHlc \<circ> snd) (rn_store m))" "ox_entries (rn_outbox m) = []"
    "rn_flush m = FlushIdle"
    using assms(1,2) by (simp_all add: order_inv_def run_inv_def)
  have "sorted_wrt (<) (map ob_enqueuedAtHlc (outbox_list (rn_store m)))"
  proof -
    have "mset (map ob_enqueuedAtHlc (outbox_list (rn_store m))) = mset (map (ob_enqueuedAtHlc \<circ> snd) (rn_store m))"
      by (simp add: outbox_list_def sort_by_hlc_is_sort_key multiset.map_comp)
    then have "distinct (map ob_enqueuedAtHlc (outbox_list (rn_store m)))" using pre(2) mset_eq_imp_distinct_iff by blast
    then show ?thesis by (simp add: strict_sorted_iff outbox_list_def sort_by_hlc_is_sort_key)
  qed
  moreover have "rn_store (with_outbox f m) = rn_store m" "rn_calls (with_outbox f m) = rn_calls m" for f by (simp_all add: with_outbox_def)
  ultimately show ?thesis
    using False pre assms(1)
    by (cases ev) (auto simp: run_step_def order_inv_def hlcs_def with_outbox_def rehydrate_loaded_def rehydrate_failed_def
        outbox_list_def sort_by_hlc_is_sort_key sort_key_id_if_sorted)
qed





section \<open>Overlapping operations on one Action\<close>

text \<open>
  Two overlapping operations on one Action can part memory from store. The echo of a write and a
  catch-up that finds the same write losing run at once: the deletion of the echo is in flight when the
  conflict is recorded, so memory forgets the entry although it was held, while the store keeps the
  conflicted row, which a reload brings back. No write has failed.
\<close>

theorem overlapping_operations_diverge:
  "let evs = [EvLoad True, EvEnqueue (sample_write ''a_1'' ''x'' 0) 5 0, EvLand True, EvResume,
         EvDetect ''c_1'' [sample_write ''a_9'' ''z'' 8] (\<lambda>n. ''k''), EvEcho (sample_write ''a_1'' ''x'' 9), EvHold 6 (\<lambda>_. None),
         EvLand True, EvLand True, EvResume, EvResume];
       m = run_events sample_deps evs (initial_run [])
   in rn_calls m = [] \<and> rn_faulted m = [] \<and> entry_of (rn_outbox m) ''a_1'' = None \<and>
      map_option ob_status (outbox_get (rn_store m) ''a_1'') = Some Conflicted"
  by code_simp


end
