(* ===== verification/FlushScheduler.thy ===== *)
theory FlushScheduler
  imports Outbox
begin

text \<open>
  The policy that decides when the outbox flushes (packages/client/src/sync/flush-scheduler.ts and
  backoff.ts). Each method and each callback runs without interruption, so each is one step of a machine.

  The calls of \<^verbatim>\<open>schedule\<close> and \<^verbatim>\<open>flushNow\<close>, and the marker \<^verbatim>\<open>release\<close> registers, are callers numbered in the
  order they come; \<open>fs_settled\<close> lists what each caller's promise settled with. The timer is the delay it was
  armed with: what it runs is always \<^verbatim>\<open>runFlush\<close>. \<open>fs_flushes\<close> counts the calls of the outbox's \<^verbatim>\<open>flush\<close>. The
  environment decides when a timer fires, how the flush in flight settles, what the clock reads and how
  many entries are pending then. Times are integers in milliseconds.
\<close>

section \<open>State\<close>

record FlushConfig =
  fc_debounceMs :: int
  fc_initialMs :: int
  fc_maxMs :: int

definition defaultConfig :: FlushConfig where
  "defaultConfig = \<lparr>fc_debounceMs = 10, fc_initialMs = 1000, fc_maxMs = 60000\<rparr>"

datatype settlement = Resolved FlushOutcome | RejectedWith string

record Flight =
  fl_startedAt :: int
  fl_batch :: "nat list"
  fl_sharers :: "nat list"

record FlushScheduler =
  fs_stopped :: bool
  fs_ready :: bool
  fs_timer :: "int option"
  fs_inFlight :: "Flight option"
  fs_waiters :: "nat list"
  fs_attempt :: nat
  fs_lastUnreachable :: "string option"
  fs_latency :: "int option"
  fs_next :: nat
  fs_settled :: "(nat \<times> settlement) list"
  fs_flushes :: nat

definition createFlushScheduler :: FlushScheduler where
  "createFlushScheduler = \<lparr>fs_stopped = False, fs_ready = True, fs_timer = None, fs_inFlight = None, fs_waiters = [],
     fs_attempt = 0, fs_lastUnreachable = None, fs_latency = None, fs_next = 0, fs_settled = [], fs_flushes = 0\<rparr>"

section \<open>Operations\<close>

definition backoffDelayMs :: "nat \<Rightarrow> int \<Rightarrow> int \<Rightarrow> int" where
  "backoffDelayMs attempt initialMs maxMs = min maxMs (initialMs * 2 ^ attempt)"

definition clearTimer :: "FlushScheduler \<Rightarrow> FlushScheduler" where
  "clearTimer s = s\<lparr>fs_timer := None\<rparr>"

definition retryDelayMs :: "FlushConfig \<Rightarrow> FlushScheduler \<Rightarrow> int" where
  "retryDelayMs c s = backoffDelayMs (fs_attempt s) (fc_initialMs c) (fc_maxMs c)"

definition settle_all :: "nat list \<Rightarrow> settlement \<Rightarrow> FlushScheduler \<Rightarrow> FlushScheduler" where
  "settle_all ws r s = s\<lparr>fs_settled := fs_settled s @ map (\<lambda>w. (w, r)) ws\<rparr>"

text \<open>A caller whose promise is settled at once, and one that waits for the next flush to start.\<close>

definition answer :: "FlushOutcome \<Rightarrow> FlushScheduler \<Rightarrow> FlushScheduler" where
  "answer outcome s = settle_all [fs_next s] (Resolved outcome) (s\<lparr>fs_next := fs_next s + 1\<rparr>)"

definition enqueueWaiter :: "FlushScheduler \<Rightarrow> FlushScheduler" where
  "enqueueWaiter s = s\<lparr>fs_waiters := fs_waiters s @ [fs_next s], fs_next := fs_next s + 1\<rparr>"

definition stoppedOutcome :: FlushOutcome where
  "stoppedOutcome = FlushUnreachable ''flush scheduler stopped''"

definition deferredOutcome :: "string \<Rightarrow> FlushOutcome" where
  "deferredOutcome failed = FlushUnreachable (''flush retry already scheduled: '' @ failed)"

definition gatedOutcome :: FlushOutcome where
  "gatedOutcome = FlushUnreachable ''flush held until the catch-up checkpoint''"

definition afterSettled :: "FlushConfig \<Rightarrow> FlushOutcome \<Rightarrow> nat \<Rightarrow> FlushScheduler \<Rightarrow> FlushScheduler" where
  "afterSettled c outcome pending s =
     (let idle = (\<lambda>s. let s = s\<lparr>fs_attempt := 0, fs_lastUnreachable := None\<rparr>
                      in if fs_waiters s \<noteq> [] then s\<lparr>fs_timer := Some (fc_debounceMs c)\<rparr> else s)
      in if fs_stopped s then s
         else if \<not> fs_ready s then s
         else (case outcome of
             FlushUnreachable error \<Rightarrow>
               if pending > 0
               then s\<lparr>fs_lastUnreachable := Some error, fs_attempt := fs_attempt s + 1, fs_timer := Some (retryDelayMs c s)\<rparr>
               else idle s
           | _ \<Rightarrow> idle s))"

definition runFlush :: "int \<Rightarrow> FlushScheduler \<Rightarrow> FlushScheduler" where
  "runFlush now s =
     (let s = clearTimer s
      in if fs_stopped s \<or> fs_inFlight s \<noteq> None then s
         else s\<lparr>fs_inFlight := Some \<lparr>fl_startedAt = now, fl_batch = fs_waiters s, fl_sharers = []\<rparr>,
                fs_waiters := [], fs_flushes := fs_flushes s + 1\<rparr>)"

definition flush_resolved :: "FlushConfig \<Rightarrow> FlushOutcome \<Rightarrow> nat \<Rightarrow> int \<Rightarrow> FlushScheduler \<Rightarrow> FlushScheduler" where
  "flush_resolved c outcome pending now s = (case fs_inFlight s of
     None \<Rightarrow> s
   | Some f \<Rightarrow> afterSettled c outcome pending
       (settle_all (fl_batch f @ fl_sharers f) (Resolved outcome)
         (s\<lparr>fs_inFlight := None, fs_latency := Some (now - fl_startedAt f)\<rparr>)))"

definition flush_rejected :: "FlushConfig \<Rightarrow> string \<Rightarrow> FlushScheduler \<Rightarrow> FlushScheduler" where
  "flush_rejected c error s = (case fs_inFlight s of
     None \<Rightarrow> s
   | Some f \<Rightarrow>
       (let s = settle_all (fl_batch f @ fl_sharers f) (RejectedWith error) (s\<lparr>fs_inFlight := None\<rparr>)
        in if \<not> fs_stopped s \<and> fs_ready s \<and> fs_waiters s \<noteq> [] then s\<lparr>fs_timer := Some (fc_debounceMs c)\<rparr> else s))"

definition schedule :: "FlushConfig \<Rightarrow> FlushScheduler \<Rightarrow> FlushScheduler" where
  "schedule c s =
     (if fs_stopped s then answer stoppedOutcome s
      else if \<not> fs_ready s then answer gatedOutcome s
      else (case (fs_inFlight s, fs_timer s, fs_lastUnreachable s) of
          (None, Some _, Some failed) \<Rightarrow> answer (deferredOutcome failed) s
        | _ \<Rightarrow>
            (let s = enqueueWaiter s
             in if fs_inFlight s = None \<and> fs_timer s = None then s\<lparr>fs_timer := Some (fc_debounceMs c)\<rparr> else s)))"

definition flushNow :: "int \<Rightarrow> FlushScheduler \<Rightarrow> FlushScheduler" where
  "flushNow now s =
     (if fs_stopped s then answer stoppedOutcome s
      else if \<not> fs_ready s then answer gatedOutcome s
      else (case fs_inFlight s of
          Some f \<Rightarrow> s\<lparr>fs_inFlight := Some (f\<lparr>fl_sharers := fl_sharers f @ [fs_next s]\<rparr>), fs_next := fs_next s + 1\<rparr>
        | None \<Rightarrow> runFlush now (enqueueWaiter (clearTimer s))))"

definition hold :: "FlushScheduler \<Rightarrow> FlushScheduler" where
  "hold s = (if fs_stopped s \<or> \<not> fs_ready s then s else clearTimer (s\<lparr>fs_ready := False\<rparr>))"

definition release :: "int \<Rightarrow> FlushScheduler \<Rightarrow> FlushScheduler" where
  "release now s =
     (if fs_stopped s \<or> fs_ready s then s
      else (let s = enqueueWaiter (s\<lparr>fs_ready := True\<rparr>)
            in if fs_inFlight s = None then runFlush now (clearTimer s) else s))"

definition stop :: "FlushScheduler \<Rightarrow> FlushScheduler" where
  "stop s =
     (if fs_stopped s then s
      else settle_all (fs_waiters s) (Resolved stoppedOutcome) ((clearTimer (s\<lparr>fs_stopped := True\<rparr>))\<lparr>fs_waiters := []\<rparr>))"

section \<open>Runs\<close>

datatype flush_event =
    Schedule
  | FlushNow int
  | HoldGate
  | ReleaseGate int
  | Stop
  | TimerFires int
  | FlushResolves FlushOutcome nat int
  | FlushRejects string

definition flush_step :: "FlushConfig \<Rightarrow> flush_event \<Rightarrow> FlushScheduler \<Rightarrow> FlushScheduler" where
  "flush_step c ev s = (case ev of
     Schedule \<Rightarrow> schedule c s
   | FlushNow now \<Rightarrow> flushNow now s
   | HoldGate \<Rightarrow> hold s
   | ReleaseGate now \<Rightarrow> release now s
   | Stop \<Rightarrow> stop s
   | TimerFires now \<Rightarrow> (if fs_timer s = None then s else runFlush now s)
   | FlushResolves outcome pending now \<Rightarrow> flush_resolved c outcome pending now s
   | FlushRejects error \<Rightarrow> flush_rejected c error s)"

abbreviation flush_run :: "FlushConfig \<Rightarrow> flush_event list \<Rightarrow> FlushScheduler \<Rightarrow> FlushScheduler" where
  "flush_run c evs s \<equiv> fold (flush_step c) evs s"

section \<open>The invariant\<close>

text \<open>Callers not yet settled.\<close>

definition unsettled :: "FlushScheduler \<Rightarrow> nat list" where
  "unsettled s = fs_waiters s @ (case fs_inFlight s of None \<Rightarrow> [] | Some f \<Rightarrow> fl_batch f @ fl_sharers f)"

definition callers_ok :: "FlushScheduler \<Rightarrow> bool" where
  "callers_ok s \<longleftrightarrow> mset (map fst (fs_settled s)) + mset (unsettled s) = mset [0..<fs_next s]"

definition timer_ok :: "FlushScheduler \<Rightarrow> bool" where
  "timer_ok s \<longleftrightarrow> (fs_timer s \<noteq> None \<longrightarrow> fs_inFlight s = None \<and> fs_ready s \<and> \<not> fs_stopped s)"

definition waiting_ok :: "FlushScheduler \<Rightarrow> bool" where
  "waiting_ok s \<longleftrightarrow> (fs_waiters s \<noteq> [] \<longrightarrow> \<not> fs_stopped s \<and> (fs_ready s \<longrightarrow> fs_timer s \<noteq> None \<or> fs_inFlight s \<noteq> None))"

definition delay_ok :: "FlushConfig \<Rightarrow> FlushScheduler \<Rightarrow> bool" where
  "delay_ok c s \<longleftrightarrow> (\<forall>d. fs_timer s = Some d \<longrightarrow> d = fc_debounceMs c \<or> (\<exists>k. d = backoffDelayMs k (fc_initialMs c) (fc_maxMs c)))"

definition flush_inv :: "FlushConfig \<Rightarrow> FlushScheduler \<Rightarrow> bool" where
  "flush_inv c s \<longleftrightarrow> callers_ok s \<and> timer_ok s \<and> waiting_ok s \<and> delay_ok c s"

lemma create_inv: "flush_inv c createFlushScheduler"
  by (simp add: flush_inv_def callers_ok_def timer_ok_def waiting_ok_def delay_ok_def createFlushScheduler_def unsettled_def)

lemma afterSettled_frame [simp]:
  "fs_settled (afterSettled c out p s) = fs_settled s" "fs_waiters (afterSettled c out p s) = fs_waiters s"
  "fs_inFlight (afterSettled c out p s) = fs_inFlight s" "fs_next (afterSettled c out p s) = fs_next s"
  "fs_ready (afterSettled c out p s) = fs_ready s" "fs_stopped (afterSettled c out p s) = fs_stopped s"
  "fs_flushes (afterSettled c out p s) = fs_flushes s"
  by (simp_all add: afterSettled_def Let_def split: FlushOutcome.splits)

lemma afterSettled_timer:
  "fs_timer (afterSettled c out p s) =
     (if fs_stopped s \<or> \<not> fs_ready s then fs_timer s
      else if (\<exists>error. out = FlushUnreachable error) \<and> p > 0 then Some (retryDelayMs c s)
      else if fs_waiters s \<noteq> [] then Some (fc_debounceMs c) else fs_timer s)"
  by (simp add: afterSettled_def Let_def split: FlushOutcome.splits)

lemmas flush_defs = schedule_def flushNow_def hold_def release_def stop_def runFlush_def flush_resolved_def flush_rejected_def
  answer_def enqueueWaiter_def settle_all_def clearTimer_def afterSettled_timer

lemma callers_next: "mset_set {0..<Suc n} = add_mset n (mset_set {0..<n})"
  by (simp add: atLeast0_lessThan_Suc)

lemma step_callers: "callers_ok s \<Longrightarrow> callers_ok (flush_step c ev s)"
  by (cases ev; cases "fs_inFlight s") (auto simp: callers_next multiset.map_comp ac_simps flush_step_def flush_defs callers_ok_def unsettled_def Let_def comp_def split: option.split)

lemma step_timer: "timer_ok s \<Longrightarrow> timer_ok (flush_step c ev s)"
  by (cases ev; cases "fs_inFlight s"; cases "fs_timer s") (auto simp: flush_step_def flush_defs timer_ok_def Let_def split: option.split)

lemma step_waiting: "timer_ok s \<Longrightarrow> waiting_ok s \<Longrightarrow> waiting_ok (flush_step c ev s)"
  by (cases ev; cases "fs_inFlight s"; cases "fs_timer s") (auto simp: flush_step_def flush_defs timer_ok_def waiting_ok_def Let_def split: option.split)

lemma step_delay: "delay_ok c s \<Longrightarrow> delay_ok c (flush_step c ev s)"
  by (cases ev) (auto simp: flush_step_def flush_defs delay_ok_def Let_def retryDelayMs_def split: option.split)

lemma flush_step_inv: "flush_inv c s \<Longrightarrow> flush_inv c (flush_step c ev s)"
  by (simp add: flush_inv_def step_callers step_timer step_waiting step_delay)

lemma flush_run_inv: "flush_inv c s \<Longrightarrow> flush_inv c (flush_run c evs s)"
  by (induction evs arbitrary: s) (simp_all add: flush_step_inv)

abbreviation reached :: "FlushConfig \<Rightarrow> flush_event list \<Rightarrow> FlushScheduler" where
  "reached c evs \<equiv> flush_run c evs createFlushScheduler"

lemma reached_inv: "flush_inv c (reached c evs)"
  by (rule flush_run_inv [OF create_inv])

section \<open>Callers\<close>

text \<open>
  No caller is lost and none is answered twice. However triggers, timers, flush results, holds, releases
  and the stop interleave, every caller so far is in exactly one place: settled once, waiting for the next
  flush, or carried by the one in flight.
\<close>

theorem flush_callers_accounted:
  "let s = reached c evs in distinct (map fst (fs_settled s) @ unsettled s) \<and> set (map fst (fs_settled s) @ unsettled s) = {0..<fs_next s}"
proof -
  let ?s = "reached c evs"
  have "mset (map fst (fs_settled ?s) @ unsettled ?s) = mset [0..<fs_next ?s]"
    using reached_inv [of c evs] by (simp add: flush_inv_def callers_ok_def)
  then show ?thesis using mset_eq_imp_distinct_iff mset_eq_setD by (metis atLeast_upt distinct_upt atLeast0LessThan)
qed

text \<open>What moves a flush along: an armed timer that fires, a flush in flight that settles.\<close>

definition progress :: "flush_event \<Rightarrow> FlushScheduler \<Rightarrow> bool" where
  "progress ev s = (case ev of
     TimerFires _ \<Rightarrow> fs_timer s \<noteq> None
   | FlushResolves _ _ _ \<Rightarrow> fs_inFlight s \<noteq> None
   | FlushRejects _ \<Rightarrow> fs_inFlight s \<noteq> None
   | _ \<Rightarrow> False)"

fun progress_count :: "FlushConfig \<Rightarrow> flush_event list \<Rightarrow> FlushScheduler \<Rightarrow> nat" where
  "progress_count c [] s = 0"
| "progress_count c (ev # evs) s = (if progress ev s then 1 else 0) + progress_count c evs (flush_step c ev s)"

text \<open>How many such events a caller is away from its answer.\<close>

definition rank :: "nat \<Rightarrow> FlushScheduler \<Rightarrow> nat" where
  "rank w s = (if w \<in> fst ` set (fs_settled s) then 0 else if w \<notin> set (fs_waiters s) then 1 else if fs_timer s \<noteq> None then 2 else 3)"

definition known :: "nat \<Rightarrow> FlushScheduler \<Rightarrow> bool" where
  "known w s \<longleftrightarrow> w \<in> fst ` set (fs_settled s) \<or> w \<in> set (unsettled s)"

lemma known_below: "callers_ok s \<Longrightarrow> known w s \<longleftrightarrow> w < fs_next s"
proof -
  assume "callers_ok s"
  then have "set_mset (mset (map fst (fs_settled s)) + mset (unsettled s)) = set_mset (mset [0..<fs_next s])"
    unfolding callers_ok_def by (rule arg_cong)
  then have "fst ` set (fs_settled s) \<union> set (unsettled s) = {0..<fs_next s}" by simp
  then have "w \<in> fst ` set (fs_settled s) \<union> set (unsettled s) \<longleftrightarrow> w < fs_next s" by simp
  then show ?thesis by (simp add: known_def)
qed

lemma next_mono: "fs_next s \<le> fs_next (flush_step c ev s)"
  by (cases ev) (simp_all add: flush_step_def flush_defs Let_def split: option.split)

lemma ready_kept: "ev \<noteq> HoldGate \<Longrightarrow> fs_ready s \<Longrightarrow> fs_ready (flush_step c ev s)"
  by (cases ev) (simp_all add: flush_step_def flush_defs Let_def split: option.split)

lemma rank_step:
  assumes "flush_inv c s" "fs_ready s" "ev \<noteq> HoldGate" "known w s"
  shows "rank w (flush_step c ev s) + (if progress ev s then 1 else 0) \<le> rank w s \<or> rank w (flush_step c ev s) = 0"
proof -
  have "w \<noteq> fs_next s" using assms(1,4) by (simp add: flush_inv_def known_below)
  then show ?thesis
    using assms unfolding flush_inv_def
    by (cases ev; cases "fs_inFlight s"; cases "fs_timer s")
      (auto simp: flush_step_def flush_defs timer_ok_def waiting_ok_def known_def unsettled_def rank_def progress_def
        Let_def image_Un image_image split: option.split)
qed

lemma rank_run:
  assumes "flush_inv c s" "fs_ready s" "HoldGate \<notin> set evs" "known w s"
  shows "rank w (flush_run c evs s) + progress_count c evs s \<le> rank w s \<or> rank w (flush_run c evs s) = 0"
  using assms
proof (induction evs arbitrary: s)
  case (Cons ev evs)
  let ?s = "flush_step c ev s"
  have inv: "flush_inv c ?s" by (rule flush_step_inv [OF Cons.prems(1)])
  then have "known w ?s"
    using Cons.prems(1,4) next_mono [of s c ev] by (fastforce simp: flush_inv_def known_below)
  then have "rank w (flush_run c evs ?s) + progress_count c evs ?s \<le> rank w ?s \<or> rank w (flush_run c evs ?s) = 0"
    using Cons.IH [OF inv] Cons.prems(2,3) ready_kept [of ev s c] by auto
  then show ?case using rank_step [OF Cons.prems(1,2) _ Cons.prems(4), of ev] Cons.prems(3) by auto
qed simp

text \<open>
  C11: every caller is answered. While the gate is open an unanswered caller always has an armed timer or a
  flush in flight behind it; and once three such events have happened (the flush in flight settles, the
  timer fires, that flush settles), whatever else happens in between short of a hold, it has its answer.
\<close>

theorem flush_callers_answered:
  assumes "fs_ready (reached c evs)" "w < fs_next (reached c evs)" "HoldGate \<notin> set evs'"
  shows "(w \<notin> fst ` set (fs_settled (reached c evs)) \<longrightarrow> fs_timer (reached c evs) \<noteq> None \<or> fs_inFlight (reached c evs) \<noteq> None) \<and>
    (3 \<le> progress_count c evs' (reached c evs) \<longrightarrow> w \<in> fst ` set (fs_settled (flush_run c evs' (reached c evs))))"
proof (intro conjI)
  let ?s = "reached c evs"
  have inv: "flush_inv c ?s" by (rule reached_inv)
  then have known: "known w ?s" using assms(2) by (simp add: flush_inv_def known_below)
  then show "w \<notin> fst ` set (fs_settled ?s) \<longrightarrow> fs_timer ?s \<noteq> None \<or> fs_inFlight ?s \<noteq> None"
    using inv assms(1) by (cases "fs_inFlight ?s") (auto simp: flush_inv_def waiting_ok_def known_def unsettled_def)
  have "rank w ?s \<le> 3" by (simp add: rank_def)
  moreover have "rank w (flush_run c evs' ?s) = 0 \<longrightarrow> w \<in> fst ` set (fs_settled (flush_run c evs' ?s))" by (auto simp: rank_def)
  ultimately show "3 \<le> progress_count c evs' ?s \<longrightarrow> w \<in> fst ` set (fs_settled (flush_run c evs' ?s))"
    using rank_run [OF inv assms(1,3) known] by auto
qed

text \<open>
  Nothing goes out while the gate is held. From a hold to the next release no flush is started, whatever
  callers ask for, whichever flush settles and even if an old timer were to fire; no call made meanwhile is
  left waiting, since the waiting callers are at most those from before the hold.
\<close>

theorem held_gate_starts_no_flush:
  assumes "\<not> fs_ready (reached c evs)" "\<forall>now. ReleaseGate now \<notin> set evs'"
  shows "fs_flushes (flush_run c evs' (reached c evs)) = fs_flushes (reached c evs) \<and>
    fs_waiters (flush_run c evs' (reached c evs)) \<in> {fs_waiters (reached c evs), []}"
proof -
  have step: "\<not> fs_ready (flush_step c ev s) \<and> fs_flushes (flush_step c ev s) = fs_flushes s \<and> fs_waiters (flush_step c ev s) \<in> {fs_waiters s, []}"
    if "flush_inv c s" "\<not> fs_ready s" "\<forall>now. ev \<noteq> ReleaseGate now" for ev s
    using that by (cases ev; cases "fs_inFlight s") (auto simp: flush_step_def flush_defs flush_inv_def timer_ok_def Let_def)
  have "fs_flushes (flush_run c evs' s) = fs_flushes s \<and> fs_waiters (flush_run c evs' s) \<in> {fs_waiters s, []}"
    if "flush_inv c s" "\<not> fs_ready s" for s
    using that assms(2)
  proof (induction evs' arbitrary: s)
    case (Cons ev evs')
    have "\<forall>now. ev \<noteq> ReleaseGate now" using Cons.prems(3) by auto
    then show ?case using Cons.IH [OF flush_step_inv [OF Cons.prems(1), of ev]] step [OF Cons.prems(1,2), of ev] Cons.prems(3) by auto
  qed simp
  then show ?thesis using reached_inv assms(1) by blast
qed

section \<open>Retries\<close>

lemma backoff_bounds: "0 \<le> initialMs \<Longrightarrow> backoffDelayMs k initialMs maxMs \<le> maxMs \<and> backoffDelayMs k initialMs maxMs \<le> backoffDelayMs (Suc k) initialMs maxMs"
  by (auto simp: backoffDelayMs_def mult_left_mono intro: min.coboundedI2 min.mono)

text \<open>
  Retries back off. After a write whose flushes fail \<open>n + 1\<close> times in a row, the next attempt waits
  \<open>min maxMs (initialMs * 2 ^ n)\<close>: the delays double up to the ceiling, with one flush per delay.
\<close>

theorem retries_back_off:
  "let s = reached c (Schedule # concat (replicate (Suc n) [TimerFires t, FlushResolves (FlushUnreachable error) (Suc p) t']))
   in fs_timer s = Some (min (fc_maxMs c) (fc_initialMs c * 2 ^ n)) \<and> fs_flushes s = Suc n \<and> fs_inFlight s = None"
proof -
  let ?round = "[TimerFires t, FlushResolves (FlushUnreachable error) (Suc p) t']"
  have round: "fs_timer s' = Some (retryDelayMs c s) \<and> fs_attempt s' = Suc (fs_attempt s) \<and> fs_flushes s' = Suc (fs_flushes s) \<and>
      fs_ready s' \<and> \<not> fs_stopped s' \<and> fs_inFlight s' = None"
    if "s' = flush_run c ?round s" "fs_timer s \<noteq> None" "fs_ready s" "\<not> fs_stopped s" "fs_inFlight s = None" for s s'
    using that by (auto simp: flush_step_def runFlush_def clearTimer_def flush_resolved_def settle_all_def afterSettled_def retryDelayMs_def Let_def)
  have rounds: "replicate (Suc n) ?round = replicate n ?round @ [?round]" for n by (simp add: replicate_append_same)
  let ?s = "\<lambda>n. reached c (Schedule # concat (replicate n ?round))"
  have start: "?s 0 = schedule c createFlushScheduler" by (simp add: flush_step_def)
  have step: "?s (Suc n) = flush_run c ?round (?s n)" for n by (simp only: rounds concat_append fold_append fold.simps o_apply concat.simps append_Nil2)
  have "fs_timer (?s (Suc n)) = Some (backoffDelayMs n (fc_initialMs c) (fc_maxMs c)) \<and> fs_attempt (?s (Suc n)) = Suc n \<and> fs_flushes (?s (Suc n)) = Suc n \<and>
      fs_ready (?s (Suc n)) \<and> \<not> fs_stopped (?s (Suc n)) \<and> fs_inFlight (?s (Suc n)) = None"
  proof (induction n)
    case 0
    have "fs_timer (?s 0) \<noteq> None \<and> fs_ready (?s 0) \<and> \<not> fs_stopped (?s 0) \<and> fs_inFlight (?s 0) = None \<and> fs_attempt (?s 0) = 0 \<and> fs_flushes (?s 0) = 0"
      unfolding start by (simp add: schedule_def createFlushScheduler_def enqueueWaiter_def Let_def)
    then show ?case using round [OF step [of 0]] by (simp add: retryDelayMs_def)
  next
    case (Suc n)
    then show ?case using round [OF step [of "Suc n"]] by (simp add: retryDelayMs_def)
  qed
  then show ?thesis by (simp add: backoffDelayMs_def Let_def del: replicate.simps)
qed

section \<open>Sample runs\<close>

definition sample_trigger :: "flush_event list" where
  "sample_trigger = [Schedule, TimerFires 10, Schedule]"

theorem flush_callers_answered_witness:
  "1 \<in> fst ` set (fs_settled (flush_run defaultConfig [FlushResolves FlushEmpty 0 12, TimerFires 22, FlushResolves (FlushAccepted []) 0 30]
     (reached defaultConfig sample_trigger)))"
proof -
  let ?evs = "[FlushResolves FlushEmpty 0 12, TimerFires 22, FlushResolves (FlushAccepted []) 0 30]"
  have "fs_ready (reached defaultConfig sample_trigger)" "1 < fs_next (reached defaultConfig sample_trigger)" by code_simp+
  moreover have "3 \<le> progress_count defaultConfig ?evs (reached defaultConfig sample_trigger)" by code_simp
  ultimately show ?thesis using flush_callers_answered [of defaultConfig sample_trigger 1 ?evs] by simp
qed

theorem held_gate_starts_no_flush_witness:
  "fs_flushes (flush_run defaultConfig [Schedule, FlushNow 13, FlushResolves (FlushAccepted []) 0 14, TimerFires 15]
     (reached defaultConfig (sample_trigger @ [HoldGate]))) = fs_flushes (reached defaultConfig (sample_trigger @ [HoldGate]))"
proof -
  have "\<not> fs_ready (reached defaultConfig (sample_trigger @ [HoldGate]))" by code_simp
  from held_gate_starts_no_flush [OF this, of "[Schedule, FlushNow 13, FlushResolves (FlushAccepted []) 0 14, TimerFires 15]"]
  show ?thesis by simp
qed

text \<open>
  A store fault during a retry leaves the backoff's mark behind. A retry is due, its flush fails in the
  durable store, and the scheduler is idle again; of the next two writes, which one flush will carry ten
  milliseconds later, the first waits for that flush and the second is told that a retry is scheduled and
  the server unreachable.
\<close>

theorem stale_backoff_defers:
  "let s = reached defaultConfig [Schedule, TimerFires 10, FlushResolves (FlushUnreachable ''offline'') 1 11, TimerFires 1011,
       FlushRejects ''store fault'', Schedule, Schedule]
   in fs_timer s = Some (fc_debounceMs defaultConfig) \<and> fs_waiters s = [1] \<and>
      map_of (fs_settled s) 2 = Some (Resolved (deferredOutcome ''offline''))"
  by code_simp


end
