(* ===== verification/Presence.thy ===== *)
theory Presence
  imports ReverseIndex
begin

text \<open>
  The receive half of presence: the peers observed on the live stream
  (packages/client/src/presence/store.ts, keys.ts and the constants of define.ts).

  A number that may be \<^verbatim>\<open>Infinity\<close> is an option, with \<^const>\<open>None\<close> for it; other numbers are integers. The timer is the
  time it is due. Where the source reads the clock twice in one call the operation takes both readings.
  The calls of the listeners are the list \<open>ps_notified\<close>.
\<close>

section \<open>Data\<close>

record PeerPresence =
  pp_actorId :: string
  pp_entityId :: string
  pp_channel :: string
  pp_data :: json
  pp_updatedAt :: int

record PresenceChange =
  pc_entityId :: string
  pc_channel :: string

record PresenceChannelConfig =
  cc_debounceMs :: int
  cc_ttlMs :: "int option"
  cc_maxEntries :: "int option"

record PresenceStore =
  ps_localActorId :: string
  ps_channels :: "PresenceChannelConfig obj option"
  ps_entries :: "PeerPresence obj"
  ps_timer :: "int option"
  ps_closed :: bool
  ps_notified :: "PresenceChange list"

definition DEFAULT_PRESENCE_DEBOUNCE_MS :: int where "DEFAULT_PRESENCE_DEBOUNCE_MS = 100"
definition DEFAULT_PRESENCE_TTL_MS :: int where "DEFAULT_PRESENCE_TTL_MS = 30000"
definition DEFAULT_PRESENCE_MAX_ENTRIES :: int where "DEFAULT_PRESENCE_MAX_ENTRIES = 100"

definition targetKey :: "string \<Rightarrow> string \<Rightarrow> string" where
  "targetKey entityId channel = entityId @ NUL # channel"

definition entryKey :: "string \<Rightarrow> string \<Rightarrow> string \<Rightarrow> string" where
  "entryKey entityId channel actorId = targetKey entityId channel @ NUL # actorId"

section \<open>Operations\<close>

definition createPresenceStore :: "string \<Rightarrow> PresenceChannelConfig obj option \<Rightarrow> PresenceStore" where
  "createPresenceStore localActorId channels = \<lparr>ps_localActorId = localActorId, ps_channels = channels, ps_entries = [],
     ps_timer = None, ps_closed = False, ps_notified = []\<rparr>"

definition channel_config :: "PresenceStore \<Rightarrow> string \<Rightarrow> PresenceChannelConfig option" where
  "channel_config s channel = Option.bind (ps_channels s) (\<lambda>cs. map_of cs channel)"

definition ttlOf :: "PresenceStore \<Rightarrow> string \<Rightarrow> int option" where
  "ttlOf s channel = (case channel_config s channel of None \<Rightarrow> Some DEFAULT_PRESENCE_TTL_MS | Some c \<Rightarrow> cc_ttlMs c)"

definition capOf :: "PresenceStore \<Rightarrow> string \<Rightarrow> int option" where
  "capOf s channel = (case channel_config s channel of None \<Rightarrow> Some DEFAULT_PRESENCE_MAX_ENTRIES | Some c \<Rightarrow> cc_maxEntries c)"

definition notifyEach :: "PresenceChange obj \<Rightarrow> PresenceStore \<Rightarrow> PresenceStore" where
  "notifyEach changes s = s\<lparr>ps_notified := ps_notified s @ map snd changes\<rparr>"

definition releaseTimer :: "PresenceStore \<Rightarrow> PresenceStore" where
  "releaseTimer s = s\<lparr>ps_timer := None\<rparr>"

definition expiry :: "PresenceStore \<Rightarrow> PeerPresence \<Rightarrow> int option" where
  "expiry s entry = map_option (\<lambda>ttl. pp_updatedAt entry + ttl) (ttlOf s (pp_channel entry))"

definition earliest_of :: "int option \<Rightarrow> int option \<Rightarrow> int option" where
  "earliest_of a b = (case (a, b) of (Some x, Some y) \<Rightarrow> Some (min x y) | (Some x, None) \<Rightarrow> Some x | (None, _) \<Rightarrow> b)"

definition armTimer :: "int \<Rightarrow> PresenceStore \<Rightarrow> PresenceStore" where
  "armTimer now s =
     (let s = releaseTimer s
      in if ps_closed s \<or> ps_entries s = [] then s
         else (case fold (\<lambda>(key, entry) earliest. earliest_of earliest (expiry s entry)) (ps_entries s) None of
             None \<Rightarrow> s
           | Some earliest \<Rightarrow> s\<lparr>ps_timer := Some (now + max 0 (earliest - now))\<rparr>))"

definition expired_at :: "int \<Rightarrow> PresenceStore \<Rightarrow> PeerPresence \<Rightarrow> bool" where
  "expired_at cutoff s entry = (case expiry s entry of None \<Rightarrow> False | Some t \<Rightarrow> t \<le> cutoff)"

definition change_of :: "PeerPresence \<Rightarrow> PresenceChange" where
  "change_of entry = \<lparr>pc_entityId = pp_entityId entry, pc_channel = pp_channel entry\<rparr>"

definition expireAt :: "int \<Rightarrow> PresenceStore \<Rightarrow> PresenceStore \<times> PresenceChange obj" where
  "expireAt cutoff s =
     fold (\<lambda>(key, entry) (s', changed).
         if expired_at cutoff s entry
         then (s'\<lparr>ps_entries := obj_delete (ps_entries s') key\<rparr>,
               obj_set changed (targetKey (pp_entityId entry) (pp_channel entry)) (change_of entry))
         else (s', changed))
       (ps_entries s) (s, [])"

definition sweep :: "int \<Rightarrow> int \<Rightarrow> PresenceStore \<Rightarrow> PresenceStore" where
  "sweep now armedAt s =
     (case expireAt now (s\<lparr>ps_timer := None\<rparr>) of (s, expired) \<Rightarrow> notifyEach expired (armTimer armedAt s))"

definition on_target :: "string \<Rightarrow> string \<Rightarrow> PeerPresence \<Rightarrow> bool" where
  "on_target entityId channel entry \<longleftrightarrow> pp_entityId entry = entityId \<and> pp_channel entry = channel"

definition enforceCap :: "string \<Rightarrow> string \<Rightarrow> PresenceStore \<Rightarrow> PresenceStore" where
  "enforceCap entityId channel s = (case capOf s channel of
     None \<Rightarrow> s
   | Some cap \<Rightarrow>
       if cap \<le> 0 then s
       else (let scoped = filter (\<lambda>(key, entry). on_target entityId channel entry) (ps_entries s)
             in if int (length scoped) \<le> cap then s
                else (let sorted = sort_key (\<lambda>(key, entry). pp_updatedAt entry) scoped
                      in s\<lparr>ps_entries := fold (\<lambda>(key, entry) es. obj_delete es key)
                             (take (length sorted - nat cap) sorted) (ps_entries s)\<rparr>)))"

record ParsedPresenceEvent =
  pe_actorId :: string
  pe_entityId :: string
  pe_channel :: string
  pe_value :: json

definition nonempty_string :: "json option \<Rightarrow> string option" where
  "nonempty_string v = (case v of Some (JStr x) \<Rightarrow> if x = [] then None else Some x | _ \<Rightarrow> None)"

definition parsePresenceEvent :: "json \<Rightarrow> ParsedPresenceEvent option" where
  "parsePresenceEvent payload = (case payload of
     JObj event \<Rightarrow> (case (nonempty_string (map_of event ''actor_id''), nonempty_string (map_of event ''entity_id''), map_of event ''data'') of
         (Some actorId, Some entityId, Some (JObj envelope)) \<Rightarrow>
           (case (nonempty_string (map_of envelope ''channel''), map_of envelope ''value'') of
              (Some channel, Some v) \<Rightarrow> Some \<lparr>pe_actorId = actorId, pe_entityId = entityId, pe_channel = channel, pe_value = v\<rparr>
            | _ \<Rightarrow> None)
       | _ \<Rightarrow> None)
   | _ \<Rightarrow> None)"

definition ingest_event :: "ParsedPresenceEvent \<Rightarrow> int \<Rightarrow> PresenceStore \<Rightarrow> PresenceStore \<times> PresenceChange obj" where
  "ingest_event event receivedAt s =
     (let (s, changes) = expireAt receivedAt s;
          key = entryKey (pe_entityId event) (pe_channel event) (pe_actorId event);
          target = targetKey (pe_entityId event) (pe_channel event);
          change = \<lparr>pc_entityId = pe_entityId event, pc_channel = pe_channel event\<rparr>
      in if pe_value event = JNull
         then (if map_of (ps_entries s) key = None then (s, changes)
               else (s\<lparr>ps_entries := obj_delete (ps_entries s) key\<rparr>, obj_set changes target change))
         else (enforceCap (pe_entityId event) (pe_channel event)
                 (s\<lparr>ps_entries := obj_set (ps_entries s) key
                    \<lparr>pp_actorId = pe_actorId event, pp_entityId = pe_entityId event, pp_channel = pe_channel event,
                     pp_data = pe_value event, pp_updatedAt = receivedAt\<rparr>\<rparr>),
               obj_set changes target change))"

definition presence_ingest :: "json \<Rightarrow> int \<Rightarrow> int \<Rightarrow> PresenceStore \<Rightarrow> PresenceStore" where
  "presence_ingest payload receivedAt armedAt s =
     (if ps_closed s then s
      else (case parsePresenceEvent payload of
          None \<Rightarrow> s
        | Some event \<Rightarrow>
            if pe_actorId event = ps_localActorId s then s
            else (case ingest_event event receivedAt s of (s, changes) \<Rightarrow> notifyEach changes (armTimer armedAt s))))"

definition forEntity :: "string \<Rightarrow> string \<Rightarrow> PresenceStore \<Rightarrow> PeerPresence obj" where
  "forEntity entityId channel s =
     fold (\<lambda>(key, entry) out. if on_target entityId channel entry then obj_set out (pp_actorId entry) entry else out) (ps_entries s) []"

definition presence_clear :: "PresenceStore \<Rightarrow> PresenceStore" where
  "presence_clear s =
     (let s = releaseTimer s
      in if ps_entries s = [] then s
         else notifyEach (fold (\<lambda>(key, entry) changed. obj_set changed (targetKey (pp_entityId entry) (pp_channel entry)) (change_of entry)) (ps_entries s) [])
                (s\<lparr>ps_entries := []\<rparr>))"

definition presence_close :: "PresenceStore \<Rightarrow> PresenceStore" where
  "presence_close s = (releaseTimer (s\<lparr>ps_closed := True\<rparr>))\<lparr>ps_entries := []\<rparr>"

section \<open>Runs\<close>

datatype presence_event = Packet json int int | SweepFires int int | ClearPeers | ClosePeers

definition presence_step :: "presence_event \<Rightarrow> PresenceStore \<Rightarrow> PresenceStore" where
  "presence_step ev s = (case ev of
     Packet payload receivedAt armedAt \<Rightarrow> presence_ingest payload receivedAt armedAt s
   | SweepFires now armedAt \<Rightarrow> if ps_timer s = None then s else sweep now armedAt s
   | ClearPeers \<Rightarrow> presence_clear s
   | ClosePeers \<Rightarrow> presence_close s)"

text \<open>The clock does not run backwards; \<open>clock_after\<close> is its last reading.\<close>

fun clock_after :: "int \<Rightarrow> presence_event list \<Rightarrow> int" where
  "clock_after t [] = t"
| "clock_after t (Packet p r a # evs) = clock_after a evs"
| "clock_after t (SweepFires r a # evs) = clock_after a evs"
| "clock_after t (ev # evs) = clock_after t evs"

fun clock_ok :: "int \<Rightarrow> presence_event list \<Rightarrow> bool" where
  "clock_ok t [] = True"
| "clock_ok t (Packet p r a # evs) = (t \<le> r \<and> r \<le> a \<and> clock_ok a evs)"
| "clock_ok t (SweepFires r a # evs) = (t \<le> r \<and> r \<le> a \<and> clock_ok a evs)"
| "clock_ok t (ev # evs) = clock_ok t evs"

section \<open>What the operations do to the entries\<close>

lemma fold_delete_filter:
  "fold (\<lambda>(k, e) acc. if P e then obj_delete acc k else acc) es acc = filter (\<lambda>(k, _). \<not> (\<exists>e. (k, e) \<in> set es \<and> P e)) acc"
proof (induction es arbitrary: acc)
  case (Cons x es)
  obtain k e where x: "x = (k, e)" by (cases x)
  have "fold (\<lambda>(k, e) acc. if P e then obj_delete acc k else acc) (x # es) acc =
      filter (\<lambda>(k, _). \<not> (\<exists>e. (k, e) \<in> set es \<and> P e)) (if P e then obj_delete acc k else acc)"
    using Cons.IH by (simp add: x)
  also have "\<dots> = filter (\<lambda>(k', _). \<not> (\<exists>e. (k', e) \<in> set (x # es) \<and> P e)) acc"
    unfolding x AList.delete_eq by (induction acc) auto
  finally show ?case .
qed simp

lemma filter_keys_append:
  assumes "distinct (map fst (xs @ ys))"
  shows "filter (\<lambda>(k, _). k \<notin> fst ` set xs) (xs @ ys) = ys"
proof -
  have "filter (\<lambda>(k, _). k \<notin> fst ` set xs) xs = []" by (force simp: filter_empty_conv)
  moreover have "filter (\<lambda>(k, _). k \<notin> fst ` set xs) ys = ys"
  proof (rule filter_True, rule ballI)
    fix x
    assume "x \<in> set ys"
    then have "fst x \<in> fst ` set ys" by simp
    then have "fst x \<notin> fst ` set xs" using assms by auto
    then show "case x of (k, _) \<Rightarrow> k \<notin> fst ` set xs" by (simp add: case_prod_beta)
  qed
  ultimately show ?thesis by simp
qed

lemma length_filter_sort: "length (filter P (sort_key f xs)) = length (filter P xs)"
  by (metis mset_filter mset_sort size_mset)

lemma expire_entries:
  assumes "obj_ok es"
  shows "fold (\<lambda>(k, e) acc. if P e then obj_delete acc k else acc) es es = filter (\<lambda>(_, e). \<not> P e) es"
  unfolding fold_delete_filter using assms
  by (intro filter_cong refl) (auto simp: obj_ok_def dest: eq_key_imp_eq_value)

definition expired_changes :: "int \<Rightarrow> PresenceStore \<Rightarrow> PresenceChange obj" where
  "expired_changes cutoff s = fold (\<lambda>(key, entry) changed. if expired_at cutoff s entry
       then obj_set changed (targetKey (pp_entityId entry) (pp_channel entry)) (change_of entry) else changed) (ps_entries s) []"

lemma expireAt_eq:
  assumes "obj_ok (ps_entries s)"
  shows "expireAt cutoff s = (s\<lparr>ps_entries := filter (\<lambda>(_, e). \<not> expired_at cutoff s e) (ps_entries s)\<rparr>, expired_changes cutoff s)"
proof -
  have loop: "fold (\<lambda>(key, entry) (s', changed).
         if expired_at cutoff s entry
         then (s'\<lparr>ps_entries := obj_delete (ps_entries s') key\<rparr>,
               obj_set changed (targetKey (pp_entityId entry) (pp_channel entry)) (change_of entry))
         else (s', changed)) es (s', ch) =
     (s'\<lparr>ps_entries := fold (\<lambda>(k, e) acc. if expired_at cutoff s e then obj_delete acc k else acc) es (ps_entries s')\<rparr>,
      fold (\<lambda>(key, entry) changed. if expired_at cutoff s entry
        then obj_set changed (targetKey (pp_entityId entry) (pp_channel entry)) (change_of entry) else changed) es ch)" for es s' ch
    by (induction es arbitrary: s' ch) auto
  show ?thesis by (simp add: expireAt_def expired_changes_def loop expire_entries [OF assms])
qed

text \<open>What stays of the entries of a target after the cap is enforced: the most recently updated ones.\<close>

definition evicted_keys :: "string \<Rightarrow> string \<Rightarrow> PresenceStore \<Rightarrow> string set" where
  "evicted_keys entityId channel s = (case capOf s channel of
     None \<Rightarrow> {}
   | Some cap \<Rightarrow> if cap \<le> 0 then {} else
       (let scoped = filter (\<lambda>(key, entry). on_target entityId channel entry) (ps_entries s)
        in fst ` set (take (length scoped - nat cap) (sort_key (\<lambda>(key, entry). pp_updatedAt entry) scoped))))"

lemma enforceCap_eq:
  "enforceCap entityId channel s = s\<lparr>ps_entries := filter (\<lambda>(k, _). k \<notin> evicted_keys entityId channel s) (ps_entries s)\<rparr>"
proof -
  have "fold (\<lambda>(key, entry) es. obj_delete es key) ds es = filter (\<lambda>(k, _). k \<notin> fst ` set ds) es"
    for ds :: "(string \<times> PeerPresence) list" and es :: "(string \<times> PeerPresence) list"
    using fold_delete_filter [of "\<lambda>_. True" ds es] by (force intro!: filter_cong)
  then show ?thesis by (auto simp: enforceCap_def evicted_keys_def Let_def split: option.split)
qed

lemma evicted_on_target:
  "k \<in> evicted_keys entityId channel s \<Longrightarrow> \<exists>e. (k, e) \<in> set (ps_entries s) \<and> on_target entityId channel e"
  by (auto simp: evicted_keys_def Let_def split: option.splits if_splits dest!: in_set_takeD)

lemma cap_enforced:
  assumes "obj_ok (ps_entries s)" "capOf s channel = Some cap" "0 < cap"
  shows "int (length (filter (\<lambda>(_, e). on_target entityId channel e) (ps_entries (enforceCap entityId channel s)))) \<le> cap"
proof -
  let ?scoped = "filter (\<lambda>(_, e). on_target entityId channel e) (ps_entries s)"
  let ?sorted = "sort_key (\<lambda>(_, e). pp_updatedAt e) ?scoped"
  let ?n = "length ?scoped - nat cap"
  have "distinct (map fst ?scoped)" using assms(1) by (simp add: obj_ok_def distinct_map_filter)
  then have dist: "distinct (map fst ?sorted)" using mset_eq_imp_distinct_iff [of "map fst ?sorted" "map fst ?scoped"] by simp
  have "filter (\<lambda>(_, e). on_target entityId channel e) (ps_entries (enforceCap entityId channel s)) =
      filter (\<lambda>(k, _). k \<notin> fst ` set (take ?n ?sorted)) ?scoped"
    using assms(2,3) by (auto simp: enforceCap_eq evicted_keys_def Let_def filter_filter intro!: filter_cong)
  also have "length \<dots> = length (filter (\<lambda>(k, _). k \<notin> fst ` set (take ?n ?sorted)) ?sorted)"
    by (rule length_filter_sort [symmetric])
  also have "filter (\<lambda>(k, _). k \<notin> fst ` set (take ?n ?sorted)) ?sorted = drop ?n ?sorted"
    using filter_keys_append [of "take ?n ?sorted" "drop ?n ?sorted"] dist by simp
  finally show ?thesis using assms(3) by simp
qed

section \<open>The invariant\<close>

definition count_on :: "string \<Rightarrow> string \<Rightarrow> PeerPresence obj \<Rightarrow> nat" where
  "count_on entityId channel es = length (filter (\<lambda>(_, e). on_target entityId channel e) es)"

definition entry_ok :: "PresenceStore \<Rightarrow> string \<times> PeerPresence \<Rightarrow> bool" where
  "entry_ok s ke = (case ke of (k, e) \<Rightarrow> k = entryKey (pp_entityId e) (pp_channel e) (pp_actorId e) \<and> pp_actorId e \<noteq> ps_localActorId s)"

definition peers_ok :: "PresenceStore \<Rightarrow> bool" where
  "peers_ok s \<longleftrightarrow> obj_ok (ps_entries s) \<and> list_all (entry_ok s) (ps_entries s) \<and> (ps_closed s \<longrightarrow> ps_entries s = []) \<and>
     (\<forall>entityId channel cap. capOf s channel = Some cap \<longrightarrow> 0 < cap \<longrightarrow> int (count_on entityId channel (ps_entries s)) \<le> cap)"

lemma config_frame [simp]:
  "ttlOf (s\<lparr>ps_entries := es\<rparr>) = ttlOf s" "capOf (s\<lparr>ps_entries := es\<rparr>) = capOf s"
  "ttlOf (s\<lparr>ps_timer := t\<rparr>) = ttlOf s" "capOf (s\<lparr>ps_timer := t\<rparr>) = capOf s"
  "ttlOf (s\<lparr>ps_notified := n\<rparr>) = ttlOf s" "capOf (s\<lparr>ps_notified := n\<rparr>) = capOf s"
  "ttlOf (s\<lparr>ps_closed := b\<rparr>) = ttlOf s" "capOf (s\<lparr>ps_closed := b\<rparr>) = capOf s"
  "entry_ok (s\<lparr>ps_entries := es\<rparr>) = entry_ok s" "entry_ok (s\<lparr>ps_timer := t\<rparr>) = entry_ok s"
  "entry_ok (s\<lparr>ps_notified := n\<rparr>) = entry_ok s" "entry_ok (s\<lparr>ps_closed := b\<rparr>) = entry_ok s"
  by (auto simp: ttlOf_def capOf_def channel_config_def entry_ok_def fun_eq_iff)

lemma expiry_frame [simp]:
  "expiry (s\<lparr>ps_entries := es\<rparr>) = expiry s" "expiry (s\<lparr>ps_timer := t\<rparr>) = expiry s" "expiry (s\<lparr>ps_notified := n\<rparr>) = expiry s"
  "expired_at c (s\<lparr>ps_entries := es\<rparr>) = expired_at c s" "expired_at c (s\<lparr>ps_timer := t\<rparr>) = expired_at c s"
  by (simp_all add: expiry_def expired_at_def fun_eq_iff)

lemma armTimer_frame [simp]:
  "ps_entries (armTimer now s) = ps_entries s" "ps_closed (armTimer now s) = ps_closed s" "ps_localActorId (armTimer now s) = ps_localActorId s"
  "ps_channels (armTimer now s) = ps_channels s" "ps_notified (armTimer now s) = ps_notified s"
  by (simp_all add: armTimer_def releaseTimer_def Let_def split: option.split)

lemma notifyEach_frame [simp]:
  "ps_entries (notifyEach ch s) = ps_entries s" "ps_closed (notifyEach ch s) = ps_closed s" "ps_timer (notifyEach ch s) = ps_timer s"
  "ps_notified (notifyEach ch s) = ps_notified s @ map snd ch"
  by (simp_all add: notifyEach_def)

lemma capOf_cong: "ps_channels s = ps_channels s' \<Longrightarrow> capOf s = capOf s'"
  by (simp add: capOf_def channel_config_def fun_eq_iff)

lemma ttlOf_cong: "ps_channels s = ps_channels s' \<Longrightarrow> ttlOf s = ttlOf s'"
  by (simp add: ttlOf_def channel_config_def fun_eq_iff)

lemma peers_ok_cong:
  assumes "ps_entries s = ps_entries s'" "ps_closed s = ps_closed s'" "ps_localActorId s = ps_localActorId s'" "ps_channels s = ps_channels s'"
  shows "peers_ok s = peers_ok s'"
proof -
  have "entry_ok s = entry_ok s'" using assms(3) by (auto simp: entry_ok_def fun_eq_iff)
  then show ?thesis using assms capOf_cong [OF assms(4)] by (simp add: peers_ok_def)
qed

lemma peers_ok_arm [simp]: "peers_ok (notifyEach ch (armTimer now s)) = peers_ok s"
  by (intro peers_ok_cong) (simp_all add: notifyEach_def)

lemma count_filter_le: "count_on e ch (filter P es) \<le> count_on e ch es"
  by (induction es) (auto simp: count_on_def)

lemma count_set_le: "\<not> on_target e ch v \<Longrightarrow> count_on e ch (obj_set es k v) \<le> count_on e ch es"
  by (induction es) (auto simp: count_on_def)

lemma peers_ok_filter:
  assumes "peers_ok s"
  shows "peers_ok (s\<lparr>ps_entries := filter P (ps_entries s)\<rparr>)"
proof -
  have "int (count_on e ch (filter P (ps_entries s))) \<le> cap" if "capOf s ch = Some cap" "0 < cap" for e ch cap
  proof -
    have "int (count_on e ch (ps_entries s)) \<le> cap" using assms that by (simp add: peers_ok_def)
    then show ?thesis using count_filter_le [of e ch P "ps_entries s"] by simp
  qed
  then show ?thesis using assms by (auto simp: peers_ok_def obj_ok_def distinct_map_filter list_all_iff)
qed

lemma set_obj_set: "set (obj_set es k v) \<subseteq> insert (k, v) (set es)"
  by (induction es) auto

lemma peers_ok_expire: "peers_ok s \<Longrightarrow> expireAt t s = (s', ch) \<Longrightarrow> peers_ok s'"
  using peers_ok_filter by (auto simp: expireAt_eq peers_ok_def)

lemma peers_ok_ingest:
  assumes "peers_ok s" "pe_actorId event \<noteq> ps_localActorId s" "\<not> ps_closed s" "ingest_event event t s = (s', ch)"
  shows "peers_ok s'"
proof -
  let ?E = "pe_entityId event" and ?C = "pe_channel event"
  obtain s1 ch1 where s1: "expireAt t s = (s1, ch1)" by fastforce
  then have ok: "peers_ok s1" by (rule peers_ok_expire [OF assms(1)])
  have frame: "ps_localActorId s1 = ps_localActorId s" "\<not> ps_closed s1"
    using s1 assms(1,3) by (auto simp: expireAt_eq peers_ok_def)
  let ?new = "\<lparr>pp_actorId = pe_actorId event, pp_entityId = ?E, pp_channel = ?C, pp_data = pe_value event, pp_updatedAt = t\<rparr>"
  let ?key = "entryKey ?E ?C (pe_actorId event)"
  show ?thesis
  proof (cases "pe_value event = JNull")
    case True
    have "peers_ok (s1\<lparr>ps_entries := obj_delete (ps_entries s1) ?key\<rparr>)"
      using peers_ok_filter [OF ok] by (simp add: AList.delete_eq)
    with True ok assms(4) s1 show ?thesis by (auto simp: ingest_event_def Let_def split: if_splits)
  next
    case False
    let ?s2 = "s1\<lparr>ps_entries := obj_set (ps_entries s1) ?key ?new\<rparr>"
    have s': "s' = enforceCap ?E ?C ?s2" using False assms(4) s1 by (auto simp: ingest_event_def Let_def)
    have dist: "obj_ok (ps_entries ?s2)" using ok by (simp add: peers_ok_def obj_set_ok)
    have "entry_ok s1 (?key, ?new)" using assms(2) frame by (simp add: entry_ok_def)
    then have entries: "list_all (entry_ok s1) (ps_entries ?s2)"
      using ok set_obj_set [where es = "ps_entries s1" and k = ?key and v = ?new] by (auto simp: peers_ok_def list_all_iff)
    have "int (count_on e c (ps_entries s')) \<le> cap" if "capOf s1 c = Some cap" "0 < cap" for e c cap
    proof (cases "e = ?E \<and> c = ?C")
      case True
      with cap_enforced [OF dist, of ?C cap ?E] that show ?thesis by (simp add: s' count_on_def)
    next
      case False
      then have "\<not> on_target e c ?new" by (auto simp: on_target_def)
      then have "count_on e c (ps_entries ?s2) \<le> count_on e c (ps_entries s1)" using count_set_le by simp
      then have "count_on e c (ps_entries s') \<le> count_on e c (ps_entries s1)"
        using count_filter_le [of e c _ "ps_entries ?s2"] order_trans by (fastforce simp: s' enforceCap_eq)
      moreover have "int (count_on e c (ps_entries s1)) \<le> cap" using ok that by (simp add: peers_ok_def)
      ultimately show ?thesis by simp
    qed
    moreover have "capOf s' = capOf s1" "entry_ok s' = entry_ok s1" "ps_closed s' = ps_closed s1" by (simp_all add: s' enforceCap_eq)
    moreover have "obj_ok (ps_entries s')" "list_all (entry_ok s1) (ps_entries s')"
      using dist entries by (simp_all add: s' enforceCap_eq obj_ok_def distinct_map_filter list_all_iff)
    ultimately show ?thesis using frame(2) by (simp add: peers_ok_def)
  qed
qed

lemma peers_ok_step: "peers_ok s \<Longrightarrow> peers_ok (presence_step ev s)"
proof (cases ev)
  case (Packet payload r a)
  assume "peers_ok s"
  with Packet peers_ok_ingest show ?thesis
    by (auto simp: presence_step_def presence_ingest_def split: option.splits prod.splits)
next
  case (SweepFires now a)
  assume ok: "peers_ok s"
  then have "peers_ok (s\<lparr>ps_timer := None\<rparr>)" using peers_ok_cong [of "s\<lparr>ps_timer := None\<rparr>" s] by simp
  with ok SweepFires peers_ok_expire show ?thesis
    by (auto simp: presence_step_def sweep_def split: prod.splits)
qed (auto simp: presence_step_def presence_clear_def presence_close_def releaseTimer_def Let_def peers_ok_def obj_ok_def
      notifyEach_def count_on_def split: if_splits)


lemma peers_ok_run: "peers_ok s \<Longrightarrow> peers_ok (fold presence_step evs s)"
  by (induction evs arbitrary: s) (simp_all add: peers_ok_step)

lemma create_peers_ok: "peers_ok (createPresenceStore actor channels)"
  by (simp add: peers_ok_def createPresenceStore_def obj_ok_def count_on_def)

text \<open>Every entry that can expire has a timer due by then, or due at once.\<close>

definition timer_inv :: "int \<Rightarrow> PresenceStore \<Rightarrow> bool" where
  "timer_inv clock s \<longleftrightarrow>
     (\<forall>(k, e) \<in> set (ps_entries s). \<forall>t. expiry s e = Some t \<longrightarrow> (\<exists>d. ps_timer s = Some d \<and> (d \<le> t \<or> d \<le> clock)))"

lemma earliest_le:
  "(k, e) \<in> set es \<Longrightarrow> expiry s e = Some t \<Longrightarrow> \<exists>m. fold (\<lambda>(key, entry) earliest. earliest_of earliest (expiry s entry)) es acc = Some m \<and> m \<le> t"
  and earliest_acc: "acc = Some a \<Longrightarrow> \<exists>m. fold (\<lambda>(key, entry) earliest. earliest_of earliest (expiry s entry)) es acc = Some m \<and> m \<le> a"
proof -
  have acc: "\<exists>m. fold (\<lambda>(key, entry) earliest. earliest_of earliest (expiry s entry)) es (Some a) = Some m \<and> m \<le> a" for es a
  proof (induction es arbitrary: a)
    case (Cons x es)
    obtain b where "earliest_of (Some a) (expiry s (snd x)) = Some b" "b \<le> a" by (cases "expiry s (snd x)") (auto simp: earliest_of_def)
    then show ?case using Cons.IH [of b] by (cases x) auto
  qed simp
  then show "acc = Some a \<Longrightarrow> \<exists>m. fold (\<lambda>(key, entry) earliest. earliest_of earliest (expiry s entry)) es acc = Some m \<and> m \<le> a" by simp
  assume "(k, e) \<in> set es" "expiry s e = Some t"
  then show "\<exists>m. fold (\<lambda>(key, entry) earliest. earliest_of earliest (expiry s entry)) es acc = Some m \<and> m \<le> t"
  proof (induction es arbitrary: acc)
    case (Cons x es)
    show ?case
    proof (cases "x = (k, e)")
      case True
      obtain b where "earliest_of acc (Some t) = Some b" "b \<le> t" by (cases acc) (auto simp: earliest_of_def)
      with True Cons.prems acc [of es b] show ?thesis by auto
    qed (use Cons in auto)
  qed simp
qed

lemma timer_inv_arm: "\<not> ps_closed s \<Longrightarrow> timer_inv now (notifyEach ch (armTimer now s))"
proof -
  assume live: "\<not> ps_closed s"
  have exp: "expiry (notifyEach ch (armTimer now s)) = expiry s"
    using ttlOf_cong [of "notifyEach ch (armTimer now s)" s] by (auto simp: expiry_def fun_eq_iff notifyEach_def)
  have "\<exists>d. ps_timer (armTimer now s) = Some d \<and> (d \<le> t \<or> d \<le> now)" if entry: "(k, e) \<in> set (ps_entries s)" "expiry s e = Some t" for k e t
  proof -
    obtain m where "fold (\<lambda>(key, entry) earliest. earliest_of earliest (expiry s entry)) (ps_entries s) None = Some m" "m \<le> t"
      using earliest_le [OF entry] by blast
    then show ?thesis using entry live by (auto simp: armTimer_def releaseTimer_def Let_def max_def)
  qed
  then show ?thesis by (auto simp: timer_inv_def exp)
qed

lemma timer_inv_mono: "timer_inv t s \<Longrightarrow> t \<le> t' \<Longrightarrow> timer_inv t' s"
  by (fastforce simp: timer_inv_def)

lemma ingest_event_frame: "ingest_event event t s = (s', ch) \<Longrightarrow> obj_ok (ps_entries s) \<Longrightarrow> ps_closed s' = ps_closed s \<and> ps_localActorId s' = ps_localActorId s"
  by (auto simp: ingest_event_def expireAt_eq enforceCap_eq Let_def split: if_splits)

lemma timer_inv_step:
  assumes "timer_inv clock s" "peers_ok s" "clock_ok clock [ev]"
  shows "timer_inv (clock_after clock [ev]) (presence_step ev s)"
proof (cases ev)
  case (Packet payload r a)
  have dist: "obj_ok (ps_entries s)" using assms(2) by (simp add: peers_ok_def)
  from Packet assms(3) have "clock \<le> a" by simp
  then have "timer_inv a s" by (rule timer_inv_mono [OF assms(1)])
  then show ?thesis
    using Packet timer_inv_arm ingest_event_frame [OF _ dist]
    by (auto simp: presence_step_def presence_ingest_def split: option.splits prod.splits)
next
  case (SweepFires now a)
  have dist: "obj_ok (ps_entries s)" using assms(2) by (simp add: peers_ok_def)
  have "\<not> ps_closed s \<or> ps_entries s = []" using assms(2) by (auto simp: peers_ok_def)
  moreover have "timer_inv a s" using SweepFires assms(1,3) timer_inv_mono by auto
  moreover have "timer_inv a (notifyEach ch (armTimer a (s\<lparr>ps_timer := None, ps_entries := es\<rparr>)))" if "\<not> ps_closed s" for ch es
    using that by (intro timer_inv_arm) simp
  moreover have "timer_inv a (notifyEach ch (armTimer a (s\<lparr>ps_timer := None, ps_entries := []\<rparr>)))" for ch by (simp add: timer_inv_def)
  ultimately show ?thesis
    using SweepFires dist by (auto simp: presence_step_def sweep_def expireAt_eq split: prod.splits)
qed (use assms in \<open>auto simp: presence_step_def presence_clear_def presence_close_def releaseTimer_def Let_def timer_inv_def notifyEach_def\<close>)

abbreviation presence_run :: "string \<Rightarrow> PresenceChannelConfig obj option \<Rightarrow> presence_event list \<Rightarrow> PresenceStore" where
  "presence_run actor channels evs \<equiv> fold presence_step evs (createPresenceStore actor channels)"

text \<open>
  C29: presence stays bounded. In every run the local actor is never among the peers, and a target never holds
  more peers than the positive cap of its channel.
\<close>

theorem presence_bounded:
  "let s = presence_run actor channels evs in
     (\<forall>(k, e) \<in> set (ps_entries s). pp_actorId e \<noteq> actor) \<and>
     (case capOf s channel of None \<Rightarrow> True | Some cap \<Rightarrow> 0 < cap \<longrightarrow> int (count_on entityId channel (ps_entries s)) \<le> cap)"
proof -
  have actor: "ps_localActorId (fold presence_step evs s) = ps_localActorId s" if "peers_ok s" for s
    using that
  proof (induction evs arbitrary: s)
    case (Cons ev evs)
    have "ps_localActorId (presence_step ev s) = ps_localActorId s"
      using ingest_event_frame Cons.prems
      by (cases ev) (auto simp: presence_step_def presence_ingest_def sweep_def expireAt_eq presence_clear_def presence_close_def releaseTimer_def
          notifyEach_def Let_def peers_ok_def split: option.splits prod.splits)
    then show ?case using Cons.IH [OF peers_ok_step [OF Cons.prems]] by simp
  qed simp
  have "peers_ok (presence_run actor channels evs)" by (rule peers_ok_run [OF create_peers_ok])
  then show ?thesis using actor [OF create_peers_ok, of actor channels]
    by (auto simp: Let_def peers_ok_def list_all_iff entry_ok_def createPresenceStore_def split: option.splits)
qed



section \<open>Notifications\<close>

definition clean_change :: "PresenceChange \<Rightarrow> bool" where
  "clean_change c \<longleftrightarrow> NUL \<notin> set (pc_entityId c) \<and> NUL \<notin> set (pc_channel c)"

definition change_key :: "PresenceChange \<Rightarrow> string" where
  "change_key c = targetKey (pc_entityId c) (pc_channel c)"

definition changes_ok :: "PresenceChange obj \<Rightarrow> bool" where
  "changes_ok ch \<longleftrightarrow> (\<forall>(k, c) \<in> set ch. k = change_key c \<and> clean_change c)"

definition clean_peer :: "PeerPresence \<Rightarrow> bool" where
  "clean_peer e \<longleftrightarrow> clean_change (change_of e)"

lemma change_key_inj: "clean_change c \<Longrightarrow> clean_change c' \<Longrightarrow> change_key c = change_key c' \<longleftrightarrow> c = c'"
  by (cases c; cases c') (auto simp: change_key_def clean_change_def targetKey_def split_at_sep)

lemma key_of_change [simp]: "targetKey (pp_entityId e) (pp_channel e) = change_key (change_of e)"
  by (simp add: change_key_def change_of_def)

lemma change_set:
  assumes "changes_ok ch" "clean_change c"
  shows "snd ` set (obj_set ch (change_key c) c) = insert c (snd ` set ch)" "changes_ok (obj_set ch (change_key c) c)"
proof -
  have "obj_set ch (change_key c) c = (if map_of ch (change_key c) = None then ch @ [(change_key c, c)] else ch) \<and>
      (map_of ch (change_key c) \<noteq> None \<longrightarrow> c \<in> snd ` set ch)"
  proof (cases "map_of ch (change_key c)")
    case (Some c')
    then have "(change_key c, c') \<in> set ch" by (rule map_of_SomeD)
    then have "c' = c" using assms change_key_inj by (fastforce simp: changes_ok_def)
    then show ?thesis using Some \<open>(change_key c, c') \<in> set ch\<close> by (force simp: obj_set_same)
  qed (simp add: obj_set_absent)
  then show "snd ` set (obj_set ch (change_key c) c) = insert c (snd ` set ch)" "changes_ok (obj_set ch (change_key c) c)"
    using assms by (auto simp: changes_ok_def)
qed

definition collect_changes :: "(PeerPresence \<Rightarrow> bool) \<Rightarrow> PeerPresence obj \<Rightarrow> PresenceChange obj \<Rightarrow> PresenceChange obj" where
  "collect_changes P es ch = fold (\<lambda>(key, entry) changed. if P entry
     then obj_set changed (targetKey (pp_entityId entry) (pp_channel entry)) (change_of entry) else changed) es ch"

lemma collect_simps:
  "collect_changes P [] ch = ch"
  "collect_changes P ((k, e) # es) ch = collect_changes P es (if P e then obj_set ch (change_key (change_of e)) (change_of e) else ch)"
  by (simp_all add: collect_changes_def)

lemma collect_changes_spec:
  assumes "\<forall>e \<in> snd ` set es. clean_peer e" "changes_ok ch"
  shows "snd ` set (collect_changes P es ch) = change_of ` {e \<in> snd ` set es. P e} \<union> snd ` set ch \<and> changes_ok (collect_changes P es ch)"
  using assms
proof (induction es arbitrary: ch)
  case (Cons x es)
  obtain k e where x: "x = (k, e)" by (cases x)
  let ?ch = "if P e then obj_set ch (change_key (change_of e)) (change_of e) else ch"
  have ch: "changes_ok ?ch" "snd ` set ?ch = (if P e then {change_of e} else {}) \<union> snd ` set ch"
    using Cons.prems change_set [of ch "change_of e"] by (simp_all add: x clean_peer_def)
  then show ?case using Cons.IH [of ?ch] Cons.prems by (auto simp: x collect_simps)
qed (simp add: collect_simps)

lemma expired_changes_collect: "expired_changes t s = collect_changes (expired_at t s) (ps_entries s) []"
  by (simp add: expired_changes_def collect_changes_def)

lemma map_of_filter_ok:
  "obj_ok es \<Longrightarrow> map_of (filter (\<lambda>(k, e). P k e) es) k = (case map_of es k of None \<Rightarrow> None | Some e \<Rightarrow> if P k e then Some e else None)"
proof (induction es)
  case (Cons x es)
  obtain k' e where x: "x = (k', e)" by (cases x)
  have "k \<notin> fst ` set es" if "k = k'" using Cons.prems that by (simp add: x obj_ok_def)
  then have "map_of (filter (\<lambda>(k, e). P k e) es) k = None" "map_of es k = None" if "k = k'" using that by (force simp: map_of_eq_None_iff)+
  with Cons show ?case by (auto simp: x obj_ok_def)
qed simp

definition clean_event :: "presence_event \<Rightarrow> bool" where
  "clean_event ev = (case ev of Packet payload r a \<Rightarrow> (case parsePresenceEvent payload of
       None \<Rightarrow> True | Some e \<Rightarrow> NUL \<notin> set (pe_entityId e) \<and> NUL \<notin> set (pe_channel e)) | _ \<Rightarrow> True)"

abbreviation peers :: "PresenceStore \<Rightarrow> PeerPresence set" where
  "peers s \<equiv> snd ` set (ps_entries s)"

lemma peers_iff: "obj_ok (ps_entries s) \<Longrightarrow> e \<in> peers s \<longleftrightarrow> (\<exists>k. map_of (ps_entries s) k = Some e)"
  by (force simp: obj_ok_def)

text \<open>What one packet changes: the peers that expired, and those of its own target.\<close>

definition new_peer :: "ParsedPresenceEvent \<Rightarrow> int \<Rightarrow> PeerPresence" where
  "new_peer event t = \<lparr>pp_actorId = pe_actorId event, pp_entityId = pe_entityId event, pp_channel = pe_channel event,
     pp_data = pe_value event, pp_updatedAt = t\<rparr>"

abbreviation event_key :: "ParsedPresenceEvent \<Rightarrow> string" where
  "event_key event \<equiv> entryKey (pe_entityId event) (pe_channel event) (pe_actorId event)"

lemma ingest_entry:
  assumes "peers_ok s" "ingest_event event t s = (s', ch)"
  shows "if k = event_key event then map_of (ps_entries s') k \<in> {None, Some (new_peer event t)}
    else map_of (ps_entries s') k = map_of (ps_entries s) k \<or> map_of (ps_entries s') k = None \<and>
      (\<exists>e. map_of (ps_entries s) k = Some e \<and> (expired_at t s e \<or> on_target (pe_entityId event) (pe_channel event) e))"
proof -
  let ?s1 = "s\<lparr>ps_entries := filter (\<lambda>(_, e). \<not> expired_at t s e) (ps_entries s)\<rparr>"
  let ?s2 = "?s1\<lparr>ps_entries := obj_set (ps_entries ?s1) (event_key event) (new_peer event t)\<rparr>"
  have dist: "obj_ok (ps_entries s)" using assms(1) by (simp add: peers_ok_def)
  then have dist1: "obj_ok (ps_entries ?s1)" by (simp add: obj_ok_def distinct_map_filter)
  then have dist2: "obj_ok (ps_entries ?s2)" by (simp add: obj_set_ok)
  have s1: "map_of (ps_entries ?s1) k = (case map_of (ps_entries s) k of None \<Rightarrow> None | Some e \<Rightarrow> if \<not> expired_at t s e then Some e else None)"
    using map_of_filter_ok [OF dist, where P = "\<lambda>_ e. \<not> expired_at t s e"] by simp
  have s2: "map_of (ps_entries ?s2) k = (if k = event_key event then Some (new_peer event t) else map_of (ps_entries ?s1) k)" by (simp add: obj_set_get)
  show ?thesis
  proof (cases "pe_value event = JNull")
    case True
    then have "s' = ?s1 \<and> map_of (ps_entries ?s1) (event_key event) = None \<or> s' = ?s1\<lparr>ps_entries := obj_delete (ps_entries ?s1) (event_key event)\<rparr>"
      using assms(2) dist by (auto simp: ingest_event_def expireAt_eq Let_def split: if_splits)
    then have "map_of (ps_entries s') k = (if k = event_key event then None else map_of (ps_entries ?s1) k)" by (auto simp: obj_delete_get)
    then show ?thesis using s1 by (auto split: option.splits if_splits)
  next
    case False
    then have s': "s' = enforceCap (pe_entityId event) (pe_channel event) ?s2"
      using assms(2) dist by (auto simp: ingest_event_def expireAt_eq Let_def new_peer_def)
    have at: "map_of (ps_entries s') k = (if k \<in> evicted_keys (pe_entityId event) (pe_channel event) ?s2 then None else map_of (ps_entries ?s2) k)"
      using map_of_filter_ok [OF dist2, where P = "\<lambda>k _. k \<notin> evicted_keys (pe_entityId event) (pe_channel event) ?s2" and k = k]
      by (simp add: s' enforceCap_eq split: option.splits)
    show ?thesis
    proof (cases "k \<in> evicted_keys (pe_entityId event) (pe_channel event) ?s2 \<and> k \<noteq> event_key event")
      case True
      then obtain e where "(k, e) \<in> set (ps_entries ?s2)" and e: "on_target (pe_entityId event) (pe_channel event) e" using evicted_on_target by blast
      then have "map_of (ps_entries ?s2) k = Some e" using dist2 by (simp add: obj_ok_def)
      then have "map_of (ps_entries s) k = Some e" using True s1 s2 by (auto split: option.splits if_splits)
      then show ?thesis using True at e by simp
    next
      case False
      then show ?thesis using at s1 s2 by (cases "k = event_key event") (simp_all split: option.splits if_splits)
    qed
  qed
qed

lemma event_key_target:
  assumes "entry_ok s (event_key event, e)" "clean_peer e" "NUL \<notin> set (pe_entityId event)" "NUL \<notin> set (pe_channel event)"
  shows "on_target (pe_entityId event) (pe_channel event) e"
  using assms by (auto simp: entry_ok_def entryKey_def targetKey_def clean_peer_def clean_change_def change_of_def on_target_def split_at_sep)

lemma ingest_reported:
  assumes "peers_ok s" "\<forall>e \<in> peers s. clean_peer e" "NUL \<notin> set (pe_entityId event)" "NUL \<notin> set (pe_channel event)"
    "pe_actorId event \<noteq> ps_localActorId s" "\<not> ps_closed s" "ingest_event event t s = (s', ch)"
  shows "\<forall>e \<in> peers s'. clean_peer e" "(e \<in> peers s) \<noteq> (e \<in> peers s') \<Longrightarrow> change_of e \<in> snd ` set ch"
proof -
  let ?c = "\<lparr>pc_entityId = pe_entityId event, pc_channel = pe_channel event\<rparr>"
  have dist: "obj_ok (ps_entries s)" "obj_ok (ps_entries s')" using assms(1) peers_ok_ingest [OF assms(1,5,6,7)] by (simp_all add: peers_ok_def)
  have c: "clean_change ?c" "targetKey (pe_entityId event) (pe_channel event) = change_key ?c" "change_of (new_peer event t) = ?c"
    using assms(3,4) by (simp_all add: clean_change_def change_key_def change_of_def new_peer_def)
  have exp: "snd ` set (expired_changes t s) = change_of ` {e \<in> peers s. expired_at t s e}" "changes_ok (expired_changes t s)"
    using collect_changes_spec [OF assms(2), of "[]" "expired_at t s"] by (simp_all add: expired_changes_collect changes_ok_def)
  have ch: "change_of ` {e \<in> peers s. expired_at t s e} \<subseteq> snd ` set ch"
    and own: "?c \<in> snd ` set ch \<or> s' = s\<lparr>ps_entries := filter (\<lambda>(_, e). \<not> expired_at t s e) (ps_entries s)\<rparr>"
    using assms(7) dist(1) change_set(1) [OF exp(2) c(1)] exp(1)
    by (auto simp: ingest_event_def expireAt_eq Let_def c(2) split: if_splits)
  have target: "change_of e = ?c" if "on_target (pe_entityId event) (pe_channel event) e" for e
    using that by (simp add: on_target_def change_of_def)
  note entry = ingest_entry [OF assms(1,7)]
  show "\<forall>e \<in> peers s'. clean_peer e"
  proof
    fix e
    assume "e \<in> peers s'"
    then obtain k where "map_of (ps_entries s') k = Some e" by (auto simp: peers_iff [OF dist(2)])
    then have "e = new_peer event t \<or> map_of (ps_entries s) k = Some e" using entry [of k] by (auto split: if_splits)
    then have "e = new_peer event t \<or> e \<in> peers s" using peers_iff [OF dist(1)] by blast
    then show "clean_peer e" using assms(2) c(1,3) by (auto simp: clean_peer_def)
  qed
  assume differs: "(e \<in> peers s) \<noteq> (e \<in> peers s')"
  show "change_of e \<in> snd ` set ch"
  proof (cases "?c \<in> snd ` set ch")
    case False
    then have s': "s' = s\<lparr>ps_entries := filter (\<lambda>(_, e). \<not> expired_at t s e) (ps_entries s)\<rparr>" using own by blast
    then have "e \<in> peers s \<and> expired_at t s e" using differs by force
    with ch show ?thesis by blast
  next
    case True
    obtain k where k: "map_of (ps_entries s) k = Some e \<and> map_of (ps_entries s') k \<noteq> Some e \<or> map_of (ps_entries s') k = Some e \<and> map_of (ps_entries s) k \<noteq> Some e"
      using differs peers_iff [OF dist(1)] peers_iff [OF dist(2)] by metis
    have "change_of e = ?c \<or> e \<in> peers s \<and> expired_at t s e"
    proof (cases "k = event_key event")
      case True
      then have "map_of (ps_entries s) k = Some e \<or> e = new_peer event t" using k entry [of k] by auto
      moreover have "change_of e = ?c" if "map_of (ps_entries s) k = Some e"
      proof -
        have "(event_key event, e) \<in> set (ps_entries s)" using that True map_of_SomeD by fast
        then have "entry_ok s (event_key event, e)" "clean_peer e" using assms(1,2) by (auto simp: peers_ok_def list_all_iff)
        from event_key_target [OF this assms(3,4)] show ?thesis by (rule target)
      qed
      ultimately show ?thesis using c(3) by blast
    next
      case False
      then show ?thesis using k entry [of k] target peers_iff [OF dist(1)] by auto
    qed
    then show ?thesis using ch True by (elim disjE) (simp, blast)
  qed
qed

lemma peers_filter: "snd ` set (filter (\<lambda>(_, e). P e) es) = {e \<in> snd ` set es. P e}"
  by force

text \<open>The peers a read returns for a target, by actor.\<close>

lemma forEntity_get:
  assumes "peers_ok s"
  shows "map_of (forEntity entityId channel s) a = Some e \<longleftrightarrow> e \<in> peers s \<and> on_target entityId channel e \<and> pp_actorId e = a"
proof -
  have same: "e = e'" if two: "e \<in> peers s" "e' \<in> peers s" "on_target entityId channel e" "on_target entityId channel e'" "pp_actorId e = pp_actorId e'" for e e'
  proof -
    obtain k k' where k: "(k, e) \<in> set (ps_entries s)" "(k', e') \<in> set (ps_entries s)" using two(1,2) by auto
    then have "entry_ok s (k, e)" "entry_ok s (k', e')" using assms by (auto simp: peers_ok_def list_all_iff)
    then have "k = k'" using two(3-5) by (simp add: entry_ok_def on_target_def)
    then show ?thesis using k assms eq_key_imp_eq_value by (fastforce simp: peers_ok_def obj_ok_def)
  qed
  have "map_of (fold (\<lambda>(key, entry) out. if on_target entityId channel entry then obj_set out (pp_actorId entry) entry else out) es out) a = Some e \<longleftrightarrow>
      (\<exists>e' \<in> snd ` set es. on_target entityId channel e' \<and> pp_actorId e' = a) \<and> e \<in> snd ` set es \<and> on_target entityId channel e \<and> pp_actorId e = a \<or>
      \<not> (\<exists>e' \<in> snd ` set es. on_target entityId channel e' \<and> pp_actorId e' = a) \<and> map_of out a = Some e"
    if "snd ` set es \<subseteq> peers s" for es out
    using that
  proof (induction es rule: rev_induct)
    case (snoc x es)
    obtain k e' where x: "x = (k, e')" by (cases x)
    show ?case
    proof (cases "on_target entityId channel e' \<and> pp_actorId e' = a")
      case True
      have "e \<in> snd ` set (es @ [x]) \<and> on_target entityId channel e \<and> pp_actorId e = a \<longleftrightarrow> e = e'"
        using True same [of e e'] snoc.prems by (auto simp: x)
      then show ?thesis using True by (auto simp: x obj_set_get)
    next
      case False
      then show ?thesis using snoc by (auto simp: x obj_set_get)
    qed
  qed simp
  from this [of "ps_entries s" "[]"] show ?thesis by (auto simp: forEntity_def)
qed

lemma step_reported:
  assumes "peers_ok s" "\<forall>e \<in> peers s. clean_peer e" "clean_event ev"
  shows "\<forall>e \<in> peers (presence_step ev s). clean_peer e"
    "ev \<noteq> ClosePeers \<Longrightarrow> (e \<in> peers s) \<noteq> (e \<in> peers (presence_step ev s)) \<Longrightarrow>
      change_of e \<in> set (drop (length (ps_notified s)) (ps_notified (presence_step ev s)))"
proof -
  have dist: "obj_ok (ps_entries s)" using assms(1) by (simp add: peers_ok_def)
  have "(\<forall>e \<in> peers (presence_step ev s). clean_peer e) \<and> (ev \<noteq> ClosePeers \<longrightarrow> (\<forall>e. (e \<in> peers s) \<noteq> (e \<in> peers (presence_step ev s)) \<longrightarrow>
      change_of e \<in> set (drop (length (ps_notified s)) (ps_notified (presence_step ev s)))))"
  proof (cases ev)
    case (Packet payload r a)
    show ?thesis
    proof (cases "ps_closed s \<or> (\<forall>event. parsePresenceEvent payload = Some event \<longrightarrow> pe_actorId event = ps_localActorId s)")
      case True
      then have "presence_step ev s = s" by (auto simp: Packet presence_step_def presence_ingest_def split: option.split)
      then show ?thesis using assms(2) by simp
    next
      case False
      then obtain event where event: "parsePresenceEvent payload = Some event" "pe_actorId event \<noteq> ps_localActorId s" "\<not> ps_closed s" by blast
      obtain s' ch where s': "ingest_event event r s = (s', ch)" by fastforce
      have "ps_notified s' = ps_notified s" using s' dist by (auto simp: ingest_event_def expireAt_eq enforceCap_eq Let_def split: if_splits)
      then have "peers (presence_step ev s) = peers s'" "drop (length (ps_notified s)) (ps_notified (presence_step ev s)) = map snd ch"
        using event s' by (simp_all add: Packet presence_step_def presence_ingest_def)
      moreover have "NUL \<notin> set (pe_entityId event)" "NUL \<notin> set (pe_channel event)" using assms(3) event by (simp_all add: Packet clean_event_def)
      ultimately show ?thesis using ingest_reported [OF assms(1,2) _ _ event(2,3) s'] by simp
    qed
  next
    case (SweepFires now a)
    have "snd ` set (expired_changes now (s\<lparr>ps_timer := None\<rparr>)) = change_of ` {e \<in> peers s. expired_at now s e}"
      using collect_changes_spec [OF assms(2), of "[]" "expired_at now s"] by (simp add: expired_changes_collect changes_ok_def)
    then have told: "set (map snd (expired_changes now (s\<lparr>ps_timer := None\<rparr>))) = change_of ` {e \<in> peers s. expired_at now s e}" by simp
    show ?thesis
    proof (cases "ps_timer s")
      case (Some d)
      let ?s = "presence_step ev s"
      have "ps_entries ?s = filter (\<lambda>(_, e). \<not> expired_at now s e) (ps_entries s)"
        "drop (length (ps_notified s)) (ps_notified ?s) = map snd (expired_changes now (s\<lparr>ps_timer := None\<rparr>))"
        using Some dist by (simp_all add: SweepFires presence_step_def sweep_def expireAt_eq)
      then have "peers ?s = {e \<in> peers s. \<not> expired_at now s e}"
        "set (drop (length (ps_notified s)) (ps_notified ?s)) = change_of ` {e \<in> peers s. expired_at now s e}"
        using told peers_filter [where P = "\<lambda>e. \<not> expired_at now s e" and es = "ps_entries s"] by (simp_all only:)
      then show ?thesis using assms(2) by blast
    qed (use assms(2) in \<open>simp add: SweepFires presence_step_def\<close>)
  next
    case ClearPeers
    have "snd ` set (collect_changes (\<lambda>_. True) (ps_entries s) []) = change_of ` peers s"
      using collect_changes_spec [OF assms(2), of "[]" "\<lambda>_. True"] by (simp add: changes_ok_def)
    then show ?thesis by (auto simp: ClearPeers presence_step_def presence_clear_def releaseTimer_def Let_def collect_changes_def)
  next
    case ClosePeers
    then show ?thesis by (simp add: presence_step_def presence_close_def)
  qed
  then show "\<forall>e \<in> peers (presence_step ev s). clean_peer e"
    "ev \<noteq> ClosePeers \<Longrightarrow> (e \<in> peers s) \<noteq> (e \<in> peers (presence_step ev s)) \<Longrightarrow>
      change_of e \<in> set (drop (length (ps_notified s)) (ps_notified (presence_step ev s)))" by blast+
qed

text \<open>
  C30: every change is reported. Whenever a packet, the sweep or a disconnect changes what a read of an
  (entity, channel) target returns, for whichever actor, the listeners are told that target, provided the
  entity ids and channel names that arrive do not contain the separator of the keys.
\<close>

theorem presence_changes_reported:
  assumes "list_all clean_event (evs @ [ev])" "ev \<noteq> ClosePeers"
    and s: "s = presence_run actor channels evs" "s' = presence_step ev s"
    and "map_of (forEntity entityId channel s') a \<noteq> map_of (forEntity entityId channel s) a"
  shows "\<lparr>pc_entityId = entityId, pc_channel = channel\<rparr> \<in> set (drop (length (ps_notified s)) (ps_notified s'))"
proof -
  have clean: "\<forall>e \<in> peers (fold presence_step evs r). clean_peer e" if "peers_ok r" "\<forall>e \<in> peers r. clean_peer e" "list_all clean_event evs" for r
    using that
  proof (induction evs arbitrary: r)
    case (Cons ev evs)
    have "clean_event ev" "list_all clean_event evs" using Cons.prems(3) by simp_all
    then show ?case using Cons.IH [OF peers_ok_step [OF Cons.prems(1)] step_reported(1) [OF Cons.prems(1,2)]] by simp
  qed simp
  have ok: "peers_ok s" "peers_ok s'" unfolding s by (intro peers_ok_step peers_ok_run create_peers_ok)+
  have "\<forall>e \<in> peers s. clean_peer e" unfolding s using assms(1) by (intro clean create_peers_ok) (simp_all add: createPresenceStore_def)
  moreover obtain e where "(e \<in> peers s) \<noteq> (e \<in> peers s')" "on_target entityId channel e"
  proof -
    consider e where "map_of (forEntity entityId channel s) a = Some e" "map_of (forEntity entityId channel s') a \<noteq> Some e"
      | e where "map_of (forEntity entityId channel s') a = Some e" "map_of (forEntity entityId channel s) a \<noteq> Some e"
      using assms(5) by (cases "map_of (forEntity entityId channel s) a"; cases "map_of (forEntity entityId channel s') a") auto
    then show ?thesis
    proof cases
      case (1 e)
      then show ?thesis using that [of e] forEntity_get [OF ok(1), of entityId channel a e] forEntity_get [OF ok(2), of entityId channel a e] by simp
    next
      case (2 e)
      then show ?thesis using that [of e] forEntity_get [OF ok(1), of entityId channel a e] forEntity_get [OF ok(2), of entityId channel a e] by simp
    qed
  qed
  ultimately have "change_of e \<in> set (drop (length (ps_notified s)) (ps_notified s'))"
    using step_reported(2) [OF ok(1) _ _ assms(2)] assms(1) s(2) by simp
  then show ?thesis using \<open>on_target _ _ e\<close> by (simp add: change_of_def on_target_def)
qed

section \<open>Sample runs\<close>

definition sample_packet :: "string \<Rightarrow> json \<Rightarrow> json" where
  "sample_packet actor v = JObj [(''actor_id'', JStr actor), (''entity_id'', JStr ''e_1''),
     (''data'', JObj [(''channel'', JStr ''cursor''), (''value'', v)])]"

definition sample_stream :: "presence_event list" where
  "sample_stream = [Packet (sample_packet ''a_bo'' (JNum 3)) 100 101, Packet (sample_packet ''a_me'' (JNum 4)) 200 200,
     Packet (sample_packet ''a_cy'' (JNum 5)) 20000 20000]"


theorem presence_changes_reported_witness:
  "\<lparr>pc_entityId = ''e_1'', pc_channel = ''cursor''\<rparr> \<in> set (drop (length (ps_notified (presence_run ''a_me'' None sample_stream)))
     (ps_notified (presence_step (SweepFires 30100 30100) (presence_run ''a_me'' None sample_stream))))"
proof (rule presence_changes_reported [OF _ _ refl refl])
  show "list_all clean_event (sample_stream @ [SweepFires 30100 30100])" by code_simp
  show "map_of (forEntity ''e_1'' ''cursor'' (presence_step (SweepFires 30100 30100) (presence_run ''a_me'' None sample_stream))) ''a_bo'' \<noteq>
      map_of (forEntity ''e_1'' ''cursor'' (presence_run ''a_me'' None sample_stream)) ''a_bo''" by code_simp
qed simp


theorem presence_bounded_witness:
  "int (count_on ''e_1'' ''cursor'' (ps_entries (presence_run ''a_me'' None sample_stream))) \<le> DEFAULT_PRESENCE_MAX_ENTRIES"
proof -
  have "ps_channels (presence_run ''a_me'' None sample_stream) = None" by code_simp
  then have "capOf (presence_run ''a_me'' None sample_stream) ''cursor'' = Some DEFAULT_PRESENCE_MAX_ENTRIES"
    by (simp add: capOf_def channel_config_def)
  then show ?thesis
    using presence_bounded [where actor = "''a_me''" and channels = None and evs = sample_stream and channel = "''cursor''" and entityId = "''e_1''"] by (simp add: Let_def DEFAULT_PRESENCE_MAX_ENTRIES_def)
qed


end
