(* ===== verification/Permission.thy ===== *)
theory Permission
  imports ReverseIndex
begin

text \<open>
  The local permission pre-check and its query (packages/client/src/sync/permission.ts, with the membership
  reads of entity-group.ts).

  The storage reads the check makes are the functions of a record, as the source takes a storage adapter;
  the check does not write, so the reads of one pass are answers of one state of the store. A permission is
  \<^verbatim>\<open><type>.<verb>\<close> or \<^verbatim>\<open><type>.*\<close> in a group's list.
\<close>

section \<open>Data\<close>

datatype PermissionVerb = VCreate | VUpdate | VDelete

datatype PermissionViolation =
    MissingPermission string string string "string list"
  | TypeMismatch string string string "string list"
  | SourceMismatch string string string string "string list"
  | MethodUnsupported string string update_method "string list"

record ResolvedRule =
  rr_type :: string
  rr_verb :: PermissionVerb
  rr_required :: string
  rr_groupIds :: "string list"
  rr_cachedOnly :: bool

datatype CanUnknownReason = NoHandshake | EntityUnknown | NoOwner

datatype RefusalDetail =
    RefusedType string
  | RefusedSource string string
  | RefusedMethod update_method

datatype RuleResolution =
    OneRule ResolvedRule
  | AllRules "ResolvedRule list"
  | Refused "string list" RefusalDetail
  | Unresolved CanUnknownReason

text \<open>Also the answer of \<^verbatim>\<open>can()\<close>, which has the same three variants.\<close>

datatype RuleDecision =
    Allowed "string list"
  | Denied PermissionViolation
  | Unknown CanUnknownReason

record LiveMembership =
  lm_membershipId :: string
  lm_entityId :: string
  lm_groupId :: string

record StorageReads =
  sr_get :: "string \<Rightarrow> Entity option"
  sr_query :: "string \<Rightarrow> Entity list"
  sr_membershipLinks :: "string \<Rightarrow> MembershipLink list"

record PermissionContext =
  cx_actorId :: string
  cx_actorGroups :: "(string \<times> string list) list"
  cx_storage :: StorageReads

record RuleInputs =
  ri_fieldValue :: "string \<Rightarrow> json option"
  ri_exists :: "string \<Rightarrow> Entity option"
  ri_resolveType :: "string \<Rightarrow> string option"
  ri_groupSetFor :: "string \<Rightarrow> string list"
  ri_committedGroupSetFor :: "string \<Rightarrow> string list"
  ri_readMembership :: "string \<Rightarrow> LiveMembership option"

definition SYSTEM_TYPES :: "string list" where
  "SYSTEM_TYPES = [''group'', ''groupMember'', ''relationship'', ''entityGroup'']"

definition METHOD_VERB :: "update_method \<Rightarrow> PermissionVerb" where
  "METHOD_VERB m = (case m of Put \<Rightarrow> VCreate | Patch \<Rightarrow> VUpdate | Delete \<Rightarrow> VDelete)"

definition METHOD_BY_VERB :: "PermissionVerb \<Rightarrow> update_method" where
  "METHOD_BY_VERB v = (case v of VCreate \<Rightarrow> Put | VUpdate \<Rightarrow> Patch | VDelete \<Rightarrow> Delete)"

definition verb_name :: "PermissionVerb \<Rightarrow> string" where
  "verb_name v = (case v of VCreate \<Rightarrow> ''create'' | VUpdate \<Rightarrow> ''update'' | VDelete \<Rightarrow> ''delete'')"

definition permission_name :: "string \<Rightarrow> PermissionVerb \<Rightarrow> string" where
  "permission_name type verb = type @ ''.'' @ verb_name verb"

section \<open>Membership rows\<close>

definition liveMembership :: "Entity \<Rightarrow> LiveMembership option" where
  "liveMembership row =
     (if deleted_hlc row \<noteq> None then None
      else (case (readStringField row ''group_id'', readStringField row ''entity_id'') of
          (Some groupId, Some entityId) \<Rightarrow> Some \<lparr>lm_membershipId = ent_id row, lm_entityId = entityId, lm_groupId = groupId\<rparr>
        | _ \<Rightarrow> None))"

definition readEntityMemberships :: "StorageReads \<Rightarrow> string \<Rightarrow> LiveMembership list" where
  "readEntityMemberships storage entityId =
     map (\<lambda>link. \<lparr>lm_membershipId = membershipId link, lm_entityId = entityId, lm_groupId = link_groupId link\<rparr>)
       (sr_membershipLinks storage entityId)"

definition readMembership :: "StorageReads \<Rightarrow> string \<Rightarrow> LiveMembership option" where
  "readMembership storage rowId' = (case sr_get storage rowId' of
     None \<Rightarrow> None
   | Some row \<Rightarrow> if ent_type row \<noteq> ''entityGroup'' then None else liveMembership row)"

section \<open>The rule table\<close>

definition grantsPermission :: "string list \<Rightarrow> string \<Rightarrow> PermissionVerb \<Rightarrow> bool" where
  "grantsPermission permissions type verb \<longleftrightarrow>
     permission_name type verb \<in> set permissions \<or> type @ ''.*'' \<in> set permissions"

definition fieldValue :: "Update \<Rightarrow> string \<Rightarrow> json option" where
  "fieldValue update name = Option.bind (upd_data update) (\<lambda>flds. Option.bind (map_of flds name)
     (\<lambda>f. case f of Leaf v u h \<Rightarrow> Some v | FMap m \<Rightarrow> None))"

definition row_value :: "Entity \<Rightarrow> string \<Rightarrow> json option" where
  "row_value row name = Option.bind (map_of (ent_fields row) name)
     (\<lambda>f. case wireValue f of Leaf v u h \<Rightarrow> Some v | FMap m \<Rightarrow> None)"

definition asString :: "json option \<Rightarrow> string option" where
  "asString v = (case v of Some (JStr s) \<Rightarrow> Some s | _ \<Rightarrow> None)"

definition asStringArray :: "json option \<Rightarrow> string list" where
  "asStringArray v = (case v of
     Some (JArr xs) \<Rightarrow> List.map_filter (\<lambda>x. case x of JStr s \<Rightarrow> Some s | _ \<Rightarrow> None) xs
   | _ \<Rightarrow> [])"

definition committedRelationshipSource :: "string \<Rightarrow> RuleInputs \<Rightarrow> string option" where
  "committedRelationshipSource subjectId inputs = (case ri_exists inputs subjectId of
     None \<Rightarrow> None
   | Some row \<Rightarrow> if ent_type row \<noteq> ''relationship'' \<or> deleted_hlc row \<noteq> None then None else asString (row_value row ''source_id''))"

definition resolveMembershipGroupIds :: "string \<Rightarrow> RuleInputs \<Rightarrow> string list" where
  "resolveMembershipGroupIds subjectId inputs = (case asString (ri_fieldValue inputs ''group_id'') of
     Some wire \<Rightarrow> [wire]
   | None \<Rightarrow> (case Option.bind (ri_exists inputs subjectId) (\<lambda>row. asString (row_value row ''group_id'')) of
       None \<Rightarrow> [] | Some groupId \<Rightarrow> [groupId]))"

definition rule_for :: "string \<Rightarrow> PermissionVerb \<Rightarrow> string list \<Rightarrow> bool \<Rightarrow> ResolvedRule" where
  "rule_for type verb groupIds cachedOnly =
     \<lparr>rr_type = type, rr_verb = verb, rr_required = permission_name type verb, rr_groupIds = groupIds, rr_cachedOnly = cachedOnly\<rparr>"

definition resolveEntityGroup :: "string \<Rightarrow> update_method \<Rightarrow> RuleInputs \<Rightarrow> RuleResolution" where
  "resolveEntityGroup subjectId method inputs = (case method of
     Put \<Rightarrow> (case (asString (ri_fieldValue inputs ''group_id''), asString (ri_fieldValue inputs ''entity_id'')) of
         (Some groupId, Some entityId) \<Rightarrow> (case ri_resolveType inputs entityId of
             None \<Rightarrow> Unresolved EntityUnknown
           | Some type \<Rightarrow>
               (let sourceGroups = ri_committedGroupSetFor inputs entityId
                in AllRules ([rule_for type VCreate [groupId] True] @
                     (if sourceGroups \<noteq> [] then [rule_for type VUpdate sourceGroups True] else []))))
       | _ \<Rightarrow> Unresolved EntityUnknown)
   | Delete \<Rightarrow> (case ri_readMembership inputs subjectId of
       None \<Rightarrow> Unresolved EntityUnknown
     | Some membership \<Rightarrow> (case ri_resolveType inputs (lm_entityId membership) of
         None \<Rightarrow> Unresolved EntityUnknown
       | Some type \<Rightarrow> OneRule (rule_for type VUpdate (ri_groupSetFor inputs (lm_entityId membership)) True)))
   | Patch \<Rightarrow>
       (let groupId = (case asString (ri_fieldValue inputs ''group_id'') of
              Some g \<Rightarrow> Some g | None \<Rightarrow> map_option lm_groupId (ri_readMembership inputs subjectId))
        in Refused (case groupId of None \<Rightarrow> [] | Some g \<Rightarrow> [g]) (RefusedMethod method)))"

definition resolve_unmoved :: "update_method \<Rightarrow> RuleInputs \<Rightarrow> string option \<Rightarrow> string option \<Rightarrow> RuleResolution" where
  "resolve_unmoved method inputs declaredSourceId committedSourceId =
     (if method = Put
      then (case declaredSourceId of
          None \<Rightarrow> Unresolved EntityUnknown
        | Some declared \<Rightarrow> (case ri_resolveType inputs declared of
            None \<Rightarrow> Unresolved EntityUnknown
          | Some type \<Rightarrow>
              (let groupIds = ri_groupSetFor inputs declared
               in if groupIds = [] then Unresolved NoOwner else OneRule (rule_for type VUpdate groupIds False))))
      else (case (if method = Delete then committedSourceId else (case declaredSourceId of None \<Rightarrow> committedSourceId | Some d \<Rightarrow> Some d)) of
          None \<Rightarrow> Unresolved EntityUnknown
        | Some sourceId \<Rightarrow>
            (let groupIds = ri_groupSetFor inputs sourceId
             in if groupIds = [] then Unresolved NoOwner else OneRule (rule_for ''relationship'' (METHOD_VERB method) groupIds False))))"

definition resolveRelationship :: "string \<Rightarrow> update_method \<Rightarrow> RuleInputs \<Rightarrow> string set \<Rightarrow> RuleResolution" where
  "resolveRelationship subjectId method inputs released =
     (let declaredSourceId = asString (ri_fieldValue inputs ''source_id'');
          committedSourceId = committedRelationshipSource subjectId inputs;
          boundSourceId = (if subjectId \<in> released then None else committedSourceId)
      in case (declaredSourceId, boundSourceId) of
           (Some declared, Some bound) \<Rightarrow>
             if method \<noteq> Delete \<and> declared \<noteq> bound
             then Refused (ri_groupSetFor inputs bound) (RefusedSource declared bound)
             else resolve_unmoved method inputs declaredSourceId committedSourceId
         | _ \<Rightarrow> resolve_unmoved method inputs declaredSourceId committedSourceId)"

definition resolveRule :: "string \<Rightarrow> string \<Rightarrow> update_method \<Rightarrow> RuleInputs \<Rightarrow> string set \<Rightarrow> RuleResolution" where
  "resolveRule subjectType subjectId method inputs released =
     (let verb = METHOD_VERB method
      in if subjectType = ''group'' then OneRule (rule_for ''group'' verb [subjectId] False)
         else if subjectType = ''groupMember''
         then (let groupIds = resolveMembershipGroupIds subjectId inputs
               in if groupIds = [] then Unresolved EntityUnknown else OneRule (rule_for ''groupMember'' verb groupIds False))
         else if subjectType = ''entityGroup'' then resolveEntityGroup subjectId method inputs
         else if subjectType = ''relationship'' then resolveRelationship subjectId method inputs released
         else (let groupIds = ri_groupSetFor inputs subjectId
               in if groupIds = [] then Unresolved NoOwner
                  else (case ri_resolveType inputs subjectId of
                      None \<Rightarrow> OneRule (rule_for subjectType verb groupIds False)
                    | Some committedType \<Rightarrow>
                        if committedType \<noteq> subjectType then Refused groupIds (RefusedType committedType)
                        else OneRule (rule_for committedType verb groupIds False))))"

section \<open>Deciding a rule\<close>

text \<open>The distinct elements in the order of their first occurrence, \<^verbatim>\<open>[...new Set(xs)]\<close>.\<close>

definition unique :: "'a list \<Rightarrow> 'a list" where
  "unique xs = fold (\<lambda>x s. set_add s x) xs []"

definition buildPermissionsFor :: "string list obj \<Rightarrow> string list obj \<Rightarrow> string \<Rightarrow> bool \<Rightarrow> string list option" where
  "buildPermissionsFor cached bootstrap groupId cachedOnly =
     (let cachedPermissions = map_of cached groupId;
          declared = (if cachedOnly then None else map_of bootstrap groupId)
      in if cachedPermissions = None \<and> declared = None then None
         else Some (unique (getOr cachedPermissions [] @ getOr declared [])))"

definition ruleHolds :: "ResolvedRule \<Rightarrow> (string \<Rightarrow> bool \<Rightarrow> string list option) \<Rightarrow> bool" where
  "ruleHolds rule permissionsFor = list_ex (\<lambda>groupId. case permissionsFor groupId (rr_cachedOnly rule) of
     None \<Rightarrow> False | Some permissions \<Rightarrow> grantsPermission permissions (rr_type rule) (rr_verb rule)) (rr_groupIds rule)"

definition missingPermission :: "string \<times> string \<Rightarrow> ResolvedRule \<Rightarrow> PermissionViolation" where
  "missingPermission subject rule = MissingPermission (fst subject) (snd subject) (rr_required rule) (rr_groupIds rule)"

definition refusedViolation :: "string list \<Rightarrow> RefusalDetail \<Rightarrow> string \<times> string \<Rightarrow> PermissionViolation" where
  "refusedViolation groupIds detail subject = (case detail of
     RefusedType committedType \<Rightarrow> TypeMismatch (fst subject) (snd subject) committedType groupIds
   | RefusedMethod method \<Rightarrow> MethodUnsupported (fst subject) (snd subject) method groupIds
   | RefusedSource declared committed \<Rightarrow> SourceMismatch (fst subject) (snd subject) declared committed groupIds)"

definition decideRule :: "RuleResolution \<Rightarrow> string \<times> string \<Rightarrow> (string \<Rightarrow> bool \<Rightarrow> string list option) \<Rightarrow> RuleDecision" where
  "decideRule resolution subject permissionsFor = (case resolution of
     OneRule rule \<Rightarrow>
       if ruleHolds rule permissionsFor then Allowed (rr_groupIds rule) else Denied (missingPermission subject rule)
   | AllRules rules \<Rightarrow> (case List.find (\<lambda>rule. \<not> ruleHolds rule permissionsFor) rules of
       None \<Rightarrow> Allowed (unique (concat (map rr_groupIds rules)))
     | Some missing \<Rightarrow> Denied (missingPermission subject missing))
   | Refused groupIds detail \<Rightarrow> Denied (refusedViolation groupIds detail subject)
   | Unresolved reason \<Rightarrow> Unknown reason)"

section \<open>The write path\<close>

definition releasedByDeletes :: "string set \<Rightarrow> Update list \<Rightarrow> string set" where
  "releasedByDeletes released updates =
     released \<union> set (map subject_id (filter (\<lambda>u. subject_type u = ''relationship'' \<and> upd_method u = Delete) updates))"

definition merge_membership :: "string \<Rightarrow> Entity \<Rightarrow> string list obj \<Rightarrow> string list obj" where
  "merge_membership actorId row cached =
     (if deleted_hlc row \<noteq> None then cached
      else if row_value row ''actor_id'' \<noteq> Some (JStr actorId) then cached
      else (case asString (row_value row ''group_id'') of
          None \<Rightarrow> cached
        | Some groupId \<Rightarrow> obj_set cached groupId (unique (getOr (map_of cached groupId) [] @ asStringArray (row_value row ''permissions'')))))"

definition mergeLocalMemberships :: "PermissionContext \<Rightarrow> string list obj \<Rightarrow> string list obj" where
  "mergeLocalMemberships ctx cached = fold (merge_membership (cx_actorId ctx)) (sr_query (cx_storage ctx) ''groupMember'') cached"

text \<open>\<^verbatim>\<open>new Map(ctx.actorGroups.map(...))\<close>, then the actor's own rows.\<close>

definition cached_permissions :: "PermissionContext \<Rightarrow> string list obj" where
  "cached_permissions ctx = mergeLocalMemberships ctx (fold (\<lambda>(g, ps) m. obj_set m g ps) (cx_actorGroups ctx) [])"

definition new_groups :: "StorageReads \<Rightarrow> Update list \<Rightarrow> string list" where
  "new_groups storage updates = map subject_id (filter (\<lambda>u. subject_type u = ''group'' \<and> upd_method u = Put \<and>
     (case sr_get storage (subject_id u) of None \<Rightarrow> True | Some row \<Rightarrow> ent_type row \<noteq> ''group'')) updates)"

definition bootstrap_grants :: "PermissionContext \<Rightarrow> Update list \<Rightarrow> string list obj" where
  "bootstrap_grants ctx updates = fold (\<lambda>u m.
       if subject_type u \<noteq> ''groupMember'' \<or> upd_method u \<noteq> Put then m
       else if fieldValue u ''actor_id'' \<noteq> Some (JStr (cx_actorId ctx)) then m
       else (case asString (fieldValue u ''group_id'') of
           None \<Rightarrow> m
         | Some groupId \<Rightarrow> if groupId \<notin> set (new_groups (cx_storage ctx) updates) then m
             else obj_set m groupId (asStringArray (fieldValue u ''permissions''))))
     updates []"

definition created_types :: "Update list \<Rightarrow> string obj" where
  "created_types updates = fold (\<lambda>u m. if subject_type u \<in> set SYSTEM_TYPES \<or> upd_method u \<noteq> Put then m
     else obj_set m (subject_id u) (subject_type u)) updates []"

definition created_ids :: "StorageReads \<Rightarrow> Update list \<Rightarrow> string list" where
  "created_ids storage updates = filter (\<lambda>i. sr_get storage i = None) (obj_keys (created_types updates))"

definition write_resolveType :: "StorageReads \<Rightarrow> Update list \<Rightarrow> string \<Rightarrow> string option" where
  "write_resolveType storage updates entityId = (case sr_get storage entityId of
     Some existing \<Rightarrow> Some (ent_type existing) | None \<Rightarrow> map_of (created_types updates) entityId)"

definition committed_groups :: "StorageReads \<Rightarrow> string \<Rightarrow> string list" where
  "committed_groups storage entityId = map lm_groupId (readEntityMemberships storage entityId)"

definition inflight_group :: "string \<Rightarrow> Update \<Rightarrow> string option" where
  "inflight_group entityId u =
     (if subject_type u \<noteq> ''entityGroup'' \<or> upd_method u \<noteq> Put then None
      else if fieldValue u ''entity_id'' \<noteq> Some (JStr entityId) then None
      else asString (fieldValue u ''group_id''))"

definition write_groupSetFor :: "StorageReads \<Rightarrow> Update list \<Rightarrow> string \<Rightarrow> string list" where
  "write_groupSetFor storage updates entityId =
     unique (committed_groups storage entityId @ List.map_filter (inflight_group entityId) updates)"

definition isBootstrapExempt :: "PermissionContext \<Rightarrow> Update list \<Rightarrow> Update \<Rightarrow> bool" where
  "isBootstrapExempt ctx updates update =
     (let bootstrap = bootstrap_grants ctx updates; has = (\<lambda>g. map_of bootstrap g \<noteq> None)
      in if upd_method update \<noteq> Put then False
         else if subject_type update = ''group'' then has (subject_id update)
         else if subject_type update = ''groupMember''
         then fieldValue update ''actor_id'' = Some (JStr (cx_actorId ctx)) \<and>
              (case asString (fieldValue update ''group_id'') of None \<Rightarrow> False | Some g \<Rightarrow> has g)
         else if subject_type update = ''entityGroup''
         then (case (asString (fieldValue update ''group_id''), asString (fieldValue update ''entity_id'')) of
             (Some g, Some i) \<Rightarrow> has g \<and> i \<in> set (created_ids (cx_storage ctx) updates)
           | _ \<Rightarrow> False)
         else False)"

definition write_inputs :: "StorageReads \<Rightarrow> Update list \<Rightarrow> Update \<Rightarrow> RuleInputs" where
  "write_inputs storage updates update =
     \<lparr>ri_fieldValue = fieldValue update, ri_exists = sr_get storage, ri_resolveType = write_resolveType storage updates,
      ri_groupSetFor = write_groupSetFor storage updates, ri_committedGroupSetFor = committed_groups storage,
      ri_readMembership = readMembership storage\<rparr>"

definition check_update :: "PermissionContext \<Rightarrow> Update list \<Rightarrow> string set \<Rightarrow> Update \<Rightarrow> PermissionViolation option" where
  "check_update ctx updates released update =
     (case decideRule
         (resolveRule (subject_type update) (subject_id update) (upd_method update) (write_inputs (cx_storage ctx) updates update) released)
         (subject_type update, subject_id update)
         (buildPermissionsFor (cached_permissions ctx) (bootstrap_grants ctx updates)) of
        Denied violation \<Rightarrow> Some violation
      | _ \<Rightarrow> None)"

definition collectActionViolations :: "Action \<Rightarrow> PermissionContext \<Rightarrow> string set \<Rightarrow> PermissionViolation list \<times> string set" where
  "collectActionViolations action ctx releasedBefore =
     (let updates = act_updates action; released = releasedByDeletes releasedBefore updates
      in (List.map_filter (check_update ctx updates released) (filter (\<lambda>u. \<not> isBootstrapExempt ctx updates u) updates), released))"

fun collect_batch :: "PermissionContext \<Rightarrow> string set \<Rightarrow> Action list \<Rightarrow> PermissionViolation list" where
  "collect_batch ctx released [] = []"
| "collect_batch ctx released (action # actions) =
     (let (violations, releasedHere) = collectActionViolations action ctx released
      in violations @ collect_batch ctx (if violations = [] then releasedHere else released) actions)"

definition collectPermissionViolations :: "Action list \<Rightarrow> PermissionContext \<Rightarrow> PermissionViolation list" where
  "collectPermissionViolations actions ctx = (if cx_actorGroups ctx = [] then [] else collect_batch ctx {} actions)"

section \<open>The query path\<close>

definition query_inputs :: "StorageReads \<Rightarrow> Entity \<Rightarrow> RuleInputs" where
  "query_inputs storage row =
     \<lparr>ri_fieldValue = row_value row, ri_exists = sr_get storage, ri_resolveType = (\<lambda>i. map_option ent_type (sr_get storage i)),
      ri_groupSetFor = committed_groups storage, ri_committedGroupSetFor = committed_groups storage,
      ri_readMembership = readMembership storage\<rparr>"

definition queryEntityPermission :: "string \<Rightarrow> PermissionVerb \<Rightarrow> bool \<Rightarrow> PermissionContext \<Rightarrow> RuleDecision" where
  "queryEntityPermission i verb handshaken ctx =
     (if \<not> handshaken then Unknown NoHandshake
      else (case sr_get (cx_storage ctx) i of
          None \<Rightarrow> Unknown EntityUnknown
        | Some row \<Rightarrow> decideRule
            (resolveRule (ent_type row) i (METHOD_BY_VERB verb) (query_inputs (cx_storage ctx) row) {})
            (ent_type row, i) (buildPermissionsFor (cached_permissions ctx) [])))"

definition isVerb :: "string \<Rightarrow> PermissionVerb option" where
  "isVerb v = (if v = ''create'' then Some VCreate else if v = ''update'' then Some VUpdate else if v = ''delete'' then Some VDelete else None)"

text \<open>The text up to the last dot and the text after it; \<^const>\<open>None\<close> when there is none.\<close>

definition split_last_dot :: "string \<Rightarrow> (string \<times> string) option" where
  "split_last_dot s = (if CHR ''.'' \<notin> set s then None
     else Some (rev (tl (dropWhile (\<lambda>c. c \<noteq> CHR ''.'') (rev s))), rev (takeWhile (\<lambda>c. c \<noteq> CHR ''.'') (rev s))))"

definition parsePermission :: "string \<Rightarrow> (string \<times> PermissionVerb) option" where
  "parsePermission permission = (case split_last_dot permission of
     None \<Rightarrow> None
   | Some (type, verb) \<Rightarrow> if type = [] then None else map_option (\<lambda>v. (type, v)) (isVerb verb))"

text \<open>\<^const>\<open>None\<close> is the \<^verbatim>\<open>TypeError\<close> of a malformed permission.\<close>

definition queryActorPermission :: "string \<Rightarrow> bool \<Rightarrow> PermissionContext \<Rightarrow> RuleDecision option" where
  "queryActorPermission permission handshaken ctx = (case parsePermission permission of
     None \<Rightarrow> None
   | Some (type, verb) \<Rightarrow> Some
       (if \<not> handshaken then Unknown NoHandshake
        else (let cached = cached_permissions ctx; groupIds = obj_keys cached
              in if list_ex (\<lambda>g. grantsPermission (getOr (map_of cached g) []) type verb) groupIds then Allowed groupIds
                 else Denied (MissingPermission type ''*'' (permission_name type verb) groupIds))))"

section \<open>Shared facts\<close>

lemma unique_set [simp]: "set (unique xs) = set xs"
proof -
  have "set (fold (\<lambda>x s. set_add s x) xs acc) = set acc \<union> set xs" for acc
    by (induction xs arbitrary: acc) (auto simp: set_add_set)
  then show ?thesis by (simp add: unique_def)
qed

lemma unique_distinct: "distinct xs \<Longrightarrow> unique xs = xs"
proof -
  have "distinct (acc @ xs) \<Longrightarrow> fold (\<lambda>x s. set_add s x) xs acc = acc @ xs" for acc
    by (induction xs arbitrary: acc) (auto simp: set_add_def)
  from this [of "[]"] show "distinct xs \<Longrightarrow> unique xs = xs" by (simp add: unique_def)
qed

lemma grants_cong: "set ps = set qs \<Longrightarrow> grantsPermission ps t v = grantsPermission qs t v"
  by (simp add: grantsPermission_def)

lemma ruleHolds_iff:
  "ruleHolds rule f \<longleftrightarrow> (\<exists>g \<in> set (rr_groupIds rule). \<exists>ps. f g (rr_cachedOnly rule) = Some ps \<and> grantsPermission ps (rr_type rule) (rr_verb rule))"
  by (auto simp: ruleHolds_def list_ex_iff split: option.splits)

lemma permissions_cached:
  assumes "cachedOnly \<or> map_of bootstrap g = None"
  shows "(\<exists>ps. buildPermissionsFor cached bootstrap g cachedOnly = Some ps \<and> grantsPermission ps t v) \<longleftrightarrow>
    (\<exists>ps. map_of cached g = Some ps \<and> grantsPermission ps t v)"
  using assms by (cases "map_of cached g") (auto simp: buildPermissionsFor_def Let_def grantsPermission_def)

text \<open>An Action declares a grant only for groups it creates.\<close>

lemma bootstrap_new:
  assumes "map_of (bootstrap_grants ctx updates) g = Some ps"
  shows "g \<in> set (new_groups (cx_storage ctx) updates)"
proof -
  let ?f = "\<lambda>u m. if subject_type u \<noteq> ''groupMember'' \<or> upd_method u \<noteq> Put then m
       else if fieldValue u ''actor_id'' \<noteq> Some (JStr (cx_actorId ctx)) then m
       else (case asString (fieldValue u ''group_id'') of
           None \<Rightarrow> m
         | Some groupId \<Rightarrow> if groupId \<notin> set (new_groups (cx_storage ctx) updates) then m
             else obj_set m groupId (asStringArray (fieldValue u ''permissions'')))"
  have "g \<in> set (new_groups (cx_storage ctx) updates) \<or> map_of m g \<noteq> None" if "map_of (fold ?f us m) g \<noteq> None" for us m
    using that
  proof (induction us arbitrary: m)
    case (Cons u us)
    from Cons.IH [of "?f u m"] Cons.prems show ?case by (auto simp: obj_set_get split: if_splits option.splits)
  qed simp
  from this [of updates "[]"] assms show ?thesis by (auto simp: bootstrap_grants_def)
qed

lemma known_group_no_grant:
  "sr_get (cx_storage ctx) g = Some row \<Longrightarrow> ent_type row = ''group'' \<Longrightarrow> map_of (bootstrap_grants ctx updates) g = None"
  by (cases "map_of (bootstrap_grants ctx updates) g") (auto dest!: bootstrap_new simp: new_groups_def)

lemma no_members_no_grant: "\<forall>u \<in> set updates. subject_type u \<noteq> ''groupMember'' \<Longrightarrow> bootstrap_grants ctx updates = []"
proof -
  assume none: "\<forall>u \<in> set updates. subject_type u \<noteq> ''groupMember''"
  have skip: "fold f us m = m" if "\<And>u. u \<in> set us \<Longrightarrow> f u m = m" for f us and m :: "string list obj" using that by (induction us) auto
  show ?thesis unfolding bootstrap_grants_def by (rule skip) (simp add: none)
qed

section \<open>Both paths decide alike\<close>


section \<open>What a passing write rests on\<close>

lemma passing_update:
  assumes "fst (collectActionViolations action ctx before) = []" "u \<in> set (act_updates action)" "\<not> isBootstrapExempt ctx (act_updates action) u"
  shows "check_update ctx (act_updates action) (releasedByDeletes before (act_updates action)) u = None"
  using assms by (auto simp: collectActionViolations_def Let_def map_filter_def filter_empty_conv)

text \<open>
  C27: filing a foreign entity into one's own group does not open it. When an Action passes and writes a row
  that the store knows and has filed in groups it also knows, then the write declares the row's own type, and
  in one of the groups where the row already lives the actor's membership grants the verb used or at least
  the update of that type; an \<^verbatim>\<open>entityGroup\<close> put or a group creation in the same Action is never enough.
\<close>

theorem passing_write_rests_on_home_group:
  assumes "fst (collectActionViolations action ctx before) = []" "u \<in> set (act_updates action)" "subject_type u \<notin> set SYSTEM_TYPES"
    and row: "sr_get (cx_storage ctx) (subject_id u) = Some row" "committed_groups (cx_storage ctx) (subject_id u) \<noteq> []"
    and known: "\<forall>g \<in> set (committed_groups (cx_storage ctx) (subject_id u)). \<exists>r. sr_get (cx_storage ctx) g = Some r \<and> ent_type r = ''group''"
  shows "subject_type u = ent_type row \<and> (\<exists>g \<in> set (committed_groups (cx_storage ctx) (subject_id u)). \<exists>ps. map_of (cached_permissions ctx) g = Some ps \<and>
    (grantsPermission ps (ent_type row) (METHOD_VERB (upd_method u)) \<or> grantsPermission ps (ent_type row) VUpdate))"
proof -
  let ?us = "act_updates action" and ?st = "cx_storage ctx" and ?i = "subject_id u"
  let ?perm = "buildPermissionsFor (cached_permissions ctx) (bootstrap_grants ctx ?us)"
  have types: "subject_type u \<noteq> ''group''" "subject_type u \<noteq> ''groupMember''" "subject_type u \<noteq> ''entityGroup''" "subject_type u \<noteq> ''relationship''"
    using assms(3) by (auto simp: SYSTEM_TYPES_def)
  then have "\<not> isBootstrapExempt ctx ?us u" by (simp add: isBootstrapExempt_def)
  note pass = passing_update [OF assms(1,2) this]
  have groups: "write_groupSetFor ?st ?us ?i \<noteq> []" using row(2) unique_set [of "committed_groups ?st ?i @ List.map_filter (inflight_group ?i) ?us"]
    by (auto simp: write_groupSetFor_def simp flip: set_empty)
  have type: "subject_type u = ent_type row" and rule: "ruleHolds (rule_for (ent_type row) (METHOD_VERB (upd_method u)) (write_groupSetFor ?st ?us ?i) False) ?perm"
    using pass types groups row(1)
    by (auto simp: check_update_def resolveRule_def write_inputs_def write_resolveType_def decideRule_def Let_def split: if_splits)
  obtain g ps where g: "g \<in> set (write_groupSetFor ?st ?us ?i)" "?perm g False = Some ps" "grantsPermission ps (ent_type row) (METHOD_VERB (upd_method u))"
    using rule by (auto simp: ruleHolds_iff rule_for_def)
  have home: "(\<exists>ps. ?perm g b = Some ps \<and> grantsPermission ps t v) \<longleftrightarrow> (\<exists>ps. map_of (cached_permissions ctx) g = Some ps \<and> grantsPermission ps t v)"
    if mem: "g \<in> set (committed_groups ?st ?i)" for g b t v
  proof -
    obtain r where "sr_get ?st g = Some r" "ent_type r = ''group''" using known mem by blast
    then show ?thesis using known_group_no_grant by (intro permissions_cached) simp
  qed
  show ?thesis
  proof (cases "g \<in> set (committed_groups ?st ?i)")
    case True
    then show ?thesis using type g home [OF True] by blast
  next
    case False
    then obtain f where f: "f \<in> set ?us" "inflight_group ?i f = Some g" using g(1) by (auto simp: write_groupSetFor_def map_filter_def)
    then have put: "subject_type f = ''entityGroup''" "upd_method f = Put" "asString (fieldValue f ''entity_id'') = Some ?i" "asString (fieldValue f ''group_id'') = Some g"
      by (auto simp: inflight_group_def asString_def split: if_splits)
    have "\<not> isBootstrapExempt ctx ?us f" using put row(1) by (simp add: isBootstrapExempt_def created_ids_def)
    from passing_update [OF assms(1) f(1) this] have "ruleHolds (rule_for (ent_type row) VUpdate (committed_groups ?st ?i) True) ?perm"
      using put row by (auto simp: check_update_def resolveRule_def resolveEntityGroup_def write_inputs_def write_resolveType_def decideRule_def Let_def
          split: if_splits)
    then obtain g' ps' where "g' \<in> set (committed_groups ?st ?i)" "?perm g' True = Some ps'" "grantsPermission ps' (ent_type row) VUpdate"
      by (auto simp: ruleHolds_iff rule_for_def)
    then show ?thesis using type home [of g' True "ent_type row" VUpdate] by blast
  qed
qed


section \<open>Moving an edge\<close>

definition is_source_mismatch :: "string \<Rightarrow> PermissionViolation \<Rightarrow> bool" where
  "is_source_mismatch i v = (case v of SourceMismatch t j d c gs \<Rightarrow> j = i | _ \<Rightarrow> False)"

lemma unmoved_not_refused: "resolve_unmoved method inputs d c \<noteq> Refused gs detail"
  by (auto simp: resolve_unmoved_def Let_def split: option.splits if_splits)

lemma released_no_mismatch:
  assumes "check_update ctx us released u = Some v" "is_source_mismatch i v"
  shows "subject_id u = i \<and> i \<notin> released"
proof -
  have entity: "resolveEntityGroup s m inputs \<noteq> Refused gs (RefusedSource d c)" for s m inputs gs d c
    by (auto simp: resolveEntityGroup_def Let_def split: update_method.splits option.splits)
  have rel: "s \<notin> rel" if "resolveRelationship s m inputs rel = Refused gs (RefusedSource d c)" for s m inputs rel gs d c
    using that unmoved_not_refused by (auto simp: resolveRelationship_def Let_def split: option.splits if_splits)
  have "s \<notin> rel" if "resolveRule t s m inputs rel = Refused gs (RefusedSource d c)" for t s m inputs rel gs d c
    using that entity rel by (auto simp: resolveRule_def Let_def split: option.splits if_splits)
  then show ?thesis using assms
    by (auto simp: check_update_def decideRule_def is_source_mismatch_def missingPermission_def refusedViolation_def
        split: RuleResolution.splits RefusalDetail.splits RuleDecision.splits if_splits option.splits)
qed

text \<open>
  An edge moves by delete and put, not by re-pointing. A put that declares another source for a live
  relationship row is refused whatever the actor is granted; after an accepted Action of the same batch that
  deletes the row, it is not refused for its source, and a refused delete does not release it.
\<close>

theorem edge_moves_by_delete_and_put:
  assumes "sr_get (cx_storage ctx) r = Some row" "ent_type row = ''relationship''" "deleted_hlc row = None"
    and "asString (row_value row ''source_id'') = Some s0" "cx_actorGroups ctx \<noteq> []"
    and put: "subject_type u = ''relationship''" "subject_id u = r" "upd_method u = Put" "asString (fieldValue u ''source_id'') = Some s1" "s1 \<noteq> s0"
      "act_updates move = [u]"
  shows "collectPermissionViolations [move] ctx = [SourceMismatch ''relationship'' r s1 s0 (write_groupSetFor (cx_storage ctx) [u] s0)] \<and>
    (\<forall>d \<in> set (act_updates del). subject_type d = ''relationship'' \<and> subject_id d = r \<and> upd_method d = Delete \<longrightarrow>
       (if collectPermissionViolations [del] ctx = [] then list_all (\<lambda>v. \<not> is_source_mismatch r v) (collectPermissionViolations [del, move] ctx)
        else collectPermissionViolations [del, move] ctx = collectPermissionViolations [del] ctx @ collectPermissionViolations [move] ctx))"
proof -
  have source: "committedRelationshipSource r (write_inputs (cx_storage ctx) [u] u) = Some s0"
    using assms(1-4) by (simp add: committedRelationshipSource_def write_inputs_def)
  have exempt: "\<not> isBootstrapExempt ctx [u] u" using put by (simp add: isBootstrapExempt_def)
  have move: "fst (collectActionViolations move ctx rel) = (case check_update ctx [u] rel u of None \<Rightarrow> [] | Some v \<Rightarrow> [v])" for rel
  proof -
    have "releasedByDeletes rel [u] = rel" using put(3) by (auto simp: releasedByDeletes_def)
    then show ?thesis using put(6) exempt by (simp add: collectActionViolations_def Let_def map_filter_simps split: option.split)
  qed
  have refused: "check_update ctx [u] {} u = Some (SourceMismatch ''relationship'' r s1 s0 (write_groupSetFor (cx_storage ctx) [u] s0))"
    using put source by (simp add: check_update_def resolveRule_def resolveRelationship_def Let_def decideRule_def refusedViolation_def write_inputs_def)
  have batch: "collectPermissionViolations [a] ctx = fst (collectActionViolations a ctx {})" for a
    using assms(5) by (simp add: collectPermissionViolations_def case_prod_beta Let_def)
  have two: "collectPermissionViolations [del, move] ctx = fst (collectActionViolations del ctx {}) @
      fst (collectActionViolations move ctx (if fst (collectActionViolations del ctx {}) = [] then snd (collectActionViolations del ctx {}) else {}))"
    using assms(5) by (simp add: collectPermissionViolations_def case_prod_beta Let_def)
  have released: "r \<in> snd (collectActionViolations del ctx {})" if "d \<in> set (act_updates del)" "subject_type d = ''relationship''" "subject_id d = r" "upd_method d = Delete" for d
    using that by (auto simp: collectActionViolations_def releasedByDeletes_def Let_def)
  show ?thesis
    unfolding two batch move using refused released released_no_mismatch [of ctx "[u]" _ u _ r]
    by (auto split: option.split)
qed

section \<open>Permission strings\<close>

text \<open>
  Permission strings round trip. A type, dots included, and a verb joined by a dot parse back into that
  type and verb; and whatever parses is the string it was parsed from.
\<close>

theorem permission_roundtrip:
  "(type \<noteq> [] \<longrightarrow> parsePermission (permission_name type verb) = Some (type, verb)) \<and>
   (parsePermission p = Some (t, v) \<longrightarrow> t \<noteq> [] \<and> p = permission_name t v)"
proof (intro conjI impI)
  assume "type \<noteq> []"
  then show "parsePermission (permission_name type verb) = Some (type, verb)"
    by (cases verb) (simp_all add: parsePermission_def permission_name_def split_last_dot_def verb_name_def isVerb_def)
next
  assume parse: "parsePermission p = Some (t, v)"
  then obtain w where w: "split_last_dot p = Some (t, w)" "t \<noteq> []" "isVerb w = Some v" by (auto simp: parsePermission_def split: option.splits if_splits)
  show "t \<noteq> []" by (rule w(2))
  have dot: "CHR ''.'' \<in> set p" using w(1) by (auto simp: split_last_dot_def split: if_splits)
  then obtain a b where ab: "rev p = a @ CHR ''.'' # b" "CHR ''.'' \<notin> set a" by (metis split_list_first set_rev)
  have "\<And>x. x \<in> set a \<Longrightarrow> x \<noteq> CHR ''.''" using ab(2) by blast
  then have "takeWhile (\<lambda>c. c \<noteq> CHR ''.'') (rev p) = a" "dropWhile (\<lambda>c. c \<noteq> CHR ''.'') (rev p) = CHR ''.'' # b"
    unfolding ab(1) by (simp_all add: takeWhile_append2 dropWhile_append2)
  moreover have "p = rev b @ CHR ''.'' # rev a" using arg_cong [OF ab(1), of rev] by simp
  ultimately have "p = rev (tl (dropWhile (\<lambda>c. c \<noteq> CHR ''.'') (rev p))) @ CHR ''.'' # rev (takeWhile (\<lambda>c. c \<noteq> CHR ''.'') (rev p))" by simp
  then have "p = t @ ''.'' @ w" using w(1) dot by (simp add: split_last_dot_def)
  moreover have "w = verb_name v" using w(3) by (auto simp: isVerb_def verb_name_def split: if_splits)
  ultimately show "p = permission_name t v" by (simp add: permission_name_def)
qed


section \<open>Sample store\<close>

definition sample_row :: "string \<Rightarrow> string \<Rightarrow> (string \<times> json) list \<Rightarrow> Entity" where
  "sample_row i t vs = \<lparr>ent_id = i, ent_type = t, ent_fields = map (\<lambda>(k, v). (k, Plain (Leaf v ''u_0'' (Some 1)))) vs,
     created_hlc = 1, updated_hlc = 1, deleted_hlc = None, last_gsn = 1\<rparr>"

definition sample_rows :: "Entity list" where
  "sample_rows = [sample_row ''e_note'' ''note'' [], sample_row ''g_1'' ''group'' [],
     sample_row ''r_1'' ''relationship'' [(''source_id'', JStr ''e_note'')]]"

definition sample_storage :: StorageReads where
  "sample_storage = \<lparr>sr_get = (\<lambda>i. List.find (\<lambda>r. ent_id r = i) sample_rows), sr_query = (\<lambda>t. filter (\<lambda>r. ent_type r = t) sample_rows),
     sr_membershipLinks = (\<lambda>i. if i = ''e_note'' then [\<lparr>membershipId = ''m_1'', link_groupId = ''g_1''\<rparr>] else [])\<rparr>"

definition sample_ctx :: PermissionContext where
  "sample_ctx = \<lparr>cx_actorId = ''a_al'', cx_actorGroups = [(''g_1'', [''note.update'', ''relationship.*''])], cx_storage = sample_storage\<rparr>"

definition sample_update :: "string \<Rightarrow> string \<Rightarrow> update_method \<Rightarrow> (string \<times> json) list \<Rightarrow> Update" where
  "sample_update t i m vs = \<lparr>upd_id = ''u_9'', subject_id = i, subject_type = t, upd_method = m,
     upd_data = Some (map (\<lambda>(k, v). (k, Leaf v ''u_9'' (Some 9))) vs)\<rparr>"

definition sample_action :: "Update list \<Rightarrow> Action" where
  "sample_action us = \<lparr>act_id = ''x_1'', actor_id = ''a_al'', act_hlc = 9, act_gsn = 0, act_updates = us\<rparr>"


theorem passing_write_rests_on_home_group_witness:
  "\<exists>g \<in> set (committed_groups sample_storage ''e_note''). \<exists>ps. map_of (cached_permissions sample_ctx) g = Some ps \<and>
     (grantsPermission ps ''note'' VUpdate \<or> grantsPermission ps ''note'' VUpdate)"
proof -
  let ?u = "sample_update ''note'' ''e_note'' Patch [(''title'', JStr ''x'')]"
  have "fst (collectActionViolations (sample_action [?u]) sample_ctx {}) = []" by code_simp
  moreover have "?u \<in> set (act_updates (sample_action [?u]))" "subject_type ?u \<notin> set SYSTEM_TYPES" by code_simp+
  moreover have "sr_get (cx_storage sample_ctx) (subject_id ?u) = Some (sample_row ''e_note'' ''note'' [])"
    "committed_groups (cx_storage sample_ctx) (subject_id ?u) \<noteq> []" by code_simp+
  moreover have "\<forall>g \<in> set (committed_groups (cx_storage sample_ctx) (subject_id ?u)). \<exists>r. sr_get (cx_storage sample_ctx) g = Some r \<and> ent_type r = ''group''"
  proof -
    have "committed_groups (cx_storage sample_ctx) (subject_id ?u) = [''g_1'']" by code_simp
    moreover have "sr_get (cx_storage sample_ctx) ''g_1'' = Some (sample_row ''g_1'' ''group'' [])" by code_simp
    ultimately show ?thesis by (simp add: sample_row_def)
  qed
  ultimately show ?thesis
    using passing_write_rests_on_home_group [of "sample_action [?u]" sample_ctx "{}" ?u "sample_row ''e_note'' ''note'' []"]
    by (simp add: sample_row_def sample_update_def sample_ctx_def METHOD_VERB_def)
qed

theorem edge_moves_by_delete_and_put_witness:
  "list_all (\<lambda>v. \<not> is_source_mismatch ''r_1'' v)
     (collectPermissionViolations [sample_action [sample_update ''relationship'' ''r_1'' Delete []],
        sample_action [sample_update ''relationship'' ''r_1'' Put [(''source_id'', JStr ''e_other'')]]] sample_ctx)"
proof -
  let ?u = "sample_update ''relationship'' ''r_1'' Put [(''source_id'', JStr ''e_other'')]"
  let ?d = "sample_update ''relationship'' ''r_1'' Delete []"
  let ?row = "sample_row ''r_1'' ''relationship'' [(''source_id'', JStr ''e_note'')]"
  have del: "collectPermissionViolations [sample_action [?d]] sample_ctx = []" by code_simp
  have "sr_get (cx_storage sample_ctx) ''r_1'' = Some ?row" "ent_type ?row = ''relationship''" "deleted_hlc ?row = None"
    "asString (row_value ?row ''source_id'') = Some ''e_note''" "cx_actorGroups sample_ctx \<noteq> []" by code_simp+
  note moved = edge_moves_by_delete_and_put [OF this, of ?u "''e_other''" "sample_action [?u]" "sample_action [?d]"]
  show ?thesis using moved del by (simp add: sample_update_def sample_action_def asString_def fieldValue_def)
qed

theorem permission_roundtrip_witness:
  "parsePermission (permission_name ''app.note'' VUpdate) = Some (''app.note'', VUpdate)"
  using permission_roundtrip [where type = "''app.note''" and verb = VUpdate] by simp


end
