(* ===== verification/Replica.thy ===== *)
theory Replica
  imports Stores Complex_Main
begin

text \<open>
  The materialized replica (packages/storage/src/replica/replica.ts, content-changed.ts): the durable
  base rows, the overlay of optimistic writes and the cached composed view, the adjacency indices over
  that view, the change journal with its revisions, and the pins of on-demand rows.

  The closure state of \<^verbatim>\<open>createReplica\<close> is the record \<open>Replica\<close>, its options the record
  \<open>ReplicaConfig\<close>; every function takes and returns the state. A promise of \<^verbatim>\<open>open\<close> is known by the
  epoch it was started with: \<open>open'\<close> is the synchronous part of a call, \<open>open_resolved\<close> and
  \<open>open_rejected\<close> are the callbacks that run when the local read settles. A timer of a closed pin is
  the flag \<open>pin_timer\<close>, and \<open>pin_expired\<close> the callback of a timer that is still armed. The calls of
  \<^verbatim>\<open>notify\<close> are counted; the listeners themselves are callbacks of the application.

  \<^verbatim>\<open>===\<close> on two field values compares references, which a model of values does not have: it is the
  parameter \<open>refEq\<close>, of which the proofs use only that identical references hold equal values.
\<close>

section \<open>Content comparison (content-changed.ts)\<close>

function fieldValueEqual :: "(field_value \<Rightarrow> field_value \<Rightarrow> bool) \<Rightarrow> field_value \<Rightarrow> field_value \<Rightarrow> bool" where
  "fieldValueEqual refEq a b =
     (if refEq a b then True
      else (case (a, b) of
         (FMap am, FMap bm) \<Rightarrow>
           if length am \<noteq> length bm then False
           else list_all (\<lambda>kv. case map_of bm (fst kv) of
               None \<Rightarrow> False | Some right \<Rightarrow> fieldValueEqual refEq (snd kv) right) am
       | _ \<Rightarrow> False))"
  by pat_completeness auto
termination
  by (relation "measure (\<lambda>(r, a, b). size a)") (auto simp: size_entry)

text \<open>
  Field names of a row are compared the same way. A resident container reads as a map, so the values
  compared are the wire values.
\<close>

definition fieldsEqual :: "(field_value \<Rightarrow> field_value \<Rightarrow> bool) \<Rightarrow> resident obj \<Rightarrow> resident obj \<Rightarrow> bool" where
  "fieldsEqual refEq a b =
     (if length (obj_keys a) \<noteq> length (obj_keys b) then False
      else list_all (\<lambda>kv. case map_of b (fst kv) of
          None \<Rightarrow> False | Some right \<Rightarrow> fieldValueEqual refEq (wireValue (snd kv)) (wireValue right)) a)"

definition contentChanged ::
  "(field_value \<Rightarrow> field_value \<Rightarrow> bool) \<Rightarrow> Entity option \<Rightarrow> Entity option \<Rightarrow> bool" where
  "contentChanged refEq prev next' =
     (case (prev, next') of
        (Some p, Some n) \<Rightarrow>
          if ent_type p \<noteq> ent_type n then True
          else if updated_hlc p \<noteq> updated_hlc n then True
          else if deleted_hlc p \<noteq> deleted_hlc n then True
          else \<not> fieldsEqual refEq (ent_fields p) (ent_fields n)
      | _ \<Rightarrow> (prev = None) \<noteq> (next' = None))"

section \<open>Configuration\<close>

text \<open>A number option: a finite number, or one of \<^verbatim>\<open>NaN\<close> and the infinities.\<close>

datatype js_number = Finite rat | NotFinite

definition DEFAULT_JOURNAL_CAPACITY :: nat where "DEFAULT_JOURNAL_CAPACITY = 1024"
definition DEFAULT_PINNED_CAPACITY :: nat where "DEFAULT_PINNED_CAPACITY = 16"
definition DEFAULT_PINNED_TTL_MS :: rat where "DEFAULT_PINNED_TTL_MS = 30000"

text \<open>The capacity \<^verbatim>\<open>Infinity\<close> is \<^const>\<open>None\<close>.\<close>

definition capacityOf :: "js_number option \<Rightarrow> nat \<Rightarrow> nat option" where
  "capacityOf capacity fallback =
     (case capacity of
        None \<Rightarrow> Some fallback
      | Some NotFinite \<Rightarrow> None
      | Some (Finite q) \<Rightarrow> if q \<le> 0 then None else Some (max 1 (nat \<lfloor>q\<rfloor>)))"

definition pinnedTtlOf :: "js_number option \<Rightarrow> rat option" where
  "pinnedTtlOf ttlMs =
     (case ttlMs of
        None \<Rightarrow> Some DEFAULT_PINNED_TTL_MS
      | Some NotFinite \<Rightarrow> None
      | Some (Finite q) \<Rightarrow> if q \<le> 0 then None else Some q)"

record ReplicaConfig =
  holds :: "string \<Rightarrow> bool"
  journalCapacity :: "nat option"
  pinnedCapacity :: "nat option"
  pinnedTtlMs :: "rat option"
  refEq :: "field_value \<Rightarrow> field_value \<Rightarrow> bool"

definition holdAll :: "string \<Rightarrow> bool" where "holdAll type = True"

definition createConfig ::
  "(string \<Rightarrow> bool) option \<Rightarrow> js_number option \<Rightarrow> js_number option \<Rightarrow> js_number option \<Rightarrow>
   (field_value \<Rightarrow> field_value \<Rightarrow> bool) \<Rightarrow> ReplicaConfig" where
  "createConfig policy journal pinned ttl eq =
     \<lparr>holds = getOr policy holdAll, journalCapacity = capacityOf journal DEFAULT_JOURNAL_CAPACITY,
      pinnedCapacity = capacityOf pinned DEFAULT_PINNED_CAPACITY, pinnedTtlMs = pinnedTtlOf ttl, refEq = eq\<rparr>"

section \<open>State\<close>

record Pin =
  pin_open :: bool
  pin_timer :: bool

record OptimisticWrite =
  ow_actionId :: string
  ow_update :: Update
  ow_hlc :: hlc

record OrphanUpdate =
  or_update :: Update
  or_gsn :: int
  or_hlc :: hlc
  or_position :: int

record ReplicaChange =
  ch_revision :: int
  ch_id :: string
  ch_type :: string
  ch_deleted :: bool

record Replica =
  rp_entities :: "Entity obj"
  rp_typeIndex :: "string list obj"
  rp_overlay :: "OptimisticWrite list obj"
  rp_effective :: "Entity option obj"
  rp_orphans :: "OrphanUpdate list obj"
  rp_pins :: "Pin obj"
  rp_inFlightOpens :: "int obj"
  rp_openEpochs :: "int obj"
  rp_nextOpenEpoch :: int
  rp_pendingOpens :: "OrphanUpdate list obj"
  rp_journal :: "ReplicaChange list"
  rp_journalStart :: nat
  rp_reverseIndex :: ReverseIndex
  rp_forwardIndex :: ReverseIndex
  rp_revision :: int
  rp_changeFloor :: int
  rp_lastPosition :: int
  rp_notified :: nat

definition createReplica :: Replica where
  "createReplica = \<lparr>rp_entities = [], rp_typeIndex = [], rp_overlay = [], rp_effective = [],
     rp_orphans = [], rp_pins = [], rp_inFlightOpens = [], rp_openEpochs = [], rp_nextOpenEpoch = 0,
     rp_pendingOpens = [], rp_journal = [], rp_journalStart = 0, rp_reverseIndex = [], rp_forwardIndex = [],
     rp_revision = 0, rp_changeFloor = 0, rp_lastPosition = 0, rp_notified = 0\<rparr>"

definition notify :: "Replica \<Rightarrow> Replica" where
  "notify st = st\<lparr>rp_notified := Suc (rp_notified st)\<rparr>"

section \<open>Helpers\<close>

definition addToType :: "string \<Rightarrow> string \<Rightarrow> Replica \<Rightarrow> Replica" where
  "addToType type eid st =
     (case map_of (rp_typeIndex st) type of
        None \<Rightarrow> st\<lparr>rp_typeIndex := obj_set (rp_typeIndex st) type [eid]\<rparr>
      | Some ids \<Rightarrow> st\<lparr>rp_typeIndex := obj_set (rp_typeIndex st) type (set_add ids eid)\<rparr>)"

definition removeFromType :: "string \<Rightarrow> string \<Rightarrow> Replica \<Rightarrow> Replica" where
  "removeFromType type eid st =
     (case map_of (rp_typeIndex st) type of
        None \<Rightarrow> st
      | Some ids \<Rightarrow>
          (let ids' = set_remove ids eid in
           if length ids' = 0 then st\<lparr>rp_typeIndex := obj_delete (rp_typeIndex st) type\<rparr>
           else st\<lparr>rp_typeIndex := obj_set (rp_typeIndex st) type ids'\<rparr>))"

definition pinned :: "Replica \<Rightarrow> string \<Rightarrow> bool" where
  "pinned st eid \<longleftrightarrow> map_of (rp_pins st) eid \<noteq> None"

definition resident_row :: "ReplicaConfig \<Rightarrow> Replica \<Rightarrow> Entity \<Rightarrow> bool" where
  "resident_row cfg st row \<longleftrightarrow> holds cfg (ent_type row) \<or> pinned st (ent_id row)"

definition releasePin :: "string \<Rightarrow> Replica \<Rightarrow> Replica" where
  "releasePin eid st = (if \<not> pinned st eid then st else st\<lparr>rp_pins := obj_delete (rp_pins st) eid\<rparr>)"

definition cancelOpen :: "string \<Rightarrow> Replica \<Rightarrow> Replica" where
  "cancelOpen eid st =
     (if map_of (rp_inFlightOpens st) eid = None then st
      else st\<lparr>rp_inFlightOpens := obj_delete (rp_inFlightOpens st) eid,
              rp_pendingOpens := obj_delete (rp_pendingOpens st) eid,
              rp_nextOpenEpoch := rp_nextOpenEpoch st + 1,
              rp_openEpochs := obj_set (rp_openEpochs st) eid (rp_nextOpenEpoch st + 1)\<rparr>)"

subsection \<open>Journal\<close>

definition retainedChanges :: "Replica \<Rightarrow> nat" where
  "retainedChanges st = length (rp_journal st) - rp_journalStart st"

definition trimJournal :: "ReplicaConfig \<Rightarrow> Replica \<Rightarrow> Replica" where
  "trimJournal cfg st =
     (case journalCapacity cfg of
        None \<Rightarrow> st
      | Some capacity \<Rightarrow>
          if retainedChanges st \<le> capacity then st
          else
            (let start = rp_journalStart st + (retainedChanges st - capacity);
                 st1 = st\<lparr>rp_journalStart := start, rp_changeFloor := ch_revision (rp_journal st ! (start - 1))\<rparr>
             in if start * 2 \<ge> length (rp_journal st)
                then st1\<lparr>rp_journal := drop start (rp_journal st), rp_journalStart := 0\<rparr> else st1))"

definition bump :: "ReplicaConfig \<Rightarrow> string \<Rightarrow> string \<Rightarrow> bool \<Rightarrow> Replica \<Rightarrow> Replica" where
  "bump cfg eid type deleted st =
     (let rev = rp_revision st + 1 in
      trimJournal cfg (st\<lparr>rp_revision := rev,
        rp_journal := rp_journal st @ [\<lparr>ch_revision = rev, ch_id = eid, ch_type = type, ch_deleted = deleted\<rparr>]\<rparr>))"

subsection \<open>Reads of the composed view\<close>

definition viewOf :: "Replica \<Rightarrow> string \<Rightarrow> Entity option" where
  "viewOf st eid = (case map_of (rp_effective st) eid of
     Some row \<Rightarrow> row | None \<Rightarrow> map_of (rp_entities st) eid)"

definition replica_get :: "Replica \<Rightarrow> string \<Rightarrow> Entity option" where
  "replica_get st eid = (case map_of (rp_effective st) eid of
     Some row \<Rightarrow> row | None \<Rightarrow> map_of (rp_entities st) eid)"

definition replica_base :: "Replica \<Rightarrow> string \<Rightarrow> Entity option" where
  "replica_base st eid = map_of (rp_entities st) eid"

definition iterate :: "Replica \<Rightarrow> string \<Rightarrow> Entity list" where
  "iterate st type =
     (let ids = fold (\<lambda>(eid, row) s. if (case row of Some r \<Rightarrow> ent_type r = type | None \<Rightarrow> False)
                                     then set_add s eid else set_remove s eid)
            (rp_effective st) (getOr (map_of (rp_typeIndex st) type) [])
      in concat (map (\<lambda>eid. case replica_get st eid of None \<Rightarrow> [] | Some row \<Rightarrow> [row]) ids))"

section \<open>Folding durable Updates\<close>

definition bufferUpdate :: "OrphanUpdate list obj \<Rightarrow> OrphanUpdate \<Rightarrow> OrphanUpdate list obj" where
  "bufferUpdate buffer entry =
     (let eid = subject_id (or_update entry) in
      case map_of buffer eid of
        None \<Rightarrow> obj_set buffer eid [entry]
      | Some pending \<Rightarrow> obj_set buffer eid (pending @ [entry]))"

text \<open>Replay of the buffered Updates newer than a \<^verbatim>\<open>put\<close>, in gsn order.\<close>

definition replayOrphans :: "OrphanUpdate list \<Rightarrow> int \<Rightarrow> Entity \<Rightarrow> Entity" where
  "replayOrphans pending gsn next' =
     (let survivors = sort_key or_gsn (filter (\<lambda>o'. or_gsn o' > gsn) pending) in
      fold (\<lambda>o' row. getOr (applyUpdate True (Some row) (or_update o') (or_gsn o') (or_hlc o')) row)
        survivors next')"

definition foldBase :: "ReplicaConfig \<Rightarrow> Update \<Rightarrow> int \<Rightarrow> hlc \<Rightarrow> int \<Rightarrow> Replica \<Rightarrow> Replica" where
  "foldBase cfg update gsn h position st =
     (let eid = subject_id update;
          entry = \<lparr>or_update = update, or_gsn = gsn, or_hlc = h, or_position = position\<rparr>;
          foreign = (\<not> holds cfg (subject_type update) \<and> \<not> pinned st eid)
      in
      if foreign \<and> map_of (rp_inFlightOpens st) eid \<noteq> None
      then st\<lparr>rp_pendingOpens := bufferUpdate (rp_pendingOpens st) entry\<rparr>
      else
        (let previous = map_of (rp_entities st) eid in
         case applyUpdate True previous update gsn h of
           None \<Rightarrow>
             if foreign then st else st\<lparr>rp_orphans := bufferUpdate (rp_orphans st) entry\<rparr>
         | Some next' \<Rightarrow>
             if \<not> resident_row cfg st next'
             then
               (let st1 = (case previous of
                      None \<Rightarrow> st
                    | Some p \<Rightarrow> removeFromType (ent_type p) eid
                                 (st\<lparr>rp_entities := obj_delete (rp_entities st) eid\<rparr>))
                in if upd_method update = Put then st1\<lparr>rp_orphans := obj_delete (rp_orphans st1) eid\<rparr> else st1)
             else
               (let st1 = st\<lparr>rp_entities := obj_set (rp_entities st) eid next'\<rparr>;
                    st2 = (case previous of
                        None \<Rightarrow> st1
                      | Some p \<Rightarrow> if ent_type p \<noteq> ent_type next' then removeFromType (ent_type p) eid st1 else st1);
                    st3 = addToType (ent_type next') eid st2
                in if upd_method update = Put
                   then
                     (case map_of (rp_orphans st3) eid of
                        None \<Rightarrow> st3
                      | Some pending \<Rightarrow>
                          (let st4 = st3\<lparr>rp_orphans := obj_delete (rp_orphans st3) eid\<rparr>;
                               row = replayOrphans pending gsn next'
                           in if row = next' then st4
                              else
                                (let st5 = st4\<lparr>rp_entities := obj_set (rp_entities st4) eid row\<rparr>
                                 in if ent_type next' \<noteq> ent_type row
                                    then addToType (ent_type row) eid (removeFromType (ent_type next') eid st5)
                                    else st5)))
                   else st3)))"

section \<open>Resynchronising the composed view\<close>

definition reconcileIndex :: "Entity option \<Rightarrow> Entity option \<Rightarrow> Replica \<Rightarrow> Replica" where
  "reconcileIndex previous next' st =
     st\<lparr>rp_reverseIndex := applyIndexDelta (rp_reverseIndex st) (reverseIndexDelta previous next'),
        rp_forwardIndex := applyIndexDelta (rp_forwardIndex st) (forwardIndexDelta previous next')\<rparr>"

definition compose :: "Entity option \<Rightarrow> OptimisticWrite list \<Rightarrow> Entity option" where
  "compose base writes = fold (\<lambda>w row. applyUpdate True row (ow_update w) 0 (ow_hlc w)) writes base"

definition resync :: "ReplicaConfig \<Rightarrow> string \<Rightarrow> Entity option \<Rightarrow> Replica \<Rightarrow> Replica" where
  "resync cfg eid previous st =
     (let base = map_of (rp_entities st) eid;
          writes = map_of (rp_overlay st) eid;
          next' = compose base (getOr writes []);
          retained = (case next' of Some n \<Rightarrow> if resident_row cfg st n then Some n else None | None \<Rightarrow> None);
          st1 = (if (case retained of None \<Rightarrow> True | Some r \<Rightarrow> holds cfg (ent_type r)) then releasePin eid st else st);
          st2 = (if getOr writes [] = [] then st1\<lparr>rp_effective := obj_delete (rp_effective st1) eid\<rparr>
                 else st1\<lparr>rp_effective := obj_set (rp_effective st1) eid retained\<rparr>);
          st3 = reconcileIndex previous retained st2
      in case retained of
           None \<Rightarrow>
             (case next' of
                Some n \<Rightarrow> bump cfg eid (ent_type n) (deleted_hlc n \<noteq> None) st3
              | None \<Rightarrow> (case previous of Some p \<Rightarrow> bump cfg eid (ent_type p) True st3 | None \<Rightarrow> st3))
         | Some r \<Rightarrow>
             if contentChanged (refEq cfg) previous (Some r)
             then bump cfg eid (ent_type r) (deleted_hlc r \<noteq> None) st3 else st3)"

type_synonym views = "Entity option obj"

definition rememberView :: "Replica \<Rightarrow> string \<Rightarrow> views \<Rightarrow> views" where
  "rememberView st eid before = (if map_of before eid = None then obj_set before eid (viewOf st eid) else before)"

text \<open>\<^verbatim>\<open>before.get(id) ?? null\<close>\<close>

definition view_before :: "views \<Rightarrow> string \<Rightarrow> Entity option" where
  "view_before before eid = getOr (map_of before eid) None"

definition resyncAll :: "ReplicaConfig \<Rightarrow> views \<Rightarrow> string list \<Rightarrow> Replica \<Rightarrow> Replica" where
  "resyncAll cfg before ids st = fold (\<lambda>eid. resync cfg eid (view_before before eid)) ids st"

definition dropOverlay :: "string \<Rightarrow> views \<Rightarrow> Replica \<Rightarrow> string list \<times> views \<times> Replica" where
  "dropOverlay actionId before st =
     (let affected = map fst (filter (\<lambda>(eid, ws). \<exists>w \<in> set ws. ow_actionId w = actionId) (rp_overlay st));
          before' = fold (rememberView st) affected before;
          st' = fold (\<lambda>eid st.
              let remaining = filter (\<lambda>w. ow_actionId w \<noteq> actionId) (getOr (map_of (rp_overlay st) eid) []) in
              if length remaining = 0 then st\<lparr>rp_overlay := obj_delete (rp_overlay st) eid\<rparr>
              else st\<lparr>rp_overlay := obj_set (rp_overlay st) eid remaining\<rparr>) affected st
      in (affected, before', st'))"

section \<open>Writes\<close>

definition ingest :: "ReplicaConfig \<Rightarrow> Action \<Rightarrow> Update list \<Rightarrow> int \<Rightarrow> Replica \<Rightarrow> Replica" where
  "ingest cfg action delta position st =
     (let before = fold (\<lambda>u. rememberView st (subject_id u)) delta [];
          (echoed, before', st1) = dropOverlay (act_id action) before st;
          st2 = fold (\<lambda>u. foldBase cfg u (act_gsn action) (act_hlc action) position) delta st1;
          st3 = (if position > rp_lastPosition st2 then st2\<lparr>rp_lastPosition := position\<rparr> else st2);
          touched = fold (\<lambda>eid s. set_add s eid) echoed (js_set_of (map subject_id delta))
      in notify (resyncAll cfg before' touched st3))"

definition pushWrite :: "Action \<Rightarrow> Update \<Rightarrow> Replica \<Rightarrow> Replica" where
  "pushWrite action update st =
     (let eid = subject_id update;
          write = \<lparr>ow_actionId = act_id action, ow_update = update, ow_hlc = act_hlc action\<rparr>
      in case map_of (rp_overlay st) eid of
           None \<Rightarrow> st\<lparr>rp_overlay := obj_set (rp_overlay st) eid [write]\<rparr>
         | Some writes \<Rightarrow> st\<lparr>rp_overlay := obj_set (rp_overlay st) eid (writes @ [write])\<rparr>)"

definition optimistic :: "ReplicaConfig \<Rightarrow> Action \<Rightarrow> Replica \<Rightarrow> Replica" where
  "optimistic cfg action st =
     (let (before, touched, st1) =
        fold (\<lambda>u (before, touched, st). (rememberView st (subject_id u) before, set_add touched (subject_id u),
                                          pushWrite action u st))
          (act_updates action) ([], [], st)
      in notify (resyncAll cfg before touched st1))"

definition discard :: "ReplicaConfig \<Rightarrow> string \<Rightarrow> Replica \<Rightarrow> Replica" where
  "discard cfg actionId st =
     (let (affected, before, st1) = dropOverlay actionId [] st
      in notify (resyncAll cfg before affected st1))"

definition evictOne :: "ReplicaConfig \<Rightarrow> string \<Rightarrow> Replica \<Rightarrow> bool \<times> Replica" where
  "evictOne cfg eid st =
     (let st1 = releasePin eid (cancelOpen eid st);
          st2 = st1\<lparr>rp_pendingOpens := obj_delete (rp_pendingOpens st1) eid\<rparr>;
          previous = viewOf st2 eid;
          base = map_of (rp_entities st2) eid;
          st3 = st2\<lparr>rp_entities := obj_delete (rp_entities st2) eid, rp_overlay := obj_delete (rp_overlay st2) eid,
                     rp_effective := obj_delete (rp_effective st2) eid, rp_orphans := obj_delete (rp_orphans st2) eid\<rparr>;
          st4 = (case base of Some b \<Rightarrow> removeFromType (ent_type b) eid st3 | None \<Rightarrow> st3);
          st5 = reconcileIndex previous None st4
      in case (case previous of Some p \<Rightarrow> Some p | None \<Rightarrow> base) of
           None \<Rightarrow> (False, st5)
         | Some row \<Rightarrow> (True, bump cfg eid (ent_type row) True st5))"

text \<open>The loop over the distinct ids, with the set \<open>seen\<close> and the flag \<open>removed\<close>.\<close>

fun evictLoop :: "ReplicaConfig \<Rightarrow> string list \<Rightarrow> string list \<Rightarrow> bool \<Rightarrow> Replica \<Rightarrow> bool \<times> Replica" where
  "evictLoop cfg [] seen removed st = (removed, st)"
| "evictLoop cfg (eid # ids) seen removed st =
     (if eid \<in> set seen then evictLoop cfg ids seen removed st
      else (let (r, st') = evictOne cfg eid st in evictLoop cfg ids (set_add seen eid) (removed \<or> r) st'))"

definition evict :: "ReplicaConfig \<Rightarrow> string list \<Rightarrow> Replica \<Rightarrow> Replica" where
  "evict cfg ids st =
     (let (removed, st') = evictLoop cfg ids [] False st in if removed then notify st' else st')"

section \<open>Pins of on-demand rows\<close>

fun doomedPins :: "nat option \<Rightarrow> nat \<Rightarrow> string list \<Rightarrow> string list \<Rightarrow> string list" where
  "doomedPins capacity size' [] doomed = doomed"
| "doomedPins capacity size' (candidate # rest) doomed =
     (if (case capacity of None \<Rightarrow> True | Some c \<Rightarrow> size' - length doomed \<le> c) then doomed
      else doomedPins capacity size' rest (doomed @ [candidate]))"

definition openPin :: "ReplicaConfig \<Rightarrow> string \<Rightarrow> Replica \<Rightarrow> Replica" where
  "openPin cfg eid st =
     (let st1 = releasePin eid st;
          st2 = st1\<lparr>rp_pins := obj_set (rp_pins st1) eid \<lparr>pin_open = True, pin_timer = False\<rparr>\<rparr>;
          doomed = doomedPins (pinnedCapacity cfg) (length (rp_pins st2)) (obj_keys (rp_pins st2)) []
      in if length doomed > 0 then evict cfg doomed st2 else st2)"

definition closePin :: "ReplicaConfig \<Rightarrow> string \<Rightarrow> Replica \<Rightarrow> Replica" where
  "closePin cfg eid st =
     (case map_of (rp_pins st) eid of
        None \<Rightarrow> st
      | Some pin \<Rightarrow>
          if \<not> pin_open pin then st
          else if pinnedTtlMs cfg = None
          then evict cfg [eid] (st\<lparr>rp_pins := obj_set (rp_pins st) eid (pin\<lparr>pin_open := False\<rparr>)\<rparr>)
          else st\<lparr>rp_pins := obj_set (rp_pins st) eid (pin\<lparr>pin_open := False, pin_timer := True\<rparr>)\<rparr>)"

definition pin_expired :: "ReplicaConfig \<Rightarrow> string \<Rightarrow> Replica \<Rightarrow> Replica" where
  "pin_expired cfg eid st =
     (case map_of (rp_pins st) eid of
        Some pin \<Rightarrow> if pin_timer pin then evict cfg [eid] st else st
      | None \<Rightarrow> st)"

definition isOpen :: "Replica \<Rightarrow> string \<Rightarrow> bool" where
  "isOpen st eid = (case map_of (rp_pins st) eid of Some pin \<Rightarrow> pin_open pin | None \<Rightarrow> False)"

definition install :: "ReplicaConfig \<Rightarrow> string \<Rightarrow> Entity \<Rightarrow> OrphanUpdate list \<Rightarrow> Replica \<Rightarrow> Replica" where
  "install cfg eid row buffered st =
     (let previous = viewOf st eid;
          st1 = addToType (ent_type row) eid (st\<lparr>rp_entities := obj_set (rp_entities st) eid row\<rparr>);
          st2 = openPin cfg eid st1;
          st3 = fold (\<lambda>e. foldBase cfg (or_update e) (or_gsn e) (or_hlc e) (or_position e)) buffered st2
      in notify (resync cfg eid previous st3))"

text \<open>What a call of \<^verbatim>\<open>open\<close> returns: a row at once, or the promise of a read, known by its epoch.\<close>

datatype opened = Resolved "Entity option" | Reading int

definition open' :: "ReplicaConfig \<Rightarrow> bool \<Rightarrow> string \<Rightarrow> Replica \<Rightarrow> Replica \<times> opened" where
  "open' cfg hasReadEntity eid st =
     (case replica_get st eid of
        Some row \<Rightarrow> (if \<not> holds cfg (ent_type row) then openPin cfg eid st else st, Resolved (Some row))
      | None \<Rightarrow>
          (case map_of (rp_inFlightOpens st) eid of
             Some epoch \<Rightarrow> (st, Reading epoch)
           | None \<Rightarrow>
               if \<not> hasReadEntity then (st, Resolved None)
               else
                 (let epoch = rp_nextOpenEpoch st + 1 in
                  (st\<lparr>rp_nextOpenEpoch := epoch, rp_openEpochs := obj_set (rp_openEpochs st) eid epoch,
                      rp_inFlightOpens := obj_set (rp_inFlightOpens st) eid epoch\<rparr>, Reading epoch))))"

definition settleRead :: "string \<Rightarrow> int \<Rightarrow> Replica \<Rightarrow> Replica" where
  "settleRead eid epoch st =
     (if map_of (rp_inFlightOpens st) eid = Some epoch
      then st\<lparr>rp_inFlightOpens := obj_delete (rp_inFlightOpens st) eid\<rparr> else st)"

definition open_resolved ::
  "ReplicaConfig \<Rightarrow> string \<Rightarrow> int \<Rightarrow> Entity option \<Rightarrow> Replica \<Rightarrow> Replica \<times> Entity option" where
  "open_resolved cfg eid epoch loaded st =
     (let st1 = settleRead eid epoch st in
      if map_of (rp_openEpochs st1) eid \<noteq> Some epoch then (st1, None)
      else
        (let buffered = getOr (map_of (rp_pendingOpens st1) eid) [];
             st2 = st1\<lparr>rp_pendingOpens := obj_delete (rp_pendingOpens st1) eid\<rparr>
         in case loaded of
              None \<Rightarrow> (st2, None)
            | Some row \<Rightarrow>
                if holds cfg (ent_type row) then (st2, Some row)
                else
                  (let adopted = withAdoptedMapFields row;
                       st3 = install cfg eid adopted buffered st2
                   in (st3, Some (getOr (replica_get st3 eid) adopted)))))"

definition open_rejected :: "string \<Rightarrow> int \<Rightarrow> Replica \<Rightarrow> Replica" where
  "open_rejected eid epoch st = settleRead eid epoch st"

definition close :: "ReplicaConfig \<Rightarrow> string \<Rightarrow> Replica \<Rightarrow> Replica" where
  "close cfg eid st =
     (case viewOf st eid of
        None \<Rightarrow> cancelOpen eid st
      | Some row \<Rightarrow>
          if holds cfg (ent_type row) then st
          else (let st1 = cancelOpen eid st in
                if pinned st1 eid then closePin cfg eid st1 else evict cfg [eid] st1))"

section \<open>Records\<close>

definition add_index_entry :: "ReverseIndex \<Rightarrow> IndexEntry \<Rightarrow> ReverseIndex" where
  "add_index_entry index entry =
     (case map_of index (ie_key entry) of
        None \<Rightarrow> obj_set index (ie_key entry) [(rowId entry, ie_value entry)]
      | Some rows \<Rightarrow> obj_set index (ie_key entry) (obj_set rows (rowId entry) (ie_value entry)))"

definition load_row ::
  "ReplicaConfig \<Rightarrow> Entity \<Rightarrow> Replica \<times> ReverseIndex \<times> ReverseIndex \<Rightarrow> Replica \<times> ReverseIndex \<times> ReverseIndex" where
  "load_row cfg entity acc =
     (case acc of (st, reverse, forward) \<Rightarrow>
        if \<not> holds cfg (ent_type entity) then (st, reverse, forward)
        else
          (let row = withAdoptedMapFields entity;
               st1 = addToType (ent_type row) (ent_id row)
                       (st\<lparr>rp_entities := obj_set (rp_entities st) (ent_id row) row\<rparr>)
           in (st1,
               (case indexEntryFor row of None \<Rightarrow> reverse | Some en \<Rightarrow> add_index_entry reverse en),
               (case forwardIndexEntryFor row of None \<Rightarrow> forward | Some en \<Rightarrow> add_index_entry forward en))))"

definition load :: "ReplicaConfig \<Rightarrow> ReplicaRecord \<Rightarrow> Replica \<Rightarrow> Replica" where
  "load cfg record' st =
     (if \<not> isValidReplicaRecord (record_json record') then st
      else
        (let st0 = fold releasePin (obj_keys (rp_pins st))
               (st\<lparr>rp_entities := [], rp_typeIndex := [], rp_orphans := [], rp_overlay := [],
                   rp_effective := [], rp_pendingOpens := [], rp_inFlightOpens := [], rp_openEpochs := [],
                   rp_journal := [], rp_journalStart := 0\<rparr>);
             (st1, reverse, forward) = fold (load_row cfg) (rec_entities record') (st0, [], []);
             rev = (if rec_revision record' > rp_revision st then rec_revision record' else rp_revision st + 1)
         in notify (st1\<lparr>rp_reverseIndex := reverse, rp_forwardIndex := forward, rp_revision := rev,
                        rp_changeFloor := rev, rp_lastPosition := rec_position record'\<rparr>)))"

definition oldestOrphan :: "Replica \<Rightarrow> int option" where
  "oldestOrphan st =
     fold (\<lambda>o' oldest. Some (case oldest of None \<Rightarrow> or_position o' | Some p \<Rightarrow> min p (or_position o')))
       (concat (map snd (rp_orphans st))) None"

definition toRecord :: "ReplicaConfig \<Rightarrow> Replica \<Rightarrow> ReplicaRecord" where
  "toRecord cfg st =
     \<lparr>rec_format = REPLICA_RECORD_FORMAT,
      rec_position = (case oldestOrphan st of
          None \<Rightarrow> rp_lastPosition st | Some oldest \<Rightarrow> min (rp_lastPosition st) (oldest - 1)),
      rec_revision = rp_revision st,
      rec_entities = map withWireMapFields (filter (\<lambda>row. holds cfg (ent_type row)) (map snd (rp_entities st)))\<rparr>"

section \<open>Other reads\<close>

record ReplicaStats =
  st_entities :: nat
  st_byType :: "nat obj"
  st_held :: nat
  st_heldByType :: "nat obj"
  st_pinned :: nat
  st_revision :: int
  st_position :: int
  st_changes :: nat
  st_changeFloor :: int

definition stats :: "ReplicaConfig \<Rightarrow> Replica \<Rightarrow> ReplicaStats" where
  "stats cfg st =
     (let types = fold (\<lambda>row s. case row of None \<Rightarrow> s | Some r \<Rightarrow> set_add s (ent_type r))
            (map snd (rp_effective st)) (obj_keys (rp_typeIndex st));
          counts = filter (\<lambda>(t, n). n \<noteq> 0) (map (\<lambda>t. (t, length (iterate st t))) types);
          heldCounts = filter (\<lambda>(t, n). holds cfg t) counts
      in \<lparr>st_entities = sum_list (map snd counts), st_byType = counts,
          st_held = sum_list (map snd heldCounts), st_heldByType = heldCounts,
          st_pinned = length (rp_pins st), st_revision = rp_revision st, st_position = rp_lastPosition st,
          st_changes = retainedChanges st, st_changeFloor = rp_changeFloor st\<rparr>)"

definition changesSince :: "Replica \<Rightarrow> int \<Rightarrow> ReplicaChange list" where
  "changesSince st from =
     (if from < rp_changeFloor st then []
      else filter (\<lambda>change. ch_revision change > from) (drop (rp_journalStart st) (rp_journal st)))"

definition relationships :: "Replica \<Rightarrow> string \<Rightarrow> string \<Rightarrow> string option \<Rightarrow> string option \<Rightarrow> string list" where
  "relationships st as' type sourceId targetId =
     (case sourceId of
        Some s \<Rightarrow> liveSourceIds (map_of (rp_forwardIndex st) (forwardIndexKey as' type s))
      | None \<Rightarrow>
          (case targetId of
             Some t \<Rightarrow> liveSourceIds (map_of (rp_reverseIndex st) (reverseIndexKey as' type t))
           | None \<Rightarrow> []))"

definition memberships :: "Replica \<Rightarrow> string option \<Rightarrow> string option \<Rightarrow> string list" where
  "memberships st groupId entityId =
     (case groupId of
        Some g \<Rightarrow> liveSourceIds (map_of (rp_reverseIndex st) (membershipIndexKey g))
      | None \<Rightarrow>
          (case entityId of
             Some e \<Rightarrow> liveSourceIds (map_of (rp_forwardIndex st) (forwardMembershipIndexKey e))
           | None \<Rightarrow> []))"

definition relationshipLinks ::
  "(string \<Rightarrow> string \<Rightarrow> int) \<Rightarrow> Replica \<Rightarrow> string \<Rightarrow> string \<Rightarrow> string \<Rightarrow> RelationshipLink list" where
  "relationshipLinks localeCompare st as' type sourceId =
     liveRelationshipLinks localeCompare (map_of (rp_forwardIndex st) (forwardIndexKey as' type sourceId))"

definition membershipLinks :: "(string \<Rightarrow> string \<Rightarrow> int) \<Rightarrow> Replica \<Rightarrow> string \<Rightarrow> MembershipLink list" where
  "membershipLinks localeCompare st entityId =
     liveMembershipLinks localeCompare (map_of (rp_forwardIndex st) (forwardMembershipIndexKey entityId))"

end
