(* ===== verification/ReplicaInv.thy ===== *)
theory ReplicaInv
  imports Replica
begin

text \<open>
  Correctness of the replica. The invariant has four parts: the base rows with their type index and
  pins (\<open>base_ok\<close>), the cache of composed rows (\<open>eff_ok\<close>), the adjacency indices, which track the
  composed view (\<open>index_for\<close>), and the journal (\<open>journal_ok\<close>). Each write first changes base and
  overlay, which breaks the second and third part for the ids it touches, and then resynchronises
  those ids; \<open>resyncAll_inv\<close> is the lemma all writes share.

  The Updates considered keep the type of their subject (\<open>tyof\<close>), as entity ids do in this program.
\<close>

section \<open>Dictionaries\<close>

lemma obj_set_twice: "obj_set (obj_set o' k v) k w = obj_set o' k w"
  by (induction o') auto

lemma obj_delete_absent: "map_of o' k = None \<Longrightarrow> obj_delete o' k = o'"
  by (simp add: map_of_eq_None_iff delete_notin_dom)

definition ti_add :: "string \<Rightarrow> string \<Rightarrow> string list obj \<Rightarrow> string list obj" where
  "ti_add t i ti = obj_set ti t (set_add (getOr (map_of ti t) []) i)"

definition ti_remove :: "string \<Rightarrow> string \<Rightarrow> string list obj \<Rightarrow> string list obj" where
  "ti_remove t i ti = (case map_of ti t of None \<Rightarrow> ti
     | Some ids \<Rightarrow> if set_remove ids i = [] then obj_delete ti t else obj_set ti t (set_remove ids i))"

lemma addToType_eq: "addToType t i st = st\<lparr>rp_typeIndex := ti_add t i (rp_typeIndex st)\<rparr>"
  by (auto simp: addToType_def ti_add_def set_add_def split: option.splits)

lemma removeFromType_eq: "removeFromType t i st = st\<lparr>rp_typeIndex := ti_remove t i (rp_typeIndex st)\<rparr>"
  by (auto simp: removeFromType_def ti_remove_def Let_def split: option.splits)

lemma ti_add_get: "getOr (map_of (ti_add t i ti) u) [] =
    (if u = t then set_add (getOr (map_of ti t) []) i else getOr (map_of ti u) [])"
  by (simp add: ti_add_def obj_set_get)

lemma ti_remove_get: "getOr (map_of (ti_remove t i ti) u) [] =
    (if u = t then set_remove (getOr (map_of ti t) []) i else getOr (map_of ti u) [])"
  by (auto simp: ti_remove_def obj_set_get obj_delete_get set_remove_def split: option.splits)

section \<open>The base\<close>

definition own :: "(string \<Rightarrow> string) \<Rightarrow> string \<Rightarrow> Entity \<Rightarrow> bool" where
  "own tyof i e \<longleftrightarrow> ent_id e = i \<and> ent_type e = tyof i \<and> obj_ok (ent_fields e)"

definition upd_for :: "(string \<Rightarrow> string) \<Rightarrow> string \<Rightarrow> Update \<Rightarrow> bool" where
  "upd_for tyof i u \<longleftrightarrow> subject_id u = i \<and> subject_type u = tyof i \<and> obj_ok (readFields u)"

lemma adoptMapFields_ok: "obj_ok flds \<Longrightarrow> obj_ok (adoptMapFields flds)"
  by (simp add: adoptMapFields_map obj_ok_map_values)

lemma plainFields_ok: "obj_ok flds \<Longrightarrow> obj_ok (plainFields flds)"
  by (simp add: plainFields_def obj_ok_map_values)

lemma applyUpdate_own:
  "applyUpdate r row u g h = Some e \<Longrightarrow> upd_for tyof i u \<Longrightarrow> (\<And>x. row = Some x \<Longrightarrow> own tyof i x) \<Longrightarrow> own tyof i e"
  by (auto simp: applyUpdate_def own_def upd_for_def adoptMapFields_ok plainFields_ok mergeFields_ok
      split: update_method.splits option.splits if_splits)

definition base_ok :: "(string \<Rightarrow> string) \<Rightarrow> ReplicaConfig \<Rightarrow> Replica \<Rightarrow> bool" where
  "base_ok tyof cfg st \<longleftrightarrow>
     obj_ok (rp_entities st) \<and> obj_ok (rp_overlay st) \<and> obj_ok (rp_effective st) \<and> obj_ok (rp_pins st) \<and>
     (\<forall>i e. map_of (rp_entities st) i = Some e \<longrightarrow> own tyof i e \<and> (holds cfg (tyof i) \<or> pinned st i)) \<and>
     (\<forall>i. pinned st i \<longrightarrow> map_of (rp_entities st) i \<noteq> None \<and> \<not> holds cfg (tyof i)) \<and>
     (\<forall>t. distinct (getOr (map_of (rp_typeIndex st) t) []) \<and>
        set (getOr (map_of (rp_typeIndex st) t) []) = {i. map_of (rp_entities st) i \<noteq> None \<and> tyof i = t}) \<and>
     (\<forall>i ws. map_of (rp_overlay st) i = Some ws \<longrightarrow> ws \<noteq> [] \<and> (\<forall>w \<in> set ws. upd_for tyof i (ow_update w))) \<and>
     (\<forall>i os. map_of (rp_orphans st) i = Some os \<longrightarrow> (\<forall>o' \<in> set os. upd_for tyof i (or_update o'))) \<and>
     (\<forall>i os. map_of (rp_pendingOpens st) i = Some os \<longrightarrow> (\<forall>o' \<in> set os. upd_for tyof i (or_update o')))"

lemma base_ok_entity:
  assumes "base_ok tyof cfg st" "map_of (rp_entities st) i = Some e"
  shows "ent_id e = i" "ent_type e = tyof i" "own tyof i e" "holds cfg (tyof i) \<or> pinned st i"
  using assms by (auto simp: base_ok_def own_def)

lemma replayOrphans_own:
  assumes "own tyof i n" "\<forall>o' \<in> set os. upd_for tyof i (or_update o')"
  shows "own tyof i (replayOrphans os g n)"
proof -
  have "own tyof i (fold (\<lambda>o' row. getOr (applyUpdate True (Some row) (or_update o') (or_gsn o') (or_hlc o')) row) xs n)"
    if "set xs \<subseteq> set os" for xs
    using assms(1) that
  proof (induction xs arbitrary: n)
    case Nil
    then show ?case by simp
  next
    case (Cons x xs)
    have "own tyof i (getOr (applyUpdate True (Some n) (or_update x) (or_gsn x) (or_hlc x)) n)"
      using Cons.prems assms(2)
      by (cases "applyUpdate True (Some n) (or_update x) (or_gsn x) (or_hlc x)") (auto intro: applyUpdate_own)
    with Cons show ?case by simp
  qed
  then show ?thesis by (auto simp: replayOrphans_def Let_def)
qed

text \<open>What \<^const>\<open>foldBase\<close> does to a replica whose invariant holds.\<close>

definition foreign :: "ReplicaConfig \<Rightarrow> Replica \<Rightarrow> Update \<Rightarrow> bool" where
  "foreign cfg st u \<longleftrightarrow> \<not> holds cfg (subject_type u) \<and> \<not> pinned st (subject_id u)"

definition settled :: "Replica \<Rightarrow> Update \<Rightarrow> int \<Rightarrow> Entity \<Rightarrow> Entity" where
  "settled st u g n = (if upd_method u = Put
     then replayOrphans (getOr (map_of (rp_orphans st) (subject_id u)) []) g n else n)"

lemma replayOrphans_Nil [simp]: "replayOrphans [] g n = n"
  by (simp add: replayOrphans_def)

lemma foldBase_eq:
  fixes g :: int and h :: hlc and p :: int
  assumes ok: "base_ok tyof cfg st" and u: "upd_for tyof i u"
  defines "entry \<equiv> \<lparr>or_update = u, or_gsn = g, or_hlc = h, or_position = p\<rparr>"
  shows "foldBase cfg u g h p st =
    (if foreign cfg st u then
       (if map_of (rp_inFlightOpens st) i \<noteq> None then st\<lparr>rp_pendingOpens := bufferUpdate (rp_pendingOpens st) entry\<rparr>
        else if upd_method u = Put then st\<lparr>rp_orphans := obj_delete (rp_orphans st) i\<rparr> else st)
     else
       (case applyUpdate True (map_of (rp_entities st) i) u g h of
          None \<Rightarrow> st\<lparr>rp_orphans := bufferUpdate (rp_orphans st) entry\<rparr>
        | Some n \<Rightarrow> st\<lparr>rp_entities := obj_set (rp_entities st) i (settled st u g n),
            rp_typeIndex := ti_add (tyof i) i (rp_typeIndex st),
            rp_orphans := (if upd_method u = Put then obj_delete (rp_orphans st) i else rp_orphans st)\<rparr>))"
proof -
  have id: "subject_id u = i" "subject_type u = tyof i" using u by (simp_all add: upd_for_def)
  have none: "map_of (rp_entities st) i = None" if "foreign cfg st u"
    using that base_ok_entity(4) [OF ok] by (cases "map_of (rp_entities st) i") (auto simp: foreign_def id)
  have own: "own tyof i n" if "applyUpdate True (map_of (rp_entities st) i) u g h = Some n" for n
    using applyUpdate_own [OF that u] base_ok_entity(3) [OF ok] by blast
  have res: "resident_row cfg st n \<longleftrightarrow> \<not> foreign cfg st u" if "own tyof i n" for n
    using that by (auto simp: resident_row_def foreign_def own_def id)
  have orph: "own tyof i (replayOrphans os g n)"
    if "map_of (rp_orphans st) i = Some os" "own tyof i n" for os n
    using that ok by (intro replayOrphans_own) (auto simp: base_ok_def)
  show ?thesis
  proof (cases "foreign cfg st u")
    case True
    show ?thesis
    proof (cases "applyUpdate True (map_of (rp_entities st) i) u g h")
      case None
      then have "upd_method u \<noteq> Put" by (auto simp: applyUpdate_def)
      with None True show ?thesis
        by (simp add: foldBase_def Let_def foreign_def id entry_def)
    next
      case (Some n)
      with own res True none have "\<not> resident_row cfg st n" "upd_method u = Put"
        by (auto simp: applyUpdate_def split: update_method.splits)
      with Some True none show ?thesis
        by (simp add: foldBase_def Let_def foreign_def id entry_def)
    qed
  next
    case False
    then have nf: "\<not> (\<not> holds cfg (tyof i) \<and> \<not> pinned st i)" by (simp add: foreign_def id)
    show ?thesis
    proof (cases "applyUpdate True (map_of (rp_entities st) i) u g h")
      case None
      with False nf show ?thesis by (auto simp: foldBase_def Let_def id entry_def)
    next
      case (Some n)
      with own res False have n: "own tyof i n" "resident_row cfg st n" by auto
      have prev: "ent_type q = ent_type n" if "map_of (rp_entities st) i = Some q" for q
        using base_ok_entity(2) [OF ok that] n(1) by (simp add: own_def)
      have st2: "(case map_of (rp_entities st) i of None \<Rightarrow> s
          | Some q \<Rightarrow> if ent_type q \<noteq> ent_type n then removeFromType (ent_type q) i s else s) = s" for s
        using prev by (cases "map_of (rp_entities st) i") auto
      have same: "ent_type (replayOrphans os g n) = tyof i" if "map_of (rp_orphans st) i = Some os" for os
        using orph [OF that n(1)] by (simp add: own_def)
      have nf': "(\<not> holds cfg (tyof i) \<and> \<not> pinned st i) = False"
        "(\<not> holds cfg (tyof i) \<and> \<not> pinned st i \<and> X) = False" for X
        using nf by auto
      have ty: "ent_type n = tyof i" using n(1) by (simp add: own_def)
      show ?thesis
      proof (cases "map_of (rp_orphans st) i")
        case None
        then show ?thesis
          using n(2) False
          by (simp add: foldBase_def Let_def id nf' Some st2 addToType_eq ty settled_def obj_delete_absent)
      next
        case (Some os)
        note upd = \<open>applyUpdate True (map_of (rp_entities st) i) u g h = Some n\<close>
        show ?thesis
          using n(2) False same [OF Some]
          by (simp add: foldBase_def Let_def id nf' upd st2 addToType_eq ty settled_def Some obj_set_twice)
      qed
    qed
  qed
qed

lemma bufferUpdate_get:
  "map_of (bufferUpdate b e) i = (if i = subject_id (or_update e) then Some (getOr (map_of b i) [] @ [e])
     else map_of b i)"
  by (auto simp: bufferUpdate_def Let_def obj_set_get split: option.splits)

lemma bufferUpdate_for:
  assumes "\<forall>i os. map_of b i = Some os \<longrightarrow> (\<forall>o' \<in> set os. upd_for tyof i (or_update o'))"
    "upd_for tyof i (or_update e)"
  shows "\<forall>j os. map_of (bufferUpdate b e) j = Some os \<longrightarrow> (\<forall>o' \<in> set os. upd_for tyof j (or_update o'))"
proof (intro allI impI ballI)
  fix j os o'
  assume m: "map_of (bufferUpdate b e) j = Some os" and o': "o' \<in> set os"
  have i: "subject_id (or_update e) = i" using assms(2) by (simp add: upd_for_def)
  show "upd_for tyof j (or_update o')"
  proof (cases "j = i")
    case True
    with m i have "os = getOr (map_of b i) [] @ [e]" by (simp add: bufferUpdate_get)
    with o' assms True show ?thesis by (cases "map_of b i") auto
  next
    case False
    with m i have "map_of b j = Some os" by (simp add: bufferUpdate_get)
    with o' assms(1) show ?thesis by blast
  qed
qed

lemma delete_for:
  "\<forall>i os. map_of b i = Some os \<longrightarrow> (\<forall>o' \<in> set os. upd_for tyof i (or_update o')) \<Longrightarrow>
   \<forall>i os. map_of (obj_delete b j) i = Some os \<longrightarrow> (\<forall>o' \<in> set os. upd_for tyof i (or_update o'))"
  by (simp add: obj_delete_get)

text \<open>Fields no fold of a durable Update changes.\<close>

definition same_frame :: "Replica \<Rightarrow> Replica \<Rightarrow> bool" where
  "same_frame st st' \<longleftrightarrow> rp_overlay st' = rp_overlay st \<and> rp_effective st' = rp_effective st \<and>
     rp_pins st' = rp_pins st \<and> rp_reverseIndex st' = rp_reverseIndex st \<and> rp_forwardIndex st' = rp_forwardIndex st \<and>
     rp_journal st' = rp_journal st \<and> rp_journalStart st' = rp_journalStart st \<and>
     rp_revision st' = rp_revision st \<and> rp_changeFloor st' = rp_changeFloor st"

lemma same_frame_refl [simp]: "same_frame st st"
  by (simp add: same_frame_def)

lemma same_frame_trans: "same_frame a b \<Longrightarrow> same_frame b d \<Longrightarrow> same_frame a d"
  by (simp add: same_frame_def)

lemma foldBase_frame:
  assumes "base_ok tyof cfg st" "upd_for tyof i u"
  shows "same_frame st (foldBase cfg u g h p st)"
    "j \<noteq> i \<Longrightarrow> map_of (rp_entities (foldBase cfg u g h p st)) j = map_of (rp_entities st) j"
  using foldBase_eq [OF assms, of g h p]
  by (auto simp: same_frame_def obj_set_get split: option.splits if_splits)

lemma base_ok_set_entity:
  assumes "base_ok tyof cfg st" "own tyof i n" "holds cfg (tyof i) \<or> pinned st i"
    "\<forall>i os. map_of B i = Some os \<longrightarrow> (\<forall>o' \<in> set os. upd_for tyof i (or_update o'))"
  shows "base_ok tyof cfg (st\<lparr>rp_entities := obj_set (rp_entities st) i n,
    rp_typeIndex := ti_add (tyof i) i (rp_typeIndex st), rp_orphans := B\<rparr>)"
  using assms unfolding base_ok_def pinned_def
  by (auto simp: obj_set_get ti_add_get js_simps)

lemma foldBase_ok:
  assumes ok: "base_ok tyof cfg st" and u: "upd_for tyof i u"
  shows "base_ok tyof cfg (foldBase cfg u g h p st)"
proof -
  let ?e = "\<lparr>or_update = u, or_gsn = g, or_hlc = h, or_position = p\<rparr>"
  have orph: "\<forall>i os. map_of (rp_orphans st) i = Some os \<longrightarrow> (\<forall>o' \<in> set os. upd_for tyof i (or_update o'))"
    and pend: "\<forall>i os. map_of (rp_pendingOpens st) i = Some os \<longrightarrow> (\<forall>o' \<in> set os. upd_for tyof i (or_update o'))"
    using ok by (auto simp: base_ok_def)
  have id: "subject_id u = i" "subject_type u = tyof i" using u by (simp_all add: upd_for_def)
  have swap: "base_ok tyof cfg (st\<lparr>rp_orphans := B\<rparr>)"
    if "\<forall>i os. map_of B i = Some os \<longrightarrow> (\<forall>o' \<in> set os. upd_for tyof i (or_update o'))" for B
    using ok that by (auto simp: base_ok_def pinned_def)
  have swap': "base_ok tyof cfg (st\<lparr>rp_pendingOpens := B\<rparr>)"
    if "\<forall>i os. map_of B i = Some os \<longrightarrow> (\<forall>o' \<in> set os. upd_for tyof i (or_update o'))" for B
    using ok that by (auto simp: base_ok_def pinned_def)
  have buf: "\<forall>i os. map_of (bufferUpdate (rp_orphans st) ?e) i = Some os \<longrightarrow> (\<forall>o' \<in> set os. upd_for tyof i (or_update o'))"
    "\<forall>i os. map_of (bufferUpdate (rp_pendingOpens st) ?e) i = Some os \<longrightarrow> (\<forall>o' \<in> set os. upd_for tyof i (or_update o'))"
    using bufferUpdate_for [OF orph, of i ?e] bufferUpdate_for [OF pend, of i ?e] u by simp_all
  show ?thesis
  proof (cases "foreign cfg st u")
    case True
    with foldBase_eq [OF ok u, of g h p] swap [OF delete_for [OF orph]] swap' [OF buf(2)] ok show ?thesis
      by (auto split: if_splits)
  next
    case False
    show ?thesis
    proof (cases "applyUpdate True (map_of (rp_entities st) i) u g h")
      case None
      with foldBase_eq [OF ok u, of g h p] False swap [OF buf(1)] show ?thesis by simp
    next
      case (Some n)
      then have own: "own tyof i n" using applyUpdate_own [OF Some u] base_ok_entity(3) [OF ok] by blast
      have "\<forall>o' \<in> set (getOr (map_of (rp_orphans st) i) []). upd_for tyof i (or_update o')"
        using orph by (cases "map_of (rp_orphans st) i") auto
      then have "own tyof i (settled st u g n)"
        using own replayOrphans_own by (simp add: settled_def id)
      with base_ok_set_entity [OF ok] False Some foldBase_eq [OF ok u, of g h p] orph delete_for [OF orph, of i]
      show ?thesis by (auto simp: foreign_def id)
    qed
  qed
qed

text \<open>A list of folds, by the id of each Update.\<close>

lemma foldBase_list:
  assumes "base_ok tyof cfg st" "\<forall>e \<in> set es. upd_for tyof (subject_id (or_update e)) (or_update e)"
  defines "st' \<equiv> fold (\<lambda>e. foldBase cfg (or_update e) (or_gsn e) (or_hlc e) (or_position e)) es st"
  shows "base_ok tyof cfg st' \<and> same_frame st st' \<and>
    (\<forall>j. j \<notin> (\<lambda>e. subject_id (or_update e)) ` set es \<longrightarrow> map_of (rp_entities st') j = map_of (rp_entities st) j)"
  using assms(1,2) unfolding st'_def
proof (induction es arbitrary: st)
  case Nil
  then show ?case by simp
next
  case (Cons e es)
  let ?u = "or_update e"
  let ?st = "foldBase cfg ?u (or_gsn e) (or_hlc e) (or_position e) st"
  have u: "upd_for tyof (subject_id ?u) ?u" using Cons.prems by simp
  have ok: "base_ok tyof cfg ?st" by (rule foldBase_ok [OF Cons.prems(1) u])
  from Cons.IH [OF ok] Cons.prems(2) foldBase_frame [OF Cons.prems(1) u, where g = "or_gsn e" and h = "or_hlc e" and p = "or_position e"]
  show ?case by (auto intro: same_frame_trans)
qed

section \<open>The journal\<close>

definition changes :: "Replica \<Rightarrow> ReplicaChange list" where
  "changes st = drop (rp_journalStart st) (rp_journal st)"

definition journal_ok :: "(string \<Rightarrow> string) \<Rightarrow> ReplicaConfig \<Rightarrow> Replica \<Rightarrow> bool" where
  "journal_ok tyof cfg st \<longleftrightarrow> rp_journalStart st \<le> length (rp_journal st) \<and> rp_changeFloor st \<le> rp_revision st \<and>
     map ch_revision (changes st) = [rp_changeFloor st + 1..rp_revision st] \<and>
     (\<forall>c \<in> set (changes st). ch_type c = tyof (ch_id c)) \<and>
     (\<forall>cap. journalCapacity cfg = Some cap \<longrightarrow> length (changes st) \<le> cap)"

text \<open>An id is logged since a revision when the journal still reaches back to it and has a change of the id.\<close>

definition logged :: "int \<Rightarrow> string \<Rightarrow> Replica \<Rightarrow> bool" where
  "logged r i st \<longleftrightarrow> (rp_changeFloor st \<le> r \<longrightarrow> (\<exists>c \<in> set (changes st). ch_revision c > r \<and> ch_id c = i))"

lemma bump_fields [simp]:
  "rp_entities (bump cfg i t d st) = rp_entities st" "rp_typeIndex (bump cfg i t d st) = rp_typeIndex st"
  "rp_overlay (bump cfg i t d st) = rp_overlay st" "rp_effective (bump cfg i t d st) = rp_effective st"
  "rp_orphans (bump cfg i t d st) = rp_orphans st" "rp_pins (bump cfg i t d st) = rp_pins st"
  "rp_inFlightOpens (bump cfg i t d st) = rp_inFlightOpens st" "rp_pendingOpens (bump cfg i t d st) = rp_pendingOpens st"
  "rp_openEpochs (bump cfg i t d st) = rp_openEpochs st" "rp_nextOpenEpoch (bump cfg i t d st) = rp_nextOpenEpoch st"
  "rp_reverseIndex (bump cfg i t d st) = rp_reverseIndex st" "rp_forwardIndex (bump cfg i t d st) = rp_forwardIndex st"
  "rp_lastPosition (bump cfg i t d st) = rp_lastPosition st" "rp_notified (bump cfg i t d st) = rp_notified st"
  "rp_revision (bump cfg i t d st) = rp_revision st + 1"
  by (auto simp: bump_def trimJournal_def Let_def split: option.splits)

lemma bump_changes:
  assumes "rp_journalStart st \<le> length (rp_journal st)"
  obtains k c where "changes (bump cfg i t d st) = drop k (changes st @ [c])" "k \<le> length (changes st @ [c])"
    "c = \<lparr>ch_revision = rp_revision st + 1, ch_id = i, ch_type = t, ch_deleted = d\<rparr>"
    "rp_changeFloor (bump cfg i t d st) =
       (if k = 0 then rp_changeFloor st else ch_revision ((changes st @ [c]) ! (k - 1)))"
    "rp_journalStart (bump cfg i t d st) \<le> length (rp_journal (bump cfg i t d st))"
    "\<forall>cap. journalCapacity cfg = Some cap \<longrightarrow> length (changes (bump cfg i t d st)) \<le> cap"
proof -
  let ?c = "\<lparr>ch_revision = rp_revision st + 1, ch_id = i, ch_type = t, ch_deleted = d\<rparr>"
  let ?st1 = "st\<lparr>rp_revision := rp_revision st + 1, rp_journal := rp_journal st @ [?c]\<rparr>"
  have ch: "changes ?st1 = changes st @ [?c]" using assms by (simp add: changes_def)
  have ret: "retainedChanges ?st1 = length (changes st @ [?c])"
    unfolding ch [symmetric] by (simp add: retainedChanges_def changes_def)
  have bump: "bump cfg i t d st = trimJournal cfg ?st1" by (simp add: bump_def Let_def)
  show thesis
  proof (cases "\<exists>cap. journalCapacity cfg = Some cap \<and> cap < length (changes st @ [?c])")
    case False
    then have "trimJournal cfg ?st1 = ?st1"
      unfolding trimJournal_def ret by (auto split: option.splits)
    with False ch assms show thesis
      by (intro that [of 0 ?c]) (auto simp: bump not_less)
  next
    case True
    then obtain cap where cap: "journalCapacity cfg = Some cap" "cap < length (changes st @ [?c])" by blast
    define J where "J = rp_journal st @ [?c]"
    define k where "k = length (changes st @ [?c]) - cap"
    define start where "start = rp_journalStart st + k"
    have L: "changes st @ [?c] = drop (rp_journalStart st) J" using assms by (simp add: changes_def J_def)
    have k: "0 < k" "k \<le> length (changes st @ [?c])" using cap(2) by (auto simp: k_def)
    have le: "start \<le> length J" using assms k by (simp add: changes_def J_def start_def)
    have floor: "J ! (start - 1) = (changes st @ [?c]) ! (k - 1)"
    proof -
      have "rp_journalStart st \<le> length J" using assms by (simp add: J_def)
      then have "drop (rp_journalStart st) J ! (k - 1) = J ! (rp_journalStart st + (k - 1))" by (rule nth_drop)
      then show ?thesis unfolding L using k(1) by (simp add: start_def)
    qed
    have st1: "rp_journal ?st1 = J" "rp_journalStart ?st1 = rp_journalStart st" by (simp_all add: J_def)
    have trim: "trimJournal cfg ?st1 = (let st1 = ?st1\<lparr>rp_journalStart := start,
        rp_changeFloor := ch_revision ((changes st @ [?c]) ! (k - 1))\<rparr> in
        if start * 2 \<ge> length J then st1\<lparr>rp_journal := drop start J, rp_journalStart := 0\<rparr> else st1)"
      unfolding trimJournal_def ret st1 floor [symmetric] using cap
      by (simp only: option.simps Let_def not_le if_False k_def [symmetric] start_def [symmetric])
        (simp add: k_def start_def not_less)
    have "changes (trimJournal cfg ?st1) = drop start J"
      unfolding trim changes_def Let_def using J_def by (simp del: drop_append)
    then have dropk: "changes (trimJournal cfg ?st1) = drop k (changes st @ [?c])"
      unfolding L by (simp add: start_def add.commute)
    show thesis
    proof (rule that [of k ?c])
      show "changes (bump cfg i t d st) = drop k (changes st @ [?c])" unfolding bump by (rule dropk)
      show "k \<le> length (changes st @ [?c])" by (rule k(2))
      show "rp_changeFloor (bump cfg i t d st) =
          (if k = 0 then rp_changeFloor st else ch_revision ((changes st @ [?c]) ! (k - 1)))"
        using k(1) by (simp add: bump trim Let_def)
      show "rp_journalStart (bump cfg i t d st) \<le> length (rp_journal (bump cfg i t d st))"
        using le by (simp add: bump trim Let_def J_def)
      show "\<forall>c'. journalCapacity cfg = Some c' \<longrightarrow> length (changes (bump cfg i t d st)) \<le> c'"
        unfolding bump dropk using cap by (simp add: k_def)
    qed simp
  qed
qed

lemma bump_journal_ok:
  assumes "journal_ok tyof cfg st" "t = tyof i"
  shows "journal_ok tyof cfg (bump cfg i t d st)" "rp_changeFloor st \<le> rp_changeFloor (bump cfg i t d st)"
    "r \<le> rp_revision st \<Longrightarrow> logged r i (bump cfg i t d st)"
    "logged r j st \<Longrightarrow> logged r j (bump cfg i t d st)"
proof -
  let ?b = "bump cfg i t d st"
  have jok: "rp_journalStart st \<le> length (rp_journal st)" "rp_changeFloor st \<le> rp_revision st"
    "map ch_revision (changes st) = [rp_changeFloor st + 1..rp_revision st]"
    using assms by (auto simp: journal_ok_def)
  obtain k c where k: "changes ?b = drop k (changes st @ [c])" "k \<le> length (changes st @ [c])"
    and c: "c = \<lparr>ch_revision = rp_revision st + 1, ch_id = i, ch_type = t, ch_deleted = d\<rparr>"
    and floor: "rp_changeFloor ?b =
       (if k = 0 then rp_changeFloor st else ch_revision ((changes st @ [c]) ! (k - 1)))"
    and rest: "rp_journalStart ?b \<le> length (rp_journal ?b)"
      "\<forall>cap. journalCapacity cfg = Some cap \<longrightarrow> length (changes ?b) \<le> cap"
    using bump_changes [OF jok(1)] by metis
  have revs: "map ch_revision (changes st @ [c]) = [rp_changeFloor st + 1..rp_revision st + 1]"
    using jok(2,3) upto_rec2 [of "rp_changeFloor st + 1" "rp_revision st + 1"] by (simp add: c)
  have len: "length (changes st @ [c]) = nat (rp_revision st + 1 - rp_changeFloor st)"
    using arg_cong [OF revs, of length] by simp
  have fl: "rp_changeFloor ?b = rp_changeFloor st + int k"
  proof (cases "k = 0")
    case False
    then have "k - 1 < length (changes st @ [c])" using k(2) by simp
    then have "ch_revision ((changes st @ [c]) ! (k - 1)) = [rp_changeFloor st + 1..rp_revision st + 1] ! (k - 1)"
      unfolding revs [symmetric] by (rule nth_map [symmetric])
    also have "\<dots> = rp_changeFloor st + 1 + int (k - 1)"
      using k(2) len False jok(2) by (intro nth_upto) linarith
    finally show ?thesis using floor False by simp
  qed (simp add: floor)
  show "rp_changeFloor st \<le> rp_changeFloor ?b" using fl by simp
  have revs': "map ch_revision (changes ?b) = [rp_changeFloor ?b + 1..rp_revision ?b]"
    unfolding k(1) drop_map [symmetric] revs fl by (simp add: drop_int_upto add.commute add.left_commute)
  have "\<forall>x \<in> set (changes ?b). ch_type x = tyof (ch_id x)"
    using assms k(1) by (auto simp: journal_ok_def c dest!: in_set_dropD)
  then show "journal_ok tyof cfg ?b"
    using rest revs' fl k(2) len jok(2) by (auto simp: journal_ok_def)
  have kept: "x \<in> set (changes ?b)" if "x \<in> set (changes st @ [c])" "rp_changeFloor ?b \<le> r" "ch_revision x > r" for x r
  proof -
    obtain n where n: "n < length (changes st @ [c])" "x = (changes st @ [c]) ! n"
      using \<open>x \<in> set (changes st @ [c])\<close> unfolding in_set_conv_nth by blast
    then have "ch_revision x = [rp_changeFloor st + 1..rp_revision st + 1] ! n"
      unfolding revs [symmetric] using nth_map [OF n(1), of ch_revision] by simp
    also have "\<dots> = rp_changeFloor st + 1 + int n" using n(1) len by (intro nth_upto) linarith
    finally have "k \<le> n" using that(2,3) fl by linarith
    have "drop k (changes st @ [c]) ! (n - k) \<in> set (drop k (changes st @ [c]))"
      using n(1) \<open>k \<le> n\<close> by (intro nth_mem) simp
    moreover have "drop k (changes st @ [c]) ! (n - k) = x"
      unfolding n(2) nth_drop [OF k(2)] using \<open>k \<le> n\<close> by simp
    ultimately show ?thesis unfolding k(1) by simp
  qed
  show "logged r i ?b" if "r \<le> rp_revision st"
  proof -
    have "c \<in> set (changes ?b)" if "rp_changeFloor ?b \<le> r" using kept [of c r] that \<open>r \<le> _\<close> by (simp add: c)
    then show ?thesis using \<open>r \<le> _\<close> unfolding logged_def by (intro impI bexI [of _ c]) (simp_all add: c)
  qed
  show "logged r j ?b" if "logged r j st"
    unfolding logged_def
  proof
    assume floor: "rp_changeFloor ?b \<le> r"
    then have "rp_changeFloor st \<le> r" using fl by simp
    with \<open>logged r j st\<close> obtain x where "x \<in> set (changes st)" "ch_revision x > r" "ch_id x = j"
      unfolding logged_def by blast
    then show "\<exists>c \<in> set (changes ?b). ch_revision c > r \<and> ch_id c = j"
      using kept [of x r] floor by auto
  qed
qed

section \<open>The composed view\<close>

definition retained :: "ReplicaConfig \<Rightarrow> Replica \<Rightarrow> string \<Rightarrow> Entity option" where
  "retained cfg st i = (case compose (map_of (rp_entities st) i) (getOr (map_of (rp_overlay st) i) []) of
     Some n \<Rightarrow> if resident_row cfg st n then Some n else None | None \<Rightarrow> None)"

definition eff_ok :: "ReplicaConfig \<Rightarrow> Replica \<Rightarrow> string \<Rightarrow> bool" where
  "eff_ok cfg st i \<longleftrightarrow> map_of (rp_effective st) i =
     (if map_of (rp_overlay st) i = None then None else Some (retained cfg st i))"

lemma compose_own:
  assumes "\<And>b. base = Some b \<Longrightarrow> own tyof i b" "\<forall>w \<in> set ws. upd_for tyof i (ow_update w)"
    "compose base ws = Some n"
  shows "own tyof i n"
  using assms
proof (induction ws arbitrary: base)
  case Nil
  then show ?case by (simp add: compose_def)
next
  case (Cons w ws)
  show ?case
  proof (rule Cons.IH)
    show "compose (applyUpdate True base (ow_update w) 0 (ow_hlc w)) ws = Some n"
      using Cons.prems(3) by (simp add: compose_def)
    show "own tyof i b" if "applyUpdate True base (ow_update w) 0 (ow_hlc w) = Some b" for b
      using applyUpdate_own [OF that] Cons.prems(1,2) by simp
  qed (use Cons.prems(2) in simp)
qed

lemma compose_Some: "compose (Some b) ws \<noteq> None"
proof (induction ws arbitrary: b)
  case Nil
  then show ?case by (simp add: compose_def)
next
  case (Cons w ws)
  obtain b' where "applyUpdate True (Some b) (ow_update w) 0 (ow_hlc w) = Some b'"
    using applyUpdate_None [of True "Some b" "ow_update w" 0 "ow_hlc w"] by auto
  with Cons [of b'] show ?case by (simp add: compose_def)
qed

lemma overlay_for:
  assumes "base_ok tyof cfg st"
  shows "\<forall>w \<in> set (getOr (map_of (rp_overlay st) i) []). upd_for tyof i (ow_update w)"
    "getOr (map_of (rp_overlay st) i) [] = [] \<longleftrightarrow> map_of (rp_overlay st) i = None"
  using assms by (cases "map_of (rp_overlay st) i"; auto simp: base_ok_def)+

lemma retained_own:
  assumes "base_ok tyof cfg st" "retained cfg st i = Some n"
  shows "own tyof i n" "holds cfg (tyof i) \<or> pinned st i"
proof -
  have c: "compose (map_of (rp_entities st) i) (getOr (map_of (rp_overlay st) i) []) = Some n"
    and r: "resident_row cfg st n"
    using assms(2) by (auto simp: retained_def split: option.splits if_splits)
  show own: "own tyof i n"
    using compose_own [OF _ overlay_for(1) [OF assms(1)] c] base_ok_entity(3) [OF assms(1)] by blast
  with r show "holds cfg (tyof i) \<or> pinned st i" by (simp add: resident_row_def own_def)
qed

text \<open>A base row is never hidden by retention, so a replica in order has nothing to release in resync.\<close>

lemma retained_base:
  assumes ok: "base_ok tyof cfg st" and b: "map_of (rp_entities st) i = Some b"
  shows "retained cfg st i \<noteq> None"
proof -
  obtain n where n: "compose (Some b) (getOr (map_of (rp_overlay st) i) []) = Some n"
    using compose_Some by fastforce
  with compose_own [OF _ overlay_for(1) [OF ok] n] base_ok_entity(3) [OF ok b] have "own tyof i n" by auto
  with base_ok_entity(4) [OF ok b] have "resident_row cfg st n" by (auto simp: resident_row_def own_def)
  with n b show ?thesis by (simp add: retained_def)
qed

lemma releasePin_noop:
  assumes ok: "base_ok tyof cfg st"
    and c: "case retained cfg st i of None \<Rightarrow> True | Some r \<Rightarrow> holds cfg (ent_type r)"
  shows "releasePin i st = st"
proof -
  have "\<not> pinned st i"
  proof
    assume p: "pinned st i"
    then obtain b where "map_of (rp_entities st) i = Some b" "\<not> holds cfg (tyof i)"
      using ok by (auto simp: base_ok_def)
    with retained_base [OF ok] retained_own(1) [OF ok] c show False
      by (fastforce simp: own_def split: option.splits)
  qed
  then show ?thesis by (simp add: releasePin_def)
qed

lemma view_retained:
  assumes ok: "base_ok tyof cfg st" and e: "eff_ok cfg st i"
  shows "viewOf st i = retained cfg st i"
proof (cases "map_of (rp_overlay st) i")
  case None
  have "retained cfg st i = map_of (rp_entities st) i"
    using base_ok_entity [OF ok]
    by (cases "map_of (rp_entities st) i") (auto simp: retained_def None compose_def resident_row_def)
  with e None show ?thesis by (simp add: viewOf_def eff_ok_def)
next
  case (Some ws)
  with e show ?thesis by (simp add: viewOf_def eff_ok_def)
qed

section \<open>Resynchronisation\<close>

definition index_for :: "(string \<Rightarrow> Entity option) \<Rightarrow> Replica \<Rightarrow> bool" where
  "index_for V st \<longleftrightarrow> reverse.tracks V (rp_reverseIndex st) \<and> forward.tracks V (rp_forwardIndex st)"

definition with_effective :: "string \<Rightarrow> Entity option \<Rightarrow> Replica \<Rightarrow> Replica" where
  "with_effective i r st = st\<lparr>rp_effective := (if map_of (rp_overlay st) i = None
     then obj_delete (rp_effective st) i else obj_set (rp_effective st) i r)\<rparr>"

lemma contentChanged_None [simp]: "\<not> contentChanged r None None"
  by (simp add: contentChanged_def)

lemma resync_shape:
  assumes ok: "base_ok tyof cfg st" and prev: "\<And>e. prev = Some e \<Longrightarrow> own tyof i e"
  obtains "resync cfg i prev st = reconcileIndex prev (retained cfg st i) (with_effective i (retained cfg st i) st)"
    "\<not> contentChanged (refEq cfg) prev (retained cfg st i)"
  | t d where "resync cfg i prev st =
      bump cfg i t d (reconcileIndex prev (retained cfg st i) (with_effective i (retained cfg st i) st))" "t = tyof i"
proof -
  let ?n = "compose (map_of (rp_entities st) i) (getOr (map_of (rp_overlay st) i) [])"
  let ?s = "reconcileIndex prev (retained cfg st i) (with_effective i (retained cfg st i) st)"
  have rel: "(if case retained cfg st i of None \<Rightarrow> True | Some r \<Rightarrow> holds cfg (ent_type r)
      then releasePin i st else st) = st"
    using releasePin_noop [OF ok] by presburger
  have eq: "resync cfg i prev st = (case retained cfg st i of
      None \<Rightarrow> (case ?n of Some n \<Rightarrow> bump cfg i (ent_type n) (deleted_hlc n \<noteq> None) ?s
          | None \<Rightarrow> (case prev of Some p \<Rightarrow> bump cfg i (ent_type p) True ?s | None \<Rightarrow> ?s))
    | Some r \<Rightarrow> if contentChanged (refEq cfg) prev (Some r)
        then bump cfg i (ent_type r) (deleted_hlc r \<noteq> None) ?s else ?s)"
    unfolding resync_def Let_def retained_def [symmetric] rel overlay_for(2) [OF ok] with_effective_def
    by (cases "map_of (rp_overlay st) i") simp_all
  show thesis
  proof (cases "retained cfg st i = None \<and> ?n = None \<and> prev = None \<or>
      (\<exists>r. retained cfg st i = Some r \<and> \<not> contentChanged (refEq cfg) prev (Some r))")
    case True
    then show thesis
    proof (elim disjE conjE exE)
      assume none: "retained cfg st i = None" "?n = None" "prev = None"
      show thesis
      proof (rule that(1))
        show "resync cfg i prev st = ?s" unfolding eq unfolding none by simp
        show "\<not> contentChanged (refEq cfg) prev (retained cfg st i)" unfolding none by simp
      qed
    next
      fix r
      assume r: "retained cfg st i = Some r" "\<not> contentChanged (refEq cfg) prev (Some r)"
      show thesis
      proof (rule that(1))
        show "resync cfg i prev st = ?s" unfolding eq unfolding r(1) using r(2) by simp
        show "\<not> contentChanged (refEq cfg) prev (retained cfg st i)" unfolding r(1) by (rule r(2))
      qed
    qed
  next
    case False
    then consider n where "retained cfg st i = None" "?n = Some n"
      | p where "retained cfg st i = None" "?n = None" "prev = Some p"
      | r where "retained cfg st i = Some r" "contentChanged (refEq cfg) prev (Some r)"
      by (cases "retained cfg st i"; cases ?n; cases prev) blast+
    then show thesis
    proof cases
      case 1
      show thesis
      proof (rule that(2))
        show "resync cfg i prev st = bump cfg i (ent_type n) (deleted_hlc n \<noteq> None) ?s"
          unfolding eq unfolding 1 by simp
        show "ent_type n = tyof i"
          using compose_own [OF _ overlay_for(1) [OF ok] 1(2)] base_ok_entity(3) [OF ok] by (auto simp: own_def)
      qed
    next
      case 2
      show thesis
      proof (rule that(2))
        show "resync cfg i prev st = bump cfg i (ent_type p) True ?s" unfolding eq unfolding 2 by simp
        show "ent_type p = tyof i" using prev 2(3) by (simp add: own_def)
      qed
    next
      case 3
      show thesis
      proof (rule that(2))
        show "resync cfg i prev st = bump cfg i (ent_type r) (deleted_hlc r \<noteq> None) ?s"
          unfolding eq unfolding 3(1) using 3(2) by simp
        show "ent_type r = tyof i" using retained_own(1) [OF ok 3(1)] by (simp add: own_def)
      qed
    qed
  qed
qed

text \<open>Fields resynchronisation leaves alone.\<close>

definition same_base :: "Replica \<Rightarrow> Replica \<Rightarrow> bool" where
  "same_base st st' \<longleftrightarrow> rp_entities st' = rp_entities st \<and> rp_typeIndex st' = rp_typeIndex st \<and>
     rp_overlay st' = rp_overlay st \<and> rp_orphans st' = rp_orphans st \<and> rp_pins st' = rp_pins st \<and>
     rp_inFlightOpens st' = rp_inFlightOpens st \<and> rp_openEpochs st' = rp_openEpochs st \<and>
     rp_nextOpenEpoch st' = rp_nextOpenEpoch st \<and> rp_pendingOpens st' = rp_pendingOpens st \<and>
     rp_lastPosition st' = rp_lastPosition st"

lemma same_base_refl [simp]: "same_base st st"
  by (simp add: same_base_def)

lemma same_base_trans: "same_base a b \<Longrightarrow> same_base b d \<Longrightarrow> same_base a d"
  by (simp add: same_base_def)

lemma same_base_ok: "same_base st st' \<Longrightarrow> obj_ok (rp_effective st') \<Longrightarrow> base_ok tyof cfg st \<Longrightarrow> base_ok tyof cfg st'"
  by (simp add: same_base_def base_ok_def pinned_def)

lemma same_base_retained: "same_base st st' \<Longrightarrow> retained cfg st' i = retained cfg st i"
  by (simp add: same_base_def retained_def resident_row_def pinned_def split: option.splits)

lemma bump_same: "same_base st (bump cfg i t d st)"
  by (simp add: same_base_def)

text \<open>The journal of a step: revisions only grow, and the ids logged so far stay logged.\<close>

definition journal_step :: "(string \<Rightarrow> string) \<Rightarrow> ReplicaConfig \<Rightarrow> Replica \<Rightarrow> Replica \<Rightarrow> bool" where
  "journal_step tyof cfg st st' \<longleftrightarrow> journal_ok tyof cfg st' \<and> rp_revision st \<le> rp_revision st' \<and>
     rp_changeFloor st \<le> rp_changeFloor st' \<and> (\<forall>r j. logged r j st \<longrightarrow> logged r j st')"

lemma journal_step_refl: "journal_ok tyof cfg st \<Longrightarrow> journal_step tyof cfg st st"
  by (simp add: journal_step_def)

lemma journal_step_trans: "journal_step tyof cfg a b \<Longrightarrow> journal_step tyof cfg b d \<Longrightarrow> journal_step tyof cfg a d"
  by (auto simp: journal_step_def)

lemma bump_step: "journal_ok tyof cfg st \<Longrightarrow> t = tyof i \<Longrightarrow> journal_step tyof cfg st (bump cfg i t d st)"
  using bump_journal_ok(1,2,4) by (auto simp: journal_step_def)

lemma journal_same:
  assumes "rp_journal st' = rp_journal st" "rp_journalStart st' = rp_journalStart st"
    "rp_revision st' = rp_revision st" "rp_changeFloor st' = rp_changeFloor st" "journal_ok tyof cfg st"
  shows "journal_step tyof cfg st st'" "logged r i st' = logged r i st"
  using assms by (simp_all add: journal_step_def journal_ok_def logged_def changes_def)

lemma resync_inv:
  assumes ok: "base_ok tyof cfg st" and j: "journal_ok tyof cfg st" and V: "index_for V st"
    and rows: "\<And>e. V i = Some e \<Longrightarrow> own tyof i e"
  defines "st' \<equiv> resync cfg i (V i) st"
  shows "base_ok tyof cfg st'" "same_base st st'" "journal_step tyof cfg st st'"
    "index_for (V(i := retained cfg st i)) st'" "eff_ok cfg st' i"
    "k \<noteq> i \<Longrightarrow> map_of (rp_effective st') k = map_of (rp_effective st) k"
    "contentChanged (refEq cfg) (V i) (retained cfg st i) \<Longrightarrow> r \<le> rp_revision st \<Longrightarrow> logged r i st'"
proof -
  let ?R = "retained cfg st i"
  let ?s = "reconcileIndex (V i) ?R (with_effective i ?R st)"
  have base: "same_base st ?s" by (simp add: same_base_def reconcileIndex_def with_effective_def)
  have eff: "obj_ok (rp_effective ?s)"
    using ok by (auto simp: reconcileIndex_def with_effective_def base_ok_def js_simps)
  have js: "journal_step tyof cfg st ?s" "logged r i ?s = logged r i st"
    by (rule journal_same [OF _ _ _ _ j]; simp add: reconcileIndex_def with_effective_def)+
  have ids: "ent_id e = i" if "V i = Some e \<or> ?R = Some e" for e
    using that rows retained_own(1) [OF ok] by (auto simp: own_def)
  have idx: "index_for (V(i := ?R)) ?s"
    using V reverse.tracks_write [of V "rp_reverseIndex st" i ?R] forward.tracks_write [of V "rp_forwardIndex st" i ?R] ids
    by (simp add: index_for_def reconcileIndex_def with_effective_def reverseIndexDelta_def forwardIndexDelta_def)
  have eok: "map_of (rp_effective ?s) i = (if map_of (rp_overlay st) i = None then None else Some ?R)"
    by (simp add: reconcileIndex_def with_effective_def obj_set_get obj_delete_get)
  have other: "map_of (rp_effective ?s) k = map_of (rp_effective st) k" if "k \<noteq> i" for k
    using that by (simp add: reconcileIndex_def with_effective_def obj_set_get obj_delete_get)
  consider (quiet) "st' = ?s" "\<not> contentChanged (refEq cfg) (V i) ?R" | (bumped) t d where "st' = bump cfg i t d ?s" "t = tyof i"
    unfolding st'_def by (rule resync_shape [OF ok rows])
  then have res: "same_base st st' \<and> rp_effective st' = rp_effective ?s \<and> index_for (V(i := ?R)) st' \<and> journal_step tyof cfg st st' \<and>
      (contentChanged (refEq cfg) (V i) ?R \<longrightarrow> r \<le> rp_revision st \<longrightarrow> logged r i st')"
  proof cases
    case quiet
    with base idx js show ?thesis by simp
  next
    case bumped
    have jo: "journal_ok tyof cfg ?s" using js(1) by (simp add: journal_step_def)
    have rev: "rp_revision ?s = rp_revision st" by (simp add: reconcileIndex_def with_effective_def)
    from bumped(1) base idx bump_step [OF jo bumped(2), of d] js(1) bump_journal_ok(3) [OF jo bumped(2), of r d] rev show ?thesis
      by (auto simp: index_for_def intro: same_base_trans [OF _ bump_same] journal_step_trans)
  qed
  then show sb: "same_base st st'" and "index_for (V(i := ?R)) st'" "journal_step tyof cfg st st'" by simp_all
  show "base_ok tyof cfg st'" using same_base_ok [OF sb _ ok] res eff by simp
  show "eff_ok cfg st' i"
    using res eok sb same_base_retained [OF sb] by (simp add: eff_ok_def same_base_def)
  show "map_of (rp_effective st') k = map_of (rp_effective st) k" if "k \<noteq> i" using res other that by simp
  show "logged r i st'" if "contentChanged (refEq cfg) (V i) ?R" "r \<le> rp_revision st" using res that by simp
qed

text \<open>
  The lemma of all writes: from a replica whose cache is right outside \<open>ids\<close> and whose indices track
  the views \<open>V\<close>, resynchronising \<open>ids\<close> against \<open>V\<close> restores the invariant, and every id whose visible
  content changed is in the journal.
\<close>

lemma resyncAll_inv:
  assumes "base_ok tyof cfg st" "journal_ok tyof cfg st" "index_for V st" "distinct ids"
    "\<And>i e. i \<in> set ids \<Longrightarrow> V i = Some e \<Longrightarrow> own tyof i e"
    "\<And>i. i \<notin> set ids \<Longrightarrow> eff_ok cfg st i"
    "\<And>i. i \<in> set ids \<Longrightarrow> view_before before i = V i"
  defines "st' \<equiv> resyncAll cfg before ids st"
  shows "base_ok tyof cfg st' \<and> same_base st st' \<and> journal_step tyof cfg st st' \<and> (\<forall>i. eff_ok cfg st' i) \<and>
    index_for (\<lambda>i. if i \<in> set ids then retained cfg st i else V i) st' \<and>
    (\<forall>i \<in> set ids. contentChanged (refEq cfg) (V i) (retained cfg st i) \<longrightarrow> (\<forall>r \<le> rp_revision st. logged r i st'))"
  using assms(1-7) unfolding st'_def
proof (induction ids arbitrary: st V)
  case Nil
  then show ?case by (simp add: resyncAll_def journal_step_refl)
next
  case (Cons i ids)
  let ?st = "resync cfg i (V i) st"
  let ?V = "V(i := retained cfg st i)"
  have rows: "\<And>e. V i = Some e \<Longrightarrow> own tyof i e" using Cons.prems(5) by simp
  note one = resync_inv [OF Cons.prems(1-3) rows]
  have ret: "retained cfg ?st k = retained cfg st k" for k by (rule same_base_retained [OF one(2)])
  have unfold: "resyncAll cfg before (i # ids) st = resyncAll cfg before ids ?st"
    using Cons.prems(7) [of i] by (simp add: resyncAll_def)
  have ih: "base_ok tyof cfg (resyncAll cfg before ids ?st) \<and> same_base ?st (resyncAll cfg before ids ?st) \<and>
    journal_step tyof cfg ?st (resyncAll cfg before ids ?st) \<and> (\<forall>k. eff_ok cfg (resyncAll cfg before ids ?st) k) \<and>
    index_for (\<lambda>k. if k \<in> set ids then retained cfg ?st k else ?V k) (resyncAll cfg before ids ?st) \<and>
    (\<forall>k \<in> set ids. contentChanged (refEq cfg) (?V k) (retained cfg ?st k) \<longrightarrow>
       (\<forall>r \<le> rp_revision ?st. logged r k (resyncAll cfg before ids ?st)))"
  proof (rule Cons.IH)
    show "journal_ok tyof cfg ?st" using one(3) by (simp add: journal_step_def)
    show "eff_ok cfg ?st k" if "k \<notin> set ids" for k
    proof (cases "k = i")
      case False
      with that Cons.prems(6) have "eff_ok cfg st k" by simp
      with False one(6) [of k] ret one(2) show ?thesis by (simp add: eff_ok_def same_base_def)
    qed (use one(5) in simp)
    show "?V k = Some e \<Longrightarrow> own tyof k e" if "k \<in> set ids" for k e
      using that Cons.prems(4,5) by (auto split: if_splits)
    show "view_before before k = ?V k" if "k \<in> set ids" for k
      using that Cons.prems(4,7) by auto
  qed (use one(1,4) Cons.prems(4) in \<open>simp_all del: fun_upd_apply\<close>)
  have V: "(\<lambda>k. if k \<in> set ids then retained cfg ?st k else ?V k) =
      (\<lambda>k. if k \<in> set (i # ids) then retained cfg st k else V k)"
    by (auto simp: ret)
  have "logged r k (resyncAll cfg before ids ?st)"
    if "k \<in> set (i # ids)" "contentChanged (refEq cfg) (V k) (retained cfg st k)" "r \<le> rp_revision st" for k r
  proof (cases "k = i")
    case True
    then have "logged r k ?st" using one(7) that by simp
    then show ?thesis using ih by (simp add: journal_step_def)
  next
    case False
    moreover have "r \<le> rp_revision ?st" using that(3) one(3) by (simp add: journal_step_def)
    ultimately show ?thesis using ih that ret by simp
  qed
  then show ?case
    unfolding unfold using ih one(2,3) V
    by (auto intro: same_base_trans journal_step_trans)
qed

section \<open>The invariant of the replica\<close>

definition replica_ok :: "(string \<Rightarrow> string) \<Rightarrow> ReplicaConfig \<Rightarrow> Replica \<Rightarrow> bool" where
  "replica_ok tyof cfg st \<longleftrightarrow> base_ok tyof cfg st \<and> journal_ok tyof cfg st \<and> (\<forall>i. eff_ok cfg st i) \<and>
     index_for (viewOf st) st"

text \<open>
  What every write promises: the invariant, growing revisions, a journal that keeps what it has logged, and a
  journal entry for each id whose visible content changed.
\<close>

definition step_ok :: "(string \<Rightarrow> string) \<Rightarrow> ReplicaConfig \<Rightarrow> Replica \<Rightarrow> Replica \<Rightarrow> bool" where
  "step_ok tyof cfg st st' \<longleftrightarrow> replica_ok tyof cfg st' \<and> rp_revision st \<le> rp_revision st' \<and>
     rp_changeFloor st \<le> rp_changeFloor st' \<and> (\<forall>r j. logged r j st \<longrightarrow> logged r j st') \<and>
     (\<forall>i. viewOf st' i \<noteq> viewOf st i \<longrightarrow> contentChanged (refEq cfg) (viewOf st i) (viewOf st' i) \<longrightarrow>
        logged (rp_revision st) i st')"

lemma replica_view: "replica_ok tyof cfg st \<Longrightarrow> viewOf st i = retained cfg st i"
  unfolding replica_ok_def by (blast intro: view_retained)

lemma replica_view_own: "replica_ok tyof cfg st \<Longrightarrow> viewOf st i = Some e \<Longrightarrow> own tyof i e"
  by (metis replica_view replica_ok_def retained_own(1))

text \<open>A change of base and overlay confined to some ids.\<close>

definition touch :: "string set \<Rightarrow> Replica \<Rightarrow> Replica \<Rightarrow> bool" where
  "touch X st st1 \<longleftrightarrow> rp_effective st1 = rp_effective st \<and> rp_pins st1 = rp_pins st \<and>
     rp_reverseIndex st1 = rp_reverseIndex st \<and> rp_forwardIndex st1 = rp_forwardIndex st \<and>
     rp_journal st1 = rp_journal st \<and> rp_journalStart st1 = rp_journalStart st \<and>
     rp_revision st1 = rp_revision st \<and> rp_changeFloor st1 = rp_changeFloor st \<and>
     (\<forall>i. i \<notin> X \<longrightarrow> map_of (rp_entities st1) i = map_of (rp_entities st) i \<and>
        map_of (rp_overlay st1) i = map_of (rp_overlay st) i)"

lemma touch_refl: "touch X st st"
  by (simp add: touch_def)

lemma touch_trans: "touch X a b \<Longrightarrow> touch X b d \<Longrightarrow> touch X a d"
  by (simp add: touch_def)

lemma touch_mono: "touch X a b \<Longrightarrow> X \<subseteq> Y \<Longrightarrow> touch Y a b"
  by (auto simp: touch_def)

lemma touch_retained: "touch X st st1 \<Longrightarrow> i \<notin> X \<Longrightarrow> retained cfg st1 i = retained cfg st i"
  by (simp add: touch_def retained_def resident_row_def pinned_def split: option.splits)

lemma notify_simps [simp]:
  "viewOf (notify st) = viewOf st" "base_ok tyof cfg (notify st) = base_ok tyof cfg st"
  "journal_ok tyof cfg (notify st) = journal_ok tyof cfg st" "eff_ok cfg (notify st) = eff_ok cfg st"
  "index_for V (notify st) = index_for V st" "rp_revision (notify st) = rp_revision st"
  "rp_changeFloor (notify st) = rp_changeFloor st" "logged r i (notify st) = logged r i st"
  "retained cfg (notify st) = retained cfg st" "rp_entities (notify st) = rp_entities st"
  "rp_overlay (notify st) = rp_overlay st" "rp_pins (notify st) = rp_pins st"
  "rp_lastPosition (notify st) = rp_lastPosition st" "changes (notify st) = changes st"
  by (auto simp: notify_def viewOf_def base_ok_def journal_ok_def eff_ok_def index_for_def logged_def
      changes_def retained_def resident_row_def pinned_def fun_eq_iff split: option.splits)

lemma write_core:
  assumes ok: "replica_ok tyof cfg st" and base: "base_ok tyof cfg st1" and t: "touch (set ids) st st1"
    and d: "distinct ids" and before: "\<And>i. i \<in> set ids \<Longrightarrow> view_before before i = viewOf st i"
  shows "step_ok tyof cfg st (notify (resyncAll cfg before ids st1))"
    "viewOf (notify (resyncAll cfg before ids st1)) i = retained cfg st1 i"
    "same_base st1 (resyncAll cfg before ids st1)"
proof -
  let ?st' = "resyncAll cfg before ids st1"
  have j: "journal_ok tyof cfg st1" using ok t by (simp add: replica_ok_def journal_ok_def touch_def changes_def)
  have idx: "index_for (viewOf st) st1" using ok t by (simp add: replica_ok_def index_for_def touch_def)
  have rows: "viewOf st k = Some e \<Longrightarrow> own tyof k e" for k e by (rule replica_view_own [OF ok])
  have eff: "eff_ok cfg st1 k" if "k \<notin> set ids" for k
    using ok t touch_retained [OF t that] that by (simp add: replica_ok_def eff_ok_def touch_def)
  note all = resyncAll_inv [OF base j idx d rows eff before]
  have ret: "retained cfg ?st' k = retained cfg st1 k" for k using all same_base_retained by blast
  have view: "viewOf ?st' k = retained cfg st1 k" for k using all view_retained ret by metis
  show "viewOf (notify ?st') i = retained cfg st1 i" by (simp add: view)
  have out: "retained cfg st1 k = viewOf st k" if "k \<notin> set ids" for k
    using touch_retained [OF t that] replica_view [OF ok] by simp
  have "(\<lambda>k. if k \<in> set ids then retained cfg st1 k else viewOf st k) = viewOf ?st'"
    using view out by auto
  then have "replica_ok tyof cfg ?st'" using all by (simp add: replica_ok_def journal_step_def)
  moreover have "logged (rp_revision st) k ?st'"
    if "viewOf ?st' k \<noteq> viewOf st k" "contentChanged (refEq cfg) (viewOf st k) (viewOf ?st' k)" for k
  proof -
    have "k \<in> set ids" using that(1) view out by metis
    then show ?thesis using all that(2) view t by (simp add: touch_def)
  qed
  moreover have "logged r k st1 = logged r k st" for r k using t by (simp add: logged_def changes_def touch_def)
  ultimately show "step_ok tyof cfg st (notify ?st')"
    using all t by (auto simp: step_ok_def replica_ok_def journal_step_def touch_def)
  show "same_base st1 ?st'" using all by blast
qed

lemma remember_fold:
  "map_of (fold (rememberView st) ids before) i =
     (case map_of before i of Some v \<Rightarrow> Some v | None \<Rightarrow> if i \<in> set ids then Some (viewOf st i) else None)"
  by (induction ids arbitrary: before) (auto simp: rememberView_def obj_set_get split: option.splits)

subsection \<open>Optimistic writes\<close>

definition pushed :: "Action \<Rightarrow> Update list \<Rightarrow> string \<Rightarrow> OptimisticWrite list" where
  "pushed a us i = map (\<lambda>u. \<lparr>ow_actionId = act_id a, ow_update = u, ow_hlc = act_hlc a\<rparr>)
     (filter (\<lambda>u. subject_id u = i) us)"

lemma pushWrite_overlay:
  "pushWrite a u st = st\<lparr>rp_overlay := obj_set (rp_overlay st) (subject_id u)
     (getOr (map_of (rp_overlay st) (subject_id u)) [] @ pushed a [u] (subject_id u))\<rparr>"
  by (auto simp: pushWrite_def pushed_def Let_def split: option.splits)

lemma optimistic_loop:
  assumes "fold (\<lambda>u (before, touched, st). (rememberView st (subject_id u) before, set_add touched (subject_id u),
      pushWrite a u st)) us ([], [], st) = (before, touched, st1)"
    and "base_ok tyof cfg st" "\<forall>u \<in> set us. upd_for tyof (subject_id u) u"
  shows "base_ok tyof cfg st1 \<and> touch (set touched) st st1 \<and> distinct touched \<and> set touched = subject_id ` set us \<and>
    rp_entities st1 = rp_entities st \<and>
    (\<forall>i. map_of before i = (if i \<in> set touched then Some (viewOf st i) else None)) \<and>
    (\<forall>i. getOr (map_of (rp_overlay st1) i) [] = getOr (map_of (rp_overlay st) i) [] @ pushed a us i)"
  using assms
proof (induction us arbitrary: before touched st1 rule: rev_induct)
  case Nil
  then show ?case by (simp add: touch_refl pushed_def)
next
  case (snoc u us)
  obtain before0 touched0 st0 where loop: "fold (\<lambda>u (before, touched, st). (rememberView st (subject_id u) before,
      set_add touched (subject_id u), pushWrite a u st)) us ([], [], st) = (before0, touched0, st0)"
    using prod_cases3 by blast
  have ih: "base_ok tyof cfg st0" "touch (set touched0) st st0" "distinct touched0" "set touched0 = subject_id ` set us"
    "rp_entities st0 = rp_entities st" "\<And>i. map_of before0 i = (if i \<in> set touched0 then Some (viewOf st i) else None)"
    "\<And>i. getOr (map_of (rp_overlay st0) i) [] = getOr (map_of (rp_overlay st) i) [] @ pushed a us i"
    using snoc.IH [OF loop] snoc.prems by auto
  have eqs: "before = rememberView st0 (subject_id u) before0" "touched = set_add touched0 (subject_id u)"
    "st1 = pushWrite a u st0"
    using snoc.prems(1) loop by simp_all
  have view: "viewOf st0 = viewOf st" using ih(2,5) by (simp add: viewOf_def touch_def fun_eq_iff split: option.splits)
  have u: "upd_for tyof (subject_id u) u" using snoc.prems(3) by simp
  have "base_ok tyof cfg st1"
    using ih(1) u overlay_for(1) [OF ih(1), of "subject_id u"] unfolding eqs(3) pushWrite_overlay base_ok_def pinned_def
    by (auto simp: obj_set_get js_simps pushed_def)
  moreover have "touch (set touched) st st1"
    using ih(2) by (auto simp: eqs pushWrite_overlay touch_def obj_set_get js_simps)
  moreover have "map_of before i = (if i \<in> set touched then Some (viewOf st i) else None)" for i
    using ih(6) view by (auto simp: eqs rememberView_def obj_set_get js_simps)
  moreover have "getOr (map_of (rp_overlay st1) i) [] = getOr (map_of (rp_overlay st) i) [] @ pushed a (us @ [u]) i" for i
    using ih(7) by (auto simp: eqs pushWrite_overlay obj_set_get pushed_def)
  ultimately show ?case
    using ih(3,4,5) by (auto simp: eqs(2) eqs(3) pushWrite_overlay js_simps)
qed

lemma optimistic_inv:
  assumes ok: "replica_ok tyof cfg st" and us: "\<forall>u \<in> set (act_updates a). upd_for tyof (subject_id u) u"
  shows "step_ok tyof cfg st (optimistic cfg a st)"
    "rp_entities (optimistic cfg a st) = rp_entities st" "rp_pins (optimistic cfg a st) = rp_pins st"
    "getOr (map_of (rp_overlay (optimistic cfg a st)) i) [] =
       getOr (map_of (rp_overlay st) i) [] @ pushed a (act_updates a) i"
proof -
  obtain before touched st1 where loop: "fold (\<lambda>u (before, touched, st). (rememberView st (subject_id u) before,
      set_add touched (subject_id u), pushWrite a u st)) (act_updates a) ([], [], st) = (before, touched, st1)"
    using prod_cases3 by blast
  have base: "base_ok tyof cfg st" using ok by (simp add: replica_ok_def)
  note l = optimistic_loop [OF loop base us]
  have vb: "view_before before k = viewOf st k" if "k \<in> set touched" for k
    using l that by (simp add: view_before_def)
  have opt: "optimistic cfg a st = notify (resyncAll cfg before touched st1)"
    by (simp add: optimistic_def loop)
  note core = write_core [OF ok, of st1 touched before] 
  show "step_ok tyof cfg st (optimistic cfg a st)" unfolding opt using l vb by (intro core) auto
  have sb: "same_base st1 (resyncAll cfg before touched st1)" using l vb by (intro core(3)) auto
  show "rp_entities (optimistic cfg a st) = rp_entities st" "rp_pins (optimistic cfg a st) = rp_pins st"
    "getOr (map_of (rp_overlay (optimistic cfg a st)) i) [] = getOr (map_of (rp_overlay st) i) [] @ pushed a (act_updates a) i"
    unfolding opt using l sb by (simp_all add: same_base_def touch_def)
qed

subsection \<open>Dropping the writes of an Action\<close>

definition without :: "string \<Rightarrow> OptimisticWrite list \<Rightarrow> OptimisticWrite list" where
  "without aid ws = filter (\<lambda>w. ow_actionId w \<noteq> aid) ws"

definition drop_one :: "string \<Rightarrow> string \<Rightarrow> Replica \<Rightarrow> Replica" where
  "drop_one aid eid st =
     (let remaining = without aid (getOr (map_of (rp_overlay st) eid) []) in
      if length remaining = 0 then st\<lparr>rp_overlay := obj_delete (rp_overlay st) eid\<rparr>
      else st\<lparr>rp_overlay := obj_set (rp_overlay st) eid remaining\<rparr>)"

lemma drop_one_spec:
  assumes "base_ok tyof cfg st"
  shows "base_ok tyof cfg (drop_one aid eid st)" "touch {eid} st (drop_one aid eid st)"
    "rp_entities (drop_one aid eid st) = rp_entities st"
    "getOr (map_of (rp_overlay (drop_one aid eid st)) i) [] =
       (if i = eid then without aid (getOr (map_of (rp_overlay st) i) []) else getOr (map_of (rp_overlay st) i) [])"
proof -
  show "base_ok tyof cfg (drop_one aid eid st)"
    using assms overlay_for(1) [OF assms, of eid] unfolding drop_one_def Let_def base_ok_def pinned_def
    by (auto simp: obj_set_get obj_delete_get js_simps without_def)
qed (auto simp: drop_one_def Let_def touch_def obj_set_get obj_delete_get)

lemma drop_fold_spec:
  assumes "base_ok tyof cfg st"
  shows "base_ok tyof cfg (fold (drop_one aid) ids st) \<and> touch (set ids) st (fold (drop_one aid) ids st) \<and>
    rp_entities (fold (drop_one aid) ids st) = rp_entities st \<and>
    (\<forall>i. getOr (map_of (rp_overlay (fold (drop_one aid) ids st)) i) [] =
       (if i \<in> set ids then without aid (getOr (map_of (rp_overlay st) i) []) else getOr (map_of (rp_overlay st) i) []))"
  using assms
proof (induction ids arbitrary: st)
  case Nil
  then show ?case by (simp add: touch_refl)
next
  case (Cons j ids)
  note one = drop_one_spec [OF Cons.prems, where aid = aid and eid = j]
  have "touch (set (j # ids)) st (fold (drop_one aid) ids (drop_one aid j st))"
    using Cons.IH [OF one(1)] one(2) by (auto intro: touch_trans touch_mono)
  with Cons.IH [OF one(1)] one(3,4) show ?case by (auto simp: without_def)
qed

lemma dropOverlay_spec:
  assumes ok: "base_ok tyof cfg st" and d: "dropOverlay aid before st = (affected, before', st')"
  shows "base_ok tyof cfg st'" "touch (set affected) st st'" "rp_entities st' = rp_entities st" "distinct affected"
    "getOr (map_of (rp_overlay st') i) [] = without aid (getOr (map_of (rp_overlay st) i) [])"
    "map_of before' i = (case map_of before i of Some v \<Rightarrow> Some v
       | None \<Rightarrow> if i \<in> set affected then Some (viewOf st i) else None)"
proof -
  have aff: "affected = map fst (filter (\<lambda>(eid, ws). \<exists>w \<in> set ws. ow_actionId w = aid) (rp_overlay st))"
    and b: "before' = fold (rememberView st) affected before" and st': "st' = fold (drop_one aid) affected st"
    using d by (auto simp: dropOverlay_def Let_def drop_one_def [abs_def] without_def)
  have o: "obj_ok (rp_overlay st)" using ok by (simp add: base_ok_def)
  show "distinct affected"
    unfolding aff using o by (auto simp: obj_ok_def distinct_map intro: inj_on_subset)
  have out: "without aid (getOr (map_of (rp_overlay st) k) []) = getOr (map_of (rp_overlay st) k) []"
    if "k \<notin> set affected" for k
  proof (cases "map_of (rp_overlay st) k")
    case (Some ws)
    then have "(k, ws) \<in> set (rp_overlay st)" by (rule map_of_SomeD)
    with that have "\<forall>w \<in> set ws. ow_actionId w \<noteq> aid" unfolding aff by force
    with Some show ?thesis by (simp add: without_def)
  qed (simp add: without_def)
  show "base_ok tyof cfg st'" "touch (set affected) st st'" "rp_entities st' = rp_entities st"
    "getOr (map_of (rp_overlay st') i) [] = without aid (getOr (map_of (rp_overlay st) i) [])"
    using drop_fold_spec [OF ok, of aid affected] out [of i] unfolding st' by auto
  show "map_of before' i = (case map_of before i of Some v \<Rightarrow> Some v
       | None \<Rightarrow> if i \<in> set affected then Some (viewOf st i) else None)"
    unfolding b by (rule remember_fold)
qed

lemma discard_inv:
  assumes ok: "replica_ok tyof cfg st"
  shows "step_ok tyof cfg st (discard cfg aid st)"
    "rp_entities (discard cfg aid st) = rp_entities st" "rp_pins (discard cfg aid st) = rp_pins st"
    "getOr (map_of (rp_overlay (discard cfg aid st)) i) [] = without aid (getOr (map_of (rp_overlay st) i) [])"
proof -
  obtain affected before st1 where d: "dropOverlay aid [] st = (affected, before, st1)" using prod_cases3 by blast
  have base: "base_ok tyof cfg st" using ok by (simp add: replica_ok_def)
  note l = dropOverlay_spec [OF base d]
  have vb: "view_before before k = viewOf st k" if "k \<in> set affected" for k
    using l(6) that by (simp add: view_before_def)
  have eq: "discard cfg aid st = notify (resyncAll cfg before affected st1)" by (simp add: discard_def d)
  note core = write_core [OF ok l(1,2,4) vb]
  show "step_ok tyof cfg st (discard cfg aid st)" unfolding eq by (rule core(1))
  show "rp_entities (discard cfg aid st) = rp_entities st" "rp_pins (discard cfg aid st) = rp_pins st"
    "getOr (map_of (rp_overlay (discard cfg aid st)) i) [] = without aid (getOr (map_of (rp_overlay st) i) [])"
    unfolding eq using core(3) l by (simp_all add: same_base_def touch_def)
qed

subsection \<open>Ingesting durable Updates\<close>

lemma view_same:
  assumes "rp_effective st' = rp_effective st" "rp_entities st' = rp_entities st"
  shows "viewOf st' = viewOf st"
  using assms by (simp add: viewOf_def fun_eq_iff split: option.splits)

lemma same_frame_touch:
  assumes "same_frame st st'" "\<And>j. j \<notin> X \<Longrightarrow> map_of (rp_entities st') j = map_of (rp_entities st) j"
  shows "touch X st st'"
  using assms by (simp add: same_frame_def touch_def)

definition as_orphan :: "Action \<Rightarrow> int \<Rightarrow> Update \<Rightarrow> OrphanUpdate" where
  "as_orphan a p u = \<lparr>or_update = u, or_gsn = act_gsn a, or_hlc = act_hlc a, or_position = p\<rparr>"

definition folded :: "ReplicaConfig \<Rightarrow> Action \<Rightarrow> Update list \<Rightarrow> int \<Rightarrow> Replica \<Rightarrow> Replica" where
  "folded cfg a us p st = fold (\<lambda>u. foldBase cfg u (act_gsn a) (act_hlc a) p) us st"

lemma folded_spec:
  assumes "base_ok tyof cfg st" "\<forall>u \<in> set us. upd_for tyof (subject_id u) u"
  shows "base_ok tyof cfg (folded cfg a us p st)" "touch (subject_id ` set us) st (folded cfg a us p st)"
    "rp_overlay (folded cfg a us p st) = rp_overlay st"
proof -
  have eq: "folded cfg a us p st = fold (\<lambda>e. foldBase cfg (or_update e) (or_gsn e) (or_hlc e) (or_position e))
      (map (as_orphan a p) us) st"
    by (simp add: folded_def fold_map comp_def as_orphan_def)
  have "\<forall>e \<in> set (map (as_orphan a p) us). upd_for tyof (subject_id (or_update e)) (or_update e)"
    using assms(2) by (simp add: as_orphan_def)
  note l = foldBase_list [OF assms(1) this, folded eq]
  have im: "(\<lambda>e. subject_id (or_update e)) ` set (map (as_orphan a p) us) = subject_id ` set us"
    by (simp add: image_comp comp_def as_orphan_def)
  show "base_ok tyof cfg (folded cfg a us p st)" "rp_overlay (folded cfg a us p st) = rp_overlay st"
    using l by (auto simp: same_frame_def)
  show "touch (subject_id ` set us) st (folded cfg a us p st)"
    using l unfolding im by (intro same_frame_touch) auto
qed

lemma base_ok_lastPosition [simp]: "base_ok tyof cfg (st\<lparr>rp_lastPosition := p\<rparr>) = base_ok tyof cfg st"
  by (simp add: base_ok_def pinned_def)

lemma ingest_inv:
  assumes ok: "replica_ok tyof cfg st" and us: "\<forall>u \<in> set delta. upd_for tyof (subject_id u) u"
  shows "step_ok tyof cfg st (ingest cfg a delta p st)"
    "\<exists>st1. base_ok tyof cfg st1 \<and> rp_entities st1 = rp_entities st \<and> rp_pins st1 = rp_pins st \<and>
       (\<forall>i. getOr (map_of (rp_overlay st1) i) [] = without (act_id a) (getOr (map_of (rp_overlay st) i) [])) \<and>
       rp_orphans st1 = rp_orphans st \<and> rp_inFlightOpens st1 = rp_inFlightOpens st \<and>
       rp_entities (ingest cfg a delta p st) = rp_entities (folded cfg a delta p st1) \<and>
       rp_overlay (ingest cfg a delta p st) = rp_overlay st1 \<and>
       rp_orphans (ingest cfg a delta p st) = rp_orphans (folded cfg a delta p st1) \<and>
       rp_pins (ingest cfg a delta p st) = rp_pins st \<and>
       rp_lastPosition (ingest cfg a delta p st) = max p (rp_lastPosition (folded cfg a delta p st1))"
proof -
  let ?before = "fold (rememberView st) (map subject_id delta) []"
  obtain echoed before st1 where d: "dropOverlay (act_id a) ?before st = (echoed, before, st1)"
    using prod_cases3 by blast
  have base: "base_ok tyof cfg st" using ok by (simp add: replica_ok_def)
  note l = dropOverlay_spec [OF base d]
  note f = folded_spec [OF l(1) us, of a p]
  let ?st2 = "folded cfg a delta p st1"
  let ?st3 = "if p > rp_lastPosition ?st2 then ?st2\<lparr>rp_lastPosition := p\<rparr> else ?st2"
  let ?touched = "fold (\<lambda>eid s. set_add s eid) echoed (js_set_of (map subject_id delta))"
  have eq: "ingest cfg a delta p st = notify (resyncAll cfg before ?touched ?st3)"
    using d by (simp add: ingest_def Let_def folded_def fold_map comp_def)
  have "distinct (js_set_of (map subject_id delta))"
    using fold_set_add_spec [of "[]" "map subject_id delta"] by (simp add: js_set_of_def)
  then have touched: "distinct ?touched" "set ?touched = subject_id ` set delta \<union> set echoed"
    using fold_set_add_spec [of "js_set_of (map subject_id delta)" echoed] by (simp_all add: js_set_of_set)
  have t: "touch (set ?touched) st ?st3"
  proof -
    have "touch (set ?touched) st st1" using touch_mono [OF l(2)] touched(2) by simp
    moreover have "touch (set ?touched) st1 ?st2" using touch_mono [OF f(2)] touched(2) by simp
    ultimately have "touch (set ?touched) st ?st2" by (rule touch_trans)
    then show ?thesis by (simp add: touch_def)
  qed
  have b: "base_ok tyof cfg ?st3" using f(1) by simp
  have vb: "view_before before i = viewOf st i" if "i \<in> set ?touched" for i
    using that touched(2) l(6) [of i] remember_fold [of st "map subject_id delta" "[]" i]
    by (auto simp: view_before_def split: if_splits)
  note core = write_core [OF ok b t touched(1) vb]
  show "step_ok tyof cfg st (ingest cfg a delta p st)" unfolding eq by (rule core(1))
  have st1: "rp_orphans st1 = rp_orphans st" "rp_inFlightOpens st1 = rp_inFlightOpens st"
  proof -
    have "rp_orphans (fold (drop_one x) ids s) = rp_orphans s \<and>
        rp_inFlightOpens (fold (drop_one x) ids s) = rp_inFlightOpens s" for x ids s
      by (induction ids arbitrary: s) (auto simp: drop_one_def Let_def)
    moreover have "st1 = fold (drop_one (act_id a)) echoed st"
      using d by (auto simp: dropOverlay_def Let_def drop_one_def [abs_def] without_def)
    ultimately show "rp_orphans st1 = rp_orphans st" "rp_inFlightOpens st1 = rp_inFlightOpens st" by simp_all
  qed
  have "same_base ?st3 (resyncAll cfg before ?touched ?st3)" by (rule core(3))
  then have "rp_entities (ingest cfg a delta p st) = rp_entities ?st2 \<and>
    rp_overlay (ingest cfg a delta p st) = rp_overlay ?st2 \<and> rp_orphans (ingest cfg a delta p st) = rp_orphans ?st2 \<and>
    rp_pins (ingest cfg a delta p st) = rp_pins ?st2 \<and>
    rp_lastPosition (ingest cfg a delta p st) = max p (rp_lastPosition ?st2)"
    unfolding eq by (auto simp: same_base_def notify_def split: if_splits)
  then show "\<exists>st1. base_ok tyof cfg st1 \<and> rp_entities st1 = rp_entities st \<and> rp_pins st1 = rp_pins st \<and>
       (\<forall>i. getOr (map_of (rp_overlay st1) i) [] = without (act_id a) (getOr (map_of (rp_overlay st) i) [])) \<and>
       rp_orphans st1 = rp_orphans st \<and> rp_inFlightOpens st1 = rp_inFlightOpens st \<and>
       rp_entities (ingest cfg a delta p st) = rp_entities (folded cfg a delta p st1) \<and>
       rp_overlay (ingest cfg a delta p st) = rp_overlay st1 \<and>
       rp_orphans (ingest cfg a delta p st) = rp_orphans (folded cfg a delta p st1) \<and>
       rp_pins (ingest cfg a delta p st) = rp_pins st \<and>
       rp_lastPosition (ingest cfg a delta p st) = max p (rp_lastPosition (folded cfg a delta p st1))"
    using l(1-3,5) f(2,3) st1 by (intro exI [of _ st1]) (simp add: touch_def)
qed

subsection \<open>Eviction\<close>

text \<open>
  Eviction also runs while a row is being installed, when the cache and the indices are behind for
  that row. The invariant with a set \<open>X\<close> of exempt ids, and the views \<open>V\<close> the indices track.
\<close>

definition pinv :: "(string \<Rightarrow> string) \<Rightarrow> ReplicaConfig \<Rightarrow> string set \<Rightarrow> (string \<Rightarrow> Entity option) \<Rightarrow> Replica \<Rightarrow> bool" where
  "pinv tyof cfg X V st \<longleftrightarrow> base_ok tyof cfg st \<and> journal_ok tyof cfg st \<and> index_for V st \<and>
     (\<forall>k e. V k = Some e \<longrightarrow> own tyof k e) \<and> (\<forall>k. k \<notin> X \<longrightarrow> eff_ok cfg st k \<and> V k = viewOf st k)"

lemma pinv_replica_ok: "replica_ok tyof cfg st \<longleftrightarrow> pinv tyof cfg {} (viewOf st) st"
  using replica_view_own by (auto simp: pinv_def replica_ok_def own_def)

definition evicted :: "string \<Rightarrow> Replica \<Rightarrow> Replica" where
  "evicted j st = (let st1 = releasePin j (cancelOpen j st) in
     st1\<lparr>rp_pendingOpens := obj_delete (rp_pendingOpens st1) j, rp_entities := obj_delete (rp_entities st1) j,
         rp_overlay := obj_delete (rp_overlay st1) j, rp_effective := obj_delete (rp_effective st1) j,
         rp_orphans := obj_delete (rp_orphans st1) j,
         rp_typeIndex := (case map_of (rp_entities st1) j of
            Some b \<Rightarrow> ti_remove (ent_type b) j (rp_typeIndex st1) | None \<Rightarrow> rp_typeIndex st1)\<rparr>)"

lemma evicted_fields:
  "rp_entities (evicted j st) = obj_delete (rp_entities st) j" "rp_overlay (evicted j st) = obj_delete (rp_overlay st) j"
  "rp_effective (evicted j st) = obj_delete (rp_effective st) j" "rp_orphans (evicted j st) = obj_delete (rp_orphans st) j"
  "map_of (rp_pins (evicted j st)) = (map_of (rp_pins st))(j := None)"
  "map_of (rp_pendingOpens (evicted j st)) = (map_of (rp_pendingOpens st))(j := None)"
  "rp_typeIndex (evicted j st) = (case map_of (rp_entities st) j of
      Some b \<Rightarrow> ti_remove (ent_type b) j (rp_typeIndex st) | None \<Rightarrow> rp_typeIndex st)"
  "rp_reverseIndex (evicted j st) = rp_reverseIndex st" "rp_forwardIndex (evicted j st) = rp_forwardIndex st"
  "rp_journal (evicted j st) = rp_journal st" "rp_journalStart (evicted j st) = rp_journalStart st"
  "rp_revision (evicted j st) = rp_revision st" "rp_changeFloor (evicted j st) = rp_changeFloor st"
  "obj_ok (rp_pins st) \<Longrightarrow> obj_ok (rp_pins (evicted j st))"
  by (auto simp: evicted_def Let_def releasePin_def cancelOpen_def pinned_def obj_delete_get js_simps fun_eq_iff
      split: option.splits)

lemma evictOne_eq:
  "evictOne cfg j st =
     (let st5 = reconcileIndex (viewOf st j) None (evicted j st) in
      case (case viewOf st j of Some p \<Rightarrow> Some p | None \<Rightarrow> map_of (rp_entities st) j) of
        None \<Rightarrow> (False, st5) | Some row \<Rightarrow> (True, bump cfg j (ent_type row) True st5))"
proof -
  have "viewOf ((releasePin j (cancelOpen j st))\<lparr>rp_pendingOpens := x\<rparr>) = viewOf st" for x
    by (rule view_same) (simp_all add: releasePin_def cancelOpen_def)
  moreover have "rp_entities (releasePin j (cancelOpen j st)) = rp_entities st"
    by (simp add: releasePin_def cancelOpen_def)
  ultimately show ?thesis
    unfolding evictOne_def evicted_def Let_def
    by (cases "map_of (rp_entities st) j"; cases "viewOf st j") (simp_all add: removeFromType_eq)
qed

lemma evicted_base_ok:
  assumes "base_ok tyof cfg st"
  shows "base_ok tyof cfg (evicted j st)"
proof -
  let ?s = "evicted j st"
  have types: "distinct (getOr (map_of (rp_typeIndex ?s) t) []) \<and>
      set (getOr (map_of (rp_typeIndex ?s) t) []) = {i. map_of (rp_entities ?s) i \<noteq> None \<and> tyof i = t}" for t
  proof (cases "map_of (rp_entities st) j")
    case None
    then show ?thesis using assms by (auto simp: base_ok_def evicted_fields obj_delete_get)
  next
    case (Some b)
    with base_ok_entity(2) [OF assms Some] assms show ?thesis
      by (auto simp: base_ok_def evicted_fields obj_delete_get ti_remove_get js_simps)
  qed
  have "\<forall>i. pinned ?s i \<longrightarrow> map_of (rp_entities ?s) i \<noteq> None \<and> \<not> holds cfg (tyof i)"
    and "\<forall>i e. map_of (rp_entities ?s) i = Some e \<longrightarrow> own tyof i e \<and> (holds cfg (tyof i) \<or> pinned ?s i)"
    using assms by (auto simp: base_ok_def evicted_fields pinned_def obj_delete_get)
  with types assms show ?thesis
    unfolding base_ok_def by (simp add: evicted_fields obj_delete_get js_simps)
qed

lemma evicted_retained:
  "k \<noteq> j \<Longrightarrow> retained cfg (evicted j st) k = retained cfg st k" if "base_ok tyof cfg st"
proof -
  assume k: "k \<noteq> j"
  have own: "ent_id n = k" if "compose (map_of (rp_entities st) k) (getOr (map_of (rp_overlay st) k) []) = Some n" for n
    using compose_own [OF _ overlay_for(1) [OF \<open>base_ok tyof cfg st\<close>] that] base_ok_entity(3) [OF \<open>base_ok tyof cfg st\<close>]
    by (auto simp: own_def)
  show ?thesis
    using k own
    by (simp add: retained_def evicted_fields obj_delete_get resident_row_def pinned_def split: option.splits)
qed

lemma pinv_bump:
  assumes "pinv tyof cfg X V s" "t = tyof i"
  shows "pinv tyof cfg X V (bump cfg i t d s)"
proof -
  have ok: "base_ok tyof cfg s" "journal_ok tyof cfg s" "index_for V s" using assms by (simp_all add: pinv_def)
  have "obj_ok (rp_effective s)" using ok(1) by (simp add: base_ok_def)
  then have "base_ok tyof cfg (bump cfg i t d s)" by (intro same_base_ok [OF bump_same _ ok(1)]) simp
  moreover have "viewOf (bump cfg i t d s) = viewOf s" by (rule view_same) simp_all
  moreover have "eff_ok cfg (bump cfg i t d s) k = eff_ok cfg s k" for k
    using same_base_retained [OF bump_same [of s]] by (simp add: eff_ok_def)
  moreover have "index_for V (bump cfg i t d s)" using ok(3) by (simp add: index_for_def)
  moreover have "journal_ok tyof cfg (bump cfg i t d s)" by (rule bump_journal_ok(1) [OF ok(2) assms(2)])
  ultimately show ?thesis using assms by (simp add: pinv_def)
qed

lemma evictOne_inv:
  assumes inv: "pinv tyof cfg X V st" and j: "j \<notin> X" and e: "evictOne cfg j st = (rem, st')"
  shows "pinv tyof cfg X (V(j := None)) st'" "journal_step tyof cfg st st'"
    "V j \<noteq> None \<Longrightarrow> r \<le> rp_revision st \<Longrightarrow> logged r j st'"
    "viewOf st' j = None" "k \<noteq> j \<Longrightarrow> viewOf st' k = viewOf st k"
    "rp_entities st' = obj_delete (rp_entities st) j" "map_of (rp_pins st') = (map_of (rp_pins st))(j := None)"
    "k \<noteq> j \<Longrightarrow> map_of (rp_overlay st') k = map_of (rp_overlay st) k"
proof -
  have ok: "base_ok tyof cfg st" "journal_ok tyof cfg st" "index_for V st" and Vj: "V j = viewOf st j"
    and rows: "\<And>k e. V k = Some e \<Longrightarrow> own tyof k e"
    using inv j by (auto simp: pinv_def)
  let ?s = "reconcileIndex (viewOf st j) None (evicted j st)"
  have sb: "same_base (evicted j st) ?s" "rp_effective ?s = obj_delete (rp_effective st) j"
    by (simp_all add: same_base_def reconcileIndex_def evicted_fields)
  have bs: "base_ok tyof cfg ?s"
    using same_base_ok [OF sb(1) _ evicted_base_ok [OF ok(1)]] ok(1) sb(2) by (simp add: base_ok_def js_simps)
  have js: "journal_step tyof cfg st ?s"
    by (rule journal_same(1) [OF _ _ _ _ ok(2)]; simp add: reconcileIndex_def evicted_fields)
  have idx: "index_for (V(j := None)) ?s"
    using ok(3) rows reverse.tracks_write [of V "rp_reverseIndex st" j None] forward.tracks_write [of V "rp_forwardIndex st" j None]
    by (simp add: index_for_def reconcileIndex_def evicted_fields reverseIndexDelta_def forwardIndexDelta_def Vj own_def)
  have ret: "retained cfg ?s k = retained cfg st k" if "k \<noteq> j" for k
    using same_base_retained [OF sb(1)] evicted_retained [OF ok(1) that] by simp
  have view: "viewOf ?s k = (if k = j then None else viewOf st k)" for k
    by (simp add: viewOf_def reconcileIndex_def evicted_fields obj_delete_get split: option.splits)
  have eff: "eff_ok cfg ?s k" if "k \<notin> X" for k
  proof (cases "k = j")
    case False
    have "eff_ok cfg st k" using inv that by (simp add: pinv_def)
    with False ret [OF False] show ?thesis
      by (simp add: eff_ok_def reconcileIndex_def evicted_fields obj_delete_get)
  qed (simp add: eff_ok_def reconcileIndex_def evicted_fields obj_delete_get)
  have ps: "pinv tyof cfg X (V(j := None)) ?s"
    using bs js idx eff rows view inv by (auto simp: pinv_def journal_step_def)
  let ?old = "case viewOf st j of Some p \<Rightarrow> Some p | None \<Rightarrow> map_of (rp_entities st) j"
  have shape: "st' = (case ?old of None \<Rightarrow> ?s | Some row \<Rightarrow> bump cfg j (ent_type row) True ?s)"
    using e unfolding evictOne_eq Let_def by (cases ?old) simp_all
  have type_j: "ent_type row = tyof j" if "?old = Some row" for row
  proof (cases "viewOf st j")
    case None
    with that base_ok_entity(2) [OF ok(1)] show ?thesis by simp
  next
    case (Some p)
    with that rows [of j p] Vj show ?thesis by (simp add: own_def)
  qed
  consider (quiet) "st' = ?s" "viewOf st j = None" | (bumped) t where "st' = bump cfg j t True ?s" "t = tyof j"
  proof (cases ?old)
    case None
    then have "viewOf st j = None" by (cases "viewOf st j") simp_all
    then show thesis using quiet shape None by simp
  next
    case (Some row)
    show thesis by (rule bumped [OF _ type_j [OF Some]]) (simp add: shape Some)
  qed
  then have "pinv tyof cfg X (V(j := None)) st' \<and> journal_step tyof cfg st st' \<and>
      (V j \<noteq> None \<longrightarrow> r \<le> rp_revision st \<longrightarrow> logged r j st') \<and> viewOf st' = viewOf ?s \<and> rp_entities st' = rp_entities ?s \<and>
      rp_pins st' = rp_pins ?s \<and> rp_overlay st' = rp_overlay ?s"
  proof cases
    case quiet
    with ps js Vj show ?thesis by simp
  next
    case bumped
    have jo: "journal_ok tyof cfg ?s" using js by (simp add: journal_step_def)
    have "rp_revision ?s = rp_revision st" by (simp add: reconcileIndex_def evicted_fields)
    then have lg: "r \<le> rp_revision st \<longrightarrow> logged r j st'"
      using bump_journal_ok(3) [OF jo bumped(2)] bumped(1) by auto
    have vb: "viewOf st' = viewOf ?s" by (rule view_same) (simp_all add: bumped(1))
    have "pinv tyof cfg X (V(j := None)) st'" unfolding bumped(1) by (rule pinv_bump [OF ps bumped(2)])
    with lg vb journal_step_trans [OF js bump_step [OF jo bumped(2)]] bumped(1) show ?thesis by simp
  qed
  then show "pinv tyof cfg X (V(j := None)) st'" "journal_step tyof cfg st st'"
    "V j \<noteq> None \<Longrightarrow> r \<le> rp_revision st \<Longrightarrow> logged r j st'"
    "viewOf st' j = None" "k \<noteq> j \<Longrightarrow> viewOf st' k = viewOf st k"
    "rp_entities st' = obj_delete (rp_entities st) j" "map_of (rp_pins st') = (map_of (rp_pins st))(j := None)"
    "k \<noteq> j \<Longrightarrow> map_of (rp_overlay st') k = map_of (rp_overlay st) k"
    using view by (simp_all add: reconcileIndex_def evicted_fields obj_delete_get)
qed

lemma evictLoop_inv:
  assumes "pinv tyof cfg X V st" "set ids \<inter> X = {}" "evictLoop cfg ids seen rem st = (rem', st')"
  shows "pinv tyof cfg X (\<lambda>k. if k \<in> set ids - set seen then None else V k) st' \<and> journal_step tyof cfg st st' \<and>
    (\<forall>k \<in> set ids - set seen. V k \<noteq> None \<longrightarrow> (\<forall>r \<le> rp_revision st. logged r k st')) \<and>
    (\<forall>k. viewOf st' k = (if k \<in> set ids - set seen then None else viewOf st k)) \<and>
    (\<forall>k. map_of (rp_entities st') k = (if k \<in> set ids - set seen then None else map_of (rp_entities st) k)) \<and>
    (\<forall>k. map_of (rp_pins st') k = (if k \<in> set ids - set seen then None else map_of (rp_pins st) k)) \<and>
    (\<forall>k. k \<notin> set ids - set seen \<longrightarrow> map_of (rp_overlay st') k = map_of (rp_overlay st) k)"
  using assms
proof (induction ids arbitrary: seen rem st V)
  case Nil
  then show ?case by (auto simp: pinv_def journal_step_refl)
next
  case (Cons j ids)
  show ?case
  proof (cases "j \<in> set seen")
    case True
    then have D: "set (j # ids) - set seen = set ids - set seen" by auto
    from True Cons.prems have "evictLoop cfg ids seen rem st = (rem', st')" "set ids \<inter> X = {}" by auto
    from Cons.IH [OF Cons.prems(1) this(2,1)] show ?thesis unfolding D .
  next
    case False
    obtain r1 st1 where one: "evictOne cfg j st = (r1, st1)" by fastforce
    have j: "j \<notin> X" and X: "set ids \<inter> X = {}" using Cons.prems(2) by auto
    note e = evictOne_inv [OF Cons.prems(1) j one]
    have loop: "evictLoop cfg ids (set_add seen j) (rem \<or> r1) st1 = (rem', st')"
      using Cons.prems(3) False one by simp
    note ih = Cons.IH [OF e(1) X loop]
    let ?D = "set (j # ids) - set seen" and ?E = "set ids - set (set_add seen j)"
    have D: "k \<in> ?D \<longleftrightarrow> k = j \<or> k \<in> ?E" "j \<notin> ?E" for k using False by (auto simp: js_simps)
    have V: "(\<lambda>k. if k \<in> ?E then None else (V(j := None)) k) = (\<lambda>k. if k \<in> ?D then None else V k)"
      using D by (auto simp: fun_eq_iff)
    have "logged r k st'" if "k \<in> ?D" "V k \<noteq> None" "r \<le> rp_revision st" for k r
    proof (cases "k = j")
      case True
      then have "logged r k st1" using e(3) that by simp
      then show ?thesis using ih by (simp add: journal_step_def)
    next
      case False
      have r: "r \<le> rp_revision st1" using that(3) e(2) by (simp add: journal_step_def)
      have "k \<in> ?E" using that(1) False D by blast
      moreover have "(V(j := None)) k \<noteq> None" using that(2) False by simp
      ultimately show ?thesis using ih r by blast
    qed
    moreover have "journal_step tyof cfg st st'" using e(2) ih by (blast intro: journal_step_trans)
    moreover have "viewOf st' k = (if k \<in> ?D then None else viewOf st k)" for k
      using ih e(4) e(5) [of k] D by (cases "k = j") auto
    moreover have "map_of (rp_entities st') k = (if k \<in> ?D then None else map_of (rp_entities st) k)" for k
      using ih e(6) D by (auto simp: obj_delete_get)
    moreover have "map_of (rp_pins st') k = (if k \<in> ?D then None else map_of (rp_pins st) k)" for k
      using ih e(7) D by auto
    moreover have "map_of (rp_overlay st') k = map_of (rp_overlay st) k" if "k \<notin> ?D" for k
      using ih e(8) [of k] D that by auto
    ultimately show ?thesis using ih unfolding V by blast
  qed
qed

lemma pinv_notify [simp]: "pinv tyof cfg X V (notify st) = pinv tyof cfg X V st"
  by (simp add: pinv_def)

lemma journal_step_notify [simp]: "journal_step tyof cfg st (notify st') = journal_step tyof cfg st st'"
  by (simp add: journal_step_def)

lemma evict_pinv:
  assumes "pinv tyof cfg X V st" "set ids \<inter> X = {}"
  shows "pinv tyof cfg X (\<lambda>k. if k \<in> set ids then None else V k) (evict cfg ids st)" "journal_step tyof cfg st (evict cfg ids st)"
    "k \<in> set ids \<Longrightarrow> V k \<noteq> None \<Longrightarrow> r \<le> rp_revision st \<Longrightarrow> logged r k (evict cfg ids st)"
    "viewOf (evict cfg ids st) k = (if k \<in> set ids then None else viewOf st k)"
    "map_of (rp_entities (evict cfg ids st)) k = (if k \<in> set ids then None else map_of (rp_entities st) k)"
    "map_of (rp_pins (evict cfg ids st)) k = (if k \<in> set ids then None else map_of (rp_pins st) k)"
    "k \<notin> set ids \<Longrightarrow> map_of (rp_overlay (evict cfg ids st)) k = map_of (rp_overlay st) k"
proof -
  obtain rem st' where loop: "evictLoop cfg ids [] False st = (rem, st')" by fastforce
  have "evict cfg ids st = (if rem then notify st' else st')" by (simp add: evict_def loop)
  with evictLoop_inv [OF assms loop]
  show "pinv tyof cfg X (\<lambda>k. if k \<in> set ids then None else V k) (evict cfg ids st)" "journal_step tyof cfg st (evict cfg ids st)"
    "k \<in> set ids \<Longrightarrow> V k \<noteq> None \<Longrightarrow> r \<le> rp_revision st \<Longrightarrow> logged r k (evict cfg ids st)"
    "viewOf (evict cfg ids st) k = (if k \<in> set ids then None else viewOf st k)"
    "map_of (rp_entities (evict cfg ids st)) k = (if k \<in> set ids then None else map_of (rp_entities st) k)"
    "map_of (rp_pins (evict cfg ids st)) k = (if k \<in> set ids then None else map_of (rp_pins st) k)"
    "k \<notin> set ids \<Longrightarrow> map_of (rp_overlay (evict cfg ids st)) k = map_of (rp_overlay st) k"
    by auto
qed

lemma evict_inv:
  assumes "replica_ok tyof cfg st"
  shows "step_ok tyof cfg st (evict cfg ids st)"
proof -
  have p: "pinv tyof cfg {} (viewOf st) st" using assms by (simp add: pinv_replica_ok)
  note e = evict_pinv [OF p, of ids, simplified]
  have "(\<lambda>k. if k \<in> set ids then None else viewOf st k) = viewOf (evict cfg ids st)" using e(4) by auto
  then have "replica_ok tyof cfg (evict cfg ids st)" using e(1) by (simp add: pinv_replica_ok)
  moreover have "logged (rp_revision st) k (evict cfg ids st)"
    if "viewOf (evict cfg ids st) k \<noteq> viewOf st k" for k
    using that e(3) [of k "rp_revision st"] e(4) [of k] by (cases "viewOf st k") (auto split: if_splits)
  ultimately show ?thesis using e(2) by (simp add: step_ok_def journal_step_def)
qed

subsection \<open>Pins\<close>

lemma doomedPins_take:
  "doomedPins (Some c) n ks acc = acc @ take (n - c - length acc) ks"
proof (induction ks arbitrary: acc)
  case Nil
  then show ?case by simp
next
  case (Cons k ks)
  show ?case
  proof (cases "n - length acc \<le> c")
    case False
    then have "n - c - length acc = Suc (n - c - length (acc @ [k]))" by simp
    with False Cons [of "acc @ [k]"] show ?thesis by simp
  qed simp
qed

lemma doomedPins_None: "doomedPins None n ks acc = acc"
  by (cases ks) simp_all

definition repinned :: "string \<Rightarrow> Pin obj \<Rightarrow> Pin obj" where
  "repinned i pins = obj_set (obj_delete pins i) i \<lparr>pin_open = True, pin_timer = False\<rparr>"

definition doomed :: "ReplicaConfig \<Rightarrow> string \<Rightarrow> Pin obj \<Rightarrow> string list" where
  "doomed cfg i pins = doomedPins (pinnedCapacity cfg) (length (repinned i pins)) (obj_keys (repinned i pins)) []"

lemma repinned_snoc: "repinned i pins = obj_delete pins i @ [(i, \<lparr>pin_open = True, pin_timer = False\<rparr>)]"
  unfolding repinned_def by (rule obj_set_absent) (simp add: obj_delete_get)

lemma repinned_get: "map_of (repinned i pins) = (map_of pins)(i \<mapsto> \<lparr>pin_open = True, pin_timer = False\<rparr>)"
  by (auto simp: repinned_def obj_set_get obj_delete_get)

lemma repinned_ok: "obj_ok pins \<Longrightarrow> obj_ok (repinned i pins)"
  by (simp add: repinned_def js_simps)

definition config_ok :: "ReplicaConfig \<Rightarrow> bool" where
  "config_ok cfg \<longleftrightarrow> (\<forall>c. pinnedCapacity cfg = Some c \<longrightarrow> 1 \<le> c) \<and> (\<forall>c. journalCapacity cfg = Some c \<longrightarrow> 1 \<le> c)"

lemma createConfig_ok: "config_ok (createConfig policy journal pinned' ttl eq)"
  by (auto simp: config_ok_def createConfig_def capacityOf_def DEFAULT_JOURNAL_CAPACITY_def
      DEFAULT_PINNED_CAPACITY_def split: option.splits js_number.splits if_splits)

lemma doomed_spec:
  assumes "config_ok cfg" "obj_ok pins"
  shows "i \<notin> set (doomed cfg i pins)" "set (doomed cfg i pins) \<subseteq> dom (map_of pins)"
    "pinnedCapacity cfg = Some c \<Longrightarrow> card (dom (map_of (repinned i pins)) - set (doomed cfg i pins)) \<le> c"
proof -
  let ?ks = "obj_keys (obj_delete pins i)"
  have ks: "obj_keys (repinned i pins) = ?ks @ [i]" "length (repinned i pins) = Suc (length ?ks)"
    by (simp_all add: repinned_snoc)
  have i: "i \<notin> set ?ks" and d: "distinct ?ks" and sub: "set ?ks \<subseteq> dom (map_of pins)"
    using assms(2) by (simp_all add: delete_keys obj_ok_def distinct_removeAll dom_map_of_conv_image_fst)
  have dm: "doomed cfg i pins = (case pinnedCapacity cfg of None \<Rightarrow> [] | Some c \<Rightarrow> take (Suc (length ?ks) - c) ?ks)"
    using assms(1) unfolding doomed_def ks
    by (auto simp: doomedPins_None doomedPins_take config_ok_def simp del: length_map split: option.splits)
  have "set (doomed cfg i pins) \<subseteq> set ?ks"
    unfolding dm by (auto split: option.splits dest: in_set_takeD)
  then show "i \<notin> set (doomed cfg i pins)" "set (doomed cfg i pins) \<subseteq> dom (map_of pins)"
    using i sub by auto
  assume c: "pinnedCapacity cfg = Some c"
  have "dom (map_of (repinned i pins)) = set (?ks @ [i])"
    unfolding ks(1) [symmetric] by (simp add: dom_map_of_conv_image_fst)
  then have "card (dom (map_of (repinned i pins)) - set (doomed cfg i pins)) =
      card (set (?ks @ [i])) - card (set (doomed cfg i pins))"
    using \<open>set (doomed cfg i pins) \<subseteq> set ?ks\<close> by (simp only:) (intro card_Diff_subset; auto)
  also have "card (set (?ks @ [i])) = Suc (length ?ks)"
    using i d by (subst distinct_card) auto
  also have "card (set (doomed cfg i pins)) = min (length ?ks) (Suc (length ?ks) - c)"
    unfolding dm c using d by (simp add: distinct_card del: length_map)
  finally show "card (dom (map_of (repinned i pins)) - set (doomed cfg i pins)) \<le> c"
    using assms(1) c by (auto simp: config_ok_def)
qed

lemma openPin_eq:
  "openPin cfg i st = (let st2 = st\<lparr>rp_pins := repinned i (rp_pins st)\<rparr> in
     if doomed cfg i (rp_pins st) = [] then st2 else evict cfg (doomed cfg i (rp_pins st)) st2)"
proof -
  have "releasePin i st = st\<lparr>rp_pins := obj_delete (rp_pins st) i\<rparr>"
    by (auto simp: releasePin_def pinned_def obj_delete_absent)
  then show ?thesis
    by (simp add: openPin_def Let_def repinned_def doomed_def)
qed

definition pins_ok :: "ReplicaConfig \<Rightarrow> Replica \<Rightarrow> bool" where
  "pins_ok cfg st \<longleftrightarrow> (\<forall>c. pinnedCapacity cfg = Some c \<longrightarrow> card (dom (map_of (rp_pins st))) \<le> c)"

lemma pins_ok_subset:
  "pins_ok cfg st \<Longrightarrow> dom (map_of (rp_pins st')) \<subseteq> dom (map_of (rp_pins st)) \<Longrightarrow> pins_ok cfg st'"
  unfolding pins_ok_def using card_mono finite_dom_map_of by (metis order_trans)

text \<open>Opening a pin on a replica where the row is in place: the oldest pins past the window go.\<close>

lemma openPin_pinv:
  assumes c: "config_ok cfg" and st: "obj_ok (rp_pins st)"
    and pv: "pinv tyof cfg X V (st\<lparr>rp_pins := repinned i (rp_pins st)\<rparr>)"
    and X: "X \<inter> set (doomed cfg i (rp_pins st)) = {}"
  shows "pinv tyof cfg X (\<lambda>k. if k \<in> set (doomed cfg i (rp_pins st)) then None else V k) (openPin cfg i st)"
    "journal_step tyof cfg st (openPin cfg i st)" "pins_ok cfg (openPin cfg i st)"
    "k \<in> set (doomed cfg i (rp_pins st)) \<Longrightarrow> V k \<noteq> None \<Longrightarrow> r \<le> rp_revision st \<Longrightarrow> logged r k (openPin cfg i st)"
    "viewOf (openPin cfg i st) k = (if k \<in> set (doomed cfg i (rp_pins st)) then None else viewOf st k)"
    "map_of (rp_entities (openPin cfg i st)) i = map_of (rp_entities st) i"
    "map_of (rp_overlay (openPin cfg i st)) i = map_of (rp_overlay st) i"
    "pinned (openPin cfg i st) i"
proof -
  let ?D = "doomed cfg i (rp_pins st)" and ?st2 = "st\<lparr>rp_pins := repinned i (rp_pins st)\<rparr>"
  have jo: "journal_ok tyof cfg st" using pv by (simp add: pinv_def journal_ok_def changes_def)
  have js: "journal_step tyof cfg st ?st2" by (rule journal_same(1) [OF _ _ _ _ jo]) simp_all
  have v2: "viewOf ?st2 = viewOf st" by (rule view_same) simp_all
  have di: "i \<notin> set ?D" by (rule doomed_spec(1) [OF c st])
  have pin: "pins_ok cfg s" if "map_of (rp_pins s) = (\<lambda>k. if k \<in> set ?D then None else map_of (repinned i (rp_pins st)) k)" for s
  proof -
    have "dom (map_of (rp_pins s)) = dom (map_of (repinned i (rp_pins st))) - set ?D"
      unfolding that by (auto split: if_splits)
    with doomed_spec(3) [OF c st] show ?thesis by (simp add: pins_ok_def)
  qed
  have "pinv tyof cfg X (\<lambda>k. if k \<in> set ?D then None else V k) (openPin cfg i st) \<and>
    journal_step tyof cfg st (openPin cfg i st) \<and> pins_ok cfg (openPin cfg i st) \<and>
    (k \<in> set ?D \<longrightarrow> V k \<noteq> None \<longrightarrow> r \<le> rp_revision st \<longrightarrow> logged r k (openPin cfg i st)) \<and>
    viewOf (openPin cfg i st) k = (if k \<in> set ?D then None else viewOf st k) \<and>
    map_of (rp_entities (openPin cfg i st)) i = map_of (rp_entities st) i \<and>
    map_of (rp_overlay (openPin cfg i st)) i = map_of (rp_overlay st) i \<and> pinned (openPin cfg i st) i"
  proof (cases "?D = []")
    case True
    then have "openPin cfg i st = ?st2" by (simp add: openPin_eq)
    moreover have "pins_ok cfg ?st2" by (rule pin) (simp add: True)
    ultimately show ?thesis using True pv js v2 by (simp add: pinned_def repinned_get)
  next
    case False
    then have eq: "openPin cfg i st = evict cfg ?D ?st2" by (simp add: openPin_eq Let_def)
    have X': "set ?D \<inter> X = {}" using X by blast
    note e = evict_pinv [OF pv X']
    have "pins_ok cfg (evict cfg ?D ?st2)" by (rule pin) (use e(6) in \<open>auto simp: fun_eq_iff\<close>)
    moreover have "journal_step tyof cfg st (evict cfg ?D ?st2)" using journal_step_trans [OF js e(2)] .
    moreover have "pinned (evict cfg ?D ?st2) i" using e(6) [of i] di by (simp add: pinned_def repinned_get)
    ultimately show ?thesis
      unfolding eq using e(1) e(3) [of k r] e(4) [of k] e(5) [of i] e(7) [of i] di v2 by simp
  qed
  then show "pinv tyof cfg X (\<lambda>k. if k \<in> set (doomed cfg i (rp_pins st)) then None else V k) (openPin cfg i st)"
    "journal_step tyof cfg st (openPin cfg i st)" "pins_ok cfg (openPin cfg i st)"
    "k \<in> set (doomed cfg i (rp_pins st)) \<Longrightarrow> V k \<noteq> None \<Longrightarrow> r \<le> rp_revision st \<Longrightarrow> logged r k (openPin cfg i st)"
    "viewOf (openPin cfg i st) k = (if k \<in> set (doomed cfg i (rp_pins st)) then None else viewOf st k)"
    "map_of (rp_entities (openPin cfg i st)) i = map_of (rp_entities st) i"
    "map_of (rp_overlay (openPin cfg i st)) i = map_of (rp_overlay st) i"
    "pinned (openPin cfg i st) i"
    by simp_all
qed

text \<open>Pins that stay on the same rows do not change what is retained.\<close>

lemma repin_pinv:
  assumes "pinv tyof cfg X V st" "\<And>k. map_of P k = None \<longleftrightarrow> map_of (rp_pins st) k = None" "obj_ok P"
  shows "pinv tyof cfg X V (st\<lparr>rp_pins := P\<rparr>)"
proof -
  let ?s = "st\<lparr>rp_pins := P\<rparr>"
  have pin: "pinned ?s = pinned st" using assms(2) by (auto simp: pinned_def fun_eq_iff)
  have "base_ok tyof cfg ?s"
    using assms(1,3) unfolding pinv_def base_ok_def pin by simp
  moreover have "retained cfg ?s k = retained cfg st k" for k
    by (simp add: retained_def resident_row_def pin split: option.splits)
  moreover have "viewOf ?s = viewOf st" by (rule view_same) simp_all
  moreover have "journal_ok tyof cfg ?s = journal_ok tyof cfg st" by (simp add: journal_ok_def changes_def)
  ultimately show ?thesis using assms(1) by (simp add: pinv_def index_for_def eff_ok_def)
qed

lemma visible_foreign_pinned:
  assumes "replica_ok tyof cfg st" "viewOf st i = Some row" "\<not> holds cfg (ent_type row)"
  shows "pinned st i" "\<not> holds cfg (tyof i)"
proof -
  have ok: "base_ok tyof cfg st" and r: "retained cfg st i = Some row"
    using assms(1,2) replica_view by (auto simp: replica_ok_def)
  show "\<not> holds cfg (tyof i)" using retained_own(1) [OF ok r] assms(3) by (simp add: own_def)
  then show "pinned st i" using retained_own(2) [OF ok r] by simp
qed

lemma open_inv:
  assumes c: "config_ok cfg" and ok: "replica_ok tyof cfg st" and p: "pins_ok cfg st"
  shows "step_ok tyof cfg st (fst (open' cfg b i st)) \<and> pins_ok cfg (fst (open' cfg b i st))"
proof -
  have keep: "step_ok tyof cfg st s \<and> pins_ok cfg s"
    if "same_frame st s" "rp_entities s = rp_entities st" "rp_typeIndex s = rp_typeIndex st" "rp_orphans s = rp_orphans st"
      "rp_pendingOpens s = rp_pendingOpens st" for s
  proof -
    have "viewOf s = viewOf st" by (rule view_same) (use that in \<open>simp_all add: same_frame_def\<close>)
    moreover have "pinned s = pinned st" using that by (simp add: pinned_def same_frame_def fun_eq_iff)
    moreover have "retained cfg s k = retained cfg st k" for k
      using that by (simp add: retained_def resident_row_def same_frame_def pinned_def split: option.splits)
    ultimately show ?thesis
      using ok p that
      by (simp add: step_ok_def replica_ok_def base_ok_def journal_ok_def logged_def changes_def eff_ok_def index_for_def
          same_frame_def pins_ok_def)
  qed
  show ?thesis
  proof (cases "\<exists>row. replica_get st i = Some row \<and> \<not> holds cfg (ent_type row)")
    case False
    then show ?thesis
      by (intro keep) (auto simp: open'_def same_frame_def Let_def split: option.splits)
  next
    case True
    then obtain row where row: "replica_get st i = Some row" "\<not> holds cfg (ent_type row)" by blast
    have view: "viewOf st i = Some row" using row(1) by (simp add: replica_get_def viewOf_def)
    note vis = visible_foreign_pinned [OF ok view row(2)]
    have pv: "pinv tyof cfg {} (viewOf st) st" using ok by (simp add: pinv_replica_ok)
    have op: "obj_ok (rp_pins st)" using ok by (simp add: replica_ok_def base_ok_def)
    have pv2: "pinv tyof cfg {} (viewOf st) (st\<lparr>rp_pins := repinned i (rp_pins st)\<rparr>)"
      using vis(1) op by (intro repin_pinv [OF pv]) (auto simp: repinned_get repinned_ok pinned_def)
    note o = openPin_pinv [OF c op pv2, simplified]
    have "(\<lambda>k. if k \<in> set (doomed cfg i (rp_pins st)) then None else viewOf st k) = viewOf (openPin cfg i st)"
      using o(5) by auto
    then have "replica_ok tyof cfg (openPin cfg i st)" using o(1) by (simp add: pinv_replica_ok)
    moreover have "logged (rp_revision st) k (openPin cfg i st)" if "viewOf (openPin cfg i st) k \<noteq> viewOf st k" for k
      using that o(4) [of k "rp_revision st"] o(5) [of k] by (cases "viewOf st k") (auto split: if_splits)
    ultimately have "step_ok tyof cfg st (openPin cfg i st)"
      using o(2) by (simp add: step_ok_def journal_step_def)
    moreover have "fst (open' cfg b i st) = openPin cfg i st" using row by (simp add: open'_def)
    ultimately show ?thesis using o(3) by simp
  qed
qed

lemma install_inv:
  assumes c: "config_ok cfg" and ok: "replica_ok tyof cfg st" and row: "own tyof i row" "\<not> holds cfg (tyof i)"
    and buf: "\<forall>e \<in> set buffered. upd_for tyof i (or_update e)"
  shows "step_ok tyof cfg st (install cfg i row buffered st) \<and> pins_ok cfg (install cfg i row buffered st)"
proof -
  let ?st1 = "addToType (ent_type row) i (st\<lparr>rp_entities := obj_set (rp_entities st) i row\<rparr>)"
  have st1: "?st1 = st\<lparr>rp_entities := obj_set (rp_entities st) i row, rp_typeIndex := ti_add (tyof i) i (rp_typeIndex st)\<rparr>"
    using row(1) by (simp add: addToType_eq own_def)
  let ?s = "?st1\<lparr>rp_pins := repinned i (rp_pins ?st1)\<rparr>"
  have base: "base_ok tyof cfg st" and op: "obj_ok (rp_pins ?st1)" using ok by (simp_all add: replica_ok_def base_ok_def st1)
  have b2: "base_ok tyof cfg ?s"
    using base row unfolding base_ok_def pinned_def st1
    by (auto simp: obj_set_get ti_add_get js_simps repinned_get repinned_ok)
  have ret: "retained cfg ?s k = retained cfg st k" if "k \<noteq> i" for k
  proof -
    have "ent_id n = k" if "compose (map_of (rp_entities st) k) (getOr (map_of (rp_overlay st) k) []) = Some n" for n
      using compose_own [OF _ overlay_for(1) [OF base] that] base_ok_entity(3) [OF base] by (auto simp: own_def)
    with that show ?thesis
      by (simp add: retained_def st1 obj_set_get resident_row_def pinned_def repinned_get split: option.splits)
  qed
  have pv: "pinv tyof cfg {i} (viewOf st) ?s"
    using ok b2 ret replica_view_own [OF ok]
    by (auto simp: pinv_def replica_ok_def journal_ok_def changes_def index_for_def eff_ok_def st1 own_def
        viewOf_def obj_set_get)
  have D: "{i} \<inter> set (doomed cfg i (rp_pins ?st1)) = {}" using doomed_spec(1) [OF c op] by simp
  note o = openPin_pinv [OF c op pv D]
  let ?st2 = "openPin cfg i ?st1"
  let ?st3 = "fold (\<lambda>e. foldBase cfg (or_update e) (or_gsn e) (or_hlc e) (or_position e)) buffered ?st2"
  let ?D = "set (doomed cfg i (rp_pins ?st1))"
  define V where "V = (\<lambda>k. if k \<in> ?D then None else viewOf st k)"
  note o = o [folded V_def]
  have ok2: "base_ok tyof cfg ?st2" "journal_ok tyof cfg ?st2" "index_for V ?st2"
    using o(1) by (simp_all add: pinv_def)
  have bufs: "\<forall>e \<in> set buffered. upd_for tyof (subject_id (or_update e)) (or_update e)"
    using buf by (auto simp: upd_for_def)
  note f = foldBase_list [OF ok2(1) bufs]
  have t: "touch {i} ?st2 ?st3"
    using f buf by (intro same_frame_touch) (auto simp: upd_for_def)
  have ok3: "base_ok tyof cfg ?st3" "journal_ok tyof cfg ?st3" "index_for V ?st3"
    using f ok2 by (simp_all add: same_frame_def journal_ok_def changes_def index_for_def)
  have Vi: "V i = viewOf st i" using D by (simp add: V_def)
  have own: "own tyof i e" if "V i = Some e" for e
    using that Vi replica_view_own [OF ok] by (auto simp: own_def)
  note r = resync_inv [OF ok3, of i, OF own]
  let ?st4 = "resync cfg i (V i) ?st3"
  have eq: "install cfg i row buffered st = notify ?st4"
    unfolding Vi by (simp add: install_def Let_def)
  have ret3: "retained cfg ?st4 k = retained cfg ?st2 k" if "k \<noteq> i" for k
    using same_base_retained [OF r(2)] touch_retained [OF t] that by auto
  have eff: "eff_ok cfg ?st4 k" for k
  proof (cases "k = i")
    case False
    have "eff_ok cfg ?st2 k" using o(1) False by (simp add: pinv_def)
    moreover have "map_of (rp_overlay ?st4) k = map_of (rp_overlay ?st2) k"
      using r(2) t False by (simp add: same_base_def touch_def)
    moreover have "map_of (rp_effective ?st4) k = map_of (rp_effective ?st2) k"
      using r(6) [where k = k] False t by (simp add: touch_def)
    ultimately show ?thesis using ret3 [OF False] by (simp add: eff_ok_def)
  qed (use r(5) in simp)
  have view: "viewOf ?st4 k = (if k = i then retained cfg ?st3 i else V k)" for k
  proof (cases "k = i")
    case True
    then show ?thesis using view_retained [OF r(1) eff] same_base_retained [OF r(2)] by simp
  next
    case False
    have "viewOf ?st4 k = retained cfg ?st2 k" using view_retained [OF r(1) eff] ret3 [OF False] by simp
    also have "\<dots> = viewOf ?st2 k" using view_retained [OF ok2(1)] o(1) False by (simp add: pinv_def)
    also have "\<dots> = V k" using o(1) False by (simp add: pinv_def)
    finally show ?thesis using False by simp
  qed
  have "V(i := retained cfg ?st3 i) = viewOf ?st4" using view by (auto simp: fun_eq_iff)
  then have rok: "replica_ok tyof cfg ?st4"
    using r(1,3,4) eff by (simp add: replica_ok_def journal_step_def)
  have rev1: "rp_revision ?st1 = rp_revision st" "rp_changeFloor ?st1 = rp_changeFloor st" by (simp_all add: st1)
  have j23: "journal_step tyof cfg ?st2 ?st3" using f ok2(2) by (intro journal_same(1)) (simp_all add: same_frame_def)
  have js: "journal_step tyof cfg ?st1 ?st4"
    using journal_step_trans [OF o(2) journal_step_trans [OF j23 r(3)]] .
  have lg: "logged (rp_revision st) k ?st4"
    if "viewOf ?st4 k \<noteq> viewOf st k" "contentChanged (refEq cfg) (viewOf st k) (viewOf ?st4 k)" for k
  proof (cases "k = i")
    case True
    have "rp_revision st \<le> rp_revision ?st3"
      using o(2) j23 rev1 by (simp add: journal_step_def)
    with True that(2) view Vi r(7) [where r = "rp_revision st"] show ?thesis by simp
  next
    case False
    with that(1) view [of k] have "V k \<noteq> viewOf st k" by simp
    then have "k \<in> ?D" "viewOf st k \<noteq> None" unfolding V_def by (metis (full_types))+
    then have "logged (rp_revision st) k ?st2" using o(4) [of k "rp_revision st"] rev1 by simp
    then show ?thesis using journal_step_trans [OF j23 r(3)] by (simp add: journal_step_def)
  qed
  have "pins_ok cfg ?st4"
    using o(3) f r(2) by (simp add: pins_ok_def same_frame_def same_base_def)
  moreover have "logged r k ?st1 = logged r k st" for r k by (simp add: logged_def changes_def st1)
  ultimately show ?thesis using rok js rev1 lg
    unfolding eq by (simp add: step_ok_def replica_ok_def journal_step_def pins_ok_def)
qed

text \<open>Steps that only change pins, epochs and buffers of reads.\<close>

lemma quiet_inv:
  assumes ok: "replica_ok tyof cfg st" and s: "same_frame (st\<lparr>rp_pins := rp_pins s\<rparr>) s" "rp_entities s = rp_entities st"
    "rp_typeIndex s = rp_typeIndex st" "rp_orphans s = rp_orphans st"
    and pins: "\<And>k. map_of (rp_pins s) k = None \<longleftrightarrow> map_of (rp_pins st) k = None" "obj_ok (rp_pins s)"
    and pend: "\<And>k os. map_of (rp_pendingOpens s) k = Some os \<Longrightarrow> map_of (rp_pendingOpens st) k = Some os"
  shows "step_ok tyof cfg st s" "viewOf s = viewOf st"
proof -
  show v: "viewOf s = viewOf st" by (rule view_same) (use s in \<open>simp_all add: same_frame_def\<close>)
  have pin: "pinned s = pinned st" using pins(1) by (auto simp: pinned_def fun_eq_iff)
  have b: "base_ok tyof cfg st" using ok by (simp add: replica_ok_def)
  have "\<forall>i os. map_of (rp_pendingOpens s) i = Some os \<longrightarrow> (\<forall>o' \<in> set os. upd_for tyof i (or_update o'))"
    using b pend by (fastforce simp: base_ok_def)
  then have "base_ok tyof cfg s" using b s pins(2) unfolding base_ok_def pin by (simp add: same_frame_def)
  moreover have "retained cfg s k = retained cfg st k" for k
    using s by (simp add: retained_def resident_row_def same_frame_def pin split: option.splits)
  ultimately show "step_ok tyof cfg st s"
    using ok s v by (simp add: step_ok_def replica_ok_def journal_ok_def logged_def changes_def eff_ok_def index_for_def same_frame_def)
qed

lemma step_ok_trans_quiet:
  assumes "step_ok tyof cfg st s" "viewOf s = viewOf st" "rp_revision s = rp_revision st" "step_ok tyof cfg s s'"
  shows "step_ok tyof cfg st s'"
  using assms by (auto simp: step_ok_def)

lemma pins_ok_evict:
  assumes "replica_ok tyof cfg st" "pins_ok cfg st"
  shows "pins_ok cfg (evict cfg ids st)"
proof -
  have p: "pinv tyof cfg {} (viewOf st) st" using assms(1) by (simp add: pinv_replica_ok)
  show ?thesis
    using evict_pinv(6) [OF p, of ids] by (intro pins_ok_subset [OF assms(2)]) (auto split: if_splits)
qed

lemma pins_obj_ok: "replica_ok tyof cfg st \<Longrightarrow> obj_ok (rp_pins st)"
  by (simp add: replica_ok_def base_ok_def)

lemma repin_quiet:
  assumes ok: "replica_ok tyof cfg st" and pin: "map_of (rp_pins st) i = Some q"
  shows "step_ok tyof cfg st (st\<lparr>rp_pins := obj_set (rp_pins st) i q'\<rparr>)"
    "viewOf (st\<lparr>rp_pins := obj_set (rp_pins st) i q'\<rparr>) = viewOf st"
    "pins_ok cfg st \<Longrightarrow> pins_ok cfg (st\<lparr>rp_pins := obj_set (rp_pins st) i q'\<rparr>)"
proof -
  show "step_ok tyof cfg st (st\<lparr>rp_pins := obj_set (rp_pins st) i q'\<rparr>)"
    "viewOf (st\<lparr>rp_pins := obj_set (rp_pins st) i q'\<rparr>) = viewOf st"
    using pins_obj_ok [OF ok] pin
    by (intro quiet_inv [OF ok]; auto simp: same_frame_def obj_set_get js_simps split: if_splits)+
  show "pins_ok cfg st \<Longrightarrow> pins_ok cfg (st\<lparr>rp_pins := obj_set (rp_pins st) i q'\<rparr>)"
    using pin by (elim pins_ok_subset) (auto simp: obj_set_get split: if_splits)
qed

lemma closePin_inv:
  assumes ok: "replica_ok tyof cfg st" and p: "pins_ok cfg st"
  shows "step_ok tyof cfg st (closePin cfg i st) \<and> pins_ok cfg (closePin cfg i st)"
proof -
  have refl: "step_ok tyof cfg st st" using ok by (simp add: step_ok_def)
  show ?thesis
  proof (cases "map_of (rp_pins st) i")
    case None
    with refl p show ?thesis by (simp add: closePin_def)
  next
    case (Some pin)
    let ?s = "st\<lparr>rp_pins := obj_set (rp_pins st) i (pin\<lparr>pin_open := False\<rparr>)\<rparr>"
    note q = repin_quiet [OF ok Some]
    have ev: "step_ok tyof cfg st (evict cfg [i] ?s) \<and> pins_ok cfg (evict cfg [i] ?s)"
    proof -
      have sok: "replica_ok tyof cfg ?s" using q(1) by (simp add: step_ok_def)
      have "step_ok tyof cfg st (evict cfg [i] ?s)"
        by (rule step_ok_trans_quiet [OF q(1) q(2) _ evict_inv [OF sok]]) simp
      with pins_ok_evict [OF sok q(3) [OF p]] show ?thesis by blast
    qed
    from Some refl p q(1,3) ev show ?thesis by (simp add: closePin_def)
  qed
qed

lemma pin_expired_inv:
  assumes ok: "replica_ok tyof cfg st" and p: "pins_ok cfg st"
  shows "step_ok tyof cfg st (pin_expired cfg i st) \<and> pins_ok cfg (pin_expired cfg i st)"
  using evict_inv [OF ok, of "[i]"] pins_ok_evict [OF ok p, of "[i]"] ok p
  by (auto simp: pin_expired_def step_ok_def split: option.splits)

lemma cancelOpen_quiet:
  assumes ok: "replica_ok tyof cfg st"
  shows "step_ok tyof cfg st (cancelOpen i st)" "viewOf (cancelOpen i st) = viewOf st"
    "rp_revision (cancelOpen i st) = rp_revision st" "pins_ok cfg (cancelOpen i st) = pins_ok cfg st"
proof -
  show "step_ok tyof cfg st (cancelOpen i st)" "viewOf (cancelOpen i st) = viewOf st"
    using pins_obj_ok [OF ok]
    by (intro quiet_inv [OF ok]; auto simp: cancelOpen_def same_frame_def obj_delete_get split: if_splits)+
qed (simp_all add: cancelOpen_def pins_ok_def)

lemma close_inv:
  assumes ok: "replica_ok tyof cfg st" and p: "pins_ok cfg st"
  shows "step_ok tyof cfg st (close cfg i st) \<and> pins_ok cfg (close cfg i st)"
proof -
  note q = cancelOpen_quiet [OF ok, of i]
  have sok: "replica_ok tyof cfg (cancelOpen i st)" using q(1) by (simp add: step_ok_def)
  have sp: "pins_ok cfg (cancelOpen i st)" using q(4) p by simp
  have "step_ok tyof cfg st (closePin cfg i (cancelOpen i st)) \<and> pins_ok cfg (closePin cfg i (cancelOpen i st))"
    using closePin_inv [OF sok sp] step_ok_trans_quiet [OF q(1-3)] by blast
  moreover have "step_ok tyof cfg st (evict cfg [i] (cancelOpen i st)) \<and> pins_ok cfg (evict cfg [i] (cancelOpen i st))"
    using evict_inv [OF sok] pins_ok_evict [OF sok sp] step_ok_trans_quiet [OF q(1-3)] by blast
  moreover have "step_ok tyof cfg st st" using ok by (simp add: step_ok_def)
  ultimately show ?thesis using q(1) sp p by (simp add: close_def Let_def split: option.splits)
qed

lemma settleRead_quiet:
  assumes ok: "replica_ok tyof cfg st"
  shows "step_ok tyof cfg st (settleRead i ep st)" "viewOf (settleRead i ep st) = viewOf st"
    "rp_revision (settleRead i ep st) = rp_revision st" "pins_ok cfg (settleRead i ep st) = pins_ok cfg st"
proof -
  show "step_ok tyof cfg st (settleRead i ep st)" "viewOf (settleRead i ep st) = viewOf st"
    using pins_obj_ok [OF ok] by (intro quiet_inv [OF ok]; auto simp: settleRead_def same_frame_def split: if_splits)+
qed (simp_all add: settleRead_def pins_ok_def)

lemma open_resolved_inv:
  assumes c: "config_ok cfg" and ok: "replica_ok tyof cfg st" and p: "pins_ok cfg st"
    and row: "\<And>r. loaded = Some r \<Longrightarrow> own tyof i r"
  shows "step_ok tyof cfg st (fst (open_resolved cfg i ep loaded st)) \<and> pins_ok cfg (fst (open_resolved cfg i ep loaded st))"
proof -
  note q = settleRead_quiet [OF ok, of i ep]
  let ?st1 = "settleRead i ep st"
  let ?st2 = "?st1\<lparr>rp_pendingOpens := obj_delete (rp_pendingOpens ?st1) i\<rparr>"
  let ?buf = "getOr (map_of (rp_pendingOpens ?st1) i) []"
  have ok1: "replica_ok tyof cfg ?st1" using q(1) by (simp add: step_ok_def)
  have q2: "step_ok tyof cfg ?st1 ?st2" "viewOf ?st2 = viewOf ?st1"
    using pins_obj_ok [OF ok1]
    by (intro quiet_inv [OF ok1]; auto simp: same_frame_def obj_delete_get split: if_splits)+
  have s2: "step_ok tyof cfg st ?st2" by (rule step_ok_trans_quiet [OF q(1-3) q2(1)])
  have v2: "viewOf ?st2 = viewOf st" "rp_revision ?st2 = rp_revision st" using q2(2) q(2,3) by simp_all
  have p2: "pins_ok cfg ?st2" using q(4) p by (simp add: pins_ok_def)
  have ok2: "replica_ok tyof cfg ?st2" using s2 by (simp add: step_ok_def)
  have buf: "\<forall>e \<in> set ?buf. upd_for tyof i (or_update e)"
    using ok1 by (cases "map_of (rp_pendingOpens ?st1) i") (auto simp: replica_ok_def base_ok_def)
  show ?thesis
  proof (cases "map_of (rp_openEpochs ?st1) i = Some ep \<and> (\<exists>r. loaded = Some r \<and> \<not> holds cfg (ent_type r))")
    case False
    then have "fst (open_resolved cfg i ep loaded st) = ?st1 \<or> fst (open_resolved cfg i ep loaded st) = ?st2"
      by (auto simp: open_resolved_def Let_def split: option.splits)
    then show ?thesis using q(1,4) p s2 p2 by auto
  next
    case True
    then obtain r where r: "loaded = Some r" "\<not> holds cfg (ent_type r)" and ep: "map_of (rp_openEpochs ?st1) i = Some ep" by blast
    have own: "own tyof i (withAdoptedMapFields r)" and nh: "\<not> holds cfg (tyof i)"
      using row [OF r(1)] r(2) by (simp_all add: own_def withAdoptedMapFields_def adoptMapFields_ok)
    have "fst (open_resolved cfg i ep loaded st) = install cfg i (withAdoptedMapFields r) ?buf ?st2"
      using r ep by (simp add: open_resolved_def Let_def)
    with install_inv [OF c ok2 own nh buf] step_ok_trans_quiet [OF s2 v2] show ?thesis by simp
  qed
qed

end
