(* ===== verification/ReplicaProps.thy ===== *)
theory ReplicaProps
  imports ReplicaInv
begin

text \<open>
  What the replica guarantees to its readers, for every run of its operations: loading a record, the
  reads of the composed view, completeness of the change journal, optimistic writes, the record round
  trip and the bound on pinned rows.
\<close>

section \<open>Loading a record\<close>

lemma releasePin_eq: "releasePin i st = st\<lparr>rp_pins := obj_delete (rp_pins st) i\<rparr>"
  by (auto simp: releasePin_def pinned_def obj_delete_absent)

lemma release_all:
  "fold releasePin ks st = st\<lparr>rp_pins := filter (\<lambda>kv. fst kv \<notin> set ks) (rp_pins st)\<rparr>"
proof (induction ks arbitrary: st)
  case Nil
  then show ?case by simp
next
  case (Cons k ks)
  have "filter (\<lambda>kv. fst kv \<notin> set ks) (obj_delete xs k) = filter (\<lambda>kv. fst kv \<notin> set (k # ks)) xs" for xs :: "Pin obj"
    by (induction xs) auto
  with Cons show ?case by (simp add: releasePin_eq)
qed

lemma add_index_entry_add: "add_index_entry index en = add_entry index (Some en)"
  by (auto simp: add_index_entry_def add_entry_def withEntry_def addIndexRow_def applyRow_def split: option.splits)

lemma fresh_delta: "applyIndexDelta index (indexDeltaFor f None (Some row)) = add_entry index (f row)"
  by (cases "f row") (simp_all add: applyIndexDelta_split indexDeltaFor_def sameEntry_iff remove_entry_def add_entry_def Let_def)

definition loaded_ok ::
  "(string \<Rightarrow> string) \<Rightarrow> ReplicaConfig \<Rightarrow> Replica \<Rightarrow> Entity list \<Rightarrow> Replica \<times> ReverseIndex \<times> ReverseIndex \<Rightarrow> bool" where
  "loaded_ok tyof cfg st0 es acc \<longleftrightarrow> (case acc of (st, rv, fw) \<Rightarrow>
     (\<exists>E T. st = st0\<lparr>rp_entities := E, rp_typeIndex := T\<rparr> \<and> obj_ok E \<and>
        (\<forall>i e. map_of E i = Some e \<longleftrightarrow> (\<exists>r \<in> set es. holds cfg (ent_type r) \<and> ent_id r = i \<and> e = withAdoptedMapFields r)) \<and>
        (\<forall>t. distinct (getOr (map_of T t) []) \<and> set (getOr (map_of T t) []) = {i. map_of E i \<noteq> None \<and> tyof i = t}) \<and>
        reverse.tracks (map_of E) rv \<and> forward.tracks (map_of E) fw))"

lemma loaded_okI:
  assumes "st = st0\<lparr>rp_entities := E, rp_typeIndex := T\<rparr>" "obj_ok E"
    "\<And>i e. map_of E i = Some e \<longleftrightarrow> (\<exists>r \<in> set es. holds cfg (ent_type r) \<and> ent_id r = i \<and> e = withAdoptedMapFields r)"
    "\<And>t. distinct (getOr (map_of T t) []) \<and> set (getOr (map_of T t) []) = {i. map_of E i \<noteq> None \<and> tyof i = t}"
    "reverse.tracks (map_of E) rv" "forward.tracks (map_of E) fw"
  shows "loaded_ok tyof cfg st0 es (st, rv, fw)"
  unfolding loaded_ok_def split using assms by blast

lemma replica_ok_notify [simp]: "replica_ok tyof cfg (notify st) = replica_ok tyof cfg st"
  by (simp add: replica_ok_def)

lemma load_rows_ok:
  assumes "distinct (map ent_id es)" "\<forall>r \<in> set es. own tyof (ent_id r) r" "rp_entities st0 = []" "rp_typeIndex st0 = []"
  shows "loaded_ok tyof cfg st0 es (fold (load_row cfg) es (st0, [], []))"
  using assms(1,2)
proof (induction es rule: rev_induct)
  case Nil
  have e: "map_of [] = (\<lambda>_. None)" by auto
  have "st0 = st0\<lparr>rp_entities := [], rp_typeIndex := []\<rparr>" using assms(3,4) by simp
  then show ?case
    using reverse.tracks_empty forward.tracks_empty
    by (auto simp: loaded_ok_def obj_ok_Nil e intro!: exI [of _ "[]"])
next
  case (snoc r es)
  obtain st rv fw where acc: "fold (load_row cfg) es (st0, [], []) = (st, rv, fw)" using prod_cases3 by blast
  have "loaded_ok tyof cfg st0 es (st, rv, fw)" using snoc acc by simp
  then obtain E T where st: "st = st0\<lparr>rp_entities := E, rp_typeIndex := T\<rparr>" and E: "obj_ok E"
    and rows: "\<And>i e. map_of E i = Some e \<longleftrightarrow> (\<exists>r \<in> set es. holds cfg (ent_type r) \<and> ent_id r = i \<and> e = withAdoptedMapFields r)"
    and T: "\<And>t. distinct (getOr (map_of T t) []) \<and> set (getOr (map_of T t) []) = {i. map_of E i \<noteq> None \<and> tyof i = t}"
    and idx: "reverse.tracks (map_of E) rv" "forward.tracks (map_of E) fw"
    unfolding loaded_ok_def by auto
  show ?case
  proof (cases "holds cfg (ent_type r)")
    case False
    then have "fold (load_row cfg) (es @ [r]) (st0, [], []) = (st, rv, fw)" using acc by (simp add: load_row_def)
    moreover have "map_of E i = Some e \<longleftrightarrow>
        (\<exists>r' \<in> set (es @ [r]). holds cfg (ent_type r') \<and> ent_id r' = i \<and> e = withAdoptedMapFields r')" for i e
      unfolding rows using False by auto
    ultimately show ?thesis using loaded_okI [OF st E _ T idx] by simp
  next
    case True
    let ?row = "withAdoptedMapFields r" and ?i = "ent_id r"
    have id: "ent_id ?row = ?i" "ent_type ?row = tyof ?i"
      using snoc.prems(2) by (simp_all add: withAdoptedMapFields_def own_def)
    have fresh: "map_of E ?i = None"
    proof (rule ccontr)
      assume "map_of E ?i \<noteq> None"
      then obtain e where "map_of E ?i = Some e" by auto
      with rows obtain r' where "r' \<in> set es" "ent_id r' = ?i" by metis
      moreover have "ent_id r \<notin> ent_id ` set es" using snoc.prems(1) by simp
      ultimately show False by (metis image_eqI)
    qed
    let ?E = "obj_set E ?i ?row" and ?T = "ti_add (tyof ?i) ?i T"
    have E': "map_of ?E = (map_of E)(?i \<mapsto> ?row)" by (simp add: obj_set_get)
    have eq: "fold (load_row cfg) (es @ [r]) (st0, [], []) =
        (st0\<lparr>rp_entities := ?E, rp_typeIndex := ?T\<rparr>, add_entry rv (indexEntryFor ?row), add_entry fw (forwardIndexEntryFor ?row))"
      using True acc id
      by (auto simp: load_row_def Let_def st addToType_eq add_index_entry_add add_entry_def split: option.splits)
    show ?thesis unfolding eq
    proof (rule loaded_okI [OF refl obj_set_ok [OF E]])
      show "reverse.tracks (map_of ?E) (add_entry rv (indexEntryFor ?row))"
        using reverse.tracks_write [OF idx(1), of ?i "Some ?row"] fresh id
        by (simp add: E' fresh_delta)
      show "forward.tracks (map_of ?E) (add_entry fw (forwardIndexEntryFor ?row))"
        using forward.tracks_write [OF idx(2), of ?i "Some ?row"] fresh id
        by (simp add: E' fresh_delta)
      show "map_of ?E i = Some e \<longleftrightarrow>
          (\<exists>r' \<in> set (es @ [r]). holds cfg (ent_type r') \<and> ent_id r' = i \<and> e = withAdoptedMapFields r')" for i e
        using rows [of i e] fresh True by (auto simp: E')
      show "distinct (getOr (map_of ?T t) []) \<and> set (getOr (map_of ?T t) []) = {i. map_of ?E i \<noteq> None \<and> tyof i = t}" for t
        using T [of t] by (auto simp: ti_add_get E' js_simps)
    qed
  qed
qed

definition record_typed :: "(string \<Rightarrow> string) \<Rightarrow> ReplicaRecord \<Rightarrow> bool" where
  "record_typed tyof r \<longleftrightarrow> distinct (map ent_id (rec_entities r)) \<and> (\<forall>e \<in> set (rec_entities r). own tyof (ent_id e) e)"

lemma load_inv:
  assumes r: "record_typed tyof r" "valid_record r"
  shows "replica_ok tyof cfg (load cfg r st)" "rp_pins (load cfg r st) = []"
    "rp_revision st < rp_revision (load cfg r st)" "rp_changeFloor (load cfg r st) = rp_revision (load cfg r st)"
    "rp_overlay (load cfg r st) = []"
    "map_of (rp_entities (load cfg r st)) i = Some e \<longleftrightarrow>
       (\<exists>x \<in> set (rec_entities r). holds cfg (ent_type x) \<and> ent_id x = i \<and> e = withAdoptedMapFields x)"
    "rp_lastPosition (load cfg r st) = rec_position r"
proof -
  let ?st0 = "fold releasePin (obj_keys (rp_pins st))
       (st\<lparr>rp_entities := [], rp_typeIndex := [], rp_orphans := [], rp_overlay := [],
           rp_effective := [], rp_pendingOpens := [], rp_inFlightOpens := [], rp_openEpochs := [],
           rp_journal := [], rp_journalStart := 0\<rparr>)"
  have st0: "?st0 = st\<lparr>rp_entities := [], rp_typeIndex := [], rp_orphans := [], rp_overlay := [],
           rp_effective := [], rp_pendingOpens := [], rp_inFlightOpens := [], rp_openEpochs := [],
           rp_journal := [], rp_journalStart := 0, rp_pins := []\<rparr>"
    by (simp add: release_all filter_empty_conv)
  obtain st1 rv fw where acc: "fold (load_row cfg) (rec_entities r) (?st0, [], []) = (st1, rv, fw)"
    using prod_cases3 by blast
  have "loaded_ok tyof cfg ?st0 (rec_entities r) (st1, rv, fw)"
    using load_rows_ok [of "rec_entities r" tyof ?st0 cfg] r(1) acc by (simp add: record_typed_def st0)
  then obtain E T where st1: "st1 = ?st0\<lparr>rp_entities := E, rp_typeIndex := T\<rparr>" and E: "obj_ok E"
    and rows: "\<And>i e. map_of E i = Some e \<longleftrightarrow> (\<exists>x \<in> set (rec_entities r). holds cfg (ent_type x) \<and> ent_id x = i \<and> e = withAdoptedMapFields x)"
    and T: "\<And>t. distinct (getOr (map_of T t) []) \<and> set (getOr (map_of T t) []) = {i. map_of E i \<noteq> None \<and> tyof i = t}"
    and idx: "reverse.tracks (map_of E) rv" "forward.tracks (map_of E) fw"
    unfolding loaded_ok_def by auto
  let ?rev = "if rec_revision r > rp_revision st then rec_revision r else rp_revision st + 1"
  have ld: "load cfg r st = notify (st1\<lparr>rp_reverseIndex := rv, rp_forwardIndex := fw, rp_revision := ?rev,
      rp_changeFloor := ?rev, rp_lastPosition := rec_position r\<rparr>)"
    using r(2) acc by (simp add: load_def isValidReplicaRecord_typed Let_def)
  show "rp_pins (load cfg r st) = []" "rp_revision st < rp_revision (load cfg r st)"
    "rp_changeFloor (load cfg r st) = rp_revision (load cfg r st)" "rp_overlay (load cfg r st) = []"
    "rp_lastPosition (load cfg r st) = rec_position r"
    unfolding ld st1 st0 by simp_all
  show "map_of (rp_entities (load cfg r st)) i = Some e \<longleftrightarrow>
       (\<exists>x \<in> set (rec_entities r). holds cfg (ent_type x) \<and> ent_id x = i \<and> e = withAdoptedMapFields x)"
    unfolding ld st1 using rows by simp
  let ?s = "st1\<lparr>rp_reverseIndex := rv, rp_forwardIndex := fw, rp_revision := ?rev,
      rp_changeFloor := ?rev, rp_lastPosition := rec_position r\<rparr>"
  have own: "own tyof i e \<and> holds cfg (tyof i)" if "map_of E i = Some e" for i e
    using that rows r(1) by (auto simp: record_typed_def own_def withAdoptedMapFields_def adoptMapFields_ok)
  have "replica_ok tyof cfg ?s"
    unfolding replica_ok_def
  proof (intro conjI allI)
    show "base_ok tyof cfg ?s"
      unfolding base_ok_def st1 st0 using E T own by (simp add: obj_ok_Nil pinned_def)
    have "viewOf ?s = map_of E" by (simp add: viewOf_def st1 st0 fun_eq_iff)
    then show "index_for (viewOf ?s) ?s" using idx by (simp add: index_for_def)
    show "eff_ok cfg ?s i" for i by (simp add: eff_ok_def st1 st0)
    show "journal_ok tyof cfg ?s" by (simp add: journal_ok_def changes_def st1 st0)
  qed
  then show "replica_ok tyof cfg (load cfg r st)" unfolding ld by simp
qed

section \<open>Runs\<close>

datatype replica_op =
    Ingest Action "Update list" int
  | Optimistic Action
  | Discard string
  | Evict "string list"
  | Open bool string
  | OpenResolved string int "Entity option"
  | OpenRejected string int
  | Close string
  | PinExpired string
  | Load ReplicaRecord

definition replica_step :: "ReplicaConfig \<Rightarrow> replica_op \<Rightarrow> Replica \<Rightarrow> Replica" where
  "replica_step cfg op st = (case op of
     Ingest a delta p \<Rightarrow> ingest cfg a delta p st
   | Optimistic a \<Rightarrow> optimistic cfg a st
   | Discard aid \<Rightarrow> discard cfg aid st
   | Evict ids \<Rightarrow> evict cfg ids st
   | Open b i \<Rightarrow> fst (open' cfg b i st)
   | OpenResolved i ep row \<Rightarrow> fst (open_resolved cfg i ep row st)
   | OpenRejected i ep \<Rightarrow> open_rejected i ep st
   | Close i \<Rightarrow> close cfg i st
   | PinExpired i \<Rightarrow> pin_expired cfg i st
   | Load r \<Rightarrow> load cfg r st)"

text \<open>
  Operations whose rows and Updates carry the type of their id. Their field records have distinct names, as the
  properties of an object do.
\<close>

definition op_typed :: "(string \<Rightarrow> string) \<Rightarrow> replica_op \<Rightarrow> bool" where
  "op_typed tyof op = (case op of
     Ingest a delta p \<Rightarrow> list_all (\<lambda>u. subject_type u = tyof (subject_id u) \<and> obj_ok (readFields u)) delta
   | Optimistic a \<Rightarrow> list_all (\<lambda>u. subject_type u = tyof (subject_id u) \<and> obj_ok (readFields u)) (act_updates a)
   | OpenResolved i ep (Some row) \<Rightarrow> ent_id row = i \<and> ent_type row = tyof i \<and> obj_ok (ent_fields row)
   | Load r \<Rightarrow> distinct (map ent_id (rec_entities r)) \<and> list_all (\<lambda>e. ent_type e = tyof (ent_id e) \<and> obj_ok (ent_fields e)) (rec_entities r)
   | _ \<Rightarrow> True)"

definition run_ok :: "(string \<Rightarrow> string) \<Rightarrow> ReplicaConfig \<Rightarrow> Replica \<Rightarrow> bool" where
  "run_ok tyof cfg st \<longleftrightarrow> replica_ok tyof cfg st \<and> pins_ok cfg st"

lemma replica_step_inv:
  assumes c: "config_ok cfg" and ok: "run_ok tyof cfg st" and t: "op_typed tyof op"
  shows "run_ok tyof cfg (replica_step cfg op st)"
    "(\<nexists>r. op = Load r) \<Longrightarrow> step_ok tyof cfg st (replica_step cfg op st)"
    "rp_revision st \<le> rp_revision (replica_step cfg op st)"
proof -
  have r: "replica_ok tyof cfg st" and p: "pins_ok cfg st" using ok by (simp_all add: run_ok_def)
  have same: "pins_ok cfg s" if "rp_pins s = rp_pins st" for s using p that by (simp add: pins_ok_def)
  have self: "run_ok tyof cfg st \<and> step_ok tyof cfg st st" using ok by (simp add: run_ok_def step_ok_def)
  have "run_ok tyof cfg (replica_step cfg op st) \<and> ((\<nexists>r. op = Load r) \<longrightarrow> step_ok tyof cfg st (replica_step cfg op st)) \<and>
      rp_revision st \<le> rp_revision (replica_step cfg op st)"
  proof (cases op)
    case (Ingest a delta q)
    have u: "\<forall>u \<in> set delta. upd_for tyof (subject_id u) u" using t Ingest by (simp add: op_typed_def upd_for_def list_all_iff)
    obtain st1 where "rp_pins (ingest cfg a delta q st) = rp_pins st" using ingest_inv(2) [OF r u] by blast
    with ingest_inv(1) [OF r u, of a q] same Ingest show ?thesis
      by (simp add: replica_step_def run_ok_def step_ok_def)
  next
    case (Optimistic a)
    have u: "\<forall>u \<in> set (act_updates a). upd_for tyof (subject_id u) u"
      using t Optimistic by (simp add: op_typed_def upd_for_def list_all_iff)
    with optimistic_inv(1,3) [OF r u] same Optimistic show ?thesis
      by (simp add: replica_step_def run_ok_def step_ok_def)
  next
    case (Discard aid)
    with discard_inv(1,3) [OF r] same show ?thesis by (simp add: replica_step_def run_ok_def step_ok_def)
  next
    case (Evict ids)
    with evict_inv [OF r] pins_ok_evict [OF r p] show ?thesis by (simp add: replica_step_def run_ok_def step_ok_def)
  next
    case (Open b i)
    with open_inv [OF c r p] show ?thesis by (simp add: replica_step_def run_ok_def step_ok_def)
  next
    case (OpenResolved i ep row)
    have "own tyof i x" if "row = Some x" for x using t OpenResolved that by (simp add: op_typed_def own_def)
    with open_resolved_inv [OF c r p, of row i ep] OpenResolved show ?thesis
      by (simp add: replica_step_def run_ok_def step_ok_def)
  next
    case (OpenRejected i ep)
    with settleRead_quiet [OF r, of i ep] p show ?thesis
      by (simp add: replica_step_def run_ok_def step_ok_def open_rejected_def)
  next
    case (Close i)
    with close_inv [OF r p] show ?thesis by (simp add: replica_step_def run_ok_def step_ok_def)
  next
    case (PinExpired i)
    with pin_expired_inv [OF r p] show ?thesis by (simp add: replica_step_def run_ok_def step_ok_def)
  next
    case (Load rec)
    show ?thesis
    proof (cases "valid_record rec")
      case True
      have "record_typed tyof rec" using t Load by (simp add: op_typed_def record_typed_def own_def list_all_iff)
      from load_inv(1-3) [OF this True] Load show ?thesis by (simp add: replica_step_def run_ok_def pins_ok_def less_imp_le)
    next
      case False
      with self Load show ?thesis by (simp add: replica_step_def load_def isValidReplicaRecord_typed)
    qed
  qed
  then show "run_ok tyof cfg (replica_step cfg op st)"
    "(\<nexists>r. op = Load r) \<Longrightarrow> step_ok tyof cfg st (replica_step cfg op st)"
    "rp_revision st \<le> rp_revision (replica_step cfg op st)" by blast+
qed

lemma createReplica_ok: "run_ok tyof cfg createReplica"
proof -
  have "viewOf createReplica = (\<lambda>_. None)" by (simp add: viewOf_def createReplica_def fun_eq_iff)
  then show ?thesis
    using reverse.tracks_empty forward.tracks_empty
    by (simp add: run_ok_def replica_ok_def base_ok_def journal_ok_def changes_def eff_ok_def index_for_def
        pinned_def pins_ok_def obj_ok_Nil) (simp add: createReplica_def obj_ok_Nil)
qed

definition replica_run :: "ReplicaConfig \<Rightarrow> replica_op list \<Rightarrow> Replica" where
  "replica_run cfg ops = fold (replica_step cfg) ops createReplica"

lemma replica_run_ok:
  assumes "config_ok cfg" "list_all (op_typed tyof) ops"
  shows "run_ok tyof cfg (replica_run cfg ops)"
  using assms(2) unfolding replica_run_def
proof (induction ops rule: rev_induct)
  case Nil
  then show ?case by (simp add: createReplica_ok)
next
  case (snoc op ops)
  then show ?case using replica_step_inv(1) [OF assms(1)] by simp
qed

section \<open>Reads of the composed view\<close>

lemma fold_add_remove:
  fixes P :: "'v \<Rightarrow> bool" and s :: "'k list"
  assumes "distinct (map fst es)" "distinct s"
  defines "f \<equiv> (\<lambda>(k, v) s. if P v then set_add s k else set_remove s k)"
  shows "distinct (fold f es s) \<and> (\<forall>i. i \<in> set (fold f es s) \<longleftrightarrow>
    (case map_of es i of Some v \<Rightarrow> P v | None \<Rightarrow> i \<in> set s))"
  using assms(1,2) unfolding f_def
proof (induction es arbitrary: s)
  case Nil
  then show ?case by simp
next
  case (Cons e es)
  obtain k v where e: "e = (k, v)" by (cases e)
  have none: "map_of es k = None" using Cons.prems(1) by (simp add: e map_of_eq_None_iff)
  let ?s = "if P v then set_add s k else set_remove s k"
  have "distinct ?s" using Cons.prems(2) by (simp add: js_simps)
  with Cons.IH [of ?s] Cons.prems(1) none show ?case
    by (auto simp: e js_simps split: option.splits)
qed

lemma concat_options: "concat (map (\<lambda>i. case g i of None \<Rightarrow> [] | Some r \<Rightarrow> [r]) ids) = map (the \<circ> g) (filter (\<lambda>i. g i \<noteq> None) ids)"
  by (induction ids) (auto split: option.splits)

lemma iterate_view:
  assumes "config_ok cfg" "list_all (op_typed tyof) ops"
  shows "let st = replica_run cfg ops in
    distinct (map ent_id (iterate st t)) \<and>
    set (iterate st t) = {e. \<exists>i. replica_get st i = Some e \<and> ent_type e = t}"
proof -
  let ?st = "replica_run cfg ops"
  have ok: "replica_ok tyof cfg ?st" using replica_run_ok [OF assms] by (simp add: run_ok_def)
  have base: "base_ok tyof cfg ?st" using ok by (simp add: replica_ok_def)
  let ?f = "\<lambda>(eid, row) s. if (case row of Some r \<Rightarrow> ent_type r = t | None \<Rightarrow> False) then set_add s eid else set_remove s eid"
  let ?ids = "fold ?f (rp_effective ?st) (getOr (map_of (rp_typeIndex ?st) t) [])"
  have TI: "distinct (getOr (map_of (rp_typeIndex ?st) t) [])"
    "set (getOr (map_of (rp_typeIndex ?st) t) []) = {i. map_of (rp_entities ?st) i \<noteq> None \<and> tyof i = t}"
    "distinct (map fst (rp_effective ?st))"
    using base by (simp_all add: base_ok_def obj_ok_def)
  note f = fold_add_remove [OF TI(3,1), of "\<lambda>row. case row of Some r \<Rightarrow> ent_type r = t | None \<Rightarrow> False"]
  have get: "replica_get ?st = viewOf ?st" by (simp add: replica_get_def viewOf_def fun_eq_iff)
  have own: "viewOf ?st i = Some e \<Longrightarrow> own tyof i e" for i e by (rule replica_view_own [OF ok])
  have mem: "i \<in> set ?ids \<longleftrightarrow> (\<exists>e. viewOf ?st i = Some e \<and> ent_type e = t)" for i
  proof (cases "map_of (rp_effective ?st) i")
    case None
    have "i \<in> set ?ids \<longleftrightarrow> map_of (rp_entities ?st) i \<noteq> None \<and> tyof i = t" using f None TI(2) by simp
    with None base_ok_entity(2) [OF base] show ?thesis by (auto simp: viewOf_def)
  next
    case (Some row)
    with f show ?thesis by (auto simp: viewOf_def split: option.splits)
  qed
  have ids_eq: "set ?ids = {i. \<exists>e. viewOf ?st i = Some e \<and> ent_type e = t}"
    by (rule set_eqI) (simp only: mem mem_Collect_eq)
  have it: "iterate ?st t = map (the \<circ> viewOf ?st) ?ids"
  proof -
    have "filter (\<lambda>i. viewOf ?st i \<noteq> None) ?ids = ?ids" using mem by (intro filter_True) blast
    then show ?thesis unfolding iterate_def Let_def get concat_options by simp
  qed
  have ids: "map ent_id (iterate ?st t) = ?ids"
  proof -
    have "(ent_id \<circ> (the \<circ> viewOf ?st)) i = i" if "i \<in> set ?ids" for i
      using that own unfolding mem own_def by fastforce
    then show ?thesis unfolding it map_map by (rule map_idI)
  qed
  have rows: "set (iterate ?st t) = {e. \<exists>i. replica_get ?st i = Some e \<and> ent_type e = t}"
  proof -
    have "set (iterate ?st t) = (the \<circ> viewOf ?st) ` {i. \<exists>e. viewOf ?st i = Some e \<and> ent_type e = t}"
      unfolding it set_map ids_eq ..
    also have "\<dots> = {e. \<exists>i. viewOf ?st i = Some e \<and> ent_type e = t}" by force
    finally show ?thesis unfolding get .
  qed
  have "distinct ?ids" using f by blast
  with ids rows show ?thesis by (simp only: Let_def)
qed

text \<open>
  \<^verbatim>\<open>iterate\<close> and \<^verbatim>\<open>get\<close> agree. After any run of the replica, iterating a type yields exactly the
  visible rows of that type, optimistic writes included, each once.
\<close>

theorem replica_iterate_view:
  assumes "config_ok cfg" "list_all (op_typed tyof) ops"
  shows "let st = replica_run cfg ops in
    distinct (map ent_id (iterate st t)) \<and>
    set (iterate st t) = {e. \<exists>i. replica_get st i = Some e \<and> ent_type e = t}"
  by (rule iterate_view [OF assms])

lemma relationships_view:
  assumes "config_ok cfg" "list_all (op_typed tyof) ops" "NUL \<notin> set as" "NUL \<notin> set ty" "as \<noteq> MEMBERSHIP_ACCESSOR"
    and clean: "\<forall>i e. replica_get (replica_run cfg ops) i = Some e \<longrightarrow> clean_row e"
  shows "let st = replica_run cfg ops;
             edge = (\<lambda>src tgt. \<exists>i e. replica_get st i = Some e \<and> links e as ty src tgt)
    in relationships st as ty None (Some x) = sorted_list_of_set {src. edge src x} \<and>
       relationships st as ty (Some x) any = sorted_list_of_set {tgt. edge x tgt}"
proof -
  let ?st = "replica_run cfg ops"
  have ok: "replica_ok tyof cfg ?st" using replica_run_ok [OF assms(1,2)] by (simp add: run_ok_def)
  have get: "replica_get ?st = viewOf ?st" by (simp add: replica_get_def viewOf_def fun_eq_iff)
  have tr: "reverse.tracks (viewOf ?st) (rp_reverseIndex ?st)" "forward.tracks (viewOf ?st) (rp_forwardIndex ?st)"
    using ok by (simp_all add: replica_ok_def index_for_def)
  have cl: "clean_row e" if "viewOf ?st i = Some e" for i e using clean that get by metis
  have "set (getOr (map_of (rp_reverseIndex ?st) (reverseIndexKey as ty x)) []) =
      {(r, v). reverse.contrib (viewOf ?st r) (reverseIndexKey as ty x) = Some v}"
    using tr(1) by (intro rows_under_key) (auto simp: reverse.tracks_def)
  also have "\<dots> = {(r, v). \<exists>e. viewOf ?st r = Some e \<and> links e as ty v x}"
  proof -
    have "reverse.contrib w (reverseIndexKey as ty x) = Some v \<longleftrightarrow> (\<exists>e. w = Some e \<and> links e as ty v x)"
      if "\<And>e. w = Some e \<Longrightarrow> clean_row e" for w v
      using that reverse_contrib_link [OF _ assms(3-5)] by (cases w) auto
    then show ?thesis using cl by auto
  qed
  finally have rev: "snd ` set (getOr (map_of (rp_reverseIndex ?st) (reverseIndexKey as ty x)) []) =
      {src. \<exists>i e. viewOf ?st i = Some e \<and> links e as ty src x}" by force
  have "set (getOr (map_of (rp_forwardIndex ?st) (forwardIndexKey as ty x)) []) =
      {(r, v). forward.contrib (viewOf ?st r) (forwardIndexKey as ty x) = Some v}"
    using tr(2) by (intro rows_under_key) (auto simp: forward.tracks_def)
  also have "\<dots> = {(r, v). \<exists>e. viewOf ?st r = Some e \<and> links e as ty x v}"
  proof -
    have "forward.contrib w (forwardIndexKey as ty x) = Some v \<longleftrightarrow> (\<exists>e. w = Some e \<and> links e as ty x v)"
      if "\<And>e. w = Some e \<Longrightarrow> clean_row e" for w v
      using that forward_contrib_link [OF _ assms(3-5)] by (cases w) auto
    then show ?thesis using cl by auto
  qed
  finally have fwd: "snd ` set (getOr (map_of (rp_forwardIndex ?st) (forwardIndexKey as ty x)) []) =
      {tgt. \<exists>i e. viewOf ?st i = Some e \<and> links e as ty x tgt}" by force
  show ?thesis
    by (simp add: Let_def relationships_def liveSourceIds_sorted_set rev fwd get)
qed

text \<open>The same for membership rows.\<close>

lemma memberships_view:
  assumes "config_ok cfg" "list_all (op_typed tyof) ops" "\<forall>i e. replica_get (replica_run cfg ops) i = Some e \<longrightarrow> clean_row e"
    and "\<forall>i e t src tgt. replica_get (replica_run cfg ops) i = Some e \<longrightarrow> \<not> links e MEMBERSHIP_ACCESSOR t src tgt"
  shows "set (memberships (replica_run cfg ops) (Some g) any) = {ent. \<exists>i e. replica_get (replica_run cfg ops) i = Some e \<and> member_row e ent g}"
proof -
  let ?st = "replica_run cfg ops"
  have ok: "replica_ok tyof cfg ?st" using replica_run_ok [OF assms(1,2)] by (simp add: run_ok_def)
  have get: "replica_get ?st = viewOf ?st" by (simp add: replica_get_def viewOf_def fun_eq_iff)
  have tr: "reverse.tracks (viewOf ?st) (rp_reverseIndex ?st)" using ok by (simp add: replica_ok_def index_for_def)
  have contrib: "reverse.contrib w (membershipIndexKey g) = Some v \<longleftrightarrow> (\<exists>e. w = Some e \<and> member_row e v g)"
    if "\<And>e. w = Some e \<Longrightarrow> clean_row e \<and> (\<forall>t src tgt. \<not> links e MEMBERSHIP_ACCESSOR t src tgt)" for w v
    using that links_clean membership_parts_clean
    by (cases w) (auto simp: reverse_contrib membershipIndexKey_def reverseIndexKey_eq)
  have "set (getOr (map_of (rp_reverseIndex ?st) (membershipIndexKey g)) []) =
      {(r, v). reverse.contrib (viewOf ?st r) (membershipIndexKey g) = Some v}"
    using tr by (intro rows_under_key) (auto simp: reverse.tracks_def)
  also have "\<dots> = {(r, v). \<exists>e. viewOf ?st r = Some e \<and> member_row e v g}"
    using contrib assms(3,4) get by (intro Collect_cong) (auto simp: split_beta)
  finally have rows: "snd ` set (getOr (map_of (rp_reverseIndex ?st) (membershipIndexKey g)) []) =
      {ent. \<exists>i e. viewOf ?st i = Some e \<and> member_row e ent g}" by force
  moreover have "finite {ent. \<exists>i e. viewOf ?st i = Some e \<and> member_row e ent g}" by (simp flip: rows)
  ultimately show ?thesis by (simp add: memberships_def liveSourceIds_sorted_set get)
qed

text \<open>
  Adjacency reads follow the composed view. After any run, \<^verbatim>\<open>relationships\<close> by target returns the
  sorted distinct sources, and by source the sorted distinct targets, of exactly the live relationship
  rows a reader can see, optimistic edges included and discarded ones excluded.
\<close>

theorem replica_relationships_view:
  assumes "config_ok cfg" "list_all (op_typed tyof) ops" "NUL \<notin> set as" "NUL \<notin> set ty" "as \<noteq> MEMBERSHIP_ACCESSOR"
    and clean: "\<forall>i e. replica_get (replica_run cfg ops) i = Some e \<longrightarrow> clean_row e"
  shows "let st = replica_run cfg ops;
             edge = (\<lambda>src tgt. \<exists>i e. replica_get st i = Some e \<and> links e as ty src tgt)
    in relationships st as ty None (Some x) = sorted_list_of_set {src. edge src x} \<and>
       relationships st as ty (Some x) any = sorted_list_of_set {tgt. edge x tgt}"
  by (rule relationships_view [OF assms])

section \<open>The change journal\<close>


text \<open>
  The journal is gapless. After any run, a reader that is not behind \<^verbatim>\<open>changeFloor\<close> gets one change for
  every revision after the one it has, in order, a reader behind it gets none, and the journal never
  keeps more changes than its capacity.
\<close>

theorem replica_journal_gapless:
  assumes "config_ok cfg" "list_all (op_typed tyof) ops"
  shows "let st = replica_run cfg ops in
    rp_changeFloor st \<le> rp_revision st \<and>
    (\<forall>r0. rp_changeFloor st \<le> r0 \<longrightarrow> r0 \<le> rp_revision st \<longrightarrow>
       map ch_revision (changesSince st r0) = [r0 + 1..rp_revision st]) \<and>
    (\<forall>r0. r0 < rp_changeFloor st \<longrightarrow> changesSince st r0 = []) \<and>
    (\<forall>c. journalCapacity cfg = Some c \<longrightarrow> retainedChanges st \<le> c)"
proof -
  let ?st = "replica_run cfg ops"
  have j: "journal_ok tyof cfg ?st" using replica_run_ok [OF assms] by (simp add: run_ok_def replica_ok_def)
  have "map ch_revision (changesSince ?st r0) = [r0 + 1..rp_revision ?st]"
    if "rp_changeFloor ?st \<le> r0" "r0 \<le> rp_revision ?st" for r0
  proof -
    have "map ch_revision (changesSince ?st r0) = filter (\<lambda>r. r0 < r) (map ch_revision (changes ?st))"
      using that(1) by (simp add: changesSince_def changes_def filter_map comp_def)
    also have "\<dots> = filter (\<lambda>r. r0 < r) [rp_changeFloor ?st + 1..rp_revision ?st]" using j by (simp add: journal_ok_def)
    also have "\<dots> = filter (\<lambda>r. r0 < r) ([rp_changeFloor ?st + 1..r0] @ [r0 + 1..rp_revision ?st])"
      using that upto_split1 [of "rp_changeFloor ?st + 1" "r0 + 1" "rp_revision ?st"]
      by (cases "r0 + 1 \<le> rp_revision ?st") simp_all
    also have "\<dots> = [r0 + 1..rp_revision ?st]" by (simp add: filter_empty_conv filter_id_conv)
    finally show ?thesis .
  qed
  then show ?thesis
    using j by (auto simp: Let_def journal_ok_def changesSince_def changes_def retainedChanges_def)
qed

text \<open>
  The window of on-demand rows is bounded: after any run at most \<^verbatim>\<open>pinned.capacity\<close> rows are pinned,
  and a row of a type outside the policy is visible only while it is pinned.
\<close>

theorem replica_pins_bounded:
  assumes "config_ok cfg" "list_all (op_typed tyof) ops"
  shows "let st = replica_run cfg ops in
    (\<forall>c. pinnedCapacity cfg = Some c \<longrightarrow> length (rp_pins st) \<le> c) \<and>
    (\<forall>i e. replica_get st i = Some e \<longrightarrow> holds cfg (ent_type e) \<or> pinned st i)"
proof -
  let ?st = "replica_run cfg ops"
  have ok: "replica_ok tyof cfg ?st" and p: "pins_ok cfg ?st" using replica_run_ok [OF assms] by (simp_all add: run_ok_def)
  have "card (dom (map_of (rp_pins ?st))) = length (rp_pins ?st)"
    using pins_obj_ok [OF ok] distinct_card [of "map fst (rp_pins ?st)"] by (simp add: obj_ok_def dom_map_of_conv_image_fst)
  moreover have "holds cfg (ent_type e) \<or> pinned ?st i" if "viewOf ?st i = Some e" for i e
    using that replica_view [OF ok, of i] replica_view_own [OF ok that]
    by (auto simp: retained_def resident_row_def own_def split: option.splits if_splits)
  ultimately show ?thesis using p by (simp add: Let_def pins_ok_def replica_get_def viewOf_def)
qed

section \<open>Optimistic writes\<close>

lemma retained_cong:
  assumes "map_of (rp_entities st) i = map_of (rp_entities st') i" "rp_pins st = rp_pins st'"
    "getOr (map_of (rp_overlay st) i) [] = getOr (map_of (rp_overlay st') i) []"
  shows "retained cfg st i = retained cfg st' i"
  using assms by (simp add: retained_def resident_row_def pinned_def cong: option.case_cong)

definition unsent :: "Replica \<Rightarrow> string \<Rightarrow> bool" where
  "unsent st aid \<longleftrightarrow> (\<forall>i. \<forall>w \<in> set (getOr (map_of (rp_overlay st) i) []). ow_actionId w \<noteq> aid)"

lemma without_pushed:
  "unsent st (act_id a) \<Longrightarrow>
    without (act_id a) (getOr (map_of (rp_overlay st) i) [] @ pushed a us i) = getOr (map_of (rp_overlay st) i) []"
  by (simp add: without_def pushed_def unsent_def filter_empty_conv filter_id_conv)

lemma without_unsent: "unsent st aid \<Longrightarrow> without aid (getOr (map_of (rp_overlay st) i) []) = getOr (map_of (rp_overlay st) i) []"
  by (simp add: without_def unsent_def filter_id_conv)

text \<open>
  C24: a rejected optimistic write leaves no trace. Discarding an Action right after applying it
  optimistically gives every reader the rows it saw before, for an Action not already pending.
\<close>

theorem replica_discard_restores:
  assumes "config_ok cfg" "list_all (op_typed tyof) ops" "op_typed tyof (Optimistic a)"
    and "unsent (replica_run cfg ops) (act_id a)"
  shows "let st = replica_run cfg ops in
    replica_get (discard cfg (act_id a) (optimistic cfg a st)) = replica_get st \<and>
    replica_base (optimistic cfg a st) = replica_base st"
proof -
  let ?st = "replica_run cfg ops"
  let ?o = "optimistic cfg a ?st"
  have ok: "replica_ok tyof cfg ?st" using replica_run_ok [OF assms(1,2)] by (simp add: run_ok_def)
  have us: "\<forall>u \<in> set (act_updates a). upd_for tyof (subject_id u) u"
    using assms(3) by (simp add: op_typed_def upd_for_def list_all_iff)
  note opt = optimistic_inv [OF ok us]
  have oko: "replica_ok tyof cfg ?o" using opt(1) by (simp add: step_ok_def)
  note dis = discard_inv [OF oko, of "act_id a"]
  have okd: "replica_ok tyof cfg (discard cfg (act_id a) ?o)" using dis(1) by (simp add: step_ok_def)
  have "viewOf (discard cfg (act_id a) ?o) i = viewOf ?st i" for i
    unfolding replica_view [OF okd] replica_view [OF ok]
    by (rule retained_cong) (simp_all add: dis(2-4) opt(2-4) without_pushed [OF assms(4)])
  then show ?thesis by (simp add: Let_def replica_get_def viewOf_def replica_base_def opt(2) fun_eq_iff)
qed

text \<open>What folding a durable Update reads and writes of the base.\<close>

definition base_agrees :: "Replica \<Rightarrow> Replica \<Rightarrow> bool" where
  "base_agrees st st' \<longleftrightarrow> rp_entities st = rp_entities st' \<and> rp_pins st = rp_pins st' \<and>
     rp_orphans st = rp_orphans st' \<and> rp_inFlightOpens st = rp_inFlightOpens st'"

lemma foldBase_agrees:
  assumes "base_ok tyof cfg st" "base_ok tyof cfg st'" "upd_for tyof (subject_id u) u" "base_agrees st st'"
  shows "base_agrees (foldBase cfg u g h p st) (foldBase cfg u g h p st')"
proof -
  have f: "foreign cfg st u = foreign cfg st' u" using assms(4) by (simp add: foreign_def pinned_def base_agrees_def)
  have s: "settled st u g = settled st' u g" using assms(4) by (simp add: settled_def base_agrees_def fun_eq_iff)
  show ?thesis
    unfolding foldBase_eq [OF assms(1,3)] foldBase_eq [OF assms(2,3)] f s
    using assms(4) by (simp add: base_agrees_def split: option.splits)
qed

lemma folded_agrees:
  assumes "base_ok tyof cfg st" "base_ok tyof cfg st'" "\<forall>u \<in> set us. upd_for tyof (subject_id u) u" "base_agrees st st'"
  shows "base_agrees (folded cfg a us p st) (folded cfg a us p st')"
  using assms
proof (induction us arbitrary: st st')
  case Nil
  then show ?case by (simp add: folded_def)
next
  case (Cons u us)
  then show ?case using foldBase_ok foldBase_agrees by (auto simp: folded_def)
qed

lemma resync_agrees: "rp_orphans (resync cfg i v st) = rp_orphans st" "rp_inFlightOpens (resync cfg i v st) = rp_inFlightOpens st"
  by (simp_all add: resync_def Let_def reconcileIndex_def releasePin_eq split: option.splits)

lemma resyncAll_agrees:
  "rp_orphans (resyncAll cfg before ids st) = rp_orphans st \<and> rp_inFlightOpens (resyncAll cfg before ids st) = rp_inFlightOpens st"
  unfolding resyncAll_def by (induction ids arbitrary: st) (simp_all add: resync_agrees)

lemma optimistic_agrees:
  "rp_orphans (optimistic cfg a st) = rp_orphans st" "rp_inFlightOpens (optimistic cfg a st) = rp_inFlightOpens st"
proof -
  let ?step = "\<lambda>u (before, touched, st). (rememberView st (subject_id u) before, set_add touched (subject_id u), pushWrite a u st)"
  have "rp_orphans (snd (snd (fold ?step us acc))) = rp_orphans (snd (snd acc)) \<and>
      rp_inFlightOpens (snd (snd (fold ?step us acc))) = rp_inFlightOpens (snd (snd acc))" for us acc
    by (induction us arbitrary: acc) (auto simp: pushWrite_overlay)
  from this [of "act_updates a" "([], [], st)"]
  show "rp_orphans (optimistic cfg a st) = rp_orphans st" "rp_inFlightOpens (optimistic cfg a st) = rp_inFlightOpens st"
    by (auto simp: optimistic_def notify_def resyncAll_agrees split: prod.split)
qed

text \<open>
  C23: the echo of an optimistic write replaces it. Once the server's copy of a pending Action is
  ingested, readers see the rows they would see had the Action never been applied optimistically, and
  the durable rows are the same.
\<close>

theorem replica_echo_settles:
  assumes "config_ok cfg" "list_all (op_typed tyof) ops" "op_typed tyof (Optimistic a)" "op_typed tyof (Ingest a delta p)"
    and "unsent (replica_run cfg ops) (act_id a)"
  shows "let st = replica_run cfg ops in
    replica_get (ingest cfg a delta p (optimistic cfg a st)) = replica_get (ingest cfg a delta p st) \<and>
    replica_base (ingest cfg a delta p (optimistic cfg a st)) = replica_base (ingest cfg a delta p st)"
proof -
  let ?st = "replica_run cfg ops"
  let ?o = "optimistic cfg a ?st"
  have ok: "replica_ok tyof cfg ?st" using replica_run_ok [OF assms(1,2)] by (simp add: run_ok_def)
  have us: "\<forall>u \<in> set (act_updates a). upd_for tyof (subject_id u) u"
    using assms(3) by (simp add: op_typed_def upd_for_def list_all_iff)
  have ds: "\<forall>u \<in> set delta. upd_for tyof (subject_id u) u"
    using assms(4) by (simp add: op_typed_def upd_for_def list_all_iff)
  note opt = optimistic_inv [OF ok us] optimistic_agrees
  have oko: "replica_ok tyof cfg ?o" using opt(1) by (simp add: step_ok_def)
  note in1 = ingest_inv [OF ok ds, of a p] and in2 = ingest_inv [OF oko ds, of a p]
  obtain s1 where s1: "base_ok tyof cfg s1" "rp_entities s1 = rp_entities ?st" "rp_pins s1 = rp_pins ?st"
      "\<forall>i. getOr (map_of (rp_overlay s1) i) [] = without (act_id a) (getOr (map_of (rp_overlay ?st) i) [])"
      "rp_orphans s1 = rp_orphans ?st" "rp_inFlightOpens s1 = rp_inFlightOpens ?st"
      "rp_entities (ingest cfg a delta p ?st) = rp_entities (folded cfg a delta p s1)"
      "rp_overlay (ingest cfg a delta p ?st) = rp_overlay s1" "rp_pins (ingest cfg a delta p ?st) = rp_pins ?st"
    using in1(2) by blast
  obtain s2 where s2: "base_ok tyof cfg s2" "rp_entities s2 = rp_entities ?o" "rp_pins s2 = rp_pins ?o"
      "\<forall>i. getOr (map_of (rp_overlay s2) i) [] = without (act_id a) (getOr (map_of (rp_overlay ?o) i) [])"
      "rp_orphans s2 = rp_orphans ?o" "rp_inFlightOpens s2 = rp_inFlightOpens ?o"
      "rp_entities (ingest cfg a delta p ?o) = rp_entities (folded cfg a delta p s2)"
      "rp_overlay (ingest cfg a delta p ?o) = rp_overlay s2" "rp_pins (ingest cfg a delta p ?o) = rp_pins ?o"
    using in2(2) by blast
  have "base_agrees s1 s2" using s1 s2 opt by (simp add: base_agrees_def)
  from folded_agrees [OF s1(1) s2(1) ds this]
  have e: "rp_entities (ingest cfg a delta p ?o) = rp_entities (ingest cfg a delta p ?st)"
    unfolding s1(7) s2(7) by (simp add: base_agrees_def)
  have ok1: "replica_ok tyof cfg (ingest cfg a delta p ?st)" and ok2: "replica_ok tyof cfg (ingest cfg a delta p ?o)"
    using in1(1) in2(1) by (simp_all add: step_ok_def)
  have "viewOf (ingest cfg a delta p ?o) i = viewOf (ingest cfg a delta p ?st) i" for i
    unfolding replica_view [OF ok1] replica_view [OF ok2]
    by (rule retained_cong)
      (simp_all add: e s1(8,9) s2(8,9) s1(4) s2(4) opt(3,4) without_pushed [OF assms(5)] without_unsent [OF assms(5)])
  then show ?thesis by (simp add: Let_def replica_get_def viewOf_def replica_base_def e fun_eq_iff)
qed

section \<open>Records\<close>

lemma revision_nonneg:
  assumes "config_ok cfg" "list_all (op_typed tyof) ops"
  shows "0 \<le> rp_revision (replica_run cfg ops)"
  using assms(2)
proof (induction ops rule: rev_induct)
  case Nil
  then show ?case by (simp add: replica_run_def createReplica_def)
next
  case (snoc op ops)
  have "rp_revision (replica_run cfg ops) \<le> rp_revision (replica_run cfg (ops @ [op]))"
    using replica_step_inv(3) [OF assms(1) replica_run_ok [OF assms(1), of tyof ops], of op] snoc.prems
    by (simp add: replica_run_def)
  with snoc show ?case by simp
qed

lemma oldest_le:
  fixes os :: "OrphanUpdate list" and acc :: "int option"
  defines "r \<equiv> fold (\<lambda>o' oldest. Some (case oldest of None \<Rightarrow> or_position o' | Some p \<Rightarrow> min p (or_position o'))) os acc"
  shows "(\<forall>o' \<in> set os. \<exists>p. r = Some p \<and> p \<le> or_position o') \<and> (\<forall>q. acc = Some q \<longrightarrow> (\<exists>p. r = Some p \<and> p \<le> q))"
  unfolding r_def
proof (induction os arbitrary: acc)
  case Nil
  then show ?case by auto
next
  case (Cons x os)
  let ?acc = "Some (case acc of None \<Rightarrow> or_position x | Some p \<Rightarrow> min p (or_position x))"
  have "\<exists>p. fold (\<lambda>o' oldest. Some (case oldest of None \<Rightarrow> or_position o' | Some p \<Rightarrow> min p (or_position o'))) os ?acc = Some p \<and>
      p \<le> or_position x \<and> (\<forall>q. acc = Some q \<longrightarrow> p \<le> q)"
    using Cons [of ?acc] by (cases acc) fastforce+
  then show ?case using Cons [of ?acc] by auto
qed

lemma toRecord_typed:
  assumes "base_ok tyof cfg st"
  shows "record_typed tyof (toRecord cfg st)"
    "(\<exists>x \<in> set (rec_entities (toRecord cfg st)). holds cfg (ent_type x) \<and> ent_id x = i \<and> e = withAdoptedMapFields x) \<longleftrightarrow>
       (\<exists>b. map_of (rp_entities st) i = Some b \<and> holds cfg (ent_type b) \<and> e = withAdoptedMapFields (withWireMapFields b))"
proof -
  have E: "obj_ok (rp_entities st)" using assms by (simp add: base_ok_def)
  have own: "own tyof k b" if "(k, b) \<in> set (rp_entities st)" for k b
    using that assms E by (auto simp: base_ok_def obj_ok_def)
  have wire: "ent_id (withWireMapFields b) = ent_id b" "ent_type (withWireMapFields b) = ent_type b"
    "obj_ok (ent_fields b) \<Longrightarrow> obj_ok (ent_fields (withWireMapFields b))" for b
    by (simp_all add: withWireMapFields_def toWireMapFields_map obj_ok_map_values)
  have ids: "map ent_id (map snd (rp_entities st)) = map fst (rp_entities st)"
    using own by (auto simp: own_def)
  have "distinct (map ent_id (map snd (rp_entities st)))" unfolding ids using E by (simp add: obj_ok_def)
  then have "distinct (map ent_id (filter (\<lambda>row. holds cfg (ent_type row)) (map snd (rp_entities st))))"
    by (rule distinct_map_filter)
  then show "record_typed tyof (toRecord cfg st)"
    using own by (auto simp: record_typed_def toRecord_def comp_def wire own_def)
  have "map_of (rp_entities st) i = Some b \<longleftrightarrow> b \<in> snd ` set (rp_entities st) \<and> ent_id b = i" for b
    using E own by (force simp: obj_ok_def own_def)
  then show "(\<exists>x \<in> set (rec_entities (toRecord cfg st)). holds cfg (ent_type x) \<and> ent_id x = i \<and> e = withAdoptedMapFields x) \<longleftrightarrow>
       (\<exists>b. map_of (rp_entities st) i = Some b \<and> holds cfg (ent_type b) \<and> e = withAdoptedMapFields (withWireMapFields b))"
    by (auto simp: toRecord_def wire)
qed


section \<open>Sample runs\<close>

definition sample_link :: Update where
  "sample_link = \<lparr>upd_id = ''u_1'', subject_id = ''r_1'', subject_type = ''relationship'', upd_method = Put,
     upd_data = Some [(''field'', Leaf (JStr ''posts'') ''u_1'' (Some 1)), (''type'', Leaf (JStr ''author'') ''u_1'' (Some 1)),
       (''source_id'', Leaf (JStr ''p_1'') ''u_1'' (Some 1)), (''target_id'', Leaf (JStr ''t_1'') ''u_1'' (Some 1))]\<rparr>"

definition sample_config :: ReplicaConfig where
  "sample_config = createConfig None None None None (=)"

definition sample_run :: "replica_op list" where
  "sample_run = [Optimistic (sample_action ''a_1'' [sample_link])]"

lemma sample_run_ok: "config_ok sample_config" "list_all (op_typed (\<lambda>_. ''relationship'')) sample_run"
  by (simp_all add: sample_config_def createConfig_ok sample_run_def op_typed_def sample_action_def sample_link_def
      readFields_def obj_ok_def)

lemma sample_run_state:
  "getOr (map_of (rp_overlay (replica_run sample_config sample_run)) i) [] = pushed (sample_action ''a_1'' [sample_link]) [sample_link] i"
  "rp_entities (replica_run sample_config sample_run) = []"
proof -
  have ok: "replica_ok (\<lambda>_. ''relationship'') sample_config createReplica" using createReplica_ok by (simp add: run_ok_def)
  have us: "\<forall>u \<in> set (act_updates (sample_action ''a_1'' [sample_link])). upd_for (\<lambda>_. ''relationship'') (subject_id u) u"
    by (simp add: sample_action_def sample_link_def upd_for_def readFields_def obj_ok_def)
  have run: "replica_run sample_config sample_run = optimistic sample_config (sample_action ''a_1'' [sample_link]) createReplica"
    by (simp add: replica_run_def sample_run_def replica_step_def)
  show "getOr (map_of (rp_overlay (replica_run sample_config sample_run)) i) [] = pushed (sample_action ''a_1'' [sample_link]) [sample_link] i"
    "rp_entities (replica_run sample_config sample_run) = []"
    unfolding run using optimistic_inv(2,4) [OF ok us] by (simp_all add: createReplica_def) (simp add: sample_action_def)
qed

lemma sample_run_unsent: "unsent (replica_run sample_config sample_run) ''a_2''"
  by (simp add: unsent_def sample_run_state pushed_def sample_action_def)

lemma sample_run_view:
  "replica_get (replica_run sample_config sample_run) i = (if i = ''r_1'' then Some \<lparr>ent_id = ''r_1'', ent_type = ''relationship'',
     ent_fields = map (\<lambda>(n, v). (n, Plain v)) (the (upd_data sample_link)), created_hlc = 5, updated_hlc = 5, deleted_hlc = None,
     last_gsn = 0\<rparr> else None)"
proof -
  let ?st = "replica_run sample_config sample_run"
  have ok: "replica_ok (\<lambda>_. ''relationship'') sample_config ?st"
    using replica_run_ok [OF sample_run_ok] by (simp add: run_ok_def)
  have held: "holds sample_config t" for t by (simp add: sample_config_def createConfig_def holdAll_def)
  have "replica_get ?st i = retained sample_config ?st i"
    using replica_view [OF ok] by (simp add: replica_get_def viewOf_def)
  also have "\<dots> = compose None (pushed (sample_action ''a_1'' [sample_link]) [sample_link] i)"
    using held by (simp add: retained_def sample_run_state resident_row_def split: option.splits)
  finally show ?thesis
    by (simp only:) (simp add: compose_def pushed_def sample_action_def sample_link_def applyUpdate_def readFields_def
        adoptMapFields_def plainFields_def adoptMapField_def Let_def)
qed

theorem replica_iterate_view_witness:
  "set (iterate (replica_run sample_config sample_run) ''relationship'') =
     {e. \<exists>i. replica_get (replica_run sample_config sample_run) i = Some e \<and> ent_type e = ''relationship''}"
  using replica_iterate_view [OF sample_run_ok] by (simp add: Let_def)

theorem replica_relationships_view_witness:
  "relationships (replica_run sample_config sample_run) ''posts'' ''author'' None (Some ''t_1'') = [''p_1'']"
proof -
  let ?st = "replica_run sample_config sample_run"
  have clean: "\<forall>i e. replica_get ?st i = Some e \<longrightarrow> clean_row e"
    by (simp add: sample_run_view sample_link_def clean_row_def readStringField_def clean_def NUL_def)
  have "{src. \<exists>i e. replica_get ?st i = Some e \<and> links e ''posts'' ''author'' src ''t_1''} = {''p_1''}"
    by (auto simp: sample_run_view sample_link_def links_def readStringField_def isFieldLeaf_def isFieldMap_def RELATIONSHIP_ENTITY_TYPE_def)
  with replica_relationships_view [OF sample_run_ok _ _ _ clean, where as = "''posts''" and ty = "''author''" and x = "''t_1''" and any = None]
  show ?thesis by (simp add: Let_def NUL_def MEMBERSHIP_ACCESSOR_def)
qed


theorem replica_journal_gapless_witness:
  "rp_changeFloor (replica_run sample_config sample_run) \<le> rp_revision (replica_run sample_config sample_run)"
  using replica_journal_gapless [OF sample_run_ok] by (simp add: Let_def)

theorem replica_pins_bounded_witness: "length (rp_pins (replica_run sample_config sample_run)) \<le> 16"
  using replica_pins_bounded [OF sample_run_ok]
  by (simp add: Let_def sample_config_def createConfig_def capacityOf_def DEFAULT_PINNED_CAPACITY_def)

theorem replica_discard_restores_witness:
  "replica_get (discard sample_config ''a_2'' (optimistic sample_config (sample_action ''a_2'' [sample_link]) (replica_run sample_config sample_run))) =
   replica_get (replica_run sample_config sample_run)"
  using replica_discard_restores [OF sample_run_ok, of "sample_action ''a_2'' [sample_link]"] sample_run_unsent
  by (simp add: Let_def op_typed_def sample_action_def sample_link_def readFields_def obj_ok_def)

theorem replica_echo_settles_witness:
  "let a = sample_action ''a_2'' [sample_link]; st = replica_run sample_config sample_run in
   replica_get (ingest sample_config a [sample_link] 1 (optimistic sample_config a st)) = replica_get (ingest sample_config a [sample_link] 1 st)"
  using replica_echo_settles [OF sample_run_ok, of "sample_action ''a_2'' [sample_link]" "[sample_link]" 1] sample_run_unsent
  by (simp add: Let_def op_typed_def sample_action_def sample_link_def readFields_def obj_ok_def)


end
