(* ===== verification/QueryPlan.thy ===== *)
theory QueryPlan
  imports Complex_Main ReplicaProps "HOL-Library.Monad_Syntax"
begin

text \<open>
  Queries over the replica (packages/client/src/sync/query.ts, query-plan.ts and query-execute.ts): the query
  value, its plan, and the executor that folds the plan over the replica's rows and adjacency indices.

  An executor is a record of its reads; \<^const>\<open>None\<close> is the error a candidate-only executor throws for an index
  read, and then the result of the run. How a field reads for ordering (\<open>resolveField\<close>) is an argument, as it is
  in the code. So is the JavaScript runtime: \<^verbatim>\<open>localeCompare\<close>, the identity of two arrays or objects under \<^verbatim>\<open>===\<close>
  and the value of a number literal that is not an integer.
\<close>

section \<open>Queries and plans\<close>

datatype Predicate =
    FieldPredicate string json
  | RelationshipPredicate string string "string list option"
  | MembershipPredicate "string list option"

datatype Direction = Asc | Desc

record QueryOrder =
  qo_field :: string
  qo_direction :: Direction

datatype JoinDirection = Forward | Reverse
datatype JoinCardinality = One | Many

datatype Join =
    RelationshipJoin string string string JoinDirection JoinCardinality
  | MembershipJoin string string

record Query =
  qy_source :: string
  qy_groups :: "Predicate list list"
  qy_order :: "QueryOrder option"
  qy_limit :: "int option"
  qy_joins :: "Join list"

definition emptyQuery :: "string \<Rightarrow> Query" where
  "emptyQuery source = \<lparr>qy_source = source, qy_groups = [], qy_order = None, qy_limit = None, qy_joins = []\<rparr>"

text \<open>\<^const>\<open>None\<close> is the validation error for a filter group that is not an object.\<close>

definition filterToGroups :: "json list option \<Rightarrow> Predicate list list option" where
  "filterToGroups flt =
     (let groups = getOr flt [] in
      if list_ex (\<lambda>g. case g of JObj m \<Rightarrow> False | _ \<Rightarrow> True) groups then None
      else if list_ex (\<lambda>g. g = JObj []) groups then Some []
      else Some (map (\<lambda>g. case g of JObj m \<Rightarrow> map (\<lambda>(field, v). FieldPredicate field v) m | _ \<Rightarrow> []) groups))"

definition is_relationship :: "Predicate \<Rightarrow> bool" where
  "is_relationship p = (case p of RelationshipPredicate _ _ _ \<Rightarrow> True | _ \<Rightarrow> False)"

definition hasPredicateKind :: "Query \<Rightarrow> (Predicate \<Rightarrow> bool) \<Rightarrow> bool" where
  "hasPredicateKind query kind = list_ex (list_ex kind) (qy_groups query)"

definition is_relationship_join :: "Join \<Rightarrow> bool" where
  "is_relationship_join j = (case j of RelationshipJoin _ _ _ _ _ \<Rightarrow> True | _ \<Rightarrow> False)"

definition hasJoinKind :: "Query \<Rightarrow> (Join \<Rightarrow> bool) \<Rightarrow> bool" where
  "hasJoinKind query kind = list_ex kind (qy_joins query)"

definition join_target :: "Join \<Rightarrow> string" where
  "join_target j = (case j of RelationshipJoin _ _ target _ _ \<Rightarrow> target | MembershipJoin _ target \<Rightarrow> target)"

datatype PlanPredicate =
    Adjacency string string "string list option"
  | Membership "string list option"
  | Filter string json

datatype PlanOp =
    Scan string
  | Select "PlanPredicate list"
  | Order "string option" Direction
  | Limit int

record Plan =
  pl_ops :: "PlanOp list"
  pl_joins :: "Join list"
  pl_readTypes :: "string list"

definition toPlanPredicate :: "Predicate \<Rightarrow> PlanPredicate" where
  "toPlanPredicate p = (case p of
     FieldPredicate field v \<Rightarrow> Filter field v
   | RelationshipPredicate as' type anyOf \<Rightarrow> Adjacency as' type anyOf
   | MembershipPredicate anyOf \<Rightarrow> Membership anyOf)"

definition isIndexed :: "PlanPredicate \<Rightarrow> bool" where
  "isIndexed p = (case p of Filter _ _ \<Rightarrow> False | _ \<Rightarrow> True)"

definition orderPredicates :: "PlanPredicate list \<Rightarrow> PlanPredicate list" where
  "orderPredicates predicates = filter isIndexed predicates @ filter (\<lambda>p. \<not> isIndexed p) predicates"

definition isReplicaBacked :: "Query \<Rightarrow> bool" where
  "isReplicaBacked query \<longleftrightarrow> qy_source query \<noteq> []"

definition readTypesFor :: "Query \<Rightarrow> string list" where
  "readTypesFor query =
     (let types = fold (\<lambda>j s. set_add s (join_target j)) (qy_joins query) [qy_source query];
          types = (if hasPredicateKind query is_relationship \<or> hasJoinKind query is_relationship_join
                   then set_add types RELATIONSHIP_ENTITY_TYPE else types)
      in if isReplicaBacked query then set_add types MEMBERSHIP_ENTITY_TYPE else types)"

definition planQuery :: "Query \<Rightarrow> Plan" where
  "planQuery query =
     \<lparr>pl_ops = [Scan (qy_source query)] @
        map (\<lambda>group. Select (orderPredicates (map toPlanPredicate group))) (filter (\<lambda>group. group \<noteq> []) (qy_groups query)) @
        [Order (map_option qo_field (qy_order query)) (case qy_order query of None \<Rightarrow> Asc | Some ord \<Rightarrow> qo_direction ord)] @
        (case qy_limit query of None \<Rightarrow> [] | Some n \<Rightarrow> if n \<ge> 0 then [Limit n] else []),
      pl_joins = qy_joins query, pl_readTypes = readTypesFor query\<rparr>"

section \<open>Execution\<close>

record PlanExecutor =
  px_scan :: "string \<Rightarrow> Entity list"
  px_get :: "string \<Rightarrow> Entity option"
  px_relationships :: "string \<Rightarrow> string \<Rightarrow> string \<Rightarrow> string list option"
  px_memberships :: "string \<Rightarrow> string list option"

definition createReplicaExecutor :: "Replica \<Rightarrow> PlanExecutor" where
  "createReplicaExecutor st = \<lparr>px_scan = iterate st, px_get = replica_get st,
     px_relationships = (\<lambda>as' type targetId. Some (relationships st as' type None (Some targetId))),
     px_memberships = (\<lambda>groupId. Some (memberships st (Some groupId) None))\<rparr>"

definition createRowsExecutor :: "Entity list \<Rightarrow> PlanExecutor" where
  "createRowsExecutor rows = \<lparr>px_scan = (\<lambda>_. rows), px_get = (\<lambda>i. List.find (\<lambda>row. ent_id row = i) rows),
     px_relationships = (\<lambda>_ _ _. None), px_memberships = (\<lambda>_. None)\<rparr>"

definition is_primitive :: "json \<Rightarrow> bool" where
  "is_primitive v = (case v of JArr _ \<Rightarrow> False | JObj _ \<Rightarrow> False | _ \<Rightarrow> True)"

record js_runtime =
  rt_localeCompare :: "string \<Rightarrow> string \<Rightarrow> int"
  rt_identical :: "json \<Rightarrow> json \<Rightarrow> bool"
  rt_decimal :: "string \<Rightarrow> rat"

definition strict_equal :: "js_runtime \<Rightarrow> json \<Rightarrow> json \<Rightarrow> bool" where
  "strict_equal js a b = (if is_primitive a \<or> is_primitive b then a = b else rt_identical js a b)"

definition number_value :: "js_runtime \<Rightarrow> json \<Rightarrow> rat option" where
  "number_value js v = (case v of JNum n \<Rightarrow> Some (of_int n) | JDec d \<Rightarrow> Some (rt_decimal js d) | _ \<Rightarrow> None)"

definition fieldEntry :: "Entity \<Rightarrow> string \<Rightarrow> field_value option" where
  "fieldEntry entity field = map_option wireValue (map_of (ent_fields entity) field)"

definition matchesFieldValue :: "js_runtime \<Rightarrow> field_value option \<Rightarrow> json \<Rightarrow> bool" where
  "matchesFieldValue js field expected = (case field of
     None \<Rightarrow> expected = JNull
   | Some (FMap m) \<Rightarrow> False
   | Some (Leaf v u h) \<Rightarrow> if expected = JNull then v = JNull else strict_equal js v expected)"

text \<open>\<^verbatim>\<open>String(v)\<close>\<close>

fun js_string :: "json \<Rightarrow> string" where
  "js_string JNull = ''null''"
| "js_string (JBool b) = (if b then ''true'' else ''false'')"
| "js_string (JNum n) = format_hlc n"
| "js_string (JDec d) = d"
| "js_string (JStr s) = s"
| "js_string (JArr xs) = concat (case map (\<lambda>x. case x of JNull \<Rightarrow> [] | _ \<Rightarrow> js_string x) xs of
     [] \<Rightarrow> [] | y # ys \<Rightarrow> y # map (\<lambda>z. CHR '','' # z) ys)"
| "js_string (JObj m) = ''[object Object]''"

definition js_compare_strings :: "js_runtime \<Rightarrow> Direction \<Rightarrow> string \<Rightarrow> string \<Rightarrow> int" where
  "js_compare_strings js direction a b = (if direction = Asc then rt_localeCompare js a b else rt_localeCompare js b a)"

text \<open>\<^verbatim>\<open>sort\<close> reads the sign of a comparator's result only, so a difference of numbers is modelled by its sign.\<close>

definition compareFieldValues :: "js_runtime \<Rightarrow> json option \<Rightarrow> json option \<Rightarrow> Direction \<Rightarrow> int" where
  "compareFieldValues js av bv direction = (case (av, bv) of
     (None, None) \<Rightarrow> 0
   | (None, Some _) \<Rightarrow> 1
   | (Some _, None) \<Rightarrow> -1
   | (Some a, Some b) \<Rightarrow>
       if strict_equal js a b then 0
       else (case (number_value js a, number_value js b) of
           (Some x, Some y) \<Rightarrow> if direction = Asc then \<lfloor>sgn (x - y)\<rfloor> else \<lfloor>sgn (y - x)\<rfloor>
         | _ \<Rightarrow> js_compare_strings js direction (js_string a) (js_string b)))"

definition compareEntities ::
  "js_runtime \<Rightarrow> (Entity \<Rightarrow> string \<Rightarrow> json option) \<Rightarrow> string option \<Rightarrow> Direction \<Rightarrow> Entity \<Rightarrow> Entity \<Rightarrow> int" where
  "compareEntities js resolveField field direction a b = (case field of
     None \<Rightarrow> js_compare_strings js direction (ent_id a) (ent_id b)
   | Some f \<Rightarrow>
       (let primary = compareFieldValues js (resolveField a f) (resolveField b f) direction
        in if primary = 0 then rt_localeCompare js (ent_id a) (ent_id b) else primary))"

fun indexHits :: "string list \<Rightarrow> (string \<Rightarrow> string list option) \<Rightarrow> string list \<Rightarrow> string list option" where
  "indexHits ids lookup [] = Some ids"
| "indexHits ids lookup (i # rest) = do {
     hits \<leftarrow> lookup i;
     indexHits (fold (\<lambda>hit s. set_add s hit) hits ids) lookup rest
   }"

definition predicateHits :: "PlanExecutor \<Rightarrow> PlanPredicate \<Rightarrow> string list option" where
  "predicateHits executor p = (case p of
     Adjacency as' type anyOf \<Rightarrow> indexHits [] (px_relationships executor as' type) (getOr anyOf [])
   | Membership anyOf \<Rightarrow> indexHits [] (px_memberships executor) (getOr anyOf [])
   | Filter _ _ \<Rightarrow> Some [])"

fun collect_hits :: "PlanExecutor \<Rightarrow> PlanPredicate list \<Rightarrow> string list list option" where
  "collect_hits executor [] = Some []"
| "collect_hits executor (p # ps) = do {
     hits \<leftarrow> predicateHits executor p;
     rest \<leftarrow> collect_hits executor ps;
     Some (hits # rest)
   }"

definition intersectHits :: "PlanExecutor \<Rightarrow> PlanPredicate list \<Rightarrow> string list option" where
  "intersectHits executor predicates = do {
     hits \<leftarrow> collect_hits executor predicates;
     Some (case hits of [] \<Rightarrow> [] | head # rest \<Rightarrow> foldl (\<lambda>ids next. filter (\<lambda>i. i \<in> set next) ids) head rest)
   }"

definition rowsForIds :: "PlanExecutor \<Rightarrow> string \<Rightarrow> string list \<Rightarrow> Entity list" where
  "rowsForIds executor type ids = List.map_filter (\<lambda>i. case px_get executor i of
     None \<Rightarrow> None | Some row \<Rightarrow> if ent_type row = type \<and> deleted_hlc row = None then Some row else None) ids"

record ExecState =
  xs_sourceType :: string
  xs_scanRows :: "Entity list option"
  xs_selecting :: bool
  xs_selected :: "Entity obj"
  xs_narrowed :: "Entity list option"

definition initial_exec :: ExecState where
  "initial_exec = \<lparr>xs_sourceType = [], xs_scanRows = None, xs_selecting = False, xs_selected = [], xs_narrowed = None\<rparr>"

definition scanned :: "PlanExecutor \<Rightarrow> ExecState \<Rightarrow> ExecState \<times> Entity list" where
  "scanned executor st = (case xs_scanRows st of
     Some rows \<Rightarrow> (st, rows)
   | None \<Rightarrow> (let rows = filter (\<lambda>row. deleted_hlc row = None) (px_scan executor (xs_sourceType st))
              in (st\<lparr>xs_scanRows := Some rows\<rparr>, rows)))"

definition current :: "PlanExecutor \<Rightarrow> ExecState \<Rightarrow> ExecState \<times> Entity list" where
  "current executor st = (case xs_narrowed st of
     Some rows \<Rightarrow> (st, rows)
   | None \<Rightarrow> if xs_selecting st then (st, map snd (xs_selected st)) else scanned executor st)"

definition selectGroup ::
  "js_runtime \<Rightarrow> PlanExecutor \<Rightarrow> PlanPredicate list \<Rightarrow> ExecState \<Rightarrow> (ExecState \<times> Entity list) option" where
  "selectGroup js executor predicates st = do {
     let indexed = filter isIndexed predicates;
     (st, seed) \<leftarrow> (if indexed = [] then Some (scanned executor st)
       else do { ids \<leftarrow> intersectHits executor indexed; Some (st, rowsForIds executor (xs_sourceType st) ids) });
     Some (st, foldl (\<lambda>rows p. case p of
         Filter field v \<Rightarrow> filter (\<lambda>row. matchesFieldValue js (fieldEntry row field) v) rows
       | _ \<Rightarrow> rows) seed (filter (\<lambda>p. \<not> isIndexed p) predicates))
   }"

type_synonym row_order = "string option \<Rightarrow> Direction \<Rightarrow> Entity \<Rightarrow> Entity \<Rightarrow> int"

definition exec_op :: "js_runtime \<Rightarrow> row_order \<Rightarrow> PlanExecutor \<Rightarrow> PlanOp \<Rightarrow> ExecState \<Rightarrow> ExecState option" where
  "exec_op js cmp executor op st = (case op of
     Scan type \<Rightarrow> Some (st\<lparr>xs_sourceType := type, xs_selecting := False, xs_selected := [], xs_narrowed := None\<rparr>)
   | Select predicates \<Rightarrow> do {
       (st, rows) \<leftarrow> selectGroup js executor predicates (st\<lparr>xs_selecting := True, xs_narrowed := None\<rparr>);
       Some (st\<lparr>xs_selected := fold (\<lambda>row m. if map_of m (ent_id row) = None then obj_set m (ent_id row) row else m) rows (xs_selected st)\<rparr>)
     }
   | Order field direction \<Rightarrow>
       (let (st, rows) = current executor st in Some (st\<lparr>xs_narrowed := Some (sort_by (cmp field direction) rows)\<rparr>))
   | Limit n \<Rightarrow> (let (st, rows) = current executor st in Some (st\<lparr>xs_narrowed := Some (take (nat n) rows)\<rparr>)))"

fun exec_ops :: "js_runtime \<Rightarrow> row_order \<Rightarrow> PlanExecutor \<Rightarrow> PlanOp list \<Rightarrow> ExecState \<Rightarrow> ExecState option" where
  "exec_ops js cmp executor [] st = Some st"
| "exec_ops js cmp executor (op # ops) st = exec_op js cmp executor op st \<bind> exec_ops js cmp executor ops"

definition executePlan ::
  "js_runtime \<Rightarrow> (Entity \<Rightarrow> string \<Rightarrow> json option) \<Rightarrow> Plan \<Rightarrow> PlanExecutor \<Rightarrow> Entity list option" where
  "executePlan js resolveField plan executor =
     map_option (\<lambda>st. snd (current executor st))
       (exec_ops js (compareEntities js resolveField) executor (pl_ops plan) initial_exec)"

section \<open>What a query asks for\<close>

text \<open>
  The meaning of a query, over the live rows of its source: \<open>link as t x\<close> are the ids with a live edge to \<open>x\<close> and
  \<open>member g\<close> the ids in group \<open>g\<close>. The groups are a disjunction of conjunctions; empty groups do not count.
\<close>

definition pred_matches ::
  "js_runtime \<Rightarrow> (string \<Rightarrow> string \<Rightarrow> string \<Rightarrow> string set) \<Rightarrow> (string \<Rightarrow> string set) \<Rightarrow> PlanPredicate \<Rightarrow> Entity \<Rightarrow> bool" where
  "pred_matches js link member p row = (case p of
     Adjacency as' type anyOf \<Rightarrow> \<exists>x \<in> set (getOr anyOf []). ent_id row \<in> link as' type x
   | Membership anyOf \<Rightarrow> \<exists>g \<in> set (getOr anyOf []). ent_id row \<in> member g
   | Filter field v \<Rightarrow> matchesFieldValue js (fieldEntry row field) v)"

definition query_matches ::
  "js_runtime \<Rightarrow> (string \<Rightarrow> string \<Rightarrow> string \<Rightarrow> string set) \<Rightarrow> (string \<Rightarrow> string set) \<Rightarrow> Query \<Rightarrow> Entity \<Rightarrow> bool" where
  "query_matches js link member query row \<longleftrightarrow>
     (\<forall>g \<in> set (qy_groups query). g = []) \<or>
     (\<exists>g \<in> set (qy_groups query). g \<noteq> [] \<and> (\<forall>p \<in> set g. pred_matches js link member (toPlanPredicate p) row))"

definition limited :: "int option \<Rightarrow> 'a list \<Rightarrow> 'a list" where
  "limited limit rows = (case limit of None \<Rightarrow> rows | Some n \<Rightarrow> if n \<ge> 0 then take (nat n) rows else rows)"

abbreviation live_row :: "Entity \<Rightarrow> bool" where
  "live_row row \<equiv> deleted_hlc row = None"

section \<open>One select group\<close>

lemma filters_fold:
  "foldl (\<lambda>rows p. case p of Filter field v \<Rightarrow> filter (\<lambda>row. matchesFieldValue js (fieldEntry row field) v) rows | _ \<Rightarrow> rows) seed
     (filter (\<lambda>p. \<not> isIndexed p) ps) =
   filter (\<lambda>row. \<forall>p \<in> set ps. \<not> isIndexed p \<longrightarrow> pred_matches js link member p row) seed"
  by (induction ps arbitrary: seed) (auto simp: isIndexed_def pred_matches_def conj_commute split: PlanPredicate.splits intro!: filter_cong)

lemma selectGroup_filters:
  "selectGroup js executor ps st = do {
     (st, seed) \<leftarrow> (if filter isIndexed ps = [] then Some (scanned executor st)
       else do { ids \<leftarrow> intersectHits executor (filter isIndexed ps); Some (st, rowsForIds executor (xs_sourceType st) ids) });
     Some (st, filter (\<lambda>row. \<forall>p \<in> set ps. \<not> isIndexed p \<longrightarrow> pred_matches js link member p row) seed)
   }"
  unfolding selectGroup_def Let_def filters_fold [where link = link and member = member] ..

text \<open>The scan is read at most once: the cache holds nothing, or the live rows of the source type.\<close>

definition scan_cached :: "PlanExecutor \<Rightarrow> string \<Rightarrow> ExecState \<Rightarrow> bool" where
  "scan_cached executor t st \<longleftrightarrow> xs_sourceType st = t \<and>
     (xs_scanRows st = None \<or> xs_scanRows st = Some (filter live_row (px_scan executor t)))"

lemma scanned_rows:
  assumes "scan_cached executor t st"
  shows "\<exists>c. scanned executor st = (st\<lparr>xs_scanRows := c\<rparr>, filter live_row (px_scan executor t)) \<and>
    scan_cached executor t (st\<lparr>xs_scanRows := c\<rparr>)"
  using assms by (cases st; cases "xs_scanRows st") (auto simp: scanned_def scan_cached_def Let_def)

text \<open>A group is answered when its rows are the matching ones and only the scan cache has changed.\<close>

definition answers_group :: "js_runtime \<Rightarrow> PlanExecutor \<Rightarrow> string \<Rightarrow> (Entity \<Rightarrow> bool) \<Rightarrow> Entity set \<Rightarrow> PlanPredicate list \<Rightarrow> bool" where
  "answers_group js executor t M L ps \<longleftrightarrow> (\<forall>st. scan_cached executor t st \<longrightarrow>
     (\<exists>c rows. selectGroup js executor ps st = Some (st\<lparr>xs_scanRows := c\<rparr>, rows) \<and>
       scan_cached executor t (st\<lparr>xs_scanRows := c\<rparr>) \<and> set rows = {e \<in> L. M e}))"

lemma filter_group_answered:
  assumes "list_all (\<lambda>p. \<not> isIndexed p) ps"
  shows "answers_group js executor t (\<lambda>e. \<forall>p \<in> set ps. pred_matches js link member p e)
    {e \<in> set (px_scan executor t). live_row e} ps"
  unfolding answers_group_def
proof (intro allI impI)
  fix st
  assume "scan_cached executor t st"
  from scanned_rows [OF this] obtain c where
    c: "scanned executor st = (st\<lparr>xs_scanRows := c\<rparr>, filter live_row (px_scan executor t))" "scan_cached executor t (st\<lparr>xs_scanRows := c\<rparr>)"
    by blast
  have none: "filter isIndexed ps = []" and all: "\<forall>p \<in> set ps. \<not> isIndexed p" using assms by (auto simp: list_all_iff filter_empty_conv)
  show "\<exists>c rows. selectGroup js executor ps st = Some (st\<lparr>xs_scanRows := c\<rparr>, rows) \<and> scan_cached executor t (st\<lparr>xs_scanRows := c\<rparr>) \<and>
      set rows = {e \<in> {e \<in> set (px_scan executor t). live_row e}. \<forall>p \<in> set ps. pred_matches js link member p e}"
    using c all by (intro exI [of _ c]) (auto simp: selectGroup_filters [where link = link and member = member] none)
qed

lemma indexHits_total:
  assumes "\<And>x. x \<in> set xs \<Longrightarrow> \<exists>hits. lookup x = Some hits \<and> set hits = H x"
  shows "\<exists>hits. indexHits ids lookup xs = Some hits \<and> set hits = set ids \<union> (\<Union>x \<in> set xs. H x)"
  using assms
proof (induction xs arbitrary: ids)
  case Nil
  then show ?case by simp
next
  case (Cons x xs)
  from Cons.prems obtain hs where hs: "lookup x = Some hs" "set hs = H x" by auto
  have "set (fold (\<lambda>hit s. set_add s hit) hs ids) = set ids \<union> set hs" for hs
    by (induction hs arbitrary: ids) (auto simp: js_simps)
  with Cons.IH [of "fold (\<lambda>hit s. set_add s hit) hs ids"] Cons.prems hs show ?case by (auto simp: Un_assoc)
qed

lemma intersect_fold: "set (foldl (\<lambda>ids next. filter (\<lambda>i. i \<in> set next) ids) ids hits) = {i \<in> set ids. \<forall>h \<in> set hits. i \<in> set h}"
  by (induction hits arbitrary: ids) auto

lemma collect_hits_total:
  assumes "\<And>p. p \<in> set ps \<Longrightarrow> \<exists>hits. predicateHits executor p = Some hits \<and> set hits = H p"
  shows "\<exists>hs. collect_hits executor ps = Some hs \<and> map set hs = map H ps"
  using assms
proof (induction ps)
  case Nil
  then show ?case by simp
next
  case (Cons p ps)
  then obtain h hs where "predicateHits executor p = Some h" "set h = H p" "collect_hits executor ps = Some hs" "map set hs = map H ps"
    by (metis list.set_intros)
  then show ?case by simp
qed

lemma intersectHits_total:
  assumes "ps \<noteq> []" "\<And>p. p \<in> set ps \<Longrightarrow> \<exists>hits. predicateHits executor p = Some hits \<and> set hits = H p"
  shows "\<exists>ids. intersectHits executor ps = Some ids \<and> set ids = (\<Inter>p \<in> set ps. H p)"
proof -
  from collect_hits_total [OF assms(2)] obtain hs where hs: "collect_hits executor ps = Some hs" "map set hs = map H ps" by blast
  from hs(2) have "set ` set hs = H ` set ps" by (metis list.set_map)
  moreover from hs(2) assms(1) obtain h hs' where cons: "hs = h # hs'" by (cases hs) auto
  ultimately have "(\<Inter>p \<in> set ps. H p) = {i \<in> set h. \<forall>h \<in> set hs'. i \<in> set h}" by (auto simp flip: INT_simps)
  with hs cons show ?thesis by (simp add: intersectHits_def intersect_fold)
qed


section \<open>The pipeline\<close>

text \<open>The rows selected so far, by id.\<close>

definition selection_ok :: "Entity set \<Rightarrow> Entity obj \<Rightarrow> bool" where
  "selection_ok L m \<longleftrightarrow> distinct (map fst m) \<and> (\<forall>(k, e) \<in> set m. k = ent_id e \<and> e \<in> L)"

lemma fold_selection:
  assumes "inj_on ent_id L" "selection_ok L m" "set rows \<subseteq> L"
  defines "add \<equiv> \<lambda>row m. if map_of m (ent_id row) = None then obj_set m (ent_id row) row else m"
  shows "selection_ok L (fold add rows m) \<and> snd ` set (fold add rows m) = snd ` set m \<union> set rows"
  using assms(2,3)
proof (induction rows arbitrary: m)
  case Nil
  then show ?case by simp
next
  case (Cons row rows)
  have "selection_ok L (add row m) \<and> snd ` set (add row m) = insert row (snd ` set m)"
  proof (cases "map_of m (ent_id row)")
    case None
    then have "ent_id row \<notin> fst ` set m" by (simp add: map_of_eq_None_iff)
    with None Cons.prems show ?thesis by (auto simp: add_def obj_set_absent selection_ok_def)
  next
    case (Some e)
    then have "(ent_id row, e) \<in> set m" by (rule map_of_SomeD)
    moreover from this Cons.prems assms(1) have "e = row" by (auto simp: selection_ok_def inj_on_def)
    ultimately have "row \<in> snd ` set m" by force
    with Some Cons.prems show ?thesis by (auto simp: add_def)
  qed
  with Cons.IH [of "add row m"] Cons.prems show ?case by auto
qed

lemma exec_selects:
  assumes "inj_on ent_id L" "\<And>ps. ps \<in> set groups \<Longrightarrow> answers_group js executor t (M ps) L ps"
    and "scan_cached executor t st" "selection_ok L (xs_selected st)" "xs_narrowed st = None"
  shows "\<exists>st'. exec_ops js cmp executor (map Select groups @ ops) st = exec_ops js cmp executor ops st' \<and>
    scan_cached executor t st' \<and> selection_ok L (xs_selected st') \<and> xs_narrowed st' = None \<and>
    xs_selecting st' = (xs_selecting st \<or> groups \<noteq> []) \<and>
    snd ` set (xs_selected st') = snd ` set (xs_selected st) \<union> {e \<in> L. \<exists>ps \<in> set groups. M ps e}"
  using assms(2-)
proof (induction groups arbitrary: st)
  case Nil
  then show ?case by (intro exI [of _ st]) simp
next
  case (Cons ps groups)
  let ?st = "st\<lparr>xs_selecting := True, xs_narrowed := None\<rparr>"
  have cached: "scan_cached executor t ?st" using Cons.prems(2) by (simp add: scan_cached_def)
  from Cons.prems(1) have "answers_group js executor t (M ps) L ps" by simp
  with cached obtain c rows where g: "selectGroup js executor ps ?st = Some (?st\<lparr>xs_scanRows := c\<rparr>, rows)"
    "scan_cached executor t (?st\<lparr>xs_scanRows := c\<rparr>)" "set rows = {e \<in> L. M ps e}"
    unfolding answers_group_def by meson
  let ?add = "\<lambda>row m. if map_of m (ent_id row) = None then obj_set m (ent_id row) row else m"
  let ?st' = "?st\<lparr>xs_scanRows := c, xs_selected := fold ?add rows (xs_selected st)\<rparr>"
  have sel: "selection_ok L (fold ?add rows (xs_selected st))"
    "snd ` set (fold ?add rows (xs_selected st)) = snd ` set (xs_selected st) \<union> {e \<in> L. M ps e}"
    using fold_selection [OF assms(1) Cons.prems(3), of rows] g(3) by auto
  have step: "exec_op js cmp executor (Select ps) st = Some ?st'" by (simp add: exec_op_def g(1))
  have "scan_cached executor t ?st'" using g(2) by (simp add: scan_cached_def)
  with Cons.IH [of ?st'] Cons.prems(1) sel(1) obtain st'' where
    "exec_ops js cmp executor (map Select groups @ ops) ?st' = exec_ops js cmp executor ops st''"
    "scan_cached executor t st''" "selection_ok L (xs_selected st'')" "xs_narrowed st'' = None" "xs_selecting st''"
    "snd ` set (xs_selected st'') = snd ` set (fold ?add rows (xs_selected st)) \<union> {e \<in> L. \<exists>ps \<in> set groups. M ps e}"
    by auto
  then show ?case unfolding sel(2) by (intro exI [of _ st'']) (auto simp: step)
qed

lemma current_rows:
  assumes "scan_cached executor t st" "selection_ok L (xs_selected st)" "xs_narrowed st = None"
    and "L = {e \<in> set (px_scan executor t). live_row e}" "distinct (map ent_id (px_scan executor t))"
  shows "\<exists>c rows. current executor st = (st\<lparr>xs_scanRows := c\<rparr>, rows) \<and> distinct (map ent_id rows) \<and>
    set rows = (if xs_selecting st then snd ` set (xs_selected st) else L)"
proof (cases "xs_selecting st")
  case True
  have "map ent_id (map snd (xs_selected st)) = map fst (xs_selected st)" using assms(2) by (auto simp: selection_ok_def)
  with True assms(2,3) show ?thesis
    by (intro exI [of _ "xs_scanRows st"] exI [of _ "map snd (xs_selected st)"]) (simp add: current_def selection_ok_def del: map_map)
next
  case False
  with scanned_rows [OF assms(1)] assms(3-) show ?thesis by (auto simp: current_def distinct_map_filter)
qed

lemma order_and_limit:
  assumes "current executor st = (st\<lparr>xs_scanRows := c\<rparr>, rows)"
  shows "map_option (\<lambda>st. snd (current executor st)) (exec_ops js cmp executor
      (Order f d # (case limit of None \<Rightarrow> [] | Some n \<Rightarrow> if n \<ge> 0 then [Limit n] else [])) st) =
    Some (limited limit (sort_by (cmp f d) rows))"
proof -
  have narrowed: "current executor (st\<lparr>xs_narrowed := Some out\<rparr>) = (st\<lparr>xs_narrowed := Some out\<rparr>, out)" for st out
    by (simp add: current_def)
  show ?thesis by (simp add: exec_op_def assms narrowed limited_def split: option.splits)
qed

lemma planQuery_answers:
  fixes js executor M q resolveField
  defines "L \<equiv> {e \<in> set (px_scan executor (qy_source q)). live_row e}"
    and "cmp \<equiv> compareEntities js resolveField (map_option qo_field (qy_order q)) (case qy_order q of None \<Rightarrow> Asc | Some ord \<Rightarrow> qo_direction ord)"
  assumes "distinct (map ent_id (px_scan executor (qy_source q)))"
    and "\<And>g. g \<in> set (qy_groups q) \<Longrightarrow> g \<noteq> [] \<Longrightarrow>
      answers_group js executor (qy_source q) (\<lambda>e. \<forall>p \<in> set g. pred_matches js link member (toPlanPredicate p) e) L
        (orderPredicates (map toPlanPredicate g))"
  shows "\<exists>rows. distinct (map ent_id rows) \<and> set rows = {e \<in> L. query_matches js link member q e} \<and>
    executePlan js resolveField (planQuery q) executor = Some (limited (qy_limit q) (sort_by cmp rows))"
proof -
  let ?groups = "filter (\<lambda>g. g \<noteq> []) (qy_groups q)"
  let ?plan = "\<lambda>g. orderPredicates (map toPlanPredicate g)"
  let ?st = "initial_exec\<lparr>xs_sourceType := qy_source q\<rparr>"
  let ?tail = "Order (map_option qo_field (qy_order q)) (case qy_order q of None \<Rightarrow> Asc | Some ord \<Rightarrow> qo_direction ord) #
    (case qy_limit q of None \<Rightarrow> [] | Some n \<Rightarrow> if n \<ge> 0 then [Limit n] else [])"
  let ?M = "\<lambda>ps e. \<forall>p \<in> set ps. pred_matches js link member p e"
  have inj: "inj_on ent_id L" using assms(3) by (auto simp: L_def distinct_map inj_on_def)
  have plan: "set (?plan g) = toPlanPredicate ` set g" for g by (auto simp: orderPredicates_def)
  have ans: "answers_group js executor (qy_source q) (?M ps) L ps" if "ps \<in> set (map ?plan ?groups)" for ps
    using that assms(4) plan by auto
  have ops: "pl_ops (planQuery q) = Scan (qy_source q) # map Select (map ?plan ?groups) @ ?tail" by (simp add: planQuery_def)
  have scan: "exec_op js c executor (Scan (qy_source q)) initial_exec = Some ?st" for c by (simp add: exec_op_def initial_exec_def)
  have init: "scan_cached executor (qy_source q) ?st" "selection_ok L (xs_selected ?st)" "xs_narrowed ?st = None" "\<not> xs_selecting ?st"
    "xs_selected ?st = []"
    by (simp_all add: scan_cached_def initial_exec_def selection_ok_def)
  from exec_selects [OF inj ans init(1-3), where cmp = "compareEntities js resolveField" and ops = ?tail and groups = "map ?plan ?groups"] obtain st' where st':
    "exec_ops js (compareEntities js resolveField) executor (map Select (map ?plan ?groups) @ ?tail) ?st =
      exec_ops js (compareEntities js resolveField) executor ?tail st'"
    "scan_cached executor (qy_source q) st'" "selection_ok L (xs_selected st')" "xs_narrowed st' = None"
    "xs_selecting st' = (?groups \<noteq> [])" "snd ` set (xs_selected st') = {e \<in> L. \<exists>ps \<in> set (map ?plan ?groups). ?M ps e}"
    using init(4,5) by auto
  from current_rows [OF st'(2-4) L_def [THEN meta_eq_to_obj_eq] assms(3)] obtain c rows where
    rows: "current executor st' = (st'\<lparr>xs_scanRows := c\<rparr>, rows)" "distinct (map ent_id rows)"
      "set rows = (if ?groups \<noteq> [] then {e \<in> L. \<exists>ps \<in> set (map ?plan ?groups). ?M ps e} else L)"
    unfolding st'(5,6) by blast
  have "set rows = {e \<in> L. query_matches js link member q e}"
    unfolding rows(3) query_matches_def by (auto simp: plan filter_empty_conv)
  moreover have "executePlan js resolveField (planQuery q) executor = Some (limited (qy_limit q) (sort_by cmp rows))"
  proof -
    have "executePlan js resolveField (planQuery q) executor =
        map_option (\<lambda>st. snd (current executor st)) (exec_ops js (compareEntities js resolveField) executor ?tail st')"
      using st'(1) by (simp add: executePlan_def ops scan del: map_map exec_ops.simps(2) add: exec_ops.simps(2) [of _ _ _ "Scan _"])
    then show ?thesis unfolding cmp_def using order_and_limit [OF rows(1)] by simp
  qed
  ultimately show ?thesis using rows(2) by blast
qed


section \<open>What a plan relies on\<close>

text \<open>
  A source of rows: a scan that lists each row of a type once. A chain over candidate rows offers no more. An
  indexed source adds the read by id and the two adjacency reads, which a group with an indexed predicate is
  seeded from; \<open>named\<close> are the accessor and type names it can be asked for.
\<close>

locale row_source =
  fixes executor :: "'s \<Rightarrow> PlanExecutor" and ok :: "'s \<Rightarrow> bool" and rows_of :: "'s \<Rightarrow> string \<Rightarrow> Entity set"
  assumes scan_rows: "ok s \<Longrightarrow> set (px_scan (executor s) t) = rows_of s t"
    and scan_distinct: "ok s \<Longrightarrow> distinct (map ent_id (px_scan (executor s) t))"
begin

lemma answers_filters:
  assumes "ok s" "\<not> hasPredicateKind q (\<lambda>p. isIndexed (toPlanPredicate p))"
  shows "\<exists>rows. distinct (map ent_id rows) \<and>
    set rows = {e \<in> rows_of s (qy_source q). live_row e \<and> query_matches js link member q e} \<and>
    executePlan js resolveField (planQuery q) (executor s) = Some (limited (qy_limit q)
      (sort_by (compareEntities js resolveField (map_option qo_field (qy_order q)) (case qy_order q of None \<Rightarrow> Asc | Some ord \<Rightarrow> qo_direction ord)) rows))"
proof -
  let ?L = "{e \<in> set (px_scan (executor s) (qy_source q)). live_row e}"
  have "answers_group js (executor s) (qy_source q) (\<lambda>e. \<forall>p \<in> set g. pred_matches js link member (toPlanPredicate p) e) ?L
      (orderPredicates (map toPlanPredicate g))" if "g \<in> set (qy_groups q)" for g
  proof -
    have plain: "list_all (\<lambda>p. \<not> isIndexed p) (orderPredicates (map toPlanPredicate g))"
      using assms(2) that by (auto simp: hasPredicateKind_def list_ex_iff list_all_iff orderPredicates_def)
    have "set (orderPredicates (map toPlanPredicate g)) = toPlanPredicate ` set g" by (auto simp: orderPredicates_def)
    with filter_group_answered [OF plain, of js "executor s" "qy_source q" link member] show ?thesis by simp
  qed
  with planQuery_answers [OF scan_distinct [OF assms(1)]] show ?thesis
    unfolding scan_rows [OF assms(1), symmetric] by (simp add: conj_assoc)
qed

end

locale indexed_source = row_source +
  fixes link :: "'a \<Rightarrow> string \<Rightarrow> string \<Rightarrow> string \<Rightarrow> string set" and member :: "'a \<Rightarrow> string \<Rightarrow> string set"
    and named :: "string \<Rightarrow> string \<Rightarrow> bool"
  assumes get_row: "ok s \<Longrightarrow> (px_get (executor s) i = Some e \<and> ent_type e = t) \<longleftrightarrow> (e \<in> rows_of s t \<and> ent_id e = i)"
    and link_rows: "ok s \<Longrightarrow> named as' t \<Longrightarrow> \<exists>hits. px_relationships (executor s) as' t x = Some hits \<and> set hits = link s as' t x"
    and member_rows: "ok s \<Longrightarrow> \<exists>hits. px_memberships (executor s) g = Some hits \<and> set hits = member s g"
begin

definition named_pred :: "PlanPredicate \<Rightarrow> bool" where
  "named_pred p = (case p of Adjacency as' t _ \<Rightarrow> named as' t | _ \<Rightarrow> True)"

definition index_ids :: "'a \<Rightarrow> PlanPredicate \<Rightarrow> string set" where
  "index_ids s p = (case p of
     Adjacency as' t anyOf \<Rightarrow> \<Union>x \<in> set (getOr anyOf []). link s as' t x
   | Membership anyOf \<Rightarrow> \<Union>g \<in> set (getOr anyOf []). member s g
   | Filter _ _ \<Rightarrow> {})"

lemma predicate_hits:
  assumes "ok s" "named_pred p"
  shows "\<exists>hits. predicateHits (executor s) p = Some hits \<and> set hits = index_ids s p"
proof (cases p)
  case (Adjacency as' t anyOf)
  with assms link_rows have "\<exists>hits. px_relationships (executor s) as' t x = Some hits \<and> set hits = link s as' t x" for x
    by (simp add: named_pred_def)
  with indexHits_total [where H = "link s as' t" and lookup = "px_relationships (executor s) as' t" and ids = "[]"] show ?thesis
    by (simp add: Adjacency predicateHits_def index_ids_def)
next
  case (Membership anyOf)
  with indexHits_total [where H = "member s" and lookup = "px_memberships (executor s)" and ids = "[]"] member_rows [OF assms(1)] show ?thesis
    by (simp add: predicateHits_def index_ids_def)
qed (simp add: predicateHits_def index_ids_def)

lemma index_ids_matches: "isIndexed p \<Longrightarrow> ent_id e \<in> index_ids s p \<longleftrightarrow> pred_matches js (link s) (member s) p e"
  by (cases p) (simp_all add: isIndexed_def index_ids_def pred_matches_def)

lemma seed_rows:
  assumes "ok s"
  shows "set (rowsForIds (executor s) t ids) = {e \<in> rows_of s t. live_row e \<and> ent_id e \<in> set ids}"
proof -
  have "e \<in> set (rowsForIds (executor s) t ids) \<longleftrightarrow> (\<exists>i \<in> set ids. (px_get (executor s) i = Some e \<and> ent_type e = t) \<and> live_row e)" for e
    by (force simp: rowsForIds_def map_filter_def split: option.splits if_splits)
  then show ?thesis unfolding get_row [OF assms] by blast
qed

lemma group_answered:
  assumes "ok s" "\<forall>p \<in> set ps. named_pred p"
  shows "answers_group js (executor s) t (\<lambda>e. \<forall>p \<in> set ps. pred_matches js (link s) (member s) p e)
    {e \<in> set (px_scan (executor s) t). live_row e} ps"
proof (cases "filter isIndexed ps = []")
  case True
  then show ?thesis by (intro filter_group_answered) (simp add: list_all_iff filter_empty_conv)
next
  case False
  have "\<And>p. p \<in> set (filter isIndexed ps) \<Longrightarrow> \<exists>hits. predicateHits (executor s) p = Some hits \<and> set hits = index_ids s p"
    using assms predicate_hits by simp
  from intersectHits_total [OF False this] obtain ids where
    ids: "intersectHits (executor s) (filter isIndexed ps) = Some ids" "set ids = (\<Inter>p \<in> set (filter isIndexed ps). index_ids s p)"
    by blast
  have "ent_id e \<in> set ids \<longleftrightarrow> (\<forall>p \<in> set ps. isIndexed p \<longrightarrow> pred_matches js (link s) (member s) p e)" for e
    unfolding ids(2) using index_ids_matches [where js = js] by auto
  then have rows: "set (filter (\<lambda>row. \<forall>p \<in> set ps. \<not> isIndexed p \<longrightarrow> pred_matches js (link s) (member s) p row) (rowsForIds (executor s) t ids)) =
      {e \<in> {e \<in> set (px_scan (executor s) t). live_row e}. \<forall>p \<in> set ps. pred_matches js (link s) (member s) p e}"
    by (auto simp: seed_rows [OF assms(1)] scan_rows [OF assms(1)])
  show ?thesis
    unfolding answers_group_def
  proof (intro allI impI)
    fix st
    assume "scan_cached (executor s) t st"
    with rows False show "\<exists>c rows. selectGroup js (executor s) ps st = Some (st\<lparr>xs_scanRows := c\<rparr>, rows) \<and>
        scan_cached (executor s) t (st\<lparr>xs_scanRows := c\<rparr>) \<and>
        set rows = {e \<in> {e \<in> set (px_scan (executor s) t). live_row e}. \<forall>p \<in> set ps. pred_matches js (link s) (member s) p e}"
      by (intro exI [of _ "xs_scanRows st"])
        (simp add: selectGroup_filters [where link = "link s" and member = "member s"] ids(1) scan_cached_def)
  qed
qed

lemma answers_query:
  assumes "ok s" "\<forall>g \<in> set (qy_groups q). \<forall>p \<in> set g. named_pred (toPlanPredicate p)"
  shows "\<exists>rows. distinct (map ent_id rows) \<and>
    set rows = {e \<in> rows_of s (qy_source q). live_row e \<and> query_matches js (link s) (member s) q e} \<and>
    executePlan js resolveField (planQuery q) (executor s) = Some (limited (qy_limit q)
      (sort_by (compareEntities js resolveField (map_option qo_field (qy_order q)) (case qy_order q of None \<Rightarrow> Asc | Some ord \<Rightarrow> qo_direction ord)) rows))"
proof -
  let ?L = "{e \<in> set (px_scan (executor s) (qy_source q)). live_row e}"
  have "answers_group js (executor s) (qy_source q) (\<lambda>e. \<forall>p \<in> set g. pred_matches js (link s) (member s) (toPlanPredicate p) e) ?L
      (orderPredicates (map toPlanPredicate g))" if "g \<in> set (qy_groups q)" for g
  proof -
    have ps: "set (orderPredicates (map toPlanPredicate g)) = toPlanPredicate ` set g" by (auto simp: orderPredicates_def)
    then have "\<forall>p \<in> set (orderPredicates (map toPlanPredicate g)). named_pred p" using assms(2) that by simp
    from group_answered [OF assms(1) this] ps show ?thesis by simp
  qed
  with planQuery_answers [OF scan_distinct [OF assms(1)]] show ?thesis
    unfolding scan_rows [OF assms(1), symmetric] by (simp add: conj_assoc)
qed

end


section \<open>The two executors\<close>

interpretation candidates: row_source createRowsExecutor "\<lambda>rows. distinct (map ent_id rows)" "\<lambda>rows _. set rows"
  by unfold_locales (simp_all add: createRowsExecutor_def)

text \<open>A chain over candidate rows answers a query of field filters as the replica does, over the rows it was given.\<close>

lemma candidate_rows_filtered:
  assumes "distinct (map ent_id rows)" "\<not> hasPredicateKind q (\<lambda>p. isIndexed (toPlanPredicate p))"
  shows "\<exists>out. distinct (map ent_id out) \<and> set out = {e \<in> set rows. live_row e \<and> query_matches js link member q e} \<and>
    executePlan js resolveField (planQuery q) (createRowsExecutor rows) = Some (limited (qy_limit q)
      (sort_by (compareEntities js resolveField (map_option qo_field (qy_order q)) (case qy_order q of None \<Rightarrow> Asc | Some ord \<Rightarrow> qo_direction ord)) out))"
  by (rule candidates.answers_filters [OF assms])

definition edges :: "Replica \<Rightarrow> string \<Rightarrow> string \<Rightarrow> string \<Rightarrow> string set" where
  "edges st as' t x = {src. \<exists>i e. replica_get st i = Some e \<and> links e as' t src x}"

definition members :: "Replica \<Rightarrow> string \<Rightarrow> string set" where
  "members st g = {ent. \<exists>i e. replica_get st i = Some e \<and> member_row e ent g}"

definition visible :: "Replica \<Rightarrow> string \<Rightarrow> Entity set" where
  "visible st t = {e. \<exists>i. replica_get st i = Some e \<and> ent_type e = t}"

definition accessor_named :: "string \<Rightarrow> string \<Rightarrow> bool" where
  "accessor_named as' t \<longleftrightarrow> NUL \<notin> set as' \<and> NUL \<notin> set t \<and> as' \<noteq> MEMBERSHIP_ACCESSOR"

text \<open>Replicas some run reaches, holding rows whose names keep the index keys apart.\<close>

definition indexable :: "Replica \<Rightarrow> bool" where
  "indexable st \<longleftrightarrow> (\<exists>cfg tyof ops. config_ok cfg \<and> list_all (op_typed tyof) ops \<and> st = replica_run cfg ops) \<and>
     (\<forall>i e. replica_get st i = Some e \<longrightarrow> clean_row e \<and> (\<forall>t src tgt. \<not> links e MEMBERSHIP_ACCESSOR t src tgt))"

lemma finite_edges: "finite (edges st as' t x)"
proof -
  have "dom (replica_get st) \<subseteq> fst ` set (rp_effective st) \<union> fst ` set (rp_entities st)"
    by (auto simp: replica_get_def dom_map_of_conv_image_fst split: option.splits dest: map_of_SomeD) (force dest: map_of_SomeD)+
  then have "finite (ran (replica_get st))" by (auto intro: finite_ran finite_subset)
  moreover have "edges st as' t x \<subseteq> (\<lambda>e. the (readStringField e ''source_id'')) ` ran (replica_get st)"
    by (force simp: edges_def links_def ran_def)
  ultimately show ?thesis by (auto intro: finite_subset)
qed

lemma replica_get_own: "indexable st \<Longrightarrow> replica_get st i = Some e \<Longrightarrow> ent_id e = i"
proof -
  assume "indexable st" "replica_get st i = Some e"
  then obtain tyof cfg ops where run: "config_ok cfg" "list_all (op_typed tyof) ops" "st = replica_run cfg ops" by (auto simp: indexable_def)
  then have "replica_ok tyof cfg st" using replica_run_ok [OF run(1,2)] by (simp add: run_ok_def)
  moreover from \<open>replica_get st i = Some e\<close> have "viewOf st i = Some e" by (simp add: replica_get_def viewOf_def)
  ultimately show ?thesis using replica_view_own by (auto simp: own_def)
qed

interpretation replica: indexed_source createReplicaExecutor indexable visible edges members accessor_named
proof
  fix st t
  assume ok: "indexable st"
  then show "set (px_scan (createReplicaExecutor st) t) = visible st t" "distinct (map ent_id (px_scan (createReplicaExecutor st) t))"
    using iterate_view [where t = t] by (auto simp: indexable_def visible_def createReplicaExecutor_def Let_def)
  show "px_get (createReplicaExecutor st) i = Some e \<and> ent_type e = t \<longleftrightarrow> e \<in> visible st t \<and> ent_id e = i" for i e
    using replica_get_own [OF ok] by (auto simp: visible_def createReplicaExecutor_def)
  show "\<exists>hits. px_memberships (createReplicaExecutor st) g = Some hits \<and> set hits = members st g" for g
    using ok memberships_view [where any = None] by (force simp: indexable_def members_def createReplicaExecutor_def)
next
  fix st as' t x
  assume ok: "indexable st" and n: "accessor_named as' t"
  from ok n have "relationships st as' t None (Some x) = sorted_list_of_set (edges st as' t x)"
    using relationships_view [where any = None] by (force simp: indexable_def accessor_named_def edges_def Let_def)
  then show "\<exists>hits. px_relationships (createReplicaExecutor st) as' t x = Some hits \<and> set hits = edges st as' t x"
    by (simp add: createReplicaExecutor_def finite_edges)
qed

definition query_order :: "js_runtime \<Rightarrow> (Entity \<Rightarrow> string \<Rightarrow> json option) \<Rightarrow> Query \<Rightarrow> Entity \<Rightarrow> Entity \<Rightarrow> int" where
  "query_order js resolveField q =
     compareEntities js resolveField (map_option qo_field (qy_order q)) (case qy_order q of None \<Rightarrow> Asc | Some ord \<Rightarrow> qo_direction ord)"

definition query_answer :: "js_runtime \<Rightarrow> Replica \<Rightarrow> Query \<Rightarrow> Entity set" where
  "query_answer js st q = {e \<in> visible st (qy_source q). live_row e \<and> query_matches js (edges st) (members st) q e}"

definition query_named :: "Query \<Rightarrow> bool" where
  "query_named q \<longleftrightarrow> (\<forall>g \<in> set (qy_groups q). \<forall>p \<in> set g. case p of RelationshipPredicate as' t _ \<Rightarrow> accessor_named as' t | _ \<Rightarrow> True)"

lemma query_run:
  assumes "indexable st" "query_named q"
  shows "\<exists>rows. distinct (map ent_id rows) \<and> set rows = query_answer js st q \<and>
    (order_on (query_order js resolveField q) (query_answer js st q) \<longrightarrow> sorted_wrt (\<lambda>a b. query_order js resolveField q a b \<le> 0) rows) \<and>
    executePlan js resolveField (planQuery q) (createReplicaExecutor st) = Some (limited (qy_limit q) rows)"
proof -
  have "\<forall>g \<in> set (qy_groups q). \<forall>p \<in> set g. replica.named_pred (toPlanPredicate p)"
    using assms(2) by (fastforce simp: query_named_def replica.named_pred_def toPlanPredicate_def split: Predicate.splits)
  from replica.answers_query [OF assms(1) this, of js resolveField] obtain rows where
    rows: "distinct (map ent_id rows)" "set rows = query_answer js st q"
    "executePlan js resolveField (planQuery q) (createReplicaExecutor st) = Some (limited (qy_limit q) (sort_by (query_order js resolveField q) rows))"
    unfolding query_answer_def query_order_def by blast
  have "mset (map ent_id (sort_by (query_order js resolveField q) rows)) = mset (map ent_id rows)" by (simp add: sort_by_mset)
  with rows(1) have "distinct (map ent_id (sort_by (query_order js resolveField q) rows))" by (metis mset_eq_imp_distinct_iff)
  with rows show ?thesis using sort_by_sorted [of "query_order js resolveField q" rows] by (intro exI conjI) auto
qed


section \<open>Queries over a replica\<close>

text \<open>
  C8: a query answers with the visible rows it describes. On every replica a run reaches, executing the plan of a
  query returns, up to the limit, the live rows of the source type that some group of its predicates accepts, each
  once, optimistic rows and edges included: the groups seeded from the adjacency indices, the groups that filter a
  scan and the unfiltered query agree with one definition over the rows \<^verbatim>\<open>get\<close> returns. The rows come in the query's
  order whenever its comparator is an order on them.
\<close>

theorem query_answers_view:
  assumes "indexable st" "query_named q"
  shows "\<exists>rows. distinct (map ent_id rows) \<and> set rows = query_answer js st q \<and>
    (order_on (query_order js resolveField q) (query_answer js st q) \<longrightarrow> sorted_wrt (\<lambda>a b. query_order js resolveField q a b \<le> 0) rows) \<and>
    executePlan js resolveField (planQuery q) (createReplicaExecutor st) = Some (limited (qy_limit q) rows)"
  by (rule query_run [OF assms])

lemma edges_visible: "edges st as' t x = {src. \<exists>e \<in> visible st RELATIONSHIP_ENTITY_TYPE. links e as' t src x}"
  by (auto simp: edges_def visible_def links_def)

lemma members_visible: "members st g = {ent. \<exists>e \<in> visible st MEMBERSHIP_ENTITY_TYPE. member_row e ent g}"
  by (auto simp: members_def visible_def member_row_def)

lemma readTypes_set:
  "set (readTypesFor q) = {qy_source q} \<union> join_target ` set (qy_joins q) \<union>
     (if hasPredicateKind q is_relationship \<or> hasJoinKind q is_relationship_join then {RELATIONSHIP_ENTITY_TYPE} else {}) \<union>
     (if isReplicaBacked q then {MEMBERSHIP_ENTITY_TYPE} else {})"
proof -
  have "set (fold (\<lambda>j s. set_add s (join_target j)) js s) = join_target ` set js \<union> set s" for js s
    by (induction js arbitrary: s) (auto simp: js_simps)
  then show ?thesis by (auto simp: readTypesFor_def Let_def js_simps)
qed

lemma query_matches_links:
  assumes "hasPredicateKind q is_relationship \<Longrightarrow> link = link'"
  shows "query_matches js link member q = query_matches js link' member q"
proof (cases "hasPredicateKind q is_relationship")
  case False
  have "pred_matches js link member (toPlanPredicate p) e = pred_matches js link' member (toPlanPredicate p) e"
    if "g \<in> set (qy_groups q)" "p \<in> set g" for g p e
  proof -
    have "\<not> is_relationship p" using False that by (auto simp: hasPredicateKind_def list_ex_iff)
    then show ?thesis by (cases p) (simp_all add: is_relationship_def pred_matches_def toPlanPredicate_def)
  qed
  then show ?thesis by (intro ext) (auto simp: query_matches_def)
qed (simp add: assms)

lemma query_answer_reads:
  assumes "isReplicaBacked q" "\<forall>t \<in> set (pl_readTypes (planQuery q)). visible st t = visible st' t"
  shows "query_answer js st q = query_answer js st' q"
proof -
  have reads: "visible st t = visible st' t" if "t \<in> set (readTypesFor q)" for t using assms(2) that by (simp add: planQuery_def)
  have "visible st (qy_source q) = visible st' (qy_source q)" "members st = members st'"
    using assms(1) reads by (auto simp: readTypes_set members_visible fun_eq_iff)
  moreover have "edges st = edges st'" if "hasPredicateKind q is_relationship"
    using that reads by (auto simp: readTypes_set edges_visible fun_eq_iff)
  ultimately show ?thesis using query_matches_links [of q "edges st" "edges st'"] by (simp add: query_answer_def)
qed

lemma sorted_rows_unique:
  assumes "distinct xs" "distinct ys" "set xs = set ys" "order_on cmp (set xs)"
    "sorted_wrt (\<lambda>a b. cmp a b \<le> 0) xs" "sorted_wrt (\<lambda>a b. cmp a b \<le> 0) ys"
  shows "xs = ys"
  using assms sorted_by_unique by (metis set_eq_iff_mset_eq_distinct)

text \<open>
  A plan's read types are enough to invalidate it. Two replicas that show the same rows of every type in
  \<^verbatim>\<open>readTypes\<close> answer a query alike, row for row and in the same order, whatever else differs between them: a cached
  result can only go stale through a change to a row of those types.
\<close>

theorem read_types_determine_answer:
  assumes "indexable st" "indexable st'" "query_named q" "isReplicaBacked q"
    and "\<forall>t \<in> set (pl_readTypes (planQuery q)). visible st t = visible st' t"
    and "order_on (query_order js resolveField q) (query_answer js st q)"
  shows "executePlan js resolveField (planQuery q) (createReplicaExecutor st) =
    executePlan js resolveField (planQuery q) (createReplicaExecutor st')"
proof -
  note same = query_answer_reads [OF assms(4,5), of js]
  from query_run [OF assms(1,3), of js resolveField] query_run [OF assms(2,3), of js resolveField] assms(6) same
  obtain rows rows' where
    "distinct (map ent_id rows)" "set rows = query_answer js st q" "sorted_wrt (\<lambda>a b. query_order js resolveField q a b \<le> 0) rows"
    "executePlan js resolveField (planQuery q) (createReplicaExecutor st) = Some (limited (qy_limit q) rows)"
    "distinct (map ent_id rows')" "set rows' = query_answer js st q" "sorted_wrt (\<lambda>a b. query_order js resolveField q a b \<le> 0) rows'"
    "executePlan js resolveField (planQuery q) (createReplicaExecutor st') = Some (limited (qy_limit q) rows')"
    by metis
  moreover from this assms(6) have "rows = rows'"
    by (intro sorted_rows_unique [where cmp = "query_order js resolveField q"]) (simp_all add: distinct_map)
  ultimately show ?thesis by simp
qed

section \<open>The order of the rows\<close>

text \<open>Values a field can be ordered by: absent, or all numbers, or all strings.\<close>

definition is_number :: "json \<Rightarrow> bool" where
  "is_number v = (case v of JNum _ \<Rightarrow> True | JDec _ \<Rightarrow> True | _ \<Rightarrow> False)"

definition is_string :: "json \<Rightarrow> bool" where
  "is_string v = (case v of JStr _ \<Rightarrow> True | _ \<Rightarrow> False)"

text \<open>What a comparator of values must be for rows to be ordered by it with ties broken by id.\<close>

definition weak_order_on :: "('a \<Rightarrow> 'a \<Rightarrow> int) \<Rightarrow> 'a set \<Rightarrow> bool" where
  "weak_order_on p A \<longleftrightarrow> (\<forall>a \<in> A. \<forall>b \<in> A. p a b < 0 \<longleftrightarrow> 0 < p b a) \<and>
     (\<forall>a \<in> A. \<forall>b \<in> A. \<forall>c \<in> A. p a b \<le> 0 \<longrightarrow> p b c \<le> 0 \<longrightarrow> p a c \<le> 0)"

lemma weak_order_on_key: "weak_order_on p B \<Longrightarrow> (\<And>a. a \<in> A \<Longrightarrow> f a \<in> B) \<Longrightarrow> weak_order_on (\<lambda>a b. p (f a) (f b)) A"
  unfolding weak_order_on_def by blast

lemma tie_break_order:
  assumes "weak_order_on p A" "order_on t A"
  shows "order_on (\<lambda>a b. if p a b = 0 then t a b else p a b) A"
proof -
  have p: "p a b < 0 \<longleftrightarrow> 0 < p b a" "p b a < 0 \<longleftrightarrow> 0 < p a b" if "a \<in> A" "b \<in> A" for a b
    using assms(1) that unfolding weak_order_on_def by blast+
  have trans: "p a c \<le> 0" if "a \<in> A" "b \<in> A" "c \<in> A" "p a b \<le> 0" "p b c \<le> 0" for a b c
    using assms(1) that unfolding weak_order_on_def by blast
  let ?c = "\<lambda>a b. if p a b = 0 then t a b else p a b"
  have "?c a b \<le> 0 \<or> ?c b a \<le> 0" if "a \<in> A" "b \<in> A" for a b
    using p [OF that] order_onD(1) [OF assms(2) that] by (cases "p a b" "0 :: int" rule: linorder_cases) auto
  moreover have "a = b" if "a \<in> A" "b \<in> A" "?c a b \<le> 0" "?c b a \<le> 0" for a b
  proof -
    have "p a b = 0" "p b a = 0" using p [OF that(1,2)] that(3,4) by (auto split: if_splits)
    with that show ?thesis using order_onD(2) [OF assms(2) that(1,2)] by simp
  qed
  moreover have "?c a c \<le> 0" if "a \<in> A" "b \<in> A" "c \<in> A" "?c a b \<le> 0" "?c b c \<le> 0" for a b c
  proof -
    have le: "p a b \<le> 0" "p b c \<le> 0" using that(4,5) by (auto split: if_splits)
    show ?thesis
    proof (cases "p a c = 0")
      case True
      with p [OF that(1,3)] have "p c a = 0" by linarith
      with trans [OF that(2,3,1) le(2)] trans [OF that(3,1,2) _ le(1)] p [OF that(1,2)] p [OF that(2,3)] le
      have "p a b = 0" "p b c = 0" by auto
      with True that show ?thesis using order_onD(3) [OF assms(2) that(1-3)] by simp
    qed (use trans [OF that(1-3) le] in auto)
  qed
  ultimately show ?thesis unfolding order_on_def by blast
qed

lemma absent_last_order:
  assumes "weak_order_on (\<lambda>a b. compareFieldValues js (Some a) (Some b) d) V"
  shows "weak_order_on (\<lambda>a b. compareFieldValues js a b d) ({None} \<union> Some ` V)"
proof -
  have [simp]: "compareFieldValues js None None d = 0" "compareFieldValues js None (Some b) d = 1" "compareFieldValues js (Some b) None d = -1" for b
    by (simp_all add: compareFieldValues_def)
  show ?thesis using assms unfolding weak_order_on_def by fastforce
qed

lemma number_order: "weak_order_on (\<lambda>a b. compareFieldValues js (Some a) (Some b) d) {v. is_number v}"
proof -
  let ?r = "\<lambda>v. the (number_value js v)"
  have "compareFieldValues js (Some a) (Some b) d = \<lfloor>sgn (if d = Asc then ?r a - ?r b else ?r b - ?r a)\<rfloor>"
    if "is_number a" "is_number b" for a b
    using that by (cases a; cases b) (simp_all add: is_number_def compareFieldValues_def strict_equal_def is_primitive_def number_value_def)
  then show ?thesis by (auto simp: weak_order_on_def sgn_if split: if_splits)
qed

lemma string_order:
  assumes "comparator_ok (rt_localeCompare js)"
  shows "weak_order_on (\<lambda>a b. compareFieldValues js (Some a) (Some b) d) {v. is_string v}"
proof -
  let ?c = "rt_localeCompare js"
  have zero: "?c a a = 0" for a using assms by (simp add: comparator_ok_def)
  have sign: "?c a b < 0 \<longleftrightarrow> 0 < ?c b a" for a b
    using assms unfolding comparator_ok_def by (metis linorder_not_le nle_le)
  have trans: "?c a b \<le> 0 \<Longrightarrow> ?c b d \<le> 0 \<Longrightarrow> ?c a d \<le> 0" for a b d
    using assms unfolding comparator_ok_def by blast
  have "compareFieldValues js (Some (JStr a)) (Some (JStr b)) d = js_compare_strings js d a b" for a b
    by (simp add: compareFieldValues_def strict_equal_def is_primitive_def number_value_def js_compare_strings_def zero)
  moreover have "is_string v \<longleftrightarrow> v \<in> range JStr" for v by (cases v) (auto simp: is_string_def)
  then have "{v. is_string v} = range JStr" by blast
  ultimately show ?thesis using trans by (auto simp: weak_order_on_def js_compare_strings_def sign)
qed

lemma id_order:
  assumes "comparator_ok (rt_localeCompare js)" "inj_on ent_id A"
  shows "order_on (\<lambda>a b. js_compare_strings js d (ent_id a) (ent_id b)) A"
proof -
  let ?c = "js_compare_strings js d"
  have flip: "order_on c B \<Longrightarrow> order_on (\<lambda>a b. c b a) B" for c :: "string \<Rightarrow> string \<Rightarrow> int" and B
    unfolding order_on_def by blast
  have "?c = (if d = Asc then rt_localeCompare js else (\<lambda>a b. rt_localeCompare js b a))"
    by (simp add: js_compare_strings_def fun_eq_iff)
  then have "order_on ?c UNIV" using comparator_ok_order [OF assms(1)] flip by simp
  then have c: "?c a b \<le> 0 \<or> ?c b a \<le> 0" "?c a b \<le> 0 \<Longrightarrow> ?c b a \<le> 0 \<Longrightarrow> a = b" "?c a b \<le> 0 \<Longrightarrow> ?c b x \<le> 0 \<Longrightarrow> ?c a x \<le> 0" for a b x
    by (rule order_onD; simp)+
  show ?thesis using c(1) c(2) c(3) assms(2) unfolding order_on_def inj_on_def by blast
qed

text \<open>
  The order of a query's rows is total where it can be. For rows with distinct ids and a \<^verbatim>\<open>localeCompare\<close> that is
  a comparator, the row comparator is an order when the query names no field, when every value of the ordered field is
  a number or absent, and when every value is a string or absent: then the rows have exactly one sorted sequence.
\<close>

theorem row_order_total:
  assumes "comparator_ok (rt_localeCompare js)" "inj_on ent_id A"
    and "case field of None \<Rightarrow> True
      | Some f \<Rightarrow> (\<forall>e \<in> A. \<forall>v. resolveField e f = Some v \<longrightarrow> is_number v) \<or> (\<forall>e \<in> A. \<forall>v. resolveField e f = Some v \<longrightarrow> is_string v)"
  shows "order_on (compareEntities js resolveField field direction) A"
proof (cases field)
  case None
  then have "compareEntities js resolveField field direction = (\<lambda>a b. js_compare_strings js direction (ent_id a) (ent_id b))"
    by (simp add: compareEntities_def fun_eq_iff)
  with id_order [OF assms(1,2)] show ?thesis by simp
next
  case (Some f)
  let ?numbers = "\<forall>e \<in> A. \<forall>v. resolveField e f = Some v \<longrightarrow> is_number v"
  define V where "V = (if ?numbers then {v. is_number v} else {v. is_string v})"
  have V: "weak_order_on (\<lambda>a b. compareFieldValues js (Some a) (Some b) direction) V"
    "\<forall>e \<in> A. \<forall>v. resolveField e f = Some v \<longrightarrow> v \<in> V"
    using number_order string_order [OF assms(1)] assms(3) unfolding V_def Some by auto
  from V(2) have "resolveField e f \<in> {None} \<union> Some ` V" if "e \<in> A" for e using that by (cases "resolveField e f") auto
  with absent_last_order [OF V(1)]
  have "weak_order_on (\<lambda>a b. compareFieldValues js (resolveField a f) (resolveField b f) direction) A"
    by (rule weak_order_on_key)
  from tie_break_order [OF this id_order [OF assms(1,2), of Asc]]
  have "order_on (\<lambda>a b. let primary = compareFieldValues js (resolveField a f) (resolveField b f) direction
      in if primary = 0 then rt_localeCompare js (ent_id a) (ent_id b) else primary) A"
    by (simp add: js_compare_strings_def Let_def cong del: if_weak_cong)
  moreover have "compareEntities js resolveField field direction = (\<lambda>a b. let primary = compareFieldValues js (resolveField a f) (resolveField b f) direction
      in if primary = 0 then rt_localeCompare js (ent_id a) (ent_id b) else primary)"
    by (simp add: Some compareEntities_def fun_eq_iff)
  ultimately show ?thesis by simp
qed


section \<open>Sample queries\<close>

definition sample_runtime :: js_runtime where
  "sample_runtime = \<lparr>rt_localeCompare = code_unit_compare, rt_identical = (=), rt_decimal = (\<lambda>_. 0)\<rparr>"

definition sample_resolve :: "Entity \<Rightarrow> string \<Rightarrow> json option" where
  "sample_resolve e f = map_option JStr (readStringField e f)"

definition sample_query :: Query where
  "sample_query = \<lparr>qy_source = ''relationship'', qy_groups = [[FieldPredicate ''source_id'' (JStr ''p_1'')], [RelationshipPredicate ''posts'' ''author'' (Some [''t_1''])]],
     qy_order = None, qy_limit = Some 5, qy_joins = []\<rparr>"

definition sample_edge_row :: Entity where
  "sample_edge_row = \<lparr>ent_id = ''r_1'', ent_type = ''relationship'', ent_fields = map (\<lambda>(n, v). (n, Plain v)) (the (upd_data sample_link)),
     created_hlc = 5, updated_hlc = 5, deleted_hlc = None, last_gsn = 0\<rparr>"

lemma sample_get: "replica_get (replica_run sample_config sample_run) i = (if i = ''r_1'' then Some sample_edge_row else None)"
  by (simp add: sample_run_view sample_edge_row_def)

lemma sample_indexable: "indexable (replica_run sample_config sample_run)"
proof -
  have "clean_row sample_edge_row" "\<not> links sample_edge_row MEMBERSHIP_ACCESSOR t src tgt" for t src tgt
    by (simp_all add: sample_edge_row_def sample_link_def clean_row_def readStringField_def clean_def NUL_def links_def MEMBERSHIP_ACCESSOR_def
        isFieldLeaf_def isFieldMap_def)
  then show ?thesis using sample_run_ok unfolding indexable_def by (auto simp: sample_get)
qed

lemma sample_named: "query_named sample_query"
  by (simp add: query_named_def sample_query_def accessor_named_def NUL_def MEMBERSHIP_ACCESSOR_def)

lemma sample_answer: "query_answer sample_runtime (replica_run sample_config sample_run) sample_query = {sample_edge_row}"
proof -
  have "pred_matches sample_runtime link member (Filter ''source_id'' (JStr ''p_1'')) sample_edge_row" for link member
    by (simp add: pred_matches_def matchesFieldValue_def fieldEntry_def sample_edge_row_def sample_link_def wireValue_def strict_equal_def is_primitive_def)
  then have "query_matches sample_runtime link member sample_query sample_edge_row" for link member
    by (simp add: query_matches_def sample_query_def toPlanPredicate_def)
  then show ?thesis by (auto simp: query_answer_def visible_def sample_get sample_query_def) (simp_all add: sample_edge_row_def)
qed

theorem query_answers_view_witness:
  "executePlan sample_runtime sample_resolve (planQuery sample_query) (createReplicaExecutor (replica_run sample_config sample_run)) = Some [sample_edge_row]"
proof -
  from query_answers_view [OF sample_indexable sample_named, of sample_runtime sample_resolve]
  obtain rows where rows: "distinct (map ent_id rows)" "set rows = {sample_edge_row}"
    "executePlan sample_runtime sample_resolve (planQuery sample_query) (createReplicaExecutor (replica_run sample_config sample_run)) =
      Some (limited (qy_limit sample_query) rows)"
    unfolding sample_answer by blast
  have "rows = [sample_edge_row]"
  proof (cases rows)
    case (Cons a xs)
    with rows(1,2) show ?thesis by (cases xs) auto
  qed (use rows in simp)
  with rows(3) show ?thesis by (simp add: limited_def sample_query_def)
qed

theorem read_types_determine_answer_witness:
  "executePlan sample_runtime sample_resolve (planQuery (emptyQuery ''post'')) (createReplicaExecutor (replica_run sample_config sample_run)) =
   executePlan sample_runtime sample_resolve (planQuery (emptyQuery ''post'')) (createReplicaExecutor (replica_run sample_config []))"
proof -
  have empty: "replica_get (replica_run sample_config []) i = None" for i by (simp add: replica_run_def replica_get_def createReplica_def)
  then have "indexable (replica_run sample_config [])" using sample_run_ok(1) unfolding indexable_def by force
  moreover have "set (pl_readTypes (planQuery (emptyQuery ''post''))) = {''post'', ''entityGroup''}"
    by (auto simp: planQuery_def readTypes_set emptyQuery_def isReplicaBacked_def MEMBERSHIP_ENTITY_TYPE_def hasPredicateKind_def hasJoinKind_def)
  moreover have "visible (replica_run sample_config sample_run) t = visible (replica_run sample_config []) t" if "t \<noteq> ''relationship''" for t
    using that by (auto simp: visible_def empty sample_get sample_edge_row_def)
  moreover have "query_answer sample_runtime (replica_run sample_config sample_run) (emptyQuery ''post'') = {}"
    by (auto simp: query_answer_def visible_def sample_get emptyQuery_def) (simp add: sample_edge_row_def)
  ultimately show ?thesis using sample_indexable
    by (intro read_types_determine_answer) (simp_all add: query_named_def emptyQuery_def isReplicaBacked_def order_on_def)
qed

theorem row_order_total_witness:
  "order_on (compareEntities sample_runtime sample_resolve (Some ''source_id'') Desc) {sample_edge_row}"
proof -
  have "comparator_ok (rt_localeCompare sample_runtime)" by (simp add: sample_runtime_def code_unit_compare_ok)
  moreover have "\<forall>v. sample_resolve sample_edge_row ''source_id'' = Some v \<longrightarrow> is_string v" by (auto simp: sample_resolve_def is_string_def)
  ultimately show ?thesis by (intro row_order_total) simp_all
qed

definition mixed_row :: "string \<Rightarrow> Entity" where
  "mixed_row i = sample_edge_row\<lparr>ent_id := i\<rparr>"

definition mixed_resolve :: "Entity \<Rightarrow> string \<Rightarrow> json option" where
  "mixed_resolve e f = (if ent_id e = ''a'' then Some (JNum 2) else if ent_id e = ''b'' then Some (JNum 10) else Some (JStr ''1a''))"

text \<open>
  Over mixed values the comparator is not an order. With numbers and strings in one ordered field, a number sorts by
  value against numbers and by its decimal text against strings, so 2 comes before 10, 10 before the text 1a and 1a before
  2: the row comparator, documented as a total, deterministic order, has a cycle, and the sequence of such rows depends
  on the order in which they are scanned.
\<close>

theorem mixed_values_have_no_order:
  "compareEntities sample_runtime mixed_resolve (Some ''f'') Asc (mixed_row ''a'') (mixed_row ''b'') < 0 \<and>
   compareEntities sample_runtime mixed_resolve (Some ''f'') Asc (mixed_row ''b'') (mixed_row ''c'') < 0 \<and>
   compareEntities sample_runtime mixed_resolve (Some ''f'') Asc (mixed_row ''c'') (mixed_row ''a'') < 0"
  by code_simp


end
