(* ===== verification/QueryKey.thy ===== *)
theory QueryKey
  imports QueryPlan
begin

text \<open>
  The key of a cached query (packages/client/src/sync/query-cache.ts, \<^verbatim>\<open>encode\<close> and \<^verbatim>\<open>queryKey\<close>).

  A lowered query is the JSON value \<open>query_json\<close>; the branches of \<^verbatim>\<open>encode\<close> for \<^verbatim>\<open>undefined\<close>, dates and functions do
  not apply to JSON values. Keys are sorted by code units, which is the order of strings here.
\<close>

section \<open>Model\<close>

datatype QuerySurface = RowsSurface | CollectionSurface

definition surface_name :: "QuerySurface \<Rightarrow> string" where
  "surface_name surface = (case surface of RowsSurface \<Rightarrow> ''rows'' | CollectionSurface \<Rightarrow> ''collection'')"

text \<open>\<^verbatim>\<open>JSON.stringify\<close> of a string: quotes, backslashes and control characters are escaped.\<close>

definition hex_char :: "nat \<Rightarrow> char" where
  "hex_char d = (if d < 10 then char_of (48 + d) else char_of (87 + d))"

definition escape_char :: "char \<Rightarrow> string" where
  "escape_char ch =
     (if ch = CHR 0x22 then [CHR 0x5C, CHR 0x22]
      else if ch = CHR 0x5C then [CHR 0x5C, CHR 0x5C]
      else if ch = CHR 0x08 then [CHR 0x5C, CHR ''b'']
      else if ch = CHR 0x09 then [CHR 0x5C, CHR ''t'']
      else if ch = CHR 0x0A then [CHR 0x5C, CHR ''n'']
      else if ch = CHR 0x0C then [CHR 0x5C, CHR ''f'']
      else if ch = CHR 0x0D then [CHR 0x5C, CHR ''r'']
      else if (of_char ch :: nat) < 32
      then [CHR 0x5C, CHR ''u'', CHR ''0'', CHR ''0'', hex_char (of_char ch div 16), hex_char (of_char ch mod 16)]
      else [ch])"

definition json_quote :: "string \<Rightarrow> string" where
  "json_quote s = CHR 0x22 # concat (map escape_char s) @ [CHR 0x22]"

fun join_comma :: "string list \<Rightarrow> string" where
  "join_comma [] = []"
| "join_comma [x] = x"
| "join_comma (x # y # ys) = x @ CHR '','' # join_comma (y # ys)"

fun encode :: "json \<Rightarrow> string" where
  "encode JNull = ''n''"
| "encode (JNum n) = ''d:'' @ format_hlc n"
| "encode (JDec d) = ''d:'' @ d"
| "encode (JStr s) = ''s:'' @ json_quote s"
| "encode (JBool b) = (if b then ''t'' else ''f'')"
| "encode (JArr xs) = CHR ''['' # join_comma (map encode xs) @ '']''"
| "encode (JObj m) = CHR ''{'' # join_comma (map (\<lambda>(key, v). json_quote key @ CHR '':'' # v)
     (sort_key fst (map (\<lambda>(key, v). (key, encode v)) m))) @ ''}''"

definition strings_json :: "string list option \<Rightarrow> json" where
  "strings_json anyOf = (case anyOf of None \<Rightarrow> JNull | Some ss \<Rightarrow> JArr (map JStr ss))"

definition predicate_json :: "Predicate \<Rightarrow> json" where
  "predicate_json p = (case p of
     FieldPredicate field v \<Rightarrow> JObj [(''kind'', JStr ''field''), (''field'', JStr field), (''value'', v)]
   | RelationshipPredicate as' type anyOf \<Rightarrow>
       JObj [(''kind'', JStr ''relationship''), (''as'', JStr as'), (''type'', JStr type), (''anyOf'', strings_json anyOf)]
   | MembershipPredicate anyOf \<Rightarrow> JObj [(''kind'', JStr ''membership''), (''anyOf'', strings_json anyOf)])"

definition order_json :: "QueryOrder \<Rightarrow> json" where
  "order_json ord = JObj [(''field'', JStr (qo_field ord)), (''direction'', JStr (case qo_direction ord of Asc \<Rightarrow> ''asc'' | Desc \<Rightarrow> ''desc''))]"

definition join_json :: "Join \<Rightarrow> json" where
  "join_json j = (case j of
     RelationshipJoin as' type target direction cardinality \<Rightarrow>
       JObj [(''kind'', JStr ''relationship''), (''as'', JStr as'), (''type'', JStr type), (''target'', JStr target),
             (''direction'', JStr (case direction of Forward \<Rightarrow> ''forward'' | Reverse \<Rightarrow> ''reverse'')),
             (''cardinality'', JStr (case cardinality of One \<Rightarrow> ''one'' | Many \<Rightarrow> ''many''))]
   | MembershipJoin as' target \<Rightarrow>
       JObj [(''kind'', JStr ''membership''), (''as'', JStr as'), (''target'', JStr target), (''cardinality'', JStr ''many'')])"

definition query_json :: "Query \<Rightarrow> json" where
  "query_json q = JObj [(''source'', JStr (qy_source q)),
     (''groups'', JArr (map (\<lambda>g. JArr (map predicate_json g)) (qy_groups q))),
     (''order'', case qy_order q of None \<Rightarrow> JNull | Some ord \<Rightarrow> order_json ord),
     (''limit'', case qy_limit q of None \<Rightarrow> JNull | Some n \<Rightarrow> JNum n),
     (''joins'', JArr (map join_json (qy_joins q)))]"

definition queryKey :: "QuerySurface \<Rightarrow> Query \<Rightarrow> string" where
  "queryKey surface query = surface_name surface @ CHR 0x0A # encode (query_json query)"

section \<open>Quoted strings end where they end\<close>

lemma hex_char_inj: "a < 16 \<Longrightarrow> b < 16 \<Longrightarrow> hex_char a = hex_char b \<Longrightarrow> a = b"
proof -
  assume "a < 16" "b < 16" "hex_char a = hex_char b"
  then have "(of_char (hex_char a) :: nat) = of_char (hex_char b)" by simp
  with \<open>a < 16\<close> \<open>b < 16\<close> show ?thesis by (simp add: hex_char_def split: if_splits)
qed

lemma escape_prefix:
  assumes "escape_char a @ r = escape_char b @ s"
  shows "a = b \<and> r = s"
proof -
  have "a = b" if "of_char a < (32 :: nat)" "of_char b < (32 :: nat)"
    "hex_char (of_char a div 16) = hex_char (of_char b div 16)" "hex_char (of_char a mod 16) = hex_char (of_char b mod 16)"
  proof -
    have "(of_char a :: nat) div 16 = of_char b div 16" "(of_char a :: nat) mod 16 = of_char b mod 16"
      using that by (auto intro: hex_char_inj)
    then have "(of_char a :: nat) = of_char b" by (metis div_mult_mod_eq)
    then show ?thesis by simp
  qed
  with assms show ?thesis by (auto simp: escape_char_def split: if_splits)
qed

lemma escape_nonquote: "escape_char a \<noteq> [] \<and> hd (escape_char a) \<noteq> CHR 0x22"
  by (simp add: escape_char_def)

lemma quote_prefix:
  assumes "json_quote a @ r = json_quote b @ s"
  shows "a = b \<and> r = s"
proof -
  have "concat (map escape_char a) @ CHR 0x22 # r = concat (map escape_char b) @ CHR 0x22 # s \<Longrightarrow> a = b \<and> r = s"
  proof (induction a arbitrary: b)
    case Nil
    then show ?case using escape_nonquote by (cases b) (auto simp: Cons_eq_append_conv, metis list.sel(1))
  next
    case (Cons x xs)
    show ?case
    proof (cases b)
      case Nil
      with Cons.prems escape_nonquote [of x] show ?thesis by (cases "escape_char x") auto
    next
      case b: (Cons y ys)
      from Cons.prems escape_prefix [of x "concat (map escape_char xs) @ CHR 0x22 # r" y "concat (map escape_char ys) @ CHR 0x22 # s"]
      have "x = y" "concat (map escape_char xs) @ CHR 0x22 # r = concat (map escape_char ys) @ CHR 0x22 # s" by (simp_all add: b)
      with Cons.IH [of ys] show ?thesis by (simp add: b)
    qed
  qed
  with assms show ?thesis by (simp add: json_quote_def)
qed

section \<open>The encoding determines the value\<close>

text \<open>The value with the keys of every object in order: what two values with one encoding have in common.\<close>

fun canonical :: "json \<Rightarrow> json" where
  "canonical (JArr xs) = JArr (map canonical xs)"
| "canonical (JObj m) = JObj (sort_key fst (map (\<lambda>(key, v). (key, canonical v)) m))"
| "canonical v = v"

text \<open>Number literals: the text of a number that is not an integer, without a separator of the encoding.\<close>

definition separator :: "char \<Rightarrow> bool" where
  "separator ch \<longleftrightarrow> ch = CHR '','' \<or> ch = CHR '']'' \<or> ch = CHR ''}''"

definition decimal_ok :: "string \<Rightarrow> bool" where
  "decimal_ok d \<longleftrightarrow> list_all (\<lambda>ch. \<not> separator ch) d \<and> (case parse d of Inl _ \<Rightarrow> True | Inr n \<Rightarrow> d \<noteq> format_hlc n)"

fun json_ok :: "json \<Rightarrow> bool" where
  "json_ok (JDec d) = decimal_ok d"
| "json_ok (JArr xs) = list_all json_ok xs"
| "json_ok (JObj m) = list_all (\<lambda>(key, v). json_ok v) m"
| "json_ok _ = True"

definition stop :: "string \<Rightarrow> bool" where
  "stop r \<longleftrightarrow> (case r of [] \<Rightarrow> True | ch # _ \<Rightarrow> separator ch)"

definition self_delimiting :: "('a \<Rightarrow> string) \<Rightarrow> ('a \<Rightarrow> 'b) \<Rightarrow> 'a \<Rightarrow> 'a \<Rightarrow> bool" where
  "self_delimiting f c x y \<longleftrightarrow> (\<forall>r s. stop r \<longrightarrow> stop s \<longrightarrow> f x @ r = f y @ s \<longrightarrow> c x = c y \<and> r = s)"

lemma no_separator_prefix:
  assumes "list_all (\<lambda>ch. \<not> separator ch) a" "list_all (\<lambda>ch. \<not> separator ch) b" "a @ r = b @ s" "stop r" "stop s"
  shows "a = b \<and> r = s"
  using assms
proof (induction a arbitrary: b)
  case Nil
  then show ?case by (cases b) (auto simp: stop_def)
next
  case (Cons x xs)
  then show ?case by (cases b) (auto simp: stop_def)
qed

lemma join_comma_prefix:
  assumes "\<forall>x \<in> set xs. \<forall>y \<in> set ys. self_delimiting f c x y" "\<forall>x \<in> set xs \<union> set ys. f x \<noteq> [] \<and> \<not> separator (hd (f x))"
    and "separator e" "e \<noteq> CHR '',''" "join_comma (map f xs) @ e # r = join_comma (map f ys) @ e # s"
  shows "map c xs = map c ys \<and> r = s"
  using assms(1,2,5)
proof (induction xs arbitrary: ys)
  case Nil
  show ?case
  proof (cases ys)
    case (Cons y zs)
    with Nil.prems(2) obtain ch w where "f y = ch # w" "\<not> separator ch" by (cases "f y") auto
    with Nil.prems(3) assms(3) Cons show ?thesis by (cases zs) auto
  qed (use Nil.prems in simp)
next
  case (Cons x xs)
  show ?case
  proof (cases ys)
    case Nil
    with Cons.prems(2) obtain ch w where "f x = ch # w" "\<not> separator ch" by (cases "f x") auto
    with Cons.prems(3) assms(3) Nil show ?thesis by (cases xs) auto
  next
    case ys: (Cons y zs)
    let ?rest = "\<lambda>us r. if us = [] then e # r else CHR '','' # join_comma (map f us) @ e # r"
    have split: "join_comma (map f (u # us)) @ e # r = f u @ ?rest us r" for u us r by (cases us) simp_all
    have stop: "stop (?rest us r)" for us r using assms(3) by (simp add: stop_def separator_def)
    have "f x @ ?rest xs r = f y @ ?rest zs s" using Cons.prems(3) unfolding ys split .
    moreover have "self_delimiting f c x y" using Cons.prems(1) ys by simp
    ultimately have xy: "c x = c y" "?rest xs r = ?rest zs s" using stop unfolding self_delimiting_def by blast+
    show ?thesis
    proof (cases "xs = [] \<or> zs = []")
      case True
      with xy assms(4) show ?thesis by (auto simp: ys split: if_splits)
    next
      case False
      with xy(2) have "join_comma (map f xs) @ e # r = join_comma (map f zs) @ e # s" by simp
      with Cons.IH [of zs] Cons.prems(1,2) ys xy(1) show ?thesis by simp
    qed
  qed
qed

lemma encode_head: "encode v \<noteq> [] \<and> \<not> separator (hd (encode v))"
  by (cases v) (simp_all add: separator_def)

lemma format_plain: "list_all (\<lambda>ch. \<not> separator ch) (format_hlc n)"
proof -
  have "\<not> separator ch" if "ch \<in> set (dec_nat k)" for ch k
  proof -
    have "is_digit ch" using dec_nat_digits [of k] that by (simp add: list_all_iff)
    then show ?thesis by (auto simp: is_digit_def separator_def)
  qed
  then show ?thesis by (auto simp: format_hlc_def list_all_iff separator_def)
qed

lemma sorted_entries: "sort_key fst (map (\<lambda>(key, v). (key, g v)) m) = map (\<lambda>(key, v). (key, g v)) (sort_key fst m)"
proof -
  have ins: "insort_key fst ((\<lambda>(key, v). (key, g v)) e) (map (\<lambda>(key, v). (key, g v)) es) = map (\<lambda>(key, v). (key, g v)) (insort_key fst e es)" for e es
    by (induction es) (auto simp: split: prod.splits)
  show ?thesis by (induction m) (simp_all add: ins)
qed

lemma sort_key_idem: "sort_key f (sort_key f xs) = sort_key f xs"
  by (simp add: sort_key_id_if_sorted)

lemma encode_self_delimiting: "json_ok a \<Longrightarrow> json_ok b \<Longrightarrow> self_delimiting encode canonical a b"
proof (induction a arbitrary: b)
  case JNull
  then show ?case by (cases b) (auto simp: self_delimiting_def)
next
  case (JBool x)
  then show ?case by (cases b) (auto simp: self_delimiting_def)
next
  case (JNum n)
  show ?case
    unfolding self_delimiting_def
  proof (intro allI impI)
    fix r s
    assume stop: "stop r" "stop s" and eq: "encode (JNum n) @ r = encode b @ s"
    show "canonical (JNum n) = canonical b \<and> r = s"
    proof (cases b)
      case (JNum k)
      with eq no_separator_prefix [OF format_plain format_plain _ stop, of n k] show ?thesis by (simp add: format_inj)
    next
      case (JDec d)
      with JNum.prems have d: "list_all (\<lambda>ch. \<not> separator ch) d" "d \<noteq> format_hlc n" by (auto simp: decimal_ok_def parse_format)
      with eq no_separator_prefix [OF format_plain d(1) _ stop, of n] show ?thesis by (simp add: JDec)
    qed (use eq in \<open>auto split: if_splits\<close>)
  qed
next
  case (JDec d)
  then have d: "list_all (\<lambda>ch. \<not> separator ch) d" "\<And>n. d \<noteq> format_hlc n" by (auto simp: decimal_ok_def parse_format)
  show ?case
    unfolding self_delimiting_def
  proof (intro allI impI)
    fix r s
    assume stop: "stop r" "stop s" and eq: "encode (JDec d) @ r = encode b @ s"
    show "canonical (JDec d) = canonical b \<and> r = s"
    proof (cases b)
      case (JNum k)
      with eq no_separator_prefix [OF d(1) format_plain _ stop, of k] d(2) show ?thesis by simp
    next
      case b: (JDec d')
      with JDec.prems have d': "list_all (\<lambda>ch. \<not> separator ch) d'" by (simp add: decimal_ok_def)
      with eq no_separator_prefix [OF d(1) d' _ stop] show ?thesis by (simp add: b)
    qed (use eq in \<open>auto split: if_splits\<close>)
  qed
next
  case (JStr t)
  show ?case
    unfolding self_delimiting_def
  proof (intro allI impI)
    fix r s
    assume "encode (JStr t) @ r = encode b @ s"
    then show "canonical (JStr t) = canonical b \<and> r = s" by (cases b) (auto dest: quote_prefix split: if_splits)
  qed
next
  case (JArr xs)
  show ?case
    unfolding self_delimiting_def
  proof (intro allI impI)
    fix r s
    assume eq: "encode (JArr xs) @ r = encode b @ s"
    show "canonical (JArr xs) = canonical b \<and> r = s"
    proof (cases b)
      case b: (JArr ys)
      have "\<forall>x \<in> set xs. \<forall>y \<in> set ys. self_delimiting encode canonical x y" using JArr b by (auto simp: list_all_iff)
      from join_comma_prefix [OF this, of "CHR '']''" r s] eq encode_head show ?thesis by (simp add: b separator_def)
    qed (use eq in \<open>auto split: if_splits\<close>)
  qed
next
  case (JObj m)
  show ?case
    unfolding self_delimiting_def
  proof (intro allI impI)
    fix r s
    assume eq: "encode (JObj m) @ r = encode b @ s"
    show "canonical (JObj m) = canonical b \<and> r = s"
    proof (cases b)
      case b: (JObj n)
      let ?f = "\<lambda>(key, v). json_quote key @ CHR '':'' # encode v" and ?c = "\<lambda>(key, v). (key, canonical v)"
      have "self_delimiting ?f ?c x y" if "x \<in> set (sort_key fst m)" "y \<in> set (sort_key fst n)" for x y
      proof -
        obtain k v l w where xy: "x = (k, v)" "y = (l, w)" by (cases x, cases y)
        have "self_delimiting encode canonical v w"
          using JObj.IH [of x v w] JObj.prems that by (force simp: b xy list_all_iff)
        then show ?thesis unfolding self_delimiting_def xy by (auto dest!: quote_prefix)
      qed
      moreover have "?f x \<noteq> [] \<and> \<not> separator (hd (?f x))" for x by (cases x) (simp add: json_quote_def separator_def)
      moreover have "join_comma (map ?f (sort_key fst m)) @ CHR ''}'' # r = join_comma (map ?f (sort_key fst n)) @ CHR ''}'' # s"
        using eq by (simp add: b sorted_entries [unfolded case_prod_unfold] comp_def case_prod_unfold)
      ultimately have "map ?c (sort_key fst m) = map ?c (sort_key fst n) \<and> r = s"
        by (intro join_comma_prefix [where f = ?f and e = "CHR ''}''"]) (simp_all add: separator_def)
      then show ?thesis by (simp add: b sorted_entries)
    qed (use eq in \<open>auto split: if_splits\<close>)
  qed
qed

lemma encode_canonical: "encode (canonical v) = encode v"
proof (induction v)
  case (JArr xs)
  then show ?case by (simp add: comp_def cong: map_cong)
next
  case (JObj m)
  then have "map (\<lambda>(key, v). (key, encode (canonical v))) m = map (\<lambda>(key, v). (key, encode v)) m" by (force intro: map_cong)
  then have "sort_key fst (map (\<lambda>(key, v). (key, encode (canonical v))) m) = sort_key fst (map (\<lambda>(key, v). (key, encode v)) m)"
    by (rule arg_cong)
  moreover have "sort_key fst (map (\<lambda>(key, v). (key, encode v)) (sort_key fst (map (\<lambda>(key, v). (key, canonical v)) m))) =
      sort_key fst (map (\<lambda>(key, v). (key, encode (canonical v))) m)"
    by (simp add: sorted_entries [of "\<lambda>v. encode (canonical v)", unfolded case_prod_unfold]
        sorted_entries [unfolded case_prod_unfold] sort_key_idem case_prod_unfold comp_def)
  ultimately show ?case by simp
qed simp_all


section \<open>One entry per query\<close>

text \<open>What a query means as a key: predicate values up to the order of their keys.\<close>

definition canonical_predicate :: "Predicate \<Rightarrow> Predicate" where
  "canonical_predicate p = (case p of FieldPredicate field v \<Rightarrow> FieldPredicate field (canonical v) | _ \<Rightarrow> p)"

definition canonical_query :: "Query \<Rightarrow> Query" where
  "canonical_query q = q\<lparr>qy_groups := map (map canonical_predicate) (qy_groups q)\<rparr>"

definition query_ok :: "Query \<Rightarrow> bool" where
  "query_ok q \<longleftrightarrow> list_all (list_all (\<lambda>p. case p of FieldPredicate _ v \<Rightarrow> json_ok v | _ \<Rightarrow> True)) (qy_groups q)"

lemma canonical_strings: "canonical (strings_json ss) = strings_json ss" "json_ok (strings_json ss)"
  by (auto simp: strings_json_def list_all_iff split: option.splits)

lemma strings_json_inj: "strings_json ss = strings_json ts \<longleftrightarrow> ss = ts"
  by (auto simp: strings_json_def inj_map_eq_map inj_def split: option.splits)

lemma canonical_predicate_json:
  "canonical (predicate_json p) = canonical (predicate_json p') \<longleftrightarrow> canonical_predicate p = canonical_predicate p'"
  by (cases p; cases p') (auto simp: predicate_json_def canonical_predicate_def canonical_strings strings_json_inj)

lemma canonical_join_json: "canonical (join_json j) = canonical (join_json j') \<longleftrightarrow> j = j'"
  by (cases j; cases j') (auto simp: join_json_def split: JoinDirection.splits JoinCardinality.splits)

lemma canonical_order_json: "canonical (order_json ord) = canonical (order_json ord') \<longleftrightarrow> ord = ord'"
  by (cases ord; cases ord') (auto simp: order_json_def split: Direction.splits)

lemma canonical_order_object: "canonical (order_json ord) \<noteq> JNull" "JNull \<noteq> canonical (order_json ord)"
  by (simp_all add: order_json_def)

lemma json_ok_query: "query_ok q \<Longrightarrow> json_ok (query_json q)"
proof -
  assume ok: "query_ok q"
  have p: "json_ok (predicate_json p)" if "g \<in> set (qy_groups q)" "p \<in> set g" for g p
    using ok that by (cases p) (fastforce simp: query_ok_def list_all_iff predicate_json_def canonical_strings)+
  have "json_ok (join_json j)" for j by (cases j) (simp_all add: join_json_def)
  with p show ?thesis by (auto simp: query_json_def order_json_def list_all_iff split: option.splits)
qed

lemma map_same_classes: "(\<And>x y. f x = f y \<longleftrightarrow> g x = g y) \<Longrightarrow> map f xs = map f ys \<longleftrightarrow> map g xs = map g ys"
proof (induction xs arbitrary: ys)
  case (Cons x xs)
  then show ?case by (cases ys) simp_all
qed auto

lemma canonical_query_json:
  "canonical (query_json q) = canonical (query_json q') \<longleftrightarrow> canonical_query q = canonical_query q'"
proof -
  have groups: "map (\<lambda>g. JArr (map (\<lambda>p. canonical (predicate_json p)) g)) gs = map (\<lambda>g. JArr (map (\<lambda>p. canonical (predicate_json p)) g)) gs' \<longleftrightarrow>
      map (map canonical_predicate) gs = map (map canonical_predicate) gs'" for gs gs'
  proof (intro map_same_classes)
    show "JArr (map (\<lambda>p. canonical (predicate_json p)) g) = JArr (map (\<lambda>p. canonical (predicate_json p)) g') \<longleftrightarrow>
        map canonical_predicate g = map canonical_predicate g'" for g g'
      unfolding json.inject by (intro map_same_classes canonical_predicate_json)
  qed
  have joins: "map (\<lambda>j. canonical (join_json j)) js = map (\<lambda>j. canonical (join_json j)) js' \<longleftrightarrow> map (\<lambda>j. j) js = map (\<lambda>j. j) js'" for js js'
    by (intro map_same_classes canonical_join_json)
  show ?thesis
    using groups [of "qy_groups q" "qy_groups q'"] joins [of "qy_joins q" "qy_joins q'"]
    by (cases q; cases q') (auto simp: query_json_def canonical_query_def comp_def canonical_order_json canonical_order_object split: option.splits)
qed

text \<open>
  C38: two queries share a cache entry only if they are the same query on the same surface. For queries whose numbers
  are written as the runtime writes them, equal keys mean equal surfaces and queries that differ at most in the order of the keys of
  an object they compare with; and such queries do have equal keys.
\<close>

theorem query_key_identifies:
  assumes "query_ok q" "query_ok q'"
  shows "queryKey surface q = queryKey surface' q' \<longleftrightarrow> surface = surface' \<and> canonical_query q = canonical_query q'"
proof -
  have "encode (query_json q) = encode (query_json q') \<Longrightarrow> canonical (query_json q) = canonical (query_json q')"
    using encode_self_delimiting [OF json_ok_query json_ok_query, OF assms] unfolding self_delimiting_def
    by (metis append.right_neutral list.simps(4) stop_def)
  then have "encode (query_json q) = encode (query_json q') \<longleftrightarrow> canonical_query q = canonical_query q'"
    unfolding canonical_query_json [symmetric] by (metis encode_canonical)
  then show ?thesis
    unfolding queryKey_def by (cases surface; cases surface') (simp_all add: surface_name_def)
qed

definition sample_filter :: Query where
  "sample_filter = (emptyQuery ''post'')\<lparr>qy_groups := [[FieldPredicate ''size'' (JObj [(''w'', JNum 1), (''h'', JNum 2)])]]\<rparr>"

theorem query_key_identifies_witness:
  "queryKey RowsSurface sample_filter = queryKey RowsSurface
     ((emptyQuery ''post'')\<lparr>qy_groups := [[FieldPredicate ''size'' (JObj [(''h'', JNum 2), (''w'', JNum 1)])]]\<rparr>) \<and>
   queryKey RowsSurface sample_filter \<noteq> queryKey RowsSurface (emptyQuery ''post'')"
proof -
  have "query_ok sample_filter" "query_ok (emptyQuery ''post'')"
    "query_ok ((emptyQuery ''post'')\<lparr>qy_groups := [[FieldPredicate ''size'' (JObj [(''h'', JNum 2), (''w'', JNum 1)])]]\<rparr>)"
    by (simp_all add: query_ok_def sample_filter_def emptyQuery_def)
  note key = query_key_identifies [OF this(1,2), of RowsSurface RowsSurface] query_key_identifies [OF this(1,3), of RowsSurface RowsSurface]
  show ?thesis unfolding key by (simp add: canonical_query_def canonical_predicate_def sample_filter_def emptyQuery_def)
qed


end
