(* ===== verification/ReplicaSignal.thy ===== *)
theory ReplicaSignal
  imports ReplicaProps
begin

text \<open>
  The engine signal over the replica and the row-level watcher (packages/client/src/sync/replica-signal.ts).

  A reader of the signal is its last revision; a watcher keeps its listeners by id and the calls it has made. The
  first sections give what readers rely on: an operation that advances the revision notifies, the journal names the
  type of each change, and a row the journal does not name since a revision has kept its content since.
\<close>

section \<open>Every advance of the revision notifies\<close>

named_theorems notified_simps \<open>operations that leave the count of notifications alone\<close>

lemma notified_helpers [notified_simps]:
  "rp_notified (addToType t i st) = rp_notified st" "rp_notified (removeFromType t i st) = rp_notified st"
  "rp_notified (releasePin i st) = rp_notified st" "rp_notified (cancelOpen i st) = rp_notified st"
  "rp_notified (reconcileIndex p n st) = rp_notified st" "rp_notified (pushWrite a u st) = rp_notified st"
  "rp_notified (settleRead i ep st) = rp_notified st"
  by (simp_all add: addToType_def removeFromType_def releasePin_def cancelOpen_def reconcileIndex_def pushWrite_def
      settleRead_def Let_def split: option.splits)

lemma notified_resync [notified_simps]: "rp_notified (resync cfg i p st) = rp_notified st"
proof -
  define n where "n = compose (map_of (rp_entities st) i) (getOr (map_of (rp_overlay st) i) [])"
  define R where "R = (case n of Some n \<Rightarrow> if resident_row cfg st n then Some n else None | None \<Rightarrow> None)"
  define st1 where "st1 = (if (case R of None \<Rightarrow> True | Some r \<Rightarrow> holds cfg (ent_type r)) then releasePin i st else st)"
  define st3 where "st3 = reconcileIndex p R (if getOr (map_of (rp_overlay st) i) [] = [] then st1\<lparr>rp_effective := obj_delete (rp_effective st1) i\<rparr>
    else st1\<lparr>rp_effective := obj_set (rp_effective st1) i R\<rparr>)"
  have "rp_notified st1 = rp_notified st" by (simp add: st1_def notified_simps)
  then have st3: "rp_notified st3 = rp_notified st" by (simp add: st3_def notified_simps)
  have "resync cfg i p st = (case R of
      None \<Rightarrow> (case n of Some n \<Rightarrow> bump cfg i (ent_type n) (deleted_hlc n \<noteq> None) st3
        | None \<Rightarrow> (case p of Some p \<Rightarrow> bump cfg i (ent_type p) True st3 | None \<Rightarrow> st3))
    | Some r \<Rightarrow> if contentChanged (refEq cfg) p (Some r) then bump cfg i (ent_type r) (deleted_hlc r \<noteq> None) st3 else st3)"
    unfolding resync_def Let_def st3_def st1_def R_def n_def ..
  then show ?thesis by (simp add: st3 split: option.split)
qed

lemma notified_foldBase [notified_simps]: "rp_notified (foldBase cfg u g h p st) = rp_notified st"
proof -
  let ?i = "subject_id u"
  have drop: "rp_notified (case x of None \<Rightarrow> s | Some q \<Rightarrow> removeFromType (ent_type q) i (s' q)) = n"
    if "rp_notified s = n" "\<And>q. rp_notified (s' q) = n" for x i s s' n
    using that by (cases x) (simp_all add: notified_simps)
  have keep: "rp_notified (case x of None \<Rightarrow> s | Some q \<Rightarrow> if b q then removeFromType (ent_type q) i s else s) = rp_notified s" for x b i s
    by (cases x) (simp_all add: notified_simps)
  show ?thesis
  proof (cases "applyUpdate True (map_of (rp_entities st) ?i) u g h")
    case None
    then show ?thesis by (simp add: foldBase_def Let_def)
  next
    case (Some n)
    define st3 where "st3 = addToType (ent_type n) ?i (case map_of (rp_entities st) ?i of None \<Rightarrow> st\<lparr>rp_entities := obj_set (rp_entities st) ?i n\<rparr>
      | Some q \<Rightarrow> if ent_type q \<noteq> ent_type n then removeFromType (ent_type q) ?i (st\<lparr>rp_entities := obj_set (rp_entities st) ?i n\<rparr>)
        else st\<lparr>rp_entities := obj_set (rp_entities st) ?i n\<rparr>)"
    have st3: "rp_notified st3 = rp_notified st" by (simp add: st3_def notified_simps keep)
    show ?thesis
      unfolding foldBase_def Let_def Some option.case st3_def [symmetric]
      by (cases "map_of (rp_orphans st3) ?i") (simp_all add: drop st3 notified_simps)
  qed
qed

lemma notified_fold [notified_simps]:
  "(\<And>x st. rp_notified (f x st) = rp_notified st) \<Longrightarrow> rp_notified (fold f xs st) = rp_notified st"
  by (induction xs arbitrary: st) simp_all

lemma notified_resyncAll [notified_simps]: "rp_notified (resyncAll cfg before ids st) = rp_notified st"
  by (simp add: resyncAll_def notified_simps)

lemma notified_dropOverlay: "dropOverlay aid before st = (ids, before', st') \<Longrightarrow> rp_notified st' = rp_notified st"
  by (auto simp: dropOverlay_def Let_def intro!: notified_fold)

lemma notified_push:
  "fold (\<lambda>u (before, touched, st). (g u before touched st, h u before touched st, pushWrite a u st)) us (before, touched, st) =
     (before', touched', st') \<Longrightarrow> rp_notified st' = rp_notified st"
  by (induction us arbitrary: before touched st) (auto simp: notified_simps)

lemma evictOne_notified: "evictOne cfg i st = (rem, st') \<Longrightarrow> rp_notified st' = rp_notified st \<and> (\<not> rem \<longrightarrow> rp_revision st' = rp_revision st)"
proof -
  let ?s = "reconcileIndex (viewOf st i) None (evicted i st)"
  assume e: "evictOne cfg i st = (rem, st')"
  have s: "rp_notified ?s = rp_notified st" "rp_revision ?s = rp_revision st"
    by (simp_all add: notified_simps evicted_fields) (simp_all add: reconcileIndex_def evicted_def Let_def notified_simps evicted_fields releasePin_def cancelOpen_def)
  show "rp_notified st' = rp_notified st \<and> (\<not> rem \<longrightarrow> rp_revision st' = rp_revision st)"
    using e s unfolding evictOne_eq Let_def by (cases "case viewOf st i of Some p \<Rightarrow> Some p | None \<Rightarrow> map_of (rp_entities st) i") auto
qed

lemma evictLoop_notified:
  "evictLoop cfg ids seen rem st = (rem', st') \<Longrightarrow>
     rp_notified st' = rp_notified st \<and> (rem \<longrightarrow> rem') \<and> (\<not> rem' \<longrightarrow> rp_revision st' = rp_revision st)"
proof (induction cfg ids seen rem st rule: evictLoop.induct)
  case (2 cfg i ids seen rem st)
  obtain r s where s: "evictOne cfg i st = (r, s)" by (cases "evictOne cfg i st")
  from 2 s evictOne_notified [OF s] show ?case by (auto split: if_splits)
qed simp

definition tells :: "Replica \<Rightarrow> Replica \<Rightarrow> bool" where
  "tells st st' \<longleftrightarrow> rp_notified st \<le> rp_notified st' \<and> (rp_revision st' \<noteq> rp_revision st \<longrightarrow> rp_notified st < rp_notified st')"

lemma tells_notify: "rp_notified st' = rp_notified st \<Longrightarrow> tells st (notify st')"
  by (simp add: tells_def notify_def)

lemma tells_quiet: "rp_notified st' = rp_notified st \<Longrightarrow> rp_revision st' = rp_revision st \<Longrightarrow> tells st st'"
  by (simp add: tells_def)

lemma tells_trans: "tells a b \<Longrightarrow> tells b c \<Longrightarrow> tells a c"
  by (auto simp: tells_def)

lemma tells_evict: "tells st (evict cfg ids st)"
proof -
  obtain r s where s: "evictLoop cfg ids [] False st = (r, s)" by (cases "evictLoop cfg ids [] False st")
  from evictLoop_notified [OF s] s show ?thesis by (auto simp: evict_def tells_def notify_def)
qed

lemma tells_openPin: "tells st (openPin cfg i st)"
proof -
  let ?s = "(releasePin i st)\<lparr>rp_pins := obj_set (rp_pins (releasePin i st)) i \<lparr>pin_open = True, pin_timer = False\<rparr>\<rparr>"
  have "tells st ?s" by (rule tells_quiet) (simp_all add: notified_simps releasePin_def)
  then show ?thesis using tells_trans [OF _ tells_evict] by (simp add: openPin_def Let_def)
qed

lemma tells_closePin: "tells st (closePin cfg i st)"
proof -
  have "tells st (evict cfg [i] (st\<lparr>rp_pins := ps\<rparr>))" for ps
    by (rule tells_trans [OF tells_quiet tells_evict]) simp_all
  then show ?thesis by (auto simp: closePin_def tells_def split: option.splits)
qed

lemma tells_cancelOpen: "tells st (cancelOpen i st)"
  by (rule tells_quiet) (simp_all add: cancelOpen_def)

lemma tells_install: "tells st (install cfg i row buffered st)"
proof -
  let ?s = "addToType (ent_type row) i (st\<lparr>rp_entities := obj_set (rp_entities st) i row\<rparr>)"
  have "tells st ?s" by (rule tells_quiet) (simp_all add: notified_simps addToType_def split: option.splits)
  then have "tells st (openPin cfg i ?s)" by (rule tells_trans [OF _ tells_openPin])
  then show ?thesis by (simp add: install_def Let_def notified_simps tells_def notify_def)
qed

lemma tells_load: "tells st (load cfg r st)"
proof -
  have rows: "rp_notified s' = rp_notified s" if "fold (load_row cfg) es (s, rv, fw) = (s', rv', fw')" for es s rv fw s' rv' fw'
    using that
  proof (induction es arbitrary: s rv fw)
    case (Cons e es)
    obtain s1 rv1 fw1 where one: "load_row cfg e (s, rv, fw) = (s1, rv1, fw1)" by (cases "load_row cfg e (s, rv, fw)")
    then have "rp_notified s1 = rp_notified s" by (auto simp: load_row_def Let_def notified_simps split: if_splits)
    with Cons one show ?case by simp
  qed simp
  show ?thesis
    by (auto simp: load_def Let_def tells_def notify_def notified_simps split: prod.splits dest!: rows)
qed

lemma replica_step_tells: "tells st (replica_step cfg op st)"
proof (cases op)
  case (Ingest a delta p)
  then show ?thesis
    by (auto simp: replica_step_def ingest_def Let_def notified_simps split: prod.splits dest!: notified_dropOverlay intro!: tells_notify)
next
  case (Optimistic a)
  then show ?thesis
    by (auto simp: replica_step_def optimistic_def notified_simps split: prod.splits dest!: notified_push intro!: tells_notify)
next
  case (Discard aid)
  then show ?thesis
    by (auto simp: replica_step_def discard_def notified_simps split: prod.splits dest!: notified_dropOverlay intro!: tells_notify)
next
  case (Open b i)
  then show ?thesis
    using tells_openPin by (auto simp: replica_step_def open'_def Let_def intro: tells_quiet split: option.splits)
next
  case (OpenResolved i ep row)
  have "tells st (settleRead i ep st)" by (rule tells_quiet) (simp_all add: settleRead_def)
  moreover have "tells (settleRead i ep st) ((settleRead i ep st)\<lparr>rp_pendingOpens := x\<rparr>)" for x by (rule tells_quiet) simp_all
  ultimately show ?thesis
    using OpenResolved tells_trans tells_install
    by (auto simp: replica_step_def open_resolved_def Let_def split: option.splits) blast+
next
  case (OpenRejected i ep)
  then show ?thesis by (auto simp: replica_step_def open_rejected_def settleRead_def intro!: tells_quiet)
next
  case (Close i)
  then show ?thesis
    using tells_cancelOpen tells_trans [OF tells_cancelOpen tells_closePin] tells_trans [OF tells_cancelOpen tells_evict]
    by (auto simp: replica_step_def close_def Let_def intro: tells_quiet split: option.splits)
next
  case (PinExpired i)
  then show ?thesis
    using tells_evict by (auto simp: replica_step_def pin_expired_def intro: tells_quiet split: option.splits)
qed (simp_all add: replica_step_def tells_evict tells_load)

section \<open>Rows the journal does not name\<close>

lemma replica_runs_ok:
  assumes "config_ok cfg" "run_ok tyof cfg st" "list_all (op_typed tyof) ops"
  shows "run_ok tyof cfg (fold (replica_step cfg) ops st)" "rp_revision st \<le> rp_revision (fold (replica_step cfg) ops st)"
proof -
  have "run_ok tyof cfg (fold (replica_step cfg) ops st) \<and> rp_revision st \<le> rp_revision (fold (replica_step cfg) ops st)"
    using assms(2,3)
  proof (induction ops arbitrary: st)
    case (Cons op ops)
    have "op_typed tyof op" using Cons.prems(2) by simp
    note step = replica_step_inv(1,3) [OF assms(1) Cons.prems(1) this]
    from Cons.IH [OF step(1)] step(2) Cons.prems(2) show ?case by simp
  qed simp
  then show "run_ok tyof cfg (fold (replica_step cfg) ops st)" "rp_revision st \<le> rp_revision (fold (replica_step cfg) ops st)"
    by blast+
qed

text \<open>The journal reaches back over a step only if the step did not replace the replica.\<close>

lemma replica_step_kept:
  assumes "config_ok cfg" "run_ok tyof cfg st" "op_typed tyof op" "rp_changeFloor (replica_step cfg op st) \<le> rp_revision st"
  shows "step_ok tyof cfg st (replica_step cfg op st)"
proof (cases "\<exists>r. op = Load r")
  case False
  then show ?thesis using replica_step_inv(2) [OF assms(1-3)] by blast
next
  case True
  then obtain r where op: "op = Load r" by blast
  have "\<not> valid_record r"
  proof
    assume v: "valid_record r"
    have "record_typed tyof r" using assms(3) op by (simp add: op_typed_def record_typed_def own_def list_all_iff)
    from load_inv(3,4) [OF this v, where cfg = cfg and st = st] assms(4) show False by (simp add: op replica_step_def)
  qed
  with assms(2) show ?thesis by (simp add: op replica_step_def load_def isValidReplicaRecord_typed run_ok_def step_ok_def)
qed

lemma journal_kept:
  assumes "config_ok cfg" "run_ok tyof cfg st" "list_all (op_typed tyof) ops" "rp_changeFloor (fold (replica_step cfg) ops st) \<le> rp_revision st"
  shows "rp_changeFloor st \<le> rp_changeFloor (fold (replica_step cfg) ops st) \<and>
    (\<forall>r j. logged r j st \<longrightarrow> logged r j (fold (replica_step cfg) ops st))"
  using assms(2-4)
proof (induction ops arbitrary: st)
  case (Cons op ops)
  let ?st = "replica_step cfg op st"
  have op: "op_typed tyof op" and ops: "list_all (op_typed tyof) ops" using Cons.prems(2) by simp_all
  note step = replica_step_inv(1,3) [OF assms(1) Cons.prems(1) op]
  have ih: "rp_changeFloor ?st \<le> rp_changeFloor (fold (replica_step cfg) ops ?st) \<and>
      (\<forall>r j. logged r j ?st \<longrightarrow> logged r j (fold (replica_step cfg) ops ?st))"
    using Cons.prems(3) step(2) by (intro Cons.IH [OF step(1) ops]) simp
  moreover have "step_ok tyof cfg st ?st"
    using ih Cons.prems(3) by (intro replica_step_kept [OF assms(1) Cons.prems(1) op]) simp
  ultimately show ?case by (auto simp: step_ok_def)
qed simp

text \<open>
  Between two states of a run, a row that the journal does not name is the same up to any reflexive and transitive
  relation that relates rows with unchanged content.
\<close>

definition fields_ok :: "Entity option \<Rightarrow> bool" where
  "fields_ok row \<longleftrightarrow> (case row of None \<Rightarrow> True | Some e \<Rightarrow> obj_ok (ent_fields e))"

lemma run_fields_ok: "run_ok tyof cfg st \<Longrightarrow> fields_ok (viewOf st i)"
  using replica_view_own by (fastforce simp: run_ok_def fields_ok_def own_def split: option.splits)

lemma unnamed_row_kept:
  assumes "config_ok cfg" "run_ok tyof cfg st" "list_all (op_typed tyof) ops"
    and "rp_changeFloor (fold (replica_step cfg) ops st) \<le> rp_revision st"
    and "i \<notin> ch_id ` set (changesSince (fold (replica_step cfg) ops st) (rp_revision st))"
    and R: "\<And>a. R a a" "\<And>a b c. R a b \<Longrightarrow> R b c \<Longrightarrow> R a c" 
      "\<And>a b. fields_ok a \<Longrightarrow> fields_ok b \<Longrightarrow> \<not> contentChanged (refEq cfg) a b \<Longrightarrow> R a b"
  shows "R (replica_get st i) (replica_get (fold (replica_step cfg) ops st) i)"
proof -
  have get: "replica_get s = viewOf s" for s by (simp add: replica_get_def viewOf_def fun_eq_iff)
  have unlogged: "\<not> logged (rp_revision st) i (fold (replica_step cfg) ops st)"
    using assms(4,5) by (auto simp: logged_def changesSince_def changes_def)
  have "R (viewOf st i) (viewOf (fold (replica_step cfg) ops st) i)"
    if "list_all (op_typed tyof) ops" "rp_changeFloor (fold (replica_step cfg) ops st) \<le> r" "run_ok tyof cfg st" "r \<le> rp_revision st"
      "\<not> logged r i (fold (replica_step cfg) ops st)" for r
    using that
  proof (induction ops arbitrary: st)
    case Nil
    then show ?case using R(1) by simp
  next
    case (Cons op ops)
    let ?st = "replica_step cfg op st"
    have op: "op_typed tyof op" and ops: "list_all (op_typed tyof) ops" using Cons.prems(1) by simp_all
    note step = replica_step_inv(1,3) [OF assms(1) Cons.prems(3) op]
    have fl: "rp_changeFloor (fold (replica_step cfg) ops ?st) \<le> r" using Cons.prems(2) by simp
    have rest: "R (viewOf ?st i) (viewOf (fold (replica_step cfg) ops ?st) i)"
      using Cons.IH [OF ops fl step(1)] step(2) Cons.prems(4,5) by simp
    have kept: "rp_changeFloor ?st \<le> rp_changeFloor (fold (replica_step cfg) ops ?st) \<and>
        (\<forall>r j. logged r j ?st \<longrightarrow> logged r j (fold (replica_step cfg) ops ?st))"
      using fl step(2) Cons.prems(4) by (intro journal_kept [OF assms(1) step(1) ops]) simp
    have "step_ok tyof cfg st ?st"
      using kept fl Cons.prems(4) by (intro replica_step_kept [OF assms(1) Cons.prems(3) op]) simp
    moreover have "\<not> logged r i ?st" using kept Cons.prems(5) by auto
    moreover have "logged r i ?st" if "logged (rp_revision st) i ?st"
    proof -
      have "rp_changeFloor ?st \<le> rp_revision st" using kept fl Cons.prems(4) by simp
      with that obtain c where "c \<in> set (changes ?st)" "rp_revision st < ch_revision c" "ch_id c = i" by (auto simp: logged_def)
      with Cons.prems(4) show ?thesis by (force simp: logged_def)
    qed
    ultimately have "viewOf ?st i = viewOf st i \<or> \<not> contentChanged (refEq cfg) (viewOf st i) (viewOf ?st i)"
      by (auto simp: step_ok_def)
    then have "R (viewOf st i) (viewOf ?st i)"
      using R(1) R(3) [OF run_fields_ok [OF Cons.prems(3)] run_fields_ok [OF step(1)]] by metis
    with rest R(2) show ?case by simp
  qed
  from this [OF assms(3,4,2) _ unlogged] show ?thesis by (simp add: get)
qed

lemma changes_typed:
  assumes "run_ok tyof cfg st" "c \<in> set (changesSince st r)"
  shows "ch_type c = tyof (ch_id c)"
  using assms by (auto simp: run_ok_def replica_ok_def journal_ok_def changesSince_def changes_def split: if_splits)

text \<open>
  C26: rows and changes are typed by their id. If every Update, loaded record and opened row agrees with one
  assignment of types to ids, then after any run a row visible under an id carries that id and its type, iterating a
  type yields rows of that type only, and every change of the journal names the type of the row it is about.
\<close>

theorem replica_rows_typed:
  assumes "config_ok cfg" "list_all (op_typed tyof) ops"
  shows "let st = replica_run cfg ops in
    (\<forall>i e. replica_get st i = Some e \<longrightarrow> ent_id e = i \<and> ent_type e = tyof i) \<and>
    list_all (\<lambda>e. ent_type e = t \<and> tyof (ent_id e) = t) (iterate st t) \<and>
    list_all (\<lambda>c. ch_type c = tyof (ch_id c)) (changesSince st r)"
proof -
  let ?st = "replica_run cfg ops"
  have run: "run_ok tyof cfg ?st" by (rule replica_run_ok [OF assms])
  then have own: "own tyof i e" if "replica_get ?st i = Some e" for i e
    using that replica_view_own by (auto simp: run_ok_def replica_get_def viewOf_def)
  have "set (iterate ?st t) = {e. \<exists>i. replica_get ?st i = Some e \<and> ent_type e = t}"
    using iterate_view [OF assms, where t = t] by (simp add: Let_def)
  then show ?thesis using own changes_typed [OF run] by (auto simp: Let_def list_all_iff own_def)
qed

theorem replica_rows_typed_witness:
  "(case replica_get (replica_run sample_config sample_run) ''r_1'' of None \<Rightarrow> False
     | Some e \<Rightarrow> ent_id e = ''r_1'' \<and> ent_type e = ''relationship'') \<and>
   list_all (\<lambda>c. ch_type c = ''relationship'') (changesSince (replica_run sample_config sample_run) 0)"
  using replica_rows_typed [OF sample_run_ok, where r = 0] by (simp add: Let_def sample_run_view)

section \<open>The row watcher\<close>

record EntityWatcher =
  ew_entity :: "string list obj"
  ew_accessors :: "string list obj"
  ew_last :: "int option"
  ew_calls :: "(string \<times> Entity option) list"

definition createEntityWatcher :: EntityWatcher where
  "createEntityWatcher = \<lparr>ew_entity = [], ew_accessors = [], ew_last = None, ew_calls = []\<rparr>"

text \<open>What a subscription of the signal hands its listener at a notification, and its last revision after it.\<close>

definition signal_read :: "Replica \<Rightarrow> int \<Rightarrow> ReplicaChange list option \<times> int" where
  "signal_read st seen = (if rp_revision st = seen then (None, seen) else (Some (changesSince st seen), rp_revision st))"

definition accessorSubjectField :: "string \<Rightarrow> string option" where
  "accessorSubjectField type =
     (if type = RELATIONSHIP_ENTITY_TYPE then Some ''source_id''
      else if type = MEMBERSHIP_ENTITY_TYPE then Some ''entity_id'' else None)"

definition stringField :: "Entity \<Rightarrow> string \<Rightarrow> string option" where
  "stringField entity field = (case readStringField entity field of Some s \<Rightarrow> if s = [] then None else Some s | None \<Rightarrow> None)"

definition addListener :: "string list obj \<Rightarrow> string \<Rightarrow> string \<Rightarrow> string list obj" where
  "addListener m i l = (case map_of m i of None \<Rightarrow> obj_set m i [l] | Some bucket \<Rightarrow> obj_set m i (set_add bucket l))"

definition removeListener :: "string list obj \<Rightarrow> string \<Rightarrow> string \<Rightarrow> string list obj" where
  "removeListener m i l = (case map_of m i of
     None \<Rightarrow> m
   | Some bucket \<Rightarrow> (let bucket' = set_remove bucket l in if bucket' = [] then obj_delete m i else obj_set m i bucket'))"

definition accessor_calls :: "Replica \<Rightarrow> EntityWatcher \<Rightarrow> ReplicaChange \<Rightarrow> (string \<times> Entity option) list" where
  "accessor_calls st w change = (case replica_get st (ch_id change) of
     None \<Rightarrow> []
   | Some row \<Rightarrow> (case accessorSubjectField (ent_type row) of
       None \<Rightarrow> []
     | Some field \<Rightarrow> (case stringField row field of
         None \<Rightarrow> []
       | Some subject \<Rightarrow> map (\<lambda>l. (l, replica_get st subject)) (getOr (map_of (ew_accessors w) subject) []))))"

definition dispatch :: "Replica \<Rightarrow> ReplicaChange list \<Rightarrow> EntityWatcher \<Rightarrow> EntityWatcher" where
  "dispatch st cs w =
     (let touched = fold (\<lambda>change s. set_add s (ch_id change)) cs []
      in w\<lparr>ew_calls := ew_calls w @ concat (map (accessor_calls st w) cs) @
            concat (map (\<lambda>i. map (\<lambda>l. (l, replica_get st i)) (getOr (map_of (ew_entity w) i) [])) touched)\<rparr>)"

definition watcher_notified :: "Replica \<Rightarrow> EntityWatcher \<Rightarrow> EntityWatcher" where
  "watcher_notified st w = (case ew_last w of
     None \<Rightarrow> w
   | Some seen \<Rightarrow> (case signal_read st seen of
       (None, _) \<Rightarrow> w
     | (Some cs, revision) \<Rightarrow> dispatch st cs (w\<lparr>ew_last := Some revision\<rparr>)))"

definition watcher_subscribe :: "Replica \<Rightarrow> EntityWatcher \<Rightarrow> EntityWatcher" where
  "watcher_subscribe st w = (case ew_last w of None \<Rightarrow> w\<lparr>ew_last := Some (rp_revision st)\<rparr> | Some _ \<Rightarrow> w)"

definition watcher_release :: "EntityWatcher \<Rightarrow> EntityWatcher" where
  "watcher_release w = (if ew_entity w \<noteq> [] \<or> ew_accessors w \<noteq> [] then w else w\<lparr>ew_last := None\<rparr>)"

text \<open>The replica and its watcher. A notification inside an operation counts as delivered at its end.\<close>

datatype watch_event =
    ReplicaOp replica_op
  | WatchEntity string string
  | UnwatchEntity string string
  | WatchAccessors string string
  | UnwatchAccessors string string

definition watch_step :: "ReplicaConfig \<Rightarrow> watch_event \<Rightarrow> Replica \<times> EntityWatcher \<Rightarrow> Replica \<times> EntityWatcher" where
  "watch_step cfg ev s = (case s of (st, w) \<Rightarrow> (case ev of
     ReplicaOp op \<Rightarrow> (let st' = replica_step cfg op st
       in (st', if rp_notified st' = rp_notified st then w else watcher_notified st' w))
   | WatchEntity i l \<Rightarrow> (st, watcher_subscribe st (w\<lparr>ew_entity := addListener (ew_entity w) i l\<rparr>))
   | UnwatchEntity i l \<Rightarrow> (st, watcher_release (w\<lparr>ew_entity := removeListener (ew_entity w) i l\<rparr>))
   | WatchAccessors i l \<Rightarrow> (st, watcher_subscribe st (w\<lparr>ew_accessors := addListener (ew_accessors w) i l\<rparr>))
   | UnwatchAccessors i l \<Rightarrow> (st, watcher_release (w\<lparr>ew_accessors := removeListener (ew_accessors w) i l\<rparr>))))"

abbreviation watch_run :: "ReplicaConfig \<Rightarrow> watch_event list \<Rightarrow> Replica \<times> EntityWatcher" where
  "watch_run cfg evs \<equiv> fold (watch_step cfg) evs (createReplica, createEntityWatcher)"

definition watch_typed :: "(string \<Rightarrow> string) \<Rightarrow> watch_event \<Rightarrow> bool" where
  "watch_typed tyof ev = (case ev of ReplicaOp op \<Rightarrow> op_typed tyof op | _ \<Rightarrow> True)"

definition watcher_ok :: "Replica \<Rightarrow> EntityWatcher \<Rightarrow> bool" where
  "watcher_ok st w \<longleftrightarrow> (ew_entity w \<noteq> [] \<or> ew_accessors w \<noteq> [] \<longrightarrow> ew_last w \<noteq> None) \<and>
     (case ew_last w of None \<Rightarrow> True | Some seen \<Rightarrow> seen = rp_revision st)"

lemma watch_step_ok:
  assumes "config_ok cfg" "run_ok tyof cfg st" "watcher_ok st w" "watch_typed tyof ev" "watch_step cfg ev (st, w) = (st', w')"
  shows "run_ok tyof cfg st'" "watcher_ok st' w'"
proof -
  have add: "addListener m i l \<noteq> []" "removeListener [] i l = []" for m i l by (simp_all add: addListener_def removeListener_def split: option.splits)
  have "run_ok tyof cfg st' \<and> watcher_ok st' w'"
  proof (cases ev)
    case (ReplicaOp op)
    have "tells st (replica_step cfg op st)" by (rule replica_step_tells)
    with ReplicaOp assms replica_step_inv(1) [OF assms(1,2)] show ?thesis
      by (auto simp: watch_step_def watch_typed_def Let_def watcher_ok_def watcher_notified_def signal_read_def dispatch_def tells_def
          split: option.splits if_splits)
  qed (use assms add in \<open>auto simp: watch_step_def watcher_ok_def watcher_subscribe_def watcher_release_def split: option.splits if_splits\<close>)
  then show "run_ok tyof cfg st'" "watcher_ok st' w'" by blast+
qed

lemma watch_run_ok:
  assumes "config_ok cfg" "list_all (watch_typed tyof) evs"
  shows "run_ok tyof cfg (fst (watch_run cfg evs)) \<and> watcher_ok (fst (watch_run cfg evs)) (snd (watch_run cfg evs))"
  using assms(2)
proof (induction evs rule: rev_induct)
  case Nil
  then show ?case using createReplica_ok by (simp add: watcher_ok_def createEntityWatcher_def)
next
  case (snoc ev evs)
  obtain st w where s: "watch_run cfg evs = (st, w)" by (cases "watch_run cfg evs")
  obtain st' w' where s': "watch_step cfg ev (st, w) = (st', w')" by (cases "watch_step cfg ev (st, w)")
  from snoc s have "run_ok tyof cfg st" "watcher_ok st w" "watch_typed tyof ev" by simp_all
  from watch_step_ok [OF assms(1) this s'] s show ?case by (simp add: s')
qed

text \<open>
  C22: a watcher of a row hears of its changes. Whenever an operation of the replica changes the content of a row that
  someone watches, every listener of that row is called with the row as it is after the operation, as long as the
  journal still reaches back to the revision before it.
\<close>

theorem row_watchers_called:
  assumes "config_ok cfg" "list_all (watch_typed tyof) evs" "op_typed tyof op"
    and st: "watch_run cfg evs = (st, w)" "watch_step cfg (ReplicaOp op) (st, w) = (st', w')"
    and "contentChanged (refEq cfg) (replica_get st i) (replica_get st' i)" "replica_get st' i \<noteq> replica_get st i"
    and "rp_changeFloor st' \<le> rp_revision st" "map_of (ew_entity w) i = Some bucket" "l \<in> set bucket"
  shows "(l, replica_get st' i) \<in> set (drop (length (ew_calls w)) (ew_calls w'))"
proof -
  have get: "replica_get s = viewOf s" for s by (simp add: replica_get_def viewOf_def fun_eq_iff)
  have ok: "run_ok tyof cfg st" "watcher_ok st w" using watch_run_ok [OF assms(1,2)] st(1) by simp_all
  have st': "st' = replica_step cfg op st" using st(2) by (simp add: watch_step_def Let_def)
  have "step_ok tyof cfg st st'" using replica_step_kept [OF assms(1) ok(1) assms(3)] assms(8) st' by simp
  then have "logged (rp_revision st) i st'" using assms(6,7) by (simp add: step_ok_def get)
  with assms(8) obtain c where c: "c \<in> set (changes st')" "rp_revision st < ch_revision c" "ch_id c = i" by (auto simp: logged_def)
  then have since: "c \<in> set (changesSince st' (rp_revision st))" using assms(8) by (simp add: changesSince_def changes_def)
  have "run_ok tyof cfg st'" using replica_step_inv(1) [OF assms(1) ok(1) assms(3)] st' by simp
  then have "map ch_revision (changes st') = [rp_changeFloor st' + 1..rp_revision st']" by (simp add: run_ok_def replica_ok_def journal_ok_def)
  then have "ch_revision c \<le> rp_revision st'" using c(1) by (metis (no_types, opaque_lifting) atLeastAtMost_iff image_eqI list.set_map set_upto)
  then have rev: "rp_revision st' \<noteq> rp_revision st" using c(2) by simp
  then have noted: "rp_notified st' \<noteq> rp_notified st" using replica_step_tells [of st cfg op] st' by (auto simp: tells_def)
  have "ew_entity w \<noteq> []" using assms(9) by auto
  then have seen: "ew_last w = Some (rp_revision st)" using ok(2) by (auto simp: watcher_ok_def split: option.splits)
  have w': "w' = dispatch st' (changesSince st' (rp_revision st)) (w\<lparr>ew_last := Some (rp_revision st')\<rparr>)"
    using st(2) noted rev seen by (simp add: watch_step_def Let_def st' [symmetric] watcher_notified_def signal_read_def)
  have touched: "set (fold (\<lambda>change s. set_add s (ch_id change)) cs acc) = set acc \<union> ch_id ` set cs" for cs acc
    by (induction cs arbitrary: acc) (auto simp: js_simps)
  have "(l, replica_get st' i) \<in> (\<lambda>l. (l, replica_get st' i)) ` set (getOr (map_of (ew_entity w) i) [])" using assms(9,10) by simp
  with since c(3) show ?thesis unfolding w' by (auto simp: dispatch_def Let_def touched)
qed


section \<open>Sample runs\<close>

definition sample_watch :: "watch_event list" where
  "sample_watch = [WatchEntity ''r_1'' ''view'']"

theorem row_watchers_called_witness:
  "(''view'', replica_get (replica_run sample_config sample_run) ''r_1'') \<in>
     set (ew_calls (snd (watch_run sample_config (sample_watch @ [ReplicaOp (Optimistic (sample_action ''a_1'' [sample_link]))]))))"
proof -
  let ?op = "Optimistic (sample_action ''a_1'' [sample_link])"
  obtain w' where w': "watch_step sample_config (ReplicaOp ?op) (watch_run sample_config sample_watch) = (replica_run sample_config sample_run, w')"
    by (simp add: sample_watch_def watch_step_def Let_def replica_run_def sample_run_def)
  obtain w where w: "watch_run sample_config sample_watch = (createReplica, w)" "map_of (ew_entity w) ''r_1'' = Some [''view'']" "ew_calls w = []"
    by (simp add: sample_watch_def watch_step_def watcher_subscribe_def addListener_def createEntityWatcher_def)
  have floor: "rp_changeFloor (replica_run sample_config sample_run) = 0" by code_simp
  have "(''view'', replica_get (replica_run sample_config sample_run) ''r_1'') \<in> set (drop (length (ew_calls w)) (ew_calls w'))"
  proof (rule row_watchers_called [OF sample_run_ok(1) _ _ w(1)])
    show "list_all (watch_typed (\<lambda>_. ''relationship'')) sample_watch" by (simp add: sample_watch_def watch_typed_def)
    show "op_typed (\<lambda>_. ''relationship'') ?op" using sample_run_ok(2) by (simp add: sample_run_def)
    show "watch_step sample_config (ReplicaOp ?op) (createReplica, w) = (replica_run sample_config sample_run, w')" using w' w(1) by simp
    have "replica_get createReplica i = None" for i by (simp add: createReplica_def replica_get_def)
    then show "contentChanged (refEq sample_config) (replica_get createReplica ''r_1'') (replica_get (replica_run sample_config sample_run) ''r_1'')"
      "replica_get (replica_run sample_config sample_run) ''r_1'' \<noteq> replica_get createReplica ''r_1''"
      by (simp_all add: sample_run_view contentChanged_def)
    show "rp_changeFloor (replica_run sample_config sample_run) \<le> rp_revision createReplica" by (simp add: floor createReplica_def)
    show "''view'' \<in> set [''view'']" by simp
  qed (rule w(2))
  with w' w(3) show ?thesis by simp
qed


definition sample_record :: ReplicaRecord where
  "sample_record = \<lparr>rec_format = REPLICA_RECORD_FORMAT, rec_position = 0, rec_revision = 1,
     rec_entities = [\<lparr>ent_id = ''r_1'', ent_type = ''relationship'', ent_fields = [], created_hlc = 5, updated_hlc = 5,
       deleted_hlc = None, last_gsn = 1\<rparr>]\<rparr>"


end
