(* ===== verification/QueryCache.thy ===== *)
theory QueryCache
  imports QueryKey ReplicaSignal
begin

text \<open>
  The reactive cache of query results (packages/client/src/sync/query-cache.ts) over the replica, its journal and its
  signal, and the source of a collection subscription (namespace.ts), which is one of the queries it runs.

  An entry is a cell that the stores handed out by \<^verbatim>\<open>watch\<close> refer to; the table maps the key of a query to the cell
  it currently names. Listeners are names, and the calls made to them are recorded. A promise of the source or of its
  readiness is the state \<open>Executing\<close> or \<open>Hydrating\<close> of the entry, and its settlement a later event. The microtask that
  publishes \<^verbatim>\<open>stale\<close> is queued with the variables of the run that queued it. An error is its message. Rows of a result
  are JSON values.
\<close>

section \<open>Data\<close>

datatype QueryStatus = Unloaded | Stale | Current | Failed

record QueryResult =
  qr_data :: "json list option"
  qr_status :: QueryStatus
  qr_loading :: bool
  qr_error :: "string option"

record ListenerState =
  ls_initial :: bool
  ls_revision :: int

text \<open>What the closures of a run in flight remember.\<close>

record RunContext =
  rc_run :: nat
  rc_revision :: int
  rc_hadData :: bool
  rc_hadError :: bool
  rc_startedStale :: bool
  rc_publishedStale :: bool

datatype run_state = Idle | Hydrating | Executing RunContext

text \<open>The result of \<^verbatim>\<open>execute\<close>: rows at once, an error thrown, or a promise.\<close>

datatype outcome = Ran "json list" | Threw string | Promised

record CacheEntry =
  ce_key :: string
  ce_source :: "Replica \<Rightarrow> outcome"
  ce_readTypes :: "string list"
  ce_data :: "json list option"
  ce_error :: "string option"
  ce_revision :: "int option"
  ce_snapshot :: QueryResult
  ce_listeners :: "ListenerState obj"
  ce_refs :: int
  ce_evictTimer :: bool
  ce_running :: run_state
  ce_runs :: nat
  ce_queued :: "RunContext list"
  ce_calls :: "string list"

text \<open>How far the source is: ready, ready once \<^verbatim>\<open>ready()\<close> has returned, or only when its promise settles.\<close>

datatype readiness = Ready | ReadyNow | ReadyLater

definition DEFAULT_QUERY_TTL_MS :: int where "DEFAULT_QUERY_TTL_MS = 300000"

text \<open>Structural equality over the result rows.\<close>

function sameValue :: "js_runtime \<Rightarrow> json \<Rightarrow> json \<Rightarrow> bool" where
  "sameValue js a b =
     (if strict_equal js a b then True
      else (case (a, b) of
          (JArr xs, JArr ys) \<Rightarrow> length xs = length ys \<and> list_all (\<lambda>i. sameValue js (xs ! i) (ys ! i)) [0..<length xs]
        | (JObj m, JObj m') \<Rightarrow> length m = length m' \<and>
            list_all (\<lambda>kv. case map_of m' (fst kv) of None \<Rightarrow> False | Some v \<Rightarrow> sameValue js (snd kv) v) m
        | _ \<Rightarrow> False))"
  by pat_completeness auto
termination
proof (relation "measure (\<lambda>(js, a, b). size a)")
  fix js :: js_runtime and a b :: json and x y xs ys i
  assume "(x, y) = (a, b)" "x = JArr xs" "i \<in> set [0..<length xs]"
  then show "((js, xs ! i, ys ! i), js, a, b) \<in> measure (\<lambda>(js, a, b). size a)"
    by (auto simp: less_Suc_eq_le intro!: size_list_estimation' [of "xs ! i" xs])
next
  fix js :: js_runtime and a b :: json and x y m and m' :: "(string \<times> json) list" and kv v
  assume "(x, y) = (a, b)" "x = JObj m" "kv \<in> set m"
  then show "((js, snd kv, v), js, a, b) \<in> measure (\<lambda>(js, a, b). size a)"
    by (cases kv) (auto simp: less_Suc_eq_le intro!: size_list_estimation' [of kv m])
qed simp

declare sameValue.simps [simp del]

definition sameRows :: "js_runtime \<Rightarrow> json list \<Rightarrow> json list \<Rightarrow> bool" where
  "sameRows js a b \<longleftrightarrow> length a = length b \<and> list_all (\<lambda>i. sameValue js (a ! i) (b ! i)) [0..<length a]"

definition initialSnapshot :: QueryResult where
  "initialSnapshot = \<lparr>qr_data = None, qr_status = Unloaded, qr_loading = True, qr_error = None\<rparr>"

section \<open>One entry\<close>

definition statusOf :: "Replica \<Rightarrow> CacheEntry \<Rightarrow> QueryStatus" where
  "statusOf st entry =
     (if ce_error entry \<noteq> None then Failed
      else if ce_data entry = None then Unloaded
      else if ce_revision entry = Some (rp_revision st) then Current else Stale)"

definition refresh :: "Replica \<Rightarrow> CacheEntry \<Rightarrow> CacheEntry" where
  "refresh st entry =
     (let status = statusOf st entry; error = (if status = Failed then ce_error entry else None); cur = ce_snapshot entry
      in if qr_data cur = ce_data entry \<and> qr_status cur = status \<and> qr_error cur = error then entry
         else entry\<lparr>ce_snapshot := \<lparr>qr_data = ce_data entry, qr_status = status, qr_loading = (status = Unloaded), qr_error = error\<rparr>\<rparr>)"

definition isRelevant :: "Replica \<Rightarrow> CacheEntry \<Rightarrow> int \<Rightarrow> bool" where
  "isRelevant st entry since =
     (if rp_revision st = since then False
      else (let cs = changesSince st since in cs = [] \<or> list_ex (\<lambda>c. ch_type c \<in> set (ce_readTypes entry)) cs))"

definition notifyAll :: "CacheEntry \<Rightarrow> CacheEntry" where
  "notifyAll entry = entry\<lparr>ce_calls := ce_calls entry @ obj_keys (ce_listeners entry)\<rparr>"

definition notifyInitial :: "Replica \<Rightarrow> CacheEntry \<Rightarrow> CacheEntry" where
  "notifyInitial st entry = entry\<lparr>ce_calls := ce_calls entry @
     map fst (filter (\<lambda>(l, state). ls_initial state \<or> isRelevant st entry (ls_revision state)) (ce_listeners entry))\<rparr>"

definition settle :: "js_runtime \<Rightarrow> Replica \<Rightarrow> RunContext \<Rightarrow> json list \<Rightarrow> CacheEntry \<Rightarrow> CacheEntry" where
  "settle js st ctx data entry =
     (let changed = (\<not> rc_hadData ctx \<or> \<not> sameRows js (getOr (ce_data entry) []) data);
          entry = entry\<lparr>ce_running := Idle\<rparr>;
          entry = (if changed then entry\<lparr>ce_data := Some data\<rparr> else entry);
          entry = refresh st (entry\<lparr>ce_error := None, ce_revision := Some (rc_revision ctx)\<rparr>)
      in if \<not> rc_hadData ctx then notifyInitial st entry
         else if changed \<or> rc_hadError ctx \<or> rc_startedStale ctx \<or> rc_publishedStale ctx then notifyAll entry
         else entry)"

definition fail :: "Replica \<Rightarrow> RunContext \<Rightarrow> string \<Rightarrow> CacheEntry \<Rightarrow> CacheEntry" where
  "fail st ctx error entry =
     (let changed = (ce_error entry \<noteq> Some error);
          entry = refresh st (entry\<lparr>ce_running := Idle, ce_error := Some error\<rparr>)
      in if changed \<or> rc_startedStale ctx \<or> rc_publishedStale ctx
         then if rc_hadData ctx then notifyAll entry else notifyInitial st entry
         else entry)"

text \<open>
  A run starts at the replica's revision, so a source that answers at once settles at that revision and leaves
  nothing to reconcile.
\<close>

definition execute :: "js_runtime \<Rightarrow> Replica \<Rightarrow> CacheEntry \<Rightarrow> CacheEntry" where
  "execute js st entry =
     (let ctx = \<lparr>rc_run = ce_runs entry, rc_revision = rp_revision st, rc_hadData = (ce_data entry \<noteq> None), rc_hadError = (ce_error entry \<noteq> None),
                 rc_startedStale = (qr_status (ce_snapshot entry) = Stale), rc_publishedStale = False\<rparr>;
          entry = refresh st (entry\<lparr>ce_running := Executing ctx, ce_runs := Suc (ce_runs entry)\<rparr>)
      in case ce_source entry st of
           Ran data \<Rightarrow> settle js st ctx data entry
         | Threw error \<Rightarrow> fail st ctx error entry
         | Promised \<Rightarrow> entry\<lparr>ce_queued := ce_queued entry @ [ctx]\<rparr>)"

definition hydrate' :: "js_runtime \<Rightarrow> readiness \<Rightarrow> Replica \<Rightarrow> CacheEntry \<Rightarrow> CacheEntry" where
  "hydrate' js ready st entry =
     (if ce_running entry \<noteq> Idle then entry
      else (case ready of ReadyLater \<Rightarrow> entry\<lparr>ce_running := Hydrating\<rparr> | _ \<Rightarrow> execute js st entry))"

definition ready_resolved :: "js_runtime \<Rightarrow> Replica \<Rightarrow> CacheEntry \<Rightarrow> CacheEntry" where
  "ready_resolved js st entry =
     (if ce_running entry = Hydrating then execute js st (entry\<lparr>ce_running := Idle\<rparr>) else entry)"

definition ready_rejected :: "Replica \<Rightarrow> string \<Rightarrow> CacheEntry \<Rightarrow> CacheEntry" where
  "ready_rejected st error entry =
     (if ce_running entry = Hydrating then notifyInitial st (refresh st (entry\<lparr>ce_running := Idle, ce_error := Some error\<rparr>)) else entry)"

definition retry_failed :: "js_runtime \<Rightarrow> readiness \<Rightarrow> Replica \<Rightarrow> CacheEntry \<Rightarrow> CacheEntry" where
  "retry_failed js ready st entry =
     (if ce_error entry \<noteq> None \<and> ce_data entry = None \<and> ce_running entry = Idle then hydrate' js ready st entry else entry)"

definition reconcile :: "js_runtime \<Rightarrow> readiness \<Rightarrow> Replica \<Rightarrow> CacheEntry \<Rightarrow> CacheEntry" where
  "reconcile js ready st entry =
     (if ce_running entry \<noteq> Idle then entry
      else if ce_data entry = None
      then if ce_refs entry = 0 then entry
           else if ce_error entry \<noteq> None \<and> isRelevant st entry (getOr (ce_revision entry) 0)
           then retry_failed js ready st entry else entry
      else if ce_revision entry = Some (rp_revision st) then entry
      else if ce_refs entry = 0 then refresh st entry
      else (case ce_revision entry of
          Some r \<Rightarrow> if \<not> isRelevant st entry r then refresh st (entry\<lparr>ce_revision := Some (rp_revision st)\<rparr>)
                    else execute js st entry
        | None \<Rightarrow> execute js st entry))"

definition promise_resolved :: "js_runtime \<Rightarrow> readiness \<Rightarrow> Replica \<Rightarrow> json list \<Rightarrow> CacheEntry \<Rightarrow> CacheEntry" where
  "promise_resolved js ready st data entry = (case ce_running entry of
     Executing ctx \<Rightarrow> (let entry = settle js st ctx data entry
       in if rp_revision st \<noteq> rc_revision ctx then reconcile js ready st entry else entry)
   | _ \<Rightarrow> entry)"

definition promise_rejected :: "js_runtime \<Rightarrow> readiness \<Rightarrow> Replica \<Rightarrow> string \<Rightarrow> CacheEntry \<Rightarrow> CacheEntry" where
  "promise_rejected js ready st error entry = (case ce_running entry of
     Executing ctx \<Rightarrow> (let entry = fail st ctx error entry
       in if rp_revision st \<noteq> rc_revision ctx then reconcile js ready st entry else entry)
   | _ \<Rightarrow> entry)"

text \<open>The microtask that publishes \<^verbatim>\<open>stale\<close> while the run is still pending.\<close>

definition mark_published :: "nat \<Rightarrow> CacheEntry \<Rightarrow> CacheEntry" where
  "mark_published run entry = (case ce_running entry of
     Executing ctx \<Rightarrow> if rc_run ctx = run then entry\<lparr>ce_running := Executing (ctx\<lparr>rc_publishedStale := True\<rparr>)\<rparr> else entry
   | _ \<Rightarrow> entry)"

definition publish_stale :: "CacheEntry \<Rightarrow> CacheEntry" where
  "publish_stale entry = (case ce_queued entry of
     [] \<Rightarrow> entry
   | ctx # queued \<Rightarrow>
       (let stillStale = (qr_status (ce_snapshot entry) = Stale); entry = entry\<lparr>ce_queued := queued\<rparr>
        in if ce_running entry = Idle \<or> \<not> rc_hadData ctx \<or> rc_startedStale ctx \<or> \<not> stillStale then entry
           else notifyAll (mark_published (rc_run ctx) entry)))"

section \<open>The table of entries\<close>

text \<open>The options: a lifetime in milliseconds, \<^const>\<open>None\<close> for a number that is not finite.\<close>

record QueryCache =
  qc_entries :: "nat obj"
  qc_cells :: "CacheEntry list"
  qc_last :: int
  qc_hydrated :: bool
  qc_ttlMs :: "int option"

definition createQueryCache :: "Replica \<Rightarrow> int option \<Rightarrow> QueryCache" where
  "createQueryCache st ttlMs = \<lparr>qc_entries = [], qc_cells = [], qc_last = rp_revision st, qc_hydrated = False, qc_ttlMs = ttlMs\<rparr>"

definition cancelEviction :: "CacheEntry \<Rightarrow> CacheEntry" where
  "cancelEviction entry = (if ce_evictTimer entry then entry\<lparr>ce_evictTimer := False\<rparr> else entry)"

definition scheduleEviction :: "int option \<Rightarrow> CacheEntry \<Rightarrow> CacheEntry" where
  "scheduleEviction ttlMs entry = (case ttlMs of
     None \<Rightarrow> entry
   | Some ms \<Rightarrow> if ms \<le> 0 \<or> ce_evictTimer entry then entry else entry\<lparr>ce_evictTimer := True\<rparr>)"

definition ready_of :: "QueryCache \<Rightarrow> readiness" where
  "ready_of cache = (if qc_hydrated cache then Ready else ReadyLater)"

definition on_cell :: "nat \<Rightarrow> (CacheEntry \<Rightarrow> CacheEntry) \<Rightarrow> QueryCache \<Rightarrow> QueryCache" where
  "on_cell c f cache = (if c < length (qc_cells cache) then cache\<lparr>qc_cells := (qc_cells cache)[c := f (qc_cells cache ! c)]\<rparr> else cache)"

text \<open>The timer of \<^verbatim>\<open>scheduleEviction\<close>, when it fires.\<close>

definition evict_cell :: "nat \<Rightarrow> QueryCache \<Rightarrow> QueryCache" where
  "evict_cell c cache =
     (if c < length (qc_cells cache) \<and> ce_evictTimer (qc_cells cache ! c)
      then (let entry = qc_cells cache ! c; cache = on_cell c (\<lambda>entry. entry\<lparr>ce_evictTimer := False\<rparr>) cache
            in if ce_refs entry = 0 \<and> ce_listeners entry = [] then cache\<lparr>qc_entries := obj_delete (qc_entries cache) (ce_key entry)\<rparr> else cache)
      else cache)"

definition newEntry :: "string \<Rightarrow> Query \<Rightarrow> (Replica \<Rightarrow> outcome) \<Rightarrow> CacheEntry" where
  "newEntry key query source = \<lparr>ce_key = key, ce_source = source, ce_readTypes = pl_readTypes (planQuery query), ce_data = None,
     ce_error = None, ce_revision = None, ce_snapshot = initialSnapshot, ce_listeners = [], ce_refs = 0, ce_evictTimer = False,
     ce_running = Idle, ce_runs = 0, ce_queued = [], ce_calls = []\<rparr>"

definition watch :: "QuerySurface \<Rightarrow> Query \<Rightarrow> (Replica \<Rightarrow> outcome) \<Rightarrow> QueryCache \<Rightarrow> QueryCache" where
  "watch surface query source cache =
     (let key = queryKey surface query
      in case map_of (qc_entries cache) key of
           Some _ \<Rightarrow> cache
         | None \<Rightarrow> cache\<lparr>qc_entries := obj_set (qc_entries cache) key (length (qc_cells cache)),
             qc_cells := qc_cells cache @ [newEntry key query source]\<rparr>)"

definition join_listener :: "Replica \<Rightarrow> string \<Rightarrow> bool \<Rightarrow> CacheEntry \<Rightarrow> CacheEntry" where
  "join_listener st listener initial entry =
     (if ce_refs entry = 0 then cancelEviction entry else entry)
       \<lparr>ce_listeners := obj_set (ce_listeners entry) listener \<lparr>ls_initial = initial, ls_revision = rp_revision st\<rparr>, ce_refs := ce_refs entry + 1\<rparr>"

definition subscribe_cell :: "js_runtime \<Rightarrow> readiness \<Rightarrow> Replica \<Rightarrow> string \<Rightarrow> bool \<Rightarrow> CacheEntry \<Rightarrow> CacheEntry" where
  "subscribe_cell js ready st listener initial entry =
     (let entry = join_listener st listener initial entry
      in if ce_running entry \<noteq> Idle then entry
         else if ce_data entry = None then hydrate' js ready st entry
         else if ce_error entry \<noteq> None \<or> ce_revision entry \<noteq> Some (rp_revision st) then execute js st entry
         else entry)"

definition unsubscribe_cell :: "int option \<Rightarrow> string \<Rightarrow> CacheEntry \<Rightarrow> CacheEntry" where
  "unsubscribe_cell ttlMs listener entry =
     (if map_of (ce_listeners entry) listener = None then entry
      else (let entry = entry\<lparr>ce_listeners := obj_delete (ce_listeners entry) listener, ce_refs := ce_refs entry - 1\<rparr>
            in if ce_refs entry = 0 then scheduleEviction ttlMs entry else entry))"

text \<open>The cache's listener on the signal.\<close>

definition sweep_entries :: "js_runtime \<Rightarrow> Replica \<Rightarrow> QueryCache \<Rightarrow> QueryCache" where
  "sweep_entries js st cache =
     fold (\<lambda>c. on_cell c (reconcile js (ready_of cache) st)) (map snd (qc_entries cache)) cache"

definition cache_notified :: "js_runtime \<Rightarrow> Replica \<Rightarrow> QueryCache \<Rightarrow> QueryCache" where
  "cache_notified js st cache = (case signal_read st (qc_last cache) of
     (None, l) \<Rightarrow> cache\<lparr>qc_last := l\<rparr>
   | (Some changes', l) \<Rightarrow> sweep_entries js st (cache\<lparr>qc_last := l\<rparr>))"

datatype cache_event =
    CacheOp replica_op
  | Watch QuerySurface Query "Replica \<Rightarrow> outcome"
  | Subscribe nat string bool
  | Unsubscribe nat string
  | EvictTimer nat
  | Hydrated
  | ReadyResolved nat
  | ReadyRejected nat string
  | SourceResolved nat "json list"
  | SourceRejected nat string
  | Microtask nat

definition cache_step :: "ReplicaConfig \<Rightarrow> js_runtime \<Rightarrow> cache_event \<Rightarrow> Replica \<times> QueryCache \<Rightarrow> Replica \<times> QueryCache" where
  "cache_step cfg js ev = (\<lambda>(st, cache). case ev of
     CacheOp op \<Rightarrow>
       (let st' = replica_step cfg op st
        in (st', if rp_notified st' \<noteq> rp_notified st then cache_notified js st' cache else cache))
   | Watch surface query source \<Rightarrow> (st, watch surface query source cache)
   | Subscribe c l initial \<Rightarrow> (st, on_cell c (subscribe_cell js (ready_of cache) st l initial) cache)
   | Unsubscribe c l \<Rightarrow> (st, on_cell c (unsubscribe_cell (qc_ttlMs cache) l) cache)
   | EvictTimer c \<Rightarrow> (st, evict_cell c cache)
   | Hydrated \<Rightarrow> (st, cache\<lparr>qc_hydrated := True\<rparr>)
   | ReadyResolved c \<Rightarrow> (st, on_cell c (ready_resolved js st) cache)
   | ReadyRejected c error \<Rightarrow> (st, on_cell c (ready_rejected st error) cache)
   | SourceResolved c data \<Rightarrow> (st, on_cell c (promise_resolved js (ready_of cache) st data) cache)
   | SourceRejected c error \<Rightarrow> (st, on_cell c (promise_rejected js (ready_of cache) st error) cache)
   | Microtask c \<Rightarrow> (st, on_cell c publish_stale cache))"

definition cache_run :: "ReplicaConfig \<Rightarrow> js_runtime \<Rightarrow> int option \<Rightarrow> cache_event list \<Rightarrow> Replica \<times> QueryCache" where
  "cache_run cfg js ttlMs evs = fold (cache_step cfg js) evs (createReplica, createQueryCache createReplica ttlMs)"

text \<open>The ids of a collection subscription (namespace.ts): a run of the plan, without what it throws on a candidate-only executor.\<close>

definition collection_source :: "js_runtime \<Rightarrow> (Entity \<Rightarrow> string \<Rightarrow> json option) \<Rightarrow> Query \<Rightarrow> Replica \<Rightarrow> outcome" where
  "collection_source js resolveField query st =
     (case executePlan js resolveField (planQuery query) (createReplicaExecutor st) of
        None \<Rightarrow> Threw ''no index''
      | Some rows \<Rightarrow> Ran (map (JStr \<circ> ent_id) (filter (\<lambda>row. ent_type row = qy_source query) rows)))"

section \<open>A store outside the cache\<close>

record LocalStore =
  lo_snapshot :: QueryResult
  lo_listeners :: "string list"
  lo_started :: bool
  lo_pending :: bool
  lo_calls :: "string list"

definition createLocalQueryStore :: LocalStore where
  "createLocalQueryStore = \<lparr>lo_snapshot = initialSnapshot, lo_listeners = [], lo_started = False, lo_pending = False, lo_calls = []\<rparr>"

definition local_publish :: "QueryResult \<Rightarrow> LocalStore \<Rightarrow> LocalStore" where
  "local_publish next' store = store\<lparr>lo_snapshot := next', lo_calls := lo_calls store @ lo_listeners store\<rparr>"

definition local_subscribe :: "string \<Rightarrow> LocalStore \<Rightarrow> LocalStore" where
  "local_subscribe listener store =
     (let store = store\<lparr>lo_listeners := set_add (lo_listeners store) listener\<rparr>
      in if lo_started store then store else store\<lparr>lo_started := True, lo_pending := True\<rparr>)"

definition local_unsubscribe :: "string \<Rightarrow> LocalStore \<Rightarrow> LocalStore" where
  "local_unsubscribe listener store = store\<lparr>lo_listeners := set_remove (lo_listeners store) listener\<rparr>"

text \<open>The settlement of the one run.\<close>

definition local_settled :: "string + json list \<Rightarrow> LocalStore \<Rightarrow> LocalStore" where
  "local_settled result store =
     (if lo_pending store
      then local_publish (case result of
          Inr data \<Rightarrow> \<lparr>qr_data = Some data, qr_status = Current, qr_loading = False, qr_error = None\<rparr>
        | Inl error \<Rightarrow> \<lparr>qr_data = None, qr_status = Failed, qr_loading = False, qr_error = Some error\<rparr>) (store\<lparr>lo_pending := False\<rparr>)
      else store)"

datatype local_event = LocalSubscribe string | LocalUnsubscribe string | LocalSettled "string + json list"

definition local_step :: "local_event \<Rightarrow> LocalStore \<Rightarrow> LocalStore" where
  "local_step ev = (case ev of LocalSubscribe l \<Rightarrow> local_subscribe l | LocalUnsubscribe l \<Rightarrow> local_unsubscribe l | LocalSettled r \<Rightarrow> local_settled r)"

text \<open>The store runs once: a settled snapshot is the answer of the first subscription's run and never changes again.\<close>

lemma local_store_runs_once:
  "lo_started s \<Longrightarrow> \<not> lo_pending s \<Longrightarrow> lo_snapshot (fold local_step evs s) = lo_snapshot s"
proof (induction evs arbitrary: s)
  case (Cons ev evs)
  have "lo_started (local_step ev s)" "\<not> lo_pending (local_step ev s)" "lo_snapshot (local_step ev s) = lo_snapshot s"
    using Cons.prems by (cases ev; simp add: local_step_def local_subscribe_def local_unsubscribe_def local_settled_def Let_def)+
  with Cons.IH show ?case by simp
qed simp

section \<open>One entry over a synchronous source\<close>

text \<open>The snapshot a reader should see of an entry.\<close>

definition snapshot_of :: "Replica \<Rightarrow> CacheEntry \<Rightarrow> QueryResult" where
  "snapshot_of st e = \<lparr>qr_data = ce_data e, qr_status = statusOf st e, qr_loading = (statusOf st e = Unloaded),
     qr_error = (if statusOf st e = Failed then ce_error e else None)\<rparr>"

definition snap_ok :: "QueryResult \<Rightarrow> bool" where
  "snap_ok s \<longleftrightarrow> (qr_loading s \<longleftrightarrow> qr_status s = Unloaded)"

lemma snapshot_of_ok [simp]: "snap_ok (snapshot_of st e)"
  by (simp add: snap_ok_def snapshot_of_def)

lemma refresh_eq: "snap_ok (ce_snapshot e) \<Longrightarrow> refresh st e = e\<lparr>ce_snapshot := snapshot_of st e\<rparr>"
  by (cases "ce_snapshot e") (auto simp: refresh_def Let_def snapshot_of_def snap_ok_def intro!: CacheEntry.equality)

lemma statusOf_cong: "ce_data e = ce_data e' \<Longrightarrow> ce_error e = ce_error e' \<Longrightarrow> ce_revision e = ce_revision e' \<Longrightarrow> statusOf st e = statusOf st e'"
  by (simp add: statusOf_def)

lemma snapshot_of_update [simp]:
  "snapshot_of st (e\<lparr>ce_running := x\<rparr>) = snapshot_of st e" "snapshot_of st (e\<lparr>ce_runs := n\<rparr>) = snapshot_of st e"
  "snapshot_of st (e\<lparr>ce_snapshot := s\<rparr>) = snapshot_of st e" "snapshot_of st (e\<lparr>ce_calls := cs\<rparr>) = snapshot_of st e"
  "snapshot_of st (e\<lparr>ce_listeners := ls\<rparr>) = snapshot_of st e" "snapshot_of st (e\<lparr>ce_refs := m\<rparr>) = snapshot_of st e"
  "snapshot_of st (e\<lparr>ce_evictTimer := b\<rparr>) = snapshot_of st e" "snapshot_of st (e\<lparr>ce_queued := q\<rparr>) = snapshot_of st e"
  by (simp_all add: snapshot_of_def statusOf_def)

lemma snapshot_unloaded: "ce_data e = None \<Longrightarrow> snapshot_of st e = snapshot_of st' e"
  by (simp add: snapshot_of_def statusOf_def)

lemma obj_set_length: "length (obj_set m x v) \<le> Suc (length m)"
  by (induction m) auto

lemma obj_delete_length: "map_of m x \<noteq> None \<Longrightarrow> length (obj_delete m x) < length m"
  by (induction m) (auto simp: le_imp_less_Suc length_delete_le split: if_splits)

text \<open>Nothing left to do for a subscribed entry.\<close>

definition settled :: "Replica \<Rightarrow> CacheEntry \<Rightarrow> bool" where
  "settled st e \<longleftrightarrow> (ce_refs e \<noteq> 0 \<longrightarrow> ce_running e = Idle \<longrightarrow> ce_error e = None \<longrightarrow>
     ce_data e \<noteq> None \<and> ce_revision e = Some (rp_revision st))"

section \<open>The table\<close>

text \<open>What never changes of an entry.\<close>

definition statics :: "CacheEntry \<Rightarrow> string \<times> (Replica \<Rightarrow> outcome) \<times> string list" where
  "statics e = (ce_key e, ce_source e, ce_readTypes e)"

lemma statics_simps [simp]:
  "statics (e\<lparr>ce_data := a\<rparr>) = statics e" "statics (e\<lparr>ce_error := b\<rparr>) = statics e" "statics (e\<lparr>ce_revision := c\<rparr>) = statics e"
  "statics (e\<lparr>ce_snapshot := d\<rparr>) = statics e" "statics (e\<lparr>ce_listeners := f\<rparr>) = statics e" "statics (e\<lparr>ce_refs := g\<rparr>) = statics e"
  "statics (e\<lparr>ce_evictTimer := h\<rparr>) = statics e" "statics (e\<lparr>ce_running := i\<rparr>) = statics e" "statics (e\<lparr>ce_runs := j\<rparr>) = statics e"
  "statics (e\<lparr>ce_queued := l\<rparr>) = statics e" "statics (e\<lparr>ce_calls := m\<rparr>) = statics e"
  by (simp_all add: statics_def)

lemma statics_entry [simp]:
  "statics (refresh st e) = statics e" "statics (notifyAll e) = statics e" "statics (notifyInitial st e) = statics e"
  "statics (cancelEviction e) = statics e" "statics (scheduleEviction ttl e) = statics e" "statics (mark_published n e) = statics e"
  by (simp_all add: refresh_def Let_def notifyAll_def notifyInitial_def cancelEviction_def scheduleEviction_def mark_published_def
      split: option.splits run_state.splits)

lemma statics_runs [simp]: "statics (settle js st ctx data e) = statics e" "statics (fail st ctx error e) = statics e"
  by (simp_all add: settle_def fail_def Let_def)

lemma statics_calls [simp]: "statics (execute js st e) = statics e" "statics (hydrate' js ready st e) = statics e"
    "statics (ready_resolved js st e) = statics e" "statics (ready_rejected st error e) = statics e"
    "statics (retry_failed js ready st e) = statics e"
  by (simp_all add: execute_def hydrate'_def ready_resolved_def ready_rejected_def retry_failed_def Let_def split: outcome.splits readiness.splits)

lemma statics_events [simp]:
  "statics (reconcile js ready st e) = statics e" "statics (promise_resolved js ready st data e) = statics e"
  "statics (promise_rejected js ready st error e) = statics e" "statics (publish_stale e) = statics e"
  "statics (join_listener st l initial e) = statics e"
  "statics (unsubscribe_cell ttl l e) = statics e"
proof -
  show rec: "statics (reconcile js ready st e) = statics e" for e by (simp add: reconcile_def split: option.splits)
  show "statics (promise_resolved js ready st data e) = statics e" "statics (promise_rejected js ready st error e) = statics e"
    by (simp_all add: promise_resolved_def promise_rejected_def rec Let_def split: run_state.splits)
  show "statics (publish_stale e) = statics e" "statics (join_listener st l initial e) = statics e" "statics (unsubscribe_cell ttl l e) = statics e"
    by (simp_all add: publish_stale_def join_listener_def unsubscribe_cell_def Let_def split: list.splits)
qed

lemma statics_subscribe [simp]: "statics (subscribe_cell js ready st l initial e) = statics e"
  by (simp add: subscribe_cell_def Let_def)

definition attached :: "QueryCache \<Rightarrow> nat \<Rightarrow> bool" where
  "attached cache c \<longleftrightarrow> c \<in> snd ` set (qc_entries cache)"

definition table_ok :: "QueryCache \<Rightarrow> bool" where
  "table_ok cache \<longleftrightarrow> obj_ok (qc_entries cache) \<and>
     (\<forall>(key, c) \<in> set (qc_entries cache). c < length (qc_cells cache) \<and> ce_key (qc_cells cache ! c) = key)"

lemma table_other [simp]: "table_ok (cache\<lparr>qc_last := r\<rparr>) = table_ok cache" "table_ok (cache\<lparr>qc_hydrated := h\<rparr>) = table_ok cache"
    "attached (cache\<lparr>qc_last := r\<rparr>) = attached cache" "attached (cache\<lparr>qc_hydrated := h\<rparr>) = attached cache"
  by (simp_all add: table_ok_def attached_def fun_eq_iff)

lemma table_distinct: "table_ok cache \<Longrightarrow> distinct (map snd (qc_entries cache))"
proof -
  assume ok: "table_ok cache"
  then have "distinct (qc_entries cache)" by (auto simp: table_ok_def obj_ok_def distinct_map)
  moreover have "inj_on snd (set (qc_entries cache))"
  proof (rule inj_onI)
    fix a b
    assume "a \<in> set (qc_entries cache)" "b \<in> set (qc_entries cache)" "snd a = snd b"
    moreover have "ce_key (qc_cells cache ! snd x) = fst x" if "x \<in> set (qc_entries cache)" for x
      using ok that by (auto simp: table_ok_def)
    ultimately show "a = b" by (metis prod_eqI)
  qed
  ultimately show ?thesis by (simp add: distinct_map)
qed

lemma on_cell_parts [simp]:
  "qc_entries (on_cell c f cache) = qc_entries cache" "length (qc_cells (on_cell c f cache)) = length (qc_cells cache)"
  "qc_last (on_cell c f cache) = qc_last cache" "attached (on_cell c f cache) c' = attached cache c'"
  by (simp_all add: on_cell_def attached_def)

lemma on_cell_nth: "i < length (qc_cells cache) \<Longrightarrow> qc_cells (on_cell c f cache) ! i = (if i = c then f (qc_cells cache ! i) else qc_cells cache ! i)"
  by (simp add: on_cell_def nth_list_update)

lemma on_cells_parts [simp]:
  "qc_entries (fold (\<lambda>c. on_cell c f) cs cache) = qc_entries cache"
  "length (qc_cells (fold (\<lambda>c. on_cell c f) cs cache)) = length (qc_cells cache)"
  "qc_last (fold (\<lambda>c. on_cell c f) cs cache) = qc_last cache"
  by (induction cs arbitrary: cache) simp_all

lemma on_cells_nth:
  "distinct cs \<Longrightarrow> i < length (qc_cells cache) \<Longrightarrow>
    qc_cells (fold (\<lambda>c. on_cell c f) cs cache) ! i = (if i \<in> set cs then f (qc_cells cache ! i) else qc_cells cache ! i)"
  by (induction cs arbitrary: cache) (auto simp: on_cell_nth)

lemma attached_bound: "table_ok cache \<Longrightarrow> attached cache c \<Longrightarrow> c < length (qc_cells cache)"
  by (auto simp: table_ok_def attached_def)

text \<open>
  What the cache relies on in a query whose source answers at once: that the answer is determined by the content of
  the rows of its read types, and that two answers equal row by row are the same answer.
\<close>

locale cached_reader =
  fixes good :: "'k \<Rightarrow> bool" and cfg :: "'k \<Rightarrow> ReplicaConfig" and tyof :: "'k \<Rightarrow> string \<Rightarrow> string" and js :: "'k \<Rightarrow> js_runtime"
    and run :: "'k \<Rightarrow> Replica \<Rightarrow> outcome" and reads :: "'k \<Rightarrow> string list" and readable :: "'k \<Rightarrow> Replica \<Rightarrow> bool"
    and alike :: "'k \<Rightarrow> Entity option \<Rightarrow> Entity option \<Rightarrow> bool"
  assumes config: "good k \<Longrightarrow> config_ok (cfg k)"
    and synchronous: "good k \<Longrightarrow> run k st \<noteq> Promised"
    and alike_refl: "good k \<Longrightarrow> alike k a a"
    and alike_trans: "good k \<Longrightarrow> alike k a b \<Longrightarrow> alike k b c \<Longrightarrow> alike k a c"
    and alike_unchanged: "good k \<Longrightarrow> fields_ok a \<Longrightarrow> fields_ok b \<Longrightarrow> \<not> contentChanged (refEq (cfg k)) a b \<Longrightarrow> alike k a b"
    and run_determined: "good k \<Longrightarrow> readable k st \<Longrightarrow> readable k st' \<Longrightarrow> run_ok (tyof k) (cfg k) st \<Longrightarrow> run_ok (tyof k) (cfg k) st' \<Longrightarrow>
      \<forall>i. tyof k i \<in> set (reads k) \<longrightarrow> alike k (replica_get st i) (replica_get st' i) \<Longrightarrow> run k st = run k st'"
    and rows_determined: "good k \<Longrightarrow> run k st = Ran d \<Longrightarrow> run k st' = Ran d' \<Longrightarrow> sameRows (js k) d d' \<Longrightarrow> d = d'"
begin

definition past :: "'k \<Rightarrow> Replica \<Rightarrow> Replica \<Rightarrow> bool" where
  "past k st1 st \<longleftrightarrow> run_ok (tyof k) (cfg k) st1 \<and> readable k st1 \<and>
     (\<exists>ops. list_all (op_typed (tyof k)) ops \<and> st = fold (replica_step (cfg k)) ops st1)"

lemma past_refl: "run_ok (tyof k) (cfg k) st \<Longrightarrow> readable k st \<Longrightarrow> past k st st"
  unfolding past_def by (intro conjI exI [of _ "[]"]) simp_all

lemma past_step: "past k st1 st \<Longrightarrow> op_typed (tyof k) op \<Longrightarrow> past k st1 (replica_step (cfg k) op st)"
  unfolding past_def by (elim conjE exE, intro conjI, assumption+, rule_tac x = "ops @ [op]" in exI) simp

text \<open>Where the journal names no row of the read types, the answer has not moved.\<close>

lemma unread_answer:
  assumes "good k" "past k st1 st" "readable k st" "ce_readTypes e = reads k" "\<not> isRelevant st e (rp_revision st1)"
  shows "run k st = run k st1"
proof -
  from assms(2) obtain ops where ok1: "run_ok (tyof k) (cfg k) st1" "readable k st1"
    and ops: "list_all (op_typed (tyof k)) ops" "st = fold (replica_step (cfg k)) ops st1" by (auto simp: past_def)
  have ok: "run_ok (tyof k) (cfg k) st" using replica_runs_ok [OF config [OF assms(1)] ok1(1) ops(1)] ops(2) by simp
  have j: "rp_changeFloor st \<le> rp_revision st" "map ch_revision (changes st) = [rp_changeFloor st + 1..rp_revision st]"
    using ok by (simp_all add: run_ok_def replica_ok_def journal_ok_def)
  have floor: "rp_changeFloor st \<le> rp_revision st1" using assms(5) j by (auto simp: isRelevant_def changesSince_def Let_def split: if_splits)
  have unread: "ch_type c \<notin> set (reads k)" if "c \<in> set (changesSince st (rp_revision st1))" for c
  proof (cases "rp_revision st = rp_revision st1")
    case True
    have "ch_revision c' \<le> rp_revision st" if "c' \<in> set (changes st)" for c'
      using that j(2) by (metis (no_types, opaque_lifting) atLeastAtMost_iff image_eqI list.set_map set_upto)
    with True that show ?thesis by (simp add: changesSince_def changes_def split: if_splits) force
  qed (use assms(4,5) that in \<open>auto simp: isRelevant_def Let_def list_ex_iff\<close>)
  have "alike k (replica_get st1 i) (replica_get st i)" if "tyof k i \<in> set (reads k)" for i
  proof -
    have "i \<notin> ch_id ` set (changesSince st (rp_revision st1))" using unread changes_typed [OF ok] that by fastforce
    note kept = unnamed_row_kept [OF config [OF assms(1)] ok1(1) ops(1), where R = "alike k" and i = i, folded ops(2)]
    show ?thesis
      by (rule kept [OF floor \<open>i \<notin> _\<close>])
        (erule alike_refl [OF assms(1)] alike_trans [OF assms(1)] alike_unchanged [OF assms(1)] | rule alike_refl [OF assms(1)] | assumption)+
  qed
  then show ?thesis using run_determined [OF assms(1) ok1(2) assms(3) ok1(1) ok] by simp
qed

text \<open>What holds of an entry between two calls, and what holds of it before the sweep after a change has reached it.\<close>

definition cell_base :: "'k \<Rightarrow> Replica \<Rightarrow> CacheEntry \<Rightarrow> bool" where
  "cell_base k st e \<longleftrightarrow> ce_source e = run k \<and> ce_readTypes e = reads k \<and> (\<forall>ctx. ce_running e \<noteq> Executing ctx) \<and> ce_queued e = [] \<and>
     (ce_running e = Hydrating \<longrightarrow> ce_data e = None) \<and> snap_ok (ce_snapshot e) \<and> int (length (ce_listeners e)) \<le> ce_refs e \<and>
     (\<forall>r. ce_revision e = Some r \<longrightarrow> r \<le> rp_revision st) \<and>
     (\<forall>d. ce_data e = Some d \<longrightarrow> (\<exists>st1. past k st1 st \<and> ce_revision e = Some (rp_revision st1) \<and> run k st1 = Ran d))"

definition cell_ok :: "'k \<Rightarrow> Replica \<Rightarrow> CacheEntry \<Rightarrow> bool" where
  "cell_ok k st e \<longleftrightarrow> cell_base k st e \<and> ce_snapshot e = snapshot_of st e \<and> settled st e"

lemma cell_base_step:
  assumes "good k" "run_ok (tyof k) (cfg k) st" "op_typed (tyof k) op" "cell_base k st e"
  shows "cell_base k (replica_step (cfg k) op st) e"
proof -
  have "rp_revision st \<le> rp_revision (replica_step (cfg k) op st)"
    using replica_step_inv(3) [OF config [OF assms(1)] assms(2,3)] .
  with assms(3,4) past_step show ?thesis unfolding cell_base_def by fastforce
qed

lemma execute_ok:
  assumes "good k" "run_ok (tyof k) (cfg k) st" "readable k st" "cell_base k st e" "ce_running e = Idle"
  shows "cell_ok k st (execute (js k) st e)"
proof (cases "run k st")
  case (Ran data)
  have src: "ce_source e = run k" "snap_ok (ce_snapshot e)" using assms(4) by (simp_all add: cell_base_def)
  have same: "d = data" if "ce_data e = Some d" "sameRows (js k) d data" for d
    using assms(1,4) Ran that rows_determined unfolding cell_base_def by blast
  have past: "past k st st" by (rule past_refl [OF assms(2,3)])
  show ?thesis
    using assms(4) Ran src same past
    by (auto simp: execute_def Let_def refresh_eq settle_def cell_ok_def cell_base_def settled_def notifyAll_def notifyInitial_def)
      (auto simp: snapshot_of_def statusOf_def)
next
  case (Threw error)
  have src: "ce_source e = run k" "snap_ok (ce_snapshot e)" using assms(4) by (simp_all add: cell_base_def)
  show ?thesis
    using assms(4) Threw src
    by (auto simp: execute_def Let_def refresh_eq fail_def cell_ok_def cell_base_def settled_def notifyAll_def notifyInitial_def)
      (auto simp: snapshot_of_def statusOf_def)
qed (use synchronous [OF assms(1)] in simp)

lemma hydrate_ok:
  assumes "good k" "run_ok (tyof k) (cfg k) st" "readable k st" "cell_base k st e" "ce_snapshot e = snapshot_of st e"
    and "ce_running e = Idle" "ce_data e = None"
  shows "cell_ok k st (hydrate' (js k) ready st e)"
proof (cases "ready = ReadyLater")
  case True
  with assms(4-7) show ?thesis by (auto simp: hydrate'_def cell_ok_def cell_base_def settled_def)
next
  case False
  then have "hydrate' (js k) ready st e = execute (js k) st e" using assms(6) by (cases ready) (simp_all add: hydrate'_def)
  with execute_ok [OF assms(1-4,6)] show ?thesis by simp
qed

lemma reconcile_ok:
  assumes "good k" "run_ok (tyof k) (cfg k) st" "readable k st" "cell_base k st e"
    and "ce_data e = None \<or> ce_revision e = Some (rp_revision st) \<Longrightarrow> ce_snapshot e = snapshot_of st e \<and> settled st e"
  shows "cell_ok k st (reconcile (js k) ready st e)"
proof (cases "ce_running e = Idle")
  case False
  with assms(4) have "ce_running e = Hydrating" "ce_data e = None" unfolding cell_base_def by (metis run_state.exhaust)+
  with False assms(4,5) show ?thesis by (simp add: reconcile_def cell_ok_def)
next
  case idle: True
  note exec = execute_ok [OF assms(1-4) idle] and hyd = hydrate_ok [OF assms(1-4) _ idle, of ready]
  show ?thesis
  proof (cases "ce_data e")
    case None
    with assms(5) have s: "ce_snapshot e = snapshot_of st e \<and> settled st e" by simp
    with hyd None assms(4) idle show ?thesis by (auto simp: reconcile_def retry_failed_def cell_ok_def)
  next
    case (Some d)
    then obtain st1 where st1: "past k st1 st" "ce_revision e = Some (rp_revision st1)" "run k st1 = Ran d"
      using assms(4) by (auto simp: cell_base_def)
    have snap: "snap_ok (ce_snapshot e)" "ce_readTypes e = reads k" using assms(4) by (simp_all add: cell_base_def)
    show ?thesis
    proof (cases "ce_revision e = Some (rp_revision st) \<or> ce_refs e = 0")
      case True
      with assms(4,5) idle Some snap show ?thesis by (auto simp: reconcile_def cell_ok_def refresh_eq cell_base_def settled_def)
    next
      case False
      show ?thesis
      proof (cases "isRelevant st e (rp_revision st1)")
        case True
        with False idle Some st1(2) exec show ?thesis by (simp add: reconcile_def)
      next
        case unread: False
        have "run k st = Ran d" using unread_answer [OF assms(1) st1(1) assms(3) snap(2) unread] st1(3) by simp
        with False unread idle Some st1(2) snap assms(4) past_refl [OF assms(2,3)] show ?thesis
          by (auto simp: reconcile_def cell_ok_def refresh_eq cell_base_def settled_def snapshot_of_def statusOf_def snap_ok_def)
      qed
    qed
  qed
qed

text \<open>A change of the replica, seen by an entry of the table: the sweep follows it in the same call.\<close>

lemma swept_ok:
  assumes "good k" "run_ok (tyof k) (cfg k) st" "op_typed (tyof k) op" "readable k (replica_step (cfg k) op st)" "cell_ok k st e"
    and "rp_revision (replica_step (cfg k) op st) \<noteq> rp_revision st"
  shows "cell_ok k (replica_step (cfg k) op st) (reconcile (js k) ready (replica_step (cfg k) op st) e)"
proof (rule reconcile_ok [OF assms(1) _ assms(4)])
  note step = replica_step_inv(1,3) [OF config [OF assms(1)] assms(2,3)]
  show "run_ok (tyof k) (cfg k) (replica_step (cfg k) op st)" by (rule step(1))
  have base: "cell_base k st e" using assms(5) by (simp add: cell_ok_def)
  then show "cell_base k (replica_step (cfg k) op st) e" by (rule cell_base_step [OF assms(1-3)])
  have "ce_revision e \<noteq> Some (rp_revision (replica_step (cfg k) op st))" using base step(2) assms(6) by (auto simp: cell_base_def)
  moreover assume "ce_data e = None \<or> ce_revision e = Some (rp_revision (replica_step (cfg k) op st))"
  ultimately have "ce_data e = None" by simp
  with assms(5) snapshot_unloaded [OF this] show "ce_snapshot e = snapshot_of (replica_step (cfg k) op st) e \<and> settled (replica_step (cfg k) op st) e"
    by (auto simp: cell_ok_def settled_def)
qed

lemma quiet_step_ok:
  assumes "good k" "run_ok (tyof k) (cfg k) st" "op_typed (tyof k) op" "cell_ok k st e"
    and "rp_revision (replica_step (cfg k) op st) = rp_revision st"
  shows "cell_ok k (replica_step (cfg k) op st) e"
  using assms(4,5) cell_base_step [OF assms(1-3), of e] by (simp add: cell_ok_def settled_def snapshot_of_def statusOf_def)

lemma subscribe_ok:
  assumes "good k" "run_ok (tyof k) (cfg k) st" "readable k st" "cell_ok k st e"
  shows "cell_ok k st (subscribe_cell (js k) ready st l initial e)"
proof -
  let ?e = "join_listener st l initial e"
  have base: "cell_base k st ?e" "ce_snapshot ?e = snapshot_of st ?e"
    using assms(4) obj_set_length [where m = "ce_listeners e" and x = l and v = "\<lparr>ls_initial = initial, ls_revision = rp_revision st\<rparr>"]
    by (auto simp: cell_ok_def cell_base_def cancelEviction_def join_listener_def)
  show ?thesis
    unfolding subscribe_cell_def Let_def
    using base execute_ok [OF assms(1-3) base(1)] hydrate_ok [OF assms(1-3) base] by (auto simp: cell_ok_def settled_def)
qed

lemma unsubscribe_ok:
  assumes "cell_ok k st e"
  shows "cell_ok k st (unsubscribe_cell ttlMs l e)"
proof (cases "map_of (ce_listeners e) l = None")
  case False
  let ?e = "e\<lparr>ce_listeners := obj_delete (ce_listeners e) l, ce_refs := ce_refs e - 1\<rparr>"
  have "cell_base k st ?e" "ce_refs e \<noteq> 0"
    using assms obj_delete_length [OF False] by (simp_all add: cell_ok_def cell_base_def)
  with assms have ok: "cell_ok k st ?e" by (simp add: cell_ok_def settled_def)
  then have "cell_ok k st (scheduleEviction ttlMs ?e)"
    by (simp add: scheduleEviction_def cell_ok_def cell_base_def settled_def split: option.splits)
  with ok False show ?thesis by (auto simp: unsubscribe_cell_def Let_def)
qed (use assms in \<open>simp add: unsubscribe_cell_def\<close>)

lemma ready_ok:
  assumes "good k" "run_ok (tyof k) (cfg k) st" "readable k st" "cell_ok k st e"
  shows "cell_ok k st (ready_resolved (js k) st e)" "cell_ok k st (ready_rejected st error e)"
proof -
  show "cell_ok k st (ready_resolved (js k) st e)"
  proof (cases "ce_running e = Hydrating")
    case True
    with assms(4) have "cell_base k st (e\<lparr>ce_running := Idle\<rparr>)" by (auto simp: cell_ok_def cell_base_def)
    with True execute_ok [OF assms(1-3)] show ?thesis by (simp add: ready_resolved_def)
  qed (use assms(4) in \<open>simp add: ready_resolved_def\<close>)
  show "cell_ok k st (ready_rejected st error e)"
    using assms(4) by (auto simp: ready_rejected_def notifyInitial_def refresh_eq cell_ok_def cell_base_def settled_def)
qed

lemma idle_events: "cell_ok k st e \<Longrightarrow> promise_resolved (js k) ready st data e = e \<and> promise_rejected (js k) ready st error e = e \<and> publish_stale e = e"
  by (auto simp: cell_ok_def cell_base_def promise_resolved_def promise_rejected_def publish_stale_def split: run_state.splits list.splits)

end

context cached_reader
begin

definition cache_inv :: "'k \<Rightarrow> Replica \<times> QueryCache \<Rightarrow> bool" where
  "cache_inv k = (\<lambda>(st, cache). run_ok (tyof k) (cfg k) st \<and> qc_last cache = rp_revision st \<and> table_ok cache \<and>
     (\<forall>c. attached cache c \<longrightarrow> ce_source (qc_cells cache ! c) = run k \<longrightarrow> ce_readTypes (qc_cells cache ! c) = reads k \<longrightarrow>
        cell_ok k st (qc_cells cache ! c)))"

lemma on_cell_inv:
  assumes "cache_inv k (st, cache)" "\<And>e. statics (f e) = statics e" "\<And>e. cell_ok k st e \<Longrightarrow> cell_ok k st (f e)"
  shows "cache_inv k (st, on_cell c f cache)"
proof -
  have f: "ce_key (f e) = ce_key e" "ce_source (f e) = ce_source e" "ce_readTypes (f e) = ce_readTypes e" for e
    using assms(2) [of e] by (simp_all add: statics_def)
  have t: "table_ok cache" using assms(1) by (simp add: cache_inv_def)
  have "table_ok (on_cell c f cache)" using t f by (auto simp: table_ok_def on_cell_nth)
  with assms(1,3) f attached_bound [OF t] show ?thesis by (auto simp: cache_inv_def on_cell_nth)
qed

lemma sweep_inv:
  assumes "good k" "cache_inv k (st, cache)" "op_typed (tyof k) op" "readable k (replica_step (cfg k) op st)"
    and "rp_revision (replica_step (cfg k) op st) \<noteq> rp_revision st"
  shows "cache_inv k (replica_step (cfg k) op st, cache_notified (js k) (replica_step (cfg k) op st) cache)"
proof -
  let ?st = "replica_step (cfg k) op st"
  let ?f = "reconcile (js k) (ready_of (cache\<lparr>qc_last := rp_revision ?st\<rparr>)) ?st"
  have inv: "run_ok (tyof k) (cfg k) st" "qc_last cache = rp_revision st" "table_ok cache" using assms(2) by (simp_all add: cache_inv_def)
  have run: "run_ok (tyof k) (cfg k) ?st" using replica_step_inv(1) [OF config [OF assms(1)] inv(1) assms(3)] .
  have "cache_notified (js k) ?st cache = fold (\<lambda>c. on_cell c ?f) (map snd (qc_entries cache)) (cache\<lparr>qc_last := rp_revision ?st\<rparr>)"
    using inv(2) assms(5) by (simp add: cache_notified_def signal_read_def sweep_entries_def)
  moreover have f: "ce_key (?f e) = ce_key e" "ce_source (?f e) = ce_source e" "ce_readTypes (?f e) = ce_readTypes e" for e
    using statics_events(1) [where e = e] by (simp_all add: statics_def)
  moreover have "cell_ok k ?st (?f (qc_cells cache ! c))"
    if "attached cache c" "ce_source (qc_cells cache ! c) = run k" "ce_readTypes (qc_cells cache ! c) = reads k" for c
    using swept_ok [OF assms(1) inv(1) assms(3,4) _ assms(5)] assms(2) that by (simp add: cache_inv_def)
  ultimately show ?thesis
    using run inv(3) table_distinct [OF inv(3)] attached_bound [OF inv(3)]
    by (auto simp: cache_inv_def on_cells_nth table_ok_def attached_def)
qed

lemma watch_inv:
  assumes "cache_inv k (st, cache)"
  shows "cache_inv k (st, watch surface query source cache)"
proof (cases "map_of (qc_entries cache) (queryKey surface query)")
  case None
  let ?key = "queryKey surface query"
  let ?n = "newEntry ?key query source"
  have new: "cell_ok k st ?n" if "ce_source ?n = run k" "ce_readTypes ?n = reads k"
    using that by (simp add: cell_ok_def cell_base_def settled_def newEntry_def initialSnapshot_def snap_ok_def snapshot_of_def statusOf_def)
  have key: "ce_key ?n = ?key" by (simp add: newEntry_def)
  have watch: "watch surface query source cache =
      cache\<lparr>qc_entries := qc_entries cache @ [(?key, length (qc_cells cache))], qc_cells := qc_cells cache @ [?n]\<rparr>"
    using None by (simp add: watch_def Let_def obj_set_absent [OF None])
  have "?key \<notin> fst ` set (qc_entries cache)" using None by (simp add: map_of_eq_None_iff)
  with assms attached_bound [where cache = cache] new key show ?thesis
    unfolding watch by (auto simp: cache_inv_def table_ok_def attached_def nth_append obj_ok_def)
qed (use assms in \<open>simp add: watch_def\<close>)

lemma evictEntry_keeps:
  assumes "cache_inv k (st, cache)"
  shows "cache_inv k (st, evict_cell c cache)"
proof -
  let ?cache = "on_cell c (\<lambda>entry. entry\<lparr>ce_evictTimer := False\<rparr>) cache"
  have inv: "cache_inv k (st, ?cache)"
    by (rule on_cell_inv [OF assms]) (simp_all add: cell_ok_def cell_base_def settled_def)
  have "set (obj_delete (qc_entries ?cache) key) \<subseteq> set (qc_entries ?cache)" for key by (auto simp: AList.delete_eq)
  then have "cache_inv k (st, ?cache\<lparr>qc_entries := obj_delete (qc_entries ?cache) key\<rparr>)" for key
    using inv by (fastforce simp: cache_inv_def table_ok_def attached_def intro: obj_delete_ok)
  with inv assms show ?thesis by (simp add: evict_cell_def Let_def)
qed

end

definition cache_typed :: "(string \<Rightarrow> string) \<Rightarrow> cache_event \<Rightarrow> bool" where
  "cache_typed ty ev = (case ev of CacheOp op \<Rightarrow> op_typed ty op | _ \<Rightarrow> True)"

context cached_reader
begin

lemma cache_step_inv:
  assumes "good k" "cache_typed (tyof k) ev" "cache_inv k s" "readable k (fst s)" "readable k (fst (cache_step (cfg k) (js k) ev s))"
  shows "cache_inv k (cache_step (cfg k) (js k) ev s)"
proof -
  obtain st cache where s: "s = (st, cache)" by (cases s)
  have inv: "cache_inv k (st, cache)" and r: "readable k st" using assms(3,4) s by simp_all
  have run: "run_ok (tyof k) (cfg k) st" using inv by (simp add: cache_inv_def)
  note parts = subscribe_ok [OF assms(1) run r] unsubscribe_ok ready_ok [OF assms(1) run r]
  show ?thesis
  proof (cases ev)
    case (CacheOp op)
    let ?st = "replica_step (cfg k) op st"
    have op: "op_typed (tyof k) op" "readable k ?st" using assms(2,5) CacheOp s by (simp_all add: cache_typed_def cache_step_def Let_def)
    show ?thesis
    proof (cases "rp_revision ?st = rp_revision st")
      case True
      then have "cache_inv k (?st, cache)" "signal_read ?st (qc_last cache) = (None, rp_revision ?st)"
        using inv quiet_step_ok [OF assms(1) run op(1)] replica_step_inv(1) [OF config [OF assms(1)] run op(1)]
        by (simp_all add: cache_inv_def signal_read_def)
      with inv True show ?thesis by (auto simp: s CacheOp cache_step_def Let_def cache_notified_def cache_inv_def)
    next
      case False
      then have "rp_notified ?st \<noteq> rp_notified st" using replica_step_tells [of st "cfg k" op] by (auto simp: tells_def)
      with sweep_inv [OF assms(1) inv op False] show ?thesis by (simp add: s CacheOp cache_step_def Let_def)
    qed
  next
    case (Subscribe c l initial)
    then show ?thesis unfolding s by (simp add: cache_step_def on_cell_inv [OF inv] parts)
  next
    case (Unsubscribe c l)
    then show ?thesis unfolding s by (simp add: cache_step_def on_cell_inv [OF inv] parts)
  next
    case (ReadyResolved c)
    then show ?thesis unfolding s by (simp add: cache_step_def on_cell_inv [OF inv] parts)
  next
    case (ReadyRejected c error)
    then show ?thesis unfolding s by (simp add: cache_step_def on_cell_inv [OF inv] parts)
  next
    case (SourceResolved c data)
    then show ?thesis unfolding s by (simp add: cache_step_def on_cell_inv [OF inv] idle_events)
  next
    case (SourceRejected c error)
    then show ?thesis unfolding s by (simp add: cache_step_def on_cell_inv [OF inv] idle_events)
  next
    case (Microtask c)
    then show ?thesis unfolding s by (simp add: cache_step_def on_cell_inv [OF inv] idle_events)
  qed (use inv in \<open>simp_all add: s cache_step_def watch_inv evictEntry_keeps\<close>, simp add: cache_inv_def)
qed

lemma cache_run_inv:
  assumes "good k" "list_all (cache_typed (tyof k)) evs" "\<And>n. readable k (fst (cache_run (cfg k) (js k) ttlMs (take n evs)))"
  shows "cache_inv k (cache_run (cfg k) (js k) ttlMs evs)"
  using assms(2,3)
proof (induction evs rule: rev_induct)
  case Nil
  have "run_ok (tyof k) (cfg k) createReplica" by (rule createReplica_ok)
  then show ?case by (simp add: cache_run_def cache_inv_def createQueryCache_def table_ok_def attached_def obj_ok_Nil)
next
  case (snoc ev evs)
  have prefix: "readable k (fst (cache_run (cfg k) (js k) ttlMs (take n evs)))" for n
    using snoc.prems(2) [of "min n (length evs)"] by (cases "n \<le> length evs") simp_all
  have step: "cache_run (cfg k) (js k) ttlMs (evs @ [ev]) = cache_step (cfg k) (js k) ev (cache_run (cfg k) (js k) ttlMs evs)"
    by (simp add: cache_run_def)
  have "readable k (fst (cache_run (cfg k) (js k) ttlMs evs))" using prefix [of "length evs"] by simp
  moreover have "readable k (fst (cache_run (cfg k) (js k) ttlMs (evs @ [ev])))" using snoc.prems(2) [of "Suc (length evs)"] by simp
  ultimately show ?case
    using cache_step_inv [OF assms(1), of ev] snoc.IH snoc.prems(1) prefix unfolding step by simp
qed

lemma entry_answers:
  assumes "good k" "list_all (cache_typed (tyof k)) evs" "\<And>n. readable k (fst (cache_run (cfg k) (js k) ttlMs (take n evs)))"
    and "cache_run (cfg k) (js k) ttlMs evs = (st, cache)" "attached cache c" "e = qc_cells cache ! c"
    and "ce_source e = run k" "ce_readTypes e = reads k"
  shows "(qr_status (ce_snapshot e) = Current \<longrightarrow> (\<exists>d. qr_data (ce_snapshot e) = Some d \<and> run k st = Ran d)) \<and>
    (ce_refs e \<noteq> 0 \<and> ce_running e = Idle \<and> ce_error e = None \<longrightarrow>
       (\<exists>d. run k st = Ran d \<and> ce_snapshot e = \<lparr>qr_data = Some d, qr_status = Current, qr_loading = False, qr_error = None\<rparr>))"
proof -
  have inv: "cache_inv k (st, cache)" using cache_run_inv [OF assms(1,2,3)] assms(4) by simp
  have readable: "readable k st" using assms(3) [of "length evs"] assms(4) by simp
  have ok: "cell_ok k st e" using inv assms(5-8) by (simp add: cache_inv_def)
  then have snap: "ce_snapshot e = snapshot_of st e" and settled: "settled st e" and base: "cell_base k st e" by (simp_all add: cell_ok_def)
  have fresh: "run k st = Ran d" if "ce_data e = Some d" "ce_revision e = Some (rp_revision st)" for d
  proof -
    from base that obtain st1 where st1: "past k st1 st" "rp_revision st1 = rp_revision st" "run k st1 = Ran d" by (auto simp: cell_base_def)
    then have "\<not> isRelevant st e (rp_revision st1)" by (simp add: isRelevant_def)
    from unread_answer [OF assms(1) st1(1) readable assms(8) this] st1(3) show ?thesis by simp
  qed
  show ?thesis using fresh settled unfolding snap by (auto simp: snapshot_of_def statusOf_def settled_def split: if_splits)
qed

end


end
