(* ===== verification/CacheProps.thy ===== *)
theory CacheProps
  imports QueryCache
begin

text \<open>
  What the query cache guarantees to a collection subscription, by interpreting \<open>cached_reader\<close> on the collection source
  over the replica, and where the lifetime of its entries lets a subscription go stale.
\<close>

section \<open>Rows with the same content\<close>

text \<open>A field as queries read it: a leaf with its value, or some map.\<close>

definition leaf_entry :: "Entity \<Rightarrow> string \<Rightarrow> field_value option" where
  "leaf_entry e f = (case fieldEntry e f of Some (FMap _) \<Rightarrow> Some (FMap []) | x \<Rightarrow> x)"

definition reads_alike :: "(Entity \<Rightarrow> string \<Rightarrow> json option) \<Rightarrow> Entity \<Rightarrow> Entity \<Rightarrow> bool" where
  "reads_alike resolve a b \<longleftrightarrow> ent_type a = ent_type b \<and> deleted_hlc a = deleted_hlc b \<and>
     leaf_entry a = leaf_entry b \<and> resolve a = resolve b"

lemma readStringField_alike: "leaf_entry a = leaf_entry b \<Longrightarrow> readStringField a f = readStringField b f"
proof -
  have "readStringField e f = (case leaf_entry e f of Some (Leaf (JStr s) u h) \<Rightarrow> Some s | _ \<Rightarrow> None)" for e
    by (auto simp: readStringField_def leaf_entry_def fieldEntry_def isFieldLeaf_def isFieldMap_def
        split: option.splits field_value.splits json.splits)
  then show "leaf_entry a = leaf_entry b \<Longrightarrow> readStringField a f = readStringField b f" by simp
qed

lemma matches_alike: "leaf_entry a = leaf_entry b \<Longrightarrow> matchesFieldValue js (fieldEntry a f) v = matchesFieldValue js (fieldEntry b f) v"
proof -
  have "matchesFieldValue js (fieldEntry e f) v = matchesFieldValue js (leaf_entry e f) v" for e
    by (simp add: matchesFieldValue_def leaf_entry_def split: option.splits field_value.splits)
  then show "leaf_entry a = leaf_entry b \<Longrightarrow> ?thesis" by simp
qed

lemma rows_alike:
  assumes "reads_alike resolve a b"
  shows "links a as' t src tgt = links b as' t src tgt" "member_row a ent g = member_row b ent g"
  using assms readStringField_alike [of a b] by (simp_all add: reads_alike_def links_def member_row_def)

lemma unchanged_leaf:
  assumes eq: "\<And>a b. eq a b \<Longrightarrow> a = b" and ok: "obj_ok (ent_fields a)" "obj_ok (ent_fields b)" and same: "fieldsEqual eq (ent_fields a) (ent_fields b)"
  shows "leaf_entry a = leaf_entry b"
proof
  fix f
  let ?A = "ent_fields a" and ?B = "ent_fields b"
  have len: "length ?A = length ?B" and all: "\<And>k v. (k, v) \<in> set ?A \<Longrightarrow> \<exists>w. map_of ?B k = Some w \<and> fieldValueEqual eq (wireValue v) (wireValue w)"
    using same by (fastforce simp: fieldsEqual_def list_all_iff simp del: fieldValueEqual.simps split: if_splits option.splits)+
  have "set (obj_keys ?A) \<subseteq> set (obj_keys ?B)" using all by (force dest: map_of_SomeD)
  moreover have "card (set (obj_keys ?A)) = card (set (obj_keys ?B))" using ok len distinct_card [of "obj_keys ?A"] distinct_card [of "obj_keys ?B"] unfolding obj_ok_def length_map by (simp only:)
  ultimately have keys: "set (obj_keys ?A) = set (obj_keys ?B)" by (intro card_subset_eq) simp_all
  show "leaf_entry a f = leaf_entry b f"
  proof (cases "map_of ?A f")
    case None
    then have "map_of ?B f = None" using keys by (simp add: map_of_eq_None_iff)
    with None show ?thesis by (simp add: leaf_entry_def fieldEntry_def)
  next
    case (Some v)
    from all [OF map_of_SomeD [OF this]] obtain w where w: "map_of ?B f = Some w" "fieldValueEqual eq (wireValue v) (wireValue w)" by blast
    from w(2) eq have "wireValue v = wireValue w \<or> (\<exists>m n. wireValue v = FMap m \<and> wireValue w = FMap n)"
      by (cases "wireValue v"; cases "wireValue w") (auto split: if_splits)
    with Some w(1) show ?thesis by (auto simp: leaf_entry_def fieldEntry_def)
  qed
qed

section \<open>The collection source\<close>

text \<open>
  A collection subscription with the replica's configuration, the types of ids, the runtime and the way its fields
  read for ordering.
\<close>

record CollectionReader =
  cr_cfg :: ReplicaConfig
  cr_tyof :: "string \<Rightarrow> string"
  cr_js :: js_runtime
  cr_resolve :: "Entity \<Rightarrow> string \<Rightarrow> json option"
  cr_query :: Query

text \<open>
  The reader is sound: identical references are equal values, and the value a field orders by is a function of the
  content of the row.
\<close>

definition reader_ok :: "CollectionReader \<Rightarrow> bool" where
  "reader_ok k \<longleftrightarrow> config_ok (cr_cfg k) \<and> query_named (cr_query k) \<and> isReplicaBacked (cr_query k) \<and>
     (\<forall>a b. refEq (cr_cfg k) a b \<longrightarrow> a = b) \<and>
     (\<forall>a b. obj_ok (ent_fields a) \<longrightarrow> obj_ok (ent_fields b) \<longrightarrow> \<not> contentChanged (refEq (cr_cfg k)) (Some a) (Some b) \<longrightarrow>
        cr_resolve k a = cr_resolve k b)"

text \<open>The replica can be queried: its rows keep the index keys apart, and the query's comparator orders its answer.\<close>

definition queryable :: "CollectionReader \<Rightarrow> Replica \<Rightarrow> bool" where
  "queryable k st \<longleftrightarrow> indexable st \<and> order_on (query_order (cr_js k) (cr_resolve k) (cr_query k)) (query_answer (cr_js k) st (cr_query k))"

definition row_alike :: "CollectionReader \<Rightarrow> Entity option \<Rightarrow> Entity option \<Rightarrow> bool" where
  "row_alike k a b = (case (a, b) of (None, None) \<Rightarrow> True | (Some x, Some y) \<Rightarrow> reads_alike (cr_resolve k) x y | _ \<Rightarrow> False)"

lemma row_alike_laws:
  "row_alike k a a" "row_alike k a b \<Longrightarrow> row_alike k b c \<Longrightarrow> row_alike k a c" "row_alike k a b \<Longrightarrow> row_alike k b a"
  by (auto simp: row_alike_def reads_alike_def split: option.splits)

lemma row_alike_unchanged:
  assumes "reader_ok k" "fields_ok a" "fields_ok b" "\<not> contentChanged (refEq (cr_cfg k)) a b"
  shows "row_alike k a b"
proof (cases a)
  case None
  with assms(4) show ?thesis by (cases b) (simp_all add: contentChanged_def row_alike_def)
next
  case (Some x)
  with assms(4) obtain y where b: "b = Some y" by (cases b) (simp_all add: contentChanged_def)
  have ok: "obj_ok (ent_fields x)" "obj_ok (ent_fields y)" using assms(2,3) Some b by (simp_all add: fields_ok_def)
  have same: "ent_type x = ent_type y" "deleted_hlc x = deleted_hlc y" "fieldsEqual (refEq (cr_cfg k)) (ent_fields x) (ent_fields y)"
    using assms(4) Some b by (simp_all add: contentChanged_def split: if_splits)
  moreover have "leaf_entry x = leaf_entry y"
    using assms(1) by (intro unchanged_leaf [OF _ ok same(3)]) (simp add: reader_ok_def)
  moreover have "cr_resolve k x = cr_resolve k y" using assms(1,4) ok Some b by (simp add: reader_ok_def)
  ultimately show ?thesis by (simp add: Some b row_alike_def reads_alike_def)
qed

lemma sameRows_ids:
  assumes "sameRows js (map (JStr \<circ> f) xs) (map (JStr \<circ> g) ys)"
  shows "map (JStr \<circ> f) xs = map (JStr \<circ> g) ys"
proof -
  have "sameValue js (JStr a) (JStr b) \<longleftrightarrow> a = b" for a b
    by (subst sameValue.simps) (simp add: strict_equal_def is_primitive_def)
  with assms show ?thesis by (intro nth_equalityI) (auto simp: sameRows_def list_all_iff)
qed

text \<open>Two replicas that hold alike rows of the query's read types.\<close>

definition same_reads :: "CollectionReader \<Rightarrow> Replica \<Rightarrow> Replica \<Rightarrow> bool" where
  "same_reads k st st' \<longleftrightarrow> run_ok (cr_tyof k) (cr_cfg k) st \<and> run_ok (cr_tyof k) (cr_cfg k) st' \<and>
     (\<forall>i. cr_tyof k i \<in> set (pl_readTypes (planQuery (cr_query k))) \<longrightarrow> row_alike k (replica_get st i) (replica_get st' i))"

lemma same_reads_sym: "same_reads k st st' \<Longrightarrow> same_reads k st' st"
  unfolding same_reads_def using row_alike_laws(3) by blast

lemma run_get_own: "run_ok tyof cfg st \<Longrightarrow> replica_get st i = Some e \<Longrightarrow> ent_id e = i \<and> ent_type e = tyof i"
  using replica_view_own by (auto simp: run_ok_def replica_get_def viewOf_def own_def)

lemma visible_alike:
  assumes "same_reads k st st'" "t \<in> set (readTypesFor (cr_query k))" "e \<in> visible st t"
  shows "\<exists>e' \<in> visible st' t. reads_alike (cr_resolve k) e e' \<and> ent_id e' = ent_id e \<and> replica_get st' (ent_id e) = Some e'"
proof -
  from assms(3) obtain i where i: "replica_get st i = Some e" "ent_type e = t" by (auto simp: visible_def)
  with assms(1) have own: "ent_id e = i" "t = cr_tyof k i" using run_get_own by (auto simp: same_reads_def)
  with assms(1,2) i(1) have "row_alike k (Some e) (replica_get st' i)" by (auto simp: same_reads_def planQuery_def)
  then obtain e' where e': "replica_get st' i = Some e'" "reads_alike (cr_resolve k) e e'" by (auto simp: row_alike_def split: option.splits)
  with assms(1) own have "ent_id e' = i" "ent_type e' = t" using run_get_own by (auto simp: same_reads_def)
  with e' own show ?thesis by (auto simp: visible_def)
qed

lemma edges_alike:
  assumes "same_reads k st st'" "RELATIONSHIP_ENTITY_TYPE \<in> set (readTypesFor (cr_query k))"
  shows "edges st = edges st'"
proof -
  have "edges st as' t x \<subseteq> edges st' as' t x" if "same_reads k st st'" for st st' as' t x
    unfolding edges_visible using visible_alike [OF that assms(2)] rows_alike(1) by blast
  from this [OF assms(1)] this [OF same_reads_sym [OF assms(1)]] show ?thesis by (intro ext) blast
qed

lemma members_alike:
  assumes "same_reads k st st'" "MEMBERSHIP_ENTITY_TYPE \<in> set (readTypesFor (cr_query k))"
  shows "members st = members st'"
proof -
  have "members st g \<subseteq> members st' g" if "same_reads k st st'" for st st' g
    unfolding members_visible using visible_alike [OF that assms(2)] rows_alike(2) by blast
  from this [OF assms(1)] this [OF same_reads_sym [OF assms(1)]] show ?thesis by (intro ext) blast
qed

lemma query_matches_alike:
  assumes "reads_alike resolve e e'" "ent_id e' = ent_id e"
  shows "query_matches js link member q e' = query_matches js link member q e"
proof -
  have "pred_matches js link member p e' = pred_matches js link member p e" for p
    using assms matches_alike [of e' e] by (cases p) (simp_all add: pred_matches_def reads_alike_def)
  then show ?thesis by (simp add: query_matches_def)
qed

text \<open>The row of another replica under the id of a row.\<close>

definition counterpart :: "Replica \<Rightarrow> Entity \<Rightarrow> Entity" where
  "counterpart st e = the (replica_get st (ent_id e))"

lemma counterpart_answer:
  assumes "isReplicaBacked (cr_query k)" "same_reads k st st'" "e \<in> query_answer js st (cr_query k)"
  shows "counterpart st' e \<in> query_answer js st' (cr_query k)" "ent_id (counterpart st' e) = ent_id e"
    "cr_resolve k (counterpart st' e) = cr_resolve k e"
proof -
  let ?q = "cr_query k"
  have "e \<in> visible st (qy_source ?q)" using assms(3) by (simp add: query_answer_def)
  then obtain e' where e': "e' \<in> visible st' (qy_source ?q)" "reads_alike (cr_resolve k) e e'" "ent_id e' = ent_id e" "counterpart st' e = e'"
    using visible_alike [OF assms(2), of "qy_source ?q" e] by (auto simp: readTypes_set counterpart_def)
  have "members st = members st'" using members_alike [OF assms(2)] assms(1) by (simp add: readTypes_set)
  moreover have "edges st = edges st'" if "hasPredicateKind ?q is_relationship"
    using edges_alike [OF assms(2)] that by (simp add: readTypes_set)
  then have "query_matches js (edges st') m ?q = query_matches js (edges st) m ?q" for m by (intro query_matches_links) simp
  ultimately have "query_matches js (edges st') (members st') ?q e'"
    using assms(3) query_matches_alike [OF e'(2,3)] by (simp add: query_answer_def)
  then show "counterpart st' e \<in> query_answer js st' (cr_query k)" "ent_id (counterpart st' e) = ent_id e"
      "cr_resolve k (counterpart st' e) = cr_resolve k e"
    using e' assms(3) by (auto simp: query_answer_def reads_alike_def)
qed

lemma counterpart_onto:
  assumes "isReplicaBacked (cr_query k)" "same_reads k st st'"
  shows "counterpart st' ` query_answer js st (cr_query k) = query_answer js st' (cr_query k)"
proof
  show "counterpart st' ` query_answer js st (cr_query k) \<subseteq> query_answer js st' (cr_query k)"
    using counterpart_answer(1) [OF assms] by blast
  show "query_answer js st' (cr_query k) \<subseteq> counterpart st' ` query_answer js st (cr_query k)"
  proof
    fix e
    assume e: "e \<in> query_answer js st' (cr_query k)"
    note c = counterpart_answer [OF assms(1) same_reads_sym [OF assms(2)] e]
    obtain i where "replica_get st' i = Some e" using e by (auto simp: query_answer_def visible_def)
    moreover from this have "ent_id e = i" using run_get_own assms(2) by (auto simp: same_reads_def)
    ultimately have "counterpart st' (counterpart st e) = e" using c(2) by (simp add: counterpart_def)
    with c(1) show "e \<in> counterpart st' ` query_answer js st (cr_query k)" by (metis image_eqI)
  qed
qed

lemma sorted_wrt_map_cong:
  "sorted_wrt P xs \<Longrightarrow> (\<And>x y. x \<in> set xs \<Longrightarrow> y \<in> set xs \<Longrightarrow> P x y \<Longrightarrow> Q (f x) (f y)) \<Longrightarrow> sorted_wrt Q (map f xs)"
  by (induction xs) auto

lemma limited_map: "map f (limited l xs) = limited l (map f xs)"
  by (simp add: limited_def take_map split: option.splits)

lemma collection_ids:
  assumes "reader_ok k" "queryable k st"
  shows "\<exists>rows. distinct (map ent_id rows) \<and> set rows = query_answer (cr_js k) st (cr_query k) \<and>
    sorted_wrt (\<lambda>a b. query_order (cr_js k) (cr_resolve k) (cr_query k) a b \<le> 0) rows \<and>
    collection_source (cr_js k) (cr_resolve k) (cr_query k) st = Ran (limited (qy_limit (cr_query k)) (map (JStr \<circ> ent_id) rows))"
proof -
  let ?q = "cr_query k"
  from query_run [of st ?q "cr_js k" "cr_resolve k"] assms obtain rows where
    rows: "distinct (map ent_id rows)" "set rows = query_answer (cr_js k) st ?q" "sorted_wrt (\<lambda>a b. query_order (cr_js k) (cr_resolve k) ?q a b \<le> 0) rows"
    "executePlan (cr_js k) (cr_resolve k) (planQuery ?q) (createReplicaExecutor st) = Some (limited (qy_limit ?q) rows)"
    by (auto simp: reader_ok_def queryable_def)
  have "row \<in> set rows" if "row \<in> set (limited (qy_limit ?q) rows)" for row
    using that by (auto simp: limited_def dest: in_set_takeD split: option.splits if_splits)
  then have "ent_type row = qy_source ?q" if "row \<in> set (limited (qy_limit ?q) rows)" for row
    using that rows(2) by (auto simp: query_answer_def visible_def)
  then have "filter (\<lambda>row. ent_type row = qy_source ?q) (limited (qy_limit ?q) rows) = limited (qy_limit ?q) rows" by (simp add: filter_id_conv)
  with rows show ?thesis by (intro exI [of _ rows]) (simp add: collection_source_def limited_map)
qed

lemma collection_determined:
  assumes "reader_ok k" "queryable k st" "queryable k st'" "same_reads k st st'"
  shows "collection_source (cr_js k) (cr_resolve k) (cr_query k) st = collection_source (cr_js k) (cr_resolve k) (cr_query k) st'"
proof -
  let ?q = "cr_query k" and ?c = "counterpart st'"
  let ?cmp = "query_order (cr_js k) (cr_resolve k) ?q"
  from collection_ids [OF assms(1,2)] obtain rows where
    rows: "distinct (map ent_id rows)" "set rows = query_answer (cr_js k) st ?q" "sorted_wrt (\<lambda>a b. ?cmp a b \<le> 0) rows"
    "collection_source (cr_js k) (cr_resolve k) ?q st = Ran (limited (qy_limit ?q) (map (JStr \<circ> ent_id) rows))" by blast
  from collection_ids [OF assms(1,3)] obtain rows' where
    rows': "distinct (map ent_id rows')" "set rows' = query_answer (cr_js k) st' ?q" "sorted_wrt (\<lambda>a b. ?cmp a b \<le> 0) rows'"
    "collection_source (cr_js k) (cr_resolve k) ?q st' = Ran (limited (qy_limit ?q) (map (JStr \<circ> ent_id) rows'))" by blast
  have backed: "isReplicaBacked ?q" using assms(1) by (simp add: reader_ok_def)
  have c: "ent_id (?c e) = ent_id e" "cr_resolve k (?c e) = cr_resolve k e" if "e \<in> set rows" for e
    using counterpart_answer [OF backed assms(4), of e "cr_js k"] that rows(2) by simp_all
  then have ids: "map ent_id (map ?c rows) = map ent_id rows" by simp
  have "map ?c rows = rows'"
  proof (rule sorted_rows_unique [where cmp = ?cmp])
    show "distinct (map ?c rows)" using rows(1) unfolding ids [symmetric] by (rule distinct_map [THEN iffD1, THEN conjunct1])
    show "set (map ?c rows) = set rows'" using counterpart_onto [OF backed assms(4), of "cr_js k"] rows(2) rows'(2) by simp
    with assms(3) rows'(2) show "order_on ?cmp (set (map ?c rows))" by (simp add: queryable_def)
    have "?cmp (?c a) (?c b) = ?cmp a b" if "a \<in> set rows" "b \<in> set rows" for a b
      using that c by (simp add: query_order_def compareEntities_def Let_def split: option.splits)
    with sorted_wrt_map_cong [OF rows(3), of "\<lambda>a b. ?cmp a b \<le> 0" ?c] show "sorted_wrt (\<lambda>a b. ?cmp a b \<le> 0) (map ?c rows)" by simp
  qed (use rows' in \<open>simp_all add: distinct_map\<close>)
  then have "map (JStr \<circ> ent_id) rows' = map (JStr \<circ> ent_id) rows" using ids by (simp flip: map_map)
  with rows(4) rows'(4) show ?thesis by simp
qed

interpretation collection: cached_reader reader_ok cr_cfg cr_tyof cr_js
  "\<lambda>k. collection_source (cr_js k) (cr_resolve k) (cr_query k)" "\<lambda>k. pl_readTypes (planQuery (cr_query k))" queryable row_alike
proof
  fix k st st' and a b c :: "Entity option" and d d'
  assume k: "reader_ok k"
  then show "config_ok (cr_cfg k)" by (simp add: reader_ok_def)
  show "collection_source (cr_js k) (cr_resolve k) (cr_query k) st \<noteq> Promised" by (simp add: collection_source_def split: option.splits)
  show "row_alike k a a" by (rule row_alike_laws)
  show "row_alike k a b \<Longrightarrow> row_alike k b c \<Longrightarrow> row_alike k a c" by (rule row_alike_laws)
  show "fields_ok a \<Longrightarrow> fields_ok b \<Longrightarrow> \<not> contentChanged (refEq (cr_cfg k)) a b \<Longrightarrow> row_alike k a b" by (rule row_alike_unchanged [OF k])
  show "queryable k st \<Longrightarrow> queryable k st' \<Longrightarrow> run_ok (cr_tyof k) (cr_cfg k) st \<Longrightarrow> run_ok (cr_tyof k) (cr_cfg k) st' \<Longrightarrow>
      \<forall>i. cr_tyof k i \<in> set (pl_readTypes (planQuery (cr_query k))) \<longrightarrow> row_alike k (replica_get st i) (replica_get st' i) \<Longrightarrow>
      collection_source (cr_js k) (cr_resolve k) (cr_query k) st = collection_source (cr_js k) (cr_resolve k) (cr_query k) st'"
    by (rule collection_determined [OF k]) (simp_all add: same_reads_def)
  show "collection_source (cr_js k) (cr_resolve k) (cr_query k) st = Ran d \<Longrightarrow> collection_source (cr_js k) (cr_resolve k) (cr_query k) st' = Ran d' \<Longrightarrow>
      sameRows (cr_js k) d d' \<Longrightarrow> d = d'"
    by (auto simp: collection_source_def intro: sameRows_ids split: option.splits)
qed

text \<open>
  C9: a collection subscription is never silently stale. In every run of the cache over the replica, take the entry of
  a collection query while the table holds it. Whenever its snapshot says \<^verbatim>\<open>current\<close>, its ids are the ones a fresh run of the query
  on the replica returns; and while it has a subscriber, is not waiting for the replica to be ready and has not
  failed, its snapshot is \<^verbatim>\<open>current\<close> after every event. So an invalidation by the changed types alone, without a
  re-run, loses nothing.
\<close>

theorem collection_entry_current:
  assumes "reader_ok k" "list_all (cache_typed (cr_tyof k)) evs" "\<And>n. queryable k (fst (cache_run (cr_cfg k) (cr_js k) ttlMs (take n evs)))"
    and "cache_run (cr_cfg k) (cr_js k) ttlMs evs = (st, cache)" "attached cache c" "e = qc_cells cache ! c"
    and "ce_source e = collection_source (cr_js k) (cr_resolve k) (cr_query k)" "ce_readTypes e = pl_readTypes (planQuery (cr_query k))"
  shows "(qr_status (ce_snapshot e) = Current \<longrightarrow>
      (\<exists>d. qr_data (ce_snapshot e) = Some d \<and> collection_source (cr_js k) (cr_resolve k) (cr_query k) st = Ran d)) \<and>
    (ce_refs e \<noteq> 0 \<and> ce_running e = Idle \<and> ce_error e = None \<longrightarrow>
      (\<exists>d. collection_source (cr_js k) (cr_resolve k) (cr_query k) st = Ran d \<and>
         ce_snapshot e = \<lparr>qr_data = Some d, qr_status = Current, qr_loading = False, qr_error = None\<rparr>))"
  by (rule collection.entry_answers [OF assms])


section \<open>Entries that outlive the table\<close>

lemma swept_detached: "\<not> attached cache c \<Longrightarrow> c < length (qc_cells cache) \<Longrightarrow> qc_cells (cache_notified js st cache) ! c = qc_cells cache ! c"
proof -
  have "c \<notin> set cs \<Longrightarrow> c < length (qc_cells cache) \<Longrightarrow> qc_cells (fold (\<lambda>c. on_cell c f) cs cache) ! c = qc_cells cache ! c" for f cs cache
    by (induction cs arbitrary: cache) (simp_all add: on_cell_nth)
  then show "\<not> attached cache c \<Longrightarrow> c < length (qc_cells cache) \<Longrightarrow> ?thesis"
    by (auto simp: cache_notified_def signal_read_def sweep_entries_def attached_def)
qed

lemma attached_notified: "attached (cache_notified js st cache) c = attached cache c"
  by (simp add: cache_notified_def signal_read_def sweep_entries_def attached_def)

text \<open>
  An entry outside the table is never refreshed. A store keeps its entry when the table has dropped it, and can be subscribed
  again; but no operation of the replica, whatever rows it changes, touches that entry or calls its listeners, so its
  subscribers keep a snapshot that says \<^verbatim>\<open>current\<close> for good.
\<close>

theorem detached_entry_frozen:
  assumes "\<not> attached cache c" "c < length (qc_cells cache)"
  shows "qc_cells (snd (fold (cache_step cfg js) (map CacheOp ops) (st, cache))) ! c = qc_cells cache ! c"
  using assms
proof (induction ops arbitrary: st cache)
  case (Cons op ops)
  let ?s = "cache_step cfg js (CacheOp op) (st, cache)"
  have step: "qc_cells (snd ?s) ! c = qc_cells cache ! c" "\<not> attached (snd ?s) c" "length (qc_cells (snd ?s)) = length (qc_cells cache)"
    using Cons.prems by (simp_all add: cache_step_def Let_def swept_detached attached_notified)
      (simp add: cache_notified_def signal_read_def sweep_entries_def)
  with Cons.IH [of "snd ?s" "fst ?s"] Cons.prems(2) show ?case by simp
qed simp

text \<open>A store that is used again after its entry was evicted: the second eviction takes the key from the entry that replaced it.\<close>

definition remount_events :: "Query \<Rightarrow> (Replica \<Rightarrow> outcome) \<Rightarrow> cache_event list" where
  "remount_events q source = [Watch CollectionSurface q source, Hydrated, Subscribe 0 ''first'' False, Unsubscribe 0 ''first'', EvictTimer 0,
     Watch CollectionSurface q source, Subscribe 1 ''second'' False, Subscribe 0 ''first'' False, Unsubscribe 0 ''first'', EvictTimer 0]"

lemma subscribed_parts:
  "ce_refs (subscribe_cell js ready st l initial e) = ce_refs e + 1"
  "ce_listeners (subscribe_cell js ready st l initial e) = obj_set (ce_listeners e) l \<lparr>ls_initial = initial, ls_revision = rp_revision st\<rparr>"
  "ce_evictTimer (subscribe_cell js ready st l initial e) \<longleftrightarrow> ce_refs e \<noteq> 0 \<and> ce_evictTimer e"
proof -
  define parts where "parts e = (ce_refs e, ce_listeners e, ce_evictTimer e)" for e :: CacheEntry
  have [simp]: "parts (refresh st e) = parts e" "parts (notifyAll e) = parts e" "parts (notifyInitial st e) = parts e"
      "parts (e\<lparr>ce_running := x\<rparr>) = parts e" "parts (e\<lparr>ce_runs := n\<rparr>) = parts e" "parts (e\<lparr>ce_data := d\<rparr>) = parts e"
      "parts (e\<lparr>ce_error := er\<rparr>) = parts e" "parts (e\<lparr>ce_revision := r\<rparr>) = parts e" "parts (e\<lparr>ce_queued := q\<rparr>) = parts e" for e st x n d er r q
    by (simp_all add: parts_def refresh_def notifyAll_def notifyInitial_def Let_def)
  have "parts (settle js st ctx data e) = parts e" "parts (fail st ctx error e) = parts e" for ctx data error e
    by (simp_all add: settle_def fail_def Let_def)
  then have exec: "parts (execute js st e) = parts e" for e by (simp add: execute_def Let_def split: outcome.splits)
  then have "parts (hydrate' js ready st e) = parts e" for e by (simp add: hydrate'_def split: readiness.splits)
  with exec have "parts (subscribe_cell js ready st l initial e) = parts (join_listener st l initial e)" by (simp add: subscribe_cell_def Let_def)
  then show "ce_refs (subscribe_cell js ready st l initial e) = ce_refs e + 1"
    "ce_listeners (subscribe_cell js ready st l initial e) = obj_set (ce_listeners e) l \<lparr>ls_initial = initial, ls_revision = rp_revision st\<rparr>"
    "ce_evictTimer (subscribe_cell js ready st l initial e) \<longleftrightarrow> ce_refs e \<noteq> 0 \<and> ce_evictTimer e"
    by (auto simp: parts_def join_listener_def cancelEviction_def)
qed

text \<open>Subscribing one listener twice counts two references, of which only one is ever returned.\<close>

lemma double_subscribe_leaks:
  "ce_refs (unsubscribe_cell ttl l (unsubscribe_cell ttl l
     (subscribe_cell js ready st l initial (subscribe_cell js ready st' l initial' e)))) = ce_refs e + 1"
proof -
  have sched: "ce_refs (scheduleEviction t x) = ce_refs x" "ce_listeners (scheduleEviction t x) = ce_listeners x" for t x
    by (simp_all add: scheduleEviction_def split: option.splits)
  let ?e = "subscribe_cell js ready st l initial (subscribe_cell js ready st' l initial' e)"
  have "ce_refs (unsubscribe_cell ttl l ?e) = ce_refs e + 1" "map_of (ce_listeners (unsubscribe_cell ttl l ?e)) l = None"
    by (simp_all add: unsubscribe_cell_def Let_def sched subscribed_parts js_simps)
  then show ?thesis by (simp add: unsubscribe_cell_def)
qed


lemma subscribed_key: "ce_key (subscribe_cell js ready st l initial e) = ce_key e"
  using statics_subscribe [of js ready st l initial e] by (simp add: statics_def)

lemma unsubscribed_last:
  assumes "ce_listeners e = [(l, s)]" "ce_refs e = 1" "\<not> ce_evictTimer e"
  shows "unsubscribe_cell (Some 1) l e = e\<lparr>ce_listeners := [], ce_refs := 0, ce_evictTimer := True\<rparr>"
  using assms by (simp add: unsubscribe_cell_def Let_def scheduleEviction_def)

lemma remounted:
  "let cache = snd (cache_run cfg js (Some 1) (remount_events q source)) in
   length (qc_cells cache) = 2 \<and> ce_refs (qc_cells cache ! 1) = 1 \<and> obj_keys (ce_listeners (qc_cells cache ! 1)) = [''second''] \<and> \<not> attached cache 1 \<and>
   qc_cells cache ! 1 = subscribe_cell js Ready createReplica ''second'' False (newEntry (queryKey CollectionSurface q) q source)"
proof -
  let ?n = "newEntry (queryKey CollectionSurface q) q source" and ?sub = "subscribe_cell js Ready createReplica"
  let ?st = "createReplica"
  have n: "ce_refs ?n = 0" "ce_listeners ?n = []" "\<not> ce_evictTimer ?n" "ce_key ?n = queryKey CollectionSurface q" by (simp_all add: newEntry_def)
  define u where "u = (?sub ''first'' False ?n)\<lparr>ce_listeners := [], ce_refs := 0, ce_evictTimer := False\<rparr>"
  have first: "unsubscribe_cell (Some 1) ''first'' (?sub ''first'' False ?n) = u\<lparr>ce_evictTimer := True\<rparr>"
    by (subst unsubscribed_last) (simp_all add: subscribed_parts n u_def)
  have u: "ce_refs u = 0" "ce_listeners u = []" "\<not> ce_evictTimer u" "ce_key u = queryKey CollectionSurface q"
    by (simp_all add: u_def subscribed_key n)
  define w where "w = (?sub ''first'' False u)\<lparr>ce_listeners := [], ce_refs := 0, ce_evictTimer := False\<rparr>"
  have again: "unsubscribe_cell (Some 1) ''first'' (?sub ''first'' False u) = w\<lparr>ce_evictTimer := True\<rparr>"
    by (subst unsubscribed_last) (simp_all add: subscribed_parts u w_def)
  have w: "ce_refs w = 0" "ce_listeners w = []" "\<not> ce_evictTimer w" "ce_key w = queryKey CollectionSurface q"
    by (simp_all add: w_def subscribed_key u)
  have u': "u\<lparr>ce_evictTimer := False\<rparr> = u" and w': "w\<lparr>ce_evictTimer := False\<rparr> = w" by (simp_all add: u_def w_def)
  have "snd (cache_run cfg js (Some 1) (remount_events q source)) =
      \<lparr>qc_entries = [], qc_cells = [w, ?sub ''second'' False ?n], qc_last = rp_revision ?st, qc_hydrated = True, qc_ttlMs = Some 1\<rparr>"
    by (simp add: cache_run_def remount_events_def createQueryCache_def cache_step_def watch_def on_cell_def evict_cell_def Let_def ready_of_def
        first u u' again w w')
  then show ?thesis by (simp add: attached_def subscribed_parts n)
qed

text \<open>
  An old store can cut off the live entry of its query. Suppose a query's last subscriber leaves and the entry is evicted, the query
  is watched and subscribed again, and then the first store is subscribed and released once more. When the lifetime
  of the first entry runs out again, its timer deletes the key, which by now names the second entry: that entry has a
  subscriber and is no longer in the table.
\<close>

theorem stale_store_evicts_live_entry:
  "let cache = snd (cache_run cfg js (Some 1) (remount_events q source)) in
   ce_refs (qc_cells cache ! 1) = 1 \<and> obj_keys (ce_listeners (qc_cells cache ! 1)) = [''second''] \<and> \<not> attached cache 1"
  using remounted [of cfg js q source] unfolding Let_def by blast

section \<open>Sample subscriptions\<close>

definition sample_reader :: CollectionReader where
  "sample_reader = \<lparr>cr_cfg = sample_config, cr_tyof = (\<lambda>_. ''relationship''), cr_js = sample_runtime, cr_resolve = sample_resolve, cr_query = sample_query\<rparr>"

lemma sample_reader_ok: "reader_ok sample_reader"
proof -
  have "sample_resolve a = sample_resolve b"
    if "obj_ok (ent_fields a)" "obj_ok (ent_fields b)" "\<not> contentChanged (=) (Some a) (Some b)" for a b
  proof -
    have "leaf_entry a = leaf_entry b"
      using that by (intro unchanged_leaf [where eq = "(=)"]) (simp_all add: contentChanged_def split: if_splits)
    from readStringField_alike [OF this] show ?thesis by (simp add: sample_resolve_def fun_eq_iff)
  qed
  moreover have "refEq sample_config = (=)" by (simp add: sample_config_def createConfig_def)
  ultimately show ?thesis
    using sample_run_ok(1) sample_named by (simp add: reader_ok_def sample_reader_def isReplicaBacked_def) (simp add: sample_query_def)
qed

lemma sample_queryable: "queryable sample_reader (replica_run sample_config sample_run)" "queryable sample_reader createReplica"
proof -
  have one: "order_on c A" if "A \<subseteq> {sample_edge_row}" "c sample_edge_row sample_edge_row = 0" for c :: "Entity \<Rightarrow> Entity \<Rightarrow> int" and A
    using that by (auto simp: order_on_def dest!: subset_singletonD)
  have zero: "query_order sample_runtime sample_resolve sample_query sample_edge_row sample_edge_row = 0"
    using code_unit_compare_ok by (simp add: query_order_def compareEntities_def sample_query_def js_compare_strings_def sample_runtime_def comparator_ok_def)
  from one [where c = "query_order sample_runtime sample_resolve sample_query", OF _ zero] sample_indexable show "queryable sample_reader (replica_run sample_config sample_run)"
    by (simp add: queryable_def sample_reader_def sample_answer)
  have empty: "replica_get createReplica i = None" for i by (simp add: replica_get_def createReplica_def)
  moreover have "createReplica = replica_run sample_config []" by (simp add: replica_run_def)
  ultimately have "indexable createReplica" using sample_run_ok(1) unfolding indexable_def by force
  moreover have "query_answer sample_runtime createReplica sample_query = {}" by (simp add: query_answer_def visible_def empty)
  ultimately show "queryable sample_reader createReplica" by (simp add: queryable_def sample_reader_def order_on_def)
qed


lemma cache_run_replica:
  "fst (cache_run cfg js ttlMs evs) = fold (\<lambda>ev st. case ev of CacheOp op \<Rightarrow> replica_step cfg op st | _ \<Rightarrow> st) evs createReplica"
proof -
  have "fst (fold (cache_step cfg js) evs s) = fold (\<lambda>ev st. case ev of CacheOp op \<Rightarrow> replica_step cfg op st | _ \<Rightarrow> st) evs (fst s)" for s
  proof (induction evs arbitrary: s)
    case (Cons ev evs)
    have "fst (cache_step cfg js ev s) = (case ev of CacheOp op \<Rightarrow> replica_step cfg op (fst s) | _ \<Rightarrow> fst s)"
      by (cases s; cases ev) (simp_all add: cache_step_def Let_def)
    with Cons.IH show ?case by simp
  qed simp
  then show ?thesis by (simp add: cache_run_def)
qed

definition sample_subscription :: "cache_event list" where
  "sample_subscription = [Watch CollectionSurface sample_query (collection_source sample_runtime sample_resolve sample_query), Hydrated,
     Subscribe 0 ''view'' False, CacheOp (Optimistic (sample_action ''a_1'' [sample_link]))]"

lemma sample_ids:
  "collection_source sample_runtime sample_resolve sample_query (replica_run sample_config sample_run) = Ran [JStr ''r_1'']"
  "collection_source sample_runtime sample_resolve sample_query createReplica = Ran []"
proof -
  let ?src = "collection_source sample_runtime sample_resolve sample_query"
  have k: "cr_js sample_reader = sample_runtime" "cr_resolve sample_reader = sample_resolve" "cr_query sample_reader = sample_query"
    by (simp_all add: sample_reader_def)
  have limit: "limited (qy_limit sample_query) xs = take 5 xs" for xs :: "json list" by (simp add: limited_def sample_query_def)
  from collection_ids [OF sample_reader_ok sample_queryable(1), unfolded k] obtain rows where
    rows: "distinct (map ent_id rows)" "set rows = {sample_edge_row}" "?src (replica_run sample_config sample_run) = Ran (take 5 (map (JStr \<circ> ent_id) rows))"
    unfolding sample_answer limit by blast
  have "rows = [sample_edge_row]"
  proof (cases rows)
    case (Cons a xs)
    with rows(1,2) show ?thesis by (cases xs) auto
  qed (use rows in simp)
  with rows(3) show "?src (replica_run sample_config sample_run) = Ran [JStr ''r_1'']" by (simp add: sample_edge_row_def)
  have "query_answer sample_runtime createReplica sample_query = {}"
    by (simp add: query_answer_def visible_def replica_get_def createReplica_def)
  with collection_ids [OF sample_reader_ok sample_queryable(2), unfolded k] show "?src createReplica = Ran []"
    unfolding limit by auto
qed

text \<open>An idle, subscribed entry whose source answers stays so in a sweep.\<close>

lemma refresh_parts:
  "ce_refs (refresh st e) = ce_refs e" "ce_running (refresh st e) = ce_running e" "ce_error (refresh st e) = ce_error e"
  "ce_source (refresh st e) = ce_source e" "ce_data (refresh st e) = ce_data e"
  by (simp_all add: refresh_def Let_def)

lemma settle_parts:
  "ce_refs (settle js st ctx data e) = ce_refs e" "ce_running (settle js st ctx data e) = Idle" "ce_error (settle js st ctx data e) = None"
  by (simp_all add: settle_def Let_def notifyAll_def notifyInitial_def refresh_parts)

lemma execute_answered:
  assumes "ce_source e st = Ran d"
  shows "ce_refs (execute js st e) = ce_refs e" "ce_running (execute js st e) = Idle" "ce_error (execute js st e) = None"
  using assms by (simp_all add: execute_def Let_def refresh_parts settle_parts)

lemma reconcile_idle:
  assumes "ce_running e = Idle" "ce_error e = None" "ce_data e \<noteq> None" "ce_source e st = Ran d"
  shows "ce_refs (reconcile js ready st e) = ce_refs e \<and> ce_running (reconcile js ready st e) = Idle \<and> ce_error (reconcile js ready st e) = None"
  using assms execute_answered [OF assms(4)] by (simp add: reconcile_def refresh_parts split: option.splits)

theorem collection_entry_current_witness:
  "ce_snapshot (qc_cells (snd (cache_run sample_config sample_runtime None sample_subscription)) ! 0) =
     \<lparr>qr_data = Some [JStr ''r_1''], qr_status = Current, qr_loading = False, qr_error = None\<rparr>"
proof -
  let ?src = "collection_source sample_runtime sample_resolve sample_query" and ?op = "Optimistic (sample_action ''a_1'' [sample_link])"
  let ?n = "newEntry (queryKey CollectionSurface sample_query) sample_query ?src"
  let ?e = "subscribe_cell sample_runtime Ready createReplica ''view'' False ?n"
  let ?st = "replica_run sample_config sample_run"
  let ?run = "\<lambda>evs. cache_run sample_config sample_runtime None evs"
  have k: "cr_js sample_reader = sample_runtime" "cr_resolve sample_reader = sample_resolve" "cr_query sample_reader = sample_query"
    "cr_cfg sample_reader = sample_config" "cr_tyof sample_reader = (\<lambda>_. ''relationship'')" by (simp_all add: sample_reader_def)
  have st: "replica_step sample_config ?op createReplica = ?st" by (simp add: replica_run_def sample_run_def)
  let ?c3 = "\<lparr>qc_entries = [(queryKey CollectionSurface sample_query, 0)], qc_cells = [?e], qc_last = rp_revision createReplica, qc_hydrated = True, qc_ttlMs = None\<rparr>"
  have three: "fold (cache_step sample_config sample_runtime) (take 3 sample_subscription) (createReplica, createQueryCache createReplica None) = (createReplica, ?c3)"
    by (simp add: sample_subscription_def createQueryCache_def cache_step_def watch_def on_cell_def Let_def ready_of_def)
  have split: "sample_subscription = take 3 sample_subscription @ [CacheOp ?op]" by (simp add: sample_subscription_def)
  have final: "?run sample_subscription = cache_step sample_config sample_runtime (CacheOp ?op) (createReplica, ?c3)"
    unfolding cache_run_def by (subst split) (simp only: fold_append comp_apply three fold.simps id_apply)
  have e: "ce_running ?e = Idle" "ce_error ?e = None" "ce_data ?e = Some []" "ce_source ?e = ?src" "ce_refs ?e = 1"
    by (simp_all add: subscribe_cell_def join_listener_def hydrate'_def execute_def settle_def newEntry_def sample_ids refresh_def notifyInitial_def
        notifyAll_def Let_def cancelEviction_def)
  define cache where "cache = snd (?run sample_subscription)"
  have run: "?run sample_subscription = (?st, cache)" by (simp add: cache_def final cache_step_def Let_def st)
  have cell: "qc_cells cache ! 0 = ?e \<or> qc_cells cache ! 0 = reconcile sample_runtime Ready ?st ?e" "attached cache 0"
    by (auto simp: cache_def final cache_step_def Let_def st cache_notified_def signal_read_def sweep_entries_def on_cell_def attached_def ready_of_def)
  have stat: "statics (qc_cells cache ! 0) = statics ?n" using cell(1) by auto
  have "fst (?run (take n sample_subscription)) \<in> {createReplica, ?st}" for n
  proof -
    consider "n = 0" | "n = 1" | "n = 2" | "n = 3" | "4 \<le> n" by linarith
    then show ?thesis by cases (simp_all add: cache_run_replica sample_subscription_def st)
  qed
  then have readable: "queryable sample_reader (fst (?run (take n sample_subscription)))" for n using sample_queryable by (metis insertE singletonD)
  have typed: "list_all (cache_typed (\<lambda>_. ''relationship'')) sample_subscription"
    using sample_run_ok(2) by (simp add: sample_subscription_def cache_typed_def sample_run_def)
  note current = collection_entry_current [OF sample_reader_ok, unfolded k, OF typed readable run cell(2) refl]
  have "ce_refs (qc_cells cache ! 0) = 1" "ce_running (qc_cells cache ! 0) = Idle" "ce_error (qc_cells cache ! 0) = None"
    using cell(1) e reconcile_idle [of ?e ?st "[JStr ''r_1'']" sample_runtime Ready] sample_ids(1) by auto
  with current stat show ?thesis by (simp add: statics_def newEntry_def sample_ids(1) flip: cache_def)
qed


text \<open>The subscriber of the entry that was cut off keeps an empty list, said to be current, while the query has a row.\<close>

theorem detached_entry_frozen_witness:
  "let src = collection_source sample_runtime sample_resolve sample_query;
       s = cache_run sample_config sample_runtime (Some 1)
         (remount_events sample_query src @ [CacheOp (Optimistic (sample_action ''a_1'' [sample_link]))])
   in ce_snapshot (qc_cells (snd s) ! 1) = \<lparr>qr_data = Some [], qr_status = Current, qr_loading = False, qr_error = None\<rparr> \<and>
      src (fst s) = Ran [JStr ''r_1'']"
proof -
  let ?src = "collection_source sample_runtime sample_resolve sample_query" and ?op = "Optimistic (sample_action ''a_1'' [sample_link])"
  let ?s = "cache_run sample_config sample_runtime (Some 1) (remount_events sample_query ?src)"
  let ?s' = "cache_run sample_config sample_runtime (Some 1) (remount_events sample_query ?src @ [CacheOp ?op])"
  let ?n = "newEntry (queryKey CollectionSurface sample_query) sample_query ?src"
  have cut: "length (qc_cells (snd ?s)) = 2" "\<not> attached (snd ?s) 1"
    "qc_cells (snd ?s) ! 1 = subscribe_cell sample_runtime Ready createReplica ''second'' False ?n"
    using remounted [of sample_config sample_runtime sample_query ?src] unfolding Let_def by blast+
  have "qc_cells (snd (fold (cache_step sample_config sample_runtime) (map CacheOp [?op]) (fst ?s, snd ?s))) ! 1 = qc_cells (snd ?s) ! 1"
    by (rule detached_entry_frozen [OF cut(2)]) (simp add: cut(1))
  then have "qc_cells (snd ?s') ! 1 = subscribe_cell sample_runtime Ready createReplica ''second'' False ?n"
    unfolding cut(3) by (simp add: cache_run_def)
  then have "ce_snapshot (qc_cells (snd ?s') ! 1) = \<lparr>qr_data = Some [], qr_status = Current, qr_loading = False, qr_error = None\<rparr>"
    by (simp add: subscribe_cell_def join_listener_def hydrate'_def execute_def settle_def newEntry_def sample_ids refresh_def notifyInitial_def
        notifyAll_def Let_def cancelEviction_def statusOf_def initialSnapshot_def)
  moreover have "fst ?s' = replica_run sample_config sample_run"
    by (simp add: cache_run_replica remount_events_def replica_run_def sample_run_def)
  ultimately show ?thesis by (simp add: Let_def sample_ids(1))
qed


end
