(* ===== verification/EntitySchema.thy ===== *)
theory EntitySchema
  imports TextWire
begin

text \<open>
  The schema layer (packages/schema/src): entity and relationship definitions, reserved names, the
  system entities, the expansion of collaborative-text fields, the registry and its validations, and
  the ids of derived bodies (\<^verbatim>\<open>derivedBodyIds\<close>).

  TypeBox is a parameter, the record \<open>TypeBox\<close>: its checks and constructors, and which schemas it can check
  at all (an exotic one makes it throw). A schema value
  carries what the code itself reads from it or stamps on it. A payload value is a JavaScript value;
  the marker \<^verbatim>\<open>unset\<close> and a create handle are objects with symbol or hidden keys, so they are
  constructors of their own.
\<close>

section \<open>Payload values (core/src/types/unset.ts)\<close>

datatype pvalue =
    PUndefined
  | PUnset
  | PHandle string
  | PNull
  | PBool bool
  | PNum int
  | PDec string
  | PStr string
  | PArr "pvalue list"
  | PObj "(string \<times> pvalue) list"

definition isUnset :: "pvalue \<Rightarrow> bool" where
  "isUnset v = (v = PUnset)"

text \<open>
  A value as the wire shows it: the marker has no enumerable key of a string, so it is the empty
  object, a handle shows its id, and \<^verbatim>\<open>undefined\<close> is written as nil.
\<close>

fun value_json :: "pvalue \<Rightarrow> json" where
  "value_json PUndefined = JNull"
| "value_json PUnset = JObj []"
| "value_json (PHandle i) = JObj [(''id'', JStr i)]"
| "value_json PNull = JNull"
| "value_json (PBool b) = JBool b"
| "value_json (PNum n) = JNum n"
| "value_json (PDec d) = JDec d"
| "value_json (PStr s) = JStr s"
| "value_json (PArr vs) = JArr (map value_json vs)"
| "value_json (PObj kvs) = JObj (map (\<lambda>(k, v). (k, value_json v)) kvs)"

section \<open>Entity definitions (entity.ts)\<close>

datatype ConflictScope = ScopeField | ScopeEntity

datatype Materialization = Held | OnDemand

datatype MarkerType = Lww

record FieldMarker =
  fm_type :: MarkerType
  fm_map :: bool

record CollaborativeTextMarker =
  ct_entity :: "string option"
  ct_conflictScope :: "ConflictScope option"

text \<open>
  A field schema: the TypeBox value, and the properties \<^verbatim>\<open>type\<close>, \<^verbatim>\<open>const\<close>, \<^verbatim>\<open>enum\<close>, \<^verbatim>\<open>anyOf\<close> with
  \<^verbatim>\<open>oneOf\<close>, \<^verbatim>\<open>patternProperties\<close>, the stamped default and the collaborative-text marker.
\<close>

datatype 's TSchema = TSchema
  (ts_base: 's) (ts_type: "string list") (ts_const: "json option") (ts_enum: "json list")
  (ts_branches: "'s TSchema list") (ts_patternProperties: bool) (ts_default: "json option")
  (ts_marker: "CollaborativeTextMarker option")

record ValueError =
  ve_path :: string
  ve_message :: string

record 's TypeBox =
  tb_checkable :: "'s TSchema \<Rightarrow> bool"
  tb_check :: "'s TSchema \<Rightarrow> pvalue \<Rightarrow> bool"
  tb_errors :: "'s TSchema \<Rightarrow> pvalue \<Rightarrow> ValueError list"
  tb_checkObject :: "'s TSchema obj \<Rightarrow> pvalue obj \<Rightarrow> bool"
  tb_errorsObject :: "'s TSchema obj \<Rightarrow> pvalue obj \<Rightarrow> ValueError list"
  tb_optional :: "'s TSchema \<Rightarrow> 's TSchema"
  tb_string :: "'s TSchema"
  tb_boolean :: "'s TSchema"
  tb_array :: "'s TSchema \<Rightarrow> 's TSchema"
  tb_record :: "'s TSchema \<Rightarrow> 's TSchema"
  tb_runField :: "'s TSchema"

record DerivedFieldDef =
  df_entity :: "string option"
  df_conflictScope :: ConflictScope

record 's EntityDef =
  ed_name :: string
  ed_conflictScope :: ConflictScope
  ed_materialization :: Materialization
  ed_shape :: "'s TSchema obj"
  ed_createShape :: "'s TSchema obj"
  ed_fields :: "FieldMarker obj"
  ed_derived :: "DerivedFieldDef obj"

record EntityOptions =
  eo_conflictScope :: "ConflictScope option"
  eo_materialization :: "Materialization option"

definition no_options :: EntityOptions where
  "no_options = \<lparr>eo_conflictScope = None, eo_materialization = None\<rparr>"

text \<open>What defining a schema can throw.\<close>

datatype schema_error =
    ReservedName string
  | NullField string string
  | DerivedFieldDefault string string
  | DerivedFieldCollision string string
  | DerivedDocNameCollision string string
  | ConflictScopeMismatch string ConflictScope ConflictScope
  | UnregisteredEndpoint string string string

definition stampDefault :: "'s TSchema \<Rightarrow> json \<Rightarrow> 's TSchema" where
  "stampDefault schema v = (case schema of TSchema b t c n br p d m \<Rightarrow> TSchema b t c n br p (Some v) m)"

definition hasDefault :: "'s TSchema \<Rightarrow> bool" where
  "hasDefault schema = (ts_default schema \<noteq> None)"

definition readDefault :: "'s TSchema option \<Rightarrow> json option" where
  "readDefault schema = Option.bind schema ts_default"

text \<open>\<^verbatim>\<open>e.collaborativeText()\<close>: a schema with the marker; \<open>never\<close> is \<^verbatim>\<open>Type.Never()\<close>.\<close>

definition e_collaborativeText :: "'s TSchema \<Rightarrow> string option \<Rightarrow> ConflictScope option \<Rightarrow> 's TSchema" where
  "e_collaborativeText never entity scope = (case never of TSchema b t c n br p d m \<Rightarrow>
     TSchema b t c n br p d (Some \<lparr>ct_entity = entity, ct_conflictScope = scope\<rparr>))"

definition isMapSchema :: "'s TSchema \<Rightarrow> bool" where
  "isMapSchema schema = ts_patternProperties schema"

definition deriveMarker :: "'s TSchema \<Rightarrow> FieldMarker" where
  "deriveMarker schema = \<lparr>fm_type = Lww, fm_map = isMapSchema schema\<rparr>"

lemma branch_smaller: "branch \<in> set (ts_branches schema) \<Longrightarrow> size branch < size schema"
  by (cases schema) (auto dest: size_list_estimation' [where f = size, OF _ order.refl])

function admitsNull :: "'s TypeBox \<Rightarrow> 's TSchema \<Rightarrow> bool" where
  "admitsNull tb schema =
     (''null'' \<in> set (ts_type schema) \<or> ts_const schema = Some JNull \<or> JNull \<in> set (ts_enum schema) \<or>
      (\<exists>branch \<in> set (ts_branches schema). admitsNull tb branch) \<or>
      (tb_checkable tb schema \<and> tb_check tb schema PNull))"
  by pat_completeness auto
termination
  by (relation "measure (\<lambda>(tb, s). size s)") (auto simp: branch_smaller)

declare admitsNull.simps [simp del]

definition withReadOptional :: "'s TypeBox \<Rightarrow> 's TSchema obj \<Rightarrow> 's TSchema obj" where
  "withReadOptional tb flds = map (\<lambda>(key, schema). (key, if hasDefault schema then schema else tb_optional tb schema)) flds"

definition withCreateOptional :: "'s TypeBox \<Rightarrow> 's TSchema obj \<Rightarrow> 's TSchema obj" where
  "withCreateOptional tb flds = map (\<lambda>(key, schema). (key, if hasDefault schema then tb_optional tb schema else schema)) flds"

text \<open>The loop of \<^verbatim>\<open>buildEntityDef\<close>: wire fields and derived fields, or the first error.\<close>

fun split_fields :: "'s TypeBox \<Rightarrow> string \<Rightarrow> ConflictScope \<Rightarrow> 's TSchema obj \<Rightarrow>
    schema_error + 's TSchema obj \<times> DerivedFieldDef obj" where
  "split_fields tb name entityScope [] = Inr ([], [])"
| "split_fields tb name entityScope ((key, schema) # rest) =
     (case ts_marker schema of
        Some marker \<Rightarrow>
          if hasDefault schema then Inl (DerivedFieldDefault name key)
          else map_sum id (map_prod id
            (Cons (key, \<lparr>df_entity = ct_entity marker, df_conflictScope = getOr (ct_conflictScope marker) entityScope\<rparr>)))
            (split_fields tb name entityScope rest)
      | None \<Rightarrow>
          if admitsNull tb schema then Inl (NullField name key)
          else map_sum id (map_prod (Cons (key, schema)) id) (split_fields tb name entityScope rest))"

definition buildEntityDef :: "'s TypeBox \<Rightarrow> string \<Rightarrow> 's TSchema obj \<Rightarrow> EntityOptions \<Rightarrow> schema_error + 's EntityDef" where
  "buildEntityDef tb name flds options =
     (let entityScope = getOr (eo_conflictScope options) ScopeField
      in map_sum id (\<lambda>(wireFields, derived).
          \<lparr>ed_name = name, ed_conflictScope = entityScope,
           ed_materialization = getOr (eo_materialization options) Held,
           ed_shape = withReadOptional tb wireFields, ed_createShape = withCreateOptional tb wireFields,
           ed_fields = map (\<lambda>(k, schema). (k, deriveMarker schema)) wireFields, ed_derived = derived\<rparr>)
        (split_fields tb name entityScope flds))"

section \<open>Reserved names (reserved.ts)\<close>

definition RESERVED_ENTITY_NAMES :: "string list" where
  "RESERVED_ENTITY_NAMES = [''group'', ''groupMember'', ''entityGroup'', ''relationship'']"

definition DERIVED_DOC_ENTITY_PREFIX :: string where
  "DERIVED_DOC_ENTITY_PREFIX = ''text_document__''"

definition RESERVED_MEMBERSHIP_NAMES :: "string list" where
  "RESERVED_MEMBERSHIP_NAMES = [''groups'']"

definition hasDerivedDocPrefix :: "string \<Rightarrow> bool" where
  "hasDerivedDocPrefix name = (take (length DERIVED_DOC_ENTITY_PREFIX) name = DERIVED_DOC_ENTITY_PREFIX)"

definition assertEntityNameAvailable :: "string \<Rightarrow> schema_error option" where
  "assertEntityNameAvailable name =
     (if hasDerivedDocPrefix name then Some (ReservedName name)
      else if name \<in> set RESERVED_ENTITY_NAMES then Some (ReservedName name)
      else None)"

definition assertFieldNamesAvailable :: "'v obj \<Rightarrow> schema_error option" where
  "assertFieldNamesAvailable flds =
     map_option ReservedName (List.find (\<lambda>name. map_of flds name \<noteq> None) RESERVED_MEMBERSHIP_NAMES)"

definition assertAccessorNameAvailable :: "string \<Rightarrow> schema_error option" where
  "assertAccessorNameAvailable accessor =
     (if accessor \<in> set RESERVED_MEMBERSHIP_NAMES then Some (ReservedName accessor) else None)"

definition defineEntity :: "'s TypeBox \<Rightarrow> string \<Rightarrow> 's TSchema obj \<Rightarrow> EntityOptions \<Rightarrow> schema_error + 's EntityDef" where
  "defineEntity tb name flds options =
     (case assertEntityNameAvailable name of
        Some err \<Rightarrow> Inl err
      | None \<Rightarrow> (case assertFieldNamesAvailable flds of
          Some err \<Rightarrow> Inl err
        | None \<Rightarrow> buildEntityDef tb name flds options))"

section \<open>Relationships (relationship.ts)\<close>

datatype SourceCardinality = One | Many

datatype RelationshipKind = CollaborativeText

text \<open>A relationship definition, with its endpoints given by their names.\<close>

record RelationshipDef =
  rd_source :: string
  rd_target :: string
  rd_as :: string
  rd_sourceCardinality :: SourceCardinality
  rd_type :: string
  rd_kind :: "RelationshipKind option"

definition defineRelationship ::
  "string \<Rightarrow> string \<Rightarrow> string \<Rightarrow> SourceCardinality option \<Rightarrow> string option \<Rightarrow> RelationshipKind option \<Rightarrow>
    schema_error + RelationshipDef" where
  "defineRelationship source target accessor cardinality type kind =
     (case assertAccessorNameAvailable accessor of
        Some err \<Rightarrow> Inl err
      | None \<Rightarrow> Inr \<lparr>rd_source = source, rd_target = target, rd_as = accessor,
          rd_sourceCardinality = getOr cardinality One, rd_type = getOr type source, rd_kind = kind\<rparr>)"

section \<open>The registry (entity-registry.ts)\<close>

record 's EntityRegistry =
  er_entities :: "'s EntityDef obj"
  er_relationships :: "RelationshipDef obj"

definition empty_registry :: "'s EntityRegistry" where
  "empty_registry = \<lparr>er_entities = [], er_relationships = []\<rparr>"

definition relationshipKey :: "string \<Rightarrow> string \<Rightarrow> string" where
  "relationshipKey sourceName accessor = sourceName @ ''::'' @ accessor"

definition register :: "'s EntityDef \<Rightarrow> 's EntityRegistry \<Rightarrow> 's EntityRegistry" where
  "register entity reg = reg\<lparr>er_entities := obj_set (er_entities reg) (ed_name entity) entity\<rparr>"

definition reg_get :: "'s EntityRegistry \<Rightarrow> string \<Rightarrow> 's EntityDef option" where
  "reg_get reg name = map_of (er_entities reg) name"

definition entityNames :: "'s EntityRegistry \<Rightarrow> string list" where
  "entityNames reg = obj_keys (er_entities reg)"

definition reg_has :: "'s EntityRegistry \<Rightarrow> string \<Rightarrow> bool" where
  "reg_has reg name = (map_of (er_entities reg) name \<noteq> None)"

definition reg_isEmpty :: "'s EntityRegistry \<Rightarrow> bool" where
  "reg_isEmpty reg = (length (er_entities reg) = 0 \<and> length (er_relationships reg) = 0)"

definition isLwwField :: "'s EntityRegistry \<Rightarrow> string \<Rightarrow> string \<Rightarrow> bool" where
  "isLwwField reg subjectType field = (case map_of (er_entities reg) subjectType of
     None \<Rightarrow> True
   | Some entity \<Rightarrow> (case map_of (ed_fields entity) field of None \<Rightarrow> True | Some marker \<Rightarrow> fm_type marker = Lww))"

definition getConflictScope :: "'s EntityRegistry \<Rightarrow> string \<Rightarrow> ConflictScope" where
  "getConflictScope reg subjectType = getOr (map_option ed_conflictScope (map_of (er_entities reg) subjectType)) ScopeField"

text \<open>The second component is the returned marker: the cardinality that was overwritten.\<close>

definition registerRelationship ::
  "RelationshipDef \<Rightarrow> 's EntityRegistry \<Rightarrow> 's EntityRegistry \<times> SourceCardinality option" where
  "registerRelationship def reg =
     (let key = relationshipKey (rd_source def) (rd_as def); prev = map_of (er_relationships reg) key
      in (reg\<lparr>er_relationships := obj_set (er_relationships reg) key def\<rparr>, map_option rd_sourceCardinality prev))"

definition getRelationship :: "'s EntityRegistry \<Rightarrow> string \<Rightarrow> string \<Rightarrow> RelationshipDef option" where
  "getRelationship reg sourceName accessor = map_of (er_relationships reg) (relationshipKey sourceName accessor)"

definition getRelationshipsForSource :: "'s EntityRegistry \<Rightarrow> string \<Rightarrow> RelationshipDef list" where
  "getRelationshipsForSource reg sourceName = filter (\<lambda>r. rd_source r = sourceName) (map snd (er_relationships reg))"

definition getRelationshipsForTarget :: "'s EntityRegistry \<Rightarrow> string \<Rightarrow> RelationshipDef list" where
  "getRelationshipsForTarget reg targetName = filter (\<lambda>r. rd_target r = targetName) (map snd (er_relationships reg))"

subsection \<open>Validation\<close>

text \<open>The message of a violation, as a value.\<close>

datatype violation_message =
    MUnknownSubjectType string
  | MUndeclaredField string string
  | MUnknownFilterType string
  | MFilterNotList
  | MFilterGroupNotObject nat
  | MUndeclaredFilterField string nat string
  | MDefaultedFilter string
  | MPayloadNotObject
  | MNullIsNotUnset string
  | MExpected string
  | MValueError string string
  | MEmptyPatch
  | MMembershipAccessor
  | MUndeclaredRelationship string string
  | MUnregistered string string
  | MSourceIdRequired string
  | MEntityUpdateRequired string
  | MTargetRequired string
  | MGroupsRequired string string
  | MDerivedNotString string
  | MTooManyTargets string nat
  | MOneTargetNotSet string
  | MUnresolvedFkSet string string
  | MNotATarget
  | MNoVisibleEdge string
  | MCreateUnregistered string

record ValidationViolation =
  vv_entityName :: string
  vv_updateIndex :: "nat option"
  vv_field :: "string option"
  vv_message :: violation_message

definition UNKNOWN_ENTITY :: string where "UNKNOWN_ENTITY = ''(unknown)''"

text \<open>JavaScript's \<^verbatim>\<open>in\<close> also finds the properties every object inherits.\<close>

definition OBJECT_PROTOTYPE :: "string list" where
  "OBJECT_PROTOTYPE = [''constructor'', ''__defineGetter__'', ''__defineSetter__'', ''hasOwnProperty'', ''__lookupGetter__'',
     ''__lookupSetter__'', ''isPrototypeOf'', ''propertyIsEnumerable'', ''toString'', ''valueOf'', ''__proto__'', ''toLocaleString'']"

definition js_in :: "string \<Rightarrow> 'v obj \<Rightarrow> bool" where
  "js_in key o' = (map_of o' key \<noteq> None \<or> key \<in> set OBJECT_PROTOTYPE)"

definition update_violations :: "'s EntityRegistry \<Rightarrow> nat \<Rightarrow> Update \<Rightarrow> ValidationViolation list" where
  "update_violations reg i update =
     (case map_of (er_entities reg) (subject_type update) of
        None \<Rightarrow> [\<lparr>vv_entityName = UNKNOWN_ENTITY, vv_updateIndex = Some i, vv_field = None,
                 vv_message = MUnknownSubjectType (subject_type update)\<rparr>]
      | Some entity \<Rightarrow> (case upd_data update of
          None \<Rightarrow> []
        | Some flds \<Rightarrow> map (\<lambda>fieldName. \<lparr>vv_entityName = ed_name entity, vv_updateIndex = Some i,
              vv_field = Some fieldName, vv_message = MUndeclaredField fieldName (ed_name entity)\<rparr>)
            (filter (\<lambda>fieldName. \<not> js_in fieldName (ed_fields entity)) (obj_keys flds))))"

definition validateAction :: "'s EntityRegistry \<Rightarrow> Action \<Rightarrow> ValidationViolation list" where
  "validateAction reg action =
     (if reg_isEmpty reg then []
      else concat (map (\<lambda>(i, update). update_violations reg i update)
        (zip [0..<length (act_updates action)] (act_updates action))))"

text \<open>The enumerable own properties of a value; \<^const>\<open>None\<close> when it is null or not an object.\<close>

definition object_entries :: "pvalue \<Rightarrow> pvalue obj option" where
  "object_entries v = (case v of
     PObj kvs \<Rightarrow> Some kvs
   | PArr vs \<Rightarrow> Some (map (\<lambda>i. (dec_nat i, vs ! i)) [0..<length vs])
   | PUnset \<Rightarrow> Some []
   | PHandle i \<Rightarrow> Some [(''id'', PStr i)]
   | _ \<Rightarrow> None)"

definition is_array :: "pvalue \<Rightarrow> bool" where
  "is_array v = (case v of PArr _ \<Rightarrow> True | _ \<Rightarrow> False)"

definition filter_group_violations :: "'s EntityDef \<Rightarrow> nat \<Rightarrow> pvalue \<Rightarrow> ValidationViolation list" where
  "filter_group_violations entity index grp =
     (case (is_array grp, object_entries grp) of
        (False, Some kvs) \<Rightarrow>
          map (\<lambda>fieldName. \<lparr>vv_entityName = ed_name entity, vv_updateIndex = None, vv_field = Some fieldName,
              vv_message = MUndeclaredFilterField fieldName index (ed_name entity)\<rparr>)
            (filter (\<lambda>fieldName. \<not> js_in fieldName (ed_fields entity)) (obj_keys kvs))
      | _ \<Rightarrow> [\<lparr>vv_entityName = ed_name entity, vv_updateIndex = None, vv_field = None,
              vv_message = MFilterGroupNotObject index\<rparr>])"

definition validateFilter :: "'s EntityRegistry \<Rightarrow> string \<Rightarrow> pvalue \<Rightarrow> ValidationViolation list" where
  "validateFilter reg type filt =
     (if length (er_entities reg) = 0 then []
      else (case map_of (er_entities reg) type of
          None \<Rightarrow> [\<lparr>vv_entityName = UNKNOWN_ENTITY, vv_updateIndex = None, vv_field = None, vv_message = MUnknownFilterType type\<rparr>]
        | Some entity \<Rightarrow> (case filt of
            PNull \<Rightarrow> []
          | PArr groups \<Rightarrow> concat (map (\<lambda>(index, grp). filter_group_violations entity index grp)
              (zip [0..<length groups] groups))
          | _ \<Rightarrow> [\<lparr>vv_entityName = ed_name entity, vv_updateIndex = None, vv_field = None, vv_message = MFilterNotList\<rparr>])))"

definition group_terms :: "pvalue list \<Rightarrow> (string \<times> pvalue) list" where
  "group_terms groups = concat (map (\<lambda>grp. if is_array grp then [] else getOr (object_entries grp) []) groups)"

definition filterWarnings :: "'s EntityRegistry \<Rightarrow> string \<Rightarrow> pvalue \<Rightarrow> ValidationViolation list" where
  "filterWarnings reg type filt = (case filt of
     PArr groups \<Rightarrow> (case map_of (er_entities reg) type of
         None \<Rightarrow> []
       | Some entity \<Rightarrow>
           (let terms = group_terms groups;
                compared = fold (\<lambda>(field, v) s. if v = PNull then s else set_add s field) terms [];
                hasNullTerm = fold (\<lambda>(field, v) s. if v = PNull then set_add s field else s) terms []
            in map (\<lambda>field. \<lparr>vv_entityName = ed_name entity, vv_updateIndex = None, vv_field = Some field,
                   vv_message = MDefaultedFilter field\<rparr>)
                 (filter (\<lambda>field. field \<notin> set hasNullTerm \<and>
                     (case map_of (ed_shape entity) field of None \<Rightarrow> False | Some property \<Rightarrow> hasDefault property)) compared)))
   | _ \<Rightarrow> [])"

subsection \<open>Validating a payload\<close>

definition nullIsNotUnset :: "string \<Rightarrow> string \<Rightarrow> ValidationViolation" where
  "nullIsNotUnset entityName field =
     \<lparr>vv_entityName = entityName, vv_updateIndex = None, vv_field = Some field, vv_message = MNullIsNotUnset field\<rparr>"

definition stripUnsetEntries :: "pvalue \<Rightarrow> string \<Rightarrow> string \<Rightarrow> pvalue \<times> ValidationViolation list" where
  "stripUnsetEntries v entityName field =
     (case (is_array v, object_entries v) of
        (False, Some kvs) \<Rightarrow>
          (PObj (filter (\<lambda>(key, entry). \<not> isUnset entry \<and> entry \<noteq> PNull) kvs),
           map (\<lambda>(key, entry). nullIsNotUnset entityName (field @ ''.'' @ key)) (filter (\<lambda>(key, entry). entry = PNull) kvs))
      | _ \<Rightarrow> (v, []))"

definition withOptionalKeys :: "'s TypeBox \<Rightarrow> 's TSchema obj \<Rightarrow> string list \<Rightarrow> 's TSchema obj" where
  "withOptionalKeys tb properties keys = fold (\<lambda>key next'. case map_of properties key of
     None \<Rightarrow> next' | Some fieldSchema \<Rightarrow> obj_set next' key (tb_optional tb fieldSchema)) keys properties"

definition stripLeadingSlash :: "string \<Rightarrow> string" where
  "stripLeadingSlash path = (case path of [] \<Rightarrow> [] | c # cs \<Rightarrow> if c = CHR ''/'' then cs else path)"

definition toViolation :: "string \<Rightarrow> ValueError \<Rightarrow> ValidationViolation" where
  "toViolation entityName err = (let field = stripLeadingSlash (ve_path err)
     in \<lparr>vv_entityName = entityName, vv_updateIndex = None, vv_field = (if field = [] then None else Some field),
         vv_message = MValueError field (ve_message err)\<rparr>)"

definition collectShapeErrors :: "'s TypeBox \<Rightarrow> 's TSchema obj \<Rightarrow> pvalue obj \<Rightarrow> string \<Rightarrow> ValidationViolation list" where
  "collectShapeErrors tb shape payload entityName =
     (if tb_checkObject tb shape payload then [] else map (toViolation entityName) (tb_errorsObject tb shape payload))"

definition collectFieldTypeErrors :: "'s TypeBox \<Rightarrow> 's TSchema \<Rightarrow> pvalue \<Rightarrow> string \<Rightarrow> string \<Rightarrow> ValidationViolation list" where
  "collectFieldTypeErrors tb fieldSchema v entityName fieldName =
     (if tb_check tb fieldSchema v then []
      else (case tb_errors tb fieldSchema v of
          [] \<Rightarrow> [\<lparr>vv_entityName = entityName, vv_updateIndex = None, vv_field = Some fieldName, vv_message = MExpected fieldName\<rparr>]
        | errs \<Rightarrow> map (\<lambda>err. \<lparr>vv_entityName = entityName, vv_updateIndex = None, vv_field = Some fieldName,
            vv_message = MValueError fieldName (ve_message err)\<rparr>) errs))"

definition partial_violations :: "'s TypeBox \<Rightarrow> 's TSchema obj \<Rightarrow> string \<Rightarrow> string \<times> pvalue \<Rightarrow> ValidationViolation list" where
  "partial_violations tb properties entityName kv = (case kv of (key, v) \<Rightarrow>
     if v = PUndefined \<or> isUnset v then []
     else if v = PNull then [nullIsNotUnset entityName key]
     else (case map_of properties key of
         None \<Rightarrow> []
       | Some fieldSchema \<Rightarrow> (let (checked, nulls) = stripUnsetEntries v entityName key
           in nulls @ collectFieldTypeErrors tb fieldSchema checked entityName key)))"

text \<open>\<open>cleaned\<close> and \<open>skipped\<close> are the payload without the keys that assert absence, and those keys.\<close>

definition cleaned :: "pvalue obj \<Rightarrow> string \<Rightarrow> pvalue obj" where
  "cleaned kvs entityName = map (\<lambda>(key, v). (key, fst (stripUnsetEntries v entityName key)))
     (filter (\<lambda>(key, v). \<not> isUnset v \<and> v \<noteq> PNull) kvs)"

definition skipped :: "pvalue obj \<Rightarrow> string list" where
  "skipped kvs = obj_keys (filter (\<lambda>(key, v). isUnset v \<or> v = PNull) kvs)"

definition null_violations :: "pvalue obj \<Rightarrow> string \<Rightarrow> ValidationViolation list" where
  "null_violations kvs entityName = concat (map (\<lambda>(key, v).
     if isUnset v then [] else if v = PNull then [nullIsNotUnset entityName key]
     else snd (stripUnsetEntries v entityName key)) kvs)"

definition validatePayload :: "'s TypeBox \<Rightarrow> 's TSchema obj \<Rightarrow> pvalue \<Rightarrow> string \<Rightarrow> bool \<Rightarrow> ValidationViolation list" where
  "validatePayload tb properties payload entityName isPartial = (case object_entries payload of
     None \<Rightarrow> [\<lparr>vv_entityName = entityName, vv_updateIndex = None, vv_field = None, vv_message = MPayloadNotObject\<rparr>]
   | Some kvs \<Rightarrow>
       map (\<lambda>key. \<lparr>vv_entityName = entityName, vv_updateIndex = None, vv_field = Some key,
           vv_message = MUndeclaredField key entityName\<rparr>)
         (filter (\<lambda>key. map_of properties key = None) (obj_keys kvs)) @
       (if isPartial then concat (map (partial_violations tb properties entityName) kvs)
        else null_violations kvs entityName @
          collectShapeErrors tb (if skipped kvs \<noteq> [] then withOptionalKeys tb properties (skipped kvs) else properties)
            (cleaned kvs entityName) entityName))"

section \<open>System entities and document entities (system-entities.ts, collaborative-text/schema.ts)\<close>

definition SYSTEM_ENTITY_NAMES :: "string list" where
  "SYSTEM_ENTITY_NAMES = [''relationship'', ''group'', ''groupMember'', ''entityGroup'']"

definition GROUPS_ACCESSOR :: string where "GROUPS_ACCESSOR = ''groups''"

definition relationshipSystemEntity :: "'s TypeBox \<Rightarrow> schema_error + 's EntityDef" where
  "relationshipSystemEntity tb = buildEntityDef tb ''relationship''
     [(''source_id'', tb_string tb), (''target_id'', tb_string tb), (''type'', tb_string tb), (''field'', tb_string tb)] no_options"

definition groupSystemEntity :: "'s TypeBox \<Rightarrow> schema_error + 's EntityDef" where
  "groupSystemEntity tb = buildEntityDef tb ''group''
     [(''name'', tb_string tb), (''apps'', tb_record tb (tb_boolean tb))] no_options"

definition groupMemberSystemEntity :: "'s TypeBox \<Rightarrow> schema_error + 's EntityDef" where
  "groupMemberSystemEntity tb = buildEntityDef tb ''groupMember''
     [(''group_id'', tb_string tb), (''actor_id'', tb_string tb), (''permissions'', tb_array tb (tb_string tb))] no_options"

definition entityGroupSystemEntity :: "'s TypeBox \<Rightarrow> schema_error + 's EntityDef" where
  "entityGroupSystemEntity tb = buildEntityDef tb ''entityGroup''
     [(''entity_id'', tb_string tb), (''group_id'', tb_string tb)] no_options"

definition generatedDocEntityName :: "string \<Rightarrow> string \<Rightarrow> string" where
  "generatedDocEntityName parent field = DERIVED_DOC_ENTITY_PREFIX @ parent @ ''__'' @ field"

text \<open>\<open>tb_runField\<close> is the schema of one entry of the content map, \<^verbatim>\<open>RunFieldValueSchema\<close>.\<close>

definition buildTextDocumentEntity :: "'s TypeBox \<Rightarrow> string \<Rightarrow> ConflictScope \<Rightarrow> schema_error + 's EntityDef" where
  "buildTextDocumentEntity tb name scope = buildEntityDef tb name
     [(DOC_CONTENT_FIELD, tb_record tb (tb_runField tb))]
     \<lparr>eo_conflictScope = Some scope, eo_materialization = Some OnDemand\<rparr>"

section \<open>Defining a schema (schema.ts)\<close>

text \<open>Sequencing of code that may throw.\<close>

definition sum_bind :: "'e + 'a \<Rightarrow> ('a \<Rightarrow> 'e + 'b) \<Rightarrow> 'e + 'b" where
  "sum_bind m f = (case m of Inl err \<Rightarrow> Inl err | Inr x \<Rightarrow> f x)"

fun fold_sum :: "('a \<Rightarrow> 's \<Rightarrow> 'e + 's) \<Rightarrow> 'a list \<Rightarrow> 's \<Rightarrow> 'e + 's" where
  "fold_sum f [] s = Inr s"
| "fold_sum f (x # xs) s = sum_bind (f x s) (fold_sum f xs)"

record 's Expansion =
  ex_entities :: "'s EntityDef obj"
  ex_relationships :: "RelationshipDef obj option"
  ex_generatedOwners :: "string obj"

text \<open>The name of the document entity of one derived field, with the owner table that claims it.\<close>

definition claim_doc_name :: "string \<Rightarrow> string \<Rightarrow> DerivedFieldDef \<Rightarrow> string obj \<Rightarrow> schema_error + string \<times> string obj" where
  "claim_doc_name parent field marker owners = (case df_entity marker of
     Some entity \<Rightarrow> (case assertEntityNameAvailable entity of Some err \<Rightarrow> Inl err | None \<Rightarrow> Inr (entity, owners))
   | None \<Rightarrow>
       (let docName = generatedDocEntityName parent field; owner = relationshipKey parent field;
            previous = map_of owners docName
        in if previous \<noteq> None \<and> previous \<noteq> Some owner then Inl (DerivedDocNameCollision parent field)
           else Inr (docName, obj_set owners docName owner)))"

text \<open>The document entity under that name: the present one if its scope agrees, a new one otherwise.\<close>

definition doc_entity :: "'s TypeBox \<Rightarrow> string \<Rightarrow> ConflictScope \<Rightarrow> 's EntityDef obj \<Rightarrow> schema_error + 's EntityDef obj" where
  "doc_entity tb docName scope entities = (case map_of entities docName of
     None \<Rightarrow> map_sum id (obj_set entities docName) (buildTextDocumentEntity tb docName scope)
   | Some docEntity \<Rightarrow>
       if ed_conflictScope docEntity \<noteq> scope then Inl (ConflictScopeMismatch docName (ed_conflictScope docEntity) scope)
       else Inr entities)"

definition expand_field :: "'s TypeBox \<Rightarrow> string \<Rightarrow> string \<times> DerivedFieldDef \<Rightarrow> 's Expansion \<Rightarrow> schema_error + 's Expansion" where
  "expand_field tb parent fm x = (case fm of (field, marker) \<Rightarrow>
     let table = getOr (ex_relationships x) []
     in if list_ex (\<lambda>(k, rel). rd_source rel = parent \<and> rd_as rel = field) table
        then Inl (DerivedFieldCollision parent field)
        else sum_bind (claim_doc_name parent field marker (ex_generatedOwners x)) (\<lambda>(docName, owners).
             sum_bind (doc_entity tb docName (df_conflictScope marker) (ex_entities x)) (\<lambda>entities.
             sum_bind (defineRelationship parent (getOr (map_option ed_name (map_of entities docName)) docName) field
                 (Some One) None (Some CollaborativeText)) (\<lambda>rel.
             Inr \<lparr>ex_entities = entities,
                  ex_relationships = Some (obj_set table (relationshipKey parent field) rel),
                  ex_generatedOwners = owners\<rparr>))))"

definition expandDerivedFields ::
  "'s TypeBox \<Rightarrow> 's EntityDef obj \<Rightarrow> RelationshipDef obj option \<Rightarrow>
    schema_error + 's EntityDef obj \<times> RelationshipDef obj option" where
  "expandDerivedFields tb entities relationships =
     map_sum id (\<lambda>x. (ex_entities x, ex_relationships x))
       (fold_sum (\<lambda>(k, entity). fold_sum (expand_field tb (ed_name entity)) (ed_derived entity)) entities
         \<lparr>ex_entities = entities, ex_relationships = relationships, ex_generatedOwners = []\<rparr>)"

definition assertRelationshipEndpointsRegistered :: "RelationshipDef \<Rightarrow> 's EntityRegistry \<Rightarrow> schema_error option" where
  "assertRelationshipEndpointsRegistered rel reg =
     map_option (\<lambda>name. UnregisteredEndpoint name (rd_source rel) (rd_as rel))
       (List.find (\<lambda>name. \<not> reg_has reg name) [rd_source rel, rd_target rel])"

definition seed_entity :: "string \<times> 's EntityDef \<Rightarrow> 's EntityRegistry \<Rightarrow> schema_error + 's EntityRegistry" where
  "seed_entity kv reg = (case kv of (k, entity) \<Rightarrow>
     (case (if hasDerivedDocPrefix (ed_name entity) then None else assertEntityNameAvailable (ed_name entity)) of
        Some err \<Rightarrow> Inl err
      | None \<Rightarrow> Inr (register entity reg)))"

definition seed_relationship :: "string \<times> RelationshipDef \<Rightarrow> 's EntityRegistry \<Rightarrow> schema_error + 's EntityRegistry" where
  "seed_relationship kv reg = (case kv of (k, rel) \<Rightarrow>
     (case assertRelationshipEndpointsRegistered rel reg of
        Some err \<Rightarrow> Inl err
      | None \<Rightarrow> (case assertAccessorNameAvailable (rd_as rel) of
          Some err \<Rightarrow> Inl err
        | None \<Rightarrow> Inr (fst (registerRelationship rel reg)))))"

definition system_entities :: "'s TypeBox \<Rightarrow> (schema_error + 's EntityDef) list" where
  "system_entities tb = [relationshipSystemEntity tb, groupSystemEntity tb, groupMemberSystemEntity tb, entityGroupSystemEntity tb]"

definition seedRegistry ::
  "'s TypeBox \<Rightarrow> 's EntityRegistry \<Rightarrow> 's EntityDef obj \<Rightarrow> RelationshipDef obj option \<Rightarrow> schema_error + 's EntityRegistry" where
  "seedRegistry tb reg entities relationships =
     sum_bind (fold_sum (\<lambda>sys reg. map_sum id (\<lambda>entity. register entity reg) sys) (system_entities tb) reg) (\<lambda>reg.
     sum_bind (fold_sum seed_entity entities reg) (\<lambda>reg.
     fold_sum seed_relationship (getOr relationships []) reg))"

record 's SchemaValue =
  sv_entities :: "'s EntityDef obj"
  sv_relationships :: "RelationshipDef obj option"
  sv_version :: int
  sv_minSupportedVersion :: "int option"
  sv_registry :: "'s EntityRegistry"

definition defineSchema ::
  "'s TypeBox \<Rightarrow> 's EntityDef obj \<Rightarrow> RelationshipDef obj option \<Rightarrow> int \<Rightarrow> int option \<Rightarrow> schema_error + 's SchemaValue" where
  "defineSchema tb entities relationships version minSupported =
     sum_bind (expandDerivedFields tb entities relationships) (\<lambda>(entities', relationships').
     sum_bind (seedRegistry tb empty_registry entities' relationships') (\<lambda>reg.
     Inr \<lparr>sv_entities = entities', sv_relationships = relationships', sv_version = version,
          sv_minSupportedVersion = minSupported, sv_registry = reg\<rparr>))"

section \<open>Derived bodies (collaborative-text/derived-ids.ts)\<close>

record DerivedBodyIds =
  db_documentType :: string
  db_documentId :: string
  db_relationshipId :: string

definition derivedBodyIds :: "'s EntityRegistry \<Rightarrow> string \<Rightarrow> string \<Rightarrow> string \<Rightarrow> DerivedBodyIds" where
  "derivedBodyIds reg entityName parentId field =
     (let documentType = getOr (map_option rd_target (getRelationship reg entityName field)) (generatedDocEntityName entityName field)
      in \<lparr>db_documentType = documentType, db_documentId = derivedDocumentId parentId field documentType,
          db_relationshipId = derivedRelationshipId parentId field\<rparr>)"

end
