(* ===== verification/WriteOps.thy ===== *)
theory WriteOps
  imports EntitySchema Permission "HOL-Library.State_Monad"
begin

text \<open>
  The write operations (packages/write/src): pointer.ts, membership.ts, relationship.ts,
  field-projection.ts, operations.ts and committer.ts. An operation is a function from a context and
  its resolved input to the Updates of one mutation.

  The ids and clock stamps an operation consumes come from the caller (\<open>OperationIds\<close>). The state of the
  monad is the number of such calls made so far, and an id is a function of that number. An operation
  that throws gives \<open>Inl\<close>; the calls it made before are counted.
\<close>

section \<open>Errors and context\<close>

datatype pointer_problem = EmptyPointer | ObjectPointer | BadPointer | NullEntry

record ActionRejection =
  rj_id :: string
  rj_reason :: string
  rj_details :: "string option"
  rj_subjectType :: "string option"

datatype op_error =
    EntityValidation "ValidationViolation list"
  | ActionRejected "ActionRejection list"
  | PointerError pointer_problem string

definition invalid :: "string \<Rightarrow> string option \<Rightarrow> violation_message \<Rightarrow> op_error" where
  "invalid entityName field message =
     EntityValidation [\<lparr>vv_entityName = entityName, vv_updateIndex = None, vv_field = field, vv_message = message\<rparr>]"

definition quoted :: "string \<Rightarrow> string" where
  "quoted s = CHR 0x22 # s @ [CHR 0x22]"

record OperationIds =
  oi_updateId :: "nat \<Rightarrow> string"
  oi_hlc :: "nat \<Rightarrow> hlc"
  oi_newId :: "nat \<Rightarrow> string \<Rightarrow> string"

record 's OpContext =
  oc_registry :: "'s EntityRegistry"
  oc_ids :: OperationIds
  oc_actorId :: string

definition mint :: "(nat \<Rightarrow> 'a) \<Rightarrow> (nat, 'a) state" where
  "mint f = State (\<lambda>n. (f n, Suc n))"

definition updateId :: "'s OpContext \<Rightarrow> (nat, string) state" where
  "updateId ctx = mint (oi_updateId (oc_ids ctx))"

definition fresh_hlc :: "'s OpContext \<Rightarrow> (nat, hlc) state" where
  "fresh_hlc ctx = mint (oi_hlc (oc_ids ctx))"

definition newId :: "'s OpContext \<Rightarrow> string \<Rightarrow> (nat, string) state" where
  "newId ctx prefix = mint (\<lambda>n. oi_newId (oc_ids ctx) n prefix)"

section \<open>Pointers (pointer.ts)\<close>

text \<open>\<^const>\<open>None\<close> in the result is \<^verbatim>\<open>null\<close>, no live edge.\<close>

definition normalizePointer :: "pvalue \<Rightarrow> string \<Rightarrow> op_error + string option" where
  "normalizePointer v label = (case v of
     PNull \<Rightarrow> Inr None
   | PUndefined \<Rightarrow> Inr None
   | PStr s \<Rightarrow> if length s = 0 then Inl (PointerError EmptyPointer label) else Inr (Some s)
   | _ \<Rightarrow> (case object_entries v of
       Some kvs \<Rightarrow> (case map_of kvs ''id'' of
           Some (PStr i) \<Rightarrow> if length i > 0 then Inr (Some i) else Inl (PointerError ObjectPointer label)
         | _ \<Rightarrow> Inl (PointerError ObjectPointer label))
     | None \<Rightarrow> Inl (PointerError BadPointer label)))"

section \<open>Membership (membership.ts)\<close>

record MembershipView =
  mv_groupsOf :: "string \<Rightarrow> string list"
  mv_groupOfMembership :: "string \<Rightarrow> string option"

definition wireGroupIds :: "Update \<Rightarrow> string list" where
  "wireGroupIds update = (case asString (fieldValue update ''group_id'') of Some g \<Rightarrow> [g] | None \<Rightarrow> [])"

definition wireSourceId :: "Update \<Rightarrow> string option" where
  "wireSourceId update = asString (fieldValue update ''source_id'')"

definition sortedUnique :: "string list \<Rightarrow> string list" where
  "sortedUnique groups = sort (unique groups)"

definition entityGroupId :: "string \<Rightarrow> string \<Rightarrow> string" where
  "entityGroupId entityId groupId = ''eg_'' @ dec_nat (length entityId) @ ''_'' @ entityId @ groupId"

definition resolveUpdateGroups :: "Update \<Rightarrow> MembershipView \<Rightarrow> string list" where
  "resolveUpdateGroups update view =
     (if subject_type update = ''group'' then [subject_id update]
      else if subject_type update = ''groupMember'' then wireGroupIds update
      else if subject_type update = ''entityGroup''
      then (if upd_method update \<noteq> Delete then wireGroupIds update
            else (case mv_groupOfMembership view (subject_id update) of None \<Rightarrow> [] | Some g \<Rightarrow> [g]))
      else if subject_type update = ''relationship''
      then (case wireSourceId update of None \<Rightarrow> [] | Some sourceId \<Rightarrow> mv_groupsOf view sourceId)
      else mv_groupsOf view (subject_id update))"

definition membershipScope :: "Update list \<Rightarrow> MembershipView \<Rightarrow> string list" where
  "membershipScope updates view = sortedUnique (concat (map (\<lambda>update. resolveUpdateGroups update view) updates))"

record MembershipDelta =
  md_puts :: "string list"
  md_removedGroups :: "string list"

definition resultingGroups :: "string list \<Rightarrow> MembershipDelta \<Rightarrow> string list" where
  "resultingGroups currentGroups delta =
     (let added = unique (md_puts delta);
          removed = unique (md_removedGroups delta);
          removedAndNotReadded = filter (\<lambda>g. g \<notin> set added) removed;
          surviving = fold (\<lambda>g s. set_remove s g) removedAndNotReadded (unique (currentGroups @ md_puts delta))
      in sortedUnique surviving)"

definition LAST_MEMBERSHIP_DETAILS :: string where
  "LAST_MEMBERSHIP_DETAILS = ''removing this membership would leave the entity with no owning group''"

definition lastMembershipViolation :: "string list option \<Rightarrow> MembershipDelta \<Rightarrow> string option" where
  "lastMembershipViolation currentGroups delta = (case currentGroups of
     None \<Rightarrow> None
   | Some groups \<Rightarrow>
       if length groups = 0 then None
       else if length (resultingGroups groups delta) > 0 then None
       else Some LAST_MEMBERSHIP_DETAILS)"

record LiveGroupMember =
  gm_id :: string
  gm_groupId :: string
  gm_permissions :: "string list"

record GroupMemberDelta =
  gd_removedIds :: "string list"
  gd_upserts :: "(string \<times> string list) list"

definition LAST_MEMBER_DETAILS :: string where
  "LAST_MEMBER_DETAILS = ''removing this membership would leave the group with no member that can administer it''"

text \<open>The permission lists of a group after a delta, by row id.\<close>

definition delta_permissions :: "LiveGroupMember list \<Rightarrow> GroupMemberDelta \<Rightarrow> string list obj" where
  "delta_permissions members delta =
     fold (\<lambda>(i, ps) m. obj_set m i ps) (gd_upserts delta)
       (fold (\<lambda>i m. obj_delete m i) (gd_removedIds delta)
         (fold (\<lambda>member m. obj_set m (gm_id member) (gm_permissions member)) members []))"

definition lastGroupMemberViolation :: "LiveGroupMember list option \<Rightarrow> GroupMemberDelta \<Rightarrow> string option" where
  "lastGroupMemberViolation currentMembers delta = (case currentMembers of
     None \<Rightarrow> None
   | Some members \<Rightarrow>
       if length members = 0 then None
       else if list_ex (\<lambda>(i, ps). length ps > 0) (delta_permissions members delta) then None
       else Some LAST_MEMBER_DETAILS)"

definition isStringArray :: "json option \<Rightarrow> string list option" where
  "isStringArray v = (case v of
     Some (JArr xs) \<Rightarrow> if list_all (\<lambda>x. case x of JStr _ \<Rightarrow> True | _ \<Rightarrow> False) xs then Some (asStringArray v) else None
   | _ \<Rightarrow> None)"

definition liveGroupMember :: "Entity \<Rightarrow> LiveGroupMember option" where
  "liveGroupMember row =
     (if deleted_hlc row \<noteq> None then None
      else (case (asString (row_value row ''group_id''), isStringArray (row_value row ''permissions'')) of
          (Some groupId, Some permissions) \<Rightarrow> Some \<lparr>gm_id = ent_id row, gm_groupId = groupId, gm_permissions = permissions\<rparr>
        | _ \<Rightarrow> None))"

definition groupMembersOf :: "Entity list \<Rightarrow> string \<Rightarrow> LiveGroupMember list" where
  "groupMembersOf rows groupId = filter (\<lambda>member. gm_groupId member = groupId) (List.map_filter liveGroupMember rows)"

record GroupMemberView =
  gv_row :: "string \<Rightarrow> Entity option"
  gv_groupMembers :: "string \<Rightarrow> LiveGroupMember list"

definition lastGroupMemberRefusal :: "GroupMemberView \<Rightarrow> string \<Rightarrow> GroupMemberDelta \<Rightarrow> string option" where
  "lastGroupMemberRefusal view i delta = (case gv_row view i of
     None \<Rightarrow> None
   | Some row \<Rightarrow>
       if ent_type row \<noteq> ''groupMember'' \<or> deleted_hlc row \<noteq> None then None
       else (case asString (row_value row ''group_id'') of
           None \<Rightarrow> None
         | Some groupId \<Rightarrow> lastGroupMemberViolation (Some (gv_groupMembers view groupId)) delta))"

section \<open>Relationship writes (relationship.ts)\<close>

datatype ManyPointerValue =
    Replace "pvalue list"
  | AddRemove "pvalue list" "pvalue list"

text \<open>The loop of \<^verbatim>\<open>normalizeManyPointers\<close>; \<open>seen\<close> is the list built so far.\<close>

fun normalize_all :: "string \<Rightarrow> pvalue list \<Rightarrow> string list \<Rightarrow> op_error + string list" where
  "normalize_all label [] seen = Inr seen"
| "normalize_all label (v # vs) seen = (case normalizePointer v label of
     Inl err \<Rightarrow> Inl err
   | Inr None \<Rightarrow> Inl (PointerError NullEntry label)
   | Inr (Some i) \<Rightarrow> normalize_all label vs (set_add seen i))"

definition normalizeManyPointers :: "ManyPointerValue \<Rightarrow> string \<Rightarrow> op_error + string list" where
  "normalizeManyPointers value label =
     normalize_all label (case value of Replace vs \<Rightarrow> vs | AddRemove add remove \<Rightarrow> add @ remove) []"

definition resolveCardinality :: "'s EntityRegistry \<Rightarrow> string \<Rightarrow> string \<Rightarrow> SourceCardinality option \<Rightarrow> SourceCardinality" where
  "resolveCardinality reg sourceName accessor explicit = (case explicit of
     Some c \<Rightarrow> c
   | None \<Rightarrow> (case getRelationship reg sourceName accessor of Some rel \<Rightarrow> rd_sourceCardinality rel | None \<Rightarrow> One))"

definition buildRelationshipUpdate :: "string \<Rightarrow> string \<Rightarrow> string option \<Rightarrow> string \<Rightarrow> string \<Rightarrow> string \<Rightarrow> Update" where
  "buildRelationshipUpdate relId sourceId targetId field type uid = (case targetId of
     None \<Rightarrow> \<lparr>upd_id = uid, subject_id = relId, subject_type = ''relationship'', upd_method = Delete, upd_data = None\<rparr>
   | Some target \<Rightarrow> \<lparr>upd_id = uid, subject_id = relId, subject_type = ''relationship'', upd_method = Put,
       upd_data = Some [(''source_id'', Leaf (JStr sourceId) uid None), (''target_id'', Leaf (JStr target) uid None),
         (''type'', Leaf (JStr type) uid None), (''field'', Leaf (JStr field) uid None)]\<rparr>)"

definition buildEntityGroupUpdate :: "string \<Rightarrow> string \<Rightarrow> string \<Rightarrow> string \<Rightarrow> Update" where
  "buildEntityGroupUpdate membership entityId groupId uid =
     \<lparr>upd_id = uid, subject_id = membership, subject_type = ''entityGroup'', upd_method = Put,
      upd_data = Some [(''entity_id'', Leaf (JStr entityId) uid None), (''group_id'', Leaf (JStr groupId) uid None)]\<rparr>"

definition buildEntityGroupDelete :: "string \<Rightarrow> string \<Rightarrow> Update" where
  "buildEntityGroupDelete membership uid =
     \<lparr>upd_id = uid, subject_id = membership, subject_type = ''entityGroup'', upd_method = Delete, upd_data = None\<rparr>"

definition buildEntityGroupUpdates :: "string \<Rightarrow> string list \<Rightarrow> (nat, string) state \<Rightarrow> (nat, Update list) state" where
  "buildEntityGroupUpdates entityId groupIds generateUpdateId = State_Monad.traverse_list (\<lambda>groupId. do {
       uid \<leftarrow> generateUpdateId;
       State_Monad.return (buildEntityGroupUpdate (entityGroupId entityId groupId) entityId groupId uid)
     }) groupIds"

definition buildManyEntityUpdate :: "string \<Rightarrow> string \<Rightarrow> string \<Rightarrow> string list \<Rightarrow> string \<Rightarrow> hlc \<Rightarrow> Update" where
  "buildManyEntityUpdate sourceId sourceEntityName accessor targetIds uid h =
     \<lparr>upd_id = uid, subject_id = sourceId, subject_type = sourceEntityName, upd_method = Patch,
      upd_data = Some [(accessor, Leaf (JArr (map JStr targetIds)) uid (Some h))]\<rparr>"

text \<open>
  The id of a pointer that is not null: itself, or its property \<^verbatim>\<open>id\<close>. The types rule out a pointer
  without one, and \<^const>\<open>normalizePointer\<close> refuses it before anything is emitted.
\<close>

definition pointer_target :: "pvalue \<Rightarrow> string" where
  "pointer_target v = (case v of
     PStr s \<Rightarrow> s
   | _ \<Rightarrow> (case Option.bind (object_entries v) (\<lambda>kvs. map_of kvs ''id'') of Some (PStr i) \<Rightarrow> i | _ \<Rightarrow> ''undefined''))"

definition collectManyTargetIds :: "ManyPointerValue \<Rightarrow> string list" where
  "collectManyTargetIds patch =
     unique (map pointer_target (filter (\<lambda>v. v \<noteq> PNull \<and> v \<noteq> PUndefined)
       (case patch of Replace vs \<Rightarrow> vs | AddRemove add remove \<Rightarrow> add @ remove)))"

definition checkEntityRegistered :: "'s EntityRegistry \<Rightarrow> string \<Rightarrow> string \<Rightarrow> op_error option" where
  "checkEntityRegistered reg name role =
     (if reg_isEmpty reg then None else if reg_has reg name then None
      else Some (invalid name None (MUnregistered role name)))"

definition wireTypeFor :: "'s EntityRegistry \<Rightarrow> string \<Rightarrow> string \<Rightarrow> string" where
  "wireTypeFor reg sourceName accessor = getOr (map_option rd_type (getRelationship reg sourceName accessor)) sourceName"

definition makeManyRelationshipUpdate :: "'s OpContext \<Rightarrow> string \<Rightarrow> string \<Rightarrow> string \<Rightarrow> string \<Rightarrow> (nat, Update) state" where
  "makeManyRelationshipUpdate ctx sourceId accessor wireType targetId = do {
     relId \<leftarrow> newId ctx ''rel'';
     uid \<leftarrow> newId ctx ''u'';
     State_Monad.return (buildRelationshipUpdate relId sourceId (Some targetId) accessor wireType uid)
   }"

record RelationshipWrite =
  rw_source :: string
  rw_as :: string
  rw_sourceCardinality :: "SourceCardinality option"
  rw_sourceId :: "string option"
  rw_entityUpdate :: "Update option"
  rw_targetId :: pvalue
  rw_targetIds :: "ManyPointerValue option"
  rw_relationshipSubjectId :: "string option"

definition requireSourceId :: "RelationshipWrite \<Rightarrow> op_error + string" where
  "requireSourceId opts = (case rw_sourceId opts of
     Some i \<Rightarrow> if length i > 0 then Inr i else Inl (invalid (rw_source opts) None (MSourceIdRequired (rw_as opts)))
   | None \<Rightarrow> Inl (invalid (rw_source opts) None (MSourceIdRequired (rw_as opts))))"

definition requireEntityUpdate :: "RelationshipWrite \<Rightarrow> op_error + Update" where
  "requireEntityUpdate opts = (case rw_entityUpdate opts of
     Some update \<Rightarrow> Inr update
   | None \<Rightarrow> Inl (invalid (rw_source opts) None (MEntityUpdateRequired (rw_as opts))))"

text \<open>The two loops of the \<^verbatim>\<open>add\<close>/\<^verbatim>\<open>remove\<close> branch.\<close>

fun link_each :: "'s OpContext \<Rightarrow> string \<Rightarrow> string \<Rightarrow> string \<Rightarrow> string \<Rightarrow> pvalue list \<Rightarrow> (nat, op_error + Update list) state" where
  "link_each ctx sourceId accessor wireType label [] = State_Monad.return (Inr [])"
| "link_each ctx sourceId accessor wireType label (v # vs) = (case normalizePointer v label of
     Inl err \<Rightarrow> State_Monad.return (Inl err)
   | Inr None \<Rightarrow> link_each ctx sourceId accessor wireType label vs
   | Inr (Some i) \<Rightarrow> do {
       update \<leftarrow> makeManyRelationshipUpdate ctx sourceId accessor wireType i;
       rest \<leftarrow> link_each ctx sourceId accessor wireType label vs;
       State_Monad.return (map_sum id (Cons update) rest)
     })"

definition many_edges :: "'s OpContext \<Rightarrow> string \<Rightarrow> string \<Rightarrow> string \<Rightarrow> ManyPointerValue \<Rightarrow> (nat, op_error + Update list) state" where
  "many_edges ctx sourceId accessor wireType targetIds = (case targetIds of
     Replace vs \<Rightarrow> (case normalizeManyPointers targetIds (''targetIds for '' @ quoted accessor) of
         Inl err \<Rightarrow> State_Monad.return (Inl err)
       | Inr normalized \<Rightarrow> do {
           updates \<leftarrow> State_Monad.traverse_list (makeManyRelationshipUpdate ctx sourceId accessor wireType) normalized;
           State_Monad.return (Inr updates)
         })
   | AddRemove add remove \<Rightarrow> do {
       added \<leftarrow> link_each ctx sourceId accessor wireType (''targetIds.add for '' @ quoted accessor) add;
       (case added of
          Inl err \<Rightarrow> State_Monad.return (Inl err)
        | Inr us \<Rightarrow> do {
            removed \<leftarrow> link_each ctx sourceId accessor wireType (''targetIds.remove for '' @ quoted accessor) remove;
            State_Monad.return (map_sum id (append us) removed)
          })
     })"

definition one_edge :: "'s OpContext \<Rightarrow> RelationshipWrite \<Rightarrow> (nat, op_error + Update) state" where
  "one_edge ctx opts = (case sum_bind (requireSourceId opts) (\<lambda>sourceId.
       map_sum id (Pair sourceId) (normalizePointer (rw_targetId opts) (''targetId for '' @ quoted (rw_as opts)))) of
     Inl err \<Rightarrow> State_Monad.return (Inl err)
   | Inr (sourceId, targetId) \<Rightarrow> do {
       uid \<leftarrow> newId ctx ''u'';
       relId \<leftarrow> (case rw_relationshipSubjectId opts of Some i \<Rightarrow> State_Monad.return i | None \<Rightarrow> newId ctx ''rel'');
       State_Monad.return (Inr (buildRelationshipUpdate relId sourceId targetId (rw_as opts)
         (wireTypeFor (oc_registry ctx) (rw_source opts) (rw_as opts)) uid))
     })"

text \<open>The entity Update, if any, and the relationship Updates.\<close>

definition buildRelationshipWrite ::
  "'s OpContext \<Rightarrow> RelationshipWrite \<Rightarrow> (nat, op_error + Update option \<times> Update list) state" where
  "buildRelationshipWrite ctx opts =
     (case checkEntityRegistered (oc_registry ctx) (rw_source opts) ''source'' of
        Some err \<Rightarrow> State_Monad.return (Inl err)
      | None \<Rightarrow>
          if resolveCardinality (oc_registry ctx) (rw_source opts) (rw_as opts) (rw_sourceCardinality opts) = One
          then do {
            edge \<leftarrow> one_edge ctx opts;
            State_Monad.return (map_sum id (\<lambda>update. (None, [update])) edge)
          }
          else (case requireEntityUpdate opts of
              Inl err \<Rightarrow> State_Monad.return (Inl err)
            | Inr entityUpdate \<Rightarrow> (case rw_targetIds opts of
                None \<Rightarrow> State_Monad.return (Inr (Some entityUpdate, []))
              | Some targetIds \<Rightarrow> do {
                  edges \<leftarrow> many_edges ctx (subject_id entityUpdate) (rw_as opts)
                    (wireTypeFor (oc_registry ctx) (rw_source opts) (rw_as opts)) targetIds;
                  State_Monad.return (map_sum id (Pair (Some entityUpdate)) edges)
                })))"

section \<open>Field projection (field-projection.ts)\<close>

fun projectFieldValue :: "field_value \<Rightarrow> json" where
  "projectFieldValue (Leaf v u h) = v"
| "projectFieldValue (FMap m) =
     JObj (filter (\<lambda>(key, projected). projected \<noteq> JNull) (map (\<lambda>(key, entry). (key, projectFieldValue entry)) m))"

section \<open>Operations (operations.ts)\<close>

record OperationResult =
  or_updates :: "Update list"
  or_groups :: "string list"
  or_subject :: "(string \<times> string) option"

text \<open>A JSON value as a payload value.\<close>

fun json_value :: "json \<Rightarrow> pvalue" where
  "json_value JNull = PNull"
| "json_value (JBool b) = PBool b"
| "json_value (JNum n) = PNum n"
| "json_value (JDec d) = PDec d"
| "json_value (JStr s) = PStr s"
| "json_value (JArr vs) = PArr (map json_value vs)"
| "json_value (JObj kvs) = PObj (map (\<lambda>(k, v). (k, json_value v)) kvs)"

definition isEmptyPayload :: "pvalue \<Rightarrow> bool" where
  "isEmptyPayload payload = (case object_entries payload of
     None \<Rightarrow> True | Some kvs \<Rightarrow> list_all (\<lambda>(k, v). v = PUndefined) kvs)"

definition isPlainObject :: "pvalue \<Rightarrow> bool" where
  "isPlainObject v = (object_entries v \<noteq> None \<and> \<not> is_array v)"

definition wrapMapValue :: "pvalue obj \<Rightarrow> string \<Rightarrow> hlc \<Rightarrow> field_value" where
  "wrapMapValue entries uid h = FMap (map (\<lambda>(key, v).
     (key, if isUnset v then Leaf JNull uid (Some h) else Leaf (value_json v) uid (Some h))) entries)"

definition wrap_field :: "string \<Rightarrow> hlc \<Rightarrow> FieldMarker obj option \<Rightarrow> string \<Rightarrow> pvalue \<Rightarrow> field_value" where
  "wrap_field uid h markers key v =
     (if isUnset v then Leaf JNull uid (Some h)
      else if (case Option.bind markers (\<lambda>m. map_of m key) of Some marker \<Rightarrow> fm_map marker | None \<Rightarrow> False) \<and> isPlainObject v
      then wrapMapValue (getOr (object_entries v) []) uid h
      else Leaf (value_json v) uid (Some h))"

definition wrapFields :: "pvalue \<Rightarrow> string \<Rightarrow> hlc \<Rightarrow> FieldMarker obj option \<Rightarrow> field_value obj" where
  "wrapFields payload uid h markers =
     map (\<lambda>(key, v). (key, wrap_field uid h markers key v))
       (filter (\<lambda>(key, v). v \<noteq> PUndefined) (getOr (object_entries payload) []))"

definition entity_update :: "string \<Rightarrow> string \<Rightarrow> string \<Rightarrow> update_method \<Rightarrow> field_value obj option \<Rightarrow> Update" where
  "entity_update uid i entity method dat =
     \<lparr>upd_id = uid, subject_id = i, subject_type = entity, upd_method = method, upd_data = dat\<rparr>"

subsection \<open>Creating\<close>

record ResolvedPointer =
  rp_as :: string
  rp_type :: string
  rp_targetId :: string

record CreateEntityInput =
  ce_entity :: string
  ce_id :: string
  ce_fields :: "pvalue obj"
  ce_pointers :: "ResolvedPointer list"
  ce_bodies :: "string obj"
  ce_groups :: "string list"
  ce_validate :: bool

text \<open>The rows of one derived body: the document, the edge to it, and its memberships.\<close>

definition body_updates :: "'s OpContext \<Rightarrow> CreateEntityInput \<Rightarrow> string \<times> string \<Rightarrow> (nat, Update list) state" where
  "body_updates ctx input body = (case body of (field, txt) \<Rightarrow>
     let derived = derivedBodyIds (oc_registry ctx) (ce_entity input) (ce_id input) field
     in do {
       docUpdateId \<leftarrow> updateId ctx;
       docHlc \<leftarrow> fresh_hlc ctx;
       edgeUpdateId \<leftarrow> updateId ctx;
       memberships \<leftarrow> buildEntityGroupUpdates (db_documentId derived) (ce_groups input) (updateId ctx);
       State_Monad.return
         ([entity_update docUpdateId (db_documentId derived) (db_documentType derived) Put
             (Some [(DOC_CONTENT_FIELD, buildInitialContentField txt docHlc (oc_actorId ctx) docUpdateId)]),
           buildRelationshipUpdate (db_relationshipId derived) (ce_id input) (Some (db_documentId derived)) field
             (ce_entity input) edgeUpdateId] @ memberships)
     })"

definition pointer_update :: "'s OpContext \<Rightarrow> string \<Rightarrow> ResolvedPointer \<Rightarrow> (nat, Update) state" where
  "pointer_update ctx sourceId pointer = do {
     relId \<leftarrow> newId ctx ''rel'';
     uid \<leftarrow> updateId ctx;
     State_Monad.return (buildRelationshipUpdate relId sourceId (Some (rp_targetId pointer)) (rp_as pointer) (rp_type pointer) uid)
   }"

definition create_violations :: "'s TypeBox \<Rightarrow> 's OpContext \<Rightarrow> CreateEntityInput \<Rightarrow> ValidationViolation list" where
  "create_violations tb ctx input = (case reg_get (oc_registry ctx) (ce_entity input) of
     None \<Rightarrow> []
   | Some def \<Rightarrow>
       if \<not> ce_validate input then []
       else (let isPartial = ce_entity input \<in> set SYSTEM_ENTITY_NAMES
             in validatePayload tb (if isPartial then ed_shape def else ed_createShape def)
                  (PObj (ce_fields input)) (ce_entity input) isPartial))"

definition createEntity :: "'s TypeBox \<Rightarrow> 's OpContext \<Rightarrow> CreateEntityInput \<Rightarrow> (nat, op_error + OperationResult) state" where
  "createEntity tb ctx input =
     (let violations = create_violations tb ctx input;
          def = reg_get (oc_registry ctx) (ce_entity input)
      in if length violations > 0 then State_Monad.return (Inl (EntityValidation violations))
         else do {
           uid \<leftarrow> updateId ctx;
           h \<leftarrow> fresh_hlc ctx;
           memberships \<leftarrow> buildEntityGroupUpdates (ce_id input) (ce_groups input) (updateId ctx);
           bodies \<leftarrow> State_Monad.traverse_list (body_updates ctx input) (ce_bodies input);
           pointers \<leftarrow> State_Monad.traverse_list (pointer_update ctx (ce_id input)) (ce_pointers input);
           State_Monad.return (Inr
             \<lparr>or_updates =
                [entity_update uid (ce_id input) (ce_entity input) Put
                   (Some (wrapFields (PObj (ce_fields input)) uid h (map_option ed_fields def)))] @
                memberships @ concat bodies @ pointers,
              or_groups = ce_groups input, or_subject = Some (ce_id input, ce_entity input)\<rparr>)
         })"

definition EMPTY_MEMBERSHIP_VIEW :: MembershipView where
  "EMPTY_MEMBERSHIP_VIEW = \<lparr>mv_groupsOf = (\<lambda>_. []), mv_groupOfMembership = (\<lambda>_. None)\<rparr>"

record CreateSystemEntityInput =
  cs_entity :: string
  cs_id :: string
  cs_fields :: "pvalue obj"
  cs_validate :: bool

definition createSystemEntity :: "'s TypeBox \<Rightarrow> 's OpContext \<Rightarrow> CreateSystemEntityInput \<Rightarrow> (nat, op_error + OperationResult) state" where
  "createSystemEntity tb ctx input =
     (let def = reg_get (oc_registry ctx) (cs_entity input);
          violations = (case def of
            None \<Rightarrow> []
          | Some d \<Rightarrow> if cs_validate input then validatePayload tb (ed_shape d) (PObj (cs_fields input)) (cs_entity input) True else [])
      in if length violations > 0 then State_Monad.return (Inl (EntityValidation violations))
         else do {
           uid \<leftarrow> updateId ctx;
           h \<leftarrow> fresh_hlc ctx;
           let update = entity_update uid (cs_id input) (cs_entity input) Put
             (Some (wrapFields (PObj (cs_fields input)) uid h (map_option ed_fields def)));
           State_Monad.return (Inr \<lparr>or_updates = [update], or_groups = membershipScope [update] EMPTY_MEMBERSHIP_VIEW,
             or_subject = Some (cs_id input, cs_entity input)\<rparr>)
         })"

record CreateGroupInput =
  cg_groupId :: string
  cg_memberId :: string
  cg_name :: string
  cg_permissions :: "string list"
  cg_appId :: "string option"
  cg_validate :: bool

definition createGroup :: "'s TypeBox \<Rightarrow> 's OpContext \<Rightarrow> CreateGroupInput \<Rightarrow> (nat, op_error + OperationResult) state" where
  "createGroup tb ctx input = do {
     grp \<leftarrow> createSystemEntity tb ctx \<lparr>cs_entity = ''group'', cs_id = cg_groupId input,
       cs_fields = (''name'', PStr (cg_name input)) #
         (case cg_appId input of None \<Rightarrow> [] | Some appId \<Rightarrow> [(''apps'', PObj [(appId, PBool True)])]),
       cs_validate = cg_validate input\<rparr>;
     (case grp of
        Inl err \<Rightarrow> State_Monad.return (Inl err)
      | Inr g \<Rightarrow> do {
          member \<leftarrow> createSystemEntity tb ctx \<lparr>cs_entity = ''groupMember'', cs_id = cg_memberId input,
            cs_fields = [(''group_id'', PStr (cg_groupId input)), (''actor_id'', PStr (oc_actorId ctx)),
              (''permissions'', PArr (map PStr (cg_permissions input)))],
            cs_validate = cg_validate input\<rparr>;
          State_Monad.return (map_sum id (\<lambda>m.
            \<lparr>or_updates = or_updates g @ or_updates m, or_groups = unique (or_groups g @ or_groups m),
             or_subject = Some (cg_groupId input, ''group'')\<rparr>) member)
        })
   }"

definition fullGroupPermissions :: "'s EntityRegistry \<Rightarrow> string list" where
  "fullGroupPermissions reg = map (\<lambda>name. name @ ''.*'') (sort (entityNames reg))"

text \<open>\<open>nanoid n\<close> is the \<open>n\<close>-th result of the id generator, as in \<^const>\<open>generateId\<close>.\<close>

definition groupBootstrap :: "(nat \<Rightarrow> string) \<Rightarrow> nat \<Rightarrow> 's EntityRegistry \<Rightarrow> string \<Rightarrow> bool \<Rightarrow> string option \<Rightarrow> CreateGroupInput \<times> nat" where
  "groupBootstrap nanoid n reg name validate appId =
     (let (groupId, n1) = generateId nanoid n ''e''; (memberId, n2) = generateId nanoid n1 ''e''
      in (\<lparr>cg_groupId = groupId, cg_memberId = memberId, cg_name = name, cg_permissions = fullGroupPermissions reg,
           cg_appId = appId, cg_validate = validate\<rparr>, n2))"

subsection \<open>Patching, deleting, copying\<close>

record PatchEntityInput =
  pe_entity :: string
  pe_id :: string
  pe_payload :: pvalue
  pe_groups :: "string list"
  pe_validate :: bool

definition patch_violations :: "'s TypeBox \<Rightarrow> 's OpContext \<Rightarrow> PatchEntityInput \<Rightarrow> ValidationViolation list" where
  "patch_violations tb ctx input = (case reg_get (oc_registry ctx) (pe_entity input) of
     None \<Rightarrow> []
   | Some def \<Rightarrow>
       if \<not> pe_validate input then []
       else (let violations = validatePayload tb (ed_shape def) (pe_payload input) (pe_entity input) True
             in if length violations > 0 then violations
                else if isEmptyPayload (pe_payload input)
                then [\<lparr>vv_entityName = pe_entity input, vv_updateIndex = None, vv_field = None, vv_message = MEmptyPatch\<rparr>]
                else []))"

definition patchEntity :: "'s TypeBox \<Rightarrow> 's OpContext \<Rightarrow> PatchEntityInput \<Rightarrow> (nat, op_error + OperationResult) state" where
  "patchEntity tb ctx input =
     (let violations = patch_violations tb ctx input
      in if length violations > 0 then State_Monad.return (Inl (EntityValidation violations))
         else do {
           h \<leftarrow> fresh_hlc ctx;
           uid \<leftarrow> updateId ctx;
           State_Monad.return (Inr
             \<lparr>or_updates = [entity_update uid (pe_id input) (pe_entity input) Patch
                (Some (wrapFields (pe_payload input) uid h
                  (map_option ed_fields (reg_get (oc_registry ctx) (pe_entity input)))))],
              or_groups = pe_groups input, or_subject = Some (pe_id input, pe_entity input)\<rparr>)
         })"

record DeleteEntityInput =
  de_entity :: string
  de_id :: string
  de_groups :: "string list"

definition deleteEntity :: "'s OpContext \<Rightarrow> DeleteEntityInput \<Rightarrow> (nat, op_error + OperationResult) state" where
  "deleteEntity ctx input = do {
     uid \<leftarrow> updateId ctx;
     State_Monad.return (Inr \<lparr>or_updates = [entity_update uid (de_id input) (de_entity input) Delete None],
       or_groups = de_groups input, or_subject = Some (de_id input, de_entity input)\<rparr>)
   }"

record DuplicateEntityInput =
  du_entity :: string
  du_subjectId :: string
  du_source :: Entity
  du_groups :: "string list"
  du_validate :: bool

definition projectFieldValues :: "field_value obj \<Rightarrow> pvalue obj" where
  "projectFieldValues flds = map (\<lambda>(key, v). (key, json_value v))
     (filter (\<lambda>(key, v). v \<noteq> JNull) (map (\<lambda>(key, field). (key, projectFieldValue field)) flds))"

fun cloneValue :: "json \<Rightarrow> json" where
  "cloneValue (JArr vs) = JArr (map cloneValue vs)"
| "cloneValue (JObj kvs) = JObj (map (\<lambda>(key, entry). (key, cloneValue entry)) kvs)"
| "cloneValue v = v"

fun cloneFieldValue :: "field_value \<Rightarrow> field_value" where
  "cloneFieldValue (FMap m) = FMap (map (\<lambda>(k, v). (k, cloneFieldValue v)) m)"
| "cloneFieldValue (Leaf v u h) = Leaf (cloneValue v) u h"

definition cloneFields :: "field_value obj \<Rightarrow> field_value obj" where
  "cloneFields flds = map (\<lambda>(k, v). (k, cloneFieldValue v)) flds"

definition source_fields :: "Entity \<Rightarrow> field_value obj" where
  "source_fields row = map (\<lambda>(k, v). (k, wireValue v)) (ent_fields row)"

definition duplicateEntity :: "'s TypeBox \<Rightarrow> 's OpContext \<Rightarrow> DuplicateEntityInput \<Rightarrow> (nat, op_error + OperationResult) state" where
  "duplicateEntity tb ctx input =
     (let flds = source_fields (du_source input);
          violations = (case reg_get (oc_registry ctx) (du_entity input) of
            None \<Rightarrow> []
          | Some def \<Rightarrow> if du_validate input
              then validatePayload tb (ed_shape def) (PObj (projectFieldValues flds)) (du_entity input) True else [])
      in if length violations > 0 then State_Monad.return (Inl (EntityValidation violations))
         else do {
           uid \<leftarrow> updateId ctx;
           memberships \<leftarrow> buildEntityGroupUpdates (du_subjectId input) (du_groups input) (updateId ctx);
           State_Monad.return (Inr
             \<lparr>or_updates = entity_update uid (du_subjectId input) (du_entity input) Put (Some (cloneFields flds)) # memberships,
              or_groups = du_groups input, or_subject = Some (du_subjectId input, du_entity input)\<rparr>)
         })"

subsection \<open>Memberships\<close>

record GeneratedEdge =
  ge_relationshipId :: string
  ge_sourceId :: string
  ge_targetId :: string
  ge_field :: string
  ge_type :: string

record GeneratedDocument =
  gdoc_id :: string
  gdoc_type :: string
  gdoc_memberships :: "(string \<times> string) list"

record GeneratedParts =
  gp_documents :: "GeneratedDocument list"
  gp_edges :: "GeneratedEdge list"

definition NO_GENERATED_PARTS :: GeneratedParts where
  "NO_GENERATED_PARTS = \<lparr>gp_documents = [], gp_edges = []\<rparr>"

text \<open>A removal, and a membership of a document, is the id of the row and its group.\<close>

record ChangeGroupsInput =
  ch_entity :: string
  ch_entityId :: string
  ch_puts :: "string list"
  ch_removes :: "(string \<times> string) list"
  ch_currentGroups :: "string list option"
  ch_generated :: GeneratedParts

definition file_document :: "'s OpContext \<Rightarrow> string list \<Rightarrow> GeneratedDocument \<Rightarrow> (nat, Update list) state" where
  "file_document ctx puts document =
     buildEntityGroupUpdates (gdoc_id document) (filter (\<lambda>g. g \<notin> snd ` set (gdoc_memberships document)) puts) (updateId ctx)"

definition reemit_edge :: "'s OpContext \<Rightarrow> GeneratedEdge \<Rightarrow> (nat, Update) state" where
  "reemit_edge ctx edge = do {
     uid \<leftarrow> updateId ctx;
     State_Monad.return (buildRelationshipUpdate (ge_relationshipId edge) (ge_sourceId edge) (Some (ge_targetId edge))
       (ge_field edge) (ge_type edge) uid)
   }"

definition delete_membership :: "'s OpContext \<Rightarrow> string \<times> string \<Rightarrow> (nat, Update) state" where
  "delete_membership ctx removal = do {
     uid \<leftarrow> updateId ctx;
     State_Monad.return (buildEntityGroupDelete (fst removal) uid)
   }"

definition document_removals :: "ChangeGroupsInput \<Rightarrow> (string \<times> string) list" where
  "document_removals input = filter (\<lambda>m. snd m \<in> snd ` set (ch_removes input))
     (concat (map gdoc_memberships (gp_documents (ch_generated input))))"

definition change_updates :: "'s OpContext \<Rightarrow> ChangeGroupsInput \<Rightarrow> (nat, Update list) state" where
  "change_updates ctx input = do {
     puts \<leftarrow> buildEntityGroupUpdates (ch_entityId input) (ch_puts input) (updateId ctx);
     filed \<leftarrow> State_Monad.traverse_list (file_document ctx (ch_puts input)) (gp_documents (ch_generated input));
     edges \<leftarrow> State_Monad.traverse_list (reemit_edge ctx)
       (if length (ch_puts input) > 0 then gp_edges (ch_generated input) else []);
     removes \<leftarrow> State_Monad.traverse_list (delete_membership ctx) (ch_removes input);
     unfiled \<leftarrow> State_Monad.traverse_list (delete_membership ctx) (document_removals input);
     State_Monad.return (puts @ concat filed @ edges @ removes @ unfiled)
   }"

text \<open>\<^verbatim>\<open>new Map(removes...)\<close>: the last removal of a row id counts.\<close>

definition change_view :: "ChangeGroupsInput \<Rightarrow> MembershipView" where
  "change_view input = \<lparr>mv_groupsOf = (\<lambda>i. if i = ch_entityId input then getOr (ch_currentGroups input) [] else []),
     mv_groupOfMembership = map_of (fold (\<lambda>(m, g) t. obj_set t m g) (ch_removes input) [])\<rparr>"

definition rejection :: "string \<Rightarrow> string \<Rightarrow> string \<Rightarrow> string \<Rightarrow> op_error" where
  "rejection i subjectType reason details =
     ActionRejected [\<lparr>rj_id = i, rj_reason = reason, rj_details = Some details, rj_subjectType = Some subjectType\<rparr>]"

definition missing_ownership_details :: "string \<Rightarrow> string" where
  "missing_ownership_details entityId = ''membership write for '' @ quoted entityId @ '' resolves to no owning group''"

definition lastGroupMemberError :: "string \<Rightarrow> string \<Rightarrow> op_error" where
  "lastGroupMemberError i details = rejection i ''groupMember'' ''last_group_member'' details"

definition changeGroups :: "'s OpContext \<Rightarrow> ChangeGroupsInput \<Rightarrow> (nat, op_error + OperationResult) state" where
  "changeGroups ctx input = do {
     updates \<leftarrow> change_updates ctx input;
     State_Monad.return
       (case lastMembershipViolation (ch_currentGroups input)
           \<lparr>md_puts = ch_puts input, md_removedGroups = map snd (ch_removes input)\<rparr> of
          Some violation \<Rightarrow> Inl (rejection (ch_entityId input) (ch_entity input) ''last_membership'' violation)
        | None \<Rightarrow>
            (let groups = filter (\<lambda>g. length g > 0) (membershipScope updates (change_view input))
             in if length updates > 0 \<and> length groups = 0
                then Inl (rejection (ch_entityId input) (ch_entity input) ''missing_ownership''
                       (missing_ownership_details (ch_entityId input)))
                else Inr \<lparr>or_updates = updates, or_groups = groups, or_subject = Some (ch_entityId input, ch_entity input)\<rparr>))
   }"

subsection \<open>Relationships\<close>

record WriteRelationshipInput =
  wr_entity :: string
  wr_sourceId :: string
  wr_as :: string
  wr_targetId :: pvalue
  wr_targetIds :: "ManyPointerValue option"
  wr_relationshipSubjectId :: "string option"
  wr_groups :: "string list"

definition requireRelationship :: "'s EntityRegistry \<Rightarrow> string \<Rightarrow> string \<Rightarrow> op_error + RelationshipDef" where
  "requireRelationship reg entity accessor =
     (if accessor = GROUPS_ACCESSOR then Inl (invalid entity None MMembershipAccessor)
      else (case getRelationship reg entity accessor of
          None \<Rightarrow> Inl (invalid entity None (MUndeclaredRelationship accessor entity))
        | Some rel \<Rightarrow> Inr rel))"

definition fk_update :: "'s OpContext \<Rightarrow> WriteRelationshipInput \<Rightarrow> RelationshipDef \<Rightarrow> (nat, Update option) state" where
  "fk_update ctx input rel = (case (rd_sourceCardinality rel, wr_targetIds input) of
     (Many, Some targetIds) \<Rightarrow> do {
       uid \<leftarrow> updateId ctx;
       h \<leftarrow> fresh_hlc ctx;
       State_Monad.return (Some (buildManyEntityUpdate (wr_sourceId input) (wr_entity input) (wr_as input)
         (collectManyTargetIds targetIds) uid h))
     }
   | _ \<Rightarrow> State_Monad.return None)"

definition writeRelationship :: "'s OpContext \<Rightarrow> WriteRelationshipInput \<Rightarrow> (nat, op_error + OperationResult) state" where
  "writeRelationship ctx input = (case requireRelationship (oc_registry ctx) (wr_entity input) (wr_as input) of
     Inl err \<Rightarrow> State_Monad.return (Inl err)
   | Inr rel \<Rightarrow> do {
       entityUpdate \<leftarrow> fk_update ctx input rel;
       result \<leftarrow> buildRelationshipWrite ctx
         \<lparr>rw_source = wr_entity input, rw_as = wr_as input, rw_sourceCardinality = None, rw_sourceId = Some (wr_sourceId input),
          rw_entityUpdate = entityUpdate, rw_targetId = wr_targetId input, rw_targetIds = wr_targetIds input,
          rw_relationshipSubjectId = wr_relationshipSubjectId input\<rparr>;
       State_Monad.return (map_sum id (\<lambda>(entityUpd, edges).
         \<lparr>or_updates = (case entityUpd of None \<Rightarrow> [] | Some u \<Rightarrow> [u]) @ edges, or_groups = wr_groups input,
          or_subject = Some (wr_sourceId input, wr_entity input)\<rparr>) result)
     })"

section \<open>The committer (committer.ts)\<close>

datatype OperationCall =
    CallCreate CreateEntityInput
  | CallCreateSystem CreateSystemEntityInput
  | CallCreateGroup CreateGroupInput
  | CallPatch PatchEntityInput
  | CallDelete DeleteEntityInput
  | CallDuplicate DuplicateEntityInput
  | CallChangeGroups ChangeGroupsInput
  | CallRelationship WriteRelationshipInput

definition run_call :: "'s TypeBox \<Rightarrow> 's OpContext \<Rightarrow> OperationCall \<Rightarrow> (nat, op_error + OperationResult) state" where
  "run_call tb ctx entry = (case entry of
     CallCreate input \<Rightarrow> createEntity tb ctx input
   | CallCreateSystem input \<Rightarrow> createSystemEntity tb ctx input
   | CallCreateGroup input \<Rightarrow> createGroup tb ctx input
   | CallPatch input \<Rightarrow> patchEntity tb ctx input
   | CallDelete input \<Rightarrow> deleteEntity ctx input
   | CallDuplicate input \<Rightarrow> duplicateEntity tb ctx input
   | CallChangeGroups input \<Rightarrow> changeGroups ctx input
   | CallRelationship input \<Rightarrow> writeRelationship ctx input)"

fun run_calls :: "'s TypeBox \<Rightarrow> 's OpContext \<Rightarrow> OperationCall list \<Rightarrow> (nat, op_error + OperationResult list) state" where
  "run_calls tb ctx [] = State_Monad.return (Inr [])"
| "run_calls tb ctx (entry # entries) = do {
     result \<leftarrow> run_call tb ctx entry;
     (case result of
        Inl err \<Rightarrow> State_Monad.return (Inl err)
      | Inr r \<Rightarrow> do {
          rest \<leftarrow> run_calls tb ctx entries;
          State_Monad.return (map_sum id (Cons r) rest)
        })
   }"

text \<open>
  The result of a commit: what was submitted, if anything, the server's rejections, and the groups.
  \<open>submit\<close> is the client's submission of one Action.
\<close>

record CommitResult =
  cr_submitted :: "Update list option"
  cr_rejected :: "ActionRejection list"
  cr_groups :: "string list"

definition commit :: "'s TypeBox \<Rightarrow> 's OpContext \<Rightarrow> (Update list \<Rightarrow> ActionRejection list) \<Rightarrow> OperationCall list \<Rightarrow>
    (nat, op_error + CommitResult) state" where
  "commit tb ctx submit entries = do {
     results \<leftarrow> run_calls tb ctx entries;
     State_Monad.return (map_sum id (\<lambda>rs.
       let updates = concat (map or_updates rs); groups = sortedUnique (concat (map or_groups rs))
       in if length updates = 0 then \<lparr>cr_submitted = None, cr_rejected = [], cr_groups = groups\<rparr>
          else \<lparr>cr_submitted = Some updates, cr_rejected = submit updates, cr_groups = groups\<rparr>) results)
   }"

end
