(* ===== verification/WriteVerbs.thy ===== *)
theory WriteVerbs
  imports WriteOps
begin

text \<open>
  The semantic write verbs (packages/write/src/verbs.ts): what create, update, delete, relate and
  unrelate mean, as calls of the operations of \<open>WriteOps\<close>.

  A payload value is a finite tree, so the cycle check of \<^verbatim>\<open>collapseHandles\<close> has nothing to find.
\<close>

record VerbResolution =
  vr_groupsOf :: "string \<Rightarrow> string list"
  vr_relationshipIdFor :: "string \<Rightarrow> string \<Rightarrow> string \<Rightarrow> string option option"
  vr_fkTargetsOf :: "string \<Rightarrow> string \<Rightarrow> string list option"

text \<open>
  The live row of an edge is \<^const>\<open>None\<close> when the caller cannot see it (\<^verbatim>\<open>undefined\<close>) and \<open>Some None\<close> when
  it is known to be unlinked (\<^verbatim>\<open>null\<close>).
\<close>

definition UNRESOLVED :: VerbResolution where
  "UNRESOLVED = \<lparr>vr_groupsOf = (\<lambda>_. []), vr_relationshipIdFor = (\<lambda>_ _ _. None), vr_fkTargetsOf = (\<lambda>_ _. None)\<rparr>"

record CreateVerb =
  cv_entity :: string
  cv_id :: string
  cv_fields :: "pvalue obj"
  cv_groups :: "string list"
  cv_validate :: bool

record UpdateVerb =
  uv_entity :: string
  uv_id :: string
  uv_patch :: "pvalue obj"
  uv_groups :: "string list option"
  uv_validate :: bool

record DeleteVerb =
  dv_entity :: string
  dv_id :: string
  dv_groups :: "string list option"

record RelateVerb =
  lv_entity :: string
  lv_id :: string
  lv_as :: string
  lv_target :: pvalue
  lv_targets :: "pvalue list option"
  lv_groups :: "string list option"

record UnrelateVerb =
  xv_entity :: string
  xv_id :: string
  xv_as :: string
  xv_target :: pvalue
  xv_relationshipId :: "string option"
  xv_groups :: "string list option"

datatype WriteVerb =
    WCreate CreateVerb
  | WUpdate UpdateVerb
  | WDelete DeleteVerb
  | WRelate RelateVerb
  | WUnrelate UnrelateVerb

definition verb_groups :: "string list option \<Rightarrow> string \<Rightarrow> VerbResolution \<Rightarrow> string list" where
  "verb_groups groups i res = getOr groups (vr_groupsOf res i)"

definition pointerId :: "pvalue \<Rightarrow> string \<Rightarrow> op_error + string" where
  "pointerId v label = sum_bind (normalizePointer v label) (\<lambda>i. case i of
     None \<Rightarrow> Inl (invalid '''' None (MTargetRequired label)) | Some i \<Rightarrow> Inr i)"

fun map_pointers :: "string \<Rightarrow> pvalue list \<Rightarrow> op_error + string list" where
  "map_pointers label [] = Inr []"
| "map_pointers label (v # vs) = sum_bind (pointerId v label) (\<lambda>i. map_sum id (Cons i) (map_pointers label vs))"

definition pointerIds :: "pvalue \<Rightarrow> string \<Rightarrow> op_error + string list" where
  "pointerIds v label = map_pointers label (case v of PArr vs \<Rightarrow> vs | _ \<Rightarrow> [v])"

fun collapseHandles :: "pvalue \<Rightarrow> pvalue" where
  "collapseHandles (PHandle i) = PStr i"
| "collapseHandles PUnset = PObj []"
| "collapseHandles (PArr vs) = PArr (map collapseHandles vs)"
| "collapseHandles (PObj kvs) = PObj (map (\<lambda>(key, entry). (key, collapseHandles entry)) kvs)"
| "collapseHandles v = v"

definition declaresField :: "'s EntityDef option \<Rightarrow> string \<Rightarrow> bool" where
  "declaresField def key = (case def of None \<Rightarrow> False | Some d \<Rightarrow> map_of (ed_shape d) key \<noteq> None)"

fun distinct_pointers :: "string \<Rightarrow> pvalue list \<Rightarrow> string list \<Rightarrow> op_error + string list" where
  "distinct_pointers label [] seen = Inr seen"
| "distinct_pointers label (v # vs) seen = sum_bind (pointerId v label) (\<lambda>i. distinct_pointers label vs (set_add seen i))"

definition normalizeGroupIds :: "pvalue list option \<Rightarrow> string \<Rightarrow> string \<Rightarrow> string \<Rightarrow> op_error + string list" where
  "normalizeGroupIds groups entityName operation label =
     (let required = invalid entityName None (MGroupsRequired operation label)
      in case groups of
           None \<Rightarrow> Inl required
         | Some gs \<Rightarrow>
             if length gs = 0 then Inl required
             else sum_bind (distinct_pointers (''group for '' @ quoted entityName) gs []) (\<lambda>ids'.
               if length ids' = 0 then Inl required else Inr ids'))"

section \<open>Creating\<close>

record CreateParts =
  cp_fields :: "pvalue obj"
  cp_pointers :: "ResolvedPointer list"
  cp_bodies :: "string obj"

text \<open>One field of a create: a derived body, a plain field, or a relationship.\<close>

definition body_part :: "string \<Rightarrow> string \<Rightarrow> pvalue \<Rightarrow> CreateParts \<Rightarrow> op_error + CreateParts" where
  "body_part entity key v parts = (case v of
     PUndefined \<Rightarrow> Inr parts
   | PNull \<Rightarrow> Inr parts
   | PStr s \<Rightarrow> Inr (if length s > 0 then parts\<lparr>cp_bodies := cp_bodies parts @ [(key, s)]\<rparr> else parts)
   | _ \<Rightarrow> Inl (invalid entity (Some key) (MDerivedNotString key)))"

definition pointer_part :: "'s EntityDef option \<Rightarrow> string \<Rightarrow> RelationshipDef \<Rightarrow> string \<Rightarrow> string list \<Rightarrow> CreateParts \<Rightarrow> op_error + CreateParts" where
  "pointer_part def entity rel key targets parts =
     (let pointers = map (\<lambda>targetId. \<lparr>rp_as = key, rp_type = rd_type rel, rp_targetId = targetId\<rparr>) targets
      in if rd_sourceCardinality rel = Many
         then Inr (parts\<lparr>cp_fields := (if declaresField def key then cp_fields parts @ [(key, PArr (map PStr targets))] else cp_fields parts),
                         cp_pointers := cp_pointers parts @ pointers\<rparr>)
         else if length targets > 1 then Inl (invalid entity (Some key) (MTooManyTargets key (length targets)))
         else Inr (parts\<lparr>cp_pointers := cp_pointers parts @ pointers\<rparr>))"

definition create_part :: "'s EntityRegistry \<Rightarrow> string \<Rightarrow> string \<times> pvalue \<Rightarrow> CreateParts \<Rightarrow> op_error + CreateParts" where
  "create_part reg entity kv parts = (case kv of (key, v) \<Rightarrow>
     let def = reg_get reg entity
     in if (case def of None \<Rightarrow> False | Some d \<Rightarrow> map_of (ed_derived d) key \<noteq> None)
        then body_part entity key v parts
        else (case getRelationship reg entity key of
            None \<Rightarrow> Inr (parts\<lparr>cp_fields := cp_fields parts @ [(key, collapseHandles v)]\<rparr>)
          | Some rel \<Rightarrow> sum_bind (pointerIds v (''pointer for '' @ quoted (entity @ ''.'' @ key)))
              (\<lambda>targets. pointer_part def entity rel key targets parts)))"

definition createEntityInput :: "'s EntityRegistry \<Rightarrow> CreateVerb \<Rightarrow> op_error + CreateEntityInput" where
  "createEntityInput reg verb =
     map_sum id (\<lambda>parts. \<lparr>ce_entity = cv_entity verb, ce_id = cv_id verb, ce_fields = cp_fields parts,
         ce_pointers = cp_pointers parts, ce_bodies = cp_bodies parts, ce_groups = cv_groups verb, ce_validate = cv_validate verb\<rparr>)
       (fold_sum (create_part reg (cv_entity verb)) (cv_fields verb) \<lparr>cp_fields = [], cp_pointers = [], cp_bodies = []\<rparr>)"

section \<open>Resolving a verb\<close>

definition target_label :: "string \<Rightarrow> string \<Rightarrow> string" where
  "target_label entity accessor = ''target for '' @ quoted (entity @ ''.'' @ accessor)"

definition relationship_input :: "string \<Rightarrow> string \<Rightarrow> string \<Rightarrow> pvalue \<Rightarrow> ManyPointerValue option \<Rightarrow> string option \<Rightarrow>
    string list \<Rightarrow> WriteRelationshipInput" where
  "relationship_input entity i accessor targetId targetIds subjectId groups =
     \<lparr>wr_entity = entity, wr_sourceId = i, wr_as = accessor, wr_targetId = targetId, wr_targetIds = targetIds,
      wr_relationshipSubjectId = subjectId, wr_groups = groups\<rparr>"

definition relate_call :: "'s EntityRegistry \<Rightarrow> RelateVerb \<Rightarrow> VerbResolution \<Rightarrow> op_error + OperationCall" where
  "relate_call reg verb res =
     sum_bind (requireRelationship reg (lv_entity verb) (lv_as verb)) (\<lambda>rel.
       let groups = verb_groups (lv_groups verb) (lv_id verb) res;
           label = target_label (lv_entity verb) (lv_as verb);
           input = relationship_input (lv_entity verb) (lv_id verb) (lv_as verb)
       in if rd_sourceCardinality rel = Many
          then (let targets = (case lv_targets verb of Some ts \<Rightarrow> ts
                  | None \<Rightarrow> if lv_target verb = PUndefined then [] else [lv_target verb])
                in map_sum id (\<lambda>ids'. CallRelationship (input PUndefined (Some (Replace (map PStr ids'))) None groups))
                     (map_pointers label targets))
          else if lv_targets verb \<noteq> None then Inl (invalid (lv_entity verb) (Some (lv_as verb)) (MOneTargetNotSet (lv_as verb)))
          else map_sum id (\<lambda>i. CallRelationship (input (PStr i) None None groups)) (pointerId (lv_target verb) label))"

definition unrelate_many :: "UnrelateVerb \<Rightarrow> VerbResolution \<Rightarrow> string list \<Rightarrow> op_error + OperationCall" where
  "unrelate_many verb res groups =
     (let current = (if xv_target verb = PUndefined then Some [] else vr_fkTargetsOf res (xv_id verb) (xv_as verb))
      in case current of
           None \<Rightarrow> Inl (invalid (xv_entity verb) (Some (xv_as verb)) (MUnresolvedFkSet (xv_as verb) (xv_id verb)))
         | Some targets \<Rightarrow>
             sum_bind (if xv_target verb = PUndefined then Inr None else map_sum id Some (pointerId (xv_target verb) ''target''))
               (\<lambda>drop'. let remaining = filter (\<lambda>i. Some i \<noteq> drop') targets
                 in Inr (CallRelationship (relationship_input (xv_entity verb) (xv_id verb) (xv_as verb) PUndefined
                      (Some (Replace (map PStr remaining))) None groups))))"

text \<open>\<open>Inr None\<close> is nothing to emit.\<close>

definition unrelate_call :: "'s EntityRegistry \<Rightarrow> UnrelateVerb \<Rightarrow> VerbResolution \<Rightarrow> op_error + OperationCall option" where
  "unrelate_call reg verb res =
     sum_bind (requireRelationship reg (xv_entity verb) (xv_as verb)) (\<lambda>rel.
       let groups = verb_groups (xv_groups verb) (xv_id verb) res
       in if rd_sourceCardinality rel = Many then map_sum id Some (unrelate_many verb res groups)
          else if xv_target verb \<noteq> PUndefined then Inl (invalid (xv_entity verb) (Some (xv_as verb)) MNotATarget)
          else (case (case xv_relationshipId verb of Some i \<Rightarrow> Some (Some i)
                  | None \<Rightarrow> vr_relationshipIdFor res (xv_id verb) (xv_as verb) (rd_type rel)) of
              Some None \<Rightarrow> Inr None
            | None \<Rightarrow> Inl (invalid (xv_entity verb) None (MNoVisibleEdge (xv_as verb)))
            | Some (Some resolved) \<Rightarrow> Inr (Some (CallRelationship
                (relationship_input (xv_entity verb) (xv_id verb) (xv_as verb) PNull None (Some resolved) groups)))))"

definition operationCallFor :: "'s EntityRegistry \<Rightarrow> WriteVerb \<Rightarrow> VerbResolution \<Rightarrow> op_error + OperationCall option" where
  "operationCallFor reg verb res = (case verb of
     WCreate v \<Rightarrow> map_sum id (Some \<circ> CallCreate) (createEntityInput reg v)
   | WUpdate v \<Rightarrow> Inr (Some (CallPatch \<lparr>pe_entity = uv_entity v, pe_id = uv_id v, pe_payload = PObj (uv_patch v),
       pe_groups = verb_groups (uv_groups v) (uv_id v) res, pe_validate = uv_validate v\<rparr>))
   | WDelete v \<Rightarrow> Inr (Some (CallDelete \<lparr>de_entity = dv_entity v, de_id = dv_id v,
       de_groups = verb_groups (dv_groups v) (dv_id v) res\<rparr>))
   | WRelate v \<Rightarrow> map_sum id Some (relate_call reg v res)
   | WUnrelate v \<Rightarrow> unrelate_call reg v res)"

end
