(* ===== verification/WriteSurface.thy ===== *)
theory WriteSurface
  imports WriteVerbs
begin

text \<open>
  The write surface of a function invocation (packages/functions-runtime/src): the buffer of Updates with
  its indices (writes.ts), the read-your-writes overlay (overlay.ts), the membership pre-flight
  (preflight.ts) and the commit (commit.ts).

  The closures of \<^verbatim>\<open>createWriteSurface\<close> share the record \<open>WriteSurface\<close>; a verb takes it and returns it
  changed, also when the verb throws. \<^verbatim>\<open>unrelate\<close> awaits a read of the host: it is \<open>unrelate_start\<close>, then
  \<open>unrelate_resume\<close> with the fields read, in whatever state the surface is by then. The host and the digest
  of node's crypto are arguments.
\<close>

section \<open>State\<close>

datatype Edge = LiveEdge string string | GoneEdge

record WriteSurface =
  ws_updates :: "Update list"
  ws_updatesById :: "string \<rightharpoonup> Update list"
  ws_types :: "string \<rightharpoonup> string"
  ws_membershipGroup :: "string \<rightharpoonup> string"
  ws_membershipEntity :: "string \<rightharpoonup> string"
  ws_groupsByEntity :: "string \<rightharpoonup> string list"
  ws_createdGroups :: "string list"
  ws_membersByGroup :: "string \<rightharpoonup> string list obj"
  ws_memberGroup :: "string \<rightharpoonup> string"
  ws_edges :: "string \<rightharpoonup> Edge"
  ws_edgeKeys :: "string \<rightharpoonup> string"
  ws_sealed :: bool
  ws_minted :: nat

definition new_surface :: WriteSurface where
  "new_surface = \<lparr>ws_updates = [], ws_updatesById = Map.empty, ws_types = Map.empty, ws_membershipGroup = Map.empty,
     ws_membershipEntity = Map.empty, ws_groupsByEntity = Map.empty, ws_createdGroups = [], ws_membersByGroup = Map.empty,
     ws_memberGroup = Map.empty, ws_edges = Map.empty, ws_edgeKeys = Map.empty, ws_sealed = False, ws_minted = 0\<rparr>"

datatype surface_error =
    OpFailed op_error
  | MissingSchema
  | WritesCommitted
  | EmptyInvocationId
  | EmptyEntityId
  | HostCallFailed string int "string option"
  | TransportFailed

definition edgeKey :: "string \<Rightarrow> string \<Rightarrow> string \<Rightarrow> string" where
  "edgeKey type sourceId accessor = type @ [CHR 0x00] @ sourceId @ [CHR 0x00] @ accessor"

definition stringField :: "field_value obj \<Rightarrow> string \<Rightarrow> string option" where
  "stringField flds key = (case map_of flds key of Some (Leaf (JStr s) u h) \<Rightarrow> Some s | _ \<Rightarrow> None)"

definition stringListField :: "field_value obj \<Rightarrow> string \<Rightarrow> string list option" where
  "stringListField flds key = (case map_of flds key of Some (Leaf v u h) \<Rightarrow> isStringArray (Some v) | _ \<Rightarrow> None)"

section \<open>The buffer and its indices (writes.ts)\<close>

definition addGroup :: "string \<Rightarrow> string \<Rightarrow> WriteSurface \<Rightarrow> WriteSurface" where
  "addGroup entityId groupId s = s\<lparr>ws_groupsByEntity :=
     (ws_groupsByEntity s)(entityId \<mapsto> set_add (getOr (ws_groupsByEntity s entityId) []) groupId)\<rparr>"

definition removeGroup :: "string \<Rightarrow> string \<Rightarrow> WriteSurface \<Rightarrow> WriteSurface" where
  "removeGroup entityId groupId s = s\<lparr>ws_groupsByEntity :=
     (ws_groupsByEntity s)(entityId := map_option (\<lambda>gs. set_remove gs groupId) (ws_groupsByEntity s entityId))\<rparr>"

definition markEdgeGone :: "string \<Rightarrow> WriteSurface \<Rightarrow> WriteSurface" where
  "markEdgeGone relId s = (case ws_edgeKeys s relId of
     None \<Rightarrow> s
   | Some key \<Rightarrow> s\<lparr>ws_edges := (ws_edges s)(key \<mapsto> GoneEdge), ws_edgeKeys := (ws_edgeKeys s)(relId := None)\<rparr>)"

definition index_membership :: "Update \<Rightarrow> WriteSurface \<Rightarrow> WriteSurface" where
  "index_membership update s =
     (if upd_method update = Delete
      then (case (ws_membershipGroup s (subject_id update), ws_membershipEntity s (subject_id update)) of
          (Some groupId, Some entityId) \<Rightarrow> removeGroup entityId groupId s
        | _ \<Rightarrow> s)
      else (case (stringField (readFields update) ''group_id'', stringField (readFields update) ''entity_id'') of
          (Some groupId, Some entityId) \<Rightarrow> addGroup entityId groupId
            (s\<lparr>ws_membershipGroup := (ws_membershipGroup s)(subject_id update \<mapsto> groupId),
               ws_membershipEntity := (ws_membershipEntity s)(subject_id update \<mapsto> entityId)\<rparr>)
        | _ \<Rightarrow> s))"

definition index_edge :: "Update \<Rightarrow> WriteSurface \<Rightarrow> WriteSurface" where
  "index_edge update s =
     (if upd_method update = Delete then markEdgeGone (subject_id update) s
      else (let f = stringField (readFields update)
            in case (f ''source_id'', f ''field'', f ''type'', f ''target_id'') of
                 (Some sourceId, Some field, Some type, Some targetId) \<Rightarrow>
                   (let key = edgeKey type sourceId field
                    in s\<lparr>ws_edges := (ws_edges s)(key \<mapsto> LiveEdge (subject_id update) targetId),
                         ws_edgeKeys := (ws_edgeKeys s)(subject_id update \<mapsto> key)\<rparr>)
               | _ \<Rightarrow> s))"

definition index_group :: "Update \<Rightarrow> WriteSurface \<Rightarrow> WriteSurface" where
  "index_group update s =
     (if upd_method update = Delete then s
      else addGroup (subject_id update) (subject_id update)
        (s\<lparr>ws_createdGroups := set_add (ws_createdGroups s) (subject_id update)\<rparr>))"

definition index_member :: "Update \<Rightarrow> WriteSurface \<Rightarrow> WriteSurface" where
  "index_member update s =
     (if upd_method update = Delete
      then (case ws_memberGroup s (subject_id update) of
          None \<Rightarrow> s
        | Some groupId \<Rightarrow> s\<lparr>ws_membersByGroup := (ws_membersByGroup s)(groupId :=
            map_option (\<lambda>roster. obj_delete roster (subject_id update)) (ws_membersByGroup s groupId))\<rparr>)
      else (case stringField (readFields update) ''group_id'' of
          None \<Rightarrow> s
        | Some groupId \<Rightarrow>
            (let permissions = getOr (stringListField (readFields update) ''permissions'') [];
                 roster = getOr (ws_membersByGroup s groupId) []
             in addGroup (subject_id update) groupId
                  (s\<lparr>ws_memberGroup := (ws_memberGroup s)(subject_id update \<mapsto> groupId),
                     ws_membersByGroup := (ws_membersByGroup s)(groupId \<mapsto> obj_set roster (subject_id update) permissions)\<rparr>))))"

definition indexWrite :: "Update \<Rightarrow> WriteSurface \<Rightarrow> WriteSurface" where
  "indexWrite update s =
     (if subject_type update = ''entityGroup'' then index_membership update s
      else if subject_type update = ''relationship'' then index_edge update s
      else if subject_type update = ''group'' then index_group update s
      else if subject_type update = ''groupMember'' then index_member update s
      else s)"

definition record_update :: "Update \<Rightarrow> WriteSurface \<Rightarrow> WriteSurface" where
  "record_update update s = indexWrite update
     (s\<lparr>ws_updates := ws_updates s @ [update],
        ws_updatesById := (ws_updatesById s)(subject_id update \<mapsto> getOr (ws_updatesById s (subject_id update)) [] @ [update]),
        ws_types := (ws_types s)(subject_id update \<mapsto> subject_type update)\<rparr>)"

definition record_batch :: "Update list \<Rightarrow> WriteSurface \<Rightarrow> WriteSurface" where
  "record_batch batch s = fold record_update batch s"

definition surface_groupsOf :: "WriteSurface \<Rightarrow> string \<Rightarrow> string list" where
  "surface_groupsOf s entityId = getOr (ws_groupsByEntity s entityId) []"

definition surface_groupMembersOf :: "WriteSurface \<Rightarrow> string \<Rightarrow> LiveGroupMember list option" where
  "surface_groupMembersOf s groupId =
     (if groupId \<notin> set (ws_createdGroups s) then None
      else Some (map (\<lambda>(i, permissions). \<lparr>gm_id = i, gm_groupId = groupId, gm_permissions = permissions\<rparr>)
        (getOr (ws_membersByGroup s groupId) [])))"

definition relationshipIdFor :: "WriteSurface \<Rightarrow> string \<Rightarrow> string \<Rightarrow> string \<Rightarrow> string option option" where
  "relationshipIdFor s sourceId accessor type = (case ws_edges s (edgeKey type sourceId accessor) of
     None \<Rightarrow> None | Some GoneEdge \<Rightarrow> Some None | Some (LiveEdge relId target) \<Rightarrow> Some (Some relId))"

definition surface_view :: "WriteSurface \<Rightarrow> MembershipView" where
  "surface_view s = \<lparr>mv_groupsOf = surface_groupsOf s, mv_groupOfMembership = ws_membershipGroup s\<rparr>"

section \<open>The pre-flight (preflight.ts)\<close>

definition assertMembershipScope :: "MembershipView \<Rightarrow> string \<Rightarrow> string \<Rightarrow> Update list \<Rightarrow> op_error option" where
  "assertMembershipScope view entity entityId updates =
     (if length updates = 0 then None
      else if length (membershipScope updates view) > 0 then None
      else Some (rejection entityId entity ''missing_ownership'' (missing_ownership_details entityId)))"

definition assertLastMembership :: "MembershipView \<Rightarrow> string \<Rightarrow> string \<Rightarrow> string list \<Rightarrow> op_error option" where
  "assertLastMembership view entity entityId removedGroups =
     map_option (rejection entityId entity ''last_membership'')
       (lastMembershipViolation (Some (mv_groupsOf view entityId)) \<lparr>md_puts = [], md_removedGroups = removedGroups\<rparr>)"

definition assertLastGroupMember :: "LiveGroupMember list option \<Rightarrow> string \<Rightarrow> GroupMemberDelta \<Rightarrow> op_error option" where
  "assertLastGroupMember roster memberId delta = map_option (lastGroupMemberError memberId) (lastGroupMemberViolation roster delta)"

section \<open>The overlay (overlay.ts)\<close>

text \<open>A row as the entity endpoints publish it. The empty stamp of a row without one is \<^const>\<open>None\<close>.\<close>

record EntityResponse =
  es_id :: string
  es_type :: string
  es_fields :: "field_value obj"
  es_created_hlc :: "hlc option"
  es_updated_hlc :: "hlc option"
  es_last_gsn :: int

fun leaf_hlcs :: "field_value \<Rightarrow> hlc list" where
  "leaf_hlcs (Leaf v u h) = (case h of None \<Rightarrow> [] | Some x \<Rightarrow> [x])"
| "leaf_hlcs (FMap m) = concat (map (\<lambda>(k, entry). leaf_hlcs entry) m)"

definition later_hlc :: "hlc \<Rightarrow> hlc option \<Rightarrow> hlc option" where
  "later_hlc h latest = (case latest of None \<Rightarrow> Some h | Some l \<Rightarrow> if compareHlc h l > 0 then Some h else Some l)"

definition overlay_latestHlc :: "field_value obj \<Rightarrow> hlc option" where
  "overlay_latestHlc flds = fold later_hlc (concat (map (\<lambda>(k, field). leaf_hlcs field) flds)) None"

text \<open>The loop over the buffered writes: the fields, if the row is not deleted, and the two stamps.\<close>

record OverlayRow =
  ov_fields :: "field_value obj option"
  ov_created :: "hlc option"
  ov_updated :: "hlc option"

definition overlay_merge :: "field_value obj \<Rightarrow> field_value obj \<Rightarrow> field_value obj" where
  "overlay_merge base incoming = fold (\<lambda>(key, v) merged. obj_set merged key (mergeFieldValue (map_of base key) v)) incoming base"

definition overlay_step :: "Update \<Rightarrow> OverlayRow \<Rightarrow> OverlayRow" where
  "overlay_step update row =
     (if upd_method update = Delete then row\<lparr>ov_fields := None\<rparr>
      else (let incoming = readFields update;
                flds = (if upd_method update = Put then incoming else overlay_merge (getOr (ov_fields row) []) incoming)
            in case overlay_latestHlc incoming of
                 None \<Rightarrow> row\<lparr>ov_fields := Some flds\<rparr>
               | Some stamp \<Rightarrow> row\<lparr>ov_fields := Some flds, ov_updated := later_hlc stamp (ov_updated row),
                   ov_created := (case ov_created row of None \<Rightarrow> Some stamp | Some c \<Rightarrow> Some c)\<rparr>))"

definition overlay_result :: "string \<Rightarrow> string \<Rightarrow> int \<Rightarrow> OverlayRow \<Rightarrow> EntityResponse option" where
  "overlay_result i type gsn row = map_option (\<lambda>flds. \<lparr>es_id = i, es_type = type, es_fields = flds,
     es_created_hlc = ov_created row, es_updated_hlc = ov_updated row, es_last_gsn = gsn\<rparr>) (ov_fields row)"

definition readOverlay :: "Update list \<Rightarrow> string option \<Rightarrow> (string \<Rightarrow> EntityResponse option) \<Rightarrow> string \<Rightarrow> EntityResponse option" where
  "readOverlay writes type readHost i =
     (if length writes = 0 then readHost i
      else if list_ex (\<lambda>u. upd_method u = Put) writes
      then overlay_result i (getOr type '''') 0
        (fold overlay_step writes \<lparr>ov_fields = Some [], ov_created = None, ov_updated = None\<rparr>)
      else if upd_method (last writes) = Delete then None
      else (case readHost i of
          None \<Rightarrow> None
        | Some host \<Rightarrow> overlay_result i (getOr type (es_type host)) (es_last_gsn host)
            (fold overlay_step writes \<lparr>ov_fields = Some (es_fields host), ov_created = es_created_hlc host,
               ov_updated = es_updated_hlc host\<rparr>)))"

definition surface_read :: "(string \<Rightarrow> EntityResponse option) \<Rightarrow> WriteSurface \<Rightarrow> string \<Rightarrow> surface_error + EntityResponse option" where
  "surface_read readHost s i =
     (if i = [] then Inl EmptyEntityId
      else Inr (readOverlay (getOr (ws_updatesById s i) []) (ws_types s i) readHost i))"

section \<open>The verbs (writes.ts)\<close>

record 's SurfaceOptions =
  so_invocationId :: string
  so_actorId :: string
  so_ids :: OperationIds
  so_registry :: "'s EntityRegistry option"

definition op_context :: "'s SurfaceOptions \<Rightarrow> 's EntityRegistry \<Rightarrow> 's OpContext" where
  "op_context options reg = \<lparr>oc_registry = reg, oc_ids = so_ids options, oc_actorId = so_actorId options\<rparr>"

definition requireWritable :: "'s SurfaceOptions \<Rightarrow> WriteSurface \<Rightarrow> surface_error + 's EntityRegistry" where
  "requireWritable options s =
     (if ws_sealed s then Inl WritesCommitted
      else (case so_registry options of None \<Rightarrow> Inl MissingSchema | Some reg \<Rightarrow> Inr reg))"

text \<open>\<open>run\<close>: one resolved call, its Updates recorded; an error of the call keeps the buffer.\<close>

definition run_surface :: "'s TypeBox \<Rightarrow> 's SurfaceOptions \<Rightarrow> 's EntityRegistry \<Rightarrow> op_error + OperationCall option \<Rightarrow>
    WriteSurface \<Rightarrow> (surface_error + Update list) \<times> WriteSurface" where
  "run_surface tb options reg entry s = (case entry of
     Inl err \<Rightarrow> (Inl (OpFailed err), s)
   | Inr None \<Rightarrow> (Inr [], s)
   | Inr (Some operation) \<Rightarrow>
       (let (result, n) = run_state (run_call tb (op_context options reg) operation) (ws_minted s);
            s' = s\<lparr>ws_minted := n\<rparr>
        in case result of
             Inl err \<Rightarrow> (Inl (OpFailed err), s')
           | Inr r \<Rightarrow> (Inr (or_updates r), record_batch (or_updates r) s')))"

definition mint_surface :: "'s SurfaceOptions \<Rightarrow> string \<Rightarrow> WriteSurface \<Rightarrow> string \<times> WriteSurface" where
  "mint_surface options prefix s = (oi_newId (so_ids options) (ws_minted s) prefix, s\<lparr>ws_minted := Suc (ws_minted s)\<rparr>)"

definition surface_create :: "'s TypeBox \<Rightarrow> 's SurfaceOptions \<Rightarrow> string \<Rightarrow> pvalue obj \<Rightarrow> pvalue list option \<Rightarrow> string option \<Rightarrow> bool \<Rightarrow>
    WriteSurface \<Rightarrow> (surface_error + string) \<times> WriteSurface" where
  "surface_create tb options entity flds groups explicit validate s = (case requireWritable options s of
     Inl err \<Rightarrow> (Inl err, s)
   | Inr reg \<Rightarrow>
       if reg_get reg entity = None then (Inl (OpFailed (invalid entity None (MCreateUnregistered entity))), s)
       else (case normalizeGroupIds groups entity ''create'' ''groups'' of
           Inl err \<Rightarrow> (Inl (OpFailed err), s)
         | Inr groupIds \<Rightarrow>
             (let (i, s1) = (case explicit of Some i \<Rightarrow> (i, s) | None \<Rightarrow> mint_surface options ''e'' s);
                  (result, s2) = run_surface tb options reg (operationCallFor reg (WCreate
                    \<lparr>cv_entity = entity, cv_id = i, cv_fields = flds, cv_groups = groupIds, cv_validate = validate\<rparr>) UNRESOLVED) s1
              in case result of
                   Inl err \<Rightarrow> (Inl err, s2)
                 | Inr batch \<Rightarrow> (case assertMembershipScope (surface_view s2) entity i
                       (filter (\<lambda>u. subject_type u = ''entityGroup'') batch) of
                     Some err \<Rightarrow> (Inl (OpFailed err), s2)
                   | None \<Rightarrow> (Inr i, s2)))))"

definition guardMemberUpdate :: "WriteSurface \<Rightarrow> string \<Rightarrow> pvalue obj \<Rightarrow> op_error option" where
  "guardMemberUpdate s i patch =
     (case (getOr (map_of patch ''permissions'') PUndefined, getOr (map_of patch ''group_id'') PUndefined, ws_memberGroup s i) of
        (PArr vs, PUndefined, Some groupId) \<Rightarrow>
          if list_all (\<lambda>v. case v of PStr _ \<Rightarrow> True | _ \<Rightarrow> False) vs
          then assertLastGroupMember (surface_groupMembersOf s groupId) i
            \<lparr>gd_removedIds = [], gd_upserts = [(i, List.map_filter (\<lambda>v. case v of PStr p \<Rightarrow> Some p | _ \<Rightarrow> None) vs)]\<rparr>
          else None
      | _ \<Rightarrow> None)"

definition guardMemberDelete :: "WriteSurface \<Rightarrow> string \<Rightarrow> op_error option" where
  "guardMemberDelete s i = (case ws_memberGroup s i of
     None \<Rightarrow> None
   | Some groupId \<Rightarrow> assertLastGroupMember (surface_groupMembersOf s groupId) i \<lparr>gd_removedIds = [i], gd_upserts = []\<rparr>)"

definition guardMembershipDelete :: "WriteSurface \<Rightarrow> string \<Rightarrow> op_error option" where
  "guardMembershipDelete s membership = (case (ws_membershipGroup s membership, ws_membershipEntity s membership) of
     (Some groupId, Some entityId) \<Rightarrow>
       assertLastMembership (surface_view s) (getOr (ws_types s entityId) '''') entityId [groupId]
   | _ \<Rightarrow> None)"

definition void :: "(surface_error + 'a) \<times> WriteSurface \<Rightarrow> (surface_error + unit) \<times> WriteSurface" where
  "void r = (map_sum id (\<lambda>_. ()) (fst r), snd r)"

definition surface_update :: "'s TypeBox \<Rightarrow> 's SurfaceOptions \<Rightarrow> string \<Rightarrow> string \<Rightarrow> pvalue obj \<Rightarrow> bool \<Rightarrow>
    WriteSurface \<Rightarrow> (surface_error + unit) \<times> WriteSurface" where
  "surface_update tb options entity i patch validate s = (case requireWritable options s of
     Inl err \<Rightarrow> (Inl err, s)
   | Inr reg \<Rightarrow> (case (if entity = ''groupMember'' then guardMemberUpdate s i patch else None) of
       Some err \<Rightarrow> (Inl (OpFailed err), s)
     | None \<Rightarrow> void (run_surface tb options reg (operationCallFor reg (WUpdate
         \<lparr>uv_entity = entity, uv_id = i, uv_patch = patch, uv_groups = Some (surface_groupsOf s i), uv_validate = validate\<rparr>) UNRESOLVED) s)))"

definition surface_remove :: "'s TypeBox \<Rightarrow> 's SurfaceOptions \<Rightarrow> string \<Rightarrow> string \<Rightarrow> WriteSurface \<Rightarrow> (surface_error + unit) \<times> WriteSurface" where
  "surface_remove tb options entity i s = (case requireWritable options s of
     Inl err \<Rightarrow> (Inl err, s)
   | Inr reg \<Rightarrow> (case (if entity = ''entityGroup'' then guardMembershipDelete s i
         else if entity = ''groupMember'' then guardMemberDelete s i else None) of
       Some err \<Rightarrow> (Inl (OpFailed err), s)
     | None \<Rightarrow> void (run_surface tb options reg (operationCallFor reg (WDelete
         \<lparr>dv_entity = entity, dv_id = i, dv_groups = Some (surface_groupsOf s i)\<rparr>) UNRESOLVED) s)))"

text \<open>The targets are a set when the application passes an array.\<close>

definition surface_relate :: "'s TypeBox \<Rightarrow> 's SurfaceOptions \<Rightarrow> string \<Rightarrow> string \<Rightarrow> string \<Rightarrow> pvalue \<Rightarrow>
    WriteSurface \<Rightarrow> (surface_error + unit) \<times> WriteSurface" where
  "surface_relate tb options entity sourceId accessor targets s = (case requireWritable options s of
     Inl err \<Rightarrow> (Inl err, s)
   | Inr reg \<Rightarrow> void (run_surface tb options reg (operationCallFor reg (WRelate
       \<lparr>lv_entity = entity, lv_id = sourceId, lv_as = accessor,
        lv_target = (if is_array targets then PUndefined else targets),
        lv_targets = (case targets of PArr vs \<Rightarrow> Some vs | _ \<Rightarrow> None),
        lv_groups = Some (surface_groupsOf s sourceId)\<rparr>) UNRESOLVED) s))"

text \<open>Until the await: an error, or whether the row has to be read.\<close>

definition unrelate_start :: "'s SurfaceOptions \<Rightarrow> string \<Rightarrow> string \<Rightarrow> pvalue \<Rightarrow> WriteSurface \<Rightarrow> surface_error + bool" where
  "unrelate_start options entity accessor target s =
     sum_bind (requireWritable options s) (\<lambda>reg.
       map_sum OpFailed (\<lambda>rel. rd_sourceCardinality rel = Many \<and> target \<noteq> PUndefined) (requireRelationship reg entity accessor))"

definition unrelate_run :: "'s TypeBox \<Rightarrow> 's SurfaceOptions \<Rightarrow> string \<Rightarrow> string \<Rightarrow> string \<Rightarrow> pvalue \<Rightarrow> string option \<Rightarrow> string list option \<Rightarrow>
    WriteSurface \<Rightarrow> (surface_error + unit) \<times> WriteSurface" where
  "unrelate_run tb options entity sourceId accessor target relId fkTargets s = (case so_registry options of
     None \<Rightarrow> (Inl MissingSchema, s)
   | Some reg \<Rightarrow> void (run_surface tb options reg (operationCallFor reg (WUnrelate
       \<lparr>xv_entity = entity, xv_id = sourceId, xv_as = accessor, xv_target = target, xv_relationshipId = relId,
        xv_groups = Some (surface_groupsOf s sourceId)\<rparr>)
       \<lparr>vr_groupsOf = surface_groupsOf s, vr_relationshipIdFor = relationshipIdFor s, vr_fkTargetsOf = (\<lambda>_ _. fkTargets)\<rparr>) s))"

definition unrelate_resume :: "'s TypeBox \<Rightarrow> 's SurfaceOptions \<Rightarrow> string \<Rightarrow> string \<Rightarrow> string \<Rightarrow> pvalue \<Rightarrow> string option \<Rightarrow>
    EntityResponse option \<Rightarrow> WriteSurface \<Rightarrow> (surface_error + unit) \<times> WriteSurface" where
  "unrelate_resume tb options entity sourceId accessor target relId view s =
     (case Option.bind view (\<lambda>row. stringListField (es_fields row) accessor) of
        None \<Rightarrow> (Inl (OpFailed (invalid entity (Some accessor) (MUnresolvedFkSet accessor sourceId))), s)
      | Some fkTargets \<Rightarrow> unrelate_run tb options entity sourceId accessor target relId (Some fkTargets) s)"

section \<open>The commit (commit.ts, writes.ts)\<close>

definition actionIdForInvocation :: "(string \<Rightarrow> string) \<Rightarrow> string \<Rightarrow> string" where
  "actionIdForInvocation sha256hex invocationId = ''a_'' @ take 16 (sha256hex invocationId)"

definition commitAction :: "(string \<Rightarrow> string) \<Rightarrow> string \<Rightarrow> string \<Rightarrow> hlc \<Rightarrow> Update list \<Rightarrow> Action" where
  "commitAction sha256hex invocationId actorId h updates =
     \<lparr>act_id = actionIdForInvocation sha256hex invocationId, actor_id = actorId, act_hlc = h, act_gsn = 0, act_updates = updates\<rparr>"

text \<open>The Action sent to the host, if any.\<close>

definition surface_commit :: "(string \<Rightarrow> string) \<Rightarrow> 's SurfaceOptions \<Rightarrow> WriteSurface \<Rightarrow> (surface_error + Action option) \<times> WriteSurface" where
  "surface_commit sha256hex options s =
     (if length (ws_updates s) = 0 then (Inr None, s)
      else if so_invocationId options = [] then (Inl EmptyInvocationId, s)
      else (let s1 = s\<lparr>ws_minted := Suc (ws_minted s)\<rparr>;
                action = commitAction sha256hex (so_invocationId options) (so_actorId options)
                  (oi_hlc (so_ids options) (ws_minted s)) (ws_updates s);
                violations = (case so_registry options of None \<Rightarrow> [] | Some reg \<Rightarrow> validateAction reg action)
            in if length violations > 0 then (Inl (OpFailed (EntityValidation violations)), s1)
               else (Inr (Some action), s1\<lparr>ws_sealed := True, ws_updates := [], ws_updatesById := Map.empty\<rparr>)))"

text \<open>What a rejected host call throws: an \<^verbatim>\<open>Error\<close> of the transport, or the host's value.\<close>

datatype host_failure = ErrorInstance | HostValue json

record ErrorEnvelope =
  ee_code :: string
  ee_status :: int
  ee_details :: "string option"
  ee_rejected :: "json list"

definition asEnvelope :: "json \<Rightarrow> ErrorEnvelope option" where
  "asEnvelope v = (case v of
     JObj kvs \<Rightarrow> Some
       \<lparr>ee_code = (case map_of kvs ''error'' of Some (JStr c) \<Rightarrow> c | _ \<Rightarrow> ''host_error''),
        ee_status = (case map_of kvs ''status'' of Some (JNum n) \<Rightarrow> n | _ \<Rightarrow> 500),
        ee_details = (case map_of kvs ''details'' of Some (JStr d) \<Rightarrow> Some d | _ \<Rightarrow> None),
        ee_rejected = (case map_of kvs ''rejected'' of Some (JArr rs) \<Rightarrow> rs | _ \<Rightarrow> [])\<rparr>
   | JArr vs \<Rightarrow> Some \<lparr>ee_code = ''host_error'', ee_status = 500, ee_details = None, ee_rejected = []\<rparr>
   | _ \<Rightarrow> None)"

definition asRejection :: "json \<Rightarrow> ActionRejection option" where
  "asRejection v = (case v of
     JObj kvs \<Rightarrow> (case (map_of kvs ''id'', map_of kvs ''reason'') of
         (Some (JStr i), Some (JStr reason)) \<Rightarrow> Some \<lparr>rj_id = i, rj_reason = reason,
           rj_details = (case map_of kvs ''details'' of Some (JStr d) \<Rightarrow> Some d | _ \<Rightarrow> None), rj_subjectType = None\<rparr>
       | _ \<Rightarrow> None)
   | _ \<Rightarrow> None)"

text \<open>A thrown value that is not an object is rethrown; it counts as a failure of the transport.\<close>

definition callFailure :: "host_failure \<Rightarrow> string \<Rightarrow> surface_error" where
  "callFailure failure op = (case failure of
     ErrorInstance \<Rightarrow> TransportFailed
   | HostValue v \<Rightarrow> (case asEnvelope v of
       None \<Rightarrow> TransportFailed
     | Some envelope \<Rightarrow>
         (let rejected = List.map_filter asRejection (ee_rejected envelope)
          in if (ee_code envelope = ''rejected'' \<or> ee_status envelope = 422) \<and> length rejected > 0
             then OpFailed (ActionRejected rejected)
             else HostCallFailed (ee_code envelope) (ee_status envelope)
               (Some (getOr (ee_details envelope) (op @ '' failed''))))))"

definition readCommitOutcome :: "json \<Rightarrow> bool" where
  "readCommitOutcome v = (case v of JObj kvs \<Rightarrow> map_of kvs ''replayed'' = Some (JBool True) | _ \<Rightarrow> False)"

end
