(* ===== verification/SchemaProps.thy ===== *)
theory SchemaProps
  imports EntitySchema
begin

text \<open>
  What a schema that \<^verbatim>\<open>defineSchema\<close> accepts guarantees of its registry: the system entities are in it
  with their fields, every relationship has registered endpoints, and every collaborative-text field has its
  relationship to a registered document entity.
\<close>

section \<open>Code that may throw\<close>

lemma sum_bind_Inr: "sum_bind m f = Inr y \<longleftrightarrow> (\<exists>x. m = Inr x \<and> f x = Inr y)"
  by (auto simp: sum_bind_def split: sum.split)

lemma map_sum_Inr: "map_sum id f m = Inr y \<longleftrightarrow> (\<exists>x. m = Inr x \<and> y = f x)"
  by (cases m) auto

lemma fold_sum_inv:
  assumes "fold_sum f xs s = Inr s'" "P s" "\<And>x s s'. x \<in> set xs \<Longrightarrow> P s \<Longrightarrow> f x s = Inr s' \<Longrightarrow> P s'"
  shows "P s'"
  using assms by (induction xs arbitrary: s) (auto simp: sum_bind_Inr)

text \<open>What one step establishes and the others keep holds of every element in the end.\<close>

lemma fold_sum_each:
  assumes "fold_sum f xs s = Inr s'" "I s" "x \<in> set xs"
    and "\<And>x s s'. x \<in> set xs \<Longrightarrow> I s \<Longrightarrow> f x s = Inr s' \<Longrightarrow> I s'"
    and "\<And>s s'. I s \<Longrightarrow> f x s = Inr s' \<Longrightarrow> Q s'"
    and "\<And>y s s'. y \<in> set xs \<Longrightarrow> I s \<Longrightarrow> Q s \<Longrightarrow> f y s = Inr s' \<Longrightarrow> Q s'"
  shows "Q s'"
proof -
  obtain as bs where xs: "xs = as @ x # bs" using assms(3) by (auto dest: split_list)
  have split: "fold_sum f (as @ cs) s = sum_bind (fold_sum f as s) (fold_sum f cs)" for cs
    by (induction as arbitrary: s) (auto simp: sum_bind_def split: sum.splits)
  from assms(1) obtain s1 s2 where s1: "fold_sum f as s = Inr s1" and s2: "f x s1 = Inr s2" and s3: "fold_sum f bs s2 = Inr s'"
    unfolding xs split by (auto simp: sum_bind_Inr)
  have "I s1" by (rule fold_sum_inv [where P = I, OF s1 assms(2)]) (use assms(4) xs in auto)
  with s2 have "I s2" "Q s2" using assms(4,5) xs by auto
  then have "I s' \<and> Q s'"
  proof (intro fold_sum_inv [OF s3, where P = "\<lambda>s. I s \<and> Q s"])
    fix y s s' assume "y \<in> set bs" "I s \<and> Q s" "f y s = Inr s'"
    with assms(4) [of y s s'] assms(6) [of y s s'] show "I s' \<and> Q s'" by (simp add: xs)
  qed simp
  then show ?thesis ..
qed

section \<open>Entity definitions\<close>

definition plain_schema :: "'s TypeBox \<Rightarrow> 's TSchema \<Rightarrow> bool" where
  "plain_schema tb schema \<longleftrightarrow> ts_marker schema = None \<and> \<not> admitsNull tb schema"

text \<open>
  What the code relies on of TypeBox: the schemas of a string, of a map and of an array carry no marker of the SDK and
  do not admit \<^verbatim>\<open>null\<close>.
\<close>

definition typebox_ok :: "'s TypeBox \<Rightarrow> bool" where
  "typebox_ok tb \<longleftrightarrow> plain_schema tb (tb_string tb) \<and> (\<forall>schema. plain_schema tb (tb_record tb schema) \<and> plain_schema tb (tb_array tb schema))"

lemma split_plain:
  "list_all (\<lambda>(k, schema). plain_schema tb schema) flds \<Longrightarrow> split_fields tb name scope flds = Inr (flds, [])"
  by (induction tb name scope flds rule: split_fields.induct) (auto simp: plain_schema_def split: option.splits)

text \<open>The two shapes and the markers name the same wire fields.\<close>

definition def_ok :: "'s EntityDef \<Rightarrow> bool" where
  "def_ok d \<longleftrightarrow> obj_keys (ed_shape d) = obj_keys (ed_fields d) \<and> obj_keys (ed_createShape d) = obj_keys (ed_fields d)"

lemma buildEntityDef_ok:
  assumes "buildEntityDef tb name flds options = Inr d"
  shows "ed_name d = name" "def_ok d" "ed_conflictScope d = getOr (eo_conflictScope options) ScopeField"
  using assms by (auto simp: buildEntityDef_def Let_def map_sum_Inr def_ok_def withReadOptional_def withCreateOptional_def split_beta)

lemma buildEntityDef_plain:
  assumes "list_all (\<lambda>(k, schema). plain_schema tb schema) flds" "obj_keys flds = ks"
  shows "\<exists>d. buildEntityDef tb name flds options = Inr d \<and> ed_name d = name \<and> obj_keys (ed_fields d) = ks \<and> def_ok d"
proof -
  obtain d where d: "buildEntityDef tb name flds options = Inr d" "obj_keys (ed_fields d) = obj_keys flds"
    using split_plain [OF assms(1)] by (simp add: buildEntityDef_def Let_def split_beta comp_def)
  with buildEntityDef_ok [OF d(1)] assms(2) show ?thesis by blast
qed

text \<open>The fields of the system entities and of a document entity.\<close>

definition system_fields :: "(string \<times> string list) list" where
  "system_fields = [(''relationship'', [''source_id'', ''target_id'', ''type'', ''field'']), (''group'', [''name'', ''apps'']),
     (''groupMember'', [''group_id'', ''actor_id'', ''permissions'']), (''entityGroup'', [''entity_id'', ''group_id''])]"

lemma system_entities_built:
  assumes "typebox_ok tb"
  shows "\<exists>ds. system_entities tb = map Inr ds \<and> map (\<lambda>d. (ed_name d, obj_keys (ed_fields d))) ds = system_fields \<and> list_all def_ok ds"
proof -
  from assms have p: "plain_schema tb (tb_string tb)" "\<And>s. plain_schema tb (tb_record tb s)" "\<And>s. plain_schema tb (tb_array tb s)"
    by (auto simp: typebox_ok_def)
  have "\<exists>d. relationshipSystemEntity tb = Inr d \<and> ed_name d = ''relationship'' \<and>
      obj_keys (ed_fields d) = [''source_id'', ''target_id'', ''type'', ''field''] \<and> def_ok d"
    unfolding relationshipSystemEntity_def by (rule buildEntityDef_plain) (simp_all add: p)
  moreover have "\<exists>d. groupSystemEntity tb = Inr d \<and> ed_name d = ''group'' \<and>
      obj_keys (ed_fields d) = [''name'', ''apps''] \<and> def_ok d"
    unfolding groupSystemEntity_def by (rule buildEntityDef_plain) (simp_all add: p)
  moreover have "\<exists>d. groupMemberSystemEntity tb = Inr d \<and> ed_name d = ''groupMember'' \<and>
      obj_keys (ed_fields d) = [''group_id'', ''actor_id'', ''permissions''] \<and> def_ok d"
    unfolding groupMemberSystemEntity_def by (rule buildEntityDef_plain) (simp_all add: p)
  moreover have "\<exists>d. entityGroupSystemEntity tb = Inr d \<and> ed_name d = ''entityGroup'' \<and>
      obj_keys (ed_fields d) = [''entity_id'', ''group_id''] \<and> def_ok d"
    unfolding entityGroupSystemEntity_def by (rule buildEntityDef_plain) (simp_all add: p)
  ultimately obtain d1 d2 d3 d4 where "system_entities tb = map Inr [d1, d2, d3, d4]"
    "map (\<lambda>d. (ed_name d, obj_keys (ed_fields d))) [d1, d2, d3, d4] = system_fields" "list_all def_ok [d1, d2, d3, d4]"
    by (auto simp: system_entities_def system_fields_def)
  then show ?thesis by blast
qed

section \<open>Expanding derived fields\<close>

text \<open>The key of a relationship is unambiguous when the name of the source has no colon.\<close>

lemma relationshipKey_inj:
  assumes "relationshipKey p f = relationshipKey p' f'" "CHR '':'' \<notin> set p" "CHR '':'' \<notin> set p'"
  shows "p = p' \<and> f = f'"
proof -
  have "takeWhile (\<lambda>c. c \<noteq> CHR '':'') (relationshipKey q g) = q" if "CHR '':'' \<notin> set q" for q g
    using that by (auto simp: relationshipKey_def takeWhile_append)
  with assms have "p = p'" by metis
  with assms(1) show ?thesis by (simp add: relationshipKey_def)
qed

definition derived_rel :: "string \<Rightarrow> string \<Rightarrow> RelationshipDef \<Rightarrow> bool" where
  "derived_rel p f rel \<longleftrightarrow> rd_source rel = p \<and> rd_as rel = f \<and> rd_sourceCardinality rel = One \<and> rd_kind rel = Some CollaborativeText"

text \<open>The table has the relationship of a derived field, and no other one under that accessor.\<close>

definition owns :: "string \<Rightarrow> string \<Rightarrow> RelationshipDef obj \<Rightarrow> bool" where
  "owns p f table \<longleftrightarrow> (\<exists>rel. (relationshipKey p f, rel) \<in> set table \<and> derived_rel p f rel) \<and>
     (\<forall>k rel. (k, rel) \<in> set table \<longrightarrow> rd_source rel = p \<longrightarrow> rd_as rel = f \<longrightarrow> derived_rel p f rel)"

definition sources_ok :: "RelationshipDef obj \<Rightarrow> bool" where
  "sources_ok table \<longleftrightarrow> (\<forall>k rel. (k, rel) \<in> set table \<longrightarrow> CHR '':'' \<notin> set (rd_source rel))"

lemma set_update_cases: "(k', v') \<in> set (obj_set o' k v) \<Longrightarrow> (k', v') = (k, v) \<or> (k', v') \<in> set o'"
  by (induction o') (auto split: if_splits)

lemma set_update_new: "(k, v) \<in> set (obj_set o' k v)"
  by (induction o') auto

lemma set_update_keep: "(k', v') \<in> set o' \<Longrightarrow> k' \<noteq> k \<Longrightarrow> (k', v') \<in> set (obj_set o' k v)"
  by (induction o') auto

lemma expand_field_table:
  assumes "expand_field tb p (f, marker) x = Inr x'"
  obtains rel where "derived_rel p f rel" "getOr (ex_relationships x') [] = obj_set (getOr (ex_relationships x) []) (relationshipKey p f) rel"
    "\<And>k r. (k, r) \<in> set (getOr (ex_relationships x) []) \<Longrightarrow> \<not> (rd_source r = p \<and> rd_as r = f)"
proof -
  let ?table = "getOr (ex_relationships x) []"
  from assms obtain t rel where none: "\<not> list_ex (\<lambda>(k, rel). rd_source rel = p \<and> rd_as rel = f) ?table"
    and rel: "defineRelationship p t f (Some One) None (Some CollaborativeText) = Inr rel"
    and table: "ex_relationships x' = Some (obj_set ?table (relationshipKey p f) rel)"
    by (auto simp: expand_field_def Let_def sum_bind_Inr split: if_splits)
  from rel have "derived_rel p f rel"
    by (auto simp: defineRelationship_def derived_rel_def getOr_def split: option.splits)
  then show thesis
    by (rule that) (use none table in \<open>auto simp: list_ex_iff getOr_def\<close>)
qed

lemma expand_field_owns:
  assumes "expand_field tb p (f, marker) x = Inr x'"
  shows "owns p f (getOr (ex_relationships x') [])"
  using assms by (rule expand_field_table) (auto simp: owns_def intro: set_update_new dest!: set_update_cases)

lemma expand_field_keeps:
  assumes "expand_field tb p' (f', marker) x = Inr x'" "owns p f (getOr (ex_relationships x) [])"
    and "CHR '':'' \<notin> set p" "CHR '':'' \<notin> set p'"
  shows "owns p f (getOr (ex_relationships x') [])"
  using assms(1)
proof (rule expand_field_table)
  fix rel
  assume rel: "derived_rel p' f' rel" "getOr (ex_relationships x') [] = obj_set (getOr (ex_relationships x) []) (relationshipKey p' f') rel"
    "\<And>k r. (k, r) \<in> set (getOr (ex_relationships x) []) \<Longrightarrow> \<not> (rd_source r = p' \<and> rd_as r = f')"
  from assms(2) rel(3) have "(p, f) \<noteq> (p', f')" by (auto simp: owns_def derived_rel_def)
  with relationshipKey_inj assms(3,4) have "relationshipKey p f \<noteq> relationshipKey p' f'" by blast
  with assms(2) rel(1,2) \<open>(p, f) \<noteq> (p', f')\<close> show ?thesis
    by (auto simp: owns_def derived_rel_def dest!: set_update_cases intro!: set_update_keep)
qed

lemma expand_field_sources:
  assumes "expand_field tb p (f, marker) x = Inr x'" "sources_ok (getOr (ex_relationships x) [])" "CHR '':'' \<notin> set p"
  shows "sources_ok (getOr (ex_relationships x') [])"
  using assms(1) by (rule expand_field_table) (use assms(2,3) in \<open>auto simp: sources_ok_def derived_rel_def dest!: set_update_cases\<close>)

lemma expanded_table:
  assumes "expandDerivedFields tb entities rels = Inr (entities', rels')"
    and names: "list_all (\<lambda>(k, d). CHR '':'' \<notin> set (ed_name d)) entities" and "sources_ok (getOr rels [])"
  shows "sources_ok (getOr rels' []) \<and>
    (\<forall>k d f. (k, d) \<in> set entities \<longrightarrow> f \<in> set (obj_keys (ed_derived d)) \<longrightarrow> owns (ed_name d) f (getOr rels' []))"
proof -
  let ?x = "\<lparr>ex_entities = entities, ex_relationships = rels, ex_generatedOwners = []\<rparr>"
  let ?inner = "\<lambda>(k, d). fold_sum (expand_field tb (ed_name d)) (ed_derived d)"
  from assms(1) obtain x' where run: "fold_sum ?inner entities ?x = Inr x'" and x': "ex_relationships x' = rels'"
    by (auto simp: expandDerivedFields_def map_sum_Inr)
  have colon: "CHR '':'' \<notin> set (ed_name d)" if "(k, d) \<in> set entities" for k d
    using names that by (auto simp: list_all_iff)
  have src: "sources_ok (getOr (ex_relationships y') [])"
    if "kd \<in> set entities" "sources_ok (getOr (ex_relationships y) [])" "?inner kd y = Inr y'" for kd y y'
  proof -
    obtain k d where kd: "kd = (k, d)" by (cases kd)
    from that(3) have "fold_sum (expand_field tb (ed_name d)) (ed_derived d) y = Inr y'" by (simp add: kd)
    then show ?thesis
      by (rule fold_sum_inv [where P = "\<lambda>y. sources_ok (getOr (ex_relationships y) [])"])
         (use that(1,2) colon kd in \<open>auto intro: expand_field_sources\<close>)
  qed
  have keep: "owns p f (getOr (ex_relationships y') [])"
    if "kd \<in> set entities" "owns p f (getOr (ex_relationships y) [])" "?inner kd y = Inr y'" "CHR '':'' \<notin> set p" for kd y y' p f
  proof -
    obtain k d where kd: "kd = (k, d)" by (cases kd)
    from that(3) have "fold_sum (expand_field tb (ed_name d)) (ed_derived d) y = Inr y'" by (simp add: kd)
    then show ?thesis
      by (rule fold_sum_inv [where P = "\<lambda>y. owns p f (getOr (ex_relationships y) [])"])
         (use that(1,2,4) colon kd in \<open>auto intro: expand_field_keeps\<close>)
  qed
  have "owns (ed_name d) f (getOr (ex_relationships x') [])" if "(k, d) \<in> set entities" "f \<in> set (obj_keys (ed_derived d))" for k d f
  proof (rule fold_sum_each [where I = "\<lambda>_. True", OF run _ that(1)])
    fix y y' assume "(\<lambda>(k, d). fold_sum (expand_field tb (ed_name d)) (ed_derived d)) (k, d) y = Inr y'"
    then have inner: "fold_sum (expand_field tb (ed_name d)) (ed_derived d) y = Inr y'" by simp
    from that(2) obtain m where m: "(f, m) \<in> set (ed_derived d)" by auto
    show "owns (ed_name d) f (getOr (ex_relationships y') [])"
      by (rule fold_sum_each [where I = "\<lambda>_. True", OF inner _ m])
         (auto intro: expand_field_owns expand_field_keeps simp: colon [OF that(1)])
  qed (use keep colon [OF that(1)] in auto)
  moreover have "sources_ok (getOr (ex_relationships x') [])"
    by (rule fold_sum_inv [where P = "\<lambda>y. sources_ok (getOr (ex_relationships y) [])", OF run]) (use assms(3) src in auto)
  ultimately show ?thesis by (auto simp: x')
qed

section \<open>Seeding the registry\<close>

lemma register_get: "reg_get (register d reg) name = (if name = ed_name d then Some d else reg_get reg name)"
  by (simp add: register_def reg_get_def obj_set_get)

lemma reserved_prefix: "name \<in> set RESERVED_ENTITY_NAMES \<Longrightarrow> \<not> hasDerivedDocPrefix name"
  by (auto simp: RESERVED_ENTITY_NAMES_def hasDerivedDocPrefix_def DERIVED_DOC_ENTITY_PREFIX_def)

lemma seed_entity_reserved:
  assumes "seed_entity kv reg = Inr reg'" "name \<in> set RESERVED_ENTITY_NAMES"
  shows "reg_get reg' name = reg_get reg name"
  using assms reserved_prefix [OF assms(2)]
  by (auto simp: seed_entity_def assertEntityNameAvailable_def register_get split: prod.splits if_splits option.splits)

lemma seed_relationship_get:
  assumes "seed_relationship (k, rel) reg = Inr reg'"
  shows "er_entities reg' = er_entities reg"
    and "getRelationship reg' p f = (if relationshipKey p f = relationshipKey (rd_source rel) (rd_as rel) then Some rel else getRelationship reg p f)"
    and "er_relationships reg' = obj_set (er_relationships reg) (relationshipKey (rd_source rel) (rd_as rel)) rel"
    and "reg_has reg (rd_source rel) \<and> reg_has reg (rd_target rel)"
  using assms
  by (auto simp: seed_relationship_def registerRelationship_def Let_def getRelationship_def obj_set_get
      assertRelationshipEndpointsRegistered_def split: option.splits if_splits)

definition endpoints_ok :: "'s EntityRegistry \<Rightarrow> bool" where
  "endpoints_ok reg \<longleftrightarrow> (\<forall>key rel. map_of (er_relationships reg) key = Some rel \<longrightarrow> reg_has reg (rd_source rel) \<and> reg_has reg (rd_target rel))"

lemma seed_relationship_endpoints:
  assumes "seed_relationship kv reg = Inr reg'" "endpoints_ok reg"
  shows "endpoints_ok reg'"
proof -
  obtain k rel where kv: "kv = (k, rel)" by (cases kv)
  note step = seed_relationship_get [OF assms(1) [unfolded kv]]
  have "reg_has reg' = reg_has reg" by (rule ext) (simp add: reg_has_def step(1))
  with step(3,4) assms(2) show ?thesis by (auto simp: endpoints_ok_def obj_set_get split: if_splits)
qed

lemma system_registered:
  assumes "fold_sum (\<lambda>sys reg. map_sum id (\<lambda>entity. register entity reg) sys) (map Inr ds) reg = (Inr reg' :: schema_error + 's EntityRegistry)"
    and "distinct (map ed_name ds)" "d \<in> set ds"
  shows "reg_get reg' (ed_name d) = Some d"
  using assms
proof (induction ds arbitrary: reg)
  case (Cons x ds)
  have keep: "fold_sum (\<lambda>sys reg. map_sum id (\<lambda>entity. register entity reg) sys) (map Inr es) r = (Inr r' :: schema_error + 's EntityRegistry) \<Longrightarrow>
      name \<notin> ed_name ` set es \<Longrightarrow> reg_get r' name = reg_get r name" for es r r' name
    by (induction es arbitrary: r) (auto simp: sum_bind_def register_get)
  from Cons.prems(1) have rest: "fold_sum (\<lambda>sys reg. map_sum id (\<lambda>entity. register entity reg) sys) (map Inr ds) (register x reg) = (Inr reg' :: schema_error + 's EntityRegistry)"
    by (simp add: sum_bind_def id_def)
  show ?case
  proof (cases "d = x")
    case True
    with keep [OF rest, of "ed_name x"] Cons.prems(2) show ?thesis by (auto simp: register_get)
  qed (use Cons.IH [OF rest] Cons.prems(2,3) in auto)
qed simp

text \<open>The three folds a schema is made by.\<close>

lemma schema_parts:
  assumes "defineSchema tb entities rels version minSupported = Inr s"
  obtains entities' rels' r1 r2 where "expandDerivedFields tb entities rels = Inr (entities', rels')"
    "fold_sum (\<lambda>sys reg. map_sum id (\<lambda>entity. register entity reg) sys) (system_entities tb) empty_registry = Inr r1"
    "fold_sum seed_entity entities' r1 = Inr r2" "er_relationships r2 = []"
    "fold_sum seed_relationship (getOr rels' []) r2 = Inr (sv_registry s)"
proof -
  from assms obtain entities' rels' r1 r2 where ex: "expandDerivedFields tb entities rels = Inr (entities', rels')"
    and sys: "fold_sum (\<lambda>sys reg. map_sum id (\<lambda>entity. register entity reg) sys) (system_entities tb) empty_registry = Inr r1"
    and ent: "fold_sum seed_entity entities' r1 = Inr r2"
    and rel: "fold_sum seed_relationship (getOr rels' []) r2 = Inr (sv_registry s)"
    by (auto simp: defineSchema_def sum_bind_Inr seedRegistry_def)
  have "er_relationships r1 = []"
    by (rule fold_sum_inv [where P = "\<lambda>r. er_relationships r = []", OF sys]) (auto simp: empty_registry_def map_sum_Inr register_def)
  then have "er_relationships r2 = []"
    by (intro fold_sum_inv [where P = "\<lambda>r. er_relationships r = []", OF ent])
       (auto simp: seed_entity_def register_def split: option.splits if_splits)
  with rel show thesis by (intro that [OF ex sys ent])
qed

lemma registry_endpoints:
  assumes "defineSchema tb entities rels version minSupported = Inr s"
  shows "endpoints_ok (sv_registry s)"
  using assms
proof (rule schema_parts)
  fix rels' :: "RelationshipDef obj option" and r2 :: "'a EntityRegistry"
  assume "er_relationships r2 = []" and rel: "fold_sum seed_relationship (getOr rels' []) r2 = Inr (sv_registry s)"
  then show ?thesis
    by (intro fold_sum_inv [where P = endpoints_ok, OF rel]) (auto simp: endpoints_ok_def [of r2] intro: seed_relationship_endpoints)
qed

lemma registry_system:
  assumes "defineSchema tb entities rels version minSupported = Inr s" "typebox_ok tb" "(name, flds) \<in> set system_fields"
  shows "\<exists>d. reg_get (sv_registry s) name = Some d \<and> ed_name d = name \<and> obj_keys (ed_fields d) = flds \<and> def_ok d"
proof -
  obtain entities' rels' r1 r2 where
    sys: "fold_sum (\<lambda>sys reg. map_sum id (\<lambda>entity. register entity reg) sys) (system_entities tb) empty_registry = Inr r1"
    and ent: "fold_sum seed_entity entities' r1 = Inr r2"
    and rel: "fold_sum seed_relationship (getOr rels' []) r2 = Inr (sv_registry s)"
    using assms(1) by (rule schema_parts)
  obtain ds where ds: "system_entities tb = map Inr ds" "map (\<lambda>d. (ed_name d, obj_keys (ed_fields d))) ds = system_fields" "list_all def_ok ds"
    using system_entities_built [OF assms(2)] by blast
  have "map ed_name ds = map fst system_fields" by (simp add: ds(2) [symmetric] comp_def)
  then have dist: "distinct (map ed_name ds)" by (simp add: system_fields_def)
  from assms(3) have "(name, flds) \<in> (\<lambda>d. (ed_name d, obj_keys (ed_fields d))) ` set ds" by (simp flip: ds(2))
  then obtain d where d: "d \<in> set ds" "ed_name d = name" "obj_keys (ed_fields d) = flds" by auto
  from system_registered [OF sys [unfolded ds(1)] dist d(1)] have "reg_get r1 name = Some d" by (simp add: d(2))
  moreover have "name \<in> set RESERVED_ENTITY_NAMES" using assms(3) by (auto simp: system_fields_def RESERVED_ENTITY_NAMES_def)
  then have "reg_get r2 name = reg_get r1 name"
    by (intro fold_sum_inv [where P = "\<lambda>r. reg_get r name = reg_get r1 name", OF ent]) (auto simp: seed_entity_reserved)
  moreover have "reg_get (sv_registry s) name = reg_get r2 name"
    by (rule fold_sum_inv [where P = "\<lambda>r. reg_get r name = reg_get r2 name", OF rel])
       (auto simp: reg_get_def seed_relationship_get(1))
  ultimately show ?thesis using d ds(3) by (auto simp: list_all_iff)
qed

text \<open>Seeding one relationship keeps the derived one, because only the derived one has its key.\<close>

lemma seed_keeps_derived:
  assumes "seed_relationship (k, r) y = Inr y'" "(k, r) \<in> set table" "sources_ok table" "owns p f table" "CHR '':'' \<notin> set p"
    and "\<exists>rel. getRelationship y p f = Some rel \<and> derived_rel p f rel"
  shows "\<exists>rel. getRelationship y' p f = Some rel \<and> derived_rel p f rel"
proof (cases "relationshipKey p f = relationshipKey (rd_source r) (rd_as r)")
  case True
  with assms(2,3,5) have "rd_source r = p \<and> rd_as r = f" using relationshipKey_inj [OF True] by (auto simp: sources_ok_def)
  with assms(2,4) have "derived_rel p f r" by (auto simp: owns_def)
  with True show ?thesis by (simp add: seed_relationship_get(2) [OF assms(1)])
qed (use assms(6) in \<open>simp add: seed_relationship_get(2) [OF assms(1)]\<close>)

lemma registry_derived:
  assumes "defineSchema tb entities rels version minSupported = Inr s"
    and "list_all (\<lambda>(k, d). CHR '':'' \<notin> set (ed_name d)) entities" "list_all (\<lambda>(k, rel). CHR '':'' \<notin> set (rd_source rel)) (getOr rels [])"
    and "(k, d) \<in> set entities" "f \<in> set (obj_keys (ed_derived d))"
  shows "\<exists>rel. getRelationship (sv_registry s) (ed_name d) f = Some rel \<and> derived_rel (ed_name d) f rel \<and> reg_has (sv_registry s) (rd_target rel)"
proof -
  obtain entities' rels' r2 where ex: "expandDerivedFields tb entities rels = Inr (entities', rels')"
    and rel: "fold_sum seed_relationship (getOr rels' []) r2 = Inr (sv_registry s)"
    using assms(1) by (rule schema_parts)
  have "sources_ok (getOr rels [])" using assms(3) by (auto simp: sources_ok_def list_all_iff)
  from expanded_table [OF ex assms(2) this] assms(4,5) have src: "sources_ok (getOr rels' [])" and own: "owns (ed_name d) f (getOr rels' [])"
    by blast+
  from assms(2,4) have colon: "CHR '':'' \<notin> set (ed_name d)" by (auto simp: list_all_iff)
  from own obtain r where r: "(relationshipKey (ed_name d) f, r) \<in> set (getOr rels' [])" "derived_rel (ed_name d) f r"
    by (auto simp: owns_def)
  have "\<exists>rel. getRelationship (sv_registry s) (ed_name d) f = Some rel \<and> derived_rel (ed_name d) f rel"
  proof (rule fold_sum_each [where I = "\<lambda>_. True", OF rel _ r(1)])
    fix y y' assume "seed_relationship (relationshipKey (ed_name d) f, r) y = Inr y'"
    then show "\<exists>rel. getRelationship y' (ed_name d) f = Some rel \<and> derived_rel (ed_name d) f rel"
      using r(2) by (simp add: seed_relationship_get(2) derived_rel_def)
  next
    fix kv y y' assume kv: "kv \<in> set (getOr rels' [])" and step: "seed_relationship kv y = Inr y'"
      and old: "\<exists>rel. getRelationship y (ed_name d) f = Some rel \<and> derived_rel (ed_name d) f rel"
    obtain k' r' where "kv = (k', r')" by fastforce
    with seed_keeps_derived [of k' r' y y', OF _ _ src own colon old] kv step
    show "\<exists>rel. getRelationship y' (ed_name d) f = Some rel \<and> derived_rel (ed_name d) f rel" by blast
  qed simp_all
  with registry_endpoints [OF assms(1)] show ?thesis by (auto simp: endpoints_ok_def getRelationship_def)
qed


section \<open>A sample schema\<close>

definition sample_schema_value :: "bool \<Rightarrow> unit TSchema" where
  "sample_schema_value isMap = TSchema () [] None [] [] isMap None None"

text \<open>A TypeBox whose checks accept everything but \<^verbatim>\<open>null\<close>.\<close>

definition sample_tb :: "unit TypeBox" where
  "sample_tb = \<lparr>tb_checkable = (\<lambda>_. True), tb_check = (\<lambda>_ v. v \<noteq> PNull), tb_errors = (\<lambda>_ _. []),
     tb_checkObject = (\<lambda>_ _. True), tb_errorsObject = (\<lambda>_ _. []), tb_optional = id, tb_string = sample_schema_value False,
     tb_boolean = sample_schema_value False, tb_array = (\<lambda>_. sample_schema_value False),
     tb_record = (\<lambda>_. sample_schema_value True), tb_runField = sample_schema_value False\<rparr>"

definition sample_entity :: "unit EntityDef" where
  "sample_entity = \<lparr>ed_name = ''todo'', ed_conflictScope = ScopeField, ed_materialization = Held,
     ed_shape = [(''title'', sample_schema_value False), (''tags'', sample_schema_value False)],
     ed_createShape = [(''title'', sample_schema_value False), (''tags'', sample_schema_value False)],
     ed_fields = [(''title'', \<lparr>fm_type = Lww, fm_map = False\<rparr>), (''tags'', \<lparr>fm_type = Lww, fm_map = False\<rparr>)], 
     ed_derived = [(''body'', \<lparr>df_entity = None, df_conflictScope = ScopeField\<rparr>)]\<rparr>"

definition sample_relationship :: "string \<Rightarrow> SourceCardinality \<Rightarrow> RelationshipDef" where
  "sample_relationship accessor cardinality = \<lparr>rd_source = ''todo'', rd_target = ''todo'', rd_as = accessor,
     rd_sourceCardinality = cardinality, rd_type = ''todo'', rd_kind = None\<rparr>"

definition sample_relationships :: "RelationshipDef obj option" where
  "sample_relationships = Some [(''tags'', sample_relationship ''tags'' Many), (''parent'', sample_relationship ''parent'' One)]"

definition sample_schema :: "unit SchemaValue" where
  "sample_schema = projr (defineSchema sample_tb [(''todo'', sample_entity)] sample_relationships 1 None)"

definition sample_registry :: "unit EntityRegistry" where
  "sample_registry = sv_registry sample_schema"

lemma sample_schema_defined: "defineSchema sample_tb [(''todo'', sample_entity)] sample_relationships 1 None = Inr sample_schema"
proof -
  have "\<not> isl (defineSchema sample_tb [(''todo'', sample_entity)] sample_relationships 1 None)" by code_simp
  then show ?thesis by (simp add: sample_schema_def)
qed

lemma sample_tb_ok: "typebox_ok sample_tb"
proof -
  have "\<not> admitsNull sample_tb (sample_schema_value b)" for b
    by (subst admitsNull.simps) (simp add: sample_tb_def sample_schema_value_def)
  then have "plain_schema sample_tb (sample_schema_value b)" for b
    by (simp add: plain_schema_def sample_schema_value_def)
  moreover have "tb_string sample_tb = sample_schema_value False" "tb_record sample_tb s = sample_schema_value True"
    "tb_array sample_tb s = sample_schema_value False" for s by (simp_all add: sample_tb_def)
  ultimately show ?thesis by (simp add: typebox_ok_def)
qed


end
