(* ===== verification/WriteProps.thy ===== *)
theory WriteProps
  imports WriteSurface TextProps SchemaProps
begin

text \<open>
  What the write operations and the write surface guarantee: membership row ids are unambiguous, a change of
  groups never orphans the entity, the overlay of an invocation shows what its Action will store, and one
  invocation sends one Action. Three results show where the code does not do what it means to.
\<close>

section \<open>Running the operations\<close>

lemma run_mint [simp]: "run_state (mint f) n = (f n, Suc n)"
  by (simp add: mint_def)

lemma run_updateId [simp]: "run_state (updateId ctx) n = (oi_updateId (oc_ids ctx) n, Suc n)"
  by (simp add: updateId_def)

lemma run_fresh_hlc [simp]: "run_state (fresh_hlc ctx) n = (oi_hlc (oc_ids ctx) n, Suc n)"
  by (simp add: fresh_hlc_def)

lemma run_newId [simp]: "run_state (newId ctx prefix) n = (oi_newId (oc_ids ctx) n prefix, Suc n)"
  by (simp add: newId_def)

text \<open>A traversal gives one result per element; what does not depend on the ids is known of each.\<close>

lemma traverse_map:
  assumes "\<And>x k. g (fst (run_state (f x) k)) = h x"
  shows "map g (fst (run_state (State_Monad.traverse_list f xs) n)) = map h xs"
  using assms by (induction xs arbitrary: n) (simp_all add: split_beta)

section \<open>Membership rows\<close>

lemma entityGroupId_inj [simp]: "entityGroupId e g = entityGroupId e' g' \<longleftrightarrow> e = e' \<and> g = g'"
proof
  assume "entityGroupId e g = entityGroupId e' g'"
  then have "dec_nat (length e) @ CHR ''_'' # (e @ g) = dec_nat (length e') @ CHR ''_'' # (e' @ g')"
    by (simp add: entityGroupId_def)
  from dec_prefix [OF this] show "e = e' \<and> g = g'" by auto
qed simp

text \<open>
  The id of a membership row is unambiguous: two pairs of an entity and a group have the same row exactly
  when they are the same pair, whatever strings the ids are. So sharing an entity into a group twice, on two
  devices, addresses one row, and no other pair can take it.
\<close>

theorem entity_group_id_injective:
  "entityGroupId e g = entityGroupId e' g' \<longleftrightarrow> e = e' \<and> g = g'"
  by (rule entityGroupId_inj)

text \<open>
  An observer that applies the Updates of an Action one at a time sees, for one entity, the group of each live
  membership row. What it sees of an Update is its effect on membership rows.
\<close>

definition membership_effect :: "Update \<Rightarrow> (bool \<times> string \<times> update_method \<times> json option \<times> json option)" where
  "membership_effect u = (subject_type u = ''entityGroup'', subject_id u, upd_method u, fieldValue u ''entity_id'', fieldValue u ''group_id'')"

definition observe_effect :: "string \<Rightarrow> bool \<times> string \<times> update_method \<times> json option \<times> json option \<Rightarrow>
    (string \<rightharpoonup> string) \<Rightarrow> (string \<rightharpoonup> string)" where
  "observe_effect e eff rows = (case eff of (isRow, i, method, entityId, groupId) \<Rightarrow>
     if \<not> isRow then rows
     else if method = Delete then rows(i := None)
     else if entityId = Some (JStr e) then (case groupId of Some (JStr g) \<Rightarrow> rows(i \<mapsto> g) | _ \<Rightarrow> rows)
     else rows)"

definition observe :: "string \<Rightarrow> Update \<Rightarrow> (string \<rightharpoonup> string) \<Rightarrow> (string \<rightharpoonup> string)" where
  "observe e u = observe_effect e (membership_effect u)"

lemma observe_fold: "fold (observe e) us rows = fold (observe_effect e) (map membership_effect us) rows"
  by (induction us arbitrary: rows) (simp_all add: observe_def)

lemma put_effect [simp]:
  "membership_effect (buildEntityGroupUpdate m i g uid) = (True, m, Put, Some (JStr i), Some (JStr g))"
  by (simp add: membership_effect_def buildEntityGroupUpdate_def fieldValue_def)

lemma delete_effect [simp]: "membership_effect (buildEntityGroupDelete m uid) = (True, m, Delete, None, None)"
  by (simp add: membership_effect_def buildEntityGroupDelete_def fieldValue_def)

lemma edge_effect: "fst (membership_effect (buildRelationshipUpdate r s t f ty uid)) = False"
  by (simp add: membership_effect_def buildRelationshipUpdate_def split: option.split)

lemma memberships_effect:
  "map membership_effect (fst (run_state (buildEntityGroupUpdates i gs (updateId ctx)) n)) =
     map (\<lambda>g. (True, entityGroupId i g, Put, Some (JStr i), Some (JStr g))) gs"
  unfolding buildEntityGroupUpdates_def by (rule traverse_map) simp

lemma deletes_effect:
  "map membership_effect (fst (run_state (State_Monad.traverse_list (delete_membership ctx) ms) n)) =
     map (\<lambda>m. (True, fst m, Delete, None, None)) ms"
  by (rule traverse_map) (simp add: delete_membership_def)

text \<open>The Updates of a change: the puts, the documents' puts, the edges, the deletes, the documents' deletes.\<close>

lemma change_updates_effects:
  obtains F E where
    "map membership_effect (fst (run_state (change_updates ctx input) n)) =
       map (\<lambda>g. (True, entityGroupId (ch_entityId input) g, Put, Some (JStr (ch_entityId input)), Some (JStr g))) (ch_puts input) @
       F @ E @ map (\<lambda>m. (True, fst m, Delete, None, None)) (ch_removes input @ document_removals input)"
    "\<forall>eff \<in> set F. \<exists>d \<in> set (gp_documents (ch_generated input)). \<exists>g. eff =
       (True, entityGroupId (gdoc_id d) g, Put, Some (JStr (gdoc_id d)), Some (JStr g))"
    "\<forall>eff \<in> set E. \<not> fst eff"
proof -
  let ?puts = "\<lambda>i gs. map (\<lambda>g. (True, entityGroupId i g, Put, Some (JStr i), Some (JStr g))) gs"
  let ?held = "\<lambda>d. filter (\<lambda>g. g \<notin> snd ` set (gdoc_memberships d)) (ch_puts input)"
  obtain P Fs Es R U where parts: "fst (run_state (change_updates ctx input) n) = P @ concat Fs @ Es @ R @ U"
    and P: "map membership_effect P = ?puts (ch_entityId input) (ch_puts input)"
    and Fs: "map (map membership_effect) Fs = map (\<lambda>d. ?puts (gdoc_id d) (?held d)) (gp_documents (ch_generated input))"
    and Es: "set (map (fst \<circ> membership_effect) Es) \<subseteq> {False}"
    and RU: "map membership_effect (R @ U) = map (\<lambda>m. (True, fst m, Delete, None, None)) (ch_removes input @ document_removals input)"
  proof -
    have F: "map (map membership_effect) (fst (run_state (State_Monad.traverse_list (file_document ctx (ch_puts input)) ds) k)) =
        map (\<lambda>d. ?puts (gdoc_id d) (?held d)) ds" for ds k
      by (rule traverse_map) (simp add: file_document_def memberships_effect)
    have "map (fst \<circ> membership_effect) (fst (run_state (State_Monad.traverse_list (reemit_edge ctx) es) k)) = map (\<lambda>_. False) es" for es k
      by (rule traverse_map) (simp add: reemit_edge_def edge_effect)
    then have E: "set (map (fst \<circ> membership_effect) (fst (run_state (State_Monad.traverse_list (reemit_edge ctx) es) k))) \<subseteq> {False}" for es k
      by (metis (no_types, lifting) image_subsetI list.set_map singletonI)
    show thesis
      by (rule that, (simp add: change_updates_def split_beta) [1], simp_all add: memberships_effect deletes_effect F E [simplified])
  qed
  show thesis
  proof (rule that)
    show "map membership_effect (fst (run_state (change_updates ctx input) n)) =
        ?puts (ch_entityId input) (ch_puts input) @ concat (map (map membership_effect) Fs) @ map membership_effect Es @
        map (\<lambda>m. (True, fst m, Delete, None, None)) (ch_removes input @ document_removals input)"
      using RU by (simp add: parts P map_concat)
    show "\<forall>eff \<in> set (concat (map (map membership_effect) Fs)). \<exists>d \<in> set (gp_documents (ch_generated input)). \<exists>g. eff =
        (True, entityGroupId (gdoc_id d) g, Put, Some (JStr (gdoc_id d)), Some (JStr g))"
      unfolding Fs by auto
    show "\<forall>eff \<in> set (map membership_effect Es). \<not> fst eff"
      using Es by (auto simp: image_subset_iff)
  qed
qed

text \<open>The rows while the entity's own puts are applied, and after some rows are deleted.\<close>

definition rows_with :: "string \<Rightarrow> string list \<Rightarrow> (string \<rightharpoonup> string) \<Rightarrow> (string \<rightharpoonup> string)" where
  "rows_with e gs rows = rows ++ map_of (map (\<lambda>g. (entityGroupId e g, g)) gs)"

lemma rows_with_get:
  "rows_with e gs rows k = (if k \<in> entityGroupId e ` set gs then Some (THE g. k = entityGroupId e g) else rows k)"
  unfolding rows_with_def
  by (induction gs) (auto simp: map_add_def map_of_eq_None_iff split: option.splits)

lemma rows_with_put [simp]: "g \<in> set gs \<Longrightarrow> rows_with e gs rows (entityGroupId e g) = Some g"
  by (simp add: rows_with_get)

lemma rows_with_keeps:
  assumes "rows k = Some g" "\<And>h. h \<in> set gs \<Longrightarrow> rows (entityGroupId e h) \<in> {None, Some h}"
  shows "rows_with e gs rows k = Some g"
proof (cases "k \<in> entityGroupId e ` set gs")
  case True
  then obtain h where "h \<in> set gs" "k = entityGroupId e h" by blast
  with assms(1) assms(2) [of h] show ?thesis by simp
qed (use assms(1) in \<open>simp add: rows_with_get\<close>)

lemma observe_put [simp]: "observe_effect e (True, i, Put, Some (JStr e), Some (JStr g)) rows = rows(i \<mapsto> g)"
  by (simp add: observe_effect_def)

lemma puts_fold:
  "fold (observe_effect e) (map (\<lambda>g. (True, entityGroupId e g, Put, Some (JStr e), Some (JStr g))) gs) rows = rows_with e gs rows"
proof (induction gs arbitrary: rows)
  case Nil
  then show ?case by (simp add: rows_with_def)
next
  case (Cons g gs)
  have "rows_with e gs (rows(entityGroupId e g \<mapsto> g)) = rows_with e (g # gs) rows"
    by (rule ext) (auto simp: rows_with_get)
  with Cons [of "rows(entityGroupId e g \<mapsto> g)"] show ?case by (simp only: list.map fold_simps observe_put)
qed

lemma deletes_fold:
  "fold (observe_effect e) (map (\<lambda>m. (True, fst m, Delete, None, None)) ms) rows = rows |` (- fst ` set ms)"
  by (induction ms arbitrary: rows) (auto simp: observe_effect_def restrict_map_def fun_eq_iff)

lemma neutral_fold:
  assumes "\<And>eff rows. eff \<in> set effs \<Longrightarrow> observe_effect e eff rows = rows"
  shows "fold (observe_effect e) effs rows = rows"
  using assms by (induction effs) simp_all

lemma resulting_set:
  "set (resultingGroups cur delta) =
     (set cur \<union> set (md_puts delta)) - (set (md_removedGroups delta) - set (md_puts delta))"
proof -
  have "set (fold (\<lambda>g s. set_remove s g) xs s) = set s - set xs" for xs s :: "string list"
    by (induction xs arbitrary: s) (auto simp: set_remove_set)
  then show ?thesis by (auto simp: resultingGroups_def Let_def sortedUnique_def)
qed

text \<open>
  The caller's view of the entity is current: its groups are those of the live rows, the rows it removes are live
  rows with the group it names, the canonical row of an added group is free or has that group, and the rows of
  the generated documents are other rows.
\<close>

definition view_current :: "ChangeGroupsInput \<Rightarrow> (string \<rightharpoonup> string) \<Rightarrow> bool" where
  "view_current input rows \<longleftrightarrow>
     map_option set (ch_currentGroups input) = Some (ran rows) \<and>
     (\<forall>m g. (m, g) \<in> set (ch_removes input) \<longrightarrow> rows m = Some g) \<and>
     (\<forall>g \<in> set (ch_puts input). rows (entityGroupId (ch_entityId input) g) \<in> {None, Some g}) \<and>
     (\<forall>d \<in> set (gp_documents (ch_generated input)). gdoc_id d \<noteq> ch_entityId input \<and>
        (\<forall>m \<in> fst ` set (gdoc_memberships d). rows m = None \<and> m \<notin> entityGroupId (ch_entityId input) ` set (ch_puts input)))"

lemma view_currentD:
  assumes "view_current input rows"
  shows "(m, g) \<in> set (ch_removes input) \<Longrightarrow> rows m = Some g"
    and "g \<in> set (ch_puts input) \<Longrightarrow> rows (entityGroupId (ch_entityId input) g) \<in> {None, Some g}"
    and "d \<in> set (gp_documents (ch_generated input)) \<Longrightarrow> gdoc_id d \<noteq> ch_entityId input"
    and "d \<in> set (gp_documents (ch_generated input)) \<Longrightarrow> m \<in> fst ` set (gdoc_memberships d) \<Longrightarrow>
      rows m = None \<and> m \<notin> entityGroupId (ch_entityId input) ` set (ch_puts input)"
proof -
  from assms have "\<forall>m g. (m, g) \<in> set (ch_removes input) \<longrightarrow> rows m = Some g"
    and "\<forall>g \<in> set (ch_puts input). rows (entityGroupId (ch_entityId input) g) \<in> {None, Some g}"
    and "\<forall>d \<in> set (gp_documents (ch_generated input)). gdoc_id d \<noteq> ch_entityId input \<and>
      (\<forall>m \<in> fst ` set (gdoc_memberships d). rows m = None \<and> m \<notin> entityGroupId (ch_entityId input) ` set (ch_puts input))"
    unfolding view_current_def by argo+
  then show "(m, g) \<in> set (ch_removes input) \<Longrightarrow> rows m = Some g"
    and "g \<in> set (ch_puts input) \<Longrightarrow> rows (entityGroupId (ch_entityId input) g) \<in> {None, Some g}"
    and "d \<in> set (gp_documents (ch_generated input)) \<Longrightarrow> gdoc_id d \<noteq> ch_entityId input"
    and "d \<in> set (gp_documents (ch_generated input)) \<Longrightarrow> m \<in> fst ` set (gdoc_memberships d) \<Longrightarrow>
      rows m = None \<and> m \<notin> entityGroupId (ch_entityId input) ` set (ch_puts input)"
    by metis+
qed

lemma survivors_kept:
  assumes cur: "view_current input rows" and sep: "set (ch_puts input) \<inter> snd ` set (ch_removes input) = {}"
    and g: "g \<in> ran rows \<union> set (ch_puts input)" "g \<notin> snd ` set (ch_removes input)"
    and ms: "set ms \<subseteq> set (ch_removes input @ document_removals input)"
  shows "g \<in> ran (rows_with (ch_entityId input) (ch_puts input) rows |` (- fst ` set ms))"
proof -
  let ?e = "ch_entityId input"
  have doc: "rows m = None \<and> m \<notin> entityGroupId ?e ` set (ch_puts input)" if "m \<in> fst ` set (document_removals input)" for m
  proof -
    from that obtain d where "d \<in> set (gp_documents (ch_generated input))" "m \<in> fst ` set (gdoc_memberships d)"
      by (auto simp: document_removals_def)
    then show ?thesis by (rule view_currentD(4) [OF cur])
  qed
  have gone: "m \<in> fst ` set (ch_removes input) \<Longrightarrow> rows m = Some h \<Longrightarrow> h \<in> snd ` set (ch_removes input)" for m h
    using view_currentD(1) [OF cur] by force
  obtain k where k: "rows_with ?e (ch_puts input) rows k = Some g"
    "k \<notin> fst ` set (ch_removes input)" "k \<notin> fst ` set (document_removals input)"
  proof (cases "g \<in> set (ch_puts input)")
    case True
    then have "entityGroupId ?e g \<notin> fst ` set (ch_removes input)"
      using view_currentD(2) [OF cur True] view_currentD(1) [OF cur] g(2) by force
    with True doc show thesis by (intro that [of "entityGroupId ?e g"]) auto
  next
    case False
    with g obtain k where "rows k = Some g" by (auto simp: ran_def)
    moreover from this gone g(2) have "k \<notin> fst ` set (ch_removes input)" by blast
    moreover from \<open>rows k = Some g\<close> doc have "k \<notin> fst ` set (document_removals input)" by force
    ultimately show thesis
      by (intro that [of k] rows_with_keeps view_currentD(2) [OF cur])
  qed
  with ms have "k \<notin> fst ` set ms" by fastforce
  with k(1) show ?thesis by (auto simp: ran_def restrict_map_def)
qed

text \<open>
  C16: A change of an entity's groups never leaves it without a group, not even between two Updates of the Action:
  if the operation succeeds on a current view in which the entity has a group, and no group is both added and
  removed, then after every prefix of the Updates the entity has a live membership row, and in the end a row for
  every group the last-membership check counts on.
\<close>

theorem change_groups_never_orphans:
  assumes "view_current input rows" and "ch_currentGroups input = Some cur" and "cur \<noteq> []"
    and "set (ch_puts input) \<inter> snd ` set (ch_removes input) = {}"
    and "fst (run_state (changeGroups ctx input) n) = Inr r"
  shows "ran (fold (observe (ch_entityId input)) (take k (or_updates r)) rows) \<noteq> {} \<and>
    set (resultingGroups cur \<lparr>md_puts = ch_puts input, md_removedGroups = map snd (ch_removes input)\<rparr>) \<subseteq>
      ran (fold (observe (ch_entityId input)) (or_updates r) rows)"
proof -
  let ?e = "ch_entityId input"
  let ?del = "map (\<lambda>m. (True, fst m, Delete, None, None))" and ?ms = "ch_removes input @ document_removals input"
  let ?puts = "map (\<lambda>g. (True, entityGroupId ?e g, Put, Some (JStr ?e), Some (JStr g)))"
  let ?result = "resultingGroups cur \<lparr>md_puts = ch_puts input, md_removedGroups = map snd (ch_removes input)\<rparr>"
  from assms(2,3,5) have r: "or_updates r = fst (run_state (change_updates ctx input) n)" and nonempty: "?result \<noteq> []"
    by (auto simp: changeGroups_def split_beta lastMembershipViolation_def Let_def split: if_splits option.splits)
  obtain F E where effs: "map membership_effect (or_updates r) = ?puts (ch_puts input) @ F @ E @ ?del ?ms"
    and F: "\<forall>eff \<in> set F. \<exists>d \<in> set (gp_documents (ch_generated input)). \<exists>g. eff =
       (True, entityGroupId (gdoc_id d) g, Put, Some (JStr (gdoc_id d)), Some (JStr g))"
    and E: "\<forall>eff \<in> set E. \<not> fst eff"
    unfolding r by (rule change_updates_effects [of ctx input n])
  have neutral: "observe_effect ?e eff x = x" if "eff \<in> set (F @ E)" for eff x
  proof (cases "eff \<in> set E")
    case True
    with E show ?thesis by (auto simp: observe_effect_def split: prod.split)
  next
    case False
    with that F obtain d g where "d \<in> set (gp_documents (ch_generated input))"
      "eff = (True, entityGroupId (gdoc_id d) g, Put, Some (JStr (gdoc_id d)), Some (JStr g))" by auto
    with view_currentD(3) [OF assms(1)] show ?thesis by (simp add: observe_effect_def)
  qed
  have ran: "ran rows = set cur" using assms(1,2) by (simp add: view_current_def)
  have kept: "set ?result \<subseteq> ran (rows_with ?e (ch_puts input) rows |` (- fst ` set ms))" if "set ms \<subseteq> set ?ms" for ms
  proof
    fix x assume "x \<in> set ?result"
    with assms(4) have "x \<in> ran rows \<union> set (ch_puts input)" "x \<notin> snd ` set (ch_removes input)"
      unfolding resulting_set ran by auto
    with that show "x \<in> ran (rows_with ?e (ch_puts input) rows |` (- fst ` set ms))"
      by (intro survivors_kept [OF assms(1,4)])
  qed
  have "ran (fold (observe_effect ?e) (take k (?puts (ch_puts input) @ F @ E @ ?del ?ms)) rows) \<noteq> {}"
  proof (cases "k \<le> length (ch_puts input)")
    case True
    from ran assms(3) have "ran rows \<noteq> {}" by simp
    then obtain g m where g: "rows m = Some g" by (auto simp: ran_def)
    have "rows_with ?e (take k (ch_puts input)) rows m = Some g"
      by (rule rows_with_keeps [OF g view_currentD(2) [OF assms(1)]]) (rule in_set_takeD)
    with True show ?thesis by (auto simp: take_map puts_fold ran_def)
  next
    case False
    let ?j = "k - length (ch_puts input) - length F - length E"
    have "fold (observe_effect ?e) (take k (?puts (ch_puts input) @ F @ E @ ?del ?ms)) rows =
        rows_with ?e (ch_puts input) rows |` (- fst ` set (take ?j ?ms))"
    proof -
      have "take k (?puts (ch_puts input) @ F @ E @ ?del ?ms) = ?puts (ch_puts input) @
          (take (k - length (ch_puts input)) F @ take (k - length (ch_puts input) - length F) E) @ ?del (take ?j ?ms)"
        using False by (simp add: take_map)
      moreover have "fold (observe_effect ?e) (take a F @ take b E) x = x" for a b x
        by (rule neutral_fold) (use neutral in \<open>auto dest!: in_set_takeD\<close>)
      ultimately show ?thesis by (simp add: puts_fold deletes_fold image_Un)
    qed
    with kept [OF set_take_subset [of ?j]] nonempty show ?thesis by (auto simp del: take_append)
  qed
  moreover have "fold (observe_effect ?e) (?puts (ch_puts input) @ F @ E @ ?del ?ms) rows = rows_with ?e (ch_puts input) rows |` (- fst ` set ?ms)"
    using neutral_fold [of "F @ E" ?e] neutral by (simp add: puts_fold deletes_fold image_Un)
  ultimately show ?thesis
    using kept [of ?ms] by (simp add: observe_fold take_map [symmetric] effs)
qed

definition sample_ids :: OperationIds where
  "sample_ids = \<lparr>oi_updateId = (\<lambda>n. ''u_'' @ dec_nat n), oi_hlc = (\<lambda>n. int n + 1), oi_newId = (\<lambda>n prefix. prefix @ ''_'' @ dec_nat n)\<rparr>"

definition sample_change :: "string list \<Rightarrow> (string \<times> string) list \<Rightarrow> ChangeGroupsInput" where
  "sample_change puts removes = \<lparr>ch_entity = ''todo'', ch_entityId = ''e_1'', ch_puts = puts, ch_removes = removes,
     ch_currentGroups = Some [''g_a''], ch_generated = NO_GENERATED_PARTS\<rparr>"

lemma sample_change_run:
  "fst (run_state (changeGroups \<lparr>oc_registry = empty_registry, oc_ids = sample_ids, oc_actorId = ''a''\<rparr> (sample_change [''g_b''] [(''m_1'', ''g_a'')])) 0) =
     Inr \<lparr>or_updates = [buildEntityGroupUpdate (entityGroupId ''e_1'' ''g_b'') ''e_1'' ''g_b'' ''u_0'', buildEntityGroupDelete ''m_1'' ''u_1''],
       or_groups = [''g_a'', ''g_b''], or_subject = Some (''e_1'', ''todo'')\<rparr>"
  by code_simp

theorem change_groups_never_orphans_witness:
  "ran (fold (observe ''e_1'') (take 1 [buildEntityGroupUpdate (entityGroupId ''e_1'' ''g_b'') ''e_1'' ''g_b'' ''u_0'', buildEntityGroupDelete ''m_1'' ''u_1''])
     [''m_1'' \<mapsto> ''g_a'']) \<noteq> {}"
  using change_groups_never_orphans [of "sample_change [''g_b''] [(''m_1'', ''g_a'')]" "[''m_1'' \<mapsto> ''g_a'']" "[''g_a'']", OF _ _ _ _ sample_change_run, of 1]
  by (simp add: sample_change_def view_current_def NO_GENERATED_PARTS_def entityGroupId_def)

text \<open>
  The side condition is needed. The check counts a group that is removed and added again as kept, but the
  operation puts the row and then deletes it: an entity whose only group is removed and re-added under the
  canonical row id passes the check and ends without any membership row.
\<close>

lemma readded_group_orphans:
  "\<exists>r. fst (run_state (changeGroups \<lparr>oc_registry = empty_registry, oc_ids = sample_ids, oc_actorId = ''a''\<rparr>
       (sample_change [''g_a''] [(entityGroupId ''e_1'' ''g_a'', ''g_a'')])) 0) = Inr r \<and>
     fold (observe ''e_1'') (or_updates r) [entityGroupId ''e_1'' ''g_a'' \<mapsto> ''g_a''] = Map.empty"
proof -
  have run: "fst (run_state (changeGroups \<lparr>oc_registry = empty_registry, oc_ids = sample_ids, oc_actorId = ''a''\<rparr>
       (sample_change [''g_a''] [(entityGroupId ''e_1'' ''g_a'', ''g_a'')])) 0) =
     Inr \<lparr>or_updates = [buildEntityGroupUpdate (entityGroupId ''e_1'' ''g_a'') ''e_1'' ''g_a'' ''u_0'',
         buildEntityGroupDelete (entityGroupId ''e_1'' ''g_a'') ''u_1''], or_groups = [''g_a''], or_subject = Some (''e_1'', ''todo'')\<rparr>"
    by code_simp
  have "fold (observe ''e_1'') [buildEntityGroupUpdate (entityGroupId ''e_1'' ''g_a'') ''e_1'' ''g_a'' ''u_0'',
      buildEntityGroupDelete (entityGroupId ''e_1'' ''g_a'') ''u_1''] [entityGroupId ''e_1'' ''g_a'' \<mapsto> ''g_a''] = Map.empty"
    by (simp add: observe_def observe_effect_def fun_eq_iff)
  with run show ?thesis by (metis OperationResult.select_convs(1))
qed

section \<open>Setting the links of a relationship\<close>

definition edge_target :: "Update \<Rightarrow> string option" where
  "edge_target u = (if subject_type u = ''relationship'' \<and> upd_method u = Put then asString (fieldValue u ''target_id'') else None)"

lemma edge_target_put [simp]: "edge_target (buildRelationshipUpdate i s (Some t) f ty uid) = Some t"
  by (simp add: edge_target_def buildRelationshipUpdate_def fieldValue_def asString_def)

lemma normalize_id [simp]: "i \<noteq> [] \<Longrightarrow> normalizePointer (PStr i) label = Inr (Some i)"
  by (simp add: normalizePointer_def)

lemma link_each_targets:
  assumes "[] \<notin> set is"
  shows "\<exists>us. fst (run_state (link_each ctx s a ty label (map PStr is)) n) = Inr us \<and> map edge_target us = map Some is"
  using assms
proof (induction "is" arbitrary: n)
  case (Cons i "is")
  then obtain us where "fst (run_state (link_each ctx s a ty label (map PStr is)) (Suc (Suc n))) = Inr us" "map edge_target us = map Some is"
    by (metis list.set_intros(2))
  moreover from Cons.prems have "i \<noteq> []" by auto
  ultimately show ?case by (simp add: makeManyRelationshipUpdate_def split_beta)
qed simp

lemma collect_ids: "collectManyTargetIds (AddRemove (map PStr add) (map PStr remove)) = unique (add @ remove)"
  by (simp add: collectManyTargetIds_def pointer_target_def filter_map o_def)

text \<open>
  C39: Setting links by a patch links what it should unlink. For a many-cardinality relationship, a write with the lists
  \<^verbatim>\<open>add\<close> and \<^verbatim>\<open>remove\<close> emits the foreign-key set of both lists together, as if the removed targets were added, and
  puts one live edge to each target of either list; none is deleted.
\<close>

theorem set_links_links_removed:
  assumes "requireRelationship (oc_registry ctx) (wr_entity input) (wr_as input) = Inr rel"
    and "rd_sourceCardinality rel = Many" and "reg_has (oc_registry ctx) (wr_entity input)"
    and "wr_targetIds input = Some (AddRemove (map PStr add) (map PStr remove))" and "[] \<notin> set (add @ remove)"
  shows "\<exists>r fk edges. fst (run_state (writeRelationship ctx input) n) = Inr r \<and> or_updates r = fk # edges \<and>
    fieldValue fk (wr_as input) = Some (JArr (map JStr (unique (add @ remove)))) \<and>
    map edge_target edges = map Some (add @ remove)"
proof -
  have rel: "getRelationship (oc_registry ctx) (wr_entity input) (wr_as input) = Some rel"
    using assms(1) by (auto simp: requireRelationship_def split: if_splits option.splits)
  let ?ty = "wireTypeFor (oc_registry ctx) (wr_entity input) (wr_as input)"
  let ?run = "\<lambda>label is k. run_state (link_each ctx (wr_sourceId input) (wr_as input) ?ty label (map PStr is)) k"
  obtain us where us: "fst (?run (''targetIds.add for '' @ quoted (wr_as input)) add (Suc (Suc n))) = Inr us" "map edge_target us = map Some add"
    using link_each_targets [of add] assms(5) by fastforce
  define k where "k = snd (?run (''targetIds.add for '' @ quoted (wr_as input)) add (Suc (Suc n)))"
  obtain vs where vs: "fst (?run (''targetIds.remove for '' @ quoted (wr_as input)) remove k) = Inr vs" "map edge_target vs = map Some remove"
    using link_each_targets [of remove] assms(5) by fastforce
  have run: "fst (run_state (writeRelationship ctx input) n) = Inr \<lparr>or_updates =
      buildManyEntityUpdate (wr_sourceId input) (wr_entity input) (wr_as input) (unique (add @ remove))
        (oi_updateId (oc_ids ctx) n) (oi_hlc (oc_ids ctx) (Suc n)) # us @ vs,
      or_groups = wr_groups input, or_subject = Some (wr_sourceId input, wr_entity input)\<rparr>"
    using us(1) vs(1) assms(2,3)
    by (simp add: writeRelationship_def assms(1,4) fk_update_def buildRelationshipWrite_def checkEntityRegistered_def
        resolveCardinality_def rel requireEntityUpdate_def many_edges_def collect_ids split_beta k_def buildManyEntityUpdate_def)
  show ?thesis
    unfolding run using us(2) vs(2) by (simp add: buildManyEntityUpdate_def fieldValue_def)
qed

definition sample_ctx_ops :: "unit OpContext" where
  "sample_ctx_ops = \<lparr>oc_registry = sample_registry, oc_ids = sample_ids, oc_actorId = ''a_1''\<rparr>"

definition sample_links :: WriteRelationshipInput where
  "sample_links = relationship_input ''todo'' ''e_1'' ''tags'' PUndefined (Some (AddRemove (map PStr []) (map PStr [''t_1'']))) None [''g'']"

theorem set_links_links_removed_witness:
  "\<exists>r fk edges. fst (run_state (writeRelationship sample_ctx_ops sample_links) 0) = Inr r \<and> or_updates r = fk # edges \<and>
    fieldValue fk ''tags'' = Some (JArr [JStr ''t_1'']) \<and> map edge_target edges = [Some ''t_1'']"
proof -
  have rel: "requireRelationship (oc_registry sample_ctx_ops) (wr_entity sample_links) (wr_as sample_links) = Inr (sample_relationship ''tags'' Many)"
    and has: "reg_has (oc_registry sample_ctx_ops) (wr_entity sample_links)" by code_simp+
  have "unique [''t_1''] = [''t_1'']" by code_simp
  then show ?thesis
    using set_links_links_removed [OF rel _ has, of "[]" "[''t_1'']" 0]
    by (simp add: sample_relationship_def) (simp add: sample_links_def relationship_input_def)
qed

end
