(* ===== verification/SurfaceProps.thy ===== *)
theory SurfaceProps
  imports WriteProps
begin

text \<open>
  The write surface of an invocation over any sequence of calls: what a read through the overlay shows,
  against the rows the committed Action makes of the host's, and how many Actions an invocation sends.
\<close>

section \<open>Runs\<close>

text \<open>
  The calls of a handler. \<open>Unrelated\<close> is an \<^verbatim>\<open>unrelate\<close> that needs no read, which runs in one piece; \<open>Resumed\<close> is
  the second piece of one that does, with the row it read.
\<close>

datatype surface_event =
    Created string "pvalue obj" "pvalue list option" "string option" bool
  | Updated string string "pvalue obj" bool
  | Removed string string
  | Related string string string pvalue
  | Unrelated string string string pvalue "string option"
  | Resumed string string string pvalue "string option" "EntityResponse option"
  | Committed

definition surface_step :: "'s TypeBox \<Rightarrow> (string \<Rightarrow> string) \<Rightarrow> 's SurfaceOptions \<Rightarrow> surface_event \<Rightarrow> WriteSurface \<Rightarrow>
    Action option \<times> WriteSurface" where
  "surface_step tb sha256hex options ev s = (case ev of
     Created entity flds groups explicit validate \<Rightarrow> (None, snd (surface_create tb options entity flds groups explicit validate s))
   | Updated entity i patch validate \<Rightarrow> (None, snd (surface_update tb options entity i patch validate s))
   | Removed entity i \<Rightarrow> (None, snd (surface_remove tb options entity i s))
   | Related entity i accessor targets \<Rightarrow> (None, snd (surface_relate tb options entity i accessor targets s))
   | Unrelated entity i accessor target relId \<Rightarrow> (None,
       if unrelate_start options entity accessor target s = Inr False
       then snd (unrelate_run tb options entity i accessor target relId None s) else s)
   | Resumed entity i accessor target relId view \<Rightarrow> (None, snd (unrelate_resume tb options entity i accessor target relId view s))
   | Committed \<Rightarrow> (case surface_commit sha256hex options s of
         (Inr (Some action), s') \<Rightarrow> (Some action, s') | (_, s') \<Rightarrow> (None, s')))"

text \<open>The Actions sent, in order, and the surface.\<close>

fun surface_run :: "'s TypeBox \<Rightarrow> (string \<Rightarrow> string) \<Rightarrow> 's SurfaceOptions \<Rightarrow> surface_event list \<Rightarrow> WriteSurface \<Rightarrow> Action list \<times> WriteSurface" where
  "surface_run tb sha256hex options [] s = ([], s)"
| "surface_run tb sha256hex options (ev # evs) s =
     (let (sent, s1) = surface_step tb sha256hex options ev s; (rest, s2) = surface_run tb sha256hex options evs s1
      in ((case sent of None \<Rightarrow> [] | Some action \<Rightarrow> [action]) @ rest, s2))"

section \<open>The buffer\<close>

lemma index_buffer [simp]:
  "ws_updates (indexWrite u s) = ws_updates s" "ws_updatesById (indexWrite u s) = ws_updatesById s"
  "ws_types (indexWrite u s) = ws_types s" "ws_sealed (indexWrite u s) = ws_sealed s"
  by (auto simp: indexWrite_def index_membership_def index_edge_def index_group_def index_member_def addGroup_def
      removeGroup_def markEdgeGone_def Let_def split: option.splits)

definition buffer_ok :: "WriteSurface \<Rightarrow> bool" where
  "buffer_ok s \<longleftrightarrow> (\<forall>i. getOr (ws_updatesById s i) [] = filter (\<lambda>u. subject_id u = i) (ws_updates s))"

lemma record_buffer_ok: "buffer_ok s \<Longrightarrow> buffer_ok (record_update u s)"
  by (auto simp: buffer_ok_def record_update_def getOr_def)

lemma record_batch_ok: "buffer_ok s \<Longrightarrow> buffer_ok (record_batch us s)"
  unfolding record_batch_def by (induction us arbitrary: s) (simp_all add: record_buffer_ok)

text \<open>Every verb keeps the buffer or records a batch, and only on a surface that is not sealed.\<close>

definition extends :: "WriteSurface \<Rightarrow> WriteSurface \<Rightarrow> bool" where
  "extends s s' \<longleftrightarrow> (\<exists>us n. s' = record_batch us (s\<lparr>ws_minted := n\<rparr>))"

lemma extends_refl [simp]: "extends s s"
  unfolding extends_def record_batch_def by (rule exI [of _ "[]"], rule exI [of _ "ws_minted s"]) simp

lemma extends_batch [simp]: "extends s (record_batch us (s\<lparr>ws_minted := n\<rparr>))"
  unfolding extends_def by blast

lemma extends_minted [simp]: "extends s (s\<lparr>ws_minted := n\<rparr>)"
  using extends_batch [of s "[]" n] by (simp add: record_batch_def)

lemma run_surface_extends: "extends s (snd (run_surface tb options reg entry s))"
  unfolding run_surface_def by (auto simp: Let_def split: option.split sum.split prod.split)

lemma mint_extends: "extends (snd (mint_surface options p s)) s' \<Longrightarrow> extends s s'"
  by (auto simp: mint_surface_def extends_def)

lemma void_snd [simp]: "snd (void r) = snd r"
  by (simp add: void_def)

lemma extends_ok: "extends s s' \<Longrightarrow> buffer_ok s \<Longrightarrow> buffer_ok s'"
  by (auto simp: extends_def intro!: record_batch_ok) (simp add: buffer_ok_def)

lemma record_batch_sealed: "ws_sealed (record_batch us s) = ws_sealed s"
  unfolding record_batch_def by (induction us arbitrary: s) (simp_all add: record_update_def)

lemma extends_sealed: "extends s s' \<Longrightarrow> ws_sealed s' = ws_sealed s"
  by (auto simp: extends_def record_batch_sealed)

lemma create_extends: "extends s (snd (surface_create tb options entity flds groups explicit validate s))"
proof -
  have "extends s s2" if "run_surface tb options reg entry (snd (mint_surface options p s)) = (x, s2)" for reg entry p x s2
    using mint_extends [OF run_surface_extends] that by (metis snd_conv)
  moreover have "extends s s2" if "run_surface tb options reg entry s = (x, s2)" for reg entry x s2
    using run_surface_extends that by (metis snd_conv)
  ultimately show ?thesis
    by (auto simp: surface_create_def Let_def split: sum.split option.split prod.split) (metis snd_conv)+
qed

lemma step_extends:
  assumes "ev \<noteq> Committed"
  shows "extends s (snd (surface_step tb sha256hex options ev s))"
  using assms
  by (cases ev) (auto simp: surface_step_def create_extends surface_update_def surface_remove_def surface_relate_def
      unrelate_run_def unrelate_resume_def run_surface_extends split: sum.split option.split)

lemma commit_step:
  "fst (surface_step tb sha256hex options Committed s) = None \<and> extends s (snd (surface_step tb sha256hex options Committed s)) \<or>
   (\<exists>action. surface_step tb sha256hex options Committed s = (Some action, s\<lparr>ws_minted := Suc (ws_minted s), ws_sealed := True,
        ws_updates := [], ws_updatesById := Map.empty\<rparr>) \<and> act_updates action = ws_updates s \<and> ws_updates s \<noteq> [] \<and>
      act_id action = actionIdForInvocation sha256hex (so_invocationId options))"
  by (auto simp: surface_step_def surface_commit_def Let_def commitAction_def)

section \<open>One invocation, one Action\<close>

fun resumed :: "surface_event \<Rightarrow> bool" where
  "resumed (Resumed entity i accessor target relId view) = True"
| "resumed _ = False"

lemma sealed_step:
  assumes "ws_sealed s" "ws_updates s = []" "\<not> resumed ev"
  shows "surface_step tb sha256hex options ev s = (None, s)"
proof (cases ev)
  case Committed
  with assms show ?thesis by (simp add: surface_step_def surface_commit_def)
qed (use assms in \<open>simp_all add: surface_step_def requireWritable_def surface_create_def surface_update_def surface_remove_def
       surface_relate_def unrelate_start_def sum_bind_def\<close>)

lemma sealed_run:
  assumes "ws_sealed s" "ws_updates s = []" "list_all (\<lambda>ev. \<not> resumed ev) evs"
  shows "surface_run tb sha256hex options evs s = ([], s)"
  using assms(3) by (induction evs) (simp_all add: sealed_step [OF assms(1,2)])

lemma one_action:
  assumes "list_all (\<lambda>ev. \<not> resumed ev) evs"
  shows "fst (surface_run tb sha256hex options evs s) = [] \<or>
    (\<exists>xs ys action. evs = xs @ Committed # ys \<and> fst (surface_run tb sha256hex options evs s) = [action] \<and>
      act_id action = actionIdForInvocation sha256hex (so_invocationId options) \<and>
      act_updates action = ws_updates (snd (surface_run tb sha256hex options xs s)))"
  using assms
proof (induction evs arbitrary: s)
  case Nil
  then show ?case by simp
next
  case (Cons ev evs)
  let ?s1 = "snd (surface_step tb sha256hex options ev s)"
  consider "fst (surface_step tb sha256hex options ev s) = None"
    | action where "ev = Committed" "surface_step tb sha256hex options ev s = (Some action, ?s1)" "ws_sealed ?s1" "ws_updates ?s1 = []"
        "act_updates action = ws_updates s" "act_id action = actionIdForInvocation sha256hex (so_invocationId options)"
    using commit_step [of tb sha256hex options s] by (cases ev) (auto simp: surface_step_def split: sum.splits option.splits prod.splits)
  then show ?case
  proof cases
    case 1
    then obtain s1 where s1: "surface_step tb sha256hex options ev s = (None, s1)" by (metis prod.collapse)
    from Cons.prems have "list_all (\<lambda>ev. \<not> resumed ev) evs" by simp
    from Cons.IH [OF this, of s1] show ?thesis
    proof
      assume "\<exists>xs ys action. evs = xs @ Committed # ys \<and> fst (surface_run tb sha256hex options evs s1) = [action] \<and>
          act_id action = actionIdForInvocation sha256hex (so_invocationId options) \<and>
          act_updates action = ws_updates (snd (surface_run tb sha256hex options xs s1))"
      then obtain xs ys action where "evs = xs @ Committed # ys" "fst (surface_run tb sha256hex options evs s1) = [action]"
        "act_id action = actionIdForInvocation sha256hex (so_invocationId options)"
        "act_updates action = ws_updates (snd (surface_run tb sha256hex options xs s1))" by blast
      then have "ev # evs = (ev # xs) @ Committed # ys \<and> fst (surface_run tb sha256hex options (ev # evs) s) = [action] \<and>
          act_id action = actionIdForInvocation sha256hex (so_invocationId options) \<and>
          act_updates action = ws_updates (snd (surface_run tb sha256hex options (ev # xs) s))" by (simp add: s1 split_beta)
      then show ?thesis by blast
    qed (simp_all add: s1 split_beta)
  next
    case 2
    obtain s1 where s1: "?s1 = s1" by simp
    from 2(2) have step: "surface_step tb sha256hex options ev s = (Some action, s1)" by (simp add: s1)
    from sealed_run [OF 2(3,4), of evs tb sha256hex options] Cons.prems
    have "fst (surface_run tb sha256hex options (ev # evs) s) = [action]" by (simp add: step s1)
    moreover from 2(1) have "ev # evs = [] @ Committed # evs" by simp
    ultimately show ?thesis using 2(5,6) by (metis surface_run.simps(1) snd_conv)
  qed
qed


section \<open>A sample invocation\<close>

definition sample_options :: "unit SurfaceOptions" where
  "sample_options = \<lparr>so_invocationId = ''inv'', so_actorId = ''a_1'', so_ids = sample_ids, so_registry = Some sample_registry\<rparr>"

definition sample_view :: EntityResponse where
  "sample_view = \<lparr>es_id = ''e_1'', es_type = ''todo'', es_fields = [(''tags'', Leaf (JArr [JStr ''t_1'', JStr ''t_2'']) ''u'' (Some 1))],
     es_created_hlc = Some 1, es_updated_hlc = Some 1, es_last_gsn = 4\<rparr>"



section \<open>Reading through the overlay\<close>

text \<open>
  The row the storage makes of a row of the host and some Updates, and its fields while it is live. A row as
  published is a plain row.
\<close>

definition published_row :: "EntityResponse \<Rightarrow> Entity" where
  "published_row r = \<lparr>ent_id = es_id r, ent_type = es_type r, ent_fields = plainFields (es_fields r),
     created_hlc = hlcOr0 (es_created_hlc r), updated_hlc = hlcOr0 (es_updated_hlc r), deleted_hlc = None, last_gsn = es_last_gsn r\<rparr>"

definition stored :: "int \<Rightarrow> hlc \<Rightarrow> Update list \<Rightarrow> Entity option \<Rightarrow> Entity option" where
  "stored gsn h us row = fold (\<lambda>u row. applyUpdate False row u gsn h) us row"

definition live_fields :: "Entity option \<Rightarrow> resident obj option" where
  "live_fields row = Option.bind row (\<lambda>r. if deleted_hlc r = None then Some (ent_fields r) else None)"

text \<open>No patch follows a delete of the row unless a put comes between; \<open>d\<close> tells whether it is deleted.\<close>

fun patches_live :: "bool \<Rightarrow> Update list \<Rightarrow> bool" where
  "patches_live d [] = True"
| "patches_live d (u # us) = (case upd_method u of
     Put \<Rightarrow> patches_live False us | Delete \<Rightarrow> patches_live True us | Patch \<Rightarrow> \<not> d \<and> patches_live d us)"

lemma plainFields_get: "map_of (plainFields m) k = map_option Plain (map_of m k)"
  by (induction m) (auto simp: plainFields_def)

lemma plainFields_set: "obj_set (plainFields m) k (Plain v) = plainFields (obj_set m k v)"
  by (induction m) (auto simp: plainFields_def)

text \<open>The overlay's merge of a patch is the storage's.\<close>

lemma merge_step_plain:
  "(let previous = map_of (plainFields m) k; next' = mergeValue False previous v
    in if previous = Some next' then plainFields m else obj_set (plainFields m) k next') =
   plainFields (obj_set m k (mergeFieldValue (map_of m k) v))"
proof -
  have "mergeValue False (map_of (plainFields m) k) v = Plain (mergeFieldValue (map_of m k) v)"
    by (simp add: mergeValue_def plainFields_get wireValue_def option.map_comp o_def option.map_ident)
  then show ?thesis
    by (simp add: plainFields_set obj_set_same plainFields_get)
qed

lemma overlay_merge_plain:
  assumes "obj_ok (readFields u)"
  shows "mergeFields False (plainFields base) u = plainFields (overlay_merge base (readFields u))"
proof -
  have "fold (\<lambda>(field, patchValue) merged. let previous = map_of merged field; next' = mergeValue False previous patchValue
          in if previous = Some next' then merged else obj_set merged field next') es (plainFields acc) =
      plainFields (fold (\<lambda>(key, v) merged. obj_set merged key (mergeFieldValue (map_of base key) v)) es acc)"
    if "obj_ok es" "\<And>k. k \<in> set (obj_keys es) \<Longrightarrow> map_of acc k = map_of base k" for es acc
    using that
  proof (induction es arbitrary: acc)
    case Nil
    then show ?case by simp
  next
    case (Cons e es)
    obtain k v where e: "e = (k, v)" by (cases e)
    from Cons.prems(2) [of k] have get: "map_of acc k = map_of base k" by (simp add: e)
    from Cons.prems(1) have fresh: "k \<notin> set (obj_keys es)" and ok: "obj_ok es" by (simp_all add: e obj_ok_def)
    let ?acc = "obj_set acc k (mergeFieldValue (map_of base k) v)"
    have "map_of ?acc x = map_of base x" if "x \<in> set (obj_keys es)" for x
      using that fresh Cons.prems(2) [of x] by (auto simp: e obj_set_get)
    from Cons.IH [OF ok this] show ?case
      by (simp add: e merge_step_plain [unfolded Let_def] get Let_def)
  qed
  from this [OF assms, of base] show ?thesis by (simp add: mergeFields_def overlay_merge_def)
qed

text \<open>The overlay's row and the stored row correspond, step by step.\<close>

definition corresponds :: "OverlayRow \<Rightarrow> Entity option \<Rightarrow> bool" where
  "corresponds row e \<longleftrightarrow> live_fields e = map_option plainFields (ov_fields row)"

lemma put_corresponds: "upd_method u = Put \<Longrightarrow> corresponds (overlay_step u row) (applyUpdate False e u gsn h)"
  by (auto simp: corresponds_def overlay_step_def applyUpdate_def live_fields_def Let_def split: option.split)

lemma step_corresponds:
  assumes "corresponds row e" "obj_ok (readFields u)" "upd_method u = Patch \<Longrightarrow> ov_fields row \<noteq> None"
  shows "corresponds (overlay_step u row) (applyUpdate False e u gsn h)"
proof (cases "upd_method u")
  case Put
  then show ?thesis by (rule put_corresponds)
next
  case Patch
  with assms(3) obtain base where base: "ov_fields row = Some base" by blast
  with assms(1) obtain r where r: "e = Some r" "deleted_hlc r = None" "ent_fields r = plainFields base"
    by (auto simp: corresponds_def live_fields_def split: bind_splits if_splits)
  with Patch base assms(2) show ?thesis
    by (auto simp: corresponds_def overlay_step_def applyUpdate_def live_fields_def Let_def overlay_merge_plain getOr_def split: option.split)
next
  case Delete
  then show ?thesis
    by (auto simp: corresponds_def overlay_step_def applyUpdate_def live_fields_def split: option.split)
qed

lemma fold_corresponds:
  assumes "corresponds row e" "patches_live (ov_fields row = None) us" "\<forall>u \<in> set us. obj_ok (readFields u)"
  shows "corresponds (fold overlay_step us row) (stored gsn h us e)"
  using assms
proof (induction us arbitrary: row e)
  case Nil
  then show ?case by (simp add: stored_def)
next
  case (Cons u us)
  have flds: "(ov_fields (overlay_step u row) = None) = (upd_method u = Delete)"
    by (auto simp: overlay_step_def Let_def split: option.split)
  from Cons.prems have "corresponds (overlay_step u row) (applyUpdate False e u gsn h)"
    by (intro step_corresponds) (auto split: update_method.splits)
  moreover from Cons.prems(2) have "patches_live (ov_fields (overlay_step u row) = None) us"
    unfolding flds by (cases "upd_method u") auto
  ultimately show ?case using Cons.IH Cons.prems(3) by (simp add: stored_def)
qed

lemma stored_None: "stored gsn h us None = None" if "\<not> list_ex (\<lambda>u. upd_method u = Put) us"
  using that unfolding stored_def
proof (induction us)
  case (Cons u us)
  then have "applyUpdate False None u gsn h = None" by (simp add: applyUpdate_None)
  with Cons show ?case by simp
qed simp

lemma patches_live_suffix: "patches_live d (xs @ u # us) \<Longrightarrow> upd_method u = Put \<Longrightarrow> patches_live False us"
  by (induction xs arbitrary: d) (auto split: update_method.splits)

lemma overlay_corresponds:
  assumes "us \<noteq> []" "patches_live False us" "\<forall>u \<in> set us. obj_ok (readFields u)"
  shows "map_option (plainFields \<circ> es_fields) (readOverlay us type host i) =
    live_fields (stored gsn h us (map_option published_row (host i)))"
proof (cases "list_ex (\<lambda>u. upd_method u = Put) us")
  case True
  then obtain xs u ys where us: "us = xs @ u # ys" and u: "upd_method u = Put"
    by (auto simp: list_ex_iff dest: split_list)
  let ?row = "fold overlay_step xs \<lparr>ov_fields = Some [], ov_created = None, ov_updated = None\<rparr>"
  have "corresponds (overlay_step u ?row) (applyUpdate False (stored gsn h xs (map_option published_row (host i))) u gsn h)"
    by (rule put_corresponds [OF u])
  moreover have "ov_fields (overlay_step u ?row) \<noteq> None" using u by (auto simp: overlay_step_def Let_def split: option.split)
  ultimately have "corresponds (fold overlay_step ys (overlay_step u ?row))
      (stored gsn h ys (applyUpdate False (stored gsn h xs (map_option published_row (host i))) u gsn h))"
    using assms(2,3) patches_live_suffix [OF _ u] by (intro fold_corresponds) (auto simp: us)
  with True show ?thesis
    by (simp add: readOverlay_def overlay_result_def corresponds_def us stored_def option.map_comp o_def)
next
  case False
  show ?thesis
  proof (cases "upd_method (last us) = Delete")
    case True
    have us: "us = butlast us @ [last us]" using assms(1) by simp
    have "live_fields (stored gsn h us e) = None" for e
      using True by (subst us) (auto simp: stored_def applyUpdate_def live_fields_def split: option.split)
    with True False assms(1) show ?thesis by (simp add: readOverlay_def)
  next
    case False': False
    show ?thesis
    proof (cases "host i")
      case None
      with False False' assms(1) show ?thesis by (simp add: readOverlay_def stored_None live_fields_def)
    next
      case (Some r)
      let ?row = "\<lparr>ov_fields = Some (es_fields r), ov_created = es_created_hlc r, ov_updated = es_updated_hlc r\<rparr>"
      have "corresponds ?row (Some (published_row r))" by (simp add: corresponds_def live_fields_def published_row_def)
      then have "corresponds (fold overlay_step us ?row) (stored gsn h us (Some (published_row r)))"
        using assms by (intro fold_corresponds) auto
      with Some False False' assms(1) show ?thesis
        by (simp add: readOverlay_def overlay_result_def corresponds_def option.map_comp o_def)
    qed
  qed
qed

lemma run_buffer_ok: "buffer_ok s \<Longrightarrow> buffer_ok (snd (surface_run tb sha256hex options evs s))"
proof (induction evs arbitrary: s)
  case (Cons ev evs)
  have "buffer_ok (snd (surface_step tb sha256hex options ev s))"
  proof (cases "ev = Committed")
    case True
    from commit_step [of tb sha256hex options s] Cons.prems show ?thesis
      by (auto simp: True buffer_ok_def getOr_def dest: extends_ok)
  next
    case False
    from extends_ok [OF step_extends [OF False]] Cons.prems show ?thesis .
  qed
  with Cons.IH show ?case by (simp add: split_beta)
qed simp

text \<open>
  C14: A handler that writes and then reads sees what its Action will store: after any sequence of calls, a read of a
  row the invocation wrote shows the fields of the row that the storage makes of the host's row and the buffered
  Updates, the ones the commit will send, and no row when that row is absent or deleted. It holds when no
  buffered patch of the row follows a delete of it.
\<close>

theorem overlay_shows_stored_row:
  assumes "s = snd (surface_run tb sha256hex options evs new_surface)"
    and "us = filter (\<lambda>u. subject_id u = i) (ws_updates s)" and "us \<noteq> []" and "i \<noteq> []"
    and "patches_live False us" and "\<forall>u \<in> set us. obj_ok (readFields u)"
  shows "\<exists>r. surface_read host s i = Inr r \<and>
    map_option (plainFields \<circ> es_fields) r = live_fields (stored gsn h us (map_option published_row (host i)))"
proof -
  have "buffer_ok new_surface" by (simp add: buffer_ok_def new_surface_def getOr_def)
  from run_buffer_ok [OF this, of tb sha256hex options evs] have "getOr (ws_updatesById s i) [] = us"
    by (simp add: assms(1,2) buffer_ok_def)
  with overlay_corresponds [OF assms(3,5,6)] assms(4) show ?thesis
    by (simp add: surface_read_def)
qed

lemma sample_title_update:
  "filter (\<lambda>u. subject_id u = ''e_1'') (ws_updates (snd (surface_run sample_tb id sample_options
     [Updated ''todo'' ''e_1'' [(''title'', PStr ''x'')] True] new_surface))) =
   [\<lparr>upd_id = ''u_1'', subject_id = ''e_1'', subject_type = ''todo'', upd_method = Patch,
     upd_data = Some [(''title'', Leaf (JStr ''x'') ''u_1'' (Some 1))]\<rparr>]"
  by code_simp

theorem overlay_shows_stored_row_witness:
  "\<exists>r. surface_read (\<lambda>_. Some sample_view) (snd (surface_run sample_tb id sample_options
       [Updated ''todo'' ''e_1'' [(''title'', PStr ''x'')] True] new_surface)) ''e_1'' = Inr r \<and>
     map_option (plainFields \<circ> es_fields) r =
       Some [(''tags'', Plain (Leaf (JArr [JStr ''t_1'', JStr ''t_2'']) ''u'' (Some 1))), (''title'', Plain (Leaf (JStr ''x'') ''u_1'' (Some 1)))]"
proof -
  have "live_fields (stored 5 9 [\<lparr>upd_id = ''u_1'', subject_id = ''e_1'', subject_type = ''todo'', upd_method = Patch,
        upd_data = Some [(''title'', Leaf (JStr ''x'') ''u_1'' (Some 1))]\<rparr>] (map_option published_row (Some sample_view))) =
      Some [(''tags'', Plain (Leaf (JArr [JStr ''t_1'', JStr ''t_2'']) ''u'' (Some 1))), (''title'', Plain (Leaf (JStr ''x'') ''u_1'' (Some 1)))]"
    by code_simp
  then show ?thesis
    using overlay_shows_stored_row [OF refl sample_title_update [symmetric], of "\<lambda>_. Some sample_view" 5 9]
    by (simp add: readFields_def getOr_def obj_ok_def)
qed

text \<open>
  The condition on deletes is needed. A handler that deletes a row and then updates it reads a live row with the
  patch in it, while the Action stores a deleted row: the storage ignores a patch of a deleted row, the overlay
  starts a new one.
\<close>

theorem update_after_delete_reads_live:
  "let s = snd (surface_run sample_tb id sample_options
       [Removed ''todo'' ''e_1'', Updated ''todo'' ''e_1'' [(''title'', PStr ''x'')] True] new_surface);
       us = filter (\<lambda>u. subject_id u = ''e_1'') (ws_updates s)
   in map_sum id (map_option es_fields) (surface_read (\<lambda>_. Some sample_view) s ''e_1'') =
        Inr (Some [(''title'', Leaf (JStr ''x'') ''u_2'' (Some 2))]) \<and>
      live_fields (stored 5 9 us (Some (published_row sample_view))) = None"
  by code_simp

section \<open>Where the code does not do what it means to\<close>

text \<open>
  A create cannot assert that a field is absent. The marker \<^verbatim>\<open>unset\<close> in a create verb is rebuilt key by key like any
  other object, and its only key is a symbol: the field is written as an empty object, a live value, where the same
  marker in an update is written as a tombstone.
\<close>

theorem create_verb_loses_unset:
  "map upd_data (ws_updates (snd (surface_run sample_tb id sample_options
       [Created ''todo'' [(''title'', PUnset)] (Some [PStr ''g'']) (Some ''e_2'') True] new_surface))) ! 0 =
     Some [(''title'', Leaf (JObj []) ''u_0'' (Some 2))] \<and>
   map upd_data (ws_updates (snd (surface_run sample_tb id sample_options
       [Updated ''todo'' ''e_2'' [(''title'', PUnset)] True] new_surface))) =
     [Some [(''title'', Leaf JNull ''u_1'' (Some 1))]]"
  by code_simp

text \<open>
  Deleting an edge that a newer one has replaced makes the surface forget the newer one: after two links of a
  one-cardinality relationship and an unlink of the first by its row id, a further unlink finds nothing to do, while
  the second link is live.
\<close>

lemma replaced_edge_forgotten:
  "let s = snd (surface_run sample_tb id sample_options
       [Related ''todo'' ''e_1'' ''parent'' (PStr ''p_1''), Related ''todo'' ''e_1'' ''parent'' (PStr ''p_2''),
        Unrelated ''todo'' ''e_1'' ''parent'' PUndefined (Some ''rel_1'')] new_surface)
   in map (\<lambda>u. (subject_id u, upd_method u)) (ws_updates s) = [(''rel_1'', Put), (''rel_3'', Put), (''rel_1'', Delete)] \<and>
      unrelate_run sample_tb sample_options ''todo'' ''e_1'' ''parent'' PUndefined None None s = (Inr (), s)"
proof -
  have "map (\<lambda>u. (subject_id u, upd_method u)) (ws_updates (snd (surface_run sample_tb id sample_options
       [Related ''todo'' ''e_1'' ''parent'' (PStr ''p_1''), Related ''todo'' ''e_1'' ''parent'' (PStr ''p_2''),
        Unrelated ''todo'' ''e_1'' ''parent'' PUndefined (Some ''rel_1'')] new_surface))) = [(''rel_1'', Put), (''rel_3'', Put), (''rel_1'', Delete)]"
    by code_simp
  moreover have "relationshipIdFor (snd (surface_run sample_tb id sample_options
       [Related ''todo'' ''e_1'' ''parent'' (PStr ''p_1''), Related ''todo'' ''e_1'' ''parent'' (PStr ''p_2''),
        Unrelated ''todo'' ''e_1'' ''parent'' PUndefined (Some ''rel_1'')] new_surface)) ''e_1'' ''parent'' ''todo'' = Some None"
    by code_simp
  moreover have "requireRelationship sample_registry ''todo'' ''parent'' = Inr (sample_relationship ''parent'' One)" by code_simp
  ultimately show ?thesis
    by (simp add: Let_def unrelate_run_def sample_options_def operationCallFor_def unrelate_call_def sum_bind_def
        sample_relationship_def run_surface_def void_def)
qed

end
