(* ===== verification/CreateProps.thy ===== *)
theory CreateProps
  imports WriteProps
begin

text \<open>
  The Action that creates an entity, against the registry: the Updates of a create, and that the validation of the
  schema they were built under accepts them.
\<close>

section \<open>The Updates of a create\<close>

lemma traverse_set:
  "x \<in> set (fst (run_state (State_Monad.traverse_list f ys) n)) \<Longrightarrow> \<exists>y \<in> set ys. \<exists>k. x = fst (run_state (f y) k)"
  by (induction ys arbitrary: n) (auto simp: split_beta)

lemma traverse_each:
  "y \<in> set ys \<Longrightarrow> \<exists>k. fst (run_state (f y) k) \<in> set (fst (run_state (State_Monad.traverse_list f ys) n))"
  by (induction ys arbitrary: n) (auto simp: split_beta)

lemma memberships_set:
  "u \<in> set (fst (run_state (buildEntityGroupUpdates i gs (updateId ctx)) n)) \<Longrightarrow>
     \<exists>g \<in> set gs. \<exists>uid. u = buildEntityGroupUpdate (entityGroupId i g) i g uid"
  unfolding buildEntityGroupUpdates_def by (drule traverse_set) (auto simp: split_beta)

lemma memberships_each:
  "g \<in> set gs \<Longrightarrow> \<exists>uid. buildEntityGroupUpdate (entityGroupId i g) i g uid \<in>
     set (fst (run_state (buildEntityGroupUpdates i gs (updateId ctx)) n))"
  unfolding buildEntityGroupUpdates_def
  using traverse_each [of g gs "\<lambda>groupId. updateId ctx \<bind>
      (\<lambda>uid. State_Monad.return (buildEntityGroupUpdate (entityGroupId i groupId) i groupId uid))" n]
  by auto

text \<open>The content rows a create makes, with their types: the entity and its document entities.\<close>

definition body_ids :: "'s OpContext \<Rightarrow> CreateEntityInput \<Rightarrow> string \<Rightarrow> DerivedBodyIds" where
  "body_ids ctx input f = derivedBodyIds (oc_registry ctx) (ce_entity input) (ce_id input) f"

definition content_rows :: "'s OpContext \<Rightarrow> CreateEntityInput \<Rightarrow> (string \<times> string) set" where
  "content_rows ctx input = insert (ce_id input, ce_entity input)
     ((\<lambda>f. (db_documentId (body_ids ctx input f), db_documentType (body_ids ctx input f))) ` set (obj_keys (ce_bodies input)))"

text \<open>An Update of a create: the put of a content row, a membership of one, or an edge from the entity.\<close>

definition membership_put :: "'s OpContext \<Rightarrow> CreateEntityInput \<Rightarrow> Update \<Rightarrow> bool" where
  "membership_put ctx input u \<longleftrightarrow> (\<exists>i ty g uid. (i, ty) \<in> content_rows ctx input \<and> g \<in> set (ce_groups input) \<and>
     u = buildEntityGroupUpdate (entityGroupId i g) i g uid)"

definition edge_put :: "CreateEntityInput \<Rightarrow> Update \<Rightarrow> bool" where
  "edge_put input u \<longleftrightarrow> (\<exists>relId t f ty uid. u = buildRelationshipUpdate relId (ce_id input) (Some t) f ty uid)"

definition body_put :: "'s OpContext \<Rightarrow> CreateEntityInput \<Rightarrow> Update \<Rightarrow> bool" where
  "body_put ctx input u \<longleftrightarrow> (\<exists>f \<in> set (obj_keys (ce_bodies input)). \<exists>uid v.
     u = entity_update uid (db_documentId (body_ids ctx input f)) (db_documentType (body_ids ctx input f)) Put (Some [(DOC_CONTENT_FIELD, v)]))"

lemma body_updates_run:
  "fst (run_state (body_updates ctx input (f, t0)) k) =
      entity_update (oi_updateId (oc_ids ctx) k) (db_documentId (body_ids ctx input f)) (db_documentType (body_ids ctx input f)) Put
        (Some [(DOC_CONTENT_FIELD, buildInitialContentField t0 (oi_hlc (oc_ids ctx) (Suc k)) (oc_actorId ctx) (oi_updateId (oc_ids ctx) k))]) #
      buildRelationshipUpdate (db_relationshipId (body_ids ctx input f)) (ce_id input) (Some (db_documentId (body_ids ctx input f))) f
        (ce_entity input) (oi_updateId (oc_ids ctx) (Suc (Suc k))) #
      fst (run_state (buildEntityGroupUpdates (db_documentId (body_ids ctx input f)) (ce_groups input) (updateId ctx)) (Suc (Suc (Suc k))))"
  by (simp add: body_updates_def Let_def split_beta flip: body_ids_def)

lemma body_updates_set:
  assumes "u \<in> set (fst (run_state (body_updates ctx input (f, t0)) k))" "f \<in> set (obj_keys (ce_bodies input))"
  shows "body_put ctx input u \<or> edge_put input u \<or> membership_put ctx input u"
proof -
  let ?ids = "body_ids ctx input f"
  have row: "(db_documentId ?ids, db_documentType ?ids) \<in> content_rows ctx input"
    using assms(2) by (auto simp: content_rows_def)
  from assms(1) consider "body_put ctx input u" | "edge_put input u"
    | k' where "u \<in> set (fst (run_state (buildEntityGroupUpdates (db_documentId ?ids) (ce_groups input) (updateId ctx)) k'))"
  proof (simp only: body_updates_run list.set insert_iff, elim disjE)
    assume "u = entity_update (oi_updateId (oc_ids ctx) k) (db_documentId ?ids) (db_documentType ?ids) Put
        (Some [(DOC_CONTENT_FIELD, buildInitialContentField t0 (oi_hlc (oc_ids ctx) (Suc k)) (oc_actorId ctx) (oi_updateId (oc_ids ctx) k))])"
    with assms(2) have "body_put ctx input u" unfolding body_put_def by blast
    then show thesis by (rule that(1))
  next
    assume "u = buildRelationshipUpdate (db_relationshipId ?ids) (ce_id input) (Some (db_documentId ?ids)) f (ce_entity input)
        (oi_updateId (oc_ids ctx) (Suc (Suc k)))"
    then have "edge_put input u" unfolding edge_put_def by blast
    then show thesis by (rule that(2))
  qed (rule that(3))
  then show ?thesis
  proof cases
    case 3
    with row show ?thesis by (auto simp: membership_put_def dest!: memberships_set)
  qed simp_all
qed

text \<open>The rest of the Updates is made of these, with every membership and every document among them.\<close>

definition created_rest :: "'s OpContext \<Rightarrow> CreateEntityInput \<Rightarrow> Update list \<Rightarrow> bool" where
  "created_rest ctx input rest \<longleftrightarrow>
     (\<forall>u \<in> set rest. body_put ctx input u \<or> edge_put input u \<or> membership_put ctx input u) \<and>
     (\<forall>i ty g. (i, ty) \<in> content_rows ctx input \<longrightarrow> g \<in> set (ce_groups input) \<longrightarrow>
       (\<exists>uid. buildEntityGroupUpdate (entityGroupId i g) i g uid \<in> set rest)) \<and>
     (\<forall>f \<in> set (obj_keys (ce_bodies input)). \<exists>uid v. entity_update uid (db_documentId (body_ids ctx input f))
       (db_documentType (body_ids ctx input f)) Put (Some [(DOC_CONTENT_FIELD, v)]) \<in> set rest)"

lemma create_updates:
  assumes "fst (run_state (createEntity tb ctx input) n) = Inr r"
  obtains uid h rest where "create_violations tb ctx input = []"
    "or_updates r = entity_update uid (ce_id input) (ce_entity input) Put (Some (wrapFields (PObj (ce_fields input)) uid h
       (map_option ed_fields (reg_get (oc_registry ctx) (ce_entity input))))) # rest"
    "created_rest ctx input rest"
proof -
  define k2 where "k2 = snd (run_state (buildEntityGroupUpdates (ce_id input) (ce_groups input) (updateId ctx)) (Suc (Suc n)))"
  define ms where "ms = fst (run_state (buildEntityGroupUpdates (ce_id input) (ce_groups input) (updateId ctx)) (Suc (Suc n)))"
  define bs where "bs = fst (run_state (State_Monad.traverse_list (body_updates ctx input) (ce_bodies input)) k2)"
  define ps where "ps = fst (run_state (State_Monad.traverse_list (pointer_update ctx (ce_id input)) (ce_pointers input))
    (snd (run_state (State_Monad.traverse_list (body_updates ctx input) (ce_bodies input)) k2)))"
  from assms have r: "create_violations tb ctx input = []" "or_updates r = entity_update (oi_updateId (oc_ids ctx) n) (ce_id input) (ce_entity input) Put
      (Some (wrapFields (PObj (ce_fields input)) (oi_updateId (oc_ids ctx) n) (oi_hlc (oc_ids ctx) (Suc n))
        (map_option ed_fields (reg_get (oc_registry ctx) (ce_entity input))))) # ms @ concat bs @ ps"
    by (auto simp: createEntity_def Let_def split_beta ms_def bs_def ps_def k2_def split: if_splits)
  have each: "\<exists>k. fst (run_state (body_updates ctx input (f, t0)) k) \<in> set bs" if "(f, t0) \<in> set (ce_bodies input)" for f t0
    unfolding bs_def by (rule traverse_each [OF that])
  have "created_rest ctx input (ms @ concat bs @ ps)"
    unfolding created_rest_def
  proof (intro conjI ballI allI impI)
    fix u assume "u \<in> set (ms @ concat bs @ ps)"
    then consider "u \<in> set ms" | us where "us \<in> set bs" "u \<in> set us" | "u \<in> set ps" by auto
    then show "body_put ctx input u \<or> edge_put input u \<or> membership_put ctx input u"
    proof cases
      case 1
      then show ?thesis by (auto simp: ms_def membership_put_def content_rows_def dest!: memberships_set)
    next
      case 2
      from traverse_set [OF 2(1) [unfolded bs_def]] obtain f t0 k where "(f, t0) \<in> set (ce_bodies input)"
        "us = fst (run_state (body_updates ctx input (f, t0)) k)" by auto
      with 2(2) body_updates_set show ?thesis by (metis fst_conv image_eqI list.set_map)
    next
      case 3
      from traverse_set [OF this [unfolded ps_def]] obtain p k where "u = fst (run_state (pointer_update ctx (ce_id input) p) k)"
        by blast
      then have "u = buildRelationshipUpdate (oi_newId (oc_ids ctx) k ''rel'') (ce_id input) (Some (rp_targetId p)) (rp_as p) (rp_type p)
          (oi_updateId (oc_ids ctx) (Suc k))" by (simp add: pointer_update_def split_beta)
      then have "edge_put input u" unfolding edge_put_def by blast
      then show ?thesis by blast
    qed
  next
    fix i ty g assume row: "(i, ty) \<in> content_rows ctx input" and g: "g \<in> set (ce_groups input)"
    show "\<exists>uid. buildEntityGroupUpdate (entityGroupId i g) i g uid \<in> set (ms @ concat bs @ ps)"
    proof (cases "i = ce_id input")
      case True
      with memberships_each [OF g, of i ctx] show ?thesis by (auto simp: ms_def)
    next
      case False
      with row obtain f t0 where f: "(f, t0) \<in> set (ce_bodies input)" "i = db_documentId (body_ids ctx input f)"
        by (auto simp: content_rows_def)
      from each [OF f(1)] obtain k where k: "fst (run_state (body_updates ctx input (f, t0)) k) \<in> set bs" by blast
      from memberships_each [OF g, of i ctx] obtain uid where "buildEntityGroupUpdate (entityGroupId i g) i g uid \<in>
          set (fst (run_state (buildEntityGroupUpdates i (ce_groups input) (updateId ctx)) (Suc (Suc (Suc k)))))" by blast
      then have "buildEntityGroupUpdate (entityGroupId i g) i g uid \<in> set (fst (run_state (body_updates ctx input (f, t0)) k))"
        by (simp add: body_updates_run f(2))
      with k have "buildEntityGroupUpdate (entityGroupId i g) i g uid \<in> set (ms @ concat bs @ ps)" by auto
      then show ?thesis ..
    qed
  next
    fix f assume "f \<in> set (obj_keys (ce_bodies input))"
    then obtain t0 where "(f, t0) \<in> set (ce_bodies input)" by auto
    from each [OF this] obtain k where k: "fst (run_state (body_updates ctx input (f, t0)) k) \<in> set bs" by blast
    have "entity_update (oi_updateId (oc_ids ctx) k) (db_documentId (body_ids ctx input f)) (db_documentType (body_ids ctx input f)) Put
        (Some [(DOC_CONTENT_FIELD, buildInitialContentField t0 (oi_hlc (oc_ids ctx) (Suc k)) (oc_actorId ctx) (oi_updateId (oc_ids ctx) k))])
        \<in> set (fst (run_state (body_updates ctx input (f, t0)) k))" by (simp add: body_updates_run)
    with k show "\<exists>uid v. entity_update uid (db_documentId (body_ids ctx input f)) (db_documentType (body_ids ctx input f)) Put
        (Some [(DOC_CONTENT_FIELD, v)]) \<in> set (ms @ concat bs @ ps)" by auto
  qed
  with r show thesis by (rule that)
qed

section \<open>The registry accepts it\<close>

lemma validate_updates:
  assumes "\<And>u i. u \<in> set (act_updates a) \<Longrightarrow> update_violations reg i u = []"
  shows "validateAction reg a = []"
  using assms by (auto simp: validateAction_def dest!: set_zip_rightD)

lemma declared_update:
  assumes "reg_get reg (subject_type u) = Some d" "set (obj_keys (getOr (upd_data u) [])) \<subseteq> set (obj_keys (ed_fields d))"
  shows "update_violations reg i u = []"
proof -
  have "js_in f (ed_fields d)" if "f \<in> set (obj_keys (getOr (upd_data u) []))" for f
  proof -
    from that assms(2) have "f \<in> set (obj_keys (ed_fields d))" by blast
    then show ?thesis by (auto simp: js_in_def dest: weak_map_of_SomeI)
  qed
  with assms(1) show ?thesis
    by (auto simp: update_violations_def reg_get_def getOr_def filter_empty_conv split: option.split)
qed

lemma validated_keys:
  assumes "validatePayload tb shape (PObj kvs) entity isPartial = []"
  shows "set (obj_keys kvs) \<subseteq> set (obj_keys shape)"
proof
  fix key assume "key \<in> set (obj_keys kvs)"
  with assms have "map_of shape key \<noteq> None"
    by (auto simp: validatePayload_def object_entries_def filter_empty_conv)
  then show "key \<in> set (obj_keys shape)" by (metis map_of_eq_None_iff list.set_map)
qed

lemma wrapFields_keys: "set (obj_keys (wrapFields (PObj kvs) uid h ms)) \<subseteq> set (obj_keys kvs)"
  by (force simp: wrapFields_def object_entries_def getOr_def)


definition sample_create :: CreateEntityInput where
  "sample_create = \<lparr>ce_entity = ''todo'', ce_id = ''e_1'', ce_fields = [(''title'', PStr ''a''), (''tags'', PStr ''b'')],
     ce_pointers = [], ce_bodies = [(''body'', ''hi'')], ce_groups = [''g''], ce_validate = True\<rparr>"


end
