(* ===== verification/BootstrapProps.thy ===== *)
theory BootstrapProps
  imports CreateProps
begin

text \<open>
  A draft that bootstraps a group and creates rows in it: one Action with the group, the actor's own membership with
  every permission, and the rows. The permission pre-check of the client is to accept it although the actor's
  cached groups know nothing of the new group; what carries it is that the check reads the grants, the types and the
  group sets off the Action itself.
\<close>

section \<open>Folds that write one value\<close>

lemma fold_one_value:
  assumes "\<And>u m. u \<in> set us \<Longrightarrow> map_of (f u m) k = (if Q u then Some v else map_of m k)"
  shows "map_of (fold f us m) k = (if \<exists>u \<in> set us. Q u then Some v else map_of m k)"
  using assms by (induction us arbitrary: m) auto

lemma none_collected: "(\<And>x. x \<in> set xs \<Longrightarrow> P x \<Longrightarrow> f x = None) \<Longrightarrow> List.map_filter f (filter P xs) = []"
  by (induction xs) (auto simp: map_filter_simps)

section \<open>The Updates of the bootstrap\<close>

text \<open>The actor's membership of the new group, as the pre-check reads it.\<close>

definition member_put :: "string \<Rightarrow> string \<Rightarrow> string list \<Rightarrow> Update \<Rightarrow> bool" where
  "member_put actorId g ps u \<longleftrightarrow> subject_type u = ''groupMember'' \<and> upd_method u = Put \<and>
     fieldValue u ''actor_id'' = Some (JStr actorId) \<and> fieldValue u ''group_id'' = Some (JStr g) \<and>
     fieldValue u ''permissions'' = Some (JArr (map JStr ps))"

definition group_put :: "string \<Rightarrow> Update \<Rightarrow> bool" where
  "group_put g u \<longleftrightarrow> subject_type u = ''group'' \<and> upd_method u = Put \<and> subject_id u = g"

lemma value_json_strings: "value_json (PArr (map PStr ps)) = JArr (map JStr ps)"
  by (induction ps) auto

lemma as_strings [simp]: "asStringArray (Some (JArr (map JStr ps))) = ps"
  by (induction ps) (simp_all add: asStringArray_def List.map_filter_simps)

lemma create_system_run:
  assumes "fst (run_state (createSystemEntity tb ctx input) n) = Inr r"
  shows "\<exists>uid h markers. or_updates r = [entity_update uid (cs_id input) (cs_entity input) Put (Some (wrapFields (PObj (cs_fields input)) uid h markers))]"
  using assms by (fastforce simp: createSystemEntity_def Let_def split: if_splits)

lemma member_fields:
  "member_put actorId g ps (entity_update uid i ''groupMember'' Put (Some (wrapFields
     (PObj [(''group_id'', PStr g), (''actor_id'', PStr actorId), (''permissions'', PArr (map PStr ps))]) uid h markers)))"
  by (simp add: member_put_def entity_update_def fieldValue_def wrapFields_def object_entries_def getOr_def wrap_field_def
      isUnset_def isPlainObject_def is_array_def value_json_strings split: option.split)

lemma create_group_updates:
  assumes "fst (run_state (createGroup tb ctx input) n) = Inr r"
  shows "\<exists>gu mu. or_updates r = [gu, mu] \<and> group_put (cg_groupId input) gu \<and>
    member_put (oc_actorId ctx) (cg_groupId input) (cg_permissions input) mu"
proof -
  from assms obtain g m n1 n2 gi where g: "fst (run_state (createSystemEntity tb ctx \<lparr>cs_entity = ''group'', cs_id = cg_groupId input,
       cs_fields = gi, cs_validate = cg_validate input\<rparr>) n1) = Inr g"
    and m: "fst (run_state (createSystemEntity tb ctx \<lparr>cs_entity = ''groupMember'', cs_id = cg_memberId input,
       cs_fields = [(''group_id'', PStr (cg_groupId input)), (''actor_id'', PStr (oc_actorId ctx)),
         (''permissions'', PArr (map PStr (cg_permissions input)))], cs_validate = cg_validate input\<rparr>) n2) = Inr m"
    and r: "or_updates r = or_updates g @ or_updates m"
    by (fastforce simp: createGroup_def split_beta map_sum_Inr split: sum.splits)
  from create_system_run [OF g] create_system_run [OF m] r show ?thesis
    by (fastforce simp: group_put_def entity_update_def intro: member_fields [unfolded entity_update_def])
qed

section \<open>What the pre-check reads off the Action\<close>

text \<open>The Updates of such an Action: the group, the membership, and the content rows with their filings and edges.\<close>

definition row_put :: "(string \<times> string) set \<Rightarrow> Update \<Rightarrow> bool" where
  "row_put rows u \<longleftrightarrow> (subject_id u, subject_type u) \<in> rows \<and> upd_method u = Put"

definition filing_put :: "(string \<times> string) set \<Rightarrow> string \<Rightarrow> Update \<Rightarrow> bool" where
  "filing_put rows g u \<longleftrightarrow> subject_type u = ''entityGroup'' \<and> upd_method u = Put \<and>
     (\<exists>(i, t) \<in> rows. fieldValue u ''entity_id'' = Some (JStr i)) \<and> fieldValue u ''group_id'' = Some (JStr g)"

definition source_put :: "(string \<times> string) set \<Rightarrow> Update \<Rightarrow> bool" where
  "source_put rows u \<longleftrightarrow> subject_type u = ''relationship'' \<and> upd_method u = Put \<and>
     (\<exists>(i, t) \<in> rows. fieldValue u ''source_id'' = Some (JStr i))"

definition bootstrapped :: "string \<Rightarrow> string \<Rightarrow> string list \<Rightarrow> (string \<times> string) set \<Rightarrow> Update list \<Rightarrow> bool" where
  "bootstrapped actorId g ps rows us \<longleftrightarrow>
     (\<forall>u \<in> set us. group_put g u \<or> member_put actorId g ps u \<or> row_put rows u \<or> filing_put rows g u \<or> source_put rows u) \<and>
     (\<exists>u \<in> set us. group_put g u) \<and> (\<exists>u \<in> set us. member_put actorId g ps u) \<and>
     (\<forall>(i, t) \<in> rows. (\<exists>u \<in> set us. subject_id u = i \<and> subject_type u = t \<and> upd_method u = Put) \<and>
       (\<exists>u \<in> set us. inflight_group i u = Some g))"

text \<open>Content rows: no system type, every id under one type, none of them stored.\<close>

definition fresh_rows :: "StorageReads \<Rightarrow> (string \<times> string) set \<Rightarrow> bool" where
  "fresh_rows storage rows \<longleftrightarrow> (\<forall>(i, t) \<in> rows. t \<notin> set SYSTEM_TYPES \<and> sr_get storage i = None \<and> (\<forall>t'. (i, t') \<in> rows \<longrightarrow> t' = t))"

lemma fresh_rowsD:
  assumes "fresh_rows storage rows" "(i, t) \<in> rows"
  shows "t \<notin> set SYSTEM_TYPES" and "sr_get storage i = None" and "(i, t') \<in> rows \<Longrightarrow> t' = t"
  using assms unfolding fresh_rows_def by fast+

lemma bootstrappedD:
  assumes "bootstrapped actorId g ps rows us"
  shows "\<exists>u \<in> set us. group_put g u" and "\<exists>u \<in> set us. member_put actorId g ps u"
    and "(i, t) \<in> rows \<Longrightarrow> \<exists>u \<in> set us. subject_id u = i \<and> subject_type u = t \<and> upd_method u = Put"
    and "(i, t) \<in> rows \<Longrightarrow> \<exists>u \<in> set us. inflight_group i u = Some g"
  using assms unfolding bootstrapped_def by fast+

lemmas put_kinds = group_put_def member_put_def row_put_def filing_put_def source_put_def

lemma system_types [simp]:
  "''group'' \<in> set SYSTEM_TYPES" "''groupMember'' \<in> set SYSTEM_TYPES" "''relationship'' \<in> set SYSTEM_TYPES" "''entityGroup'' \<in> set SYSTEM_TYPES"
  by (simp_all add: SYSTEM_TYPES_def)

lemma bootstrapped_cases:
  assumes "bootstrapped actorId g ps rows us" "u \<in> set us"
  obtains "group_put g u" | "member_put actorId g ps u" | "row_put rows u" | "filing_put rows g u" | "source_put rows u"
  using assms by (auto simp: bootstrapped_def)

lemma bootstrap_grant:
  assumes b: "bootstrapped (cx_actorId ctx) g ps rows us" and "sr_get (cx_storage ctx) g = None" and "fresh_rows (cx_storage ctx) rows"
  shows "map_of (bootstrap_grants ctx us) g = Some ps"
proof -
  have new: "g \<in> set (new_groups (cx_storage ctx) us)"
    using bootstrappedD(1) [OF b] assms(2) by (force simp: new_groups_def group_put_def)
  have "member_put (cx_actorId ctx) g ps u" if "u \<in> set us" "subject_type u = ''groupMember''" for u
    using b that(1)
  proof (cases rule: bootstrapped_cases)
    case 3
    with assms(3) have "subject_type u \<notin> set SYSTEM_TYPES" by (auto simp: row_put_def dest: fresh_rowsD(1))
    with that(2) show ?thesis by simp
  qed (use that in \<open>auto simp: put_kinds\<close>)
  then have "map_of (bootstrap_grants ctx us) g = (if \<exists>u \<in> set us. subject_type u = ''groupMember'' then Some ps else map_of [] g)"
    unfolding bootstrap_grants_def by (intro fold_one_value) (simp add: new member_put_def asString_def obj_set_get)
  moreover have "\<exists>u \<in> set us. subject_type u = ''groupMember''" using bootstrappedD(2) [OF b] by (auto simp: member_put_def)
  ultimately show ?thesis by simp
qed

lemma row_type:
  assumes b: "bootstrapped actorId g ps rows us" and "fresh_rows storage rows" and "(i, t) \<in> rows"
  shows "map_of (created_types us) i = Some t"
proof -
  have "subject_type u = t" if "u \<in> set us" "subject_type u \<notin> set SYSTEM_TYPES" "subject_id u = i" for u
    using b that(1)
  proof (cases rule: bootstrapped_cases)
    case 3
    with that(3) have "(i, subject_type u) \<in> rows" by (simp add: row_put_def)
    with assms(2,3) show ?thesis by (rule fresh_rowsD(3))
  qed (use that in \<open>auto simp: put_kinds\<close>)
  then have "map_of (created_types us) i =
      (if \<exists>u \<in> set us. subject_type u \<notin> set SYSTEM_TYPES \<and> upd_method u = Put \<and> subject_id u = i then Some t else map_of [] i)"
    unfolding created_types_def by (intro fold_one_value) (simp add: obj_set_get)
  moreover note bootstrappedD(3) [OF b assms(3)] fresh_rowsD(1) [OF assms(2,3)]
  ultimately show ?thesis by auto
qed

lemma row_resolved:
  assumes "bootstrapped actorId g ps rows us" "fresh_rows storage rows" "(i, t) \<in> rows"
  shows "write_resolveType storage us i = Some t" and "i \<in> set (created_ids storage us)" and "g \<in> set (write_groupSetFor storage us i)"
proof -
  note fresh = fresh_rowsD(2) [OF assms(2,3)]
  with row_type [OF assms] show "write_resolveType storage us i = Some t" by (simp add: write_resolveType_def)
  from row_type [OF assms] have "i \<in> set (obj_keys (created_types us))" by (metis domI dom_map_of_conv_image_fst list.set_map)
  with fresh show "i \<in> set (created_ids storage us)" by (simp add: created_ids_def)
  from bootstrappedD(4) [OF assms(1,3)] show "g \<in> set (write_groupSetFor storage us i)" by (force simp: write_groupSetFor_def map_filter_def)
qed

lemma granted_rule:
  assumes "map_of bootstrap g = Some ps" "t @ ''.*'' \<in> set ps" "g \<in> set gs"
  shows "ruleHolds (rule_for t v gs False) (buildPermissionsFor cached bootstrap)"
  using assms by (auto simp: ruleHolds_iff rule_for_def buildPermissionsFor_def Let_def grantsPermission_def getOr_def)

lemma update_passes:
  assumes b: "bootstrapped (cx_actorId ctx) g ps rows us" and g: "sr_get (cx_storage ctx) g = None" and r: "fresh_rows (cx_storage ctx) rows"
    and ps: "\<And>i t. (i, t) \<in> rows \<Longrightarrow> t @ ''.*'' \<in> set ps"
    and edges: "\<And>u. u \<in> set us \<Longrightarrow> subject_type u = ''relationship'' \<Longrightarrow> sr_get (cx_storage ctx) (subject_id u) = None"
    and u: "u \<in> set us" and not_exempt: "\<not> isBootstrapExempt ctx us u"
  shows "check_update ctx us released u = None"
proof -
  note grant = bootstrap_grant [OF b g r]
  have holds: "write_groupSetFor (cx_storage ctx) us i \<noteq> [] \<and> write_resolveType (cx_storage ctx) us i = Some t \<and>
      ruleHolds (rule_for t v (write_groupSetFor (cx_storage ctx) us i) False)
        (buildPermissionsFor (cached_permissions ctx) (bootstrap_grants ctx us))" if "(i, t) \<in> rows" for i t v
  proof -
    note row = row_resolved [OF b r that]
    from granted_rule [OF grant ps [OF that] row(3)] row show ?thesis by (metis empty_iff empty_set)
  qed
  from b u show ?thesis
  proof (cases rule: bootstrapped_cases)
    case 1
    with not_exempt grant show ?thesis by (simp add: isBootstrapExempt_def group_put_def)
  next
    case 2
    with not_exempt grant show ?thesis by (simp add: isBootstrapExempt_def member_put_def asString_def)
  next
    case 3
    then have row: "(subject_id u, subject_type u) \<in> rows" and put: "upd_method u = Put" by (simp_all add: row_put_def)
    from fresh_rowsD(1) [OF r row] have "subject_type u \<noteq> ''group''" "subject_type u \<noteq> ''groupMember''"
      "subject_type u \<noteq> ''relationship''" "subject_type u \<noteq> ''entityGroup''" by auto
    with holds [OF row, of VCreate] put show ?thesis
      by (simp add: check_update_def resolveRule_def write_inputs_def METHOD_VERB_def decideRule_def Let_def)
  next
    case 4
    then obtain i t where i: "(i, t) \<in> rows" "fieldValue u ''entity_id'' = Some (JStr i)" by (auto simp: filing_put_def)
    from row_resolved(2) [OF b r i(1)] i(2) 4 grant have "isBootstrapExempt ctx us u"
      by (simp add: isBootstrapExempt_def filing_put_def asString_def)
    with not_exempt show ?thesis by contradiction
  next
    case 5
    then obtain i t where i: "(i, t) \<in> rows" "fieldValue u ''source_id'' = Some (JStr i)"
      and rel: "subject_type u = ''relationship''" "upd_method u = Put" by (auto simp: source_put_def)
    from holds [OF i(1), of VUpdate] i(2) rel edges [OF u rel(1)] show ?thesis
      by (simp add: check_update_def resolveRule_def resolveRelationship_def committedRelationshipSource_def resolve_unmoved_def
          write_inputs_def asString_def decideRule_def Let_def)
  qed
qed

section \<open>The Action of the draft\<close>

lemma run_creates:
  assumes "fst (run_state (run_calls tb ctx (map CallCreate inputs)) n) = Inr rs"
  shows "list_all2 (\<lambda>input r. \<exists>k. fst (run_state (createEntity tb ctx input) k) = Inr r) inputs rs"
  using assms
proof (induction inputs arbitrary: n rs)
  case (Cons input inputs)
  then show ?case
    by (fastforce simp: run_call_def split_beta map_sum_Inr split: sum.splits)
qed simp

lemma all2_members:
  assumes "list_all2 P xs ys"
  shows "x \<in> set xs \<Longrightarrow> \<exists>y \<in> set ys. P x y" and "y \<in> set ys \<Longrightarrow> \<exists>x \<in> set xs. P x y"
  using assms by (induction rule: list_all2_induct) auto

definition draft_rows :: "'s OpContext \<Rightarrow> CreateEntityInput list \<Rightarrow> (string \<times> string) set" where
  "draft_rows ctx inputs = (\<Union>input \<in> set inputs. content_rows ctx input)"

lemma filing_of [simp]:
  "filing_put rows g (buildEntityGroupUpdate m i g uid) \<longleftrightarrow> (\<exists>t. (i, t) \<in> rows)"
  "inflight_group i (buildEntityGroupUpdate m i g uid) = Some g"
  by (auto simp: filing_put_def inflight_group_def buildEntityGroupUpdate_def fieldValue_def asString_def)

lemma edge_source [simp]: "source_put rows (buildRelationshipUpdate relId i (Some target) f ty uid) \<longleftrightarrow> (\<exists>t. (i, t) \<in> rows)"
  by (auto simp: source_put_def buildRelationshipUpdate_def fieldValue_def)

lemma row_of [simp]: "row_put rows (entity_update uid i t Put dat) \<longleftrightarrow> (i, t) \<in> rows"
  by (simp add: row_put_def entity_update_def)

lemma create_bootstrapped:
  assumes "fst (run_state (createEntity tb ctx input) n) = Inr r" and "ce_groups input = [g]" and rows: "content_rows ctx input \<subseteq> rows"
  shows "\<forall>u \<in> set (or_updates r). row_put rows u \<or> filing_put rows g u \<or> source_put rows u"
    and "(i, t) \<in> content_rows ctx input \<Longrightarrow> (\<exists>u \<in> set (or_updates r). subject_id u = i \<and> subject_type u = t \<and> upd_method u = Put) \<and>
       (\<exists>u \<in> set (or_updates r). inflight_group i u = Some g)"
proof -
  obtain uid h rest ms where u: "or_updates r = entity_update uid (ce_id input) (ce_entity input) Put ms # rest"
    and rest: "created_rest ctx input rest" by (rule create_updates [OF assms(1)])
  have own: "(ce_id input, ce_entity input) \<in> content_rows ctx input" by (simp add: content_rows_def)
  have "row_put rows u \<or> filing_put rows g u \<or> source_put rows u" if "u \<in> set rest" for u
  proof -
    from rest that consider "body_put ctx input u" | "edge_put input u" | "membership_put ctx input u" by (auto simp: created_rest_def)
    then show ?thesis
    proof cases
      case 1
      then obtain f uid v where f: "f \<in> set (obj_keys (ce_bodies input))" and u: "u = entity_update uid (db_documentId (body_ids ctx input f))
          (db_documentType (body_ids ctx input f)) Put (Some [(DOC_CONTENT_FIELD, v)])" unfolding body_put_def by blast
      from f rows have "(db_documentId (body_ids ctx input f), db_documentType (body_ids ctx input f)) \<in> rows"
        unfolding content_rows_def by blast
      then show ?thesis by (simp add: u)
    next
      case 2
      from own rows have "(ce_id input, ce_entity input) \<in> rows" by blast
      with 2 have "source_put rows u" by (fastforce simp: edge_put_def)
      then show ?thesis by simp
    next
      case 3
      with assms(2) obtain i t uid where "(i, t) \<in> content_rows ctx input" and u: "u = buildEntityGroupUpdate (entityGroupId i g) i g uid"
        by (auto simp: membership_put_def)
      with rows have "filing_put rows g u" unfolding u filing_of(1) by blast
      then show ?thesis by simp
    qed
  qed
  with own rows show "\<forall>u \<in> set (or_updates r). row_put rows u \<or> filing_put rows g u \<or> source_put rows u" by (auto simp: u)
  show "(\<exists>u \<in> set (or_updates r). subject_id u = i \<and> subject_type u = t \<and> upd_method u = Put) \<and>
       (\<exists>u \<in> set (or_updates r). inflight_group i u = Some g)" if it: "(i, t) \<in> content_rows ctx input"
  proof (rule conjI)
    from rest it assms(2) obtain uid' where "buildEntityGroupUpdate (entityGroupId i g) i g uid' \<in> set rest"
      by (auto simp: created_rest_def)
    then show "\<exists>u \<in> set (or_updates r). inflight_group i u = Some g"
      using filing_of(2) by (fastforce simp: u)
    from it consider "i = ce_id input" "t = ce_entity input" | f where "f \<in> set (obj_keys (ce_bodies input))"
        "i = db_documentId (body_ids ctx input f)" "t = db_documentType (body_ids ctx input f)" by (auto simp: content_rows_def)
    then show "\<exists>u \<in> set (or_updates r). subject_id u = i \<and> subject_type u = t \<and> upd_method u = Put"
    proof cases
      case 1
      then show ?thesis by (simp add: u entity_update_def)
    next
      case 2
      with rest obtain uid' v where "entity_update uid' i t Put (Some [(DOC_CONTENT_FIELD, v)]) \<in> set rest"
        unfolding created_rest_def by blast
      then show ?thesis by (force simp: u entity_update_def)
    qed
  qed
qed

lemma draft_bootstrapped:
  assumes run: "fst (run_state (run_calls tb ctx (CallCreateGroup boot # map CallCreate inputs)) n) = Inr rs"
    and groups: "\<forall>input \<in> set inputs. ce_groups input = [cg_groupId boot]"
  shows "bootstrapped (oc_actorId ctx) (cg_groupId boot) (cg_permissions boot) (draft_rows ctx inputs) (concat (map or_updates rs))"
proof -
  from run obtain rg rest k where g: "fst (run_state (createGroup tb ctx boot) n) = Inr rg"
    and c: "fst (run_state (run_calls tb ctx (map CallCreate inputs)) k) = Inr rest" and rs: "rs = rg # rest"
    by (fastforce simp: run_call_def split_beta map_sum_Inr split: sum.splits)
  from create_group_updates [OF g] obtain gu mu where gu: "or_updates rg = [gu, mu]" "group_put (cg_groupId boot) gu"
    "member_put (oc_actorId ctx) (cg_groupId boot) (cg_permissions boot) mu" by blast
  note each = run_creates [OF c]
  have sub: "content_rows ctx input \<subseteq> draft_rows ctx inputs" if "input \<in> set inputs" for input
    using that by (auto simp: draft_rows_def)
  have kinds: "row_put (draft_rows ctx inputs) u \<or> filing_put (draft_rows ctx inputs) (cg_groupId boot) u \<or> source_put (draft_rows ctx inputs) u"
    if r: "r \<in> set rest" "u \<in> set (or_updates r)" for r u
  proof -
    from all2_members(2) [OF each r(1)] obtain input k where input: "input \<in> set inputs" "fst (run_state (createEntity tb ctx input) k) = Inr r"
      by blast
    from create_bootstrapped(1) [OF input(2) _ sub [OF input(1)]] groups input(1) r(2) show ?thesis by blast
  qed
  have rows: "(\<exists>u \<in> set (concat (map or_updates rest)). subject_id u = i \<and> subject_type u = t \<and> upd_method u = Put) \<and>
      (\<exists>u \<in> set (concat (map or_updates rest)). inflight_group i u = Some (cg_groupId boot))" if it: "(i, t) \<in> draft_rows ctx inputs" for i t
  proof -
    from it obtain input where input: "input \<in> set inputs" "(i, t) \<in> content_rows ctx input" by (auto simp: draft_rows_def)
    from all2_members(1) [OF each input(1)] obtain r k where r: "r \<in> set rest" "fst (run_state (createEntity tb ctx input) k) = Inr r"
      by blast
    have "(\<exists>u \<in> set (or_updates r). subject_id u = i \<and> subject_type u = t \<and> upd_method u = Put) \<and>
        (\<exists>u \<in> set (or_updates r). inflight_group i u = Some (cg_groupId boot))"
      using groups input(1) by (intro create_bootstrapped(2) [OF r(2) _ sub [OF input(1)] input(2)]) simp
    then show ?thesis using r(1) by auto
  qed
  show ?thesis
    unfolding bootstrapped_def rs using gu kinds rows by auto
qed

lemma full_permissions: "reg_has reg t \<Longrightarrow> t @ ''.*'' \<in> set (fullGroupPermissions reg)"
  by (force simp: fullGroupPermissions_def reg_has_def entityNames_def map_of_eq_None_iff)

text \<open>
  C13: A draft may create a group and fill it in one Action. The client's committer runs the bootstrap of a group and any
  creates that file their rows in it; the Action it submits passes the permission pre-check, whatever groups the
  actor's handshake listed. The rows have registered types that are not the system's, an id is created under one type,
  and neither the group, the rows nor the edges exist already.
\<close>

theorem bootstrap_passes_precheck:
  assumes "boot = fst (groupBootstrap nanoid k (oc_registry ctx) name validate appId)"
    and "fst (run_state (commit tb ctx submit (CallCreateGroup boot # map CallCreate inputs)) n) = Inr res"
    and "cr_submitted res = Some (act_updates a)"
    and "\<forall>input \<in> set inputs. ce_groups input = [cg_groupId boot]"
    and "\<forall>(i, t) \<in> draft_rows ctx inputs. reg_has (oc_registry ctx) t"
    and "fresh_rows (cx_storage cctx) (draft_rows ctx inputs)"
    and "sr_get (cx_storage cctx) (cg_groupId boot) = None"
    and "\<forall>u \<in> set (act_updates a). subject_type u = ''relationship'' \<longrightarrow> sr_get (cx_storage cctx) (subject_id u) = None"
    and "cx_actorId cctx = oc_actorId ctx"
  shows "collectPermissionViolations [a] cctx = []"
proof -
  from assms(2,3) obtain rs where rs: "fst (run_state (run_calls tb ctx (CallCreateGroup boot # map CallCreate inputs)) n) = Inr rs"
    and us: "act_updates a = concat (map or_updates rs)"
    by (auto simp: commit_def split_beta map_sum_Inr Let_def split: if_splits)
  have ps: "t @ ''.*'' \<in> set (cg_permissions boot)" if "(i, t) \<in> draft_rows ctx inputs" for i t
    using assms(5) that full_permissions by (fastforce simp: assms(1) groupBootstrap_def split_beta)
  have passes: "check_update cctx (act_updates a) released u = None"
    if "u \<in> set (act_updates a)" "\<not> isBootstrapExempt cctx (act_updates a) u" for u released
    using draft_bootstrapped [OF rs assms(4)] assms(6,7,8) that ps
    by (intro update_passes [where rows = "draft_rows ctx inputs" and g = "cg_groupId boot" and ps = "cg_permissions boot"]) (auto simp: us assms(9))
  have "List.map_filter (check_update cctx (act_updates a) released) (filter (\<lambda>u. \<not> isBootstrapExempt cctx (act_updates a) u) (act_updates a)) = []"
    for released by (rule none_collected) (rule passes)
  then show ?thesis by (simp add: collectPermissionViolations_def collectActionViolations_def Let_def)
qed

definition sample_storage :: StorageReads where
  "sample_storage = \<lparr>sr_get = (\<lambda>_. None), sr_query = (\<lambda>_. []), sr_membershipLinks = (\<lambda>_. [])\<rparr>"

definition sample_actor :: PermissionContext where
  "sample_actor = \<lparr>cx_actorId = ''a_1'', cx_actorGroups = [(''g_old'', [])], cx_storage = sample_storage\<rparr>"

definition sample_boot :: CreateGroupInput where
  "sample_boot = fst (groupBootstrap dec_nat 0 sample_registry ''team'' True (Some ''app''))"

definition sample_filed :: CreateEntityInput where
  "sample_filed = sample_create\<lparr>ce_groups := [cg_groupId sample_boot]\<rparr>"

definition sample_commit :: CommitResult where
  "sample_commit = projr (fst (run_state (commit sample_tb sample_ctx_ops (\<lambda>_. []) [CallCreateGroup sample_boot, CallCreate sample_filed]) 0))"

lemma sample_draft_rows:
  "draft_rows sample_ctx_ops [sample_filed] = {(''e_1'', ''todo''),
     (db_documentId (body_ids sample_ctx_ops sample_filed ''body''), db_documentType (body_ids sample_ctx_ops sample_filed ''body''))}"
  by (simp add: draft_rows_def content_rows_def sample_filed_def sample_create_def)

lemma sample_draft_fresh: "fresh_rows sample_storage (draft_rows sample_ctx_ops [sample_filed])"
proof -
  have "db_documentId (body_ids sample_ctx_ops sample_filed ''body'') \<noteq> ''e_1''"
    "db_documentType (body_ids sample_ctx_ops sample_filed ''body'') \<notin> set SYSTEM_TYPES" "''todo'' \<notin> set SYSTEM_TYPES" by code_simp+
  then show ?thesis unfolding sample_draft_rows fresh_rows_def by (auto simp: sample_storage_def)
qed

theorem bootstrap_passes_precheck_witness:
  "\<exists>a. cr_submitted sample_commit = Some (act_updates a) \<and> length (act_updates a) = 7 \<and> collectPermissionViolations [a] sample_actor = []"
proof -
  define a where "a = \<lparr>act_id = ''act'', actor_id = ''a_1'', act_hlc = 0, act_gsn = 0, act_updates = the (cr_submitted sample_commit)\<rparr>"
  have "\<not> isl (fst (run_state (commit sample_tb sample_ctx_ops (\<lambda>_. []) [CallCreateGroup sample_boot, CallCreate sample_filed]) 0))" by code_simp
  then have run: "fst (run_state (commit sample_tb sample_ctx_ops (\<lambda>_. []) (CallCreateGroup sample_boot # map CallCreate [sample_filed])) 0) = Inr sample_commit"
    by (simp add: sample_commit_def)
  have "cr_submitted sample_commit \<noteq> None" by code_simp
  then have sent: "cr_submitted sample_commit = Some (act_updates a)" by (auto simp: a_def)
  have seven: "length (the (cr_submitted sample_commit)) = 7" by code_simp
  have "reg_has sample_registry ''todo''" "reg_has sample_registry (db_documentType (body_ids sample_ctx_ops sample_filed ''body''))" by code_simp+
  moreover have ctx: "oc_registry sample_ctx_ops = sample_registry" "oc_actorId sample_ctx_ops = ''a_1''" by (simp_all add: sample_ctx_ops_def)
  ultimately have registered: "\<forall>(i, t) \<in> draft_rows sample_ctx_ops [sample_filed]. reg_has (oc_registry sample_ctx_ops) t"
    unfolding sample_draft_rows by simp
  have fresh: "fresh_rows (cx_storage sample_actor) (draft_rows sample_ctx_ops [sample_filed])"
    and none: "sr_get (cx_storage sample_actor) i = None" and actor: "cx_actorId sample_actor = oc_actorId sample_ctx_ops" for i
    using sample_draft_fresh by (simp_all add: sample_actor_def sample_storage_def ctx)
  have boot: "sample_boot = fst (groupBootstrap dec_nat 0 (oc_registry sample_ctx_ops) ''team'' True (Some ''app''))"
    by (simp add: sample_boot_def ctx)
  have groups: "\<forall>input \<in> set [sample_filed]. ce_groups input = [cg_groupId sample_boot]" by (simp add: sample_filed_def)
  have "collectPermissionViolations [a] sample_actor = []"
    by (rule bootstrap_passes_precheck [OF boot run sent groups registered fresh none _ actor]) (simp add: none)
  with sent seven show ?thesis by (intro exI [of _ a]) simp
qed

end
